(* ===== verification/Prelude.thy ===== *)
theory Prelude
  imports Main "HOL-Library.AList" "HOL-Library.Multiset"
begin

text \<open>
  What every component of the development shares: identifiers, hash maps, bounded
  double-ended queues and the contracts that state machines and merge operations satisfy.

  \<^item> Identifiers (UUIDs, event ids, public keys) are represented by their canonical text
    form; the code only compares and prints them.
  \<^item> A \<open>HashMap\<close> or \<open>DashMap\<close> is an association list with distinct keys. The order of the
    list is the map's iteration order. Rust fixes no such order: every theorem about one
    operation holds for every order of the list, and the step relations have a rehash step
    that permutes it.
  \<^item> Instants and durations are natural numbers of nanoseconds.
\<close>

type_synonym uuid = string
type_synonym instant = nat
type_synonym ('k, 'v) hmap = "('k \<times> 'v) list"

abbreviation keys :: "('k, 'v) hmap \<Rightarrow> 'k list" where
  "keys m \<equiv> map fst m"

abbreviation hget :: "('k, 'v) hmap \<Rightarrow> 'k \<Rightarrow> 'v option" where
  "hget m k \<equiv> map_of m k"

abbreviation hinsert :: "'k \<Rightarrow> 'v \<Rightarrow> ('k, 'v) hmap \<Rightarrow> ('k, 'v) hmap" where
  "hinsert k v m \<equiv> AList.update k v m"

abbreviation hremove :: "'k \<Rightarrow> ('k, 'v) hmap \<Rightarrow> ('k, 'v) hmap" where
  "hremove k m \<equiv> AList.delete k m"

text \<open>\<open>HashMap::contains_key\<close>, \<open>HashMap::retain\<close> and \<open>unwrap_or_default\<close> on vectors.\<close>

definition hcontains :: "('k, 'v) hmap \<Rightarrow> 'k \<Rightarrow> bool" where
  "hcontains m k \<longleftrightarrow> hget m k \<noteq> None"

definition hretain :: "('k \<Rightarrow> 'v \<Rightarrow> bool) \<Rightarrow> ('k, 'v) hmap \<Rightarrow> ('k, 'v) hmap" where
  "hretain P m = filter (\<lambda>(k, v). P k v) m"

definition or_empty :: "'a list option \<Rightarrow> 'a list" where
  "or_empty o' = (case o' of None \<Rightarrow> [] | Some xs \<Rightarrow> xs)"

text \<open>Collections: the facts about maps and the preservation lemmas of the components.\<close>

named_theorems hmap_simps "lookup and key equations of hash-map operations"
named_theorems inv_intros "preservation lemmas of component invariants"

section \<open>Hash maps\<close>

lemma hget_insert [simp, hmap_simps]:
  "hget (hinsert k v m) k' = (if k' = k then Some v else hget m k')"
  by (simp add: update_conv)

lemma hget_remove [simp, hmap_simps]:
  "hget (hremove k m) k' = (if k' = k then None else hget m k')"
  by (simp add: delete_conv)

lemma hget_retain [hmap_simps]:
  "distinct (keys m) \<Longrightarrow>
   hget (hretain P m) k = (case hget m k of None \<Rightarrow> None | Some v \<Rightarrow> if P k v then Some v else None)"
proof (induction m)
  case Nil
  then show ?case by (simp add: hretain_def)
next
  case (Cons a m)
  obtain k' v' where a: "a = (k', v')" by (cases a)
  have none: "k \<notin> fst ` set m \<Longrightarrow> hget (filter (\<lambda>(k, v). P k v) m) k = None"
    by (auto simp: map_of_eq_None_iff)
  show ?case
    using Cons a none
    by (auto simp: hretain_def split: option.splits dest!: map_of_SomeD)
qed

lemma distinct_keys_insert [simp, intro]:
  "distinct (keys m) \<Longrightarrow> distinct (keys (hinsert k v m))"
  by (rule distinct_update)

lemma distinct_keys_remove [simp, intro]:
  "distinct (keys m) \<Longrightarrow> distinct (keys (hremove k m))"
  by (rule distinct_delete)

lemma distinct_keys_retain [simp, intro]:
  "distinct (keys m) \<Longrightarrow> distinct (keys (hretain P m))"
  unfolding hretain_def by (rule distinct_map_filter)

lemma set_keys_insert [simp]: "fst ` set (hinsert k v m) = insert k (fst ` set m)"
  by (simp add: dom_update)

lemma set_keys_remove [simp]: "fst ` set (hremove k m) = fst ` set m - {k}"
  by (auto simp: AList.delete_eq)

lemma hcontains_iff [simp]: "hcontains m k \<longleftrightarrow> k \<in> fst ` set m"
  by (simp add: hcontains_def map_of_eq_None_iff)

lemma set_insert_entries:
  "distinct (keys m) \<Longrightarrow> set (hinsert k v m) = insert (k, v) {e \<in> set m. fst e \<noteq> k}"
  by (induction m) (auto simp: image_iff)

lemma set_remove_entries: "set (hremove k m) = {e \<in> set m. fst e \<noteq> k}"
  by (auto simp: AList.delete_eq)

lemma hget_in_set: "distinct (keys m) \<Longrightarrow> (k, v) \<in> set m \<longleftrightarrow> hget m k = Some v"
  by simp

lemma or_empty_simps [simp]: "or_empty None = []" "or_empty (Some xs) = xs"
  by (simp_all add: or_empty_def)

lemma set_or_empty: "x \<in> set (or_empty o') \<longleftrightarrow> (\<exists>xs. o' = Some xs \<and> x \<in> set xs)"
  by (cases o') auto

lemma hremove_absent [simp]: "k \<notin> fst ` set m \<Longrightarrow> hremove k m = m"
  by (induction m) auto

text \<open>Sums over the entries of a map, for counts and gauges.\<close>

lemma sum_list_insert_absent:
  "hget m k = None \<Longrightarrow>
   (\<Sum>e \<leftarrow> hinsert k v m. f (snd e)) = (\<Sum>e \<leftarrow> m. f (snd e)) + (f v :: nat)"
  by (induction m) (auto split: if_splits)

lemma sum_list_insert_present:
  "distinct (keys m) \<Longrightarrow> hget m k = Some w \<Longrightarrow>
   (\<Sum>e \<leftarrow> hinsert k v m. f (snd e)) + f w = (\<Sum>e \<leftarrow> m. f (snd e)) + (f v :: nat)"
  by (induction m) (auto split: if_splits)

lemma sum_list_remove:
  "distinct (keys m) \<Longrightarrow> hget m k = Some w \<Longrightarrow>
   (\<Sum>e \<leftarrow> hremove k m. f (snd e)) + f w = (\<Sum>e \<leftarrow> m. (f (snd e) :: nat))"
proof (induction m)
  case (Cons a m)
  then show ?case
    by (cases a) (auto simp: map_of_eq_None_iff)
qed simp

lemma length_hinsert:
  "length (hinsert k v m) = (if hget m k = None then Suc (length m) else length m)"
  by (induction m) auto

lemma length_hremove:
  "distinct (keys m) \<Longrightarrow> hget m k \<noteq> None \<Longrightarrow> Suc (length (hremove k m)) = length m"
  by (induction m) (auto, blast)

section \<open>Vectors and deques\<close>

text \<open>
  Pushing a value a \<open>HashSet\<close> has not seen yet: the set always holds exactly the values
  already pushed, so the vector alone carries the loop's state.
\<close>

definition push_new :: "'a \<Rightarrow> 'a list \<Rightarrow> 'a list" where
  "push_new x xs = (if x \<in> set xs then xs else xs @ [x])"

lemma set_push_new [simp]: "set (push_new x xs) = insert x (set xs)"
  by (auto simp: push_new_def)

lemma distinct_push_new [simp]: "distinct (push_new x xs) \<longleftrightarrow> distinct xs"
  by (auto simp: push_new_def)

lemma set_fold_push_new [simp]: "set (fold push_new xs acc) = set xs \<union> set acc"
  by (induction xs arbitrary: acc) auto

lemma distinct_fold_push_new [simp]: "distinct (fold push_new xs acc) \<longleftrightarrow> distinct acc"
  by (induction xs arbitrary: acc) auto

text \<open>\<open>while q.len() > cap { q.pop_back() }\<close> keeps the first \<open>cap\<close> elements.\<close>

function trim_back :: "nat \<Rightarrow> 'a list \<Rightarrow> 'a list" where
  "trim_back cap q = (if length q > cap then trim_back cap (butlast q) else q)"
  by pat_completeness auto
termination
  by (relation "measure (\<lambda>(cap, q). length q)") auto

declare trim_back.simps [simp del]

lemma trim_back_take [simp]: "trim_back cap q = take cap q"
proof (induction cap q rule: trim_back.induct)
  case (1 cap q)
  show ?case
  proof (cases "length q > cap")
    case True
    then have "trim_back cap q = take cap (butlast q)"
      using 1 by (simp add: trim_back.simps [of cap q])
    also have "\<dots> = take cap q"
      using True by (simp add: take_butlast)
    finally show ?thesis .
  next
    case False
    then show ?thesis by (simp add: trim_back.simps [of cap q])
  qed
qed

text \<open>Popping from the front, and pushing a vector to the front one element at a time.\<close>

lemma fold_cons_rev: "fold (\<lambda>x q. x # q) (rev xs) q = xs @ q"
  by (induction xs arbitrary: q rule: rev_induct) auto

text \<open>\<open>Iterator::position\<close> and \<open>Vec::remove\<close>.\<close>

fun position :: "('a \<Rightarrow> bool) \<Rightarrow> 'a list \<Rightarrow> nat option" where
  "position P [] = None"
| "position P (x # xs) = (if P x then Some 0 else map_option Suc (position P xs))"

definition remove_at :: "nat \<Rightarrow> 'a list \<Rightarrow> 'a list" where
  "remove_at i xs = take i xs @ drop (Suc i) xs"

lemma position_None: "position P xs = None \<longleftrightarrow> (\<forall>x \<in> set xs. \<not> P x)"
  by (induction xs) auto

lemma position_SomeD:
  "position P xs = Some i \<Longrightarrow> i < length xs \<and> P (xs ! i)"
  by (induction xs arbitrary: i) (auto split: if_splits)

lemma mset_remove_at:
  "i < length xs \<Longrightarrow> add_mset (xs ! i) (mset (remove_at i xs)) = mset xs"
proof -
  assume i: "i < length xs"
  have "mset xs = mset (take i xs @ xs ! i # drop (Suc i) xs)"
    using id_take_nth_drop [OF i] by (rule arg_cong)
  then show ?thesis by (simp add: remove_at_def)
qed

lemma length_remove_at [simp]: "i < length xs \<Longrightarrow> length (remove_at i xs) = length xs - 1"
  by (simp add: remove_at_def)

lemma set_remove_at_subset: "set (remove_at i xs) \<subseteq> set xs"
  by (auto simp: remove_at_def dest: in_set_takeD in_set_dropD)

text \<open>\<open>Iterator::min_by_key\<close>: the first element with the least key.\<close>

fun min_by_key :: "('a \<Rightarrow> nat) \<Rightarrow> 'a list \<Rightarrow> 'a option" where
  "min_by_key f [] = None"
| "min_by_key f (x # xs) =
     (case min_by_key f xs of None \<Rightarrow> Some x | Some y \<Rightarrow> if f x \<le> f y then Some x else Some y)"

lemma min_by_key_None [simp]: "min_by_key f xs = None \<longleftrightarrow> xs = []"
  by (cases xs) (auto split: option.splits)

lemma min_by_key_SomeD:
  "min_by_key f xs = Some y \<Longrightarrow> y \<in> set xs \<and> (\<forall>x \<in> set xs. f y \<le> f x)"
proof (induction xs arbitrary: y)
  case (Cons x xs)
  show ?case
  proof (cases "min_by_key f xs")
    case None
    with Cons.prems show ?thesis by simp
  next
    case (Some z)
    with Cons.IH have z: "z \<in> set xs" "\<forall>x \<in> set xs. f z \<le> f x" by auto
    show ?thesis using Cons.prems Some z by (fastforce split: if_splits)
  qed
qed simp

section \<open>Contracts\<close>

text \<open>
  A deterministic component: operations that all keep an invariant. What the component's
  clients rely on is that the invariant holds after any sequence of operations.
\<close>

locale machine =
  fixes step :: "'s \<Rightarrow> 'op \<Rightarrow> 's"
    and inv :: "'s \<Rightarrow> bool"
  assumes step_inv: "inv s \<Longrightarrow> inv (step s a)"
begin

lemma run_inv: "inv s \<Longrightarrow> inv (foldl step s as)"
  by (induction as arbitrary: s) (auto intro: step_inv)

end

text \<open>A component with choice: a step relation, its reachable states and an invariant.\<close>

locale transition_system =
  fixes start :: "'s \<Rightarrow> bool"
    and trans :: "'s \<Rightarrow> 's \<Rightarrow> bool"
    and inv :: "'s \<Rightarrow> bool"
  assumes start_inv: "start s \<Longrightarrow> inv s"
    and trans_inv: "trans s t \<Longrightarrow> inv s \<Longrightarrow> inv t"
begin

lemma reachable_inv: "start s \<Longrightarrow> trans\<^sup>*\<^sup>* s t \<Longrightarrow> inv t"
proof -
  assume s: "start s" and st: "trans\<^sup>*\<^sup>* s t"
  from st show "inv t"
    by (induction rule: rtranclp_induct) (auto intro: start_inv [OF s] trans_inv)
qed

end

end
