(* ===== verification/Text.thy ===== *)
theory Text
  imports Prelude
begin

text \<open>
  Strings as the code handles them: a Rust \<open>str\<close> is its UTF-8 byte sequence, so \<open>len\<close> is the
  list length, and the ASCII predicates on characters read the bytes (a non-ASCII character
  has only bytes above 127, which satisfy none of them). The operations here are the standard
  library calls the components share: prefixes, splitting, decimal numbers and hex digits.
\<close>

section \<open>Characters\<close>

definition code_of :: "char \<Rightarrow> nat" where
  "code_of c = of_char c"

definition is_ascii_digit :: "char \<Rightarrow> bool" where
  "is_ascii_digit c \<longleftrightarrow> 48 \<le> code_of c \<and> code_of c \<le> 57"

definition is_ascii_uppercase :: "char \<Rightarrow> bool" where
  "is_ascii_uppercase c \<longleftrightarrow> 65 \<le> code_of c \<and> code_of c \<le> 90"

definition is_ascii_lowercase :: "char \<Rightarrow> bool" where
  "is_ascii_lowercase c \<longleftrightarrow> 97 \<le> code_of c \<and> code_of c \<le> 122"

definition is_ascii_alphanumeric :: "char \<Rightarrow> bool" where
  "is_ascii_alphanumeric c \<longleftrightarrow> is_ascii_digit c \<or> is_ascii_uppercase c \<or> is_ascii_lowercase c"

definition is_ascii_hexdigit :: "char \<Rightarrow> bool" where
  "is_ascii_hexdigit c \<longleftrightarrow>
     is_ascii_digit c \<or> (65 \<le> code_of c \<and> code_of c \<le> 70) \<or> (97 \<le> code_of c \<and> code_of c \<le> 102)"

lemmas ascii_defs =
  is_ascii_digit_def is_ascii_uppercase_def is_ascii_lowercase_def is_ascii_alphanumeric_def
  is_ascii_hexdigit_def code_of_def

text \<open>Lower-case hexadecimal text of a fixed length, as keys and ids are written.\<close>

definition is_lower_hex :: "nat \<Rightarrow> string \<Rightarrow> bool" where
  "is_lower_hex n s \<longleftrightarrow> length s = n \<and> list_all (\<lambda>c. is_ascii_hexdigit c \<and> \<not> is_ascii_uppercase c) s"

section \<open>Prefixes and splitting\<close>

definition starts_with :: "string \<Rightarrow> string \<Rightarrow> bool" where
  "starts_with p s \<longleftrightarrow> take (length p) s = p"

definition strip_prefix :: "string \<Rightarrow> string \<Rightarrow> string option" where
  "strip_prefix p s = (if starts_with p s then Some (drop (length p) s) else None)"

lemma strip_prefix_Some: "strip_prefix p s = Some r \<longleftrightarrow> s = p @ r"
  by (auto simp: strip_prefix_def starts_with_def) (metis append_take_drop_id)

text \<open>\<open>str::split\<close> on one character: always at least one part.\<close>

fun split_on :: "char \<Rightarrow> string \<Rightarrow> string list" where
  "split_on d [] = [[]]"
| "split_on d (c # cs) =
     (if c = d then [] # split_on d cs
      else (case split_on d cs of [] \<Rightarrow> [[c]] | p # ps \<Rightarrow> (c # p) # ps))"

lemma split_on_nonempty [simp]: "split_on d s \<noteq> []"
  by (induction s) (auto split: list.splits)

fun join_on :: "char \<Rightarrow> string list \<Rightarrow> string" where
  "join_on d [] = []"
| "join_on d [p] = p"
| "join_on d (p # q # ps) = p @ d # join_on d (q # ps)"

lemma join_split [simp]: "join_on d (split_on d s) = s"
proof (induction s)
  case (Cons c s)
  obtain p ps where "split_on d s = p # ps"
    using split_on_nonempty by (cases "split_on d s") auto
  with Cons show ?case by (cases ps) auto
qed simp

lemma split_on_parts: "p \<in> set (split_on d s) \<Longrightarrow> d \<notin> set p"
proof (induction s arbitrary: p)
  case (Cons c s)
  obtain q qs where "split_on d s = q # qs"
    using split_on_nonempty by (cases "split_on d s") auto
  with Cons show ?case by (auto split: if_splits)
qed simp

text \<open>A separator that cannot occur in the first part splits a concatenation uniquely.\<close>

lemma append_sep_eq:
  "d \<notin> set xs \<Longrightarrow> d \<notin> set ys \<Longrightarrow> xs @ d # us = ys @ d # vs \<longleftrightarrow> xs = ys \<and> us = vs"
proof (induction xs arbitrary: ys)
  case Nil
  then show ?case by (cases ys) auto
next
  case (Cons x xs)
  then show ?case by (cases ys) auto
qed

lemma append_same_length: "length xs = length ys \<Longrightarrow> xs @ us = ys @ vs \<Longrightarrow> xs = ys \<and> us = vs"
  by simp

section \<open>Decimal numbers\<close>

definition digit_char :: "nat \<Rightarrow> char" where
  "digit_char n = char_of (48 + n)"

fun decimal :: "nat \<Rightarrow> string" where
  "decimal n = (if n < 10 then [digit_char n] else decimal (n div 10) @ [digit_char (n mod 10)])"

declare decimal.simps [simp del]

definition dec_value :: "string \<Rightarrow> nat" where
  "dec_value s = foldl (\<lambda>acc c. acc * 10 + (code_of c - 48)) 0 s"

lemma code_digit: "n < 10 \<Longrightarrow> code_of (digit_char n) = 48 + n"
  by (simp add: code_of_def digit_char_def)

lemma digit_char_digit: "n < 10 \<Longrightarrow> is_ascii_digit (digit_char n)"
  by (simp add: is_ascii_digit_def code_digit)

lemma dec_value_decimal [simp]: "dec_value (decimal n) = n"
proof (induction n rule: decimal.induct)
  case (1 n)
  show ?case
  proof (cases "n < 10")
    case True
    then show ?thesis by (simp add: decimal.simps [of n] dec_value_def code_digit)
  next
    case False
    then have "dec_value (decimal n) = dec_value (decimal (n div 10)) * 10 + n mod 10"
      by (simp add: decimal.simps [of n] dec_value_def code_digit)
    then show ?thesis using 1 False by simp
  qed
qed

lemma decimal_inject [simp]: "decimal m = decimal n \<longleftrightarrow> m = n"
  by (metis dec_value_decimal)

lemma decimal_digits: "c \<in> set (decimal n) \<Longrightarrow> is_ascii_digit c"
proof (induction n rule: decimal.induct)
  case (1 n)
  then show ?case
    using digit_char_digit [of n] digit_char_digit [of "n mod 10"]
    by (subst (asm) (2) decimal.simps) (auto split: if_splits)
qed

lemma decimal_nonempty [simp]: "decimal n \<noteq> []"
  by (subst decimal.simps) simp

section \<open>White space, case and counting\<close>

text \<open>
  The UTF-8 encodings of the characters with the Unicode property \<open>White_Space\<close>, which
  \<open>char::is_whitespace\<close> tests: U+0009 to U+000D, U+0020, U+0085, U+00A0, U+1680, U+2000 to
  U+200A, U+2028, U+2029, U+202F, U+205F and U+3000.
\<close>

definition ws_encodings :: "string list" where
  "ws_encodings = map (map char_of)
     ([[9], [10], [11], [12], [13], [32], [194, 133], [194, 160], [225, 154, 128]]
      @ map (\<lambda>b. [226, 128, b]) ([128, 129, 130, 131, 132, 133, 134, 135, 136, 137, 138, 168, 169, 175] :: nat list)
      @ [[226, 129, 159], [227, 128, 128]])"

text \<open>The byte length of the white-space character a string starts with, or 0.\<close>

definition ws_width :: "string \<Rightarrow> nat" where
  "ws_width s = (case List.find (\<lambda>e. starts_with e s) ws_encodings of Some e \<Rightarrow> length e | None \<Rightarrow> 0)"

definition ws_width_rev :: "string \<Rightarrow> nat" where
  "ws_width_rev s =
     (case List.find (\<lambda>e. starts_with (rev e) s) ws_encodings of Some e \<Rightarrow> length e | None \<Rightarrow> 0)"

text \<open>Removing from the front as long as the given width of what stands there is not 0.\<close>

function skip_while :: "(string \<Rightarrow> nat) \<Rightarrow> string \<Rightarrow> string" where
  "skip_while w s = (if s = [] \<or> w s = 0 then s else skip_while w (drop (w s) s))"
  by pat_completeness auto
termination
  by (relation "measure (\<lambda>(w, s). length s)") auto

declare skip_while.simps [simp del]

definition trim_start :: "string \<Rightarrow> string" where
  "trim_start s = skip_while ws_width s"

definition trim_end :: "string \<Rightarrow> string" where
  "trim_end s = rev (skip_while ws_width_rev (rev s))"

definition trim :: "string \<Rightarrow> string" where
  "trim s = trim_end (trim_start s)"

text \<open>\<open>str::trim_matches\<close> for one ASCII character.\<close>

definition trim_char :: "char \<Rightarrow> string \<Rightarrow> string" where
  "trim_char c s = rev (dropWhile (\<lambda>x. x = c) (rev (dropWhile (\<lambda>x. x = c) s)))"

definition to_ascii_lower :: "char \<Rightarrow> char" where
  "to_ascii_lower c = (if is_ascii_uppercase c then char_of (code_of c + 32) else c)"

definition ascii_lower :: "string \<Rightarrow> string" where
  "ascii_lower s = map to_ascii_lower s"

text \<open>
  \<open>chars().count()\<close>: a character of valid UTF-8 has exactly one byte that is not a
  continuation byte. \<open>char::is_control\<close> holds of U+0000 to U+001F and U+007F to U+009F.
\<close>

definition char_count :: "string \<Rightarrow> nat" where
  "char_count s = length (filter (\<lambda>c. code_of c < 128 \<or> 192 \<le> code_of c) s)"

fun has_control :: "string \<Rightarrow> bool" where
  "has_control [] = False"
| "has_control [c] = (code_of c < 32 \<or> code_of c = 127)"
| "has_control (c # d # s) =
     (code_of c < 32 \<or> code_of c = 127 \<or>
      (code_of c = 194 \<and> 128 \<le> code_of d \<and> code_of d < 160) \<or> has_control (d # s))"

definition has_whitespace :: "string \<Rightarrow> bool" where
  "has_whitespace s = list_ex (\<lambda>i. ws_width (drop i s) \<noteq> 0) [0..<length s]"

text \<open>\<open>str::splitn(3, ':')\<close> and \<open>str::rfind\<close> of an ASCII character.\<close>

fun split_once :: "char \<Rightarrow> string \<Rightarrow> string \<times> string option" where
  "split_once d [] = ([], None)"
| "split_once d (c # s) =
     (if c = d then ([], Some s) else (case split_once d s of (a, r) \<Rightarrow> (c # a, r)))"

definition splitn3 :: "char \<Rightarrow> string \<Rightarrow> string \<times> string option \<times> string option" where
  "splitn3 d s =
     (case split_once d s of
        (a, None) \<Rightarrow> (a, None, None)
      | (a, Some r) \<Rightarrow>
          (case split_once d r of (b, r') \<Rightarrow> (a, Some b, r')))"

definition rsplit_once :: "char \<Rightarrow> string \<Rightarrow> (string \<times> string) option" where
  "rsplit_once d s =
     (case split_once d (rev s) of (a, None) \<Rightarrow> None | (a, Some r) \<Rightarrow> Some (rev r, rev a))"

text \<open>\<open>from_str\<close> of an unsigned integer type with the given largest value \<open>lim\<close>: an optional plus sign and digits.\<close>

definition strip_plus :: "string \<Rightarrow> string" where
  "strip_plus s = (if s \<noteq> [] \<and> hd s = CHR ''+'' then tl s else s)"

definition parse_unsigned :: "nat \<Rightarrow> string \<Rightarrow> nat option" where
  "parse_unsigned lim s =
     (let ds = strip_plus s
      in if ds \<noteq> [] \<and> list_all is_ascii_digit ds \<and> dec_value ds \<le> lim then Some (dec_value ds) else None)"

text \<open>\<open>to_string\<close> of a signed integer.\<close>

definition int_decimal :: "int \<Rightarrow> string" where
  "int_decimal i = (if i < 0 then CHR ''-'' # decimal (nat (- i)) else decimal (nat i))"

lemma to_ascii_lower_idem [simp]: "to_ascii_lower (to_ascii_lower c) = to_ascii_lower c"
  by (auto simp: to_ascii_lower_def ascii_defs)

lemma ascii_lower_idem [simp]: "ascii_lower (ascii_lower s) = ascii_lower s"
  by (simp add: ascii_lower_def)

lemma length_ascii_lower [simp]: "length (ascii_lower s) = length s"
  by (simp add: ascii_lower_def)

lemma to_ascii_lower_hexdigit [simp]: "is_ascii_hexdigit (to_ascii_lower c) = is_ascii_hexdigit c"
  by (auto simp: to_ascii_lower_def ascii_defs)

lemma not_uppercase_to_ascii_lower [simp]: "\<not> is_ascii_uppercase (to_ascii_lower c)"
  by (auto simp: to_ascii_lower_def ascii_defs)

lemma ascii_lower_hex:
  "length s = n \<Longrightarrow> list_all is_ascii_hexdigit s \<Longrightarrow> is_lower_hex n (ascii_lower s)"
  by (auto simp: is_lower_hex_def ascii_lower_def list_all_iff)

lemma parse_unsigned_decimal:
  assumes "n \<le> lim"
  shows "parse_unsigned lim (decimal n) = Some n"
proof -
  obtain c cs where d: "decimal n = c # cs" by (cases "decimal n") auto
  then have "is_ascii_digit c" using decimal_digits [of c n] by simp
  then have c: "c \<noteq> CHR ''+''" by (auto simp: is_ascii_digit_def code_of_def)
  have "list_all is_ascii_digit (decimal n)"
    by (auto simp: list_all_iff dest: decimal_digits)
  moreover have "strip_plus (decimal n) = decimal n"
    using c by (simp add: d strip_plus_def)
  ultimately show ?thesis
    using assms by (simp add: parse_unsigned_def)
qed

text \<open>A string whose ends are printable ASCII characters is left alone by \<open>trim\<close>.\<close>

definition is_graphic :: "char \<Rightarrow> bool" where
  "is_graphic c \<longleftrightarrow> 33 \<le> code_of c \<and> code_of c < 127"

lemma ws_encodings_ends:
  "\<forall>e \<in> set ws_encodings. e \<noteq> [] \<and> \<not> is_graphic (hd e) \<and> \<not> is_graphic (last e)"
  by (simp add: ws_encodings_def is_graphic_def code_of_def)

lemma ws_width_graphic: "is_graphic c \<Longrightarrow> ws_width (c # s) = 0"
proof -
  assume c: "is_graphic c"
  have "\<not> starts_with e (c # s)" if "e \<in> set ws_encodings" for e
    using ws_encodings_ends that c by (cases e) (auto simp: starts_with_def)
  then show ?thesis by (auto simp: ws_width_def find_None_iff split: option.splits dest!: find_Some_iff [THEN iffD1])
qed

lemma ws_width_rev_graphic: "is_graphic c \<Longrightarrow> ws_width_rev (c # s) = 0"
proof -
  assume c: "is_graphic c"
  have "\<not> starts_with (rev e) (c # s)" if "e \<in> set ws_encodings" for e
    using ws_encodings_ends that c by (cases e rule: rev_cases) (auto simp: starts_with_def)
  then show ?thesis by (auto simp: ws_width_rev_def find_None_iff split: option.splits dest!: find_Some_iff [THEN iffD1])
qed

lemma trim_graphic:
  assumes "s \<noteq> []" "is_graphic (hd s)" "is_graphic (last s)"
  shows "trim s = s"
proof -
  have "trim_start s = s"
    using assms by (cases s) (simp_all add: trim_start_def skip_while.simps [of ws_width] ws_width_graphic)
  moreover have "trim_end s = s"
    using assms
    by (cases s rule: rev_cases) (simp_all add: trim_end_def skip_while.simps [of ws_width_rev] ws_width_rev_graphic)
  ultimately show ?thesis by (simp add: trim_def)
qed

text \<open>Splitting at the first separator, and splitting into three parts.\<close>

lemma split_once_Some: "split_once d s = (a, Some r) \<longleftrightarrow> s = a @ d # r \<and> d \<notin> set a"
proof (induction s arbitrary: a)
  case (Cons c s)
  obtain a' r' where s: "split_once d s = (a', r')" by fastforce
  show ?case
    using Cons.IH [of a'] Cons.IH [of "tl a"] s by (cases a) auto
qed simp

lemma split_once_None: "split_once d s = (a, None) \<longleftrightarrow> s = a \<and> d \<notin> set a"
proof (induction s arbitrary: a)
  case (Cons c s)
  obtain a' r' where s: "split_once d s = (a', r')" by fastforce
  show ?case
    using Cons.IH [of a'] Cons.IH [of "tl a"] s by (cases a) auto
qed auto

lemma split_once_append [simp]: "d \<notin> set a \<Longrightarrow> split_once d (a @ d # r) = (a, Some r)"
  by (simp add: split_once_Some)

lemma rsplit_once_Some: "rsplit_once d s = Some (a, r) \<longleftrightarrow> s = a @ d # r \<and> d \<notin> set r"
proof -
  have "rsplit_once d s = Some (a, r) \<longleftrightarrow> split_once d (rev s) = (rev r, Some (rev a))"
    by (auto simp: rsplit_once_def split: prod.splits option.splits)
  also have "\<dots> \<longleftrightarrow> rev s = rev r @ d # rev a \<and> d \<notin> set r"
    by (simp add: split_once_Some)
  also have "rev s = rev r @ d # rev a \<longleftrightarrow> s = a @ d # r"
    by (metis append.assoc append_Cons append_Nil rev.simps(2) rev_append rev_rev_ident)
  finally show ?thesis .
qed

lemma rsplit_once_None: "rsplit_once d s = None \<longleftrightarrow> d \<notin> set s"
proof -
  have "rsplit_once d s = None \<longleftrightarrow> (\<exists>a. split_once d (rev s) = (a, None))"
    by (auto simp: rsplit_once_def split: prod.splits option.splits)
  then show ?thesis by (simp add: split_once_None)
qed

lemma splitn3_Some:
  "splitn3 d s = (a, Some b, Some r) \<longleftrightarrow> s = a @ d # b @ d # r \<and> d \<notin> set a \<and> d \<notin> set b"
proof -
  have "splitn3 d s = (a, Some b, Some r) \<longleftrightarrow>
      (\<exists>t. split_once d s = (a, Some t) \<and> split_once d t = (b, Some r))"
    by (auto simp: splitn3_def split: prod.splits option.splits)
  then show ?thesis by (auto simp: split_once_Some)
qed

end
