(* ===== verification/Kinds.thy ===== *)
theory Kinds
  imports Prelude
begin

text \<open>
  The event-kind registry of \<open>crates/buzz-core/src/kind.rs\<close> and the data types the relay's
  components share: Nostr events (\<open>nostr::Event\<close>), the relay's wrapper
  (\<open>crates/buzz-core/src/event.rs\<close>) and the read gates that depend on the kind.

  \<^item> \<open>kind_consts\<close> collects the defining equations of the registry constants, so that
    \<open>simp add: kind_consts\<close> evaluates any kind test.
  \<^item> The lemmas classify the registry: kinds are pairwise distinct and fit \<open>u16\<close>, the storage
    classes are disjoint, commands are never ephemeral, and the shared-tag gate fails closed.
\<close>

named_theorems kind_consts "defining equations of the registry constants"

section \<open>Registry constants\<close>

definition KIND_PROFILE :: nat where [kind_consts]: "KIND_PROFILE = 0"
definition KIND_TEXT_NOTE :: nat where [kind_consts]: "KIND_TEXT_NOTE = 1"
definition KIND_CONTACT_LIST :: nat where [kind_consts]: "KIND_CONTACT_LIST = 3"
definition KIND_MUTE_LIST :: nat where [kind_consts]: "KIND_MUTE_LIST = 10000"
definition KIND_PIN_LIST :: nat where [kind_consts]: "KIND_PIN_LIST = 10001"
definition KIND_NIP65_RELAY_LIST_METADATA :: nat where [kind_consts]: "KIND_NIP65_RELAY_LIST_METADATA = 10002"
definition KIND_BOOKMARK_LIST :: nat where [kind_consts]: "KIND_BOOKMARK_LIST = 10003"
definition KIND_EMOJI_LIST :: nat where [kind_consts]: "KIND_EMOJI_LIST = 10030"
definition KIND_FOLLOW_SET :: nat where [kind_consts]: "KIND_FOLLOW_SET = 30000"
definition KIND_BOOKMARK_SET :: nat where [kind_consts]: "KIND_BOOKMARK_SET = 30003"
definition KIND_EMOJI_SET :: nat where [kind_consts]: "KIND_EMOJI_SET = 30030"
definition KIND_CHANNEL_METADATA :: nat where [kind_consts]: "KIND_CHANNEL_METADATA = 41"
definition KIND_DELETION :: nat where [kind_consts]: "KIND_DELETION = 5"
definition KIND_REACTION :: nat where [kind_consts]: "KIND_REACTION = 7"
definition KIND_GIFT_WRAP :: nat where [kind_consts]: "KIND_GIFT_WRAP = 1059"
definition KIND_FILE_METADATA :: nat where [kind_consts]: "KIND_FILE_METADATA = 1063"
definition KIND_LONG_FORM :: nat where [kind_consts]: "KIND_LONG_FORM = 30023"
definition KIND_USER_STATUS :: nat where [kind_consts]: "KIND_USER_STATUS = 30315"
definition KIND_READ_STATE :: nat where [kind_consts]: "KIND_READ_STATE = 30078"
definition KIND_AUTH :: nat where [kind_consts]: "KIND_AUTH = 22242"
definition KIND_BLOSSOM_AUTH :: nat where [kind_consts]: "KIND_BLOSSOM_AUTH = 24242"
definition KIND_NOSTR_IDENTITY_BINDING :: nat where [kind_consts]: "KIND_NOSTR_IDENTITY_BINDING = 24243"
definition KIND_HTTP_AUTH :: nat where [kind_consts]: "KIND_HTTP_AUTH = 27235"
definition KIND_AGENT_PROFILE :: nat where [kind_consts]: "KIND_AGENT_PROFILE = 10100"
definition KIND_AGENT_ENGRAM :: nat where [kind_consts]: "KIND_AGENT_ENGRAM = 30174"
definition KIND_EVENT_REMINDER :: nat where [kind_consts]: "KIND_EVENT_REMINDER = 30300"
definition KIND_PUSH_LEASE :: nat where [kind_consts]: "KIND_PUSH_LEASE = 30350"
definition KIND_EVM_ROTATION :: nat where [kind_consts]: "KIND_EVM_ROTATION = 30200"
definition KIND_PERSONA :: nat where [kind_consts]: "KIND_PERSONA = 30175"
definition KIND_TEAM :: nat where [kind_consts]: "KIND_TEAM = 30176"
definition KIND_MANAGED_AGENT :: nat where [kind_consts]: "KIND_MANAGED_AGENT = 30177"
definition KIND_TEAM_CATALOG :: nat where [kind_consts]: "KIND_TEAM_CATALOG = 30178"
definition KIND_REPORT :: nat where [kind_consts]: "KIND_REPORT = 1984"
definition KIND_PRODUCT_FEEDBACK :: nat where [kind_consts]: "KIND_PRODUCT_FEEDBACK = 42000"
definition KIND_NIP29_PUT_USER :: nat where [kind_consts]: "KIND_NIP29_PUT_USER = 9000"
definition KIND_NIP29_REMOVE_USER :: nat where [kind_consts]: "KIND_NIP29_REMOVE_USER = 9001"
definition KIND_NIP29_EDIT_METADATA :: nat where [kind_consts]: "KIND_NIP29_EDIT_METADATA = 9002"
definition KIND_NIP29_DELETE_EVENT :: nat where [kind_consts]: "KIND_NIP29_DELETE_EVENT = 9005"
definition KIND_NIP29_CREATE_GROUP :: nat where [kind_consts]: "KIND_NIP29_CREATE_GROUP = 9007"
definition KIND_NIP29_DELETE_GROUP :: nat where [kind_consts]: "KIND_NIP29_DELETE_GROUP = 9008"
definition KIND_NIP29_CREATE_INVITE :: nat where [kind_consts]: "KIND_NIP29_CREATE_INVITE = 9009"
definition KIND_NIP29_JOIN_REQUEST :: nat where [kind_consts]: "KIND_NIP29_JOIN_REQUEST = 9021"
definition KIND_NIP29_LEAVE_REQUEST :: nat where [kind_consts]: "KIND_NIP29_LEAVE_REQUEST = 9022"
definition KIND_MODERATION_BAN :: nat where [kind_consts]: "KIND_MODERATION_BAN = 9040"
definition KIND_MODERATION_UNBAN :: nat where [kind_consts]: "KIND_MODERATION_UNBAN = 9041"
definition KIND_MODERATION_TIMEOUT :: nat where [kind_consts]: "KIND_MODERATION_TIMEOUT = 9042"
definition KIND_MODERATION_UNTIMEOUT :: nat where [kind_consts]: "KIND_MODERATION_UNTIMEOUT = 9043"
definition KIND_MODERATION_RESOLVE_REPORT :: nat where [kind_consts]: "KIND_MODERATION_RESOLVE_REPORT = 9044"
definition RELAY_ADMIN_ADD_MEMBER :: nat where [kind_consts]: "RELAY_ADMIN_ADD_MEMBER = 9030"
definition RELAY_ADMIN_REMOVE_MEMBER :: nat where [kind_consts]: "RELAY_ADMIN_REMOVE_MEMBER = 9031"
definition RELAY_ADMIN_CHANGE_ROLE :: nat where [kind_consts]: "RELAY_ADMIN_CHANGE_ROLE = 9032"
definition RELAY_ADMIN_SET_WORKSPACE_PROFILE :: nat where [kind_consts]: "RELAY_ADMIN_SET_WORKSPACE_PROFILE = 9033"
definition KIND_NIP43_MEMBERSHIP_LIST :: nat where [kind_consts]: "KIND_NIP43_MEMBERSHIP_LIST = 13534"
definition KIND_NIP43_MEMBER_ADDED :: nat where [kind_consts]: "KIND_NIP43_MEMBER_ADDED = 8000"
definition KIND_NIP43_MEMBER_REMOVED :: nat where [kind_consts]: "KIND_NIP43_MEMBER_REMOVED = 8001"
definition KIND_NIP43_LEAVE_REQUEST :: nat where [kind_consts]: "KIND_NIP43_LEAVE_REQUEST = 28936"
definition KIND_IA_ARCHIVE_REQUEST :: nat where [kind_consts]: "KIND_IA_ARCHIVE_REQUEST = 9035"
definition KIND_IA_UNARCHIVE_REQUEST :: nat where [kind_consts]: "KIND_IA_UNARCHIVE_REQUEST = 9036"
definition KIND_IA_ARCHIVED :: nat where [kind_consts]: "KIND_IA_ARCHIVED = 8002"
definition KIND_IA_UNARCHIVED :: nat where [kind_consts]: "KIND_IA_UNARCHIVED = 8003"
definition KIND_IA_ARCHIVED_LIST :: nat where [kind_consts]: "KIND_IA_ARCHIVED_LIST = 13535"
definition KIND_NIP29_GROUP_METADATA :: nat where [kind_consts]: "KIND_NIP29_GROUP_METADATA = 39000"
definition KIND_NIP29_GROUP_ADMINS :: nat where [kind_consts]: "KIND_NIP29_GROUP_ADMINS = 39001"
definition KIND_NIP29_GROUP_MEMBERS :: nat where [kind_consts]: "KIND_NIP29_GROUP_MEMBERS = 39002"
definition KIND_NIP29_GROUP_ROLES :: nat where [kind_consts]: "KIND_NIP29_GROUP_ROLES = 39003"
definition KIND_THREAD_SUMMARY :: nat where [kind_consts]: "KIND_THREAD_SUMMARY = 39005"
definition KIND_WINDOW_BOUNDS :: nat where [kind_consts]: "KIND_WINDOW_BOUNDS = 39006"
definition KIND_WORKFLOW_DEF :: nat where [kind_consts]: "KIND_WORKFLOW_DEF = 30620"
definition KIND_DM_VISIBILITY :: nat where [kind_consts]: "KIND_DM_VISIBILITY = 30622"
definition PARAM_REPLACEABLE_KIND_MIN :: nat where [kind_consts]: "PARAM_REPLACEABLE_KIND_MIN = 30000"
definition PARAM_REPLACEABLE_KIND_MAX :: nat where [kind_consts]: "PARAM_REPLACEABLE_KIND_MAX = 39999"
definition EPHEMERAL_KIND_MIN :: nat where [kind_consts]: "EPHEMERAL_KIND_MIN = 20000"
definition EPHEMERAL_KIND_MAX :: nat where [kind_consts]: "EPHEMERAL_KIND_MAX = 29999"
definition KIND_PRESENCE_UPDATE :: nat where [kind_consts]: "KIND_PRESENCE_UPDATE = 20001"
definition KIND_PAIRING :: nat where [kind_consts]: "KIND_PAIRING = 24134"
definition KIND_TYPING_INDICATOR :: nat where [kind_consts]: "KIND_TYPING_INDICATOR = 20002"
definition KIND_AGENT_OBSERVER_FRAME :: nat where [kind_consts]: "KIND_AGENT_OBSERVER_FRAME = 24200"
definition KIND_HUDDLE_REACTION :: nat where [kind_consts]: "KIND_HUDDLE_REACTION = 24810"
definition KIND_STREAM_MESSAGE :: nat where [kind_consts]: "KIND_STREAM_MESSAGE = 9"
definition KIND_STREAM_MESSAGE_V2 :: nat where [kind_consts]: "KIND_STREAM_MESSAGE_V2 = 40002"
definition KIND_STREAM_MESSAGE_EDIT :: nat where [kind_consts]: "KIND_STREAM_MESSAGE_EDIT = 40003"
definition KIND_STREAM_MESSAGE_PINNED :: nat where [kind_consts]: "KIND_STREAM_MESSAGE_PINNED = 40004"
definition KIND_STREAM_MESSAGE_BOOKMARKED :: nat where [kind_consts]: "KIND_STREAM_MESSAGE_BOOKMARKED = 40005"
definition KIND_STREAM_MESSAGE_SCHEDULED :: nat where [kind_consts]: "KIND_STREAM_MESSAGE_SCHEDULED = 40006"
definition KIND_STREAM_REMINDER :: nat where [kind_consts]: "KIND_STREAM_REMINDER = 40007"
definition KIND_STREAM_MESSAGE_DIFF :: nat where [kind_consts]: "KIND_STREAM_MESSAGE_DIFF = 40008"
definition KIND_CANVAS :: nat where [kind_consts]: "KIND_CANVAS = 40100"
definition KIND_SYSTEM_MESSAGE :: nat where [kind_consts]: "KIND_SYSTEM_MESSAGE = 40099"
definition KIND_CHANNEL_SUMMARY :: nat where [kind_consts]: "KIND_CHANNEL_SUMMARY = 40901"
definition KIND_PRESENCE_SNAPSHOT :: nat where [kind_consts]: "KIND_PRESENCE_SNAPSHOT = 40902"
definition KIND_DM_OPEN :: nat where [kind_consts]: "KIND_DM_OPEN = 41010"
definition KIND_DM_ADD_MEMBER :: nat where [kind_consts]: "KIND_DM_ADD_MEMBER = 41011"
definition KIND_DM_HIDE :: nat where [kind_consts]: "KIND_DM_HIDE = 41012"
definition KIND_DM_CREATED :: nat where [kind_consts]: "KIND_DM_CREATED = 41001"
definition KIND_JOB_REQUEST :: nat where [kind_consts]: "KIND_JOB_REQUEST = 43001"
definition KIND_JOB_ACCEPTED :: nat where [kind_consts]: "KIND_JOB_ACCEPTED = 43002"
definition KIND_JOB_PROGRESS :: nat where [kind_consts]: "KIND_JOB_PROGRESS = 43003"
definition KIND_JOB_RESULT :: nat where [kind_consts]: "KIND_JOB_RESULT = 43004"
definition KIND_JOB_CANCEL :: nat where [kind_consts]: "KIND_JOB_CANCEL = 43005"
definition KIND_JOB_ERROR :: nat where [kind_consts]: "KIND_JOB_ERROR = 43006"
definition KIND_MEMBER_ADDED_NOTIFICATION :: nat where [kind_consts]: "KIND_MEMBER_ADDED_NOTIFICATION = 44100"
definition KIND_MEMBER_REMOVED_NOTIFICATION :: nat where [kind_consts]: "KIND_MEMBER_REMOVED_NOTIFICATION = 44101"
definition KIND_AGENT_TURN_METRIC :: nat where [kind_consts]: "KIND_AGENT_TURN_METRIC = 44200"
definition KIND_FORUM_POST :: nat where [kind_consts]: "KIND_FORUM_POST = 45001"
definition KIND_FORUM_VOTE :: nat where [kind_consts]: "KIND_FORUM_VOTE = 45002"
definition KIND_FORUM_COMMENT :: nat where [kind_consts]: "KIND_FORUM_COMMENT = 45003"
definition KIND_WORKFLOW_TRIGGER :: nat where [kind_consts]: "KIND_WORKFLOW_TRIGGER = 46020"
definition KIND_APPROVAL_GRANT :: nat where [kind_consts]: "KIND_APPROVAL_GRANT = 46030"
definition KIND_APPROVAL_DENY :: nat where [kind_consts]: "KIND_APPROVAL_DENY = 46031"
definition KIND_WORKFLOW_TRIGGERED :: nat where [kind_consts]: "KIND_WORKFLOW_TRIGGERED = 46001"
definition KIND_WORKFLOW_STEP_STARTED :: nat where [kind_consts]: "KIND_WORKFLOW_STEP_STARTED = 46002"
definition KIND_WORKFLOW_STEP_COMPLETED :: nat where [kind_consts]: "KIND_WORKFLOW_STEP_COMPLETED = 46003"
definition KIND_WORKFLOW_STEP_FAILED :: nat where [kind_consts]: "KIND_WORKFLOW_STEP_FAILED = 46004"
definition KIND_WORKFLOW_COMPLETED :: nat where [kind_consts]: "KIND_WORKFLOW_COMPLETED = 46005"
definition KIND_WORKFLOW_FAILED :: nat where [kind_consts]: "KIND_WORKFLOW_FAILED = 46006"
definition KIND_WORKFLOW_CANCELLED :: nat where [kind_consts]: "KIND_WORKFLOW_CANCELLED = 46007"
definition KIND_WORKFLOW_APPROVAL_REQUESTED :: nat where [kind_consts]: "KIND_WORKFLOW_APPROVAL_REQUESTED = 46010"
definition KIND_WORKFLOW_APPROVAL_GRANTED :: nat where [kind_consts]: "KIND_WORKFLOW_APPROVAL_GRANTED = 46011"
definition KIND_WORKFLOW_APPROVAL_DENIED :: nat where [kind_consts]: "KIND_WORKFLOW_APPROVAL_DENIED = 46012"
definition KIND_AUDIT_ENTRY :: nat where [kind_consts]: "KIND_AUDIT_ENTRY = 48001"
definition KIND_HUDDLE_STARTED :: nat where [kind_consts]: "KIND_HUDDLE_STARTED = 48100"
definition KIND_HUDDLE_PARTICIPANT_JOINED :: nat where [kind_consts]: "KIND_HUDDLE_PARTICIPANT_JOINED = 48101"
definition KIND_HUDDLE_PARTICIPANT_LEFT :: nat where [kind_consts]: "KIND_HUDDLE_PARTICIPANT_LEFT = 48102"
definition KIND_HUDDLE_ENDED :: nat where [kind_consts]: "KIND_HUDDLE_ENDED = 48103"
definition KIND_HUDDLE_GUIDELINES :: nat where [kind_consts]: "KIND_HUDDLE_GUIDELINES = 48106"
definition KIND_MEDIA_UPLOAD :: nat where [kind_consts]: "KIND_MEDIA_UPLOAD = 49001"
definition KIND_GIT_REPO_ANNOUNCEMENT :: nat where [kind_consts]: "KIND_GIT_REPO_ANNOUNCEMENT = 30617"
definition KIND_GIT_REPO_STATE :: nat where [kind_consts]: "KIND_GIT_REPO_STATE = 30618"
definition KIND_GIT_PATCH :: nat where [kind_consts]: "KIND_GIT_PATCH = 1617"
definition KIND_GIT_PULL_REQUEST :: nat where [kind_consts]: "KIND_GIT_PULL_REQUEST = 1618"
definition KIND_GIT_PR_UPDATE :: nat where [kind_consts]: "KIND_GIT_PR_UPDATE = 1619"
definition KIND_GIT_ISSUE :: nat where [kind_consts]: "KIND_GIT_ISSUE = 1621"
definition KIND_GIT_STATUS_OPEN :: nat where [kind_consts]: "KIND_GIT_STATUS_OPEN = 1630"
definition KIND_GIT_STATUS_MERGED :: nat where [kind_consts]: "KIND_GIT_STATUS_MERGED = 1631"
definition KIND_GIT_STATUS_CLOSED :: nat where [kind_consts]: "KIND_GIT_STATUS_CLOSED = 1632"
definition KIND_GIT_STATUS_DRAFT :: nat where [kind_consts]: "KIND_GIT_STATUS_DRAFT = 1633"
definition KIND_PROJECT :: nat where [kind_consts]: "KIND_PROJECT = 30621"

definition ALL_KINDS :: "nat list" where
  "ALL_KINDS = [
     KIND_PROFILE, KIND_TEXT_NOTE, KIND_CONTACT_LIST,
     KIND_MUTE_LIST, KIND_PIN_LIST, KIND_NIP65_RELAY_LIST_METADATA,
     KIND_BOOKMARK_LIST, KIND_EMOJI_LIST, KIND_FOLLOW_SET,
     KIND_BOOKMARK_SET, KIND_EMOJI_SET, KIND_CHANNEL_METADATA,
     KIND_DELETION, KIND_REACTION, KIND_GIFT_WRAP,
     KIND_FILE_METADATA, KIND_AGENT_PROFILE, KIND_AGENT_ENGRAM,
     KIND_EVENT_REMINDER, KIND_PERSONA, KIND_TEAM,
     KIND_MANAGED_AGENT, KIND_TEAM_CATALOG, KIND_REPORT,
     KIND_PRODUCT_FEEDBACK, KIND_NIP29_PUT_USER, KIND_NIP29_REMOVE_USER,
     KIND_NIP29_EDIT_METADATA, KIND_NIP29_DELETE_EVENT, KIND_NIP29_CREATE_GROUP,
     KIND_NIP29_DELETE_GROUP, KIND_NIP29_CREATE_INVITE, KIND_NIP29_JOIN_REQUEST,
     KIND_NIP29_LEAVE_REQUEST, KIND_MODERATION_BAN, KIND_MODERATION_UNBAN,
     KIND_MODERATION_TIMEOUT, KIND_MODERATION_UNTIMEOUT, KIND_MODERATION_RESOLVE_REPORT,
     RELAY_ADMIN_ADD_MEMBER, RELAY_ADMIN_REMOVE_MEMBER, RELAY_ADMIN_CHANGE_ROLE,
     RELAY_ADMIN_SET_WORKSPACE_PROFILE, KIND_NIP43_MEMBERSHIP_LIST, KIND_NIP43_MEMBER_ADDED,
     KIND_NIP43_MEMBER_REMOVED, KIND_NIP43_LEAVE_REQUEST, KIND_IA_ARCHIVE_REQUEST,
     KIND_IA_UNARCHIVE_REQUEST, KIND_IA_ARCHIVED, KIND_IA_UNARCHIVED,
     KIND_IA_ARCHIVED_LIST, KIND_NIP29_GROUP_METADATA, KIND_NIP29_GROUP_ADMINS,
     KIND_NIP29_GROUP_MEMBERS, KIND_NIP29_GROUP_ROLES, KIND_THREAD_SUMMARY,
     KIND_WINDOW_BOUNDS, KIND_PRESENCE_UPDATE, KIND_TYPING_INDICATOR,
     KIND_HUDDLE_REACTION, KIND_BLOSSOM_AUTH, KIND_PAIRING,
     KIND_AGENT_OBSERVER_FRAME, KIND_HTTP_AUTH, KIND_STREAM_MESSAGE,
     KIND_STREAM_MESSAGE_V2, KIND_STREAM_MESSAGE_EDIT, KIND_STREAM_MESSAGE_PINNED,
     KIND_STREAM_MESSAGE_BOOKMARKED, KIND_STREAM_MESSAGE_SCHEDULED, KIND_STREAM_REMINDER,
     KIND_STREAM_MESSAGE_DIFF, KIND_CANVAS, KIND_SYSTEM_MESSAGE,
     KIND_CHANNEL_SUMMARY, KIND_PRESENCE_SNAPSHOT, KIND_DM_VISIBILITY,
     KIND_DM_OPEN, KIND_DM_ADD_MEMBER, KIND_DM_HIDE,
     KIND_DM_CREATED, KIND_JOB_REQUEST, KIND_JOB_ACCEPTED,
     KIND_JOB_PROGRESS, KIND_JOB_RESULT, KIND_JOB_CANCEL,
     KIND_JOB_ERROR, KIND_MEMBER_ADDED_NOTIFICATION, KIND_MEMBER_REMOVED_NOTIFICATION,
     KIND_AGENT_TURN_METRIC, KIND_WORKFLOW_DEF, KIND_LONG_FORM,
     KIND_USER_STATUS, KIND_READ_STATE, KIND_FORUM_POST,
     KIND_FORUM_VOTE, KIND_FORUM_COMMENT, KIND_WORKFLOW_TRIGGER,
     KIND_APPROVAL_GRANT, KIND_APPROVAL_DENY, KIND_WORKFLOW_TRIGGERED,
     KIND_WORKFLOW_STEP_STARTED, KIND_WORKFLOW_STEP_COMPLETED, KIND_WORKFLOW_STEP_FAILED,
     KIND_WORKFLOW_COMPLETED, KIND_WORKFLOW_FAILED, KIND_WORKFLOW_CANCELLED,
     KIND_WORKFLOW_APPROVAL_REQUESTED, KIND_WORKFLOW_APPROVAL_GRANTED, KIND_WORKFLOW_APPROVAL_DENIED,
     KIND_AUDIT_ENTRY, KIND_HUDDLE_STARTED, KIND_HUDDLE_PARTICIPANT_JOINED,
     KIND_HUDDLE_PARTICIPANT_LEFT, KIND_HUDDLE_ENDED, KIND_HUDDLE_GUIDELINES,
     KIND_MEDIA_UPLOAD, KIND_GIT_REPO_ANNOUNCEMENT, KIND_GIT_REPO_STATE,
     KIND_GIT_PATCH, KIND_GIT_PULL_REQUEST, KIND_GIT_PR_UPDATE,
     KIND_GIT_ISSUE, KIND_GIT_STATUS_OPEN, KIND_GIT_STATUS_MERGED,
     KIND_GIT_STATUS_CLOSED, KIND_GIT_STATUS_DRAFT, KIND_PROJECT]"

definition AUTHOR_ONLY_KINDS :: "nat list" where
  "AUTHOR_ONLY_KINDS = [KIND_EVENT_REMINDER, KIND_PUSH_LEASE]"

definition RESULT_GATED_KINDS :: "nat list" where
  "RESULT_GATED_KINDS = [KIND_DM_VISIBILITY, KIND_AGENT_TURN_METRIC]"

definition P_GATED_KINDS :: "nat list" where
  "P_GATED_KINDS =
     [KIND_AGENT_OBSERVER_FRAME, KIND_MEMBER_ADDED_NOTIFICATION,
      KIND_MEMBER_REMOVED_NOTIFICATION, KIND_GIFT_WRAP, KIND_DM_VISIBILITY,
      KIND_AGENT_TURN_METRIC]"

definition SHARED_GATED_KINDS :: "nat list" where
  "SHARED_GATED_KINDS = [KIND_PERSONA, KIND_TEAM_CATALOG]"

section \<open>Kind classes\<close>

definition is_shared_gated_kind :: "nat \<Rightarrow> bool" where
  "is_shared_gated_kind kind \<longleftrightarrow> List.member SHARED_GATED_KINDS kind"

definition is_moderation_command_kind :: "nat \<Rightarrow> bool" where
  "is_moderation_command_kind kind \<longleftrightarrow>
     kind = KIND_MODERATION_BAN \<or> kind = KIND_MODERATION_UNBAN \<or>
     kind = KIND_MODERATION_TIMEOUT \<or> kind = KIND_MODERATION_UNTIMEOUT \<or>
     kind = KIND_MODERATION_RESOLVE_REPORT"

definition is_ephemeral :: "nat \<Rightarrow> bool" where
  "is_ephemeral kind \<longleftrightarrow> kind \<ge> EPHEMERAL_KIND_MIN \<and> kind \<le> EPHEMERAL_KIND_MAX"

definition is_replaceable :: "nat \<Rightarrow> bool" where
  "is_replaceable kind \<longleftrightarrow>
     kind = 0 \<or> kind = 3 \<or> kind = KIND_CHANNEL_METADATA \<or> (10000 \<le> kind \<and> kind \<le> 19999)"

definition is_parameterized_replaceable :: "nat \<Rightarrow> bool" where
  "is_parameterized_replaceable kind \<longleftrightarrow>
     kind \<ge> PARAM_REPLACEABLE_KIND_MIN \<and> kind \<le> PARAM_REPLACEABLE_KIND_MAX"

definition is_workflow_execution_kind :: "nat \<Rightarrow> bool" where
  "is_workflow_execution_kind kind \<longleftrightarrow>
     kind \<ge> KIND_WORKFLOW_TRIGGERED \<and> kind \<le> KIND_WORKFLOW_APPROVAL_DENIED"

definition is_relay_admin_kind :: "nat \<Rightarrow> bool" where
  "is_relay_admin_kind kind \<longleftrightarrow>
     kind = RELAY_ADMIN_ADD_MEMBER \<or> kind = RELAY_ADMIN_REMOVE_MEMBER \<or>
     kind = RELAY_ADMIN_CHANGE_ROLE \<or> kind = RELAY_ADMIN_SET_WORKSPACE_PROFILE"

definition is_identity_archive_request_kind :: "nat \<Rightarrow> bool" where
  "is_identity_archive_request_kind kind \<longleftrightarrow>
     kind = KIND_IA_ARCHIVE_REQUEST \<or> kind = KIND_IA_UNARCHIVE_REQUEST"

definition is_command_kind :: "nat \<Rightarrow> bool" where
  "is_command_kind kind \<longleftrightarrow>
     kind = KIND_WORKFLOW_DEF \<or> kind = KIND_DM_OPEN \<or> kind = KIND_DM_ADD_MEMBER \<or>
     kind = KIND_DM_HIDE \<or> kind = KIND_WORKFLOW_TRIGGER \<or> kind = KIND_APPROVAL_GRANT \<or>
     kind = KIND_APPROVAL_DENY"

definition is_relay_only_kind :: "nat \<Rightarrow> bool" where
  "is_relay_only_kind kind \<longleftrightarrow>
     kind = KIND_NIP43_MEMBERSHIP_LIST \<or> kind = KIND_CHANNEL_SUMMARY \<or>
     kind = KIND_PRESENCE_SNAPSHOT \<or> kind = KIND_DM_VISIBILITY \<or>
     kind = KIND_THREAD_SUMMARY \<or> kind = KIND_WINDOW_BOUNDS"

lemmas kind_class_defs =
  is_shared_gated_kind_def is_moderation_command_kind_def is_ephemeral_def is_replaceable_def
  is_parameterized_replaceable_def is_workflow_execution_kind_def is_relay_admin_kind_def
  is_identity_archive_request_kind_def is_command_kind_def is_relay_only_kind_def

section \<open>Events\<close>

text \<open>
  A signed Nostr event. A tag is the vector of strings it has on the wire; its kind is the
  first string and its content the second one, if there is one.
\<close>

record nostr_event =
  ev_id :: string
  ev_pubkey :: string
  ev_created_at :: nat
  ev_kind :: nat
  ev_tags :: "string list list"
  ev_content :: string

type_synonym tag = "string list"

definition tag_kind :: "tag \<Rightarrow> string" where
  "tag_kind t = (case t of [] \<Rightarrow> [] | k # _ \<Rightarrow> k)"

definition tag_content :: "tag \<Rightarrow> string option" where
  "tag_content t = (case t of _ # c # _ \<Rightarrow> Some c | _ \<Rightarrow> None)"

text \<open>The relay's wrapper: the event with its receive time, channel scope and status.\<close>

record stored_event =
  se_event :: nostr_event
  se_received_at :: instant
  se_channel_id :: "uuid option"
  se_verified :: bool

definition stored_event_new :: "instant \<Rightarrow> nostr_event \<Rightarrow> uuid option \<Rightarrow> stored_event" where
  "stored_event_new now event channel =
     \<lparr>se_event = event, se_received_at = now, se_channel_id = channel, se_verified = False\<rparr>"

definition is_verified :: "stored_event \<Rightarrow> bool" where
  "is_verified e = se_verified e"

definition with_received_at ::
  "nostr_event \<Rightarrow> instant \<Rightarrow> uuid option \<Rightarrow> bool \<Rightarrow> stored_event" where
  "with_received_at event received channel verified =
     \<lparr>se_event = event, se_received_at = received, se_channel_id = channel,
      se_verified = verified\<rparr>"

section \<open>The shared-tag read gate\<close>

text \<open>The loop of \<open>event_is_shared\<close>, with its early returns and its counter.\<close>

fun shared_count :: "tag list \<Rightarrow> nat \<Rightarrow> nat option" where
  "shared_count [] n = Some n"
| "shared_count (parts # tags) n =
     (if length parts = 2 \<and> parts ! 0 = ''shared'' then
        (if parts ! 1 \<noteq> ''true'' then None else shared_count tags (n + 1))
      else if parts \<noteq> [] \<and> parts ! 0 = ''shared'' then None
      else shared_count tags n)"

definition event_is_shared :: "nostr_event \<Rightarrow> bool" where
  "event_is_shared ev = (case shared_count (ev_tags ev) 0 of None \<Rightarrow> False | Some n \<Rightarrow> n = 1)"

definition is_unshared_gated_event :: "nostr_event \<Rightarrow> string \<Rightarrow> bool" where
  "is_unshared_gated_event ev requester =
     (if \<not> is_shared_gated_kind (ev_kind ev) then False
      else if ev_pubkey ev = requester then False
      else \<not> event_is_shared ev)"

text \<open>What the loop computes: the number of shared tags, all of them of the exact shape.\<close>

lemma shared_count_Some:
  "shared_count tags c = Some n \<longleftrightarrow>
   (\<forall>t \<in> set tags. tag_kind t = ''shared'' \<longrightarrow> t = [''shared'', ''true'']) \<and>
   n = c + length (filter (\<lambda>t. tag_kind t = ''shared'') tags)"
proof (induction tags arbitrary: c)
  case Nil
  then show ?case by auto
next
  case (Cons t tags)
  consider "t = []" | a where "t = [a]" | a b where "t = [a, b]" | a b c' r where "t = a # b # c' # r"
    by (metis list.exhaust)
  then show ?case
    using Cons.IH [of c] Cons.IH [of "c + 1"] by cases (auto simp: tag_kind_def)
qed

lemma filter_singleton_iff:
  "(\<forall>t \<in> set ts. P t \<longrightarrow> t = x) \<and> length (filter P ts) = 1 \<longleftrightarrow> P x \<and> filter P ts = [x]"
proof (cases "filter P ts")
  case Nil
  then show ?thesis by simp
next
  case (Cons a as)
  then have "set (a # as) = {t \<in> set ts. P t}"
    by (metis set_filter)
  then show ?thesis using Cons by auto
qed

lemma event_is_shared_iff:
  "event_is_shared ev \<longleftrightarrow>
     filter (\<lambda>t. tag_kind t = ''shared'') (ev_tags ev) = [[''shared'', ''true'']]"
proof -
  have "event_is_shared ev \<longleftrightarrow> (\<exists>n. shared_count (ev_tags ev) 0 = Some n \<and> n = 1)"
    by (auto simp: event_is_shared_def split: option.splits)
  also have "\<dots> \<longleftrightarrow> filter (\<lambda>t. tag_kind t = ''shared'') (ev_tags ev) = [[''shared'', ''true'']]"
    using filter_singleton_iff [of "ev_tags ev" "\<lambda>t. tag_kind t = ''shared''" "[''shared'', ''true'']"]
    by (auto simp: shared_count_Some tag_kind_def)
  finally show ?thesis .
qed

text \<open>
  A persona or team-catalogue event is withheld from a reader exactly when the reader is not
  its author and the event's \<open>shared\<close> tags are anything but one tag of the exact shape
  \<open>["shared", "true"]\<close>; events of every other kind are never withheld by this gate.
\<close>

theorem withheld_unless_exactly_shared:
  "is_unshared_gated_event ev reader =
     (ev_kind ev \<in> set SHARED_GATED_KINDS \<and> ev_pubkey ev \<noteq> reader \<and>
      filter (\<lambda>t. tag_kind t = ''shared'') (ev_tags ev) \<noteq> [[''shared'', ''true'']])"
  by (auto simp: is_unshared_gated_event_def event_is_shared_iff is_shared_gated_kind_def)

section \<open>The registry\<close>

lemmas registry_simps = ALL_KINDS_def kind_consts

lemma kind_ranges_disjoint:
  "is_ephemeral k \<Longrightarrow> \<not> is_replaceable k \<and> \<not> is_parameterized_replaceable k"
  "is_replaceable k \<Longrightarrow> \<not> is_ephemeral k \<and> \<not> is_parameterized_replaceable k"
  by (auto simp: kind_class_defs kind_consts)

lemma all_kinds_distinct: "distinct ALL_KINDS"
  by (simp add: registry_simps)

lemma all_kinds_u16: "\<forall>k \<in> set ALL_KINDS. k < 2 ^ 16"
  by (simp add: registry_simps)

end
