(* ===== verification/Filters.thy ===== *)
theory Filters
  imports Kinds "HOL-Library.Sublist"
begin

text \<open>
  NIP-01 filter matching and result-level read authorization, from
  \<open>crates/buzz-core/src/filter.rs\<close>.

  \<^item> \<open>nfilter\<close> is \<open>nostr::Filter\<close>: each optional constraint as a list of the values of its
    ordered set, \<open>generic_tags\<close> as a map from the tag letter to the accepted values.
  \<^item> \<open>filter_match_one\<close> and \<open>filters_match\<close> follow the code's early returns; \<open>nip01_accepts\<close>
    is the declarative meaning they are proved equal to.
  \<^item> The locale \<open>event_matcher\<close> is what the subscription registry relies on: a matching event
    has a kind and a \<open>p\<close> value that the filters name. \<open>filters_match\<close> interprets it.
\<close>

record nfilter =
  f_ids :: "string list option"
  f_authors :: "string list option"
  f_kinds :: "nat list option"
  f_since :: "nat option"
  f_until :: "nat option"
  f_tags :: "(string, string list) hmap"

definition empty_filter :: nfilter where
  "empty_filter =
     \<lparr>f_ids = None, f_authors = None, f_kinds = None, f_since = None, f_until = None, f_tags = []\<rparr>"

section \<open>The code\<close>

text \<open>One turn of the loop over the generic tags: \<open>False\<close> is the early \<open>return false\<close>.\<close>

definition tag_constraint_ok :: "stored_event \<Rightarrow> string \<times> string list \<Rightarrow> bool" where
  "tag_constraint_ok ev entry =
     (case entry of (key, vals) \<Rightarrow>
       let tags = ev_tags (se_event ev);
           has_match = list_ex (\<lambda>v. list_ex (\<lambda>c. c = v)
             (List.map_filter tag_content (filter (\<lambda>t. tag_kind t = key) tags))) vals
       in if \<not> has_match \<and> key = ''h'' then
            (if \<not> list_ex (\<lambda>t. tag_kind t = ''h'') tags then
               (case se_channel_id ev of
                  Some ch \<Rightarrow> list_ex (\<lambda>v. v = ch) vals
                | None \<Rightarrow> False)
             else False)
          else has_match)"

definition filter_match_one :: "nfilter \<Rightarrow> stored_event \<Rightarrow> bool" where
  "filter_match_one f ev =
     (let e = se_event ev in
      if (case f_kinds f of Some ks \<Rightarrow> \<not> List.member ks (ev_kind e) | None \<Rightarrow> False) then False
      else if (case f_authors f of Some as \<Rightarrow> \<not> List.member as (ev_pubkey e) | None \<Rightarrow> False) then False
      else if (case f_since f of Some t \<Rightarrow> ev_created_at e < t | None \<Rightarrow> False) then False
      else if (case f_until f of Some t \<Rightarrow> ev_created_at e > t | None \<Rightarrow> False) then False
      else if (case f_ids f of Some ids \<Rightarrow> \<not> list_ex (\<lambda>i. prefix i (ev_id e)) ids | None \<Rightarrow> False)
      then False
      else list_all (tag_constraint_ok ev) (f_tags f))"

definition filters_match :: "nfilter list \<Rightarrow> stored_event \<Rightarrow> bool" where
  "filters_match filters ev = list_ex (\<lambda>f. filter_match_one f ev) filters"

definition reader_authorized_for_event :: "nostr_event \<Rightarrow> string \<Rightarrow> bool" where
  "reader_authorized_for_event ev reader =
     (let kind = ev_kind ev in
      if kind \<noteq> KIND_DM_VISIBILITY \<and> kind \<noteq> KIND_AGENT_TURN_METRIC then True
      else list_ex (\<lambda>t. tag_content t = Some reader)
             (filter (\<lambda>t. tag_kind t = ''p'') (ev_tags ev)))"

section \<open>Declarative meaning\<close>

definition event_has_tag :: "nostr_event \<Rightarrow> string \<Rightarrow> string \<Rightarrow> bool" where
  "event_has_tag e k v \<longleftrightarrow> (\<exists>t \<in> set (ev_tags e). tag_kind t = k \<and> tag_content t = Some v)"

definition tag_accepts :: "stored_event \<Rightarrow> string \<Rightarrow> string list \<Rightarrow> bool" where
  "tag_accepts ev k vs \<longleftrightarrow>
     (\<exists>v \<in> set vs. event_has_tag (se_event ev) k v) \<or>
     (k = ''h'' \<and> (\<forall>t \<in> set (ev_tags (se_event ev)). tag_kind t \<noteq> ''h'') \<and>
      (\<exists>ch \<in> set vs. se_channel_id ev = Some ch))"

definition nip01_accepts :: "nfilter \<Rightarrow> stored_event \<Rightarrow> bool" where
  "nip01_accepts f ev \<longleftrightarrow>
     (let e = se_event ev in
      (\<forall>ks. f_kinds f = Some ks \<longrightarrow> ev_kind e \<in> set ks) \<and>
      (\<forall>as. f_authors f = Some as \<longrightarrow> ev_pubkey e \<in> set as) \<and>
      (\<forall>t. f_since f = Some t \<longrightarrow> t \<le> ev_created_at e) \<and>
      (\<forall>t. f_until f = Some t \<longrightarrow> ev_created_at e \<le> t) \<and>
      (\<forall>ids. f_ids f = Some ids \<longrightarrow> (\<exists>i \<in> set ids. prefix i (ev_id e))) \<and>
      (\<forall>(k, vs) \<in> set (f_tags f). tag_accepts ev k vs))"

lemma has_match_iff:
  "list_ex (\<lambda>v. list_ex (\<lambda>c. c = v)
     (List.map_filter tag_content (filter (\<lambda>t. tag_kind t = k) (ev_tags e)))) vs
   \<longleftrightarrow> (\<exists>v \<in> set vs. event_has_tag e k v)"
proof -
  have mem: "c \<in> set (List.map_filter tag_content ts) \<longleftrightarrow> (\<exists>t \<in> set ts. tag_content t = Some c)" for c ts
    by (induction ts) (auto simp: List.map_filter_simps split: option.splits)
  show ?thesis by (auto simp: list_ex_iff mem event_has_tag_def)
qed

lemma tag_constraint_ok_iff: "tag_constraint_ok ev (k, vs) \<longleftrightarrow> tag_accepts ev k vs"
  unfolding tag_constraint_ok_def tag_accepts_def Let_def prod.case has_match_iff
  by (auto simp: list_ex_iff split: option.splits)

lemma filter_match_one_iff: "filter_match_one f ev \<longleftrightarrow> nip01_accepts f ev"
  by (auto simp: filter_match_one_def nip01_accepts_def Let_def list_all_iff list_ex_iff
      tag_constraint_ok_iff split: option.splits)

text \<open>
  C36: A filter accepts an event exactly when every constraint it carries does: kind, author,
  time window, id, and for every tag letter some event tag with an accepted value; an \<open>h\<close>
  constraint falls back to the stored channel only for an event without any \<open>h\<close> tag. A list
  of filters accepts when one of them does.
\<close>

theorem filters_match_is_nip01:
  "filters_match fs ev \<longleftrightarrow> (\<exists>f \<in> set fs. nip01_accepts f ev)"
  by (simp add: filters_match_def list_ex_iff filter_match_one_iff)

text \<open>
  The id constraint compares full ids: on ids of the fixed length that \<open>EventId::to_hex\<close>
  prints, a filter with ids accepts only the listed events, so no prefix matching takes place.
\<close>

theorem id_filter_is_exact:
  assumes "f_ids f = Some ids"
    and "\<forall>i \<in> set ids. length i = 64"
    and "length (ev_id (se_event ev)) = 64"
    and "filter_match_one f ev"
  shows "ev_id (se_event ev) \<in> set ids"
proof -
  from assms(1,4) obtain i where i: "i \<in> set ids" "prefix i (ev_id (se_event ev))"
    by (auto simp: filter_match_one_iff nip01_accepts_def Let_def)
  then have "i = ev_id (se_event ev)"
    using assms(2,3) by (auto elim!: prefixE)
  with i show ?thesis by simp
qed

definition sample_event :: nostr_event where
  "sample_event =
     \<lparr>ev_id = replicate 64 (CHR ''a''), ev_pubkey = ''pk'', ev_created_at = 7, ev_kind = 9,
      ev_tags = [[''p'', ''bob''], [''h'', ''chan'']], ev_content = ''hi''\<rparr>"

lemma id_filter_is_exact_witness:
  "ev_id sample_event \<in> set [ev_id sample_event]"
proof -
  let ?f = "empty_filter\<lparr>f_ids := Some [ev_id sample_event]\<rparr>"
  let ?ev = "stored_event_new 0 sample_event None"
  have "ev_id (se_event ?ev) \<in> set [ev_id sample_event]"
    by (rule id_filter_is_exact [where f = ?f])
      (simp_all add: sample_event_def stored_event_new_def filter_match_one_def empty_filter_def)
  then show ?thesis by (simp add: stored_event_new_def)
qed

text \<open>
  An event of a private kind (DM visibility, agent turn metric) is released only to a
  reader named in one of its \<open>p\<close> tags; every other kind passes this gate.
\<close>

theorem private_kinds_reach_only_their_owner:
  "reader_authorized_for_event ev reader \<longleftrightarrow>
     (List.member RESULT_GATED_KINDS (ev_kind ev) \<longrightarrow> event_has_tag ev ''p'' reader)"
  by (auto simp: reader_authorized_for_event_def RESULT_GATED_KINDS_def event_has_tag_def
      list_ex_iff Let_def)

lemma private_kinds_reach_only_their_owner_witness:
  "reader_authorized_for_event (sample_event\<lparr>ev_kind := KIND_DM_VISIBILITY\<rparr>) ''bob''
   \<and> \<not> reader_authorized_for_event (sample_event\<lparr>ev_kind := KIND_DM_VISIBILITY\<rparr>) ''eve''"
  unfolding private_kinds_reach_only_their_owner
  by (simp add: sample_event_def RESULT_GATED_KINDS_def event_has_tag_def tag_kind_def
      tag_content_def)

section \<open>The interface the registry relies on\<close>

locale event_matcher =
  fixes matches :: "nfilter list \<Rightarrow> stored_event \<Rightarrow> bool"
  assumes match_filter:
    "matches fs ev \<Longrightarrow>
     \<exists>f \<in> set fs. (\<forall>ks. f_kinds f = Some ks \<longrightarrow> ev_kind (se_event ev) \<in> set ks) \<and>
       (\<forall>k vs. hget (f_tags f) k = Some vs \<longrightarrow> k \<noteq> ''h'' \<longrightarrow>
          (\<exists>v \<in> set vs. event_has_tag (se_event ev) k v))"

interpretation nip01: event_matcher filters_match
proof
  fix fs ev
  assume "filters_match fs ev"
  then obtain f where f: "f \<in> set fs" "nip01_accepts f ev"
    by (auto simp: filters_match_def list_ex_iff filter_match_one_iff)
  then show "\<exists>f \<in> set fs. (\<forall>ks. f_kinds f = Some ks \<longrightarrow> ev_kind (se_event ev) \<in> set ks) \<and>
       (\<forall>k vs. hget (f_tags f) k = Some vs \<longrightarrow> k \<noteq> ''h'' \<longrightarrow>
          (\<exists>v \<in> set vs. event_has_tag (se_event ev) k v))"
    by (intro bexI [of _ f]) (auto simp: nip01_accepts_def Let_def tag_accepts_def dest!: map_of_SomeD)
qed

end
