(* ===== verification/Subscriptions.thy ===== *)
theory Subscriptions
  imports Filters
begin

text \<open>
  The subscription registry of \<open>crates/buzz-relay/src/subscription.rs\<close>: the authoritative map
  of live subscriptions and the five indexes that target fan-out.

  \<^item> \<open>registry\<close> is \<open>SubscriptionRegistry\<close> with its six maps, and the process gauge
    \<open>buzz_subscriptions_active\<close> that its operations move.
  \<^item> \<open>bucket\<close> and \<open>slots_of\<close> view the five indexes as one: the vector stored under a slot, and
    the slots a subscription is routed to. \<open>reg_inv\<close> says that the vectors hold exactly the
    live subscriptions routed there.
  \<^item> \<open>view\<close> forgets the indexes; the operations refine updates of that map, and \<open>fan_out_scoped\<close>
    refines a scan of it.
  \<^item> Every operation is atomic in the model, except in the last section, which splits
    \<open>remove_from_index\<close> at the point where the code releases the shard lock.
\<close>

type_synonym conn_id = uuid
type_synonym sub_id = string
type_synonym community_id = uuid
type_synonym sub_entry = "nfilter list \<times> community_id \<times> uuid option"
type_synonym sub_ref = "conn_id \<times> sub_id"

record index_key =
  ik_channel_id :: uuid
  ik_kind :: nat

record global_p_kind_key =
  gp_community_id :: community_id
  gp_kind :: nat
  gp_p :: string

record removed_subscription =
  rs_community_id :: community_id
  rs_channel_id :: "uuid option"

record registry =
  subs :: "(conn_id, (sub_id, sub_entry) hmap) hmap"
  channel_kind_index :: "(community_id \<times> index_key, sub_ref list) hmap"
  channel_wildcard_index :: "(community_id \<times> uuid, sub_ref list) hmap"
  global_kind_index :: "(community_id \<times> nat, sub_ref list) hmap"
  global_p_kind_index :: "(global_p_kind_key, sub_ref list) hmap"
  global_wildcard_index :: "(community_id, sub_ref list) hmap"
  active_gauge :: int

definition registry_new :: registry where
  "registry_new =
     \<lparr>subs = [], channel_kind_index = [], channel_wildcard_index = [], global_kind_index = [],
      global_p_kind_index = [], global_wildcard_index = [], active_gauge = 0\<rparr>"

section \<open>Routing keys of a filter list\<close>

fun extract_kinds_loop :: "nfilter list \<Rightarrow> nat list \<Rightarrow> nat list option" where
  "extract_kinds_loop [] kinds = Some kinds"
| "extract_kinds_loop (f # fs) kinds =
     (case f_kinds f of
        Some filter_kinds \<Rightarrow> extract_kinds_loop fs (fold push_new filter_kinds kinds)
      | None \<Rightarrow> None)"

definition extract_kinds_from_filters :: "nfilter list \<Rightarrow> nat list option" where
  "extract_kinds_from_filters fs = extract_kinds_loop fs []"

definition p_kind_keys :: "community_id \<Rightarrow> nat list \<Rightarrow> string list \<Rightarrow> global_p_kind_key list" where
  "p_kind_keys c kinds ps =
     concat (map (\<lambda>k. map (\<lambda>p. \<lparr>gp_community_id = c, gp_kind = k, gp_p = p\<rparr>) ps) kinds)"

fun extract_p_keys_loop ::
  "community_id \<Rightarrow> nfilter list \<Rightarrow> global_p_kind_key list \<Rightarrow> global_p_kind_key list option" where
  "extract_p_keys_loop c [] ks = Some ks"
| "extract_p_keys_loop c (f # fs) ks =
     (case f_kinds f of
        None \<Rightarrow> None
      | Some kinds \<Rightarrow>
          if kinds = [] then extract_p_keys_loop c fs ks
          else (case hget (f_tags f) ''p'' of
                  None \<Rightarrow> None
                | Some p_values \<Rightarrow>
                    if p_values = [] then None
                    else extract_p_keys_loop c fs (fold push_new (p_kind_keys c kinds p_values) ks)))"

definition extract_global_p_kind_index_keys ::
  "community_id \<Rightarrow> nfilter list \<Rightarrow> global_p_kind_key list option" where
  "extract_global_p_kind_index_keys c fs = extract_p_keys_loop c fs []"

definition push_p_tag :: "tag \<Rightarrow> string list \<Rightarrow> string list" where
  "push_p_tag t vals =
     (if tag_kind t \<noteq> ''p'' then vals
      else (case tag_content t of Some v \<Rightarrow> push_new v vals | None \<Rightarrow> vals))"

definition event_p_tag_values :: "stored_event \<Rightarrow> string list" where
  "event_p_tag_values ev = fold push_p_tag (ev_tags (se_event ev)) []"

section \<open>Index vectors\<close>

definition index_push :: "'k \<Rightarrow> 'r \<Rightarrow> ('k, 'r list) hmap \<Rightarrow> ('k, 'r list) hmap" where
  "index_push k x m = hinsert k (or_empty (hget m k) @ [x]) m"

text \<open>
  The two lock sections of a removal: \<open>retain\<close> under the entry's guard, which reports an
  emptied vector, and the removal of the key after the guard is dropped.
\<close>

definition index_retain :: "'k \<Rightarrow> 'r \<Rightarrow> ('k, 'r list) hmap \<Rightarrow> ('k, 'r list) hmap \<times> bool" where
  "index_retain k x m =
     (case hget m k of
        None \<Rightarrow> (m, False)
      | Some entries \<Rightarrow>
          let kept = filter (\<lambda>y. y \<noteq> x) entries in (hinsert k kept m, kept = []))"

definition index_drop :: "'k \<Rightarrow> 'r \<Rightarrow> ('k, 'r list) hmap \<Rightarrow> ('k, 'r list) hmap" where
  "index_drop k x m =
     (case index_retain k x m of (m', emptied) \<Rightarrow> if emptied then hremove k m' else m')"

definition index_wf :: "('k, 'r list) hmap \<Rightarrow> bool" where
  "index_wf m \<longleftrightarrow> distinct (keys m) \<and> (\<forall>(k, entries) \<in> set m. entries \<noteq> [])"

section \<open>The operations\<close>

definition ck_key :: "community_id \<Rightarrow> uuid \<Rightarrow> nat \<Rightarrow> community_id \<times> index_key" where
  "ck_key c ch k = (c, \<lparr>ik_channel_id = ch, ik_kind = k\<rparr>)"

definition add_to_index ::
  "conn_id \<Rightarrow> sub_id \<Rightarrow> nfilter list \<Rightarrow> community_id \<Rightarrow> uuid option \<Rightarrow> registry \<Rightarrow> registry" where
  "add_to_index conn sub fs c channel r =
     (case channel of
        Some ch \<Rightarrow>
          (case extract_kinds_from_filters fs of
             None \<Rightarrow> r\<lparr>channel_wildcard_index :=
               index_push (c, ch) (conn, sub) (channel_wildcard_index r)\<rparr>
           | Some kinds \<Rightarrow>
               if kinds = [] then r
               else r\<lparr>channel_kind_index :=
                 fold (\<lambda>k. index_push (ck_key c ch k) (conn, sub)) kinds (channel_kind_index r)\<rparr>)
      | None \<Rightarrow>
          (case extract_global_p_kind_index_keys c fs of
             Some ks \<Rightarrow> r\<lparr>global_p_kind_index :=
               fold (\<lambda>k. index_push k (conn, sub)) ks (global_p_kind_index r)\<rparr>
           | None \<Rightarrow>
               (case extract_kinds_from_filters fs of
                  None \<Rightarrow> r\<lparr>global_wildcard_index :=
                    index_push c (conn, sub) (global_wildcard_index r)\<rparr>
                | Some kinds \<Rightarrow>
                    if kinds = [] then r
                    else r\<lparr>global_kind_index :=
                      fold (\<lambda>k. index_push (c, k) (conn, sub)) kinds (global_kind_index r)\<rparr>)))"

definition remove_from_index ::
  "conn_id \<Rightarrow> sub_id \<Rightarrow> nfilter list \<Rightarrow> community_id \<Rightarrow> uuid option \<Rightarrow> registry \<Rightarrow> registry" where
  "remove_from_index conn sub fs c channel r =
     (case channel of
        Some ch \<Rightarrow>
          (case extract_kinds_from_filters fs of
             None \<Rightarrow> r\<lparr>channel_wildcard_index :=
               index_drop (c, ch) (conn, sub) (channel_wildcard_index r)\<rparr>
           | Some kinds \<Rightarrow>
               if kinds = [] then r
               else r\<lparr>channel_kind_index :=
                 fold (\<lambda>k. index_drop (ck_key c ch k) (conn, sub)) kinds (channel_kind_index r)\<rparr>)
      | None \<Rightarrow>
          (case extract_global_p_kind_index_keys c fs of
             Some ks \<Rightarrow> r\<lparr>global_p_kind_index :=
               fold (\<lambda>k. index_drop k (conn, sub)) ks (global_p_kind_index r)\<rparr>
           | None \<Rightarrow>
               (case extract_kinds_from_filters fs of
                  None \<Rightarrow> r\<lparr>global_wildcard_index :=
                    index_drop c (conn, sub) (global_wildcard_index r)\<rparr>
                | Some kinds \<Rightarrow>
                    if kinds = [] then r
                    else r\<lparr>global_kind_index :=
                      fold (\<lambda>k. index_drop (c, k) (conn, sub)) kinds (global_kind_index r)\<rparr>)))"

definition remove_subscription ::
  "conn_id \<Rightarrow> sub_id \<Rightarrow> registry \<Rightarrow> removed_subscription option \<times> registry" where
  "remove_subscription conn sub r =
     (case hget (subs r) conn of
        None \<Rightarrow> (None, r)
      | Some conn_subs \<Rightarrow>
          (case hget conn_subs sub of
             None \<Rightarrow> (None, r)
           | Some (fs, c, channel) \<Rightarrow>
               let r1 = r\<lparr>subs := hinsert conn (hremove sub conn_subs) (subs r)\<rparr>;
                   r2 = remove_from_index conn sub fs c channel r1
               in (Some \<lparr>rs_community_id = c, rs_channel_id = channel\<rparr>,
                   r2\<lparr>active_gauge := active_gauge r2 - 1\<rparr>)))"

definition register_scoped ::
  "community_id \<Rightarrow> conn_id \<Rightarrow> sub_id \<Rightarrow> nfilter list \<Rightarrow> uuid option \<Rightarrow> registry
   \<Rightarrow> removed_subscription option \<times> registry" where
  "register_scoped c conn sub fs channel r =
     (case remove_subscription conn sub r of
        (removed, r1) \<Rightarrow>
          let r2 = r1\<lparr>subs := hinsert conn
                (hinsert sub (fs, c, channel) (or_empty (hget (subs r1) conn))) (subs r1),
              active_gauge := active_gauge r1 + 1\<rparr>
          in (removed, add_to_index conn sub fs c channel r2))"

text \<open>One turn of the loop over a closed connection's subscriptions.\<close>

definition drop_conn_sub ::
  "conn_id \<Rightarrow> sub_id \<times> sub_entry \<Rightarrow> removed_subscription list \<times> registry
   \<Rightarrow> removed_subscription list \<times> registry" where
  "drop_conn_sub conn e acc =
     (case (e, acc) of
        ((sub, (fs, c, channel)), (removed, r)) \<Rightarrow>
          (removed @ [\<lparr>rs_community_id = c, rs_channel_id = channel\<rparr>],
           remove_from_index conn sub fs c channel r))"

definition remove_connection :: "conn_id \<Rightarrow> registry \<Rightarrow> removed_subscription list \<times> registry" where
  "remove_connection conn r =
     (case hget (subs r) conn of
        None \<Rightarrow> ([], r)
      | Some conn_subs \<Rightarrow>
          (case fold (drop_conn_sub conn) conn_subs ([], r\<lparr>subs := hremove conn (subs r)\<rparr>) of
             (removed, r') \<Rightarrow>
               (removed, r'\<lparr>active_gauge := active_gauge r' - int (length conn_subs)\<rparr>)))"

text \<open>The ids are collected first, then removed one by one (a missing id is skipped).\<close>

definition channel_sub_ids :: "community_id \<Rightarrow> conn_id \<Rightarrow> uuid \<Rightarrow> registry \<Rightarrow> sub_id list" where
  "channel_sub_ids c conn ch r =
     (case hget (subs r) conn of
        None \<Rightarrow> []
      | Some conn_subs \<Rightarrow>
          map fst (filter (\<lambda>(sub, fs, c', ch'). c' = c \<and> ch' = Some ch) conn_subs))"

fun remove_each ::
  "conn_id \<Rightarrow> sub_id list \<Rightarrow> registry \<Rightarrow> (sub_id \<times> removed_subscription) list \<times> registry" where
  "remove_each conn [] r = ([], r)"
| "remove_each conn (sub # sub_ids) r =
     (case remove_subscription conn sub r of
        (removed, r1) \<Rightarrow>
          (case remove_each conn sub_ids r1 of
             (rest, r2) \<Rightarrow>
               ((case removed of None \<Rightarrow> rest | Some rem \<Rightarrow> (sub, rem) # rest), r2)))"

definition remove_channel_subscriptions_scoped ::
  "community_id \<Rightarrow> conn_id \<Rightarrow> uuid \<Rightarrow> registry \<Rightarrow> (sub_id \<times> removed_subscription) list \<times> registry"
where
  "remove_channel_subscriptions_scoped c conn ch r =
     remove_each conn (channel_sub_ids c conn ch r) r"

section \<open>Queries\<close>

definition channel_subscriber_conns_scoped ::
  "community_id \<Rightarrow> uuid \<Rightarrow> registry \<Rightarrow> conn_id list" where
  "channel_subscriber_conns_scoped c ch r =
     (let kind_conns = concat (map (\<lambda>((c', key), entries).
            if c' = c \<and> ik_channel_id key = ch then map fst entries else [])
            (channel_kind_index r));
          wild_conns = map fst (or_empty (hget (channel_wildcard_index r) (c, ch)))
      in fold push_new (kind_conns @ wild_conns) [])"

text \<open>
  Fan-out. The matcher is an argument, so that the facts about routing rest only on its
  contract; \<open>fan_out_scoped\<close> passes \<open>filters_match\<close>.
\<close>

definition push_match ::
  "(nfilter list \<Rightarrow> stored_event \<Rightarrow> bool) \<Rightarrow> registry \<Rightarrow> community_id \<Rightarrow> stored_event
   \<Rightarrow> sub_ref \<Rightarrow> sub_ref list \<Rightarrow> sub_ref list" where
  "push_match matches r c ev s results =
     (case hget (subs r) (fst s) of
        None \<Rightarrow> results
      | Some conn_subs \<Rightarrow>
          (case hget conn_subs (snd s) of
             None \<Rightarrow> results
           | Some (fs, c', ch') \<Rightarrow>
               if c' = c \<and> ch' = se_channel_id ev \<and> matches fs ev then push_new s results
               else results))"

definition push_candidates ::
  "(nfilter list \<Rightarrow> stored_event \<Rightarrow> bool) \<Rightarrow> registry \<Rightarrow> community_id \<Rightarrow> stored_event
   \<Rightarrow> sub_ref list option \<Rightarrow> sub_ref list \<Rightarrow> sub_ref list" where
  "push_candidates matches r c ev candidates results =
     (case candidates of
        None \<Rightarrow> results
      | Some cands \<Rightarrow> fold (push_match matches r c ev) cands results)"

definition fan_out_with ::
  "(nfilter list \<Rightarrow> stored_event \<Rightarrow> bool) \<Rightarrow> registry \<Rightarrow> community_id \<Rightarrow> stored_event
   \<Rightarrow> sub_ref list" where
  "fan_out_with matches r c ev =
     (let kind = ev_kind (se_event ev); push = push_candidates matches r c ev in
      case se_channel_id ev of
        Some ch \<Rightarrow>
          push (hget (channel_wildcard_index r) (c, ch))
            (push (hget (channel_kind_index r) (ck_key c ch kind)) [])
      | None \<Rightarrow>
          push (hget (global_wildcard_index r) c)
            (push (hget (global_kind_index r) (c, kind))
              (fold (\<lambda>p. push (hget (global_p_kind_index r)
                  \<lparr>gp_community_id = c, gp_kind = kind, gp_p = p\<rparr>))
                (event_p_tag_values ev) [])))"

definition fan_out_scoped :: "registry \<Rightarrow> community_id \<Rightarrow> stored_event \<Rightarrow> sub_ref list" where
  "fan_out_scoped r c ev = fan_out_with filters_match r c ev"

definition get_filters :: "conn_id \<Rightarrow> sub_id \<Rightarrow> registry \<Rightarrow> nfilter list option" where
  "get_filters conn sub r =
     (case hget (subs r) conn of
        None \<Rightarrow> None
      | Some conn_subs \<Rightarrow> map_option fst (hget conn_subs sub))"

definition total_subscriptions :: "registry \<Rightarrow> nat" where
  "total_subscriptions r = (\<Sum>e \<leftarrow> subs r. length (snd e))"

definition total_connections :: "registry \<Rightarrow> nat" where
  "total_connections r = length (subs r)"

definition count_community ::
  "sub_id \<times> sub_entry \<Rightarrow> (community_id, nat) hmap \<Rightarrow> (community_id, nat) hmap" where
  "count_community e counts =
     (case e of (sub, fs, c, ch) \<Rightarrow>
        hinsert c ((case hget counts c of None \<Rightarrow> 0 | Some n \<Rightarrow> n) + 1) counts)"

definition per_community_subscriptions :: "registry \<Rightarrow> (community_id, nat) hmap" where
  "per_community_subscriptions r =
     fold (\<lambda>e. fold count_community (snd e)) (subs r) []"

section \<open>The indexes as one\<close>

datatype slot =
    ChannelKind "community_id \<times> index_key"
  | ChannelWild "community_id \<times> uuid"
  | GlobalPKind global_p_kind_key
  | GlobalKind "community_id \<times> nat"
  | GlobalWild community_id

fun bucket :: "registry \<Rightarrow> slot \<Rightarrow> sub_ref list" where
  "bucket r (ChannelKind k) = or_empty (hget (channel_kind_index r) k)"
| "bucket r (ChannelWild k) = or_empty (hget (channel_wildcard_index r) k)"
| "bucket r (GlobalPKind k) = or_empty (hget (global_p_kind_index r) k)"
| "bucket r (GlobalKind k) = or_empty (hget (global_kind_index r) k)"
| "bucket r (GlobalWild k) = or_empty (hget (global_wildcard_index r) k)"

definition slots_of :: "community_id \<Rightarrow> nfilter list \<Rightarrow> uuid option \<Rightarrow> slot list" where
  "slots_of c fs channel =
     (case channel of
        Some ch \<Rightarrow>
          (case extract_kinds_from_filters fs of
             None \<Rightarrow> [ChannelWild (c, ch)]
           | Some kinds \<Rightarrow> map (\<lambda>k. ChannelKind (ck_key c ch k)) kinds)
      | None \<Rightarrow>
          (case extract_global_p_kind_index_keys c fs of
             Some ks \<Rightarrow> map GlobalPKind ks
           | None \<Rightarrow>
               (case extract_kinds_from_filters fs of
                  None \<Rightarrow> [GlobalWild c]
                | Some kinds \<Rightarrow> map (\<lambda>k. GlobalKind (c, k)) kinds)))"

definition indexes_wf :: "registry \<Rightarrow> bool" where
  "indexes_wf r \<longleftrightarrow>
     index_wf (channel_kind_index r) \<and> index_wf (channel_wildcard_index r) \<and>
     index_wf (global_kind_index r) \<and> index_wf (global_p_kind_index r) \<and>
     index_wf (global_wildcard_index r)"

text \<open>The indexes hold exactly the subscriptions of \<open>V\<close>, each once per slot it is routed to.\<close>

definition aligned :: "(sub_ref \<rightharpoonup> sub_entry) \<Rightarrow> registry \<Rightarrow> bool" where
  "aligned V r \<longleftrightarrow>
     (\<forall>s x. x \<in> set (bucket r s) \<longleftrightarrow>
        (\<exists>fs c ch. V x = Some (fs, c, ch) \<and> s \<in> set (slots_of c fs ch))) \<and>
     (\<forall>s. distinct (bucket r s)) \<and> indexes_wf r"

definition view :: "registry \<Rightarrow> (sub_ref \<rightharpoonup> sub_entry)" where
  "view r = (\<lambda>(conn, sub).
     case hget (subs r) conn of None \<Rightarrow> None | Some conn_subs \<Rightarrow> hget conn_subs sub)"

definition subs_wf :: "registry \<Rightarrow> bool" where
  "subs_wf r \<longleftrightarrow> distinct (keys (subs r)) \<and> (\<forall>(conn, cs) \<in> set (subs r). distinct (keys cs))"

definition reg_inv :: "registry \<Rightarrow> bool" where
  "reg_inv r \<longleftrightarrow>
     subs_wf r \<and> aligned (view r) r \<and> active_gauge r = int (total_subscriptions r)"

subsection \<open>Index vectors\<close>

lemma hget_index_push:
  "hget (index_push k x m) k' = (if k' = k then Some (or_empty (hget m k) @ [x]) else hget m k')"
  by (simp add: index_push_def)

lemma index_wf_push [simp]: "index_wf m \<Longrightarrow> index_wf (index_push k x m)"
  by (auto simp: index_wf_def index_push_def set_insert_entries)

lemma vec_index_drop:
  "or_empty (hget (index_drop k x m) k') =
     (if k' = k then filter (\<lambda>y. y \<noteq> x) (or_empty (hget m k)) else or_empty (hget m k'))"
  by (auto simp: index_drop_def index_retain_def Let_def split: option.splits)

lemma index_wf_drop [simp]: "index_wf m \<Longrightarrow> index_wf (index_drop k x m)"
  by (auto simp: index_wf_def index_drop_def index_retain_def Let_def set_insert_entries
      set_remove_entries split: option.splits)

lemma index_wf_fold_push [simp]:
  "index_wf m \<Longrightarrow> index_wf (fold (\<lambda>k. index_push (g k) x) ks m)"
  by (induction ks arbitrary: m) auto

lemma index_wf_fold_drop [simp]:
  "index_wf m \<Longrightarrow> index_wf (fold (\<lambda>k. index_drop (g k) x) ks m)"
  by (induction ks arbitrary: m) auto

lemma vec_fold_push:
  "distinct (map g ks) \<Longrightarrow>
   or_empty (hget (fold (\<lambda>k. index_push (g k) x) ks m) k') =
     or_empty (hget m k') @ (if k' \<in> g ` set ks then [x] else [])"
  by (induction ks arbitrary: m) (auto simp: hget_index_push)

lemma vec_fold_drop:
  "or_empty (hget (fold (\<lambda>k. index_drop (g k) x) ks m) k') =
     (if k' \<in> g ` set ks then filter (\<lambda>y. y \<noteq> x) (or_empty (hget m k')) else or_empty (hget m k'))"
  by (induction ks arbitrary: m) (auto simp: vec_index_drop)

subsection \<open>Routing keys\<close>

lemma distinct_extract_kinds_loop:
  "extract_kinds_loop fs ks = Some ks' \<Longrightarrow> distinct ks \<Longrightarrow> distinct ks'"
  by (induction fs arbitrary: ks) (auto split: option.splits)

lemma distinct_extract_kinds: "extract_kinds_from_filters fs = Some ks \<Longrightarrow> distinct ks"
  by (auto simp: extract_kinds_from_filters_def dest: distinct_extract_kinds_loop)

lemma distinct_extract_p_loop:
  "extract_p_keys_loop c fs ks = Some ks' \<Longrightarrow> distinct ks \<Longrightarrow> distinct ks'"
  by (induction fs arbitrary: ks) (auto split: option.splits if_splits)

lemma distinct_extract_p: "extract_global_p_kind_index_keys c fs = Some ks \<Longrightarrow> distinct ks"
  by (auto simp: extract_global_p_kind_index_keys_def dest: distinct_extract_p_loop)

lemma extract_kinds_loop_None:
  "extract_kinds_loop fs ks = None \<longleftrightarrow> (\<exists>f \<in> set fs. f_kinds f = None)"
  by (induction fs arbitrary: ks) (auto split: option.splits)

lemma set_extract_kinds_loop:
  "extract_kinds_loop fs ks = Some ks' \<Longrightarrow>
   set ks' = set ks \<union> (\<Union>f \<in> set fs. set (the (f_kinds f)))"
  by (induction fs arbitrary: ks) (auto split: option.splits)

lemma set_extract_kinds:
  "extract_kinds_from_filters fs = Some ks \<Longrightarrow>
   f \<in> set fs \<Longrightarrow> f_kinds f = Some fk \<Longrightarrow> k \<in> set fk \<Longrightarrow> k \<in> set ks"
  by (force simp: extract_kinds_from_filters_def dest!: set_extract_kinds_loop)

lemma extract_kinds_Some:
  "extract_kinds_from_filters fs = Some ks \<Longrightarrow> f \<in> set fs \<Longrightarrow> \<exists>fk. f_kinds f = Some fk"
  using extract_kinds_loop_None [of fs "[]"] by (auto simp: extract_kinds_from_filters_def)

lemma set_p_kind_keys [simp]:
  "key \<in> set (p_kind_keys c kinds ps) \<longleftrightarrow>
   gp_community_id key = c \<and> gp_kind key \<in> set kinds \<and> gp_p key \<in> set ps"
  by (cases key) (auto simp: p_kind_keys_def)

lemma extract_p_loop_covers:
  "extract_p_keys_loop c fs ks = Some ks' \<Longrightarrow> f \<in> set fs \<Longrightarrow>
   \<exists>kinds. f_kinds f = Some kinds \<and>
     (kinds = [] \<or> (\<exists>ps. hget (f_tags f) ''p'' = Some ps \<and> set (p_kind_keys c kinds ps) \<subseteq> set ks'))"
  and extract_p_loop_mono: "extract_p_keys_loop c fs ks = Some ks' \<Longrightarrow> set ks \<subseteq> set ks'"
proof -
  show mono: "extract_p_keys_loop c fs ks = Some ks' \<Longrightarrow> set ks \<subseteq> set ks'" for fs ks
    by (induction fs arbitrary: ks) (fastforce split: option.splits if_splits)+
  show "extract_p_keys_loop c fs ks = Some ks' \<Longrightarrow> f \<in> set fs \<Longrightarrow>
   \<exists>kinds. f_kinds f = Some kinds \<and>
     (kinds = [] \<or> (\<exists>ps. hget (f_tags f) ''p'' = Some ps \<and> set (p_kind_keys c kinds ps) \<subseteq> set ks'))"
  proof (induction fs arbitrary: ks)
    case (Cons g fs)
    then show ?case
      by (auto split: option.splits if_splits dest: mono)
  qed simp
qed

lemma slots_distinct: "distinct (slots_of c fs channel)"
  unfolding slots_of_def
  by (auto split: option.splits simp: distinct_map inj_on_def ck_key_def
      dest: distinct_extract_kinds distinct_extract_p)

subsection \<open>Adding and removing index entries\<close>

lemma bucket_add:
  "bucket (add_to_index conn sub fs c channel r) s =
     bucket r s @ (if s \<in> set (slots_of c fs channel) then [(conn, sub)] else [])"
proof -
  have ck: "distinct (map (\<lambda>k. ck_key c ch k) kinds)" "distinct (map (\<lambda>k. (c, k)) kinds)"
    if "extract_kinds_from_filters fs = Some kinds" for ch kinds
    using distinct_extract_kinds [OF that] by (auto simp: distinct_map inj_on_def ck_key_def)
  have p: "distinct ks" if "extract_global_p_kind_index_keys c fs = Some ks" for ks
    using distinct_extract_p [OF that] by simp
  show ?thesis
    by (cases s) (auto simp: add_to_index_def slots_of_def hget_index_push vec_fold_push ck
        vec_fold_push [where g = "\<lambda>k. k"] p split: option.splits)
qed

lemma bucket_remove:
  "bucket (remove_from_index conn sub fs c channel r) s =
     (if s \<in> set (slots_of c fs channel) then filter (\<lambda>y. y \<noteq> (conn, sub)) (bucket r s)
      else bucket r s)"
  by (cases s) (auto simp: remove_from_index_def slots_of_def vec_index_drop vec_fold_drop
      vec_fold_drop [where g = "\<lambda>k. k"] split: option.splits)

lemma indexes_wf_add: "indexes_wf r \<Longrightarrow> indexes_wf (add_to_index conn sub fs c channel r)"
  by (auto simp: indexes_wf_def add_to_index_def index_wf_fold_push [where g = "\<lambda>k. k"]
      split: option.splits)

lemma indexes_wf_remove: "indexes_wf r \<Longrightarrow> indexes_wf (remove_from_index conn sub fs c channel r)"
  by (auto simp: indexes_wf_def remove_from_index_def index_wf_fold_drop [where g = "\<lambda>k. k"]
      split: option.splits)

lemma aligned_add:
  assumes "aligned V r" and "V (conn, sub) = None"
  shows "aligned (V((conn, sub) \<mapsto> (fs, c, ch))) (add_to_index conn sub fs c ch r)"
  using assms unfolding aligned_def
  by (auto simp: bucket_add indexes_wf_add split: if_splits)

lemma aligned_remove:
  assumes "aligned V r" and "V (conn, sub) = Some (fs, c, ch)"
  shows "aligned (V((conn, sub) := None)) (remove_from_index conn sub fs c ch r)"
  using assms unfolding aligned_def
  by (auto simp: bucket_remove indexes_wf_remove split: if_splits)

lemma bucket_irrelevant [simp]:
  "bucket (r\<lparr>subs := m\<rparr>) s = bucket r s" "bucket (r\<lparr>active_gauge := g\<rparr>) s = bucket r s"
  by (cases s; simp)+

lemma aligned_irrelevant [simp]:
  "aligned V (r\<lparr>subs := m\<rparr>) = aligned V r" "aligned V (r\<lparr>active_gauge := g\<rparr>) = aligned V r"
  by (simp_all add: aligned_def indexes_wf_def)

lemma index_frame [simp]:
  "subs (add_to_index conn sub fs c ch r) = subs r"
  "active_gauge (add_to_index conn sub fs c ch r) = active_gauge r"
  "subs (remove_from_index conn sub fs c ch r) = subs r"
  "active_gauge (remove_from_index conn sub fs c ch r) = active_gauge r"
  by (auto simp: add_to_index_def remove_from_index_def split: option.splits)

subsection \<open>The operations keep the invariant\<close>

lemma view_insert:
  "view (r\<lparr>subs := hinsert conn cs (subs r)\<rparr>) =
     (\<lambda>(conn', sub'). if conn' = conn then hget cs sub' else view r (conn', sub'))"
  by (auto simp: view_def fun_eq_iff)

lemma view_subs: "subs r = subs r' \<Longrightarrow> view r = view r'"
  by (simp add: view_def)

lemma view_gauge [simp]: "view (r\<lparr>active_gauge := g\<rparr>) = view r"
  by (simp add: view_def)

lemma view_remove_subscription:
  "view (snd (remove_subscription conn sub r)) = (view r)((conn, sub) := None)"
  by (auto simp: remove_subscription_def view_def fun_eq_iff Let_def split: option.splits)

lemma view_register:
  "view (snd (register_scoped c conn sub fs ch r)) = (view r)((conn, sub) \<mapsto> (fs, c, ch))"
proof -
  obtain rem r1 where r1: "remove_subscription conn sub r = (rem, r1)"
    by (cases "remove_subscription conn sub r")
  then have v: "view r1 = (view r)((conn, sub) := None)"
    using view_remove_subscription [of conn sub r] by simp
  have "view (snd (register_scoped c conn sub fs ch r)) =
    (\<lambda>(conn', sub'). if conn' = conn
       then hget (hinsert sub (fs, c, ch) (or_empty (hget (subs r1) conn))) sub'
       else view r1 (conn', sub'))"
    unfolding register_scoped_def r1 Let_def prod.case snd_conv
    by (subst view_insert [symmetric]) (simp add: view_def)
  also have "\<dots> = (view r1)((conn, sub) \<mapsto> (fs, c, ch))"
    by (auto simp: view_def fun_eq_iff split: option.splits)
  finally show ?thesis by (simp add: v)
qed

lemma subs_wf_insert:
  "subs_wf r \<Longrightarrow> distinct (keys cs) \<Longrightarrow> subs_wf (r\<lparr>subs := hinsert conn cs (subs r)\<rparr>)"
  by (auto simp: subs_wf_def set_insert_entries)

lemma subs_wf_subs: "subs r = subs r' \<Longrightarrow> subs_wf r = subs_wf r'"
  by (simp add: subs_wf_def)

lemma subs_wf_conn: "subs_wf r \<Longrightarrow> hget (subs r) conn = Some cs \<Longrightarrow> distinct (keys cs)"
  by (auto simp: subs_wf_def dest!: map_of_SomeD)

lemma total_subs: "subs r = subs r' \<Longrightarrow> total_subscriptions r = total_subscriptions r'"
  by (simp add: total_subscriptions_def)

lemma remove_subscription_inv [inv_intros]:
  assumes inv: "reg_inv r"
  shows "reg_inv (snd (remove_subscription conn sub r))"
proof (cases "view r (conn, sub)")
  case None
  then have "snd (remove_subscription conn sub r) = r"
    by (auto simp: remove_subscription_def view_def split: option.splits)
  then show ?thesis using inv by simp
next
  case (Some e)
  obtain fs c ch where e: "e = (fs, c, ch)" by (cases e)
  from Some obtain cs where cs: "hget (subs r) conn = Some cs" "hget cs sub = Some (fs, c, ch)"
    unfolding e by (auto simp: view_def split: option.splits)
  let ?m = "hinsert conn (hremove sub cs) (subs r)"
  let ?r = "remove_from_index conn sub fs c ch (r\<lparr>subs := ?m\<rparr>)"
  have res: "snd (remove_subscription conn sub r) = ?r\<lparr>active_gauge := active_gauge ?r - 1\<rparr>"
    using cs by (simp add: remove_subscription_def Let_def)
  have wf: "subs_wf r" "aligned (view r) r" and g: "active_gauge r = int (total_subscriptions r)"
    using inv by (auto simp: reg_inv_def)
  have dcs: "distinct (keys cs)" using subs_wf_conn [OF wf(1) cs(1)] .
  have "aligned ((view r)((conn, sub) := None)) (remove_from_index conn sub fs c ch (r\<lparr>subs := ?m\<rparr>))"
    using wf(2) Some e by (intro aligned_remove) auto
  moreover have "view (snd (remove_subscription conn sub r)) = (view r)((conn, sub) := None)"
    by (rule view_remove_subscription)
  moreover have "subs_wf (r\<lparr>subs := ?m\<rparr>)"
    using wf(1) dcs by (intro subs_wf_insert) auto
  then have "subs_wf ?r" using subs_wf_subs [of ?r "r\<lparr>subs := ?m\<rparr>"] by simp
  moreover have "int (total_subscriptions ?r) = active_gauge r - 1"
  proof -
    have "total_subscriptions ?r + length cs = total_subscriptions r + length (hremove sub cs)"
      using wf(1) cs(1) unfolding total_subscriptions_def
      by (simp add: sum_list_insert_present [where f = length] subs_wf_def)
    moreover have "Suc (length (hremove sub cs)) = length cs"
      using dcs cs(2) by (intro length_hremove) auto
    ultimately show ?thesis using g by simp
  qed
  ultimately show ?thesis
    unfolding res by (auto simp: reg_inv_def subs_wf_def total_subscriptions_def)
qed

lemma register_inv [inv_intros]:
  assumes inv: "reg_inv r"
  shows "reg_inv (snd (register_scoped c conn sub fs ch r))"
proof -
  obtain rem r1 where r1: "remove_subscription conn sub r = (rem, r1)"
    by (cases "remove_subscription conn sub r")
  have inv1: "reg_inv r1" and gone: "view r1 (conn, sub) = None"
    using remove_subscription_inv [OF inv, of conn sub] view_remove_subscription [of conn sub r]
    by (simp_all add: r1)
  let ?cs = "or_empty (hget (subs r1) conn)"
  let ?m = "hinsert conn (hinsert sub (fs, c, ch) ?cs) (subs r1)"
  let ?r2 = "r1\<lparr>subs := ?m, active_gauge := active_gauge r1 + 1\<rparr>"
  have res: "snd (register_scoped c conn sub fs ch r) = add_to_index conn sub fs c ch ?r2"
    by (simp add: register_scoped_def r1 Let_def)
  have wf: "subs_wf r1" "aligned (view r1) r1"
    and g: "active_gauge r1 = int (total_subscriptions r1)"
    using inv1 by (auto simp: reg_inv_def)
  have dcs: "distinct (keys ?cs)"
    using subs_wf_conn [OF wf(1)] by (cases "hget (subs r1) conn") auto
  have al: "aligned ((view r1)((conn, sub) \<mapsto> (fs, c, ch))) (add_to_index conn sub fs c ch ?r2)"
    using wf(2) gone by (intro aligned_add) auto
  have v: "view (add_to_index conn sub fs c ch ?r2) = (view r1)((conn, sub) \<mapsto> (fs, c, ch))"
    using view_register [of c conn sub fs ch r] view_remove_subscription [of conn sub r]
    by (simp add: res r1)
  have swf: "subs_wf (r1\<lparr>subs := ?m\<rparr>)"
    using wf(1) dcs by (intro subs_wf_insert) auto
  have new: "hget ?cs sub = None"
    using gone by (cases "hget (subs r1) conn") (auto simp: view_def)
  have tot: "total_subscriptions (r1\<lparr>subs := ?m\<rparr>) = Suc (total_subscriptions r1)"
  proof (cases "hget (subs r1) conn")
    case None
    then show ?thesis
      using sum_list_insert_absent [OF None, where f = length]
      by (simp add: total_subscriptions_def)
  next
    case (Some cs)
    have "length (hinsert sub (fs, c, ch) cs) = Suc (length cs)"
      using new Some by (simp add: length_hinsert)
    then show ?thesis
      using sum_list_insert_present [of "subs r1" conn cs length "hinsert sub (fs, c, ch) cs"] wf(1) Some
      by (simp add: total_subscriptions_def subs_wf_def)
  qed
  show ?thesis
    unfolding reg_inv_def res
    using al v swf tot g by (auto simp: subs_wf_def total_subscriptions_def)
qed

text \<open>Closing a connection: the loop removes the entries of one connection from the indexes.\<close>

lemma drop_conn_subs_aligned:
  assumes "aligned V r" and "distinct (keys es)"
    and "\<And>sub e. (sub, e) \<in> set es \<Longrightarrow> V (conn, sub) = Some e"
  shows "aligned (\<lambda>(conn', sub'). if conn' = conn \<and> sub' \<in> fst ` set es then None else V (conn', sub'))
           (snd (fold (drop_conn_sub conn) es (acc, r)))"
  using assms
proof (induction es arbitrary: V r acc)
  case Nil
  then show ?case by simp
next
  case (Cons a es)
  obtain sub fs c ch where a: "a = (sub, (fs, c, ch))" by (cases a) auto
  let ?V = "V((conn, sub) := None)"
  let ?r = "remove_from_index conn sub fs c ch r"
  have al: "aligned ?V ?r"
    using Cons.prems a by (intro aligned_remove) auto
  have "?V (conn, sub') = Some e" if "(sub', e) \<in> set es" for sub' e
  proof -
    have "sub' \<in> fst ` set es" using that by (rule image_eqI [rotated]) simp
    then have "sub' \<noteq> sub" using Cons.prems(2) a by auto
    then show ?thesis using Cons.prems(3) [of sub' e] that by simp
  qed
  from Cons.IH [OF al _ this] Cons.prems(2)
  have "aligned (\<lambda>(conn', sub'). if conn' = conn \<and> sub' \<in> fst ` set es then None else ?V (conn', sub'))
     (snd (fold (drop_conn_sub conn) es (acc @ [\<lparr>rs_community_id = c, rs_channel_id = ch\<rparr>], ?r)))"
    by simp
  moreover have "(\<lambda>(conn', sub'). if conn' = conn \<and> sub' \<in> fst ` set es then None else ?V (conn', sub'))
      = (\<lambda>(conn', sub'). if conn' = conn \<and> sub' \<in> fst ` set (a # es) then None else V (conn', sub'))"
    using a by (auto simp: fun_eq_iff)
  moreover have "drop_conn_sub conn a (acc, r) = (acc @ [\<lparr>rs_community_id = c, rs_channel_id = ch\<rparr>], ?r)"
    by (simp add: a drop_conn_sub_def)
  ultimately show ?case by simp
qed

lemma drop_conn_subs_frame:
  "subs (snd (fold (drop_conn_sub conn) es (acc, r))) = subs r"
  "active_gauge (snd (fold (drop_conn_sub conn) es (acc, r))) = active_gauge r"
  by (induction es arbitrary: acc r) (auto simp: drop_conn_sub_def split: prod.splits)

lemma view_remove_connection:
  "view (snd (remove_connection conn r)) =
     (\<lambda>(conn', sub'). if conn' = conn then None else view r (conn', sub'))"
proof (cases "hget (subs r) conn")
  case None
  then show ?thesis by (auto simp: remove_connection_def view_def fun_eq_iff)
next
  case (Some cs)
  obtain rem r' where f: "fold (drop_conn_sub conn) cs ([], r\<lparr>subs := hremove conn (subs r)\<rparr>) = (rem, r')"
    by (cases "fold (drop_conn_sub conn) cs ([], r\<lparr>subs := hremove conn (subs r)\<rparr>)")
  then have "subs r' = hremove conn (subs r)"
    using drop_conn_subs_frame(1) [of conn cs "[]" "r\<lparr>subs := hremove conn (subs r)\<rparr>"] by simp
  then show ?thesis
    using Some f by (auto simp: remove_connection_def view_def fun_eq_iff)
qed

lemma remove_connection_inv [inv_intros]:
  assumes inv: "reg_inv r"
  shows "reg_inv (snd (remove_connection conn r))"
proof (cases "hget (subs r) conn")
  case None
  then show ?thesis using inv by (simp add: remove_connection_def)
next
  case (Some cs)
  let ?r0 = "r\<lparr>subs := hremove conn (subs r)\<rparr>"
  obtain rem r' where f: "fold (drop_conn_sub conn) cs ([], ?r0) = (rem, r')"
    by (cases "fold (drop_conn_sub conn) cs ([], ?r0)")
  have sub': "subs r' = hremove conn (subs r)" and g': "active_gauge r' = active_gauge r"
    using drop_conn_subs_frame [of conn cs "[]" ?r0] f by simp_all
  have wf: "subs_wf r" "aligned (view r) r" and g: "active_gauge r = int (total_subscriptions r)"
    using inv by (auto simp: reg_inv_def)
  have dcs: "distinct (keys cs)" using subs_wf_conn [OF wf(1) Some] .
  have "view r (conn, sub) = Some e" if "(sub, e) \<in> set cs" for sub e
    using Some dcs that by (auto simp: view_def)
  then have "aligned (\<lambda>(conn', sub'). if conn' = conn \<and> sub' \<in> fst ` set cs then None
      else view r (conn', sub')) (snd (fold (drop_conn_sub conn) cs ([], ?r0)))"
    using wf(2) dcs by (intro drop_conn_subs_aligned) auto
  moreover have "(\<lambda>(conn', sub'). if conn' = conn \<and> sub' \<in> fst ` set cs then None
      else view r (conn', sub')) = view (snd (remove_connection conn r))"
    unfolding view_remove_connection
    using Some by (auto simp: fun_eq_iff view_def map_of_eq_None_iff)
  moreover have "subs_wf r'"
    using wf(1) sub' by (auto simp: subs_wf_def set_remove_entries)
  moreover have "total_subscriptions r' + length cs = total_subscriptions r"
    using sum_list_remove [of "subs r" conn cs length] wf(1) Some sub'
    by (simp add: total_subscriptions_def subs_wf_def)
  ultimately show ?thesis
    unfolding reg_inv_def using Some f g g'
    by (auto simp: remove_connection_def subs_wf_def total_subscriptions_def)
qed

lemma remove_each_inv [inv_intros]: "reg_inv r \<Longrightarrow> reg_inv (snd (remove_each conn ids r))"
proof (induction ids arbitrary: r)
  case (Cons sub ids)
  have "reg_inv (snd (remove_subscription conn sub r))"
    using Cons.prems by (rule remove_subscription_inv)
  then show ?case
    using Cons.IH [of "snd (remove_subscription conn sub r)"] by (auto split: prod.splits)
qed simp

lemma view_remove_each:
  "view (snd (remove_each conn ids r)) =
     (\<lambda>(conn', sub'). if conn' = conn \<and> sub' \<in> set ids then None else view r (conn', sub'))"
proof (induction ids arbitrary: r)
  case (Cons sub ids)
  obtain rem r1 where r1: "remove_subscription conn sub r = (rem, r1)"
    by (cases "remove_subscription conn sub r")
  obtain rest r2 where r2: "remove_each conn ids r1 = (rest, r2)"
    by (cases "remove_each conn ids r1")
  show ?case
    using Cons.IH [of r1] view_remove_subscription [of conn sub r]
    by (auto simp: r1 r2 fun_eq_iff)
qed auto

lemma remove_channel_subscriptions_inv [inv_intros]:
  "reg_inv r \<Longrightarrow> reg_inv (snd (remove_channel_subscriptions_scoped c conn ch r))"
  unfolding remove_channel_subscriptions_scoped_def by (rule remove_each_inv)

lemma view_remove_channel:
  assumes "subs_wf r"
  shows "view (snd (remove_channel_subscriptions_scoped c conn ch r)) =
     (\<lambda>(conn', sub'). case view r (conn', sub') of
        Some (fs, c', ch') \<Rightarrow>
          if conn' = conn \<and> c' = c \<and> ch' = Some ch then None else Some (fs, c', ch')
      | None \<Rightarrow> None)"
proof (cases "hget (subs r) conn")
  case None
  then show ?thesis
    unfolding remove_channel_subscriptions_scoped_def view_remove_each
    by (auto simp: channel_sub_ids_def fun_eq_iff view_def split: option.splits)
next
  case (Some cs)
  have d: "distinct (keys cs)" using subs_wf_conn [OF assms Some] .
  have ids: "sub' \<in> set (channel_sub_ids c conn ch r) \<longleftrightarrow> (\<exists>fs. hget cs sub' = Some (fs, c, Some ch))"
    for sub'
    using Some d by (force simp: channel_sub_ids_def image_iff)
  show ?thesis
    unfolding remove_channel_subscriptions_scoped_def view_remove_each ids
    using Some by (auto simp: fun_eq_iff view_def split: option.splits)
qed

subsection \<open>Fan-out\<close>

lemma set_event_p_tag_values:
  "v \<in> set (event_p_tag_values ev) \<longleftrightarrow> event_has_tag (se_event ev) ''p'' v"
proof -
  have "v \<in> set (fold push_p_tag ts acc) \<longleftrightarrow>
     v \<in> set acc \<or> (\<exists>t \<in> set ts. tag_kind t = ''p'' \<and> tag_content t = Some v)" for ts acc
    by (induction ts arbitrary: acc) (auto simp: push_p_tag_def split: option.splits)
  then show ?thesis by (simp add: event_p_tag_values_def event_has_tag_def)
qed

text \<open>The subscriptions an event is delivered to, by a scan of the authoritative map.\<close>

definition deliverable ::
  "(nfilter list \<Rightarrow> stored_event \<Rightarrow> bool) \<Rightarrow> registry \<Rightarrow> community_id \<Rightarrow> stored_event \<Rightarrow> sub_ref \<Rightarrow> bool"
where
  "deliverable matches r c ev x \<longleftrightarrow>
     (\<exists>fs. view r x = Some (fs, c, se_channel_id ev) \<and> matches fs ev)"

lemma push_match_eq:
  "push_match matches r c ev x results =
     (if deliverable matches r c ev x then push_new x results else results)"
  by (cases x) (auto simp: push_match_def deliverable_def view_def split: option.splits)

lemma set_push_candidates [simp]:
  "set (push_candidates matches r c ev cands results) =
     set results \<union> {x \<in> set (or_empty cands). deliverable matches r c ev x}"
proof -
  have "set (fold (push_match matches r c ev) xs results) =
     set results \<union> {x \<in> set xs. deliverable matches r c ev x}" for xs
    by (induction xs arbitrary: results) (auto simp: push_match_eq)
  then show ?thesis by (cases cands) (auto simp: push_candidates_def)
qed

lemma distinct_push_candidates [simp]:
  "distinct (push_candidates matches r c ev cands results) = distinct results"
proof -
  have "distinct (fold (push_match matches r c ev) xs results) = distinct results" for xs
    by (induction xs arbitrary: results) (auto simp: push_match_eq)
  then show ?thesis by (cases cands) (auto simp: push_candidates_def)
qed

text \<open>The slots an event's fan-out looks into.\<close>

definition event_slots :: "community_id \<Rightarrow> stored_event \<Rightarrow> slot set" where
  "event_slots c ev =
     (case se_channel_id ev of
        Some ch \<Rightarrow> {ChannelWild (c, ch), ChannelKind (ck_key c ch (ev_kind (se_event ev)))}
      | None \<Rightarrow>
          {GlobalWild c, GlobalKind (c, ev_kind (se_event ev))} \<union>
          (\<lambda>p. GlobalPKind \<lparr>gp_community_id = c, gp_kind = ev_kind (se_event ev), gp_p = p\<rparr>) `
            set (event_p_tag_values ev))"

lemma set_fold_p_candidates:
  "set (fold (\<lambda>p. push_candidates matches r c ev (hget m (g p))) ps results) =
     set results \<union> {x. \<exists>p \<in> set ps. x \<in> set (or_empty (hget m (g p))) \<and> deliverable matches r c ev x}"
  by (induction ps arbitrary: results) auto

lemma distinct_fold_p_candidates:
  "distinct (fold (\<lambda>p. push_candidates matches r c ev (hget m (g p))) ps results) = distinct results"
  by (induction ps arbitrary: results) auto

lemma set_fan_out_with:
  "set (fan_out_with matches r c ev) =
     {x. deliverable matches r c ev x \<and> (\<exists>s \<in> event_slots c ev. x \<in> set (bucket r s))}"
  by (auto simp: fan_out_with_def Let_def event_slots_def set_fold_p_candidates split: option.splits)

lemma distinct_fan_out_with: "distinct (fan_out_with matches r c ev)"
  by (auto simp: fan_out_with_def Let_def distinct_fold_p_candidates split: option.splits)

context event_matcher
begin

text \<open>A matching event is looked up in a slot its subscriptions are routed to.\<close>

lemma matched_slot:
  assumes "matches fs ev"
  shows "\<exists>s \<in> event_slots c ev. s \<in> set (slots_of c fs (se_channel_id ev))"
proof -
  let ?k = "ev_kind (se_event ev)"
  from match_filter [OF assms] obtain f where f: "f \<in> set fs"
    and kinds: "\<And>ks. f_kinds f = Some ks \<Longrightarrow> ?k \<in> set ks"
    and tags: "\<And>k vs. hget (f_tags f) k = Some vs \<Longrightarrow> k \<noteq> ''h'' \<Longrightarrow>
      \<exists>v \<in> set vs. event_has_tag (se_event ev) k v"
    by blast
  have listed: "?k \<in> set ks" if "extract_kinds_from_filters fs = Some ks" for ks
    using extract_kinds_Some [OF that f] kinds set_extract_kinds [OF that f] by blast
  show ?thesis
  proof (cases "se_channel_id ev")
    case (Some ch)
    then show ?thesis
      using listed by (auto simp: slots_of_def event_slots_def split: option.splits)
  next
    case None
    show ?thesis
    proof (cases "extract_global_p_kind_index_keys c fs")
      case (Some ks)
      then obtain fk where fk: "f_kinds f = Some fk"
        and ps: "fk = [] \<or> (\<exists>ps. hget (f_tags f) ''p'' = Some ps \<and> set (p_kind_keys c fk ps) \<subseteq> set ks)"
        using extract_p_loop_covers [OF _ f] unfolding extract_global_p_kind_index_keys_def by blast
      from kinds [OF fk] have k: "?k \<in> set fk" .
      with ps obtain vs where vs: "hget (f_tags f) ''p'' = Some vs" "set (p_kind_keys c fk vs) \<subseteq> set ks"
        by auto
      from tags [OF vs(1)] obtain v where "v \<in> set vs" "event_has_tag (se_event ev) ''p'' v"
        by auto
      with vs k have "\<lparr>gp_community_id = c, gp_kind = ?k, gp_p = v\<rparr> \<in> set ks"
        and "v \<in> set (event_p_tag_values ev)"
        by (auto simp: set_event_p_tag_values)
      then show ?thesis
        using None Some by (auto simp: slots_of_def event_slots_def)
    next
      case no_p: None
      then show ?thesis
        using None listed by (auto simp: slots_of_def event_slots_def split: option.splits)
    qed
  qed
qed

lemma fan_out_complete:
  assumes "aligned (view r) r"
  shows "set (fan_out_with matches r c ev) = {x. deliverable matches r c ev x}"
proof -
  have "\<exists>s \<in> event_slots c ev. x \<in> set (bucket r s)" if x: "deliverable matches r c ev x" for x
  proof -
    obtain fs where fs: "view r x = Some (fs, c, se_channel_id ev)" "matches fs ev"
      using x by (auto simp: deliverable_def)
    from matched_slot [OF fs(2)] obtain s where
      "s \<in> event_slots c ev" "s \<in> set (slots_of c fs (se_channel_id ev))" by blast
    with fs(1) assms show ?thesis unfolding aligned_def by blast
  qed
  then show ?thesis by (auto simp: set_fan_out_with)
qed

end

subsection \<open>Runs of the registry\<close>

datatype reg_op =
    Register community_id conn_id sub_id "nfilter list" "uuid option"
  | Remove conn_id sub_id
  | RemoveConnection conn_id
  | RemoveChannel community_id conn_id uuid

fun reg_step :: "registry \<Rightarrow> reg_op \<Rightarrow> registry" where
  "reg_step r (Register c conn sub fs ch) = snd (register_scoped c conn sub fs ch r)"
| "reg_step r (Remove conn sub) = snd (remove_subscription conn sub r)"
| "reg_step r (RemoveConnection conn) = snd (remove_connection conn r)"
| "reg_step r (RemoveChannel c conn ch) = snd (remove_channel_subscriptions_scoped c conn ch r)"

definition reg_run :: "reg_op list \<Rightarrow> registry" where
  "reg_run ops = foldl reg_step registry_new ops"

interpretation reg: machine reg_step reg_inv
proof
  fix r a
  assume "reg_inv r"
  then show "reg_inv (reg_step r a)"
    by (cases a) (auto intro: inv_intros)
qed

lemma registry_new_inv: "reg_inv registry_new"
  unfolding reg_inv_def aligned_def
proof (intro conjI allI)
  fix s x
  show "(x \<in> set (bucket registry_new s)) =
      (\<exists>fs c ch. view registry_new x = Some (fs, c, ch) \<and> s \<in> set (slots_of c fs ch))"
    by (cases s) (auto simp: registry_new_def view_def)
  show "distinct (bucket registry_new s)"
    by (cases s) (auto simp: registry_new_def)
qed (auto simp: registry_new_def subs_wf_def total_subscriptions_def indexes_wf_def index_wf_def)

lemma reg_run_inv: "reg_inv (reg_run ops)"
  unfolding reg_run_def by (rule reg.run_inv [OF registry_new_inv])

text \<open>The abstract registry: a map from subscription to entry, updated by each operation.\<close>

fun spec_step :: "(sub_ref \<rightharpoonup> sub_entry) \<Rightarrow> reg_op \<Rightarrow> (sub_ref \<rightharpoonup> sub_entry)" where
  "spec_step V (Register c conn sub fs ch) = V((conn, sub) \<mapsto> (fs, c, ch))"
| "spec_step V (Remove conn sub) = V((conn, sub) := None)"
| "spec_step V (RemoveConnection conn) = (\<lambda>(conn', sub'). if conn' = conn then None else V (conn', sub'))"
| "spec_step V (RemoveChannel c conn ch) =
     (\<lambda>(conn', sub'). case V (conn', sub') of
        Some (fs, c', ch') \<Rightarrow> if conn' = conn \<and> c' = c \<and> ch' = Some ch then None else Some (fs, c', ch')
      | None \<Rightarrow> None)"

lemma view_step: "reg_inv r \<Longrightarrow> view (reg_step r a) = spec_step (view r) a"
  by (cases a)
    (auto simp: view_register view_remove_subscription view_remove_connection view_remove_channel
      reg_inv_def)

lemma view_run: "reg_inv r \<Longrightarrow> view (foldl reg_step r ops) = foldl spec_step (view r) ops"
  by (induction ops arbitrary: r) (auto simp: view_step reg.step_inv)

section \<open>Properties\<close>

text \<open>
  C5: After any sequence of registrations and removals, targeted fan-out through the indexes
  delivers an event to exactly the live subscriptions of its community and channel scope whose
  filters match it, each once.
\<close>

theorem fan_out_is_scan:
  "set (fan_out_scoped (reg_run ops) c ev) =
     {x. \<exists>fs. view (reg_run ops) x = Some (fs, c, se_channel_id ev) \<and> filters_match fs ev}
   \<and> distinct (fan_out_scoped (reg_run ops) c ev)"
proof -
  have "aligned (view (reg_run ops)) (reg_run ops)"
    using reg_run_inv by (simp add: reg_inv_def)
  then show ?thesis
    using nip01.fan_out_complete [of "reg_run ops" c ev]
    by (simp add: fan_out_scoped_def distinct_fan_out_with deliverable_def)
qed

text \<open>
  C24: The registry with its indexes refines a plain map: the live subscriptions after a run are
  those of the abstract registry, where registering replaces the entry of the same connection
  and subscription id and each removal deletes exactly the entries it names.
\<close>

theorem registry_refines_map:
  "view (reg_run ops) = foldl spec_step (\<lambda>_. None) ops"
proof -
  have "view registry_new = (\<lambda>_. None)"
    by (auto simp: view_def registry_new_def)
  then show ?thesis
    using view_run [OF registry_new_inv, of ops] by (simp add: reg_run_def)
qed

text \<open>
  No index leak: in every state a run reaches, a closed connection occurs in no index
  vector, no index keeps an empty vector, and the process gauge counts the live subscriptions.
\<close>

theorem closed_connection_leaves_no_entry:
  assumes "r = snd (remove_connection conn (reg_run ops))"
  shows "(\<forall>s sub. (conn, sub) \<notin> set (bucket r s)) \<and> indexes_wf r \<and>
    active_gauge r = int (total_subscriptions r)"
proof -
  have inv: "reg_inv r"
    unfolding assms by (rule remove_connection_inv [OF reg_run_inv])
  have "view r (conn, sub) = None" for sub
    unfolding assms view_remove_connection by simp
  then show ?thesis
    using inv unfolding reg_inv_def aligned_def by fastforce
qed

lemma closed_connection_leaves_no_entry_witness:
  "(\<forall>s sub. (''c1'', sub) \<notin> set (bucket
     (snd (remove_connection ''c1'' (reg_run [Register ''t'' ''c1'' ''s'' [empty_filter] None]))) s))"
  using closed_connection_leaves_no_entry
    [OF refl, of "''c1''" "[Register ''t'' ''c1'' ''s'' [empty_filter] None]"] by blast

text \<open>
  Tenant isolation does not rest on the indexes: in any registry state, stale or corrupted
  index entries included, fan-out delivers only to subscriptions whose authoritative entry has
  the event's community and its channel scope.
\<close>

theorem fan_out_never_crosses_scope:
  assumes "x \<in> set (fan_out_scoped r c ev)"
  shows "\<exists>fs. view r x = Some (fs, c, se_channel_id ev) \<and> filters_match fs ev"
  using assms by (simp add: fan_out_scoped_def set_fan_out_with deliverable_def)

definition stale_registry :: registry where
  "stale_registry = (reg_run [Register ''t1'' ''c1'' ''s'' [empty_filter] None])
     \<lparr>global_wildcard_index := [(''t1'', [(''c1'', ''s''), (''c9'', ''s'')]), (''t2'', [(''c1'', ''s'')])]\<rparr>"

lemma fan_out_never_crosses_scope_witness:
  "(''c1'', ''s'') \<in> set (fan_out_scoped stale_registry ''t1'' (stored_event_new 0 sample_event None))
   \<and> (\<exists>fs. view stale_registry (''c1'', ''s'') = Some (fs, ''t1'', None))"
proof -
  have h: "(''c1'', ''s'') \<in> set (fan_out_scoped stale_registry ''t1'' (stored_event_new 0 sample_event None))"
    by code_simp
  show ?thesis
    using h fan_out_never_crosses_scope [OF h] by (auto simp: stored_event_new_def)
qed

lemma set_channel_subscriber_conns:
  assumes "index_wf (channel_kind_index r)"
  shows "conn \<in> set (channel_subscriber_conns_scoped c ch r) \<longleftrightarrow>
    (\<exists>sub. (conn, sub) \<in> set (bucket r (ChannelWild (c, ch)))) \<or>
    (\<exists>sub key. ik_channel_id key = ch \<and> (conn, sub) \<in> set (bucket r (ChannelKind (c, key))))"
proof -
  have d: "distinct (keys (channel_kind_index r))" using assms by (simp add: index_wf_def)
  have mem: "((c, key), es) \<in> set (channel_kind_index r) \<longleftrightarrow>
      hget (channel_kind_index r) (c, key) = Some es" for key es
    using d by (rule hget_in_set)
  have entry: "(\<exists>es. hget m k = Some es \<and> conn \<in> fst ` set es) \<longleftrightarrow>
      (\<exists>sub. (conn, sub) \<in> set (or_empty (hget m k)))"
    for m :: "('k, sub_ref list) hmap" and k
    by (cases "hget m k") (force simp: image_iff)+
  have kinds: "conn \<in> set (concat (map (\<lambda>((c', key), es).
       if c' = c \<and> ik_channel_id key = ch then map fst es else []) m)) \<longleftrightarrow>
    (\<exists>key. ik_channel_id key = ch \<and> (\<exists>es. ((c, key), es) \<in> set m \<and> conn \<in> fst ` set es))"
    (is "?L \<longleftrightarrow> ?R") for m :: "(community_id \<times> index_key, sub_ref list) hmap"
  proof
    assume ?L
    then show ?R by (auto split: if_splits)
  next
    assume ?R
    then obtain key es where "((c, key), es) \<in> set m" "ik_channel_id key = ch" "conn \<in> fst ` set es"
      by blast
    then show ?L by (auto intro!: bexI [of _ "((c, key), es)"])
  qed
  show ?thesis
    unfolding channel_subscriber_conns_scoped_def Let_def set_fold_push_new set_append Un_iff
      kinds mem entry bucket.simps
    by (force simp: image_iff)
qed

text \<open>
  The connections notified for a channel are exactly those with a live subscription scoped
  to that channel and community whose filters name some kind or leave the kind open. A
  subscription whose filters all carry an empty kind list is not indexed, and its connection is
  not listed.
\<close>

theorem channel_subscribers_are_indexed_subscribers:
  "conn \<in> set (channel_subscriber_conns_scoped c ch (reg_run ops)) \<longleftrightarrow>
     (\<exists>sub fs. view (reg_run ops) (conn, sub) = Some (fs, c, Some ch) \<and>
        extract_kinds_from_filters fs \<noteq> Some [])"
proof -
  let ?r = "reg_run ops"
  have inv: "reg_inv ?r" by (rule reg_run_inv)
  then have wf: "index_wf (channel_kind_index ?r)"
    by (simp add: reg_inv_def aligned_def indexes_wf_def)
  have mem: "x \<in> set (bucket ?r s) \<longleftrightarrow>
      (\<exists>fs c ch. view ?r x = Some (fs, c, ch) \<and> s \<in> set (slots_of c fs ch))" for x s
    using inv unfolding reg_inv_def aligned_def by blast
  have wild: "ChannelWild (c, ch) \<in> set (slots_of c' fs ch') \<longleftrightarrow>
      c' = c \<and> ch' = Some ch \<and> extract_kinds_from_filters fs = None" for c' fs ch'
    by (auto simp: slots_of_def split: option.splits)
  have kind: "(\<exists>key. ik_channel_id key = ch \<and> ChannelKind (c, key) \<in> set (slots_of c' fs ch')) \<longleftrightarrow>
      c' = c \<and> ch' = Some ch \<and> (\<exists>k ks. extract_kinds_from_filters fs = Some (k # ks))" for c' fs ch'
  proof
    assume "\<exists>key. ik_channel_id key = ch \<and> ChannelKind (c, key) \<in> set (slots_of c' fs ch')"
    then show "c' = c \<and> ch' = Some ch \<and> (\<exists>k ks. extract_kinds_from_filters fs = Some (k # ks))"
      by (auto simp: slots_of_def ck_key_def split: option.splits) (metis list.set_cases)
  next
    assume "c' = c \<and> ch' = Some ch \<and> (\<exists>k ks. extract_kinds_from_filters fs = Some (k # ks))"
    then obtain k ks where "c' = c" "ch' = Some ch" "extract_kinds_from_filters fs = Some (k # ks)"
      by blast
    then show "\<exists>key. ik_channel_id key = ch \<and> ChannelKind (c, key) \<in> set (slots_of c' fs ch')"
      by (intro exI [of _ "\<lparr>ik_channel_id = ch, ik_kind = k\<rparr>"]) (simp add: slots_of_def ck_key_def)
  qed
  have routed: "extract_kinds_from_filters fs = None \<or>
      (\<exists>k ks. extract_kinds_from_filters fs = Some (k # ks)) \<longleftrightarrow>
      extract_kinds_from_filters fs \<noteq> Some []" for fs
    by (cases "extract_kinds_from_filters fs") (auto simp: neq_Nil_conv)
  have "conn \<in> set (channel_subscriber_conns_scoped c ch ?r) \<longleftrightarrow>
     (\<exists>sub fs c' ch'. view ?r (conn, sub) = Some (fs, c', ch') \<and>
       (ChannelWild (c, ch) \<in> set (slots_of c' fs ch') \<or>
        (\<exists>key. ik_channel_id key = ch \<and> ChannelKind (c, key) \<in> set (slots_of c' fs ch'))))"
    unfolding set_channel_subscriber_conns [OF wf] mem by blast
  also have "\<dots> \<longleftrightarrow> (\<exists>sub fs. view ?r (conn, sub) = Some (fs, c, Some ch) \<and>
        extract_kinds_from_filters fs \<noteq> Some [])"
    unfolding wild kind routed [symmetric] by blast
  finally show ?thesis .
qed

text \<open>
  The connection count drifts from its meaning: removing a connection's last subscription
  keeps its empty entry, so the registry then reports one connection and no subscription.
\<close>

theorem total_connections_counts_idle_connections:
  "total_connections (reg_run [Register c conn sub fs ch, Remove conn sub]) = 1 \<and>
   total_subscriptions (reg_run [Register c conn sub fs ch, Remove conn sub]) = 0"
proof -
  let ?r1 = "reg_run [Register c conn sub fs ch]"
  have s1: "subs ?r1 = [(conn, [(sub, (fs, c, ch))])]"
    by (simp add: reg_run_def register_scoped_def remove_subscription_def registry_new_def Let_def)
  have "reg_run [Register c conn sub fs ch, Remove conn sub] = snd (remove_subscription conn sub ?r1)"
    by (simp add: reg_run_def)
  then show ?thesis
    using s1
    by (simp add: remove_subscription_def Let_def total_connections_def total_subscriptions_def)
qed

text \<open>Usage counts.\<close>

definition count_of :: "(community_id, nat) hmap \<Rightarrow> community_id \<Rightarrow> nat" where
  "count_of m c = (case hget m c of None \<Rightarrow> 0 | Some n \<Rightarrow> n)"

lemma count_of_count_community:
  "count_of (count_community (sub, fs, c, ch) m) c' = count_of m c' + (if c' = c then 1 else 0)"
  by (simp add: count_of_def count_community_def)

lemma count_of_fold_community:
  "count_of (fold count_community es m) c =
     count_of m c + length (filter (\<lambda>(sub, fs, c', ch). c' = c) es)"
  by (induction es arbitrary: m) (auto simp: count_of_count_community)

lemma per_community_counts:
  "count_of (per_community_subscriptions r) c =
     (\<Sum>e \<leftarrow> subs r. length (filter (\<lambda>(sub, fs, c', ch). c' = c) (snd e)))"
proof -
  have "count_of (fold (\<lambda>e. fold count_community (snd e)) xs m) c =
     count_of m c + (\<Sum>e \<leftarrow> xs. length (filter (\<lambda>(sub, fs, c', ch). c' = c) (snd e)))"
    for xs :: "(conn_id \<times> (sub_id, sub_entry) hmap) list" and m
    by (induction xs arbitrary: m) (auto simp: count_of_fold_community)
  then show ?thesis by (simp add: per_community_subscriptions_def count_of_def)
qed

section \<open>The lock is released inside a removal\<close>

text \<open>
  \<open>remove_from_index\<close> drops the guard of an emptied vector before it removes the key. The two
  halves of a wildcard unsubscription, with the other threads' operations in between.
\<close>

definition unsubscribe_retain ::
  "conn_id \<Rightarrow> sub_id \<Rightarrow> community_id \<Rightarrow> uuid \<Rightarrow> registry \<Rightarrow> registry" where
  "unsubscribe_retain conn sub c ch r =
     r\<lparr>subs := hinsert conn (hremove sub (or_empty (hget (subs r) conn))) (subs r),
       channel_wildcard_index := fst (index_retain (c, ch) (conn, sub) (channel_wildcard_index r))\<rparr>"

definition unsubscribe_remove_key :: "community_id \<Rightarrow> uuid \<Rightarrow> registry \<Rightarrow> registry" where
  "unsubscribe_remove_key c ch r =
     r\<lparr>channel_wildcard_index := hremove (c, ch) (channel_wildcard_index r),
       active_gauge := active_gauge r - 1\<rparr>"

text \<open>Another connection's registration between the two halves.\<close>

definition racing_unsubscribe ::
  "community_id \<Rightarrow> uuid \<Rightarrow> sub_ref \<Rightarrow> sub_ref \<Rightarrow> nfilter list \<Rightarrow> registry \<Rightarrow> registry" where
  "racing_unsubscribe c ch old new fs r =
     unsubscribe_remove_key c ch
       (snd (register_scoped c (fst new) (snd new) fs (Some ch)
         (unsubscribe_retain (fst old) (snd old) c ch r)))"

text \<open>Without interference the halves are the atomic operation.\<close>

lemma unsubscribe_halves:
  assumes "hget (subs r) conn = Some cs" and "hget cs sub = Some (fs, c, Some ch)"
    and "extract_kinds_from_filters fs = None"
    and "hget (channel_wildcard_index r) (c, ch) = Some [(conn, sub)]"
  shows "unsubscribe_remove_key c ch (unsubscribe_retain conn sub c ch r) =
    snd (remove_subscription conn sub r)"
  using assms
  by (simp add: unsubscribe_retain_def unsubscribe_remove_key_def remove_subscription_def
      remove_from_index_def index_drop_def index_retain_def Let_def)

lemma view_unsubscribe_remove_key [simp]: "view (unsubscribe_remove_key c ch r) = view r"
  by (simp add: view_def unsubscribe_remove_key_def)

text \<open>
  A lost subscription: when the last wildcard subscriber of a channel unsubscribes and
  another connection registers between the two lock sections, the new subscription is live in
  the authoritative map and yet is never delivered any event.
\<close>

theorem concurrent_unsubscribe_loses_subscription:
  assumes "view (reg_run ops) (b, s') = None"
    and "a \<noteq> b"
    and "extract_kinds_from_filters fs = None"
  shows "view (racing_unsubscribe c ch (a, s) (b, s') fs (reg_run ops)) (b, s') = Some (fs, c, Some ch)
    \<and> (b, s') \<notin> set (fan_out_scoped (racing_unsubscribe c ch (a, s) (b, s') fs (reg_run ops)) c' ev)"
proof
  let ?r = "racing_unsubscribe c ch (a, s) (b, s') fs (reg_run ops)"
  let ?start = "reg_run ops"
  let ?r1 = "unsubscribe_retain a s c ch ?start"
  let ?r2 = "snd (register_scoped c b s' fs (Some ch) ?r1)"
  show live: "view ?r (b, s') = Some (fs, c, Some ch)"
    by (simp add: racing_unsubscribe_def view_register)
  have "view ?r1 (b, s') = None"
    using assms(1,2) by (auto simp: unsubscribe_retain_def view_def split: option.splits)
  then have unreg: "remove_subscription b s' ?r1 = (None, ?r1)"
    by (auto simp: remove_subscription_def view_def split: option.splits)
  have kind_idx: "channel_kind_index ?r = channel_kind_index ?start"
    unfolding racing_unsubscribe_def fst_conv snd_conv register_scoped_def unreg
    by (simp add: Let_def add_to_index_def assms(3) unsubscribe_retain_def unsubscribe_remove_key_def)
  have "(b, s') \<notin> set (bucket ?start sl)" for sl
    using reg_run_inv [of ops] assms(1) unfolding reg_inv_def aligned_def by fastforce
  from this [of "ChannelKind (ck_key c ch (ev_kind (se_event ev)))"]
  have "(b, s') \<notin> set (bucket ?r (ChannelKind (ck_key c ch (ev_kind (se_event ev)))))"
    by (simp add: kind_idx)
  moreover have "bucket ?r (ChannelWild (c, ch)) = []"
    by (simp add: racing_unsubscribe_def unsubscribe_remove_key_def)
  moreover have "c' = c \<and> se_channel_id ev = Some ch" if "deliverable filters_match ?r c' ev (b, s')"
    using that live by (auto simp: deliverable_def)
  ultimately show "(b, s') \<notin> set (fan_out_scoped ?r c' ev)"
    unfolding fan_out_scoped_def set_fan_out_with event_slots_def by fastforce
qed

definition one_subscriber :: "reg_op list" where
  "one_subscriber = [Register ''t'' ''a'' ''s'' [empty_filter] (Some ''chan'')]"

lemma concurrent_unsubscribe_loses_subscription_witness:
  "(''b'', ''s'') \<notin> set (fan_out_scoped
     (racing_unsubscribe ''t'' ''chan'' (''a'', ''s'') (''b'', ''s'') [empty_filter] (reg_run one_subscriber))
     ''t'' (stored_event_new 0 sample_event (Some ''chan'')))
   \<and> filters_match [empty_filter] (stored_event_new 0 sample_event (Some ''chan''))"
proof
  show "(''b'', ''s'') \<notin> set (fan_out_scoped
     (racing_unsubscribe ''t'' ''chan'' (''a'', ''s'') (''b'', ''s'') [empty_filter] (reg_run one_subscriber))
     ''t'' (stored_event_new 0 sample_event (Some ''chan'')))"
    by (rule concurrent_unsubscribe_loses_subscription [THEN conjunct2]) (code_simp, simp, code_simp)
qed code_simp

end
