(* ===== verification/EventQueue.thy ===== *)
theory EventQueue
  imports Kinds
begin

text \<open>
  The agent harness's event queue, from \<open>crates/buzz-acp/src/queue.rs\<close>: per-channel queues with
  in-flight tracking, retry back-off and dead-lettering, cancelled batches and the withheld side
  table of native steering.

  \<^item> \<open>event_queue\<close> is \<open>EventQueue\<close> field by field. Each operation takes the instant the code
    reads from the clock, in nanoseconds, and returns the new queue.
  \<^item> The back-off product of \<open>requeue\<close> is computed in exact rational arithmetic, rounded down to
    a nanosecond; the code multiplies \<open>f64\<close> values. The bounds proved leave room for that.
  \<^item> \<open>queue_inv\<close> is the invariant of the state machine; \<open>held\<close> counts the events the queue is
    responsible for per channel, which the conservation lemmas use.
\<close>

record queued_event =
  qe_channel_id :: uuid
  qe_event :: nostr_event
  qe_received_at :: instant
  qe_prompt_tag :: string

record batch_event =
  be_event :: nostr_event
  be_prompt_tag :: string
  be_received_at :: instant

datatype cancel_reason = Interrupt | Steer

record flush_batch =
  fb_channel_id :: uuid
  fb_events :: "batch_event list"
  fb_cancelled_events :: "batch_event list"
  fb_cancel_reason :: "cancel_reason option"

datatype dedup = DedupDrop | DedupQueue

record event_queue =
  queues :: "(uuid, queued_event list) hmap"
  in_flight_channels :: "uuid set"
  in_flight_deadlines :: "(uuid, instant) hmap"
  in_flight_batch_sizes :: "(uuid, nat) hmap"
  retry_after :: "(uuid, instant) hmap"
  retry_counts :: "(uuid, nat) hmap"
  dedup_mode :: dedup
  cancelled_batches :: "(uuid, batch_event list) hmap"
  cancel_reasons :: "(uuid, cancel_reason) hmap"
  withheld_native_steer :: "(uuid, queued_event list) hmap"
  in_flight_deadline :: nat

definition secs :: "nat \<Rightarrow> nat" where
  "secs n = n * 1000000000"

definition MAX_PENDING_PER_CHANNEL :: nat where "MAX_PENDING_PER_CHANNEL = 500"
definition MAX_BATCH_EVENTS :: nat where "MAX_BATCH_EVENTS = 50"
definition MAX_RETRIES :: nat where "MAX_RETRIES = 10"
definition BASE_RETRY_DELAY_SECS :: nat where "BASE_RETRY_DELAY_SECS = 5"
definition MAX_RETRY_DELAY_SECS :: nat where "MAX_RETRY_DELAY_SECS = 300"
definition IN_FLIGHT_DEADLINE_BUFFER_SECS :: nat where "IN_FLIGHT_DEADLINE_BUFFER_SECS = 100"
definition DEFAULT_IN_FLIGHT_DEADLINE_SECS :: nat where "DEFAULT_IN_FLIGHT_DEADLINE_SECS = 7300"

lemmas queue_limits =
  MAX_PENDING_PER_CHANNEL_def MAX_BATCH_EVENTS_def MAX_RETRIES_def BASE_RETRY_DELAY_SECS_def
  MAX_RETRY_DELAY_SECS_def IN_FLIGHT_DEADLINE_BUFFER_SECS_def DEFAULT_IN_FLIGHT_DEADLINE_SECS_def
  secs_def

section \<open>The operations\<close>

definition queue_new :: "dedup \<Rightarrow> event_queue" where
  "queue_new mode =
     \<lparr>queues = [], in_flight_channels = {}, in_flight_deadlines = [], in_flight_batch_sizes = [],
      retry_after = [], retry_counts = [], dedup_mode = mode, cancelled_batches = [],
      cancel_reasons = [], withheld_native_steer = [],
      in_flight_deadline = secs DEFAULT_IN_FLIGHT_DEADLINE_SECS\<rparr>"

definition with_in_flight_deadline :: "nat \<Rightarrow> event_queue \<Rightarrow> event_queue" where
  "with_in_flight_deadline max_turn_duration_secs q =
     q\<lparr>in_flight_deadline := secs (max_turn_duration_secs + IN_FLIGHT_DEADLINE_BUFFER_SECS)\<rparr>"

definition extend_in_flight_deadline :: "instant \<Rightarrow> uuid \<Rightarrow> nat \<Rightarrow> event_queue \<Rightarrow> event_queue" where
  "extend_in_flight_deadline now ch max_turn_secs q =
     (case hget (in_flight_deadlines q) ch of
        None \<Rightarrow> q
      | Some current \<Rightarrow>
          let extended = now + secs (max_turn_secs + IN_FLIGHT_DEADLINE_BUFFER_SECS)
          in if extended > current
             then q\<lparr>in_flight_deadlines := hinsert ch extended (in_flight_deadlines q)\<rparr> else q)"

definition push :: "queued_event \<Rightarrow> event_queue \<Rightarrow> bool \<times> event_queue" where
  "push e q =
     (let ch = qe_channel_id e in
      if dedup_mode q = DedupDrop \<and> ch \<in> in_flight_channels q then (False, q)
      else
        let queue = or_empty (hget (queues q) ch);
            queue = (if length queue \<ge> MAX_PENDING_PER_CHANNEL then tl queue else queue)
        in (True, q\<lparr>queues := hinsert ch (queue @ [e]) (queues q)\<rparr>))"

definition to_batch_event :: "queued_event \<Rightarrow> batch_event" where
  "to_batch_event e =
     \<lparr>be_event = qe_event e, be_prompt_tag = qe_prompt_tag e, be_received_at = qe_received_at e\<rparr>"

definition to_queued_event :: "uuid \<Rightarrow> batch_event \<Rightarrow> queued_event" where
  "to_queued_event ch be =
     \<lparr>qe_channel_id = ch, qe_event = be_event be, qe_received_at = be_received_at be,
      qe_prompt_tag = be_prompt_tag be\<rparr>"

text \<open>Pushing to the front in reverse order, then trimming the back to the cap.\<close>

definition push_front_all :: "uuid \<Rightarrow> queued_event list \<Rightarrow> event_queue \<Rightarrow> event_queue" where
  "push_front_all ch es q =
     (let queue = fold (\<lambda>e queue. e # queue) (rev es) (or_empty (hget (queues q) ch))
      in q\<lparr>queues := hinsert ch (trim_back MAX_PENDING_PER_CHANNEL queue) (queues q)\<rparr>)"

definition recover_withheld_for_expired_channel :: "uuid \<Rightarrow> event_queue \<Rightarrow> event_queue" where
  "recover_withheld_for_expired_channel ch q =
     (case hget (withheld_native_steer q) ch of
        None \<Rightarrow> q
      | Some entries \<Rightarrow>
          push_front_all ch entries
            (q\<lparr>withheld_native_steer := hremove ch (withheld_native_steer q)\<rparr>))"

text \<open>The expiry block that \<open>flush_next\<close> and \<open>has_flushable_work\<close> share.\<close>

definition expire_channel :: "uuid \<Rightarrow> event_queue \<Rightarrow> event_queue" where
  "expire_channel ch q =
     recover_withheld_for_expired_channel ch
       (q\<lparr>in_flight_batch_sizes := hremove ch (in_flight_batch_sizes q),
          in_flight_channels := in_flight_channels q - {ch},
          in_flight_deadlines := hremove ch (in_flight_deadlines q)\<rparr>)"

definition expired_channels :: "instant \<Rightarrow> event_queue \<Rightarrow> uuid list" where
  "expired_channels now q = map fst (filter (\<lambda>(ch, deadline). now \<ge> deadline) (in_flight_deadlines q))"

definition expire_stuck :: "instant \<Rightarrow> event_queue \<Rightarrow> event_queue" where
  "expire_stuck now q = fold expire_channel (expired_channels now q) q"

definition flushable :: "instant \<Rightarrow> event_queue \<Rightarrow> uuid \<times> queued_event list \<Rightarrow> bool" where
  "flushable now q entry =
     (case entry of (ch, queue) \<Rightarrow>
        queue \<noteq> [] \<and> ch \<notin> in_flight_channels q \<and>
        (case hget (retry_after q) ch of None \<Rightarrow> True | Some t \<Rightarrow> t \<le> now))"

definition oldest_channel :: "instant \<Rightarrow> event_queue \<Rightarrow> uuid option" where
  "oldest_channel now q =
     map_option fst
       (min_by_key (\<lambda>(ch, queue). qe_received_at (hd queue)) (filter (flushable now q) (queues q)))"

definition idle_cancelled_channel :: "event_queue \<Rightarrow> uuid option" where
  "idle_cancelled_channel q = find (\<lambda>ch. ch \<notin> in_flight_channels q) (keys (cancelled_batches q))"

definition mark_in_flight :: "instant \<Rightarrow> uuid \<Rightarrow> nat \<Rightarrow> event_queue \<Rightarrow> event_queue" where
  "mark_in_flight now ch n q =
     q\<lparr>in_flight_channels := insert ch (in_flight_channels q),
       in_flight_deadlines := hinsert ch (now + in_flight_deadline q) (in_flight_deadlines q),
       in_flight_batch_sizes := hinsert ch n (in_flight_batch_sizes q)\<rparr>"

definition take_cancelled :: "uuid \<Rightarrow> event_queue \<Rightarrow> event_queue" where
  "take_cancelled ch q =
     q\<lparr>cancelled_batches := hremove ch (cancelled_batches q),
       cancel_reasons := hremove ch (cancel_reasons q)\<rparr>"

text \<open>Re-dispatch of a cancelled batch when no queued event is ready.\<close>

definition flush_cancelled :: "instant \<Rightarrow> uuid \<Rightarrow> event_queue \<Rightarrow> flush_batch \<times> event_queue" where
  "flush_cancelled now ch q =
     (let cancelled = or_empty (hget (cancelled_batches q) ch);
          reason = hget (cancel_reasons q) ch
      in (\<lparr>fb_channel_id = ch, fb_events = cancelled, fb_cancelled_events = [],
           fb_cancel_reason = reason\<rparr>,
          mark_in_flight now ch (length cancelled) (take_cancelled ch q)))"

text \<open>Draining the selected channel and merging its cancelled events.\<close>

definition flush_channel :: "instant \<Rightarrow> uuid \<Rightarrow> event_queue \<Rightarrow> flush_batch \<times> event_queue" where
  "flush_channel now ch q =
     (let queue = or_empty (hget (queues q) ch);
          drain_count = min MAX_BATCH_EVENTS (length queue);
          events = sort_key (\<lambda>be. ev_created_at (be_event be))
            (map to_batch_event (take drain_count queue));
          rest = drop drain_count queue;
          q1 = q\<lparr>queues := (if rest = [] then hremove ch (queues q) else hinsert ch rest (queues q))\<rparr>;
          q2 = mark_in_flight now ch (length events) q1;
          cancelled = or_empty (hget (cancelled_batches q2) ch);
          reason = (if cancelled = [] then None else hget (cancel_reasons q2) ch)
      in (\<lparr>fb_channel_id = ch, fb_events = events, fb_cancelled_events = cancelled,
           fb_cancel_reason = reason\<rparr>, take_cancelled ch q2))"

definition flush_next :: "instant \<Rightarrow> event_queue \<Rightarrow> flush_batch option \<times> event_queue" where
  "flush_next now q =
     (let q = expire_stuck now q in
      case oldest_channel now q of
        Some ch \<Rightarrow> apfst Some (flush_channel now ch q)
      | None \<Rightarrow>
          (case idle_cancelled_channel q of
             Some ch \<Rightarrow> apfst Some (flush_cancelled now ch q)
           | None \<Rightarrow> (None, q)))"

definition mark_complete :: "instant \<Rightarrow> uuid \<Rightarrow> event_queue \<Rightarrow> event_queue" where
  "mark_complete now ch q =
     (let q1 = q\<lparr>in_flight_channels := in_flight_channels q - {ch},
                 in_flight_deadlines := hremove ch (in_flight_deadlines q),
                 in_flight_batch_sizes := hremove ch (in_flight_batch_sizes q)\<rparr>
      in case hget (retry_after q1) ch of
           Some deadline \<Rightarrow>
             if deadline > now then q1
             else q1\<lparr>retry_after := hremove ch (retry_after q1),
                     retry_counts := hremove ch (retry_counts q1)\<rparr>
         | None \<Rightarrow> q1\<lparr>retry_counts := hremove ch (retry_counts q1)\<rparr>)"

definition capped_delay_secs :: "nat \<Rightarrow> nat" where
  "capped_delay_secs attempt =
     min (BASE_RETRY_DELAY_SECS * 2 ^ min (attempt - 1) 6) MAX_RETRY_DELAY_SECS"

text \<open>\<open>capped * (0.8 + nanos / u32::MAX * 0.4)\<close> seconds, in nanoseconds.\<close>

definition retry_delay :: "nat \<Rightarrow> nat \<Rightarrow> nat" where
  "retry_delay attempt nanos =
     secs (capped_delay_secs attempt) * (8 * (2 ^ 32 - 1) + 4 * nanos) div (10 * (2 ^ 32 - 1))"

definition requeue :: "instant \<Rightarrow> nat \<Rightarrow> flush_batch \<Rightarrow> event_queue \<Rightarrow> flush_batch option \<times> event_queue"
where
  "requeue now nanos batch q =
     (let ch = fb_channel_id batch;
          attempt = (case hget (retry_counts q) ch of None \<Rightarrow> 0 | Some n \<Rightarrow> n) + 1;
          q1 = q\<lparr>retry_counts := hinsert ch attempt (retry_counts q)\<rparr>
      in if attempt > MAX_RETRIES then
           (Some batch, q1\<lparr>retry_counts := hremove ch (retry_counts q1),
                           retry_after := hremove ch (retry_after q1)\<rparr>)
         else
           let q2 = push_front_all ch (map (to_queued_event ch) (fb_events batch)) q1
           in (None, q2\<lparr>retry_after := hinsert ch (now + retry_delay attempt nanos) (retry_after q2)\<rparr>))"

definition requeue_preserve_timestamps :: "flush_batch \<Rightarrow> event_queue \<Rightarrow> event_queue" where
  "requeue_preserve_timestamps batch q =
     (let ch = fb_channel_id batch in push_front_all ch (map (to_queued_event ch) (fb_events batch)) q)"

definition requeue_as_cancelled :: "flush_batch \<Rightarrow> cancel_reason \<Rightarrow> event_queue \<Rightarrow> event_queue" where
  "requeue_as_cancelled batch reason q =
     (let ch = fb_channel_id batch;
          entry = or_empty (hget (cancelled_batches q) ch) @ fb_cancelled_events batch @ fb_events batch
      in q\<lparr>cancelled_batches := hinsert ch entry (cancelled_batches q),
           cancel_reasons := hinsert ch reason (cancel_reasons q)\<rparr>)"

definition has_flushable_work :: "instant \<Rightarrow> event_queue \<Rightarrow> bool \<times> event_queue" where
  "has_flushable_work now q =
     (let q = expire_stuck now q in
      (list_ex (flushable now q) (queues q) \<or>
       list_ex (\<lambda>ch. ch \<notin> in_flight_channels q) (keys (cancelled_batches q)), q))"

definition pending_channels :: "event_queue \<Rightarrow> nat" where
  "pending_channels q = length (queues q)"

definition drain_channel :: "uuid \<Rightarrow> event_queue \<Rightarrow> string list \<times> event_queue" where
  "drain_channel ch q =
     (let ids = map (\<lambda>e. ev_id (qe_event e)) (or_empty (hget (queues q) ch))
      in (ids, q\<lparr>queues := hremove ch (queues q),
                 retry_after := hremove ch (retry_after q),
                 retry_counts := hremove ch (retry_counts q),
                 cancelled_batches := hremove ch (cancelled_batches q),
                 cancel_reasons := hremove ch (cancel_reasons q),
                 withheld_native_steer := hremove ch (withheld_native_steer q)\<rparr>))"

definition is_channel_in_flight :: "uuid \<Rightarrow> event_queue \<Rightarrow> bool" where
  "is_channel_in_flight ch q \<longleftrightarrow> ch \<in> in_flight_channels q"

definition has_in_flight :: "event_queue \<Rightarrow> bool" where
  "has_in_flight q \<longleftrightarrow> in_flight_channels q \<noteq> {}"

definition event_is :: "string \<Rightarrow> queued_event \<Rightarrow> bool" where
  "event_is event_id e \<longleftrightarrow> ev_id (qe_event e) = event_id"

definition put_or_remove :: "'k \<Rightarrow> 'a list \<Rightarrow> ('k, 'a list) hmap \<Rightarrow> ('k, 'a list) hmap" where
  "put_or_remove k xs m = (if xs = [] then hremove k m else hinsert k xs m)"

definition mark_native_steer_pending :: "uuid \<Rightarrow> string \<Rightarrow> event_queue \<Rightarrow> bool \<times> event_queue" where
  "mark_native_steer_pending ch event_id q =
     (case hget (queues q) ch of
        None \<Rightarrow> (False, q)
      | Some queue \<Rightarrow>
          (case position (event_is event_id) queue of
             None \<Rightarrow> (False, q)
           | Some pos \<Rightarrow>
               let e = queue ! pos;
                   q1 = q\<lparr>queues := put_or_remove ch (remove_at pos queue) (queues q)\<rparr>
               in (True, q1\<lparr>withheld_native_steer :=
                     hinsert ch (or_empty (hget (withheld_native_steer q1) ch) @ [e])
                       (withheld_native_steer q1)\<rparr>)))"

definition release_native_steer :: "uuid \<Rightarrow> string \<Rightarrow> event_queue \<Rightarrow> event_queue" where
  "release_native_steer ch event_id q =
     (case hget (withheld_native_steer q) ch of
        None \<Rightarrow> q
      | Some entries \<Rightarrow>
          (case position (event_is event_id) entries of
             None \<Rightarrow> q
           | Some pos \<Rightarrow>
               push_front_all ch [entries ! pos]
                 (q\<lparr>withheld_native_steer :=
                      put_or_remove ch (remove_at pos entries) (withheld_native_steer q)\<rparr>)))"

definition retain_others ::
  "uuid \<Rightarrow> string \<Rightarrow> (uuid, queued_event list) hmap \<Rightarrow> (uuid, queued_event list) hmap" where
  "retain_others ch event_id m =
     (case hget m ch of
        None \<Rightarrow> m
      | Some entries \<Rightarrow> put_or_remove ch (filter (\<lambda>e. \<not> event_is event_id e) entries) m)"

definition remove_event :: "uuid \<Rightarrow> string \<Rightarrow> event_queue \<Rightarrow> event_queue" where
  "remove_event ch event_id q =
     q\<lparr>withheld_native_steer := retain_others ch event_id (withheld_native_steer q),
       queues := retain_others ch event_id (queues q)\<rparr>"

definition compact_expired_state :: "instant \<Rightarrow> event_queue \<Rightarrow> event_queue" where
  "compact_expired_state now q =
     (let q1 = q\<lparr>retry_after := hretain (\<lambda>_ deadline. deadline > now) (retry_after q)\<rparr>
      in q1\<lparr>retry_counts := hretain (\<lambda>ch _.
             hcontains (retry_after q1) ch \<or> or_empty (hget (queues q1) ch) \<noteq> [] \<or>
             ch \<in> in_flight_channels q1) (retry_counts q1)\<rparr>)"

section \<open>Invariant\<close>

definition keys_wf :: "event_queue \<Rightarrow> bool" where
  "keys_wf q \<longleftrightarrow>
     distinct (keys (queues q)) \<and> distinct (keys (in_flight_deadlines q)) \<and>
     distinct (keys (in_flight_batch_sizes q)) \<and> distinct (keys (retry_after q)) \<and>
     distinct (keys (retry_counts q)) \<and> distinct (keys (cancelled_batches q)) \<and>
     distinct (keys (cancel_reasons q)) \<and> distinct (keys (withheld_native_steer q))"

text \<open>Every stored vector is bounded and holds events of its own channel.\<close>

definition vec_ok :: "uuid \<Rightarrow> queued_event list \<Rightarrow> bool" where
  "vec_ok ch es \<longleftrightarrow> (\<forall>e \<in> set es. qe_channel_id e = ch)"

definition queue_inv :: "event_queue \<Rightarrow> bool" where
  "queue_inv q \<longleftrightarrow>
     keys_wf q \<and>
     (\<forall>ch es. hget (queues q) ch = Some es \<longrightarrow> vec_ok ch es \<and> length es \<le> MAX_PENDING_PER_CHANNEL) \<and>
     (\<forall>ch es. hget (withheld_native_steer q) ch = Some es \<longrightarrow> vec_ok ch es \<and> es \<noteq> []) \<and>
     fst ` set (in_flight_deadlines q) = in_flight_channels q \<and>
     fst ` set (in_flight_batch_sizes q) = in_flight_channels q \<and>
     (\<forall>ch n. hget (retry_counts q) ch = Some n \<longrightarrow> 1 \<le> n \<and> n \<le> MAX_RETRIES) \<and>
     fst ` set (cancel_reasons q) = fst ` set (cancelled_batches q)"

lemma vec_ok_simps [simp]:
  "vec_ok ch []" "vec_ok ch (e # es) \<longleftrightarrow> qe_channel_id e = ch \<and> vec_ok ch es"
  "vec_ok ch (xs @ ys) \<longleftrightarrow> vec_ok ch xs \<and> vec_ok ch ys"
  by (auto simp: vec_ok_def)

lemma vec_ok_subset: "vec_ok ch ys \<Longrightarrow> set xs \<subseteq> set ys \<Longrightarrow> vec_ok ch xs"
  by (auto simp: vec_ok_def)

lemma vec_ok_take [simp]: "vec_ok ch xs \<Longrightarrow> vec_ok ch (take n xs)"
  by (auto simp: vec_ok_def dest: in_set_takeD)

lemma vec_ok_drop [simp]: "vec_ok ch xs \<Longrightarrow> vec_ok ch (drop n xs)"
  by (auto simp: vec_ok_def dest: in_set_dropD)

lemma vec_ok_to_queued [simp]: "vec_ok ch (map (to_queued_event ch) bes)"
  by (auto simp: vec_ok_def to_queued_event_def)

lemma keys_wf_put_or_remove [simp]:
  "distinct (keys m) \<Longrightarrow> distinct (keys (put_or_remove k xs m))"
  by (simp add: put_or_remove_def)

lemma hget_put_or_remove:
  "hget (put_or_remove k xs m) k' =
     (if k' = k then (if xs = [] then None else Some xs) else hget m k')"
  by (simp add: put_or_remove_def)

lemma push_front_all_eq:
  "push_front_all ch es q =
     q\<lparr>queues := hinsert ch (take MAX_PENDING_PER_CHANNEL (es @ or_empty (hget (queues q) ch))) (queues q)\<rparr>"
  by (simp add: push_front_all_def fold_cons_rev)

lemma inv_queue_vec:
  "queue_inv q \<Longrightarrow> vec_ok ch (or_empty (hget (queues q) ch)) \<and>
     length (or_empty (hget (queues q) ch)) \<le> MAX_PENDING_PER_CHANNEL"
  by (cases "hget (queues q) ch") (auto simp: queue_inv_def)

lemma inv_withheld_vec:
  "queue_inv q \<Longrightarrow> vec_ok ch (or_empty (hget (withheld_native_steer q) ch))"
  by (cases "hget (withheld_native_steer q) ch") (auto simp: queue_inv_def)

lemma queue_inv_set_queue [inv_intros]:
  assumes "queue_inv q" and "vec_ok ch es" and "length es \<le> MAX_PENDING_PER_CHANNEL"
  shows "queue_inv (q\<lparr>queues := hinsert ch es (queues q)\<rparr>)"
  using assms by (auto simp: queue_inv_def keys_wf_def simp del: map_of_eq_Some_iff)

lemma queue_inv_put_queue [inv_intros]:
  assumes "queue_inv q" and "vec_ok ch es" and "length es \<le> MAX_PENDING_PER_CHANNEL"
  shows "queue_inv (q\<lparr>queues := put_or_remove ch es (queues q)\<rparr>)"
  using assms by (auto simp: queue_inv_def keys_wf_def hget_put_or_remove simp del: map_of_eq_Some_iff)

lemma queue_inv_put_withheld [inv_intros]:
  assumes "queue_inv q" and "vec_ok ch es"
  shows "queue_inv (q\<lparr>withheld_native_steer := put_or_remove ch es (withheld_native_steer q)\<rparr>)"
  using assms by (auto simp: queue_inv_def keys_wf_def hget_put_or_remove split: if_splits
      simp del: map_of_eq_Some_iff)

lemma queue_inv_push_front [inv_intros]:
  assumes "queue_inv q" and "vec_ok ch es"
  shows "queue_inv (push_front_all ch es q)"
  unfolding push_front_all_eq
  using assms inv_queue_vec [OF assms(1), of ch] by (intro queue_inv_set_queue) auto

lemma push_inv [inv_intros]: "queue_inv q \<Longrightarrow> queue_inv (snd (push e q))"
proof -
  assume inv: "queue_inv q"
  let ?es = "or_empty (hget (queues q) (qe_channel_id e))"
  let ?es' = "(if length ?es \<ge> MAX_PENDING_PER_CHANNEL then tl ?es else ?es) @ [e]"
  have v: "vec_ok (qe_channel_id e) ?es" and l: "length ?es \<le> MAX_PENDING_PER_CHANNEL"
    using inv_queue_vec [OF inv] by blast+
  have "vec_ok (qe_channel_id e) (tl ?es)"
    using v by (rule vec_ok_subset) (cases ?es; auto)
  then have "vec_ok (qe_channel_id e) ?es'" using v by simp
  moreover have "length ?es' \<le> MAX_PENDING_PER_CHANNEL"
    using l by (auto simp: queue_limits)
  ultimately show ?thesis
    using inv queue_inv_set_queue [OF inv, of "qe_channel_id e" ?es'] by (simp add: push_def Let_def)
qed

lemma expire_channel_inv [inv_intros]:
  assumes inv: "queue_inv q"
  shows "queue_inv (expire_channel ch q)"
proof -
  let ?q1 = "q\<lparr>in_flight_batch_sizes := hremove ch (in_flight_batch_sizes q),
      in_flight_channels := in_flight_channels q - {ch},
      in_flight_deadlines := hremove ch (in_flight_deadlines q)\<rparr>"
  have q1: "queue_inv ?q1"
    using inv by (auto simp: queue_inv_def keys_wf_def simp del: map_of_eq_Some_iff)
  show ?thesis
  proof (cases "hget (withheld_native_steer q) ch")
    case None
    then show ?thesis using q1 by (simp add: expire_channel_def recover_withheld_for_expired_channel_def)
  next
    case (Some es)
    have "queue_inv (?q1\<lparr>withheld_native_steer := put_or_remove ch [] (withheld_native_steer ?q1)\<rparr>)"
      using q1 by (rule queue_inv_put_withheld) simp
    moreover have "vec_ok ch es"
      using inv Some by (auto simp: queue_inv_def simp del: map_of_eq_Some_iff)
    ultimately show ?thesis
      using Some by (simp add: expire_channel_def recover_withheld_for_expired_channel_def
          put_or_remove_def queue_inv_push_front)
  qed
qed

lemma expire_stuck_inv [inv_intros]: "queue_inv q \<Longrightarrow> queue_inv (expire_stuck now q)"
proof -
  have "queue_inv q \<Longrightarrow> queue_inv (fold expire_channel chs q)" for chs
    by (induction chs arbitrary: q) (auto intro: expire_channel_inv)
  then show "queue_inv q \<Longrightarrow> queue_inv (expire_stuck now q)"
    by (simp add: expire_stuck_def)
qed

lemma mark_in_flight_inv [inv_intros]: "queue_inv q \<Longrightarrow> queue_inv (mark_in_flight now ch n q)"
  by (auto simp: queue_inv_def keys_wf_def mark_in_flight_def simp del: map_of_eq_Some_iff)

lemma take_cancelled_inv [inv_intros]: "queue_inv q \<Longrightarrow> queue_inv (take_cancelled ch q)"
  by (auto simp: queue_inv_def keys_wf_def take_cancelled_def simp del: map_of_eq_Some_iff)

lemma flush_cancelled_inv [inv_intros]: "queue_inv q \<Longrightarrow> queue_inv (snd (flush_cancelled now ch q))"
  by (auto simp: flush_cancelled_def Let_def intro: inv_intros)

lemma flush_channel_inv [inv_intros]: "queue_inv q \<Longrightarrow> queue_inv (snd (flush_channel now ch q))"
proof -
  assume inv: "queue_inv q"
  let ?es = "or_empty (hget (queues q) ch)"
  let ?rest = "drop (min MAX_BATCH_EVENTS (length ?es)) ?es"
  have "queue_inv (q\<lparr>queues := put_or_remove ch ?rest (queues q)\<rparr>)"
    using inv inv_queue_vec [OF inv, of ch] by (intro queue_inv_put_queue) auto
  then show ?thesis
    unfolding flush_channel_def Let_def put_or_remove_def snd_conv
    by (intro inv_intros)
qed

lemma flush_next_inv [inv_intros]: "queue_inv q \<Longrightarrow> queue_inv (snd (flush_next now q))"
  unfolding flush_next_def Let_def
  by (auto split: option.splits simp: apfst_def map_prod_def split_beta intro: inv_intros)

lemma mark_complete_inv [inv_intros]: "queue_inv q \<Longrightarrow> queue_inv (mark_complete now ch q)"
  by (auto simp: queue_inv_def keys_wf_def mark_complete_def Let_def split: option.splits
      simp del: map_of_eq_Some_iff)

lemma requeue_inv [inv_intros]:
  assumes inv: "queue_inv q"
  shows "queue_inv (snd (requeue now nanos batch q))"
proof -
  let ?ch = "fb_channel_id batch"
  let ?n = "(case hget (retry_counts q) ?ch of None \<Rightarrow> 0 | Some n \<Rightarrow> n) + 1"
  show ?thesis
  proof (cases "?n > MAX_RETRIES")
    case True
    then have "snd (requeue now nanos batch q) =
        q\<lparr>retry_counts := hremove ?ch (hinsert ?ch ?n (retry_counts q)),
          retry_after := hremove ?ch (retry_after q)\<rparr>"
      by (simp add: requeue_def Let_def)
    then show ?thesis
      using inv by (auto simp: queue_inv_def keys_wf_def simp del: map_of_eq_Some_iff)
  next
    case False
    have "queue_inv (q\<lparr>retry_counts := hinsert ?ch ?n (retry_counts q)\<rparr>)"
      using inv False by (auto simp: queue_inv_def keys_wf_def simp del: map_of_eq_Some_iff split: if_splits)
    then have "queue_inv (push_front_all ?ch (map (to_queued_event ?ch) (fb_events batch))
        (q\<lparr>retry_counts := hinsert ?ch ?n (retry_counts q)\<rparr>))" (is "queue_inv ?q2")
      by (rule queue_inv_push_front) simp
    then have "queue_inv (?q2\<lparr>retry_after := hinsert ?ch t (retry_after ?q2)\<rparr>)" for t
      by (auto simp: queue_inv_def keys_wf_def simp del: map_of_eq_Some_iff)
    then show ?thesis
      using False by (simp add: requeue_def Let_def)
  qed
qed

lemma requeue_preserve_inv [inv_intros]: "queue_inv q \<Longrightarrow> queue_inv (requeue_preserve_timestamps batch q)"
  by (simp add: requeue_preserve_timestamps_def Let_def queue_inv_push_front)

lemma requeue_as_cancelled_inv [inv_intros]:
  "queue_inv q \<Longrightarrow> queue_inv (requeue_as_cancelled batch reason q)"
  by (auto simp: queue_inv_def keys_wf_def requeue_as_cancelled_def Let_def simp del: map_of_eq_Some_iff)

lemma drain_channel_inv [inv_intros]: "queue_inv q \<Longrightarrow> queue_inv (snd (drain_channel ch q))"
  by (auto simp: queue_inv_def keys_wf_def drain_channel_def Let_def simp del: map_of_eq_Some_iff)

lemma extend_deadline_inv [inv_intros]:
  assumes inv: "queue_inv q"
  shows "queue_inv (extend_in_flight_deadline now ch t q)"
proof (cases "hget (in_flight_deadlines q) ch")
  case None
  then show ?thesis using inv by (simp add: extend_in_flight_deadline_def)
next
  case (Some d)
  then have "ch \<in> fst ` set (in_flight_deadlines q)"
    by (force dest: map_of_SomeD)
  then have "insert ch (in_flight_channels q) = in_flight_channels q"
    using inv by (auto simp: queue_inv_def)
  then have "queue_inv (q\<lparr>in_flight_deadlines := hinsert ch x (in_flight_deadlines q)\<rparr>)" for x
    using inv by (simp add: queue_inv_def keys_wf_def del: map_of_eq_Some_iff)
  then show ?thesis
    using Some inv by (simp add: extend_in_flight_deadline_def Let_def)
qed

lemma vec_ok_nth: "vec_ok ch es \<Longrightarrow> i < length es \<Longrightarrow> qe_channel_id (es ! i) = ch"
  by (auto simp: vec_ok_def)

lemma mark_native_steer_inv [inv_intros]:
  assumes inv: "queue_inv q"
  shows "queue_inv (snd (mark_native_steer_pending ch i q))"
proof (cases "\<exists>es pos. hget (queues q) ch = Some es \<and> position (event_is i) es = Some pos")
  case False
  then show ?thesis
    using inv by (auto simp: mark_native_steer_pending_def split: option.splits)
next
  case True
  then obtain es pos where es: "hget (queues q) ch = Some es" "position (event_is i) es = Some pos"
    by blast
  have v: "vec_ok ch es" "length es \<le> MAX_PENDING_PER_CHANNEL"
    using inv_queue_vec [OF inv, of ch] es(1) by auto
  have pos: "pos < length es" using es(2) by (auto dest: position_SomeD)
  let ?q1 = "q\<lparr>queues := put_or_remove ch (remove_at pos es) (queues q)\<rparr>"
  let ?w = "or_empty (hget (withheld_native_steer q) ch) @ [es ! pos]"
  have q1: "queue_inv ?q1"
    using inv v pos by (intro queue_inv_put_queue vec_ok_subset [OF v(1) set_remove_at_subset]) auto
  have "queue_inv (?q1\<lparr>withheld_native_steer := put_or_remove ch ?w (withheld_native_steer ?q1)\<rparr>)"
    using q1 inv_withheld_vec [OF inv, of ch] vec_ok_nth [OF v(1) pos]
    by (intro queue_inv_put_withheld) auto
  then show ?thesis
    using es by (simp add: mark_native_steer_pending_def Let_def put_or_remove_def)
qed

lemma release_native_steer_inv [inv_intros]:
  assumes inv: "queue_inv q"
  shows "queue_inv (release_native_steer ch i q)"
proof (cases "\<exists>es pos. hget (withheld_native_steer q) ch = Some es \<and> position (event_is i) es = Some pos")
  case False
  then show ?thesis
    using inv by (auto simp: release_native_steer_def split: option.splits)
next
  case True
  then obtain es pos where es: "hget (withheld_native_steer q) ch = Some es"
    "position (event_is i) es = Some pos" by blast
  have v: "vec_ok ch es" using inv_withheld_vec [OF inv, of ch] es(1) by auto
  have pos: "pos < length es" using es(2) by (auto dest: position_SomeD)
  have "queue_inv (q\<lparr>withheld_native_steer := put_or_remove ch (remove_at pos es) (withheld_native_steer q)\<rparr>)"
    using inv v by (intro queue_inv_put_withheld vec_ok_subset [OF v set_remove_at_subset])
  then show ?thesis
    using es vec_ok_nth [OF v pos] by (simp add: release_native_steer_def queue_inv_push_front)
qed

lemma queue_inv_retain_queue:
  assumes inv: "queue_inv q"
  shows "queue_inv (q\<lparr>queues := retain_others ch i (queues q)\<rparr>)"
proof (cases "hget (queues q) ch")
  case None
  then show ?thesis using inv by (simp add: retain_others_def)
next
  case (Some es)
  then have "vec_ok ch es" "length es \<le> MAX_PENDING_PER_CHANNEL"
    using inv_queue_vec [OF inv, of ch] by simp_all
  then have "vec_ok ch (filter (\<lambda>e. \<not> event_is i e) es)"
    and "length (filter (\<lambda>e. \<not> event_is i e) es) \<le> MAX_PENDING_PER_CHANNEL"
    by (auto simp: vec_ok_def intro: le_trans [OF length_filter_le])
  then show ?thesis
    using Some queue_inv_put_queue [OF inv] by (simp add: retain_others_def)
qed

lemma queue_inv_retain_withheld:
  assumes inv: "queue_inv q"
  shows "queue_inv (q\<lparr>withheld_native_steer := retain_others ch i (withheld_native_steer q)\<rparr>)"
proof (cases "hget (withheld_native_steer q) ch")
  case None
  then show ?thesis using inv by (simp add: retain_others_def)
next
  case (Some es)
  then have "vec_ok ch (filter (\<lambda>e. \<not> event_is i e) es)"
    using inv_withheld_vec [OF inv, of ch] by (auto simp: vec_ok_def)
  then show ?thesis
    using Some queue_inv_put_withheld [OF inv] by (simp add: retain_others_def)
qed

lemma remove_event_inv [inv_intros]:
  assumes inv: "queue_inv q"
  shows "queue_inv (remove_event ch i q)"
  using queue_inv_retain_queue [OF queue_inv_retain_withheld [OF inv]]
  by (simp add: remove_event_def)

lemma compact_inv [inv_intros]: "queue_inv q \<Longrightarrow> queue_inv (compact_expired_state now q)"
  by (auto simp: queue_inv_def keys_wf_def compact_expired_state_def Let_def hget_retain
      split: option.splits if_splits simp del: map_of_eq_Some_iff)

section \<open>Runs of the queue\<close>

datatype queue_op =
    Push queued_event
  | FlushNext
  | MarkComplete uuid
  | Requeue flush_batch nat
  | RequeuePreserve flush_batch
  | RequeueCancelled flush_batch cancel_reason
  | HasFlushableWork
  | DrainChannel uuid
  | ExtendDeadline uuid nat
  | MarkSteerPending uuid string
  | ReleaseSteer uuid string
  | RemoveEvent uuid string
  | CompactState

fun queue_step :: "event_queue \<Rightarrow> instant \<times> queue_op \<Rightarrow> event_queue" where
  "queue_step q (now, Push e) = snd (push e q)"
| "queue_step q (now, FlushNext) = snd (flush_next now q)"
| "queue_step q (now, MarkComplete ch) = mark_complete now ch q"
| "queue_step q (now, Requeue b nanos) = snd (requeue now nanos b q)"
| "queue_step q (now, RequeuePreserve b) = requeue_preserve_timestamps b q"
| "queue_step q (now, RequeueCancelled b reason) = requeue_as_cancelled b reason q"
| "queue_step q (now, HasFlushableWork) = snd (has_flushable_work now q)"
| "queue_step q (now, DrainChannel ch) = snd (drain_channel ch q)"
| "queue_step q (now, ExtendDeadline ch t) = extend_in_flight_deadline now ch t q"
| "queue_step q (now, MarkSteerPending ch i) = snd (mark_native_steer_pending ch i q)"
| "queue_step q (now, ReleaseSteer ch i) = release_native_steer ch i q"
| "queue_step q (now, RemoveEvent ch i) = remove_event ch i q"
| "queue_step q (now, CompactState) = compact_expired_state now q"

lemma has_flushable_work_inv [inv_intros]:
  "queue_inv q \<Longrightarrow> queue_inv (snd (has_flushable_work now q))"
  by (simp add: has_flushable_work_def Let_def expire_stuck_inv)

interpretation qm: machine queue_step queue_inv
proof
  fix q and a :: "instant \<times> queue_op"
  assume "queue_inv q"
  then show "queue_inv (queue_step q a)"
    by (cases "(q, a)" rule: queue_step.cases) (auto intro: inv_intros)
qed

text \<open>A step of the program: an operation, or a rehash that reorders the hash maps.\<close>

definition rehashed :: "event_queue \<Rightarrow> event_queue \<Rightarrow> bool" where
  "rehashed q q' \<longleftrightarrow>
     mset (queues q') = mset (queues q) \<and>
     mset (in_flight_deadlines q') = mset (in_flight_deadlines q) \<and>
     mset (in_flight_batch_sizes q') = mset (in_flight_batch_sizes q) \<and>
     mset (retry_after q') = mset (retry_after q) \<and>
     mset (retry_counts q') = mset (retry_counts q) \<and>
     mset (cancelled_batches q') = mset (cancelled_batches q) \<and>
     mset (cancel_reasons q') = mset (cancel_reasons q) \<and>
     mset (withheld_native_steer q') = mset (withheld_native_steer q) \<and>
     in_flight_channels q' = in_flight_channels q \<and> dedup_mode q' = dedup_mode q \<and>
     in_flight_deadline q' = in_flight_deadline q"

inductive queue_trans :: "event_queue \<Rightarrow> event_queue \<Rightarrow> bool" where
  operate: "queue_trans q (queue_step q (now, a))"
| rehash: "rehashed q q' \<Longrightarrow> queue_trans q q'"

inductive_cases queue_transE: "queue_trans q q'"

lemma rehash_map:
  assumes "mset m' = mset m" and "distinct (keys m)"
  shows "distinct (keys m') \<and> hget m' = hget m \<and> set m' = set m"
proof -
  have "mset (keys m') = mset (keys m)" using assms(1) by (metis mset_map)
  then have d: "distinct (keys m')" using assms(2) by (metis mset_eq_imp_distinct_iff)
  moreover have s: "set m' = set m" using assms(1) by (metis set_mset_mset)
  ultimately show ?thesis
    using assms(2) map_of_inject_set by blast
qed

lemma rehash_inv:
  assumes r: "rehashed q q'" and inv: "queue_inv q"
  shows "queue_inv q'"
proof -
  have wf: "keys_wf q" using inv by (simp add: queue_inv_def)
  note r' = r [unfolded rehashed_def] and wf' = wf [unfolded keys_wf_def]
  have "distinct (keys (queues q')) \<and> hget (queues q') = hget (queues q) \<and> set (queues q') = set (queues q)"
    by (rule rehash_map) (use r' wf' in simp_all)
  moreover have "distinct (keys (in_flight_deadlines q')) \<and> hget (in_flight_deadlines q') = hget (in_flight_deadlines q)
      \<and> set (in_flight_deadlines q') = set (in_flight_deadlines q)"
    by (rule rehash_map) (use r' wf' in simp_all)
  moreover have "distinct (keys (in_flight_batch_sizes q')) \<and> hget (in_flight_batch_sizes q') = hget (in_flight_batch_sizes q)
      \<and> set (in_flight_batch_sizes q') = set (in_flight_batch_sizes q)"
    by (rule rehash_map) (use r' wf' in simp_all)
  moreover have "distinct (keys (retry_after q')) \<and> hget (retry_after q') = hget (retry_after q)
      \<and> set (retry_after q') = set (retry_after q)"
    by (rule rehash_map) (use r' wf' in simp_all)
  moreover have "distinct (keys (retry_counts q')) \<and> hget (retry_counts q') = hget (retry_counts q)
      \<and> set (retry_counts q') = set (retry_counts q)"
    by (rule rehash_map) (use r' wf' in simp_all)
  moreover have "distinct (keys (cancelled_batches q')) \<and> hget (cancelled_batches q') = hget (cancelled_batches q)
      \<and> set (cancelled_batches q') = set (cancelled_batches q)"
    by (rule rehash_map) (use r' wf' in simp_all)
  moreover have "distinct (keys (cancel_reasons q')) \<and> hget (cancel_reasons q') = hget (cancel_reasons q)
      \<and> set (cancel_reasons q') = set (cancel_reasons q)"
    by (rule rehash_map) (use r' wf' in simp_all)
  moreover have "distinct (keys (withheld_native_steer q')) \<and> hget (withheld_native_steer q') = hget (withheld_native_steer q)
      \<and> set (withheld_native_steer q') = set (withheld_native_steer q)"
    by (rule rehash_map) (use r' wf' in simp_all)
  moreover have "in_flight_channels q' = in_flight_channels q" using r' by simp
  ultimately show ?thesis
    using inv unfolding queue_inv_def keys_wf_def by (simp del: map_of_eq_Some_iff)
qed

definition queue_start :: "event_queue \<Rightarrow> bool" where
  "queue_start q \<longleftrightarrow> (\<exists>mode t. q = queue_new mode \<or> q = with_in_flight_deadline t (queue_new mode))"

lemma queue_new_inv: "queue_inv (queue_new mode)" "queue_inv (with_in_flight_deadline t (queue_new mode))"
  by (auto simp: queue_inv_def keys_wf_def queue_new_def with_in_flight_deadline_def)

interpretation qs: transition_system queue_start queue_trans queue_inv
proof
  show "queue_start s \<Longrightarrow> queue_inv s" for s
    by (auto simp: queue_start_def queue_new_inv)
  show "queue_trans s t \<Longrightarrow> queue_inv s \<Longrightarrow> queue_inv t" for s t
    by (auto elim!: queue_transE intro: qm.step_inv rehash_inv)
qed

section \<open>Expiry\<close>

definition queued_of :: "event_queue \<Rightarrow> uuid \<Rightarrow> queued_event list" where
  "queued_of q ch = or_empty (hget (queues q) ch)"

definition cancelled_of :: "event_queue \<Rightarrow> uuid \<Rightarrow> batch_event list" where
  "cancelled_of q ch = or_empty (hget (cancelled_batches q) ch)"

definition withheld_of :: "event_queue \<Rightarrow> uuid \<Rightarrow> queued_event list" where
  "withheld_of q ch = or_empty (hget (withheld_native_steer q) ch)"

lemma queued_of_push_front:
  "queued_of (push_front_all ch es q) c =
     (if c = ch then take MAX_PENDING_PER_CHANNEL (es @ queued_of q ch) else queued_of q c)"
  by (simp add: push_front_all_eq queued_of_def)

lemma push_front_frame [simp]:
  "in_flight_channels (push_front_all ch es q) = in_flight_channels q"
  "in_flight_deadlines (push_front_all ch es q) = in_flight_deadlines q"
  "in_flight_deadline (push_front_all ch es q) = in_flight_deadline q"
  "cancelled_batches (push_front_all ch es q) = cancelled_batches q"
  "cancel_reasons (push_front_all ch es q) = cancel_reasons q"
  "withheld_native_steer (push_front_all ch es q) = withheld_native_steer q"
  "retry_after (push_front_all ch es q) = retry_after q"
  "retry_counts (push_front_all ch es q) = retry_counts q"
  by (simp_all add: push_front_all_eq)

lemma expire_channel_frame [simp]:
  "in_flight_channels (expire_channel ch q) = in_flight_channels q - {ch}"
  "in_flight_deadlines (expire_channel ch q) = hremove ch (in_flight_deadlines q)"
  "in_flight_deadline (expire_channel ch q) = in_flight_deadline q"
  "cancelled_batches (expire_channel ch q) = cancelled_batches q"
  "cancel_reasons (expire_channel ch q) = cancel_reasons q"
  "retry_after (expire_channel ch q) = retry_after q"
  "retry_counts (expire_channel ch q) = retry_counts q"
  by (auto simp: expire_channel_def recover_withheld_for_expired_channel_def split: option.splits)

lemma withheld_of_expire:
  "withheld_of (expire_channel ch q) c = (if c = ch then [] else withheld_of q c)"
  by (auto simp: expire_channel_def recover_withheld_for_expired_channel_def withheld_of_def
      split: option.splits)

lemma queued_of_expire:
  "length (queued_of q ch) \<le> MAX_PENDING_PER_CHANNEL \<Longrightarrow>
   queued_of (expire_channel ch q) c =
     (if c = ch then take MAX_PENDING_PER_CHANNEL (withheld_of q ch @ queued_of q ch) else queued_of q c)"
  by (auto simp: expire_channel_def recover_withheld_for_expired_channel_def push_front_all_eq
      withheld_of_def queued_of_def split: option.splits)

lemma expire_fold:
  assumes "queue_inv q" and "distinct chs"
  shows "in_flight_channels (fold expire_channel chs q) = in_flight_channels q - set chs"
    and "in_flight_deadline (fold expire_channel chs q) = in_flight_deadline q"
    and "cancelled_batches (fold expire_channel chs q) = cancelled_batches q"
    and "retry_after (fold expire_channel chs q) = retry_after q"
    and "queued_of (fold expire_channel chs q) c =
      (if c \<in> set chs then take MAX_PENDING_PER_CHANNEL (withheld_of q c @ queued_of q c) else queued_of q c)"
    and "withheld_of (fold expire_channel chs q) c = (if c \<in> set chs then [] else withheld_of q c)"
    and "hget (in_flight_deadlines (fold expire_channel chs q)) c =
      (if c \<in> set chs then None else hget (in_flight_deadlines q) c)"
  using assms
proof (induction chs arbitrary: q)
  case Nil
  {
    case 1 show ?case by simp
  next
    case 2 show ?case by simp
  next
    case 3 show ?case by simp
  next
    case 4 show ?case by simp
  next
    case 5 show ?case by simp
  next
    case 6 show ?case by simp
  next
    case 7 show ?case by simp
  }
next
  case (Cons ch chs)
  have d: "distinct chs" "ch \<notin> set chs" if "distinct (ch # chs)" using that by simp_all
  have b: "length (queued_of q' ch) \<le> MAX_PENDING_PER_CHANNEL" if "queue_inv q'" for q'
    using inv_queue_vec [OF that, of ch] by (simp add: queued_of_def)
  {
    case 1 then show ?case using Cons.IH(1) [OF expire_channel_inv] by auto
  next
    case 2 then show ?case using Cons.IH(2) [OF expire_channel_inv] by auto
  next
    case 3 then show ?case using Cons.IH(3) [OF expire_channel_inv] by auto
  next
    case 4 then show ?case using Cons.IH(4) [OF expire_channel_inv] by auto
  next
    case 5 then show ?case
      using Cons.IH(5) [OF expire_channel_inv] b [of q]
      by (auto simp: queued_of_expire withheld_of_expire)
  next
    case 6 then show ?case
      using Cons.IH(6) [OF expire_channel_inv] by (auto simp: withheld_of_expire)
  next
    case 7 then show ?case using Cons.IH(7) [OF expire_channel_inv] by auto
  }
qed

lemma distinct_expired: "queue_inv q \<Longrightarrow> distinct (expired_channels now q)"
  unfolding expired_channels_def by (rule distinct_map_filter) (simp add: queue_inv_def keys_wf_def)

lemma mem_expired:
  assumes "queue_inv q"
  shows "ch \<in> set (expired_channels now q) \<longleftrightarrow>
    (\<exists>d. hget (in_flight_deadlines q) ch = Some d \<and> d \<le> now)"
proof -
  have "distinct (keys (in_flight_deadlines q))" using assms by (simp add: queue_inv_def keys_wf_def)
  then show ?thesis by (force simp: expired_channels_def image_iff)
qed

lemma expire_stuck_facts:
  assumes "queue_inv q"
  shows "in_flight_channels (expire_stuck now q) = in_flight_channels q - set (expired_channels now q)"
    and "in_flight_deadline (expire_stuck now q) = in_flight_deadline q"
    and "cancelled_batches (expire_stuck now q) = cancelled_batches q"
    and "retry_after (expire_stuck now q) = retry_after q"
    and "queued_of (expire_stuck now q) c =
      (if c \<in> set (expired_channels now q)
       then take MAX_PENDING_PER_CHANNEL (withheld_of q c @ queued_of q c) else queued_of q c)"
    and "withheld_of (expire_stuck now q) c =
      (if c \<in> set (expired_channels now q) then [] else withheld_of q c)"
    and "hget (in_flight_deadlines (expire_stuck now q)) c =
      (if c \<in> set (expired_channels now q) then None else hget (in_flight_deadlines q) c)"
  unfolding expire_stuck_def by (fact expire_fold [OF assms distinct_expired [OF assms]])+

section \<open>Dispatch\<close>

text \<open>A channel is ready when it has queued events, no turn in flight and no back-off pending.\<close>

definition ready :: "instant \<Rightarrow> event_queue \<Rightarrow> uuid \<Rightarrow> bool" where
  "ready now q ch \<longleftrightarrow>
     queued_of q ch \<noteq> [] \<and> ch \<notin> in_flight_channels q \<and>
     (\<forall>t. hget (retry_after q) ch = Some t \<longrightarrow> t \<le> now)"

definition head_time :: "event_queue \<Rightarrow> uuid \<Rightarrow> instant" where
  "head_time q ch = qe_received_at (hd (queued_of q ch))"

lemma in_queues_iff:
  "queue_inv q \<Longrightarrow> (ch, es) \<in> set (queues q) \<longleftrightarrow> hget (queues q) ch = Some es"
  by (simp add: queue_inv_def keys_wf_def)

lemma flushable_entry:
  assumes "queue_inv q" and "(ch, es) \<in> set (queues q)"
  shows "flushable now q (ch, es) \<longleftrightarrow> ready now q ch" and "queued_of q ch = es"
proof -
  have "hget (queues q) ch = Some es" using assms by (simp add: in_queues_iff)
  then show "flushable now q (ch, es) \<longleftrightarrow> ready now q ch" and "queued_of q ch = es"
    by (auto simp: flushable_def ready_def queued_of_def split: option.splits)
qed

lemma ready_entry:
  assumes "queue_inv q" and "ready now q ch"
  shows "(ch, queued_of q ch) \<in> set (queues q)"
proof -
  from assms(2) obtain es where "hget (queues q) ch = Some es"
    by (cases "hget (queues q) ch") (auto simp: ready_def queued_of_def)
  with assms(1) show ?thesis by (simp add: in_queues_iff queued_of_def)
qed

lemma oldest_channel_None:
  assumes "queue_inv q"
  shows "oldest_channel now q = None \<longleftrightarrow> (\<forall>ch. \<not> ready now q ch)"
proof -
  have "(\<exists>x \<in> set (queues q). flushable now q x) \<longleftrightarrow> (\<exists>ch. ready now q ch)"
    using flushable_entry [OF assms] ready_entry [OF assms] by (metis surj_pair)
  then show ?thesis
    by (auto simp: oldest_channel_def filter_empty_conv)
qed

lemma oldest_channel_Some:
  assumes inv: "queue_inv q" and ch: "oldest_channel now q = Some ch"
  shows "ready now q ch \<and> (\<forall>c. ready now q c \<longrightarrow> head_time q ch \<le> head_time q c)"
proof -
  let ?f = "\<lambda>(ch, queue). qe_received_at (hd queue)"
  from ch obtain es where m: "min_by_key ?f (filter (flushable now q) (queues q)) = Some (ch, es)"
    by (auto simp: oldest_channel_def)
  from min_by_key_SomeD [OF m]
  have es: "(ch, es) \<in> set (queues q)" "flushable now q (ch, es)"
    and le: "\<And>c cs. (c, cs) \<in> set (queues q) \<Longrightarrow> flushable now q (c, cs) \<Longrightarrow>
      qe_received_at (hd es) \<le> qe_received_at (hd cs)"
    by auto
  have "head_time q ch \<le> head_time q c" if c: "ready now q c" for c
    using le [OF ready_entry [OF inv c]] flushable_entry [OF inv ready_entry [OF inv c]]
      flushable_entry(2) [OF inv es(1)] c
    by (simp add: head_time_def)
  then show ?thesis
    using flushable_entry(1) [OF inv es(1)] es(2) by blast
qed

lemma idle_cancelled_iff:
  "idle_cancelled_channel q = None \<longleftrightarrow>
     (\<forall>ch. hcontains (cancelled_batches q) ch \<longrightarrow> ch \<in> in_flight_channels q)"
  by (force simp: idle_cancelled_channel_def find_None_iff)

lemma idle_cancelled_Some:
  "idle_cancelled_channel q = Some ch \<Longrightarrow>
     hcontains (cancelled_batches q) ch \<and> ch \<notin> in_flight_channels q"
  by (force simp: idle_cancelled_channel_def find_Some_iff in_set_conv_nth)

lemma flush_next_SomeD:
  assumes inv: "queue_inv q" and f: "flush_next now q = (Some b, q')"
  defines "e \<equiv> expire_stuck now q"
  shows "(ready now e (fb_channel_id b) \<and>
          (\<forall>c. ready now e c \<longrightarrow> head_time e (fb_channel_id b) \<le> head_time e c) \<and>
          flush_channel now (fb_channel_id b) e = (b, q')) \<or>
         ((\<forall>c. \<not> ready now e c) \<and> hcontains (cancelled_batches e) (fb_channel_id b) \<and>
          fb_channel_id b \<notin> in_flight_channels e \<and>
          flush_cancelled now (fb_channel_id b) e = (b, q'))"
proof (cases "oldest_channel now e")
  case (Some ch)
  have "flush_channel now ch e = (b, q')"
    using f Some by (cases "flush_channel now ch e") (simp add: flush_next_def e_def [symmetric] Let_def)
  moreover from this have "fb_channel_id b = ch"
    by (auto simp: flush_channel_def Let_def)
  ultimately show ?thesis
    using oldest_channel_Some [OF _ Some] inv by (simp add: e_def expire_stuck_inv)
next
  case None
  then obtain ch where ch: "idle_cancelled_channel e = Some ch"
    using f by (auto simp: flush_next_def e_def [symmetric] Let_def split: option.splits)
  have "flush_cancelled now ch e = (b, q')"
    using f None ch by (cases "flush_cancelled now ch e") (simp add: flush_next_def e_def [symmetric] Let_def)
  moreover from this have "fb_channel_id b = ch"
    by (auto simp: flush_cancelled_def Let_def)
  ultimately show ?thesis
    using oldest_channel_None [of e now] None idle_cancelled_Some [OF ch] inv
    by (simp add: e_def expire_stuck_inv)
qed

lemma flush_channel_facts:
  assumes "flush_channel now ch q = (b, q')"
  shows "fb_channel_id b = ch"
    and "fb_events b = sort_key (\<lambda>be. ev_created_at (be_event be))
           (map to_batch_event (take MAX_BATCH_EVENTS (queued_of q ch)))"
    and "fb_cancelled_events b = cancelled_of q ch"
    and "queued_of q' c = (if c = ch then drop MAX_BATCH_EVENTS (queued_of q ch) else queued_of q c)"
    and "cancelled_of q' c = (if c = ch then [] else cancelled_of q c)"
    and "in_flight_channels q' = insert ch (in_flight_channels q)"
    and "in_flight_deadlines q' = hinsert ch (now + in_flight_deadline q) (in_flight_deadlines q)"
    and "withheld_native_steer q' = withheld_native_steer q"
  using assms
  by (auto simp: flush_channel_def Let_def queued_of_def cancelled_of_def mark_in_flight_def
      take_cancelled_def min_def split: if_splits)

lemma flush_cancelled_facts:
  assumes "flush_cancelled now ch q = (b, q')"
  shows "fb_channel_id b = ch"
    and "fb_events b = cancelled_of q ch"
    and "fb_cancelled_events b = []"
    and "queued_of q' c = queued_of q c"
    and "cancelled_of q' c = (if c = ch then [] else cancelled_of q c)"
    and "in_flight_channels q' = insert ch (in_flight_channels q)"
    and "in_flight_deadlines q' = hinsert ch (now + in_flight_deadline q) (in_flight_deadlines q)"
    and "withheld_native_steer q' = withheld_native_steer q"
  using assms
  by (auto simp: flush_cancelled_def Let_def queued_of_def cancelled_of_def mark_in_flight_def
      take_cancelled_def)

text \<open>
  a flush serves the ready channel whose oldest event waited longest. It takes the first
  fifty queued events of that channel, sorted by creation time with ties in queue order, leaves
  the rest queued, merges the events of a cancelled turn into the batch, and touches no other
  channel. Only when no channel is ready does it re-dispatch a cancelled batch.
\<close>

theorem flush_next_serves_oldest:
  assumes inv: "queue_inv q" and f: "flush_next now q = (Some b, q')"
  defines "e \<equiv> expire_stuck now q" and "ch \<equiv> fb_channel_id b"
  shows "if \<exists>c. ready now e c
    then ready now e ch \<and> (\<forall>c. ready now e c \<longrightarrow> head_time e ch \<le> head_time e c) \<and>
         fb_events b = sort_key (\<lambda>be. ev_created_at (be_event be))
           (map to_batch_event (take MAX_BATCH_EVENTS (queued_of e ch))) \<and>
         fb_cancelled_events b = cancelled_of e ch \<and>
         (\<forall>c. queued_of q' c = (if c = ch then drop MAX_BATCH_EVENTS (queued_of e ch) else queued_of e c)) \<and>
         (\<forall>c. cancelled_of q' c = (if c = ch then [] else cancelled_of e c))
    else hcontains (cancelled_batches e) ch \<and> fb_events b = cancelled_of e ch \<and>
         fb_cancelled_events b = [] \<and> queued_of q' = queued_of e \<and>
         (\<forall>c. cancelled_of q' c = (if c = ch then [] else cancelled_of e c))"
  using flush_next_SomeD [OF inv f] flush_channel_facts [of now ch e b q']
    flush_cancelled_facts [of now ch e b q']
  unfolding e_def [symmetric] ch_def [symmetric] by (auto simp: fun_eq_iff)

text \<open>
  \<open>has_flushable_work\<close> tells exactly whether \<open>flush_next\<close> would return a batch at the
  same instant, and leaves the queue as the failing flush would.
\<close>

theorem flushable_work_is_a_flush:
  "fst (has_flushable_work now q) = (fst (flush_next now q) \<noteq> None) \<and>
   snd (has_flushable_work now q) =
     (if fst (flush_next now q) = None then snd (flush_next now q) else expire_stuck now q)"
proof -
  let ?e = "expire_stuck now q"
  have "list_ex (flushable now ?e) (queues ?e) \<longleftrightarrow> oldest_channel now ?e \<noteq> None"
    by (auto simp: oldest_channel_def list_ex_iff filter_empty_conv)
  moreover have "list_ex (\<lambda>ch. ch \<notin> in_flight_channels ?e) (keys (cancelled_batches ?e)) \<longleftrightarrow>
      idle_cancelled_channel ?e \<noteq> None"
    by (auto simp: list_ex_iff idle_cancelled_channel_def find_None_iff)
  ultimately show ?thesis
    by (auto simp: has_flushable_work_def flush_next_def Let_def split: option.splits)
qed

section \<open>One turn at a time\<close>

text \<open>A channel is locked until \<open>t\<close> when it is in flight with a deadline no earlier than \<open>t\<close>.\<close>

definition locked :: "uuid \<Rightarrow> instant \<Rightarrow> event_queue \<Rightarrow> bool" where
  "locked ch t q \<longleftrightarrow> (\<exists>d. hget (in_flight_deadlines q) ch = Some d \<and> t \<le> d)"

lemma locked_in_flight:
  assumes "queue_inv q" and "locked ch t q"
  shows "ch \<in> in_flight_channels q"
proof -
  from assms(2) have "ch \<in> fst ` set (in_flight_deadlines q)"
    by (force simp: locked_def dest: map_of_SomeD)
  with assms(1) show ?thesis by (simp add: queue_inv_def)
qed

lemma locked_not_expired:
  "queue_inv q \<Longrightarrow> locked ch t q \<Longrightarrow> now < t \<Longrightarrow> ch \<notin> set (expired_channels now q)"
  by (auto simp: mem_expired locked_def)

lemma locked_expire_stuck:
  "queue_inv q \<Longrightarrow> locked ch t q \<Longrightarrow> now < t \<Longrightarrow> locked ch t (expire_stuck now q)"
  using locked_not_expired [of q ch t now]
  by (simp add: locked_def expire_stuck_facts)

lemma flush_next_not_locked:
  assumes inv: "queue_inv q" and l: "locked ch t q" "now < t"
    and f: "flush_next now q = (Some b, q')"
  shows "fb_channel_id b \<noteq> ch"
proof -
  have "ch \<in> in_flight_channels (expire_stuck now q)"
    using locked_in_flight [OF expire_stuck_inv [OF inv] locked_expire_stuck [OF inv l]] .
  then show ?thesis
    using flush_next_SomeD [OF inv f] by (auto simp: ready_def)
qed

lemma flush_next_deadlines:
  assumes inv: "queue_inv q" and f: "flush_next now q = (Some b, q')"
  shows "in_flight_deadlines q' =
    hinsert (fb_channel_id b) (now + in_flight_deadline q) (in_flight_deadlines (expire_stuck now q))"
  using flush_next_SomeD [OF inv f] flush_channel_facts(7) [of now "fb_channel_id b" _ b q']
    flush_cancelled_facts(7) [of now "fb_channel_id b" _ b q'] expire_stuck_facts(2) [OF inv]
  by auto

lemma flush_next_None: "flush_next now q = (None, q') \<Longrightarrow> q' = expire_stuck now q"
  by (auto simp: flush_next_def Let_def apfst_def map_prod_def split: option.splits prod.splits)

lemma locked_flush_next:
  assumes inv: "queue_inv q" and l: "locked ch t q" "now < t"
  shows "locked ch t (snd (flush_next now q))"
proof (cases "flush_next now q")
  case (Pair r q')
  then show ?thesis
    using flush_next_None [of now q q'] locked_expire_stuck [OF inv l]
      flush_next_deadlines [OF inv, of now _ q'] flush_next_not_locked [OF inv l, of _ q']
    by (cases r) (auto simp: locked_def)
qed

lemma deadlines_frame:
  "in_flight_deadlines (snd (push e q)) = in_flight_deadlines q"
  "in_flight_deadlines (snd (requeue now nanos b q)) = in_flight_deadlines q"
  "in_flight_deadlines (requeue_preserve_timestamps b q) = in_flight_deadlines q"
  "in_flight_deadlines (requeue_as_cancelled b reason q) = in_flight_deadlines q"
  "in_flight_deadlines (snd (drain_channel ch q)) = in_flight_deadlines q"
  "in_flight_deadlines (snd (mark_native_steer_pending ch i q)) = in_flight_deadlines q"
  "in_flight_deadlines (release_native_steer ch i q) = in_flight_deadlines q"
  "in_flight_deadlines (remove_event ch i q) = in_flight_deadlines q"
  "in_flight_deadlines (compact_expired_state now q) = in_flight_deadlines q"
  by (auto simp: push_def requeue_def requeue_preserve_timestamps_def requeue_as_cancelled_def
      drain_channel_def mark_native_steer_pending_def release_native_steer_def remove_event_def
      compact_expired_state_def Let_def split: option.splits)

lemma locked_step:
  assumes "queue_inv q" and "locked ch t q" and "now < t" and "a \<noteq> MarkComplete ch"
  shows "locked ch t (queue_step q (now, a))"
proof (cases a)
  case FlushNext
  then show ?thesis using assms by (simp add: locked_flush_next)
next
  case HasFlushableWork
  then show ?thesis using assms by (simp add: has_flushable_work_def Let_def locked_expire_stuck)
next
  case (MarkComplete c)
  then show ?thesis using assms
    by (auto simp: locked_def mark_complete_def Let_def split: option.splits)
next
  case (ExtendDeadline c n)
  then show ?thesis using assms
    by (auto simp: locked_def extend_in_flight_deadline_def Let_def split: option.splits)
qed (use assms in \<open>simp_all add: locked_def deadlines_frame\<close>)

lemma locked_run:
  "queue_inv q \<Longrightarrow> locked ch t q \<Longrightarrow> \<forall>(now, a) \<in> set ops. now < t \<and> a \<noteq> MarkComplete ch \<Longrightarrow>
   locked ch t (foldl queue_step q ops)"
  by (induction ops arbitrary: q) (auto simp: locked_step qm.step_inv)

text \<open>
  C8: a channel never has two turns at once. After a flush dispatches a batch for a channel at
  time \<open>t\<close>, no flush before the deadline returns a batch for the same channel, whatever other
  operations run in between, unless one of them completes that channel's turn.
\<close>

theorem one_turn_per_channel:
  assumes "queue_inv q" and "flush_next t q = (Some b, q1)"
    and "\<forall>(now, a) \<in> set ops. now < t + in_flight_deadline q \<and> a \<noteq> MarkComplete (fb_channel_id b)"
    and "t' < t + in_flight_deadline q"
    and "flush_next t' (foldl queue_step q1 ops) = (Some b', q2)"
  shows "fb_channel_id b' \<noteq> fb_channel_id b"
proof -
  let ?ch = "fb_channel_id b" and ?d = "t + in_flight_deadline q"
  have inv1: "queue_inv q1" using flush_next_inv [OF assms(1), of t] assms(2) by simp
  have "locked ?ch ?d q1"
    using flush_next_deadlines [OF assms(1,2)] by (simp add: locked_def)
  then have "locked ?ch ?d (foldl queue_step q1 ops)"
    using locked_run [OF inv1] assms(3) by blast
  then show ?thesis
    using flush_next_not_locked [OF qm.run_inv [OF inv1] _ assms(4,5)] by blast
qed

section \<open>Expired turns\<close>

text \<open>
  a flush or a work check first frees every channel whose deadline has passed, and only
  those: the channel leaves the in-flight set, its withheld steer events go back to the front
  of its queue in their order (within the cap), its side table is emptied, and other channels
  keep their events, withheld events and deadlines.
\<close>

theorem expiry_frees_and_recovers:
  fixes q :: event_queue and now :: instant
  assumes "queue_inv q"
  defines "late \<equiv> {ch. \<exists>d. hget (in_flight_deadlines q) ch = Some d \<and> d \<le> now}"
  shows "in_flight_channels (expire_stuck now q) = in_flight_channels q - late \<and>
    queued_of (expire_stuck now q) ch =
      (if ch \<in> late then take MAX_PENDING_PER_CHANNEL (withheld_of q ch @ queued_of q ch) else queued_of q ch) \<and>
    withheld_of (expire_stuck now q) ch = (if ch \<in> late then [] else withheld_of q ch) \<and>
    hget (in_flight_deadlines (expire_stuck now q)) ch =
      (if ch \<in> late then None else hget (in_flight_deadlines q) ch)"
proof -
  have late: "late = set (expired_channels now q)"
    using mem_expired [OF assms(1)] by (auto simp: late_def)
  show ?thesis unfolding late by (simp add: expire_stuck_facts [OF assms(1)] del: take_append)
qed

section \<open>Retries\<close>

text \<open>A failing turn: the batch is requeued, then the turn is marked complete.\<close>

definition failing_turn ::
  "instant \<times> nat \<times> flush_batch \<Rightarrow> event_queue \<Rightarrow> flush_batch option \<times> event_queue" where
  "failing_turn t q =
     (case t of (now, nanos, b) \<Rightarrow>
        apsnd (mark_complete now (fb_channel_id b)) (requeue now nanos b q))"

fun failing_turns ::
  "(instant \<times> nat \<times> flush_batch) list \<Rightarrow> event_queue \<Rightarrow> flush_batch option list \<times> event_queue" where
  "failing_turns [] q = ([], q)"
| "failing_turns (t # ts) q =
     (let (r, q1) = failing_turn t q; (rs, q2) = failing_turns ts q1 in (r # rs, q2))"

definition attempts_of :: "event_queue \<Rightarrow> uuid \<Rightarrow> nat" where
  "attempts_of q ch = (case hget (retry_counts q) ch of None \<Rightarrow> 0 | Some n \<Rightarrow> n)"

lemma retry_delay_pos: "0 < retry_delay attempt nanos"
proof -
  have "5 \<le> capped_delay_secs attempt"
    by (simp add: capped_delay_secs_def queue_limits)
  then have "5 * 1000000000 * (8 * (2 ^ 32 - 1)) \<le> secs (capped_delay_secs attempt) * (8 * (2 ^ 32 - 1) + 4 * nanos)"
    unfolding secs_def by (intro mult_mono) simp_all
  then have "10 * (2 ^ 32 - 1) \<le> secs (capped_delay_secs attempt) * (8 * (2 ^ 32 - 1) + 4 * nanos)"
    by (rule order_trans [rotated]) simp
  then show ?thesis
    unfolding retry_delay_def by (subst div_greater_zero_iff) simp
qed

lemma failing_turn_retry:
  assumes "attempts_of q (fb_channel_id b) < MAX_RETRIES"
  shows "fst (failing_turn (now, nanos, b) q) = None \<and>
    attempts_of (snd (failing_turn (now, nanos, b) q)) (fb_channel_id b) =
      Suc (attempts_of q (fb_channel_id b))"
  using assms retry_delay_pos [of "Suc (attempts_of q (fb_channel_id b))" nanos]
  by (auto simp: failing_turn_def requeue_def mark_complete_def attempts_of_def Let_def
      push_front_all_eq split: option.splits)

lemma failing_turn_dead:
  assumes "attempts_of q (fb_channel_id b) = MAX_RETRIES"
  shows "fst (failing_turn (now, nanos, b) q) = Some b \<and>
    attempts_of (snd (failing_turn (now, nanos, b) q)) (fb_channel_id b) = 0"
  using assms
  by (auto simp: failing_turn_def requeue_def mark_complete_def attempts_of_def Let_def
      split: option.splits)

lemma failing_turns_retry:
  assumes "\<forall>(now, nanos, b) \<in> set ts. fb_channel_id b = ch"
    and "attempts_of q ch + length ts \<le> MAX_RETRIES"
  shows "fst (failing_turns ts q) = replicate (length ts) None \<and>
    attempts_of (snd (failing_turns ts q)) ch = attempts_of q ch + length ts"
  using assms
proof (induction ts arbitrary: q)
  case (Cons t ts)
  obtain now nanos b where t: "t = (now, nanos, b)" by (cases t)
  have b: "fb_channel_id b = ch" using Cons.prems(1) t by simp
  have step: "fst (failing_turn t q) = None \<and> attempts_of (snd (failing_turn t q)) ch = Suc (attempts_of q ch)"
    using failing_turn_retry [of q b now nanos] Cons.prems(2) by (simp add: t b)
  show ?case
    using Cons.IH [of "snd (failing_turn t q)"] Cons.prems step
    by (auto simp: Let_def split_beta)
qed simp

text \<open>
  C34: a poison batch is retried ten times and then handed back. Starting from a channel with no
  recorded failure, ten failing turns requeue their batch, the eleventh returns it as a dead
  letter, and the channel's retry budget is full again.
\<close>

theorem eleventh_failure_dead_letters:
  assumes "hget (retry_counts q) ch = None" and "length ts = MAX_RETRIES"
    and "\<forall>(now, nanos, b) \<in> set (ts @ [t]). fb_channel_id b = ch"
  shows "fst (failing_turns ts q) = replicate MAX_RETRIES None \<and>
    fst (failing_turn t (snd (failing_turns ts q))) = Some (snd (snd t)) \<and>
    hget (retry_counts (snd (failing_turn t (snd (failing_turns ts q))))) ch = None"
proof -
  obtain now nanos b where t: "t = (now, nanos, b)" by (cases t)
  have b: "fb_channel_id b = ch" using assms(3) t by simp
  have z: "attempts_of q ch = 0" using assms(1) by (simp add: attempts_of_def)
  have r: "fst (failing_turns ts q) = replicate MAX_RETRIES None \<and>
      attempts_of (snd (failing_turns ts q)) ch = MAX_RETRIES"
    using failing_turns_retry [of ts ch q] assms(2,3) z by auto
  then have "fst (failing_turn t (snd (failing_turns ts q))) = Some b"
    using failing_turn_dead [of _ b now nanos] by (simp add: t b)
  moreover have "hget (retry_counts (snd (failing_turn t (snd (failing_turns ts q))))) ch = None"
    using r by (auto simp: t failing_turn_def b [symmetric] requeue_def mark_complete_def attempts_of_def
        Let_def queue_limits split: option.splits)
  ultimately show ?thesis using r by (simp add: t)
qed

text \<open>
  the back-off is at least 80 percent of the capped exponential delay and stays below
  90 percent of it, because the jitter scales a sub-second nanosecond count by the 32-bit
  maximum.
\<close>

theorem retry_delay_bounds:
  assumes "nanos < 1000000000"
  shows "8 * secs (capped_delay_secs attempt) \<le> 10 * retry_delay attempt nanos \<and>
    10 * retry_delay attempt nanos < 9 * secs (capped_delay_secs attempt) \<and>
    capped_delay_secs attempt \<le> MAX_RETRY_DELAY_SECS"
proof -
  define c where "c = capped_delay_secs attempt"
  have c: "5 \<le> c" "c \<le> MAX_RETRY_DELAY_SECS"
    by (simp_all add: c_def capped_delay_secs_def queue_limits)
  let ?m = "(2 ^ 32 - 1) :: nat"
  have d: "retry_delay attempt nanos = (c * 100000000) * (8 * ?m + 4 * nanos) div ?m"
  proof -
    have "secs c * (8 * ?m + 4 * nanos) = 10 * ((c * 100000000) * (8 * ?m + 4 * nanos))"
      by (simp add: secs_def)
    then show ?thesis
      unfolding retry_delay_def c_def [symmetric] by simp
  qed
  have lo: "c * 800000000 \<le> retry_delay attempt nanos"
  proof -
    have "c * 800000000 * ?m \<le> (c * 100000000) * (8 * ?m + 4 * nanos)"
      by (simp add: algebra_simps)
    then have "c * 800000000 * ?m div ?m \<le> (c * 100000000) * (8 * ?m + 4 * nanos) div ?m"
      by (rule div_le_mono)
    then show ?thesis by (simp add: d)
  qed
  have hi: "retry_delay attempt nanos < c * 900000000"
  proof -
    have "4 * nanos < ?m" using assms by simp
    then have "(c * 100000000) * (8 * ?m + 4 * nanos) < (c * 100000000) * (9 * ?m)"
      using c(1) by (intro mult_strict_left_mono) simp_all
    also have "\<dots> = c * 900000000 * ?m" by simp
    finally have "(c * 100000000) * (8 * ?m + 4 * nanos) < c * 900000000 * ?m" .
    then show ?thesis unfolding d by (subst div_less_iff_less_mult) simp_all
  qed
  show ?thesis using lo hi c by (simp add: c_def [symmetric] secs_def)
qed

section \<open>Undispatched batches and native steering\<close>

lemma to_queued_to_batch: "vec_ok ch es \<Longrightarrow> map (to_queued_event ch) (map to_batch_event es) = es"
  by (induction es) (auto simp: to_queued_event_def to_batch_event_def)

lemma queued_of_requeue_preserve:
  "queued_of (requeue_preserve_timestamps b q) (fb_channel_id b) =
     take MAX_PENDING_PER_CHANNEL
       (map (to_queued_event (fb_channel_id b)) (fb_events b) @ queued_of q (fb_channel_id b))"
  by (simp add: requeue_preserve_timestamps_def Let_def push_front_all_eq queued_of_def)

lemma mark_complete_frame [simp]:
  "queued_of (mark_complete now ch q) = queued_of q"
  "cancelled_of (mark_complete now ch q) = cancelled_of q"
  "withheld_of (mark_complete now ch q) = withheld_of q"
  "in_flight_channels (mark_complete now ch q) = in_flight_channels q - {ch}"
  by (auto simp: mark_complete_def Let_def queued_of_def cancelled_of_def withheld_of_def fun_eq_iff
      split: option.splits)

lemma queued_of_length: "queue_inv q \<Longrightarrow> length (queued_of q ch) \<le> MAX_PENDING_PER_CHANNEL"
  using inv_queue_vec [of q ch] by (simp add: queued_of_def)

text \<open>
  when no agent is free, dispatch puts the flushed batch back and completes the turn. The
  channel then has exactly its queued events again and is not in flight, but the events of a
  cancelled turn that the flush merged into the batch are gone from the queue.
\<close>

theorem undispatched_batch_loses_cancelled:
  assumes inv: "queue_inv q" and f: "flush_next now q = (Some b, q1)"
    and r: "ready now (expire_stuck now q) (fb_channel_id b)"
  defines "ch \<equiv> fb_channel_id b"
  defines "q2 \<equiv> mark_complete now ch (requeue_preserve_timestamps b q1)"
  shows "mset (queued_of q2 ch) = mset (queued_of (expire_stuck now q) ch) \<and>
    ch \<notin> in_flight_channels q2 \<and>
    fb_cancelled_events b = cancelled_of (expire_stuck now q) ch \<and> cancelled_of q2 ch = []"
proof -
  let ?e = "expire_stuck now q"
  have inve: "queue_inv ?e" using inv by (rule expire_stuck_inv)
  have fc: "flush_channel now ch ?e = (b, q1)"
    using flush_next_SomeD [OF inv f] r by (auto simp: ch_def)
  note facts = flush_channel_facts [OF fc]
  let ?t = "take MAX_BATCH_EVENTS (queued_of ?e ch)"
  have v: "vec_ok ch (queued_of ?e ch)" using inv_queue_vec [OF inve, of ch] by (simp add: queued_of_def)
  have "mset (map (to_queued_event ch) (fb_events b)) =
      mset (map (to_queued_event ch) (map to_batch_event ?t))"
    by (simp only: facts(2) mset_map mset_sort)
  then have m: "mset (map (to_queued_event ch) (fb_events b)) = mset ?t"
    by (simp only: to_queued_to_batch [OF vec_ok_take [OF v]])
  have l: "length (map (to_queued_event ch) (fb_events b) @ queued_of q1 ch) \<le> MAX_PENDING_PER_CHANNEL"
    using queued_of_length [OF inve, of ch] by (simp add: facts(2,4))
  have "mset (map (to_queued_event ch) (fb_events b) @ queued_of q1 ch) = mset (queued_of ?e ch)"
    using m by (simp add: facts(4) del: mset_map) (metis append_take_drop_id mset_append)
  then have "mset (queued_of q2 ch) = mset (queued_of ?e ch)"
    using queued_of_requeue_preserve [of b q1] l by (simp add: q2_def ch_def)
  moreover have "cancelled_of q2 ch = []"
    using facts(5) [of ch]
    by (simp add: q2_def requeue_preserve_timestamps_def Let_def cancelled_of_def)
  ultimately show ?thesis
    using facts(3) by (simp add: q2_def)
qed

lemma position_append_absent:
  "\<forall>x \<in> set xs. \<not> P x \<Longrightarrow> P y \<Longrightarrow> position P (xs @ [y]) = Some (length xs)"
  by (induction xs) auto

lemma hget_nonempty: "or_empty (hget m k) \<noteq> [] \<Longrightarrow> hget m k = Some (or_empty (hget m k))"
  by (cases "hget m k") auto

lemma mark_steer_found:
  assumes pos: "position (event_is i) (queued_of q ch) = Some pos"
  shows "mark_native_steer_pending ch i q = (True,
    q\<lparr>queues := put_or_remove ch (remove_at pos (queued_of q ch)) (queues q),
      withheld_native_steer :=
        hinsert ch (withheld_of q ch @ [queued_of q ch ! pos]) (withheld_native_steer q)\<rparr>)"
proof -
  have "queued_of q ch \<noteq> []" using position_SomeD [OF pos] by auto
  then have "hget (queues q) ch = Some (queued_of q ch)"
    unfolding queued_of_def by (rule hget_nonempty)
  then show ?thesis
    using pos by (simp add: mark_native_steer_pending_def Let_def withheld_of_def)
qed

text \<open>
  a queued event handed to a native steer is withheld from flushing. A failed steer brings
  it back, to the front of its queue; a successful one removes it for good. In both cases the
  side table is left as before, and no other queued event is lost.
\<close>

theorem native_steer_round_trip:
  assumes inv: "queue_inv q" and pos: "position (event_is i) (queued_of q ch) = Some pos"
    and fresh: "\<forall>e \<in> set (withheld_of q ch). \<not> event_is i e"
  defines "q1 \<equiv> snd (mark_native_steer_pending ch i q)"
    and "rest \<equiv> remove_at pos (queued_of q ch)"
  shows "fst (mark_native_steer_pending ch i q) \<and>
    queued_of q1 ch = rest \<and> withheld_of q1 ch = withheld_of q ch @ [queued_of q ch ! pos] \<and>
    queued_of (release_native_steer ch i q1) ch = queued_of q ch ! pos # rest \<and>
    withheld_of (release_native_steer ch i q1) ch = withheld_of q ch \<and>
    queued_of (remove_event ch i q1) ch = filter (\<lambda>e. \<not> event_is i e) rest \<and>
    withheld_of (remove_event ch i q1) ch = withheld_of q ch"
proof -
  let ?e = "queued_of q ch ! pos" and ?w = "withheld_of q ch"
  have e: "event_is i ?e" and lt: "pos < length (queued_of q ch)"
    using position_SomeD [OF pos] by auto
  note m = mark_steer_found [OF pos]
  have qd: "queued_of q1 ch = rest"
    by (simp add: q1_def m rest_def queued_of_def hget_put_or_remove)
  have wd: "hget (withheld_native_steer q1) ch = Some (?w @ [?e])"
    by (simp add: q1_def m)
  have p: "position (event_is i) (?w @ [?e]) = Some (length ?w)"
    using position_append_absent [of ?w "event_is i"] fresh e by blast
  have ra: "remove_at (length ?w) (?w @ [?e]) = ?w"
    by (simp add: remove_at_def)
  have rel: "release_native_steer ch i q1 =
      push_front_all ch [?e] (q1\<lparr>withheld_native_steer := put_or_remove ch ?w (withheld_native_steer q1)\<rparr>)"
    using wd p ra by (simp add: release_native_steer_def)
  have len: "Suc (length rest) \<le> MAX_PENDING_PER_CHANNEL"
    using queued_of_length [OF inv, of ch] lt by (simp add: rest_def)
  have "queued_of (release_native_steer ch i q1) ch = ?e # rest"
    using qd len by (simp add: rel push_front_all_eq queued_of_def take_Cons')
  moreover have "withheld_of (release_native_steer ch i q1) ch = ?w"
    by (simp add: rel withheld_of_def hget_put_or_remove push_front_frame)
  moreover have "queued_of (remove_event ch i q1) ch = filter (\<lambda>e. \<not> event_is i e) rest"
    using qd by (auto simp: remove_event_def queued_of_def retain_others_def hget_put_or_remove
        split: option.splits)
  moreover have "withheld_of (remove_event ch i q1) ch = ?w"
    using wd e fresh
    by (simp add: remove_event_def withheld_of_def retain_others_def hget_put_or_remove filter_id_conv)
  ultimately show ?thesis
    using qd wd by (simp add: m withheld_of_def)
qed

section \<open>Reachable queues and concrete runs\<close>

text \<open>
  C28: every queue the harness can reach, by its operations at any times and any rehash of the
  hash maps in between, keeps the invariant: unique keys, at most 500 events per channel and
  only events of that channel, deadlines and batch sizes exactly for the channels in flight,
  retry counts between one and ten, and a reason recorded exactly for the cancelled batches.
\<close>

theorem reachable_queue_inv:
  assumes "queue_start q0" and "queue_trans\<^sup>*\<^sup>* q0 q"
  shows "queue_inv q"
  using qs.reachable_inv [OF assms] .

lemma run_new_inv: "queue_inv (foldl queue_step (queue_new mode) ops)"
  by (rule qm.run_inv) (rule queue_new_inv(1))

definition sample_queued :: "uuid \<Rightarrow> string \<Rightarrow> nat \<Rightarrow> queued_event" where
  "sample_queued ch i t =
     \<lparr>qe_channel_id = ch,
      qe_event = \<lparr>ev_id = i, ev_pubkey = ''alice'', ev_created_at = t, ev_kind = 9, ev_tags = [], ev_content = ''hi''\<rparr>,
      qe_received_at = t, qe_prompt_tag = ''mention''\<rparr>"

definition sample_queue :: event_queue where
  "sample_queue = foldl queue_step (queue_new DedupQueue)
     [(0, Push (sample_queued ''a'' ''e1'' 5)), (0, Push (sample_queued ''b'' ''e2'' 7))]"

definition cancelled_sample :: event_queue where
  "cancelled_sample = foldl queue_step (queue_new DedupQueue)
     [(0, Push (sample_queued ''a'' ''e1'' 5)),
      (1, RequeueCancelled
            \<lparr>fb_channel_id = ''a'', fb_events = [to_batch_event (sample_queued ''a'' ''e0'' 3)],
             fb_cancelled_events = [], fb_cancel_reason = None\<rparr> Steer)]"

lemma sample_queue_inv: "queue_inv sample_queue" "queue_inv cancelled_sample"
  unfolding sample_queue_def cancelled_sample_def by (rule run_new_inv)+

lemmas queue_eval =
  sample_queue_def cancelled_sample_def sample_queued_def queue_new_def push_def queue_limits
  flush_next_def expire_stuck_def expired_channels_def oldest_channel_def flushable_def
  flush_channel_def mark_in_flight_def take_cancelled_def to_batch_event_def
  requeue_as_cancelled_def

lemma reachable_queue_inv_witness:
  "queue_inv (queue_step (queue_new DedupDrop) (0, Push (sample_queued ''a'' ''e1'' 5)))"
proof (rule reachable_queue_inv)
  show "queue_start (queue_new DedupDrop)" by (auto simp: queue_start_def)
  show "queue_trans\<^sup>*\<^sup>* (queue_new DedupDrop)
      (queue_step (queue_new DedupDrop) (0, Push (sample_queued ''a'' ''e1'' 5)))"
    by (rule r_into_rtranclp) (rule operate)
qed

lemma sample_flush:
  "fst (flush_next 10 sample_queue) =
     Some \<lparr>fb_channel_id = ''a'', fb_events = [to_batch_event (sample_queued ''a'' ''e1'' 5)],
           fb_cancelled_events = [], fb_cancel_reason = None\<rparr>"
  by (simp add: queue_eval Let_def)

lemma sample_next_flush:
  "fst (flush_next 12 (foldl queue_step (snd (flush_next 10 sample_queue))
      [(11, Push (sample_queued ''a'' ''e3'' 1))])) =
     Some \<lparr>fb_channel_id = ''b'', fb_events = [to_batch_event (sample_queued ''b'' ''e2'' 7)],
           fb_cancelled_events = [], fb_cancel_reason = None\<rparr>"
  by (simp add: queue_eval Let_def)

lemma cancelled_flush:
  "fst (flush_next 10 cancelled_sample) =
     Some \<lparr>fb_channel_id = ''a'', fb_events = [to_batch_event (sample_queued ''a'' ''e1'' 5)],
           fb_cancelled_events = [to_batch_event (sample_queued ''a'' ''e0'' 3)],
           fb_cancel_reason = Some Steer\<rparr>"
  by (simp add: queue_eval Let_def)

lemma sample_ready:
  "expire_stuck 10 sample_queue = sample_queue" "ready 10 sample_queue ''a''"
  "expire_stuck 10 cancelled_sample = cancelled_sample" "ready 10 cancelled_sample ''a''"
  by (simp_all add: queue_eval Let_def ready_def queued_of_def)

lemma flush_next_serves_oldest_witness:
  "head_time sample_queue ''a'' \<le> head_time sample_queue ''b'' \<and>
   queued_of (snd (flush_next 10 sample_queue)) ''b'' = queued_of sample_queue ''b''"
proof -
  let ?f = "flush_next 10 sample_queue"
  have f: "?f = (Some (the (fst ?f)), snd ?f)" using sample_flush by (metis option.sel prod.collapse)
  have b: "fb_channel_id (the (fst ?f)) = ''a''" by (simp add: sample_flush)
  have "ready 10 sample_queue ''b''" by (simp add: queue_eval Let_def ready_def queued_of_def)
  then show ?thesis
    using flush_next_serves_oldest [OF sample_queue_inv(1) f] sample_ready(1,2)
    by (auto simp: b split: if_splits)
qed

lemma one_turn_per_channel_witness:
  "fb_channel_id (the (fst (flush_next 12 (foldl queue_step (snd (flush_next 10 sample_queue))
      [(11, Push (sample_queued ''a'' ''e3'' 1))])))) \<noteq>
   fb_channel_id (the (fst (flush_next 10 sample_queue)))"
proof -
  let ?ops = "[(11, Push (sample_queued ''a'' ''e3'' 1))]"
  let ?f = "flush_next 10 sample_queue"
  let ?g = "flush_next 12 (foldl queue_step (snd ?f) ?ops)"
  have d: "in_flight_deadline sample_queue = 7300000000000" by (simp add: queue_eval Let_def)
  have f: "?f = (Some (the (fst ?f)), snd ?f)" using sample_flush by (metis option.sel prod.collapse)
  have g: "?g = (Some (the (fst ?g)), snd ?g)" using sample_next_flush by (metis option.sel prod.collapse)
  show ?thesis
    by (rule one_turn_per_channel [OF sample_queue_inv(1) f, of ?ops 12, OF _ _ g]) (simp_all add: d)
qed

lemma expiry_frees_and_recovers_witness:
  "queued_of (expire_stuck 99 sample_queue) ''a'' =
     (if ''a'' \<in> {ch. \<exists>d. hget (in_flight_deadlines sample_queue) ch = Some d \<and> d \<le> 99}
      then take MAX_PENDING_PER_CHANNEL (withheld_of sample_queue ''a'' @ queued_of sample_queue ''a'')
      else queued_of sample_queue ''a'')"
  using expiry_frees_and_recovers [OF sample_queue_inv(1), of 99 "''a''"] by blast

lemma eleventh_failure_dead_letters_witness:
  "let b = \<lparr>fb_channel_id = ''a'', fb_events = [], fb_cancelled_events = [], fb_cancel_reason = None\<rparr>;
       ts = replicate MAX_RETRIES (0, 0, b)
   in fst (failing_turn (0, 0, b) (snd (failing_turns ts (queue_new DedupQueue)))) = Some b"
  unfolding Let_def
  by (subst eleventh_failure_dead_letters [where ch = "''a''", THEN conjunct2, THEN conjunct1])
    (simp_all add: queue_new_def)

lemma retry_delay_bounds_witness: "retry_delay 3 500000000 * 10 < 9 * secs 20"
  using retry_delay_bounds [of 500000000 3] by (simp add: capped_delay_secs_def queue_limits)

lemma undispatched_batch_loses_cancelled_witness:
  "let b = the (fst (flush_next 10 cancelled_sample));
       q2 = mark_complete 10 ''a'' (requeue_preserve_timestamps b (snd (flush_next 10 cancelled_sample)))
   in fb_cancelled_events b \<noteq> [] \<and> cancelled_of q2 ''a'' = []"
proof -
  let ?f = "flush_next 10 cancelled_sample"
  have f: "?f = (Some (the (fst ?f)), snd ?f)" using cancelled_flush by (metis option.sel prod.collapse)
  have b: "fb_channel_id (the (fst ?f)) = ''a''" "fb_cancelled_events (the (fst ?f)) \<noteq> []"
    by (simp_all add: cancelled_flush)
  show ?thesis
    using undispatched_batch_loses_cancelled [OF sample_queue_inv(2) f] b sample_ready
    by (simp add: Let_def)
qed

lemma native_steer_round_trip_witness:
  "queued_of (release_native_steer ''a'' ''e1'' (snd (mark_native_steer_pending ''a'' ''e1'' sample_queue))) ''a''
     = [sample_queued ''a'' ''e1'' 5]"
proof -
  have "queued_of sample_queue ''a'' = [sample_queued ''a'' ''e1'' 5]"
    "withheld_of sample_queue ''a'' = []"
    by (simp_all add: queue_eval Let_def queued_of_def withheld_of_def)
  then show ?thesis
    using native_steer_round_trip [OF sample_queue_inv(1), of "''e1''" "''a''" 0]
    by (simp add: event_is_def sample_queued_def remove_at_def)
qed

end
