(* ===== verification/GitPerms.thy ===== *)
theory GitPerms
  imports Text
begin

text \<open>
  Channel roles from \<open>crates/buzz-core/src/channel.rs\<close> and the git permission engine from
  \<open>crates/buzz-core/src/git_perms.rs\<close>: ref patterns, protection tags, the union of the rules
  that match a ref, and the evaluation of a push.

  \<^item> \<open>Result<T, E>\<close> is \<open>E + T\<close>. The \<open>unreachable!()\<close> arms of \<open>matches\<close> make it partial: the
    model's matcher returns \<open>None\<close> there, everything that calls it passes the panic on, and
    \<open>parsed_pattern_matches_glob\<close> shows that no parsed pattern reaches it.
  \<^item> \<open>update_allowed_iff\<close> states a decision by sets of matching rules, from which the
    properties of order, addition of rules and roles follow.
\<close>

section \<open>Roles\<close>

datatype member_role = Owner | Admin | Member | Guest | Bot

definition role_as_str :: "member_role \<Rightarrow> string" where
  "role_as_str r =
     (case r of Owner \<Rightarrow> ''owner'' | Admin \<Rightarrow> ''admin'' | Member \<Rightarrow> ''member''
      | Guest \<Rightarrow> ''guest'' | Bot \<Rightarrow> ''bot'')"

text \<open>Every caller discards the error text of the parse, so failure is \<open>None\<close>.\<close>

definition role_from_str :: "string \<Rightarrow> member_role option" where
  "role_from_str s =
     (if s = ''owner'' then Some Owner else if s = ''admin'' then Some Admin
      else if s = ''member'' then Some Member else if s = ''guest'' then Some Guest
      else if s = ''bot'' then Some Bot else None)"

definition is_elevated :: "member_role \<Rightarrow> bool" where
  "is_elevated r \<longleftrightarrow> r = Owner \<or> r = Admin"

definition permission_level :: "member_role \<Rightarrow> nat" where
  "permission_level r = (case r of Owner \<Rightarrow> 4 | Admin \<Rightarrow> 3 | Member \<Rightarrow> 2 | Guest \<Rightarrow> 1 | Bot \<Rightarrow> 0)"

definition has_at_least :: "member_role \<Rightarrow> member_role \<Rightarrow> bool" where
  "has_at_least r required \<longleftrightarrow> permission_level r \<ge> permission_level required"

lemma role_round_trip [simp]: "role_from_str (role_as_str r) = Some r"
  by (cases r) (simp_all add: role_from_str_def role_as_str_def)

text \<open>Roles are ordered by their permission level, which is injective.\<close>

instantiation member_role :: linorder
begin

definition less_eq_member_role :: "member_role \<Rightarrow> member_role \<Rightarrow> bool" where
  "less_eq_member_role r s \<longleftrightarrow> permission_level r \<le> permission_level s"

definition less_member_role :: "member_role \<Rightarrow> member_role \<Rightarrow> bool" where
  "less_member_role r s \<longleftrightarrow> permission_level r < permission_level s"

instance
proof
  fix r s t :: member_role
  show "r < s \<longleftrightarrow> r \<le> s \<and> \<not> s \<le> r"
    by (auto simp: less_eq_member_role_def less_member_role_def)
  show "r \<le> r" by (simp add: less_eq_member_role_def)
  show "r \<le> s \<Longrightarrow> s \<le> t \<Longrightarrow> r \<le> t" by (simp add: less_eq_member_role_def)
  show "r \<le> s \<Longrightarrow> s \<le> r \<Longrightarrow> r = s"
    by (cases r; cases s) (auto simp: less_eq_member_role_def permission_level_def)
  show "r \<le> s \<or> s \<le> r" by (auto simp: less_eq_member_role_def)
qed

end

lemma has_at_least_le: "has_at_least r required \<longleftrightarrow> required \<le> r"
  by (simp add: has_at_least_def less_eq_member_role_def)

section \<open>Ref patterns\<close>

definition MAX_PROTECTION_RULES :: nat where "MAX_PROTECTION_RULES = 50"
definition MAX_PATTERN_LENGTH :: nat where "MAX_PATTERN_LENGTH = 256"
definition MAX_WILDCARDS_PER_PATTERN :: nat where "MAX_WILDCARDS_PER_PATTERN = 3"

datatype pattern_segment = Literal string | Wildcard | RecursiveWildcard

record ref_pattern =
  rp_raw :: string
  rp_segments :: "pattern_segment list"

datatype pattern_error =
    EmptyPattern
  | TooLong
  | MissingRefsPrefix
  | InvalidSegment string
  | TooManyWildcards

definition segment_char :: "char \<Rightarrow> bool" where
  "segment_char c \<longleftrightarrow>
     is_ascii_alphanumeric c \<or> c = CHR ''.'' \<or> c = CHR ''_'' \<or> c = CHR ''-''"

text \<open>The loop over the parts, with the number of wildcards seen so far.\<close>

fun parse_segments :: "nat \<Rightarrow> string list \<Rightarrow> pattern_error + pattern_segment list" where
  "parse_segments n [] = Inr []"
| "parse_segments n (part # parts) =
     (if part = ''**'' then
        (if parts \<noteq> [] then Inl (InvalidSegment ''** must be the last segment'')
         else if n + 1 > MAX_WILDCARDS_PER_PATTERN then Inl TooManyWildcards
         else map_sum id (Cons RecursiveWildcard) (parse_segments (n + 1) parts))
      else if part = ''*'' then
        (if n + 1 > MAX_WILDCARDS_PER_PATTERN then Inl TooManyWildcards
         else map_sum id (Cons Wildcard) (parse_segments (n + 1) parts))
      else if part = [] then Inl (InvalidSegment [])
      else if CHR ''*'' \<in> set part \<or> CHR ''?'' \<in> set part \<or> CHR ''['' \<in> set part \<or>
              CHR '']'' \<in> set part then Inl (InvalidSegment part)
      else if \<not> list_all segment_char part then Inl (InvalidSegment part)
      else map_sum id (Cons (Literal part)) (parse_segments n parts))"

definition ref_pattern_parse :: "string \<Rightarrow> pattern_error + ref_pattern" where
  "ref_pattern_parse pattern =
     (if pattern = [] then Inl EmptyPattern
      else if length pattern > MAX_PATTERN_LENGTH then Inl TooLong
      else if \<not> starts_with ''refs/'' pattern then Inl MissingRefsPrefix
      else map_sum id (\<lambda>segs. \<lparr>rp_raw = pattern, rp_segments = segs\<rparr>)
        (parse_segments 0 (split_on (CHR ''/'') pattern)))"

text \<open>The zipped comparison; reaching a recursive wildcard in it panics.\<close>

fun segs_match :: "pattern_segment list \<Rightarrow> string list \<Rightarrow> bool option" where
  "segs_match (Wildcard # ps) (s # ss) = segs_match ps ss"
| "segs_match (Literal l # ps) (s # ss) = (if l = s then segs_match ps ss else Some False)"
| "segs_match (RecursiveWildcard # ps) (s # ss) = None"
| "segs_match ps ss = Some True"

definition ref_matches :: "ref_pattern \<Rightarrow> string \<Rightarrow> bool option" where
  "ref_matches p ref_name =
     (let ref_segments = split_on (CHR ''/'') ref_name; segs = rp_segments p in
      if segs \<noteq> [] \<and> last segs = RecursiveWildcard then
        let prefix_len = length segs - 1 in
        if length ref_segments \<le> prefix_len then Some False
        else segs_match (take prefix_len segs) (take prefix_len ref_segments)
      else if length ref_segments \<noteq> length segs then Some False
      else segs_match segs ref_segments)"

section \<open>Ref updates\<close>

datatype update_kind = Create | FastForward | NonFastForward | Delete

definition ZERO_OID :: string where
  "ZERO_OID = replicate 40 (CHR ''0'')"

definition classify :: "string \<Rightarrow> string \<Rightarrow> bool \<Rightarrow> update_kind" where
  "classify old_oid new_oid is_ancestor =
     (if old_oid = ZERO_OID then Create
      else if new_oid = ZERO_OID then Delete
      else if is_ancestor then FastForward else NonFastForward)"

record ref_update =
  ru_ref_name :: string
  ru_kind :: update_kind
  ru_old_oid :: string
  ru_new_oid :: string

section \<open>Protection tags\<close>

record protection_rule =
  pr_pattern :: ref_pattern
  pr_push_role :: "member_role option"
  pr_no_force_push :: bool
  pr_no_delete :: bool
  pr_require_patch :: bool

datatype rule_parse_error =
    TooFewValues
  | TooManyRules
  | InvalidPattern pattern_error
  | UnknownRule string
  | InvalidRole string

text \<open>The stricter of an optional role seen so far and a new one.\<close>

definition strictest :: "member_role option \<Rightarrow> member_role \<Rightarrow> member_role" where
  "strictest current role =
     (case current of None \<Rightarrow> role
      | Some existing \<Rightarrow> if permission_level role > permission_level existing then role else existing)"

fun parse_rules ::
  "string list \<Rightarrow> protection_rule \<Rightarrow> string list \<Rightarrow> rule_parse_error + protection_rule \<times> string list"
where
  "parse_rules [] rule unknown = Inr (rule, unknown)"
| "parse_rules (rule_str # rest) rule unknown =
     (case strip_prefix ''push:'' rule_str of
        Some role_str \<Rightarrow>
          (case role_from_str role_str of
             None \<Rightarrow> Inl (InvalidRole role_str)
           | Some role \<Rightarrow>
               if role = Bot \<or> role = Guest then Inl (InvalidRole role_str)
               else parse_rules rest
                 (rule\<lparr>pr_push_role := Some (strictest (pr_push_role rule) role)\<rparr>) unknown)
      | None \<Rightarrow>
          if rule_str = ''no-force-push'' then parse_rules rest (rule\<lparr>pr_no_force_push := True\<rparr>) unknown
          else if rule_str = ''no-delete'' then parse_rules rest (rule\<lparr>pr_no_delete := True\<rparr>) unknown
          else if rule_str = ''require-patch'' then parse_rules rest (rule\<lparr>pr_require_patch := True\<rparr>) unknown
          else parse_rules rest rule (unknown @ [rule_str]))"

definition parse_protection_tag_with_warnings ::
  "string list \<Rightarrow> rule_parse_error + protection_rule \<times> string list" where
  "parse_protection_tag_with_warnings values =
     (if length values < 2 then Inl TooFewValues
      else case ref_pattern_parse (hd values) of
        Inl e \<Rightarrow> Inl (InvalidPattern e)
      | Inr pattern \<Rightarrow>
          parse_rules (tl values)
            \<lparr>pr_pattern = pattern, pr_push_role = None, pr_no_force_push = False,
             pr_no_delete = False, pr_require_patch = False\<rparr> [])"

definition parse_protection_tag :: "string list \<Rightarrow> rule_parse_error + protection_rule" where
  "parse_protection_tag values = map_sum id fst (parse_protection_tag_with_warnings values)"

record parsed_protection =
  pp_rules :: "protection_rule list"
  pp_unknown_rules :: "string list"

fun parse_tags_loop ::
  "string list list \<Rightarrow> parsed_protection \<Rightarrow> rule_parse_error + parsed_protection" where
  "parse_tags_loop [] acc = Inr acc"
| "parse_tags_loop (tag # tags) acc =
     (if tag = [] \<or> hd tag \<noteq> ''buzz-protect'' then parse_tags_loop tags acc
      else if length (pp_rules acc) \<ge> MAX_PROTECTION_RULES then Inl TooManyRules
      else case parse_protection_tag_with_warnings (tl tag) of
        Inl e \<Rightarrow> Inl e
      | Inr (rule, unknowns) \<Rightarrow>
          parse_tags_loop tags
            \<lparr>pp_rules = pp_rules acc @ [rule], pp_unknown_rules = pp_unknown_rules acc @ unknowns\<rparr>)"

definition parse_protection_tags :: "string list list \<Rightarrow> rule_parse_error + parsed_protection" where
  "parse_protection_tags tags = parse_tags_loop tags \<lparr>pp_rules = [], pp_unknown_rules = []\<rparr>"

section \<open>Evaluation\<close>

definition default_min_role :: "string \<Rightarrow> update_kind \<Rightarrow> member_role" where
  "default_min_role ref_name kind =
     (let is_branch = starts_with ''refs/heads/'' ref_name;
          is_tag = starts_with ''refs/tags/'' ref_name in
      case kind of
        Create \<Rightarrow> if is_branch \<or> is_tag then Member else Admin
      | FastForward \<Rightarrow> if is_branch then Member else if is_tag then Admin else Admin
      | NonFastForward \<Rightarrow> Admin
      | Delete \<Rightarrow> Admin)"

record effective_rules =
  er_push_role :: "member_role option"
  er_no_force_push :: bool
  er_no_delete :: bool
  er_require_patch :: bool
  er_has_explicit_match :: bool

definition union_rule :: "effective_rules \<Rightarrow> protection_rule \<Rightarrow> effective_rules" where
  "union_rule e rule =
     \<lparr>er_push_role = (case pr_push_role rule of None \<Rightarrow> er_push_role e
        | Some role \<Rightarrow> Some (strictest (er_push_role e) role)),
      er_no_force_push = (er_no_force_push e \<or> pr_no_force_push rule),
      er_no_delete = (er_no_delete e \<or> pr_no_delete rule),
      er_require_patch = (er_require_patch e \<or> pr_require_patch rule),
      er_has_explicit_match = True\<rparr>"

fun for_ref_loop :: "string \<Rightarrow> protection_rule list \<Rightarrow> effective_rules \<Rightarrow> effective_rules option" where
  "for_ref_loop ref_name [] e = Some e"
| "for_ref_loop ref_name (rule # rules) e =
     (case ref_matches (pr_pattern rule) ref_name of
        None \<Rightarrow> None
      | Some False \<Rightarrow> for_ref_loop ref_name rules e
      | Some True \<Rightarrow> for_ref_loop ref_name rules (union_rule e rule))"

definition no_rules :: effective_rules where
  "no_rules =
     \<lparr>er_push_role = None, er_no_force_push = False, er_no_delete = False,
      er_require_patch = False, er_has_explicit_match = False\<rparr>"

definition for_ref :: "string \<Rightarrow> protection_rule list \<Rightarrow> effective_rules option" where
  "for_ref ref_name rules = for_ref_loop ref_name rules no_rules"

record denial =
  dn_ref_name :: string
  dn_reason :: string

definition deny :: "ref_update \<Rightarrow> string \<Rightarrow> denial + unit" where
  "deny update reason = Inl \<lparr>dn_ref_name = ru_ref_name update, dn_reason = reason\<rparr>"

definition decide_update :: "ref_update \<Rightarrow> member_role \<Rightarrow> effective_rules \<Rightarrow> denial + unit" where
  "decide_update update role effective =
     (let default_role = default_min_role (ru_ref_name update) (ru_kind update) in
      if \<not> er_has_explicit_match effective then
        (if \<not> has_at_least role default_role then
           deny update (''requires '' @ role_as_str default_role @ '' role (you have '' @
             role_as_str role @ ''), using built-in defaults'')
         else Inr ())
      else if er_require_patch effective then
        deny update ''direct push denied: require-patch is set, submit a NIP-34 patch''
      else
        let min_role = (case er_push_role effective of
            Some explicit \<Rightarrow>
              if permission_level explicit \<ge> permission_level default_role then explicit else default_role
          | None \<Rightarrow> default_role) in
        if \<not> has_at_least role min_role then
          deny update (''requires '' @ role_as_str min_role @ '' role (you have '' @ role_as_str role @ '')'')
        else if er_no_force_push effective \<and> ru_kind update = NonFastForward then
          deny update ''non-fast-forward update denied: no-force-push is set''
        else if er_no_delete effective \<and> ru_kind update = Delete then
          deny update ''ref deletion denied: no-delete is set''
        else Inr ())"

definition evaluate_ref_update ::
  "ref_update \<Rightarrow> member_role \<Rightarrow> protection_rule list \<Rightarrow> (denial + unit) option" where
  "evaluate_ref_update update role rules =
     map_option (decide_update update role) (for_ref (ru_ref_name update) rules)"

fun collect_denials ::
  "ref_update list \<Rightarrow> member_role \<Rightarrow> protection_rule list \<Rightarrow> denial list option" where
  "collect_denials [] role rules = Some []"
| "collect_denials (u # us) role rules =
     (case evaluate_ref_update u role rules of
        None \<Rightarrow> None
      | Some r \<Rightarrow>
          map_option (\<lambda>ds. (case r of Inl d \<Rightarrow> d # ds | Inr _ \<Rightarrow> ds)) (collect_denials us role rules))"

definition evaluate_push ::
  "ref_update list \<Rightarrow> member_role \<Rightarrow> protection_rule list \<Rightarrow> (denial list + unit) option" where
  "evaluate_push updates role rules =
     map_option (\<lambda>denials. if denials = [] then Inr () else Inl denials)
       (collect_denials updates role rules)"

section \<open>Patterns\<close>

lemma set_butlast_last: "xs \<noteq> [] \<Longrightarrow> x \<in> set xs \<longleftrightarrow> x \<in> set (butlast xs) \<or> x = last xs"
  by (induction xs) auto

text \<open>What a pattern means: its own text, split, against the split ref name.\<close>

definition seg_ok :: "string \<Rightarrow> string \<Rightarrow> bool" where
  "seg_ok p s \<longleftrightarrow> p = ''*'' \<or> p = s"

definition glob_match :: "string list \<Rightarrow> string list \<Rightarrow> bool" where
  "glob_match pat ref =
     (if pat \<noteq> [] \<and> last pat = ''**''
      then length pat \<le> length ref \<and> list_all2 seg_ok (butlast pat) (take (length pat - 1) ref)
      else list_all2 seg_ok pat ref)"

fun segment_of :: "string \<Rightarrow> pattern_segment" where
  "segment_of p = (if p = ''**'' then RecursiveWildcard else if p = ''*'' then Wildcard else Literal p)"

lemma parse_segments_Inr:
  "parse_segments n parts = Inr segs \<Longrightarrow>
   segs = map segment_of parts \<and> (\<forall>p \<in> set (butlast parts). p \<noteq> ''**'') \<and> (\<forall>p \<in> set parts. p \<noteq> [])"
proof (induction n parts arbitrary: segs rule: parse_segments.induct)
  case (2 n part parts)
  consider "part = ''**''" | "part = ''*''" | "part \<noteq> ''**''" "part \<noteq> ''*''" by blast
  then show ?case
  proof cases
    case 1
    then show ?thesis using 2(4) by (auto split: if_splits)
  next
    case s: 2
    then obtain ss where "parse_segments (n + 1) parts = Inr ss" "segs = Wildcard # ss"
      using 2(4) by (cases "parse_segments (n + 1) parts") (auto split: if_splits)
    then show ?thesis using 2(2)[of ss] s 2(4) by (auto split: if_splits)
  next
    case s: 3
    then obtain ss where "parse_segments n parts = Inr ss" "segs = Literal part # ss" "part \<noteq> []"
      using 2(4) by (cases "parse_segments n parts") (auto split: if_splits)
    then show ?thesis using 2(3)[of ss] s 2(4) by (auto split: if_splits)
  qed
qed simp

lemma segs_match_spec:
  "\<forall>p \<in> set parts. p \<noteq> ''**'' \<Longrightarrow> length parts = length ss \<Longrightarrow>
   segs_match (map segment_of parts) ss = Some (list_all2 seg_ok parts ss)"
proof (induction parts arbitrary: ss)
  case (Cons p parts)
  then obtain s ss' where "ss = s # ss'" by (cases ss) auto
  with Cons show ?case by (auto simp: seg_ok_def)
qed simp

lemma ref_pattern_parse_Inr:
  assumes "ref_pattern_parse s = Inr p"
  shows "rp_raw p = s" "rp_segments p = map segment_of (split_on (CHR ''/'') s)"
    "\<forall>x \<in> set (butlast (split_on (CHR ''/'') s)). x \<noteq> ''**''"
proof -
  obtain segs where segs: "parse_segments 0 (split_on (CHR ''/'') s) = Inr segs"
    and p: "p = \<lparr>rp_raw = s, rp_segments = segs\<rparr>"
    using assms by (cases "parse_segments 0 (split_on (CHR ''/'') s)")
      (auto simp: ref_pattern_parse_def split: if_splits)
  show "rp_raw p = s" "rp_segments p = map segment_of (split_on (CHR ''/'') s)"
    "\<forall>x \<in> set (butlast (split_on (CHR ''/'') s)). x \<noteq> ''**''"
    using parse_segments_Inr [OF segs] by (simp_all add: p)
qed

text \<open>
  A pattern that parses never panics in matching, and matches exactly the ref names its text
  describes: literal segments agree, a star stands for one segment, and a final double star
  stands for one or more.
\<close>

theorem parsed_pattern_matches_glob:
  assumes "ref_pattern_parse s = Inr p"
  shows "ref_matches p ref_name =
    Some (glob_match (split_on (CHR ''/'') s) (split_on (CHR ''/'') ref_name))"
proof -
  let ?pat = "split_on (CHR ''/'') s" and ?ref = "split_on (CHR ''/'') ref_name"
  note p = ref_pattern_parse_Inr [OF assms]
  have last: "last (map segment_of ?pat) = segment_of (last ?pat)"
    by (simp add: last_map)
  have len: "length ?pat \<noteq> 0" by simp
  show ?thesis
  proof (cases "last ?pat = ''**''")
    case True
    have t: "take (length ?pat - 1) (map segment_of ?pat) = map segment_of (butlast ?pat)"
      by (simp add: butlast_conv_take take_map)
    have "segs_match (map segment_of (butlast ?pat)) (take (length ?pat - 1) ?ref) =
        Some (list_all2 seg_ok (butlast ?pat) (take (length ?pat - 1) ?ref))"
      if "length ?pat \<le> length ?ref"
      using segs_match_spec [OF p(3), of "take (length ?pat - 1) ?ref"] that by simp
    moreover have "length ?ref \<le> length ?pat - 1 \<longleftrightarrow> \<not> length ?pat \<le> length ?ref"
      using len by linarith
    ultimately show ?thesis
      using True last t by (simp add: ref_matches_def Let_def p(2) glob_match_def)
  next
    case False
    have all: "\<forall>x \<in> set ?pat. x \<noteq> ''**''"
    proof
      fix x assume "x \<in> set ?pat"
      then consider "x \<in> set (butlast ?pat)" | "x = last ?pat"
        using set_butlast_last [OF split_on_nonempty] by metis
      then show "x \<noteq> ''**''"
      proof cases
        case 1
        then show ?thesis by (rule p(3) [rule_format])
      next
        case 2
        show ?thesis unfolding 2 by (rule False)
      qed
    qed
    have l: "segment_of (last ?pat) \<noteq> RecursiveWildcard" using False by simp
    show ?thesis
      using False l last segs_match_spec [OF all, of ?ref]
      by (auto simp: ref_matches_def Let_def p(2) glob_match_def dest: list_all2_lengthD)
  qed
qed

section \<open>Decisions by sets of rules\<close>

text \<open>Rules as parsing produces them: valid patterns, and roles that can push.\<close>

definition rule_ok :: "protection_rule \<Rightarrow> bool" where
  "rule_ok r \<longleftrightarrow>
     (\<exists>s. ref_pattern_parse s = Inr (pr_pattern r)) \<and>
     pr_push_role r \<noteq> Some Bot \<and> pr_push_role r \<noteq> Some Guest"

definition applies :: "string \<Rightarrow> protection_rule \<Rightarrow> bool" where
  "applies ref_name r \<longleftrightarrow> ref_matches (pr_pattern r) ref_name = Some True"

lemma rule_ok_matches: "rule_ok r \<Longrightarrow> \<exists>b. ref_matches (pr_pattern r) ref_name = Some b"
  using parsed_pattern_matches_glob by (auto simp: rule_ok_def)

lemma strictest_le: "strictest c role \<le> x \<longleftrightarrow> role \<le> x \<and> (\<forall>e. c = Some e \<longrightarrow> e \<le> x)"
  by (auto simp: strictest_def less_eq_member_role_def split: option.splits)

lemma for_ref_loop_spec:
  assumes "list_all rule_ok rules"
  shows "\<exists>e'. for_ref_loop ref_name rules e = Some e' \<and>
    (er_has_explicit_match e' \<longleftrightarrow> er_has_explicit_match e \<or> (\<exists>r \<in> set rules. applies ref_name r)) \<and>
    (er_require_patch e' \<longleftrightarrow> er_require_patch e \<or> (\<exists>r \<in> set rules. applies ref_name r \<and> pr_require_patch r)) \<and>
    (er_no_force_push e' \<longleftrightarrow> er_no_force_push e \<or> (\<exists>r \<in> set rules. applies ref_name r \<and> pr_no_force_push r)) \<and>
    (er_no_delete e' \<longleftrightarrow> er_no_delete e \<or> (\<exists>r \<in> set rules. applies ref_name r \<and> pr_no_delete r)) \<and>
    (\<forall>x. (\<forall>p. er_push_role e' = Some p \<longrightarrow> p \<le> x) \<longleftrightarrow>
      (\<forall>p. er_push_role e = Some p \<longrightarrow> p \<le> x) \<and>
      (\<forall>r \<in> set rules. \<forall>p. applies ref_name r \<longrightarrow> pr_push_role r = Some p \<longrightarrow> p \<le> x))"
  using assms
proof (induction rules arbitrary: e)
  case (Cons rule rules)
  obtain b where b: "ref_matches (pr_pattern rule) ref_name = Some b"
    using rule_ok_matches Cons.prems by auto
  show ?case
  proof (cases b)
    case True
    have ap: "applies ref_name rule" using b True by (simp add: applies_def)
    have step: "for_ref_loop ref_name (rule # rules) e = for_ref_loop ref_name rules (union_rule e rule)"
      using b True by simp
    have role: "(\<forall>p. er_push_role (union_rule e rule) = Some p \<longrightarrow> p \<le> x) \<longleftrightarrow>
        (\<forall>p. er_push_role e = Some p \<longrightarrow> p \<le> x) \<and> (\<forall>p. pr_push_role rule = Some p \<longrightarrow> p \<le> x)" for x
      by (auto simp: union_rule_def strictest_le split: option.splits)
    show ?thesis
      unfolding step using Cons.IH [of "union_rule e rule"] Cons.prems ap
      unfolding role by (simp add: union_rule_def)
  next
    case False
    then have "\<not> applies ref_name rule" and "for_ref_loop ref_name (rule # rules) e = for_ref_loop ref_name rules e"
      using b by (simp_all add: applies_def)
    then show ?thesis using Cons.IH [of e] Cons.prems by simp
  qed
qed simp

lemma for_ref_spec:
  assumes "list_all rule_ok rules"
  obtains e where "for_ref ref_name rules = Some e"
    and "er_has_explicit_match e \<longleftrightarrow> (\<exists>r \<in> set rules. applies ref_name r)"
    and "er_require_patch e \<longleftrightarrow> (\<exists>r \<in> set rules. applies ref_name r \<and> pr_require_patch r)"
    and "er_no_force_push e \<longleftrightarrow> (\<exists>r \<in> set rules. applies ref_name r \<and> pr_no_force_push r)"
    and "er_no_delete e \<longleftrightarrow> (\<exists>r \<in> set rules. applies ref_name r \<and> pr_no_delete r)"
    and "\<And>x. (\<forall>p. er_push_role e = Some p \<longrightarrow> p \<le> x) \<longleftrightarrow>
      (\<forall>r \<in> set rules. \<forall>p. applies ref_name r \<longrightarrow> pr_push_role r = Some p \<longrightarrow> p \<le> x)"
proof -
  have n: "\<not> er_has_explicit_match no_rules" "\<not> er_require_patch no_rules"
    "\<not> er_no_force_push no_rules" "\<not> er_no_delete no_rules" "er_push_role no_rules \<noteq> Some p" for p
    by (simp_all add: no_rules_def)
  show ?thesis
    using for_ref_loop_spec [OF assms, of ref_name no_rules]
    apply (elim exE conjE)
    subgoal for e
      by (rule that [of e]) (simp_all only: for_ref_def n simp_thms)
    done
qed

text \<open>The update is allowed.\<close>

definition allowed :: "ref_update \<Rightarrow> member_role \<Rightarrow> protection_rule list \<Rightarrow> bool" where
  "allowed update role rules \<longleftrightarrow> evaluate_ref_update update role rules = Some (Inr ())"

text \<open>
  C20: For parsed rules the evaluation always returns, and allows an update exactly when the role
  reaches the built-in default of the ref and update kind, no matching rule requires a patch,
  the role reaches the push role of every matching rule, and no matching rule forbids the
  force push or the deletion. The order and multiplicity of the rules do not matter.
\<close>

theorem update_allowed_iff:
  fixes update :: ref_update and rules :: "protection_rule list"
  assumes "list_all rule_ok rules"
  defines "M \<equiv> {r \<in> set rules. applies (ru_ref_name update) r}"
  shows "(evaluate_ref_update update role rules \<noteq> None) \<and>
    (allowed update role rules \<longleftrightarrow>
       default_min_role (ru_ref_name update) (ru_kind update) \<le> role \<and>
       (\<forall>r \<in> M. \<not> pr_require_patch r \<and> (\<forall>p. pr_push_role r = Some p \<longrightarrow> p \<le> role) \<and>
          \<not> (pr_no_force_push r \<and> ru_kind update = NonFastForward) \<and>
          \<not> (pr_no_delete r \<and> ru_kind update = Delete)))"
proof -
  let ?d = "default_min_role (ru_ref_name update) (ru_kind update)"
  obtain e where e: "for_ref (ru_ref_name update) rules = Some e"
    and match: "er_has_explicit_match e \<longleftrightarrow> (\<exists>r \<in> set rules. applies (ru_ref_name update) r)"
    and patch: "er_require_patch e \<longleftrightarrow>
      (\<exists>r \<in> set rules. applies (ru_ref_name update) r \<and> pr_require_patch r)"
    and force: "er_no_force_push e \<longleftrightarrow>
      (\<exists>r \<in> set rules. applies (ru_ref_name update) r \<and> pr_no_force_push r)"
    and del: "er_no_delete e \<longleftrightarrow> (\<exists>r \<in> set rules. applies (ru_ref_name update) r \<and> pr_no_delete r)"
    and role: "\<And>x. (\<forall>p. er_push_role e = Some p \<longrightarrow> p \<le> x) \<longleftrightarrow>
      (\<forall>r \<in> set rules. \<forall>p. applies (ru_ref_name update) r \<longrightarrow> pr_push_role r = Some p \<longrightarrow> p \<le> x)"
    by (rule for_ref_spec [OF assms(1), of "ru_ref_name update"]) (rule that; assumption)
  have min: "has_at_least role (case er_push_role e of
        Some explicit \<Rightarrow> if permission_level explicit \<ge> permission_level ?d then explicit else ?d
      | None \<Rightarrow> ?d) \<longleftrightarrow> ?d \<le> role \<and> (\<forall>p. er_push_role e = Some p \<longrightarrow> p \<le> role)"
    by (cases "er_push_role e") (auto simp: has_at_least_le less_eq_member_role_def)
  have "decide_update update role e = Inr () \<longleftrightarrow>
      ?d \<le> role \<and> (er_has_explicit_match e \<longrightarrow> \<not> er_require_patch e \<and>
        (\<forall>p. er_push_role e = Some p \<longrightarrow> p \<le> role) \<and>
        \<not> (er_no_force_push e \<and> ru_kind update = NonFastForward) \<and>
        \<not> (er_no_delete e \<and> ru_kind update = Delete))"
    using min by (auto simp: decide_update_def Let_def deny_def has_at_least_le)
  then show ?thesis
    unfolding allowed_def evaluate_ref_update_def e match patch force del role M_def by auto
qed

text \<open>
  Adding protection rules never allows more, whatever their order, and a higher role is never
  allowed less.
\<close>

theorem permissions_monotone:
  assumes "list_all rule_ok rules'" and "set rules \<subseteq> set rules'"
    and "permission_level role' \<le> permission_level role" and "allowed update role' rules'"
  shows "allowed update role rules"
proof -
  have ok: "list_all rule_ok rules" using assms(1,2) by (auto simp: list_all_iff)
  have le: "role' \<le> role" using assms(3) by (simp add: less_eq_member_role_def)
  show ?thesis
    using assms(2,4) le unfolding update_allowed_iff [OF ok, THEN conjunct2]
      update_allowed_iff [OF assms(1), THEN conjunct2]
    by (auto intro: order_trans)
qed

section \<open>Parsed rules and whole pushes\<close>

lemma parse_rules_ok:
  "parse_rules strs rule unknown = Inr (rule', unknown') \<Longrightarrow> rule_ok rule \<Longrightarrow> rule_ok rule'"
proof (induction strs rule unknown rule: parse_rules.induct)
  case (2 rule_str rest rule unknown)
  have role_ok: "rule_ok (rule\<lparr>pr_push_role := Some (strictest (pr_push_role rule) role)\<rparr>)"
    if "role \<noteq> Bot" "role \<noteq> Guest" for role
    using 2(7) that by (auto simp: rule_ok_def strictest_def split: option.splits)
  have flag_ok: "rule_ok (rule\<lparr>pr_no_force_push := True\<rparr>)" "rule_ok (rule\<lparr>pr_no_delete := True\<rparr>)"
    "rule_ok (rule\<lparr>pr_require_patch := True\<rparr>)"
    using 2(7) by (simp_all add: rule_ok_def)
  show ?case
    using 2 role_ok flag_ok by (auto split: option.splits if_splits)
qed simp

lemma parse_tag_ok:
  "parse_protection_tag_with_warnings values = Inr (rule, unknown) \<Longrightarrow> rule_ok rule"
  unfolding parse_protection_tag_with_warnings_def
  by (auto split: if_splits sum.splits dest!: parse_rules_ok simp: rule_ok_def)

definition is_protect_tag :: "string list \<Rightarrow> bool" where
  "is_protect_tag tag \<longleftrightarrow> tag \<noteq> [] \<and> hd tag = ''buzz-protect''"

lemma parse_tags_loop_ok:
  "parse_tags_loop tags acc = Inr pp \<Longrightarrow> list_all rule_ok (pp_rules acc) \<Longrightarrow>
   length (pp_rules acc) \<le> MAX_PROTECTION_RULES \<Longrightarrow>
   list_all rule_ok (pp_rules pp) \<and> length (pp_rules pp) \<le> MAX_PROTECTION_RULES \<and>
   length (pp_rules pp) = length (pp_rules acc) + length (filter is_protect_tag tags)"
proof (induction tags acc rule: parse_tags_loop.induct)
  case (2 tag tags acc)
  show ?case
  proof (cases "is_protect_tag tag")
    case False
    then show ?thesis using 2 by (auto simp: is_protect_tag_def)
  next
    case True
    then obtain rule unknown where
      p: "parse_protection_tag_with_warnings (tl tag) = Inr (rule, unknown)" and
      l: "length (pp_rules acc) < MAX_PROTECTION_RULES"
      using 2(3) by (auto simp: is_protect_tag_def split: if_splits sum.splits)
    let ?acc = "\<lparr>pp_rules = pp_rules acc @ [rule], pp_unknown_rules = pp_unknown_rules acc @ unknown\<rparr>"
    have "parse_tags_loop tags ?acc = Inr pp"
      using 2(3) p l True by (simp add: is_protect_tag_def)
    moreover have "rule_ok rule" using parse_tag_ok [OF p] .
    ultimately show ?thesis
      using 2(2)[of "(rule, unknown)" rule unknown] 2(4) True l p by (auto simp: is_protect_tag_def)
  qed
qed simp

text \<open>
  Parsing accepts at most fifty protection tags and drops none: there is one rule per
  \<open>buzz-protect\<close> tag, each with a pattern that parsed and a push role that can push.
\<close>

theorem parsed_rules_complete:
  assumes "parse_protection_tags tags = Inr pp"
  shows "list_all rule_ok (pp_rules pp) \<and> length (pp_rules pp) \<le> MAX_PROTECTION_RULES \<and>
    length (pp_rules pp) = length (filter is_protect_tag tags)"
  using parse_tags_loop_ok [of tags "\<lparr>pp_rules = [], pp_unknown_rules = []\<rparr>" pp] assms
  by (simp add: parse_protection_tags_def)

lemma parsed_rules_ok: "parse_protection_tags tags = Inr pp \<Longrightarrow> list_all rule_ok (pp_rules pp)"
  using parse_tags_loop_ok [of tags "\<lparr>pp_rules = [], pp_unknown_rules = []\<rparr>" pp]
  by (simp add: parse_protection_tags_def)

lemma update_decided:
  assumes "list_all rule_ok rules"
  shows "\<exists>r. evaluate_ref_update u role rules = Some r \<and> (allowed u role rules \<longleftrightarrow> (\<exists>x. r = Inr x)) \<and>
    (\<forall>d. r = Inl d \<longrightarrow> dn_ref_name d = ru_ref_name u)"
proof -
  obtain e where "for_ref (ru_ref_name u) rules = Some e"
    using for_ref_spec [OF assms] by metis
  then show ?thesis
    by (auto simp: evaluate_ref_update_def allowed_def decide_update_def deny_def Let_def
        split: if_splits)
qed

lemma collect_denials_spec:
  assumes "list_all rule_ok rules"
  shows "\<exists>ds. collect_denials us role rules = Some ds \<and>
    map dn_ref_name ds = map ru_ref_name (filter (\<lambda>u. \<not> allowed u role rules) us)"
proof (induction us)
  case (Cons u us)
  obtain r where r: "evaluate_ref_update u role rules = Some r"
    "allowed u role rules \<longleftrightarrow> (\<exists>x. r = Inr x)" "\<forall>d. r = Inl d \<longrightarrow> dn_ref_name d = ru_ref_name u"
    using update_decided [OF assms] by blast
  with Cons show ?case by (cases r) auto
qed simp

lemma evaluate_push_cases:
  assumes "list_all rule_ok rules"
  obtains "\<forall>u \<in> set us. allowed u role rules" "evaluate_push us role rules = Some (Inr ())"
  | ds where "\<not> (\<forall>u \<in> set us. allowed u role rules)" "evaluate_push us role rules = Some (Inl ds)"
      "map dn_ref_name ds = map ru_ref_name (filter (\<lambda>u. \<not> allowed u role rules) us)"
proof -
  obtain ds where ds: "collect_denials us role rules = Some ds"
    "map dn_ref_name ds = map ru_ref_name (filter (\<lambda>u. \<not> allowed u role rules) us)"
    using collect_denials_spec [OF assms] by blast
  have e: "evaluate_push us role rules = Some (if ds = [] then Inr () else Inl ds)"
    by (simp add: evaluate_push_def ds(1))
  have "ds = [] \<longleftrightarrow> map dn_ref_name ds = []" by simp
  also have "\<dots> \<longleftrightarrow> filter (\<lambda>u. \<not> allowed u role rules) us = []" by (simp only: ds(2) map_is_Nil_conv)
  also have "\<dots> \<longleftrightarrow> (\<forall>u \<in> set us. allowed u role rules)" by (simp add: filter_empty_conv)
  finally have d: "ds = [] \<longleftrightarrow> (\<forall>u \<in> set us. allowed u role rules)" .
  show ?thesis
  proof (cases "ds = []")
    case True
    then show ?thesis using that(1) d e by simp
  next
    case False
    then have "evaluate_push us role rules = Some (Inl ds)" using e by simp
    then show ?thesis using that(2) False d ds(2) by metis
  qed
qed

text \<open>
  A push is atomic. It is allowed exactly when every ref update is; otherwise the whole push
  is denied with one reason per denied ref, in the order of the updates.
\<close>

theorem push_is_atomic:
  assumes "list_all rule_ok rules"
  shows "if \<forall>u. u \<in> set us \<longrightarrow> allowed u role rules
    then evaluate_push us role rules = Some (Inr ())
    else \<exists>ds. evaluate_push us role rules = Some (Inl ds) \<and>
      map dn_ref_name ds = map ru_ref_name (filter (\<lambda>u. \<not> allowed u role rules) us)"
  by (rule evaluate_push_cases [OF assms, of us role]) auto

section \<open>Concrete rules\<close>

definition main_rules :: "protection_rule list" where
  "main_rules = (case parse_protection_tags
       [[''d'', ''repo''],
        [''buzz-protect'', ''refs/heads/main'', ''push:admin'', ''no-force-push''],
        [''buzz-protect'', ''refs/tags/**'', ''no-delete'', ''new-rule'']] of
     Inl _ \<Rightarrow> [] | Inr pp \<Rightarrow> pp_rules pp)"

definition main_push :: ref_update where
  "main_push = \<lparr>ru_ref_name = ''refs/heads/main'', ru_kind = FastForward,
                ru_old_oid = ''1'', ru_new_oid = ''2''\<rparr>"

lemma main_rules_ok: "list_all rule_ok main_rules"
  by (auto simp: main_rules_def split: sum.splits dest: parsed_rules_ok)

lemma parsed_pattern_matches_glob_witness:
  "ref_matches \<lparr>rp_raw = ''refs/*'', rp_segments = [Literal ''refs'', Wildcard]\<rparr> ''refs/x'' =
     Some (glob_match [''refs'', ''*''] [''refs'', ''x''])"
proof -
  have "ref_pattern_parse ''refs/*'' = Inr \<lparr>rp_raw = ''refs/*'', rp_segments = [Literal ''refs'', Wildcard]\<rparr>"
    by code_simp
  from parsed_pattern_matches_glob [OF this, of "''refs/x''"] show ?thesis by simp
qed

lemma update_allowed_iff_witness:
  "evaluate_ref_update main_push Admin main_rules \<noteq> None"
  using update_allowed_iff [OF main_rules_ok] by blast

lemma permissions_monotone_witness: "allowed main_push Owner [hd main_rules]"
proof (rule permissions_monotone [OF main_rules_ok])
  show "set [hd main_rules] \<subseteq> set main_rules" by code_simp
  show "permission_level Admin \<le> permission_level Owner" by code_simp
  show "allowed main_push Admin main_rules" by code_simp
qed

lemma parsed_rules_complete_witness: "length main_rules = 2"
proof -
  let ?tags = "[[''d'', ''repo''],
        [''buzz-protect'', ''refs/heads/main'', ''push:admin'', ''no-force-push''],
        [''buzz-protect'', ''refs/tags/**'', ''no-delete'', ''new-rule'']]"
  have "\<not> isl (parse_protection_tags ?tags)" by code_simp
  then obtain pp where pp: "parse_protection_tags ?tags = Inr pp"
    by (cases "parse_protection_tags ?tags") auto
  then show ?thesis
    using parsed_rules_complete [OF pp] by (simp add: main_rules_def is_protect_tag_def)
qed

lemma push_is_atomic_witness:
  "\<exists>ds. evaluate_push [main_push] Member main_rules = Some (Inl ds) \<and>
     map dn_ref_name ds = [''refs/heads/main'']"
proof -
  have "\<not> allowed main_push Member main_rules" by code_simp
  then show ?thesis
    using push_is_atomic [OF main_rules_ok, of "[main_push]" Member]
    by (simp add: main_push_def split: if_splits)
qed

end
