(* ===== verification/GitPolicy.thy ===== *)
theory GitPolicy
  imports GitPerms Kinds "HOL-Library.Char_ord" "HOL-Library.List_Lexorder"
begin

text \<open>
  The pre-receive policy endpoint of the relay, from
  \<open>crates/buzz-relay/src/api/git/policy.rs\<close>, and the channel binding of a repository, from
  \<open>binding.rs\<close> beside it.

  \<^item> What the endpoint calls outside the repository is a parameter: \<open>policy_env\<close> has the HMAC,
    the hex decoder and the UUID parser. The database queries are the functions of
    \<open>policy_db\<close>; a query that fails is \<open>Inl ()\<close>. Keys and the owner's bytes are their hex text.
  \<^item> \<open>hook_policy_check\<close> is the handler with every early return in its order. Every
    \<open>FORBIDDEN\<close> reply carries its body; \<open>None\<close> is a panic, which is shown not to happen.
  \<^item> \<open>canonical_payload\<close> is the byte string that is signed.
\<close>

section \<open>Channel binding\<close>

datatype repo_binding = NotBound | Bound uuid | Broken

definition resolve_repo_binding :: "(string \<Rightarrow> uuid option) \<Rightarrow> nostr_event \<Rightarrow> repo_binding" where
  "resolve_repo_binding uuid_parse ev =
     (case find (\<lambda>t. t \<noteq> [] \<and> hd t = ''buzz-channel'') (ev_tags ev) of
        None \<Rightarrow> NotBound
      | Some first \<Rightarrow>
          (case first of
             _ # v # _ \<Rightarrow> (case uuid_parse v of Some i \<Rightarrow> Bound i | None \<Rightarrow> Broken)
           | _ \<Rightarrow> Broken))"

section \<open>The callback\<close>

definition MAX_CALLBACK_AGE_SECS :: nat where "MAX_CALLBACK_AGE_SECS = 30"

definition GIT_NO_CHANNEL_BINDING_BODY :: string where
  "GIT_NO_CHANNEL_BINDING_BODY = ''no_channel_binding: repository has no channel binding''"

record hook_ref_update =
  hr_old_oid :: string
  hr_new_oid :: string
  hr_ref_name :: string
  hr_is_ancestor :: bool

record hook_request =
  hq_repo_id :: string
  hq_repo_owner :: string
  hq_community_id :: string
  hq_pusher_pubkey :: string
  hq_ref_updates :: "hook_ref_update list"
  hq_timestamp :: nat
  hq_signature :: string

definition ref_payload :: "hook_ref_update \<Rightarrow> string" where
  "ref_payload r =
     hr_old_oid r @ hr_new_oid r @ decimal (length (hr_ref_name r)) @ '':'' @ hr_ref_name r @
     (if hr_is_ancestor r then ''1'' else ''0'')"

definition canonical_payload :: "hook_request \<Rightarrow> string" where
  "canonical_payload req =
     decimal (length (hq_repo_id req)) @ '':'' @ hq_repo_id req @ ''|'' @ hq_repo_owner req @ ''|'' @
     hq_community_id req @ ''|'' @ hq_pusher_pubkey req @ ''|'' @
     concat (map ref_payload (sort_key hr_ref_name (hq_ref_updates req))) @ ''|'' @
     decimal (hq_timestamp req)"

record policy_env =
  pe_hmac :: "string \<Rightarrow> string \<Rightarrow> string"
  pe_hex_decode :: "string \<Rightarrow> string option"
  pe_uuid_parse :: "string \<Rightarrow> uuid option"

definition verify_hmac :: "policy_env \<Rightarrow> string \<Rightarrow> hook_request \<Rightarrow> bool" where
  "verify_hmac env secret req =
     (case pe_hex_decode env (hq_signature req) of
        None \<Rightarrow> False
      | Some provided \<Rightarrow> pe_hmac env secret (canonical_payload req) = provided)"

record policy_db =
  pd_repo_event :: "uuid \<Rightarrow> string \<Rightarrow> string \<Rightarrow> unit + nostr_event option"
  pd_channel_archived :: "uuid \<Rightarrow> uuid \<Rightarrow> unit + bool"
  pd_is_agent_owner :: "uuid \<Rightarrow> string \<Rightarrow> string \<Rightarrow> unit + bool"
  pd_member_role :: "uuid \<Rightarrow> uuid \<Rightarrow> string \<Rightarrow> unit + string option"

datatype policy_response = Forbidden string | Denied "denial list" | Allowed

fun contains_str :: "string \<Rightarrow> string \<Rightarrow> bool" where
  "contains_str p [] \<longleftrightarrow> p = []"
| "contains_str p (c # cs) \<longleftrightarrow> starts_with p (c # cs) \<or> contains_str p cs"

definition oid_ok :: "string \<Rightarrow> bool" where
  "oid_ok s \<longleftrightarrow> length s = 40 \<and> list_all is_ascii_hexdigit s"

definition ref_name_ok :: "string \<Rightarrow> bool" where
  "ref_name_ok s \<longleftrightarrow>
     s \<noteq> [] \<and> length s \<le> 256 \<and> starts_with ''refs/'' s \<and> \<not> contains_str ''..'' s \<and>
     \<not> list_ex (\<lambda>b. code_of b \<le> 32 \<or> code_of b = 127) s"

text \<open>The checks on one ref update after the other, each with its own reply.\<close>

fun check_refs :: "hook_ref_update list \<Rightarrow> string option" where
  "check_refs [] = None"
| "check_refs (r # rs) =
     (if \<not> oid_ok (hr_old_oid r) then Some ''invalid old_oid''
      else if \<not> oid_ok (hr_new_oid r) then Some ''invalid new_oid''
      else if \<not> ref_name_ok (hr_ref_name r) then Some ''invalid ref_name''
      else check_refs rs)"

definition check_request :: "policy_env \<Rightarrow> hook_request \<Rightarrow> string + uuid" where
  "check_request env req =
     (if hq_repo_id req = [] \<or> length (hq_repo_id req) > 64 then Inl ''invalid repo_id''
      else if \<not> is_lower_hex 64 (hq_repo_owner req) then Inl ''invalid repo_owner''
      else if \<not> is_lower_hex 64 (hq_pusher_pubkey req) then Inl ''invalid pusher_pubkey''
      else case pe_uuid_parse env (hq_community_id req) of
        None \<Rightarrow> Inl ''invalid community_id''
      | Some community \<Rightarrow>
          if hq_ref_updates req = [] \<or> length (hq_ref_updates req) > 500
          then Inl ''invalid ref_updates count''
          else case check_refs (hq_ref_updates req) of
            Some body \<Rightarrow> Inl body
          | None \<Rightarrow> Inr community)"

text \<open>Steps 7 and 8: the pusher's role, and bots pushing as members.\<close>

definition member_push_role ::
  "policy_db \<Rightarrow> uuid \<Rightarrow> uuid option \<Rightarrow> string \<Rightarrow> string + member_role" where
  "member_push_role db community channel pusher =
     (case channel of
        None \<Rightarrow> Inl GIT_NO_CHANNEL_BINDING_BODY
      | Some ch \<Rightarrow>
          (case pd_member_role db community ch pusher of
             Inl _ \<Rightarrow> Inl ''internal error''
           | Inr None \<Rightarrow> Inl ''not a channel member''
           | Inr (Some role_str) \<Rightarrow>
               (case role_from_str role_str of
                  None \<Rightarrow> Inl ''internal error''
                | Some role \<Rightarrow> Inr role)))"

definition resolve_push_role ::
  "policy_db \<Rightarrow> uuid \<Rightarrow> uuid option \<Rightarrow> nostr_event \<Rightarrow> hook_request \<Rightarrow> string + member_role" where
  "resolve_push_role db community channel ev req =
     (let is_repo_owner = (hq_pusher_pubkey req = ev_pubkey ev) in
      if is_repo_owner then Inr Owner
      else case pd_is_agent_owner db community (hq_repo_owner req) (hq_pusher_pubkey req) of
        Inl _ \<Rightarrow> Inl ''internal error''
      | Inr True \<Rightarrow> Inr Owner
      | Inr False \<Rightarrow> member_push_role db community channel (hq_pusher_pubkey req))"

definition effective_git_role :: "member_role \<Rightarrow> member_role" where
  "effective_git_role role = (if role = Bot then Member else role)"

definition to_ref_update :: "hook_ref_update \<Rightarrow> ref_update" where
  "to_ref_update r =
     \<lparr>ru_ref_name = hr_ref_name r,
      ru_kind = classify (hr_old_oid r) (hr_new_oid r) (hr_is_ancestor r),
      ru_old_oid = hr_old_oid r, ru_new_oid = hr_new_oid r\<rparr>"

text \<open>Steps 6 to 9 of the handler, once the repository event and its rules are known.\<close>

definition channel_of_binding :: "repo_binding \<Rightarrow> uuid option" where
  "channel_of_binding b = (case b of Bound i \<Rightarrow> Some i | _ \<Rightarrow> None)"

definition channel_gate :: "policy_db \<Rightarrow> uuid \<Rightarrow> uuid option \<Rightarrow> string option" where
  "channel_gate db community channel =
     (case channel of
        None \<Rightarrow> None
      | Some ch \<Rightarrow>
          (case pd_channel_archived db community ch of
             Inr True \<Rightarrow> Some ''channel is archived (read-only)''
           | Inl _ \<Rightarrow> Some ''internal error''
           | Inr False \<Rightarrow> None))"

definition authorize_push ::
  "policy_env \<Rightarrow> policy_db \<Rightarrow> uuid \<Rightarrow> nostr_event \<Rightarrow> protection_rule list \<Rightarrow> hook_request \<Rightarrow>
   policy_response option" where
  "authorize_push env db community ev rules req =
     (let binding = resolve_repo_binding (pe_uuid_parse env) ev; channel = channel_of_binding binding in
      if binding = Broken then Some (Forbidden ''invalid channel binding'')
      else case channel_gate db community channel of
        Some body \<Rightarrow> Some (Forbidden body)
      | None \<Rightarrow>
          (case resolve_push_role db community channel ev req of
             Inl body \<Rightarrow> Some (Forbidden body)
           | Inr role \<Rightarrow>
               map_option (\<lambda>r. (case r of Inr _ \<Rightarrow> Allowed | Inl denials \<Rightarrow> Denied denials))
                 (evaluate_push (map to_ref_update (hq_ref_updates req)) (effective_git_role role) rules)))"

definition hook_policy_check ::
  "policy_env \<Rightarrow> policy_db \<Rightarrow> string \<Rightarrow> nat \<Rightarrow> hook_request \<Rightarrow> policy_response option" where
  "hook_policy_check env db secret now req =
     (case check_request env req of
        Inl body \<Rightarrow> Some (Forbidden body)
      | Inr community \<Rightarrow>
          if \<not> verify_hmac env secret req then Some (Forbidden ''signature verification failed'')
          else if now - hq_timestamp req > MAX_CALLBACK_AGE_SECS then Some (Forbidden ''callback expired'')
          else if hq_timestamp req - now > 5 then Some (Forbidden ''callback timestamp invalid'')
          else case pd_repo_event db community (hq_repo_owner req) (hq_repo_id req) of
            Inl _ \<Rightarrow> Some (Forbidden ''internal error'')
          | Inr None \<Rightarrow> Some (Forbidden ''repository not found'')
          | Inr (Some ev) \<Rightarrow>
              (case parse_protection_tags (ev_tags ev) of
                 Inl _ \<Rightarrow> Some (Forbidden ''malformed protection rules'')
               | Inr parsed \<Rightarrow> authorize_push env db community ev (pp_rules parsed) req))"

section \<open>Authorisation\<close>

text \<open>Who may push as what: the facts the endpoint has to establish before it allows a push.\<close>

definition role_source ::
  "policy_db \<Rightarrow> uuid \<Rightarrow> uuid option \<Rightarrow> nostr_event \<Rightarrow> hook_request \<Rightarrow> member_role \<Rightarrow> bool" where
  "role_source db community channel ev req role \<longleftrightarrow>
     (role = Owner \<and>
      (hq_pusher_pubkey req = ev_pubkey ev \<or>
       pd_is_agent_owner db community (hq_repo_owner req) (hq_pusher_pubkey req) = Inr True)) \<or>
     (\<exists>ch s. channel = Some ch \<and> pd_member_role db community ch (hq_pusher_pubkey req) = Inr (Some s) \<and>
        role_from_str s = Some role)"

lemma resolve_push_role_source:
  "resolve_push_role db community channel ev req = Inr role \<Longrightarrow>
   role_source db community channel ev req role"
  by (auto simp: resolve_push_role_def member_push_role_def role_source_def Let_def
      split: if_splits sum.splits bool.splits option.splits)

lemma authorize_push_allowed:
  assumes "list_all rule_ok rules"
  shows "\<exists>r. authorize_push env db community ev rules req = Some r \<and>
    (r = Allowed \<longleftrightarrow>
       resolve_repo_binding (pe_uuid_parse env) ev \<noteq> Broken \<and>
       channel_gate db community (channel_of_binding (resolve_repo_binding (pe_uuid_parse env) ev)) = None \<and>
       (\<exists>role. resolve_push_role db community
            (channel_of_binding (resolve_repo_binding (pe_uuid_parse env) ev)) ev req = Inr role \<and>
          (\<forall>u \<in> set (hq_ref_updates req). allowed (to_ref_update u) (effective_git_role role) rules)))"
proof (cases "resolve_push_role db community
    (channel_of_binding (resolve_repo_binding (pe_uuid_parse env) ev)) ev req")
  case (Inl body)
  then show ?thesis by (auto simp: authorize_push_def Let_def split: option.splits)
next
  case (Inr role)
  show ?thesis
    by (rule evaluate_push_cases [OF assms, of "map to_ref_update (hq_ref_updates req)" "effective_git_role role"])
      (auto simp: authorize_push_def Let_def Inr split: option.splits)
qed

text \<open>Either some check denies, or the decision is the one of the last steps.\<close>

lemma hook_policy_check_cases:
  obtains body where "hook_policy_check env db secret now req = Some (Forbidden body)"
  | community ev pp where "check_request env req = Inr community" "verify_hmac env secret req"
      "\<not> now - hq_timestamp req > MAX_CALLBACK_AGE_SECS" "\<not> hq_timestamp req - now > 5"
      "pd_repo_event db community (hq_repo_owner req) (hq_repo_id req) = Inr (Some ev)"
      "parse_protection_tags (ev_tags ev) = Inr pp"
      "hook_policy_check env db secret now req = authorize_push env db community ev (pp_rules pp) req"
proof (cases "check_request env req")
  case (Inl body)
  then show ?thesis using that(1) by (simp add: hook_policy_check_def)
next
  case c: (Inr community)
  show ?thesis
  proof (cases "verify_hmac env secret req \<and> \<not> now - hq_timestamp req > MAX_CALLBACK_AGE_SECS \<and>
      \<not> hq_timestamp req - now > 5")
    case False
    then have "\<exists>body. hook_policy_check env db secret now req = Some (Forbidden body)"
      by (auto simp: hook_policy_check_def c)
    then show ?thesis using that(1) by blast
  next
    case v: True
    show ?thesis
    proof (cases "pd_repo_event db community (hq_repo_owner req) (hq_repo_id req)")
      case (Inl e)
      then show ?thesis using that(1) v by (simp add: hook_policy_check_def c)
    next
      case q: (Inr r)
      show ?thesis
      proof (cases r)
        case None
        then show ?thesis using that(1) v q by (simp add: hook_policy_check_def c)
      next
        case (Some ev)
        show ?thesis
        proof (cases "parse_protection_tags (ev_tags ev)")
          case (Inl e)
          then show ?thesis using that(1) v q Some by (simp add: hook_policy_check_def c)
        next
          case (Inr pp)
          then show ?thesis using that(2) v q Some by (simp add: hook_policy_check_def c)
        qed
      qed
    qed
  qed
qed

text \<open>
  C13: The endpoint always answers, and it allows a push only when the request is well formed, its
  signature and age hold, the repository exists, its protection tags parse, its channel binding
  is not broken and its channel not archived, the pusher is the owner, a verified owner of the
  owning agent, or a member of the bound channel, and every single ref update is allowed to that
  role (bots counting as members). Every failed lookup denies.
\<close>

theorem allowed_push_is_authorised:
  "hook_policy_check env db secret now req \<noteq> None \<and>
   (hook_policy_check env db secret now req = Some Allowed \<longrightarrow>
    (\<exists>community ev pp channel role.
       check_request env req = Inr community \<and> verify_hmac env secret req \<and>
       now \<le> hq_timestamp req + 30 \<and> hq_timestamp req \<le> now + 5 \<and>
       pd_repo_event db community (hq_repo_owner req) (hq_repo_id req) = Inr (Some ev) \<and>
       parse_protection_tags (ev_tags ev) = Inr pp \<and>
       resolve_repo_binding (pe_uuid_parse env) ev = (case channel of None \<Rightarrow> NotBound | Some ch \<Rightarrow> Bound ch) \<and>
       (\<forall>ch. channel = Some ch \<longrightarrow> pd_channel_archived db community ch = Inr False) \<and>
       role_source db community channel ev req role \<and>
       (\<forall>u \<in> set (hq_ref_updates req).
          allowed (to_ref_update u) (effective_git_role role) (pp_rules pp))))"
proof (rule hook_policy_check_cases [of env db secret now req])
  fix body
  assume "hook_policy_check env db secret now req = Some (Forbidden body)"
  then show ?thesis by simp
next
  fix community ev pp
  assume h: "check_request env req = Inr community" "verify_hmac env secret req"
    "\<not> now - hq_timestamp req > MAX_CALLBACK_AGE_SECS" "\<not> hq_timestamp req - now > 5"
    "pd_repo_event db community (hq_repo_owner req) (hq_repo_id req) = Inr (Some ev)"
    "parse_protection_tags (ev_tags ev) = Inr pp"
    and eq: "hook_policy_check env db secret now req = authorize_push env db community ev (pp_rules pp) req"
  let ?b = "resolve_repo_binding (pe_uuid_parse env) ev"
  obtain r where r: "authorize_push env db community ev (pp_rules pp) req = Some r"
    "r = Allowed \<longleftrightarrow> ?b \<noteq> Broken \<and> channel_gate db community (channel_of_binding ?b) = None \<and>
       (\<exists>role. resolve_push_role db community (channel_of_binding ?b) ev req = Inr role \<and>
          (\<forall>u \<in> set (hq_ref_updates req). allowed (to_ref_update u) (effective_git_role role) (pp_rules pp)))"
    using authorize_push_allowed [OF parsed_rules_ok [OF h(6)]] by blast
  have times: "now \<le> hq_timestamp req + 30" "hq_timestamp req \<le> now + 5"
    using h(3,4) by (simp_all add: MAX_CALLBACK_AGE_SECS_def)
  have "\<exists>channel role. ?b = (case channel of None \<Rightarrow> NotBound | Some ch \<Rightarrow> Bound ch) \<and>
      (\<forall>ch. channel = Some ch \<longrightarrow> pd_channel_archived db community ch = Inr False) \<and>
      role_source db community channel ev req role \<and>
      (\<forall>u \<in> set (hq_ref_updates req). allowed (to_ref_update u) (effective_git_role role) (pp_rules pp))"
    if "r = Allowed"
  proof -
    from that r(2) obtain role where g: "?b \<noteq> Broken" "channel_gate db community (channel_of_binding ?b) = None"
      "resolve_push_role db community (channel_of_binding ?b) ev req = Inr role"
      "\<forall>u \<in> set (hq_ref_updates req). allowed (to_ref_update u) (effective_git_role role) (pp_rules pp)"
      by blast
    then show ?thesis
      using resolve_push_role_source [OF g(3)]
      by (intro exI [of _ "channel_of_binding ?b"] exI [of _ role])
        (auto simp: channel_of_binding_def channel_gate_def split: repo_binding.splits sum.splits bool.splits)
  qed
  note ex = this
  show ?thesis
    unfolding eq r(1)
  proof (intro conjI impI)
    show "Some r \<noteq> None" by simp
    assume "Some r = Some Allowed"
    then obtain channel role where c: "?b = (case channel of None \<Rightarrow> NotBound | Some ch \<Rightarrow> Bound ch)"
      "\<forall>ch. channel = Some ch \<longrightarrow> pd_channel_archived db community ch = Inr False"
      "role_source db community channel ev req role"
      "\<forall>u \<in> set (hq_ref_updates req). allowed (to_ref_update u) (effective_git_role role) (pp_rules pp)"
      using ex by blast
    show "\<exists>community ev pp channel role.
       check_request env req = Inr community \<and> verify_hmac env secret req \<and>
       now \<le> hq_timestamp req + 30 \<and> hq_timestamp req \<le> now + 5 \<and>
       pd_repo_event db community (hq_repo_owner req) (hq_repo_id req) = Inr (Some ev) \<and>
       parse_protection_tags (ev_tags ev) = Inr pp \<and>
       resolve_repo_binding (pe_uuid_parse env) ev = (case channel of None \<Rightarrow> NotBound | Some ch \<Rightarrow> Bound ch) \<and>
       (\<forall>ch. channel = Some ch \<longrightarrow> pd_channel_archived db community ch = Inr False) \<and>
       role_source db community channel ev req role \<and>
       (\<forall>u \<in> set (hq_ref_updates req).
          allowed (to_ref_update u) (effective_git_role role) (pp_rules pp))"
      by (intro exI conjI) (fact h(1,2,5,6) times c)+
  qed
qed

section \<open>The signed payload\<close>

lemma hexdigit_not_bar: "is_ascii_hexdigit c \<Longrightarrow> c \<noteq> CHR ''|''"
  by (auto simp: ascii_defs)

lemma digit_not_sep: "is_ascii_digit c \<Longrightarrow> c \<noteq> CHR '':'' \<and> c \<noteq> CHR ''|''"
  by (auto simp: ascii_defs)

lemma decimal_no_sep: "CHR '':'' \<notin> set (decimal n)" "CHR ''|'' \<notin> set (decimal n)"
  using decimal_digits digit_not_sep by blast+

definition ref_shape :: "hook_ref_update \<Rightarrow> bool" where
  "ref_shape r \<longleftrightarrow> oid_ok (hr_old_oid r) \<and> oid_ok (hr_new_oid r)"

lemma ref_payload_inject:
  assumes "ref_shape r" and "ref_shape r'"
  shows "ref_payload r @ xs = ref_payload r' @ ys \<longleftrightarrow> r = r' \<and> xs = ys"
proof
  assume eq: "ref_payload r @ xs = ref_payload r' @ ys"
  have len: "length (hr_old_oid r) = length (hr_old_oid r')" "length (hr_new_oid r) = length (hr_new_oid r')"
    using assms by (simp_all add: ref_shape_def oid_ok_def)
  have e1: "hr_old_oid r = hr_old_oid r'" "hr_new_oid r = hr_new_oid r'"
    and e2: "decimal (length (hr_ref_name r)) @ CHR '':'' # hr_ref_name r @
        (if hr_is_ancestor r then ''1'' else ''0'') @ xs =
      decimal (length (hr_ref_name r')) @ CHR '':'' # hr_ref_name r' @
        (if hr_is_ancestor r' then ''1'' else ''0'') @ ys"
    using eq len by (simp_all add: ref_payload_def append_eq_append_conv)
  have "length (hr_ref_name r) = length (hr_ref_name r') \<and>
      hr_ref_name r @ (if hr_is_ancestor r then ''1'' else ''0'') @ xs =
      hr_ref_name r' @ (if hr_is_ancestor r' then ''1'' else ''0'') @ ys"
    using e2 by (simp only: append_sep_eq [OF decimal_no_sep(1) decimal_no_sep(1)] decimal_inject)
  then have "hr_ref_name r = hr_ref_name r' \<and>
      (if hr_is_ancestor r then ''1'' else ''0'') @ xs = (if hr_is_ancestor r' then ''1'' else ''0'') @ ys"
    by (elim conjE) (rule append_same_length)
  then show "r = r' \<and> xs = ys" using e1 by (auto split: if_splits)
qed simp

lemma ref_payload_head:
  assumes "ref_shape r" shows "\<exists>c cs. ref_payload r = c # cs \<and> c \<noteq> CHR ''|''"
proof -
  obtain c cs where "hr_old_oid r = c # cs" "is_ascii_hexdigit c"
    using assms by (cases "hr_old_oid r") (auto simp: ref_shape_def oid_ok_def)
  then show ?thesis using hexdigit_not_bar by (auto simp: ref_payload_def)
qed

lemma refs_payload_inject:
  "list_all ref_shape rs \<Longrightarrow> list_all ref_shape rs' \<Longrightarrow>
   concat (map ref_payload rs) @ CHR ''|'' # xs = concat (map ref_payload rs') @ CHR ''|'' # ys \<Longrightarrow>
   rs = rs' \<and> xs = ys"
proof (induction rs arbitrary: rs')
  case Nil
  then show ?case using ref_payload_head by (cases rs') fastforce+
next
  case (Cons r rs)
  then obtain r' rs'' where rs': "rs' = r' # rs''"
    using ref_payload_head by (cases rs') fastforce+
  then show ?case
    using Cons by (auto simp: ref_payload_inject)
qed

lemma is_lower_hex_no_bar: "is_lower_hex n s \<Longrightarrow> CHR ''|'' \<notin> set s"
  using hexdigit_not_bar by (auto simp: is_lower_hex_def list_all_iff)

definition signable :: "hook_request \<Rightarrow> bool" where
  "signable req \<longleftrightarrow>
     is_lower_hex 64 (hq_repo_owner req) \<and> is_lower_hex 64 (hq_pusher_pubkey req) \<and>
     CHR ''|'' \<notin> set (hq_community_id req) \<and> list_all ref_shape (hq_ref_updates req)"

text \<open>
  The signed payload is unambiguous. Two well-formed requests with the same payload agree on
  repository, owner, community, pusher and time, and on the ref updates sorted by name: a
  signature cannot be moved to another push. (Community ids are UUID texts, which have no bar.)
\<close>

theorem signed_payload_unambiguous:
  assumes "signable req" and "signable req'"
    and "canonical_payload req = canonical_payload req'"
  shows "hq_repo_id req = hq_repo_id req' \<and> hq_repo_owner req = hq_repo_owner req' \<and>
    hq_community_id req = hq_community_id req' \<and> hq_pusher_pubkey req = hq_pusher_pubkey req' \<and>
    hq_timestamp req = hq_timestamp req' \<and>
    sort_key hr_ref_name (hq_ref_updates req) = sort_key hr_ref_name (hq_ref_updates req')"
proof -
  define rest where "rest q = concat (map ref_payload (sort_key hr_ref_name (hq_ref_updates q))) @
    CHR ''|'' # decimal (hq_timestamp q)" for q :: hook_request
  define tail where "tail q = hq_repo_owner q @ CHR ''|'' # hq_community_id q @ CHR ''|'' #
    hq_pusher_pubkey q @ CHR ''|'' # rest q" for q :: hook_request
  have p: "canonical_payload q = decimal (length (hq_repo_id q)) @ CHR '':'' # hq_repo_id q @ CHR ''|'' # tail q" for q
    by (simp add: canonical_payload_def tail_def rest_def)
  have e1: "length (hq_repo_id req) = length (hq_repo_id req') \<and>
      hq_repo_id req @ CHR ''|'' # tail req = hq_repo_id req' @ CHR ''|'' # tail req'"
    using assms(3) unfolding p
    by (simp only: append_sep_eq [OF decimal_no_sep(1) decimal_no_sep(1)] decimal_inject)
  then have "hq_repo_id req = hq_repo_id req' \<and> CHR ''|'' # tail req = CHR ''|'' # tail req'"
    by (elim conjE) (rule append_same_length)
  then have repo: "hq_repo_id req = hq_repo_id req'" and t: "tail req = tail req'" by simp_all
  have s: "is_lower_hex 64 (hq_repo_owner q)" "is_lower_hex 64 (hq_pusher_pubkey q)"
    "CHR ''|'' \<notin> set (hq_community_id q)" "list_all ref_shape (hq_ref_updates q)"
    if "q = req \<or> q = req'" for q
    using that assms(1,2) by (auto simp: signable_def)
  have bar: "CHR ''|'' \<notin> set (hq_repo_owner q)" "CHR ''|'' \<notin> set (hq_pusher_pubkey q)"
    "CHR ''|'' \<notin> set (hq_community_id q)" if "q = req \<or> q = req'" for q
    using s(1-3) [OF that] is_lower_hex_no_bar by blast+
  have bar_owner: "CHR ''|'' \<notin> set (hq_repo_owner req)" "CHR ''|'' \<notin> set (hq_repo_owner req')"
    and bar_pusher: "CHR ''|'' \<notin> set (hq_pusher_pubkey req)" "CHR ''|'' \<notin> set (hq_pusher_pubkey req')"
    and bar_com: "CHR ''|'' \<notin> set (hq_community_id req)" "CHR ''|'' \<notin> set (hq_community_id req')"
    using bar by blast+
  have e2: "hq_repo_owner req = hq_repo_owner req' \<and> hq_community_id req = hq_community_id req' \<and>
      hq_pusher_pubkey req = hq_pusher_pubkey req' \<and> rest req = rest req'"
    using t unfolding tail_def
    by (simp only: append_sep_eq [OF bar_owner] append_sep_eq [OF bar_com] append_sep_eq [OF bar_pusher] simp_thms)
  have "list_all ref_shape (sort_key hr_ref_name (hq_ref_updates q))" if "q = req \<or> q = req'" for q
    using s(4) [OF that] by (simp add: list_all_iff)
  then have "sort_key hr_ref_name (hq_ref_updates req) = sort_key hr_ref_name (hq_ref_updates req') \<and>
      decimal (hq_timestamp req) = decimal (hq_timestamp req')"
    using e2 unfolding rest_def by (intro refs_payload_inject) blast+
  then show ?thesis using repo e2 by simp
qed

section \<open>A concrete push\<close>

definition demo_env :: policy_env where
  "demo_env = \<lparr>pe_hmac = (\<lambda>secret payload. secret @ payload), pe_hex_decode = Some,
               pe_uuid_parse = (\<lambda>s. if length s = 2 then Some s else None)\<rparr>"

definition demo_owner :: string where
  "demo_owner = replicate 64 (CHR ''a'')"

definition demo_repo :: nostr_event where
  "demo_repo = \<lparr>ev_id = ''r'', ev_pubkey = demo_owner, ev_created_at = 1, ev_kind = 30617,
     ev_tags = [[''d'', ''repo''], [''buzz-channel'', ''ch''],
       [''buzz-protect'', ''refs/heads/main'', ''no-force-push'']], ev_content = []\<rparr>"

definition demo_db :: policy_db where
  "demo_db = \<lparr>pd_repo_event = (\<lambda>c owner repo. Inr (Some demo_repo)),
              pd_channel_archived = (\<lambda>c ch. Inr False),
              pd_is_agent_owner = (\<lambda>c owner pusher. Inr False),
              pd_member_role = (\<lambda>c ch pusher. Inr (Some ''bot''))\<rparr>"

definition demo_request :: "string \<Rightarrow> hook_request" where
  "demo_request signature =
     \<lparr>hq_repo_id = ''repo'', hq_repo_owner = demo_owner, hq_community_id = ''c1'',
      hq_pusher_pubkey = replicate 64 (CHR ''b''),
      hq_ref_updates = [\<lparr>hr_old_oid = replicate 40 (CHR ''1''), hr_new_oid = replicate 40 (CHR ''2''),
        hr_ref_name = ''refs/heads/main'', hr_is_ancestor = True\<rparr>],
      hq_timestamp = 100, hq_signature = signature\<rparr>"

definition demo_signed :: hook_request where
  "demo_signed = demo_request (''k'' @ canonical_payload (demo_request []))"

lemma demo_check: "check_request demo_env demo_signed = Inr ''c1''"
  by code_simp

lemma demo_verify: "verify_hmac demo_env ''k'' demo_signed"
  by (simp add: verify_hmac_def demo_env_def demo_signed_def canonical_payload_def demo_request_def)

lemma demo_rules: "\<exists>pp. parse_protection_tags (ev_tags demo_repo) = Inr pp"
proof -
  have "\<not> isl (parse_protection_tags (ev_tags demo_repo))" by code_simp
  then show ?thesis by (cases "parse_protection_tags (ev_tags demo_repo)") auto
qed

lemma demo_binding: "resolve_repo_binding (pe_uuid_parse demo_env) demo_repo = Bound ''ch''"
  by code_simp

lemma demo_role:
  "resolve_push_role demo_db ''c1'' (Some ''ch'') demo_repo demo_signed = Inr Bot"
  by (simp add: resolve_push_role_def member_push_role_def demo_db_def demo_repo_def demo_owner_def
      demo_signed_def demo_request_def role_from_str_def replicate_eq_replicate)

lemma demo_updates:
  "map to_ref_update (hq_ref_updates demo_signed) =
     [\<lparr>ru_ref_name = ''refs/heads/main'', ru_kind = FastForward,
       ru_old_oid = replicate 40 (CHR ''1''), ru_new_oid = replicate 40 (CHR ''2'')\<rparr>]"
  by (simp add: demo_signed_def demo_request_def to_ref_update_def classify_def ZERO_OID_def)

lemma demo_push:
  "evaluate_push [\<lparr>ru_ref_name = ''refs/heads/main'', ru_kind = FastForward, ru_old_oid = x, ru_new_oid = y\<rparr>]
     Member (case parse_protection_tags (ev_tags demo_repo) of Inl _ \<Rightarrow> [] | Inr pp \<Rightarrow> pp_rules pp) = Some (Inr ())"
  by code_simp

lemma demo_authorized:
  assumes "parse_protection_tags (ev_tags demo_repo) = Inr pp"
  shows "authorize_push demo_env demo_db ''c1'' demo_repo (pp_rules pp) demo_signed = Some Allowed"
proof -
  have "pd_channel_archived demo_db c ch = Inr False" for c ch by (simp add: demo_db_def)
  then show ?thesis
    using demo_push [of "replicate 40 (CHR ''1'')" "replicate 40 (CHR ''2'')"] assms
    by (simp add: authorize_push_def demo_binding channel_of_binding_def channel_gate_def demo_role
        demo_updates effective_git_role_def)
qed

lemma demo_allowed: "hook_policy_check demo_env demo_db ''k'' 110 demo_signed = Some Allowed"
proof -
  obtain pp where pp: "parse_protection_tags (ev_tags demo_repo) = Inr pp"
    using demo_rules by blast
  have t: "hq_timestamp demo_signed = 100" by (simp add: demo_signed_def demo_request_def)
  have e: "pd_repo_event demo_db c owner repo = Inr (Some demo_repo)" for c owner repo
    by (simp add: demo_db_def)
  show ?thesis
    using demo_authorized [OF pp] pp
    by (simp add: hook_policy_check_def demo_check demo_verify t e MAX_CALLBACK_AGE_SECS_def)
qed

lemma allowed_push_is_authorised_witness:
  "\<exists>channel role. role_source demo_db ''c1'' channel demo_repo demo_signed role"
proof -
  have e: "pd_repo_event demo_db c owner repo = Inr (Some demo_repo)" for c owner repo
    by (simp add: demo_db_def)
  show ?thesis
    using allowed_push_is_authorised [of demo_env demo_db "''k''" 110 demo_signed] demo_allowed demo_check
    by (auto simp: e)
qed

lemma signed_payload_unambiguous_witness:
  "hq_pusher_pubkey demo_signed = hq_pusher_pubkey (demo_request [])"
proof -
  have "signable demo_signed" "signable (demo_request [])" by code_simp+
  moreover have "canonical_payload demo_signed = canonical_payload (demo_request [])"
    by (simp add: demo_signed_def canonical_payload_def demo_request_def)
  ultimately show ?thesis using signed_payload_unambiguous by blast
qed

end
