(* ===== verification/Pairing.thy ===== *)
theory Pairing
  imports Text Kinds
begin

text \<open>
  Device pairing: the key derivations of \<open>crates/buzz-core/src/pairing/crypto.rs\<close>, the messages
  of \<open>types.rs\<close> and the session state machine of \<open>session.rs\<close>.

  \<^item> Everything the code calls in other crates is a field of \<open>pairing_crypto\<close>: HKDF, ECDH, NIP-44,
    JSON, event signing and verification, hex. \<open>crypto_laws\<close> states what their documentation
    promises; only the theorem on a complete exchange uses it.
  \<^item> Byte arrays are strings of bytes and public keys are their hex text, as in events. What the
    code draws from the clock and the random generator is the argument \<open>ambient\<close>.
  \<^item> A handler returns its result and the session afterwards, because some of them change the
    state and fail. An \<open>UnexpectedMessage\<close> carries the pair its text prints. Zeroing memory is
    not modelled.
\<close>

section \<open>Messages and errors\<close>

datatype payload_type = Nsec | Bunker | Connect | CustomPayload

datatype abort_reason = SasMismatchReason | UserDenied | Timeout | ProtocolError | UnknownReason

datatype pairing_message =
    Offer string nat
  | SasConfirm string
  | Payload payload_type string
  | Complete bool
  | Abort abort_reason

datatype role = Source | Target

datatype session_state =
    Waiting | Confirming | AwaitingConfirmation | Transferring | PayloadExchanged | Completed | Aborted

text \<open>What an \<open>UnexpectedMessage\<close> reports as expected and got.\<close>

datatype mismatch =
    StateMismatch session_state session_state
  | RoleMismatch role role
  | MessageMismatch string pairing_message
  | VersionMismatch nat
  | DuplicateEvent
  | KindMismatch nat
  | ContentSize nat
  | PlaintextSize nat
  | PeerReportedFailure
  | TerminalState session_state

datatype pairing_error =
    InvalidSessionId
  | SasMismatch
  | TranscriptMismatch
  | UnexpectedMessage mismatch
  | SessionExpired
  | Nip44Error
  | JsonError
  | InvalidPubkey
  | SigningError

section \<open>Key derivation\<close>

record pairing_crypto =
  pc_hkdf :: "string \<Rightarrow> string \<Rightarrow> string \<Rightarrow> string"
  pc_public_key :: "string \<Rightarrow> string"
  pc_key_bytes :: "string \<Rightarrow> string"
  pc_shared_key :: "string \<Rightarrow> string \<Rightarrow> string option"
  pc_to_json :: "pairing_message \<Rightarrow> string option"
  pc_from_json :: "string \<Rightarrow> pairing_message option"
  pc_encrypt :: "string \<Rightarrow> string \<Rightarrow> string \<Rightarrow> string \<Rightarrow> string option"
  pc_decrypt :: "string \<Rightarrow> string \<Rightarrow> string \<Rightarrow> string option"
  pc_sign :: "string \<Rightarrow> nat \<Rightarrow> string list list \<Rightarrow> nat \<Rightarrow> string \<Rightarrow> nostr_event option"
  pc_verify :: "nostr_event \<Rightarrow> bool"
  pc_hex_encode :: "string \<Rightarrow> string"
  pc_hex_decode :: "string \<Rightarrow> string option"

text \<open>\<open>hkdf32\<close>: extract and expand with salt, key material and info, 32 bytes of output.\<close>

definition hkdf32 :: "pairing_crypto \<Rightarrow> string \<Rightarrow> string \<Rightarrow> string \<Rightarrow> string" where
  "hkdf32 c salt ikm info = take 32 (pc_hkdf c salt ikm info)"

definition derive_session_id :: "pairing_crypto \<Rightarrow> string \<Rightarrow> string" where
  "derive_session_id c session_secret = hkdf32 c [] session_secret ''nostr-pair-session-id''"

definition be_u32 :: "string \<Rightarrow> nat" where
  "be_u32 bs = foldl (\<lambda>n b. n * 256 + code_of b) 0 (take 4 bs)"

definition derive_sas :: "pairing_crypto \<Rightarrow> string \<Rightarrow> string \<Rightarrow> nat \<times> string" where
  "derive_sas c ecdh_shared session_secret =
     (let sas_input = hkdf32 c session_secret ecdh_shared ''nostr-pair-sas-v1''
      in (be_u32 sas_input mod 1000000, sas_input))"

definition derive_transcript_hash ::
  "pairing_crypto \<Rightarrow> string \<Rightarrow> string \<Rightarrow> string \<Rightarrow> string \<Rightarrow> string \<Rightarrow> string" where
  "derive_transcript_hash c session_id source_pubkey target_pubkey sas_input session_secret =
     hkdf32 c session_secret (session_id @ source_pubkey @ target_pubkey @ sas_input)
       ''nostr-pair-transcript-v1''"

definition format_sas :: "nat \<Rightarrow> string" where
  "format_sas code = replicate (6 - length (decimal code)) (CHR ''0'') @ decimal code"

definition ct_eq :: "string \<Rightarrow> string \<Rightarrow> bool" where
  "ct_eq a b \<longleftrightarrow> a = b"

text \<open>\<open>hex::decode\<close> into exactly 32 bytes.\<close>

definition decode32 :: "pairing_crypto \<Rightarrow> string \<Rightarrow> string option" where
  "decode32 c s =
     (case pc_hex_decode c s of None \<Rightarrow> None | Some b \<Rightarrow> if length b = 32 then Some b else None)"

section \<open>Sessions\<close>

record pairing_session =
  ps_role :: role
  ps_state :: session_state
  ps_keys :: string
  ps_session_secret :: string
  ps_relay_urls :: "string list"
  ps_peer_pubkey :: "string option"
  ps_session_id :: string
  ps_sas_code :: "nat option"
  ps_sas_input :: "string option"
  ps_processed_ids :: "string set"
  ps_created_at :: instant
  ps_timeout :: nat

record qr_payload =
  qr_source_pubkey :: string
  qr_session_secret :: string
  qr_relays :: "string list"
  qr_version :: nat

record ambient =
  am_now :: instant
  am_unix_secs :: nat
  am_random :: nat
  am_nonce :: string

definition DEFAULT_TIMEOUT :: nat where
  "DEFAULT_TIMEOUT = 120 * 1000000000"

definition is_expired :: "instant \<Rightarrow> pairing_session \<Rightarrow> bool" where
  "is_expired now s \<longleftrightarrow> now - ps_created_at s > ps_timeout s"

definition check_expired :: "instant \<Rightarrow> pairing_session \<Rightarrow> pairing_error option" where
  "check_expired now s = (if is_expired now s then Some SessionExpired else None)"

definition expect_state :: "session_state \<Rightarrow> pairing_session \<Rightarrow> pairing_error option" where
  "expect_state expected s =
     (if ps_state s \<noteq> expected then Some (UnexpectedMessage (StateMismatch expected (ps_state s))) else None)"

definition expect_role :: "role \<Rightarrow> pairing_session \<Rightarrow> pairing_error option" where
  "expect_role expected s =
     (if ps_role s \<noteq> expected then Some (UnexpectedMessage (RoleMismatch expected (ps_role s))) else None)"

definition has_p_tag :: "string \<Rightarrow> nostr_event \<Rightarrow> bool" where
  "has_p_tag pk ev \<longleftrightarrow> list_ex (\<lambda>t. case t of k # v # _ \<Rightarrow> k = ''p'' \<and> v = pk | _ \<Rightarrow> False) (ev_tags ev)"

definition validate_event_basics ::
  "pairing_crypto \<Rightarrow> nostr_event \<Rightarrow> pairing_session \<Rightarrow> pairing_error option" where
  "validate_event_basics c ev s =
     (if \<not> pc_verify c ev then Some InvalidPubkey
      else if ev_id ev \<in> ps_processed_ids s then Some (UnexpectedMessage DuplicateEvent)
      else if ev_kind ev \<noteq> KIND_PAIRING then Some (UnexpectedMessage (KindMismatch (ev_kind ev)))
      else if \<not> has_p_tag (pc_public_key c (ps_keys s)) ev then Some InvalidPubkey
      else None)"

definition validate_event_from_peer ::
  "pairing_crypto \<Rightarrow> nostr_event \<Rightarrow> pairing_session \<Rightarrow> pairing_error option" where
  "validate_event_from_peer c ev s =
     (case validate_event_basics c ev s of
        Some e \<Rightarrow> Some e
      | None \<Rightarrow>
          (case ps_peer_pubkey s of
             Some expected \<Rightarrow> if ev_pubkey ev \<noteq> expected then Some InvalidPubkey else None
           | None \<Rightarrow> None))"

definition record_event :: "nostr_event \<Rightarrow> pairing_session \<Rightarrow> pairing_session" where
  "record_event ev s = s\<lparr>ps_processed_ids := insert (ev_id ev) (ps_processed_ids s)\<rparr>"

definition build_event ::
  "pairing_crypto \<Rightarrow> ambient \<Rightarrow> pairing_message \<Rightarrow> pairing_session \<Rightarrow> pairing_error + nostr_event" where
  "build_event c am message s =
     (case ps_peer_pubkey s of
        None \<Rightarrow> Inl InvalidPubkey
      | Some peer \<Rightarrow>
          (case pc_to_json c message of
             None \<Rightarrow> Inl JsonError
           | Some plaintext \<Rightarrow>
               (case pc_encrypt c (ps_keys s) peer plaintext (am_nonce am) of
                  None \<Rightarrow> Inl Nip44Error
                | Some encrypted \<Rightarrow>
                    (case pc_sign c (ps_keys s) KIND_PAIRING [[''p'', peer]]
                        (am_unix_secs am - am_random am mod 31) encrypted of
                       None \<Rightarrow> Inl SigningError
                     | Some ev \<Rightarrow> Inr ev))))"

definition decrypt_message ::
  "pairing_crypto \<Rightarrow> nostr_event \<Rightarrow> pairing_session \<Rightarrow> pairing_error + pairing_message" where
  "decrypt_message c ev s =
     (let content_len = length (ev_content ev) in
      if \<not> (132 \<le> content_len \<and> content_len \<le> 87472) then Inl (UnexpectedMessage (ContentSize content_len))
      else case pc_decrypt c (ps_keys s) (ev_pubkey ev) (ev_content ev) of
        None \<Rightarrow> Inl Nip44Error
      | Some decrypted \<Rightarrow>
          if length decrypted > 65535 then Inl (UnexpectedMessage (PlaintextSize (length decrypted)))
          else (case pc_from_json c decrypted of None \<Rightarrow> Inl JsonError | Some m \<Rightarrow> Inr m))"

text \<open>The first failing check of a chain of \<open>?\<close> operators.\<close>

fun first_error :: "pairing_error option list \<Rightarrow> pairing_error option" where
  "first_error [] = None"
| "first_error (Some e # es) = Some e"
| "first_error (None # es) = first_error es"

section \<open>The source's handlers\<close>

definition new_source ::
  "pairing_crypto \<Rightarrow> instant \<Rightarrow> string \<Rightarrow> string \<Rightarrow> string \<Rightarrow> pairing_session \<times> qr_payload" where
  "new_source c now sk session_secret relay_url =
     (\<lparr>ps_role = Source, ps_state = Waiting, ps_keys = sk, ps_session_secret = session_secret,
       ps_relay_urls = [relay_url], ps_peer_pubkey = None,
       ps_session_id = derive_session_id c session_secret, ps_sas_code = None, ps_sas_input = None,
       ps_processed_ids = {}, ps_created_at = now, ps_timeout = DEFAULT_TIMEOUT\<rparr>,
      \<lparr>qr_source_pubkey = pc_public_key c sk, qr_session_secret = session_secret,
       qr_relays = [relay_url], qr_version = 1\<rparr>)"

definition accept_offer ::
  "pairing_crypto \<Rightarrow> nostr_event \<Rightarrow> pairing_session \<Rightarrow> (pairing_error + string) \<times> pairing_session" where
  "accept_offer c ev s =
     (let peer = ev_pubkey ev; s1 = s\<lparr>ps_peer_pubkey := Some peer\<rparr> in
      case pc_shared_key c (ps_keys s) peer of
        None \<Rightarrow> (Inl SigningError, s1)
      | Some ecdh \<Rightarrow>
          (let (code, sas_input) = derive_sas c ecdh (ps_session_secret s) in
           (Inr (format_sas code),
            record_event ev (s1\<lparr>ps_sas_code := Some code, ps_sas_input := Some sas_input,
              ps_state := Confirming\<rparr>))))"

definition handle_offer ::
  "pairing_crypto \<Rightarrow> ambient \<Rightarrow> nostr_event \<Rightarrow> pairing_session \<Rightarrow>
   (pairing_error + string) \<times> pairing_session" where
  "handle_offer c am ev s =
     (case first_error [check_expired (am_now am) s, expect_state Waiting s, expect_role Source s,
         validate_event_basics c ev s] of
        Some e \<Rightarrow> (Inl e, s)
      | None \<Rightarrow>
          (case decrypt_message c ev s of
             Inl e \<Rightarrow> (Inl e, s)
           | Inr (Offer session_id version) \<Rightarrow>
               if version \<noteq> 1 then (Inl (UnexpectedMessage (VersionMismatch version)), s)
               else (case decode32 c session_id of
                 None \<Rightarrow> (Inl InvalidSessionId, s)
               | Some received \<Rightarrow>
                   if ct_eq received (ps_session_id s) then accept_offer c ev s
                   else (Inl InvalidSessionId, s))
           | Inr other \<Rightarrow> (Inl (UnexpectedMessage (MessageMismatch ''offer'' other)), s)))"

definition confirm_sas ::
  "pairing_crypto \<Rightarrow> ambient \<Rightarrow> pairing_session \<Rightarrow> (pairing_error + nostr_event) \<times> pairing_session" where
  "confirm_sas c am s =
     (case first_error [check_expired (am_now am) s, expect_state Confirming s, expect_role Source s] of
        Some e \<Rightarrow> (Inl e, s)
      | None \<Rightarrow>
          (case ps_sas_input s of
             None \<Rightarrow> (Inl SasMismatch, s)
           | Some sas_input \<Rightarrow>
               (case ps_peer_pubkey s of
                  None \<Rightarrow> (Inl InvalidPubkey, s)
                | Some peer \<Rightarrow>
                    (let hash = derive_transcript_hash c (ps_session_id s)
                          (pc_key_bytes c (pc_public_key c (ps_keys s))) (pc_key_bytes c peer)
                          sas_input (ps_session_secret s) in
                     case build_event c am (SasConfirm (pc_hex_encode c hash)) s of
                       Inl e \<Rightarrow> (Inl e, s)
                     | Inr ev \<Rightarrow> (Inr ev, s\<lparr>ps_state := Transferring\<rparr>)))))"

definition send_payload ::
  "pairing_crypto \<Rightarrow> ambient \<Rightarrow> payload_type \<Rightarrow> string \<Rightarrow> pairing_session \<Rightarrow>
   (pairing_error + nostr_event) \<times> pairing_session" where
  "send_payload c am ptype payload s =
     (case first_error [check_expired (am_now am) s, expect_state Transferring s, expect_role Source s] of
        Some e \<Rightarrow> (Inl e, s)
      | None \<Rightarrow>
          (case build_event c am (Payload ptype payload) s of
             Inl e \<Rightarrow> (Inl e, s)
           | Inr ev \<Rightarrow> (Inr ev, s\<lparr>ps_state := PayloadExchanged\<rparr>)))"

definition handle_complete ::
  "pairing_crypto \<Rightarrow> ambient \<Rightarrow> nostr_event \<Rightarrow> pairing_session \<Rightarrow>
   (pairing_error + unit) \<times> pairing_session" where
  "handle_complete c am ev s =
     (case first_error [check_expired (am_now am) s, expect_state PayloadExchanged s, expect_role Source s,
         validate_event_from_peer c ev s] of
        Some e \<Rightarrow> (Inl e, s)
      | None \<Rightarrow>
          (case decrypt_message c ev s of
             Inl e \<Rightarrow> (Inl e, s)
           | Inr (Complete True) \<Rightarrow> (Inr (), record_event ev (s\<lparr>ps_state := Completed\<rparr>))
           | Inr (Complete False) \<Rightarrow> (Inl (UnexpectedMessage PeerReportedFailure), s\<lparr>ps_state := Aborted\<rparr>)
           | Inr other \<Rightarrow> (Inl (UnexpectedMessage (MessageMismatch ''complete'' other)), s)))"

section \<open>The target's handlers\<close>

definition new_target ::
  "pairing_crypto \<Rightarrow> ambient \<Rightarrow> string \<Rightarrow> qr_payload \<Rightarrow> pairing_error + pairing_session \<times> nostr_event" where
  "new_target c am sk qr =
     (let session_id = derive_session_id c (qr_session_secret qr) in
      case pc_shared_key c sk (qr_source_pubkey qr) of
        None \<Rightarrow> Inl SigningError
      | Some ecdh \<Rightarrow>
          (let (code, sas_input) = derive_sas c ecdh (qr_session_secret qr);
               s = \<lparr>ps_role = Target, ps_state = Waiting, ps_keys = sk,
                    ps_session_secret = qr_session_secret qr, ps_relay_urls = qr_relays qr,
                    ps_peer_pubkey = Some (qr_source_pubkey qr), ps_session_id = session_id,
                    ps_sas_code = Some code, ps_sas_input = Some sas_input, ps_processed_ids = {},
                    ps_created_at = am_now am, ps_timeout = DEFAULT_TIMEOUT\<rparr> in
           case build_event c am (Offer (pc_hex_encode c session_id) 1) s of
             Inl e \<Rightarrow> Inl e
           | Inr ev \<Rightarrow> Inr (s\<lparr>ps_state := Confirming\<rparr>, ev)))"

definition handle_sas_confirm ::
  "pairing_crypto \<Rightarrow> ambient \<Rightarrow> nostr_event \<Rightarrow> pairing_session \<Rightarrow>
   (pairing_error + string) \<times> pairing_session" where
  "handle_sas_confirm c am ev s =
     (case first_error [check_expired (am_now am) s, expect_state Confirming s, expect_role Target s,
         validate_event_from_peer c ev s] of
        Some e \<Rightarrow> (Inl e, s)
      | None \<Rightarrow>
          (case decrypt_message c ev s of
             Inl e \<Rightarrow> (Inl e, s)
           | Inr (SasConfirm received_hash) \<Rightarrow>
               (case ps_sas_input s of
                  None \<Rightarrow> (Inl SasMismatch, s)
                | Some sas_input \<Rightarrow>
                    (case ps_peer_pubkey s of
                       None \<Rightarrow> (Inl InvalidPubkey, s)
                     | Some peer \<Rightarrow>
                         (let expected = derive_transcript_hash c (ps_session_id s) (pc_key_bytes c peer)
                               (pc_key_bytes c (pc_public_key c (ps_keys s))) sas_input (ps_session_secret s) in
                          if \<not> (case decode32 c received_hash of None \<Rightarrow> False | Some rb \<Rightarrow> ct_eq rb expected)
                          then (Inl TranscriptMismatch, s\<lparr>ps_state := Aborted\<rparr>)
                          else
                            let s1 = record_event ev (s\<lparr>ps_state := AwaitingConfirmation\<rparr>) in
                            (case ps_sas_code s1 of
                               None \<Rightarrow> (Inl SasMismatch, s1)
                             | Some code \<Rightarrow> (Inr (format_sas code), s1)))))
           | Inr other \<Rightarrow> (Inl (UnexpectedMessage (MessageMismatch ''sas-confirm'' other)), s)))"

definition confirm_target_sas ::
  "ambient \<Rightarrow> pairing_session \<Rightarrow> (pairing_error + unit) \<times> pairing_session" where
  "confirm_target_sas am s =
     (case first_error [check_expired (am_now am) s, expect_state AwaitingConfirmation s, expect_role Target s] of
        Some e \<Rightarrow> (Inl e, s)
      | None \<Rightarrow> (Inr (), s\<lparr>ps_state := Transferring\<rparr>))"

definition handle_payload ::
  "pairing_crypto \<Rightarrow> ambient \<Rightarrow> nostr_event \<Rightarrow> pairing_session \<Rightarrow>
   (pairing_error + payload_type \<times> string) \<times> pairing_session" where
  "handle_payload c am ev s =
     (case first_error [check_expired (am_now am) s, expect_state Transferring s, expect_role Target s,
         validate_event_from_peer c ev s] of
        Some e \<Rightarrow> (Inl e, s)
      | None \<Rightarrow>
          (case decrypt_message c ev s of
             Inl e \<Rightarrow> (Inl e, s)
           | Inr (Payload ptype payload) \<Rightarrow>
               (Inr (ptype, payload), record_event ev (s\<lparr>ps_state := PayloadExchanged\<rparr>))
           | Inr other \<Rightarrow> (Inl (UnexpectedMessage (MessageMismatch ''payload'' other)), s)))"

definition send_complete ::
  "pairing_crypto \<Rightarrow> ambient \<Rightarrow> pairing_session \<Rightarrow> (pairing_error + nostr_event) \<times> pairing_session" where
  "send_complete c am s =
     (case first_error [check_expired (am_now am) s, expect_state PayloadExchanged s, expect_role Target s] of
        Some e \<Rightarrow> (Inl e, s)
      | None \<Rightarrow>
          (case build_event c am (Complete True) s of
             Inl e \<Rightarrow> (Inl e, s)
           | Inr ev \<Rightarrow> (Inr ev, s\<lparr>ps_state := Completed\<rparr>)))"

section \<open>Aborting\<close>

definition is_terminal :: "session_state \<Rightarrow> bool" where
  "is_terminal st \<longleftrightarrow> st = Completed \<or> st = Aborted"

definition abort_session ::
  "pairing_crypto \<Rightarrow> ambient \<Rightarrow> abort_reason \<Rightarrow> pairing_session \<Rightarrow>
   (pairing_error + nostr_event option) \<times> pairing_session" where
  "abort_session c am reason s =
     (if is_terminal (ps_state s) then (Inl (UnexpectedMessage (TerminalState (ps_state s))), s)
      else if ps_peer_pubkey s = None then (Inr None, s\<lparr>ps_state := Aborted\<rparr>)
      else case build_event c am (Abort reason) s of
        Inl e \<Rightarrow> (Inl e, s)
      | Inr ev \<Rightarrow> (Inr (Some ev), s\<lparr>ps_state := Aborted\<rparr>))"

definition handle_abort ::
  "pairing_crypto \<Rightarrow> nostr_event \<Rightarrow> pairing_session \<Rightarrow> (pairing_error + abort_reason) \<times> pairing_session" where
  "handle_abort c ev s =
     (if is_terminal (ps_state s) then (Inl (UnexpectedMessage (TerminalState (ps_state s))), s)
      else if ps_peer_pubkey s = None then (Inl InvalidPubkey, s)
      else case validate_event_from_peer c ev s of
        Some e \<Rightarrow> (Inl e, s)
      | None \<Rightarrow>
          (case decrypt_message c ev s of
             Inl e \<Rightarrow> (Inl e, s)
           | Inr (Abort reason) \<Rightarrow> (Inr reason, record_event ev (s\<lparr>ps_state := Aborted\<rparr>))
           | Inr other \<Rightarrow> (Inl (UnexpectedMessage (MessageMismatch ''abort'' other)), s)))"

section \<open>Runs of a session\<close>

datatype pairing_op =
    HandleOffer nostr_event
  | ConfirmSas
  | SendPayload payload_type string
  | HandleComplete nostr_event
  | HandleSasConfirm nostr_event
  | ConfirmTargetSas
  | HandlePayload nostr_event
  | SendComplete
  | AbortSession abort_reason
  | HandleAbort nostr_event

fun pair_step :: "pairing_crypto \<Rightarrow> pairing_session \<Rightarrow> ambient \<times> pairing_op \<Rightarrow> pairing_session" where
  "pair_step c s (am, HandleOffer ev) = snd (handle_offer c am ev s)"
| "pair_step c s (am, ConfirmSas) = snd (confirm_sas c am s)"
| "pair_step c s (am, SendPayload t p) = snd (send_payload c am t p s)"
| "pair_step c s (am, HandleComplete ev) = snd (handle_complete c am ev s)"
| "pair_step c s (am, HandleSasConfirm ev) = snd (handle_sas_confirm c am ev s)"
| "pair_step c s (am, ConfirmTargetSas) = snd (confirm_target_sas am s)"
| "pair_step c s (am, HandlePayload ev) = snd (handle_payload c am ev s)"
| "pair_step c s (am, SendComplete) = snd (send_complete c am s)"
| "pair_step c s (am, AbortSession r) = snd (abort_session c am r s)"
| "pair_step c s (am, HandleAbort ev) = snd (handle_abort c ev s)"

abbreviation pair_run :: "pairing_crypto \<Rightarrow> pairing_session \<Rightarrow> (ambient \<times> pairing_op) list \<Rightarrow> pairing_session" where
  "pair_run c s ops \<equiv> foldl (pair_step c) s ops"

lemmas handler_defs =
  handle_offer_def confirm_sas_def send_payload_def handle_complete_def handle_sas_confirm_def
  confirm_target_sas_def handle_payload_def send_complete_def abort_session_def handle_abort_def
  accept_offer_def record_event_def

text \<open>The fields a session never changes.\<close>

definition same_session :: "pairing_session \<Rightarrow> pairing_session \<Rightarrow> bool" where
  "same_session s t \<longleftrightarrow>
     ps_role t = ps_role s \<and> ps_keys t = ps_keys s \<and> ps_session_secret t = ps_session_secret s \<and>
     ps_session_id t = ps_session_id s"

lemma same_session_refl [simp]: "same_session s s"
  by (simp add: same_session_def)

lemma same_session_trans: "same_session s t \<Longrightarrow> same_session t u \<Longrightarrow> same_session s u"
  by (simp add: same_session_def)

lemma first_error_None: "first_error es = None \<longleftrightarrow> (\<forall>e \<in> set es. e = None)"
  by (induction es rule: first_error.induct) auto

lemma expect_None [simp]:
  "expect_state st s = None \<longleftrightarrow> ps_state s = st" "expect_role r s = None \<longleftrightarrow> ps_role s = r"
  by (auto simp: expect_state_def expect_role_def)

text \<open>Each handler, in the one case in which it changes the session.\<close>

lemma handle_offer_cases:
  obtains "snd (handle_offer c am ev s) = s" "\<exists>e. fst (handle_offer c am ev s) = Inl e"
  | sid where "ps_state s = Waiting" "ps_role s = Source" "decrypt_message c ev s = Inr (Offer sid 1)"
      "decode32 c sid = Some (ps_session_id s)" "handle_offer c am ev s = accept_offer c ev s"
proof (cases "first_error [check_expired (am_now am) s, expect_state Waiting s, expect_role Source s,
         validate_event_basics c ev s]")
  case (Some e)
  then show ?thesis using that(1) by (simp add: handle_offer_def)
next
  case None
  show ?thesis
  proof (cases "\<exists>sid. decrypt_message c ev s = Inr (Offer sid 1) \<and> decode32 c sid = Some (ps_session_id s)")
    case True
    then obtain sid where sid: "decrypt_message c ev s = Inr (Offer sid 1)" "decode32 c sid = Some (ps_session_id s)"
      by blast
    then have "handle_offer c am ev s = accept_offer c ev s"
      using None by (simp add: handle_offer_def ct_eq_def)
    then show ?thesis using None sid that(2) by (simp add: first_error_None)
  next
    case False
    then have "snd (handle_offer c am ev s) = s \<and> (\<exists>e. fst (handle_offer c am ev s) = Inl e)"
      using None
      by (auto simp: handle_offer_def ct_eq_def split: sum.splits pairing_message.splits option.splits)
    then show ?thesis using that(1) by blast
  qed
qed

lemma accept_offer_facts:
  "same_session s (snd (accept_offer c ev s))"
  "ps_peer_pubkey (snd (accept_offer c ev s)) = Some (ev_pubkey ev)"
  "ps_state (snd (accept_offer c ev s)) = ps_state s \<or>
   ps_state (snd (accept_offer c ev s)) = Confirming"
  by (auto simp: accept_offer_def same_session_def record_event_def Let_def
      split: option.splits prod.splits)

lemma confirm_sas_cases:
  obtains "snd (confirm_sas c am s) = s"
  | "ps_state s = Confirming" "ps_role s = Source" "snd (confirm_sas c am s) = s\<lparr>ps_state := Transferring\<rparr>"
proof (cases "first_error [check_expired (am_now am) s, expect_state Confirming s, expect_role Source s]")
  case (Some e)
  then show ?thesis using that(1) by (simp add: confirm_sas_def)
next
  case None
  then have "snd (confirm_sas c am s) = s \<or> snd (confirm_sas c am s) = s\<lparr>ps_state := Transferring\<rparr>"
    by (simp add: confirm_sas_def Let_def split: option.splits sum.splits)
  then show ?thesis using None that by (auto simp: first_error_None)
qed

lemma send_payload_cases:
  obtains e where "send_payload c am t p s = (Inl e, s)"
  | ev where "ps_state s = Transferring" "ps_role s = Source"
      "send_payload c am t p s = (Inr ev, s\<lparr>ps_state := PayloadExchanged\<rparr>)" "build_event c am (Payload t p) s = Inr ev"
proof (cases "first_error [check_expired (am_now am) s, expect_state Transferring s, expect_role Source s]")
  case (Some e)
  then show ?thesis using that(1) by (simp add: send_payload_def)
next
  case None
  show ?thesis
  proof (cases "build_event c am (Payload t p) s")
    case (Inl e)
    then have "send_payload c am t p s = (Inl e, s)" using None by (simp add: send_payload_def)
    then show ?thesis by (rule that(1))
  next
    case (Inr ev)
    then have "send_payload c am t p s = (Inr ev, s\<lparr>ps_state := PayloadExchanged\<rparr>)"
      using None by (simp add: send_payload_def)
    then show ?thesis using None Inr that(2) by (simp add: first_error_None)
  qed
qed

lemma handle_complete_cases:
  obtains "snd (handle_complete c am ev s) = s"
  | st where "ps_state s = PayloadExchanged" "ps_role s = Source" "is_terminal st"
      "ps_state (snd (handle_complete c am ev s)) = st"
      "same_session s (snd (handle_complete c am ev s))"
      "ps_peer_pubkey (snd (handle_complete c am ev s)) = ps_peer_pubkey s"
proof (cases "first_error [check_expired (am_now am) s, expect_state PayloadExchanged s, expect_role Source s,
         validate_event_from_peer c ev s]")
  case (Some e)
  then show ?thesis using that(1) by (simp add: handle_complete_def)
next
  case None
  have "snd (handle_complete c am ev s) = s \<or>
      snd (handle_complete c am ev s) = record_event ev (s\<lparr>ps_state := Completed\<rparr>) \<or>
      snd (handle_complete c am ev s) = s\<lparr>ps_state := Aborted\<rparr>"
    using None by (simp add: handle_complete_def split: sum.splits pairing_message.splits bool.splits)
  then show ?thesis
    using None that by (auto simp: first_error_None is_terminal_def same_session_def record_event_def)
qed

text \<open>The transcript hash of a \<open>sas-confirm\<close> event is the one this target computes.\<close>

definition transcript_matches :: "pairing_crypto \<Rightarrow> pairing_session \<Rightarrow> nostr_event \<Rightarrow> bool" where
  "transcript_matches c s ev \<longleftrightarrow>
     (\<exists>h sas_input peer. decrypt_message c ev s = Inr (SasConfirm h) \<and>
        ps_sas_input s = Some sas_input \<and> ps_peer_pubkey s = Some peer \<and> ev_pubkey ev = peer \<and>
        decode32 c h = Some (derive_transcript_hash c (ps_session_id s) (pc_key_bytes c peer)
          (pc_key_bytes c (pc_public_key c (ps_keys s))) sas_input (ps_session_secret s)))"

lemma from_peer_None:
  "validate_event_from_peer c ev s = None \<Longrightarrow> ps_peer_pubkey s = Some peer \<Longrightarrow> ev_pubkey ev = peer"
  by (auto simp: validate_event_from_peer_def split: option.splits if_splits)

lemma handle_sas_confirm_cases:
  obtains "snd (handle_sas_confirm c am ev s) = s"
  | "ps_state s = Confirming" "snd (handle_sas_confirm c am ev s) = s\<lparr>ps_state := Aborted\<rparr>"
  | "ps_state s = Confirming" "ps_role s = Target" "transcript_matches c s ev"
      "snd (handle_sas_confirm c am ev s) = record_event ev (s\<lparr>ps_state := AwaitingConfirmation\<rparr>)"
proof (cases "first_error [check_expired (am_now am) s, expect_state Confirming s, expect_role Target s,
         validate_event_from_peer c ev s]")
  case (Some e)
  then show ?thesis using that(1) by (simp add: handle_sas_confirm_def)
next
  case None
  then have n: "ps_state s = Confirming" "ps_role s = Target" "validate_event_from_peer c ev s = None"
    by (simp_all add: first_error_None)
  show ?thesis
  proof (cases "\<exists>h sas_input peer. decrypt_message c ev s = Inr (SasConfirm h) \<and>
        ps_sas_input s = Some sas_input \<and> ps_peer_pubkey s = Some peer")
    case False
    then have "snd (handle_sas_confirm c am ev s) = s"
      using None
      by (simp add: handle_sas_confirm_def Let_def split: sum.splits pairing_message.splits option.splits) auto
    then show ?thesis by (rule that(1))
  next
    case True
    then obtain h sas_input peer where d: "decrypt_message c ev s = Inr (SasConfirm h)"
      "ps_sas_input s = Some sas_input" "ps_peer_pubkey s = Some peer" by blast
    let ?x = "derive_transcript_hash c (ps_session_id s) (pc_key_bytes c peer)
          (pc_key_bytes c (pc_public_key c (ps_keys s))) sas_input (ps_session_secret s)"
    show ?thesis
    proof (cases "decode32 c h = Some ?x")
      case True
      then have "transcript_matches c s ev"
        using d from_peer_None [OF n(3) d(3)] by (auto simp: transcript_matches_def)
      moreover have "snd (handle_sas_confirm c am ev s) = record_event ev (s\<lparr>ps_state := AwaitingConfirmation\<rparr>)"
        using None d True by (simp add: handle_sas_confirm_def Let_def ct_eq_def split: option.splits)
      ultimately show ?thesis using that(3) n(1,2) by blast
    next
      case False
      then have "snd (handle_sas_confirm c am ev s) = s\<lparr>ps_state := Aborted\<rparr>"
        using None d by (simp add: handle_sas_confirm_def Let_def ct_eq_def split: option.splits)
      then show ?thesis using n(1) by (rule that(2) [rotated])
    qed
  qed
qed

lemma confirm_target_sas_cases:
  obtains "snd (confirm_target_sas am s) = s"
  | "ps_state s = AwaitingConfirmation" "ps_role s = Target"
      "snd (confirm_target_sas am s) = s\<lparr>ps_state := Transferring\<rparr>"
proof (cases "first_error [check_expired (am_now am) s, expect_state AwaitingConfirmation s, expect_role Target s]")
  case (Some e)
  then show ?thesis using that(1) by (simp add: confirm_target_sas_def)
next
  case None
  then have "snd (confirm_target_sas am s) = s\<lparr>ps_state := Transferring\<rparr>"
    by (simp add: confirm_target_sas_def)
  then show ?thesis using None that by (simp add: first_error_None)
qed

lemma handle_payload_cases:
  obtains e where "handle_payload c am ev s = (Inl e, s)"
  | t p where "ps_state s = Transferring" "ps_role s = Target" "validate_event_from_peer c ev s = None"
      "handle_payload c am ev s = (Inr (t, p), record_event ev (s\<lparr>ps_state := PayloadExchanged\<rparr>))"
proof (cases "first_error [check_expired (am_now am) s, expect_state Transferring s, expect_role Target s,
         validate_event_from_peer c ev s]")
  case (Some e)
  then show ?thesis using that(1) by (simp add: handle_payload_def)
next
  case None
  have "(\<exists>e. handle_payload c am ev s = (Inl e, s)) \<or>
      (\<exists>t p. handle_payload c am ev s = (Inr (t, p), record_event ev (s\<lparr>ps_state := PayloadExchanged\<rparr>)))"
    using None by (simp add: handle_payload_def split: sum.splits pairing_message.splits)
  then show ?thesis
    using None that by (auto simp: first_error_None)
qed

lemma send_complete_cases:
  obtains "snd (send_complete c am s) = s"
  | "ps_state s = PayloadExchanged" "ps_role s = Target" "snd (send_complete c am s) = s\<lparr>ps_state := Completed\<rparr>"
proof (cases "first_error [check_expired (am_now am) s, expect_state PayloadExchanged s, expect_role Target s]")
  case (Some e)
  then show ?thesis using that(1) by (simp add: send_complete_def)
next
  case None
  then have "snd (send_complete c am s) = s \<or> snd (send_complete c am s) = s\<lparr>ps_state := Completed\<rparr>"
    by (simp add: send_complete_def split: sum.splits)
  then show ?thesis using None that by (auto simp: first_error_None)
qed

lemma abort_cases:
  obtains "snd (abort_session c am r s) = s"
  | "\<not> is_terminal (ps_state s)" "snd (abort_session c am r s) = s\<lparr>ps_state := Aborted\<rparr>"
proof -
  have "snd (abort_session c am r s) = s \<or>
      \<not> is_terminal (ps_state s) \<and> snd (abort_session c am r s) = s\<lparr>ps_state := Aborted\<rparr>"
    by (simp add: abort_session_def split: sum.splits)
  then show ?thesis using that by blast
qed

lemma handle_abort_cases:
  obtains "snd (handle_abort c ev s) = s"
  | "\<not> is_terminal (ps_state s)" "snd (handle_abort c ev s) = record_event ev (s\<lparr>ps_state := Aborted\<rparr>)"
proof -
  have "snd (handle_abort c ev s) = s \<or>
      \<not> is_terminal (ps_state s) \<and> snd (handle_abort c ev s) = record_event ev (s\<lparr>ps_state := Aborted\<rparr>)"
    by (simp add: handle_abort_def split: option.splits sum.splits pairing_message.splits)
  then show ?thesis using that by blast
qed

text \<open>One step, seen from its effect on the session.\<close>

lemma record_event_sel [simp]:
  "ps_state (record_event ev s) = ps_state s" "ps_role (record_event ev s) = ps_role s"
  "ps_peer_pubkey (record_event ev s) = ps_peer_pubkey s" "ps_sas_input (record_event ev s) = ps_sas_input s"
  "ps_keys (record_event ev s) = ps_keys s" "ps_session_secret (record_event ev s) = ps_session_secret s"
  "ps_session_id (record_event ev s) = ps_session_id s"
  by (simp_all add: record_event_def)

lemma is_terminal_simps [simp]:
  "is_terminal Completed" "is_terminal Aborted" "\<not> is_terminal Waiting" "\<not> is_terminal Confirming"
  "\<not> is_terminal AwaitingConfirmation" "\<not> is_terminal Transferring" "\<not> is_terminal PayloadExchanged"
  by (simp_all add: is_terminal_def)

lemma pair_step_same: "same_session s (pair_step c s (am, op))"
proof (cases op)
  case (HandleOffer ev)
  then show ?thesis
    by (cases rule: handle_offer_cases [of c am ev s]) (simp_all add: accept_offer_facts)
next
  case ConfirmSas
  then show ?thesis by (cases rule: confirm_sas_cases [of c am s]) (simp_all add: same_session_def)
next
  case (SendPayload t p)
  then show ?thesis by (cases rule: send_payload_cases [of c am t p s]) (simp_all add: same_session_def)
next
  case (HandleComplete ev)
  then show ?thesis by (cases rule: handle_complete_cases [of c am ev s]) simp_all
next
  case (HandleSasConfirm ev)
  then show ?thesis by (cases rule: handle_sas_confirm_cases [of c am ev s]) (simp_all add: same_session_def)
next
  case ConfirmTargetSas
  then show ?thesis by (cases rule: confirm_target_sas_cases [of am s]) (simp_all add: same_session_def)
next
  case (HandlePayload ev)
  then show ?thesis by (cases rule: handle_payload_cases [of c am ev s]) (simp_all add: same_session_def)
next
  case SendComplete
  then show ?thesis by (cases rule: send_complete_cases [of c am s]) (simp_all add: same_session_def)
next
  case (AbortSession r)
  then show ?thesis by (cases rule: abort_cases [of c am r s]) (simp_all add: same_session_def)
next
  case (HandleAbort ev)
  then show ?thesis by (cases rule: handle_abort_cases [of c ev s]) (simp_all add: same_session_def)
qed

lemma pair_run_same: "same_session s (pair_run c s ops)"
  by (induction ops arbitrary: s) (auto intro: same_session_trans pair_step_same)

lemma pair_step_terminal: "is_terminal (ps_state s) \<Longrightarrow> pair_step c s (am, op) = s"
proof (cases op)
  case (HandleOffer ev)
  then show "is_terminal (ps_state s) \<Longrightarrow> ?thesis" by (cases rule: handle_offer_cases [of c am ev s]) auto
next
  case ConfirmSas
  then show "is_terminal (ps_state s) \<Longrightarrow> ?thesis" by (cases rule: confirm_sas_cases [of c am s]) auto
next
  case (SendPayload t p)
  then show "is_terminal (ps_state s) \<Longrightarrow> ?thesis" by (cases rule: send_payload_cases [of c am t p s]) auto
next
  case (HandleComplete ev)
  then show "is_terminal (ps_state s) \<Longrightarrow> ?thesis" by (cases rule: handle_complete_cases [of c am ev s]) auto
next
  case (HandleSasConfirm ev)
  then show "is_terminal (ps_state s) \<Longrightarrow> ?thesis"
    by (cases rule: handle_sas_confirm_cases [of c am ev s]) auto
next
  case ConfirmTargetSas
  then show "is_terminal (ps_state s) \<Longrightarrow> ?thesis" by (cases rule: confirm_target_sas_cases [of am s]) auto
next
  case (HandlePayload ev)
  then show "is_terminal (ps_state s) \<Longrightarrow> ?thesis" by (cases rule: handle_payload_cases [of c am ev s]) auto
next
  case SendComplete
  then show "is_terminal (ps_state s) \<Longrightarrow> ?thesis" by (cases rule: send_complete_cases [of c am s]) auto
next
  case (AbortSession r)
  then show "is_terminal (ps_state s) \<Longrightarrow> ?thesis" by (cases rule: abort_cases [of c am r s]) auto
next
  case (HandleAbort ev)
  then show "is_terminal (ps_state s) \<Longrightarrow> ?thesis" by (cases rule: handle_abort_cases [of c ev s]) auto
qed

text \<open>
  Completed and aborted are final: no sequence of calls and events, at any time, changes a
  finished session again.
\<close>

theorem finished_session_is_final:
  assumes "is_terminal (ps_state s)"
  shows "pair_run c s ops = s"
  using assms by (induction ops) (auto simp: pair_step_terminal)

section \<open>The target's order of events\<close>

text \<open>How far a target session has come, by what must have happened before.\<close>

definition matched_in :: "pairing_crypto \<Rightarrow> pairing_session \<Rightarrow> (ambient \<times> pairing_op) list \<Rightarrow> bool" where
  "matched_in c s0 ops \<longleftrightarrow>
     (\<exists>pre am ev post. ops = pre @ (am, HandleSasConfirm ev) # post \<and> transcript_matches c s0 ev)"

definition approved_in :: "pairing_crypto \<Rightarrow> pairing_session \<Rightarrow> (ambient \<times> pairing_op) list \<Rightarrow> bool" where
  "approved_in c s0 ops \<longleftrightarrow>
     (\<exists>pre am ev mid am' post.
        ops = pre @ (am, HandleSasConfirm ev) # mid @ (am', ConfirmTargetSas) # post \<and>
        transcript_matches c s0 ev)"

lemma matched_in_snoc: "matched_in c s0 ops \<Longrightarrow> matched_in c s0 (ops @ [x])"
  unfolding matched_in_def by (metis append.assoc append_Cons)

lemma approved_in_snoc: "approved_in c s0 ops \<Longrightarrow> approved_in c s0 (ops @ [x])"
  unfolding approved_in_def by (metis append.assoc append_Cons)

lemma approved_in_step: "matched_in c s0 ops \<Longrightarrow> approved_in c s0 (ops @ [(am, ConfirmTargetSas)])"
proof -
  assume "matched_in c s0 ops"
  then obtain pre am1 ev post where "ops = pre @ (am1, HandleSasConfirm ev) # post" "transcript_matches c s0 ev"
    by (auto simp: matched_in_def)
  then show ?thesis
    unfolding approved_in_def by (intro exI [of _ pre] exI [of _ am1] exI [of _ ev] exI [of _ post]
        exI [of _ am] exI [of _ "[]"]) simp
qed

definition target_history ::
  "pairing_crypto \<Rightarrow> pairing_session \<Rightarrow> (ambient \<times> pairing_op) list \<Rightarrow> pairing_session \<Rightarrow> bool" where
  "target_history c s0 ops s \<longleftrightarrow>
     ps_role s = Target \<and> ps_peer_pubkey s = ps_peer_pubkey s0 \<and> ps_sas_input s = ps_sas_input s0 \<and>
     same_session s0 s \<and>
     (ps_state s = AwaitingConfirmation \<longrightarrow> matched_in c s0 ops) \<and>
     (ps_state s = Transferring \<or> ps_state s = PayloadExchanged \<longrightarrow> approved_in c s0 ops)"

lemma transcript_matches_same:
  "same_session s0 s \<Longrightarrow> ps_peer_pubkey s = ps_peer_pubkey s0 \<Longrightarrow> ps_sas_input s = ps_sas_input s0 \<Longrightarrow>
   transcript_matches c s ev = transcript_matches c s0 ev"
proof -
  assume a: "same_session s0 s" "ps_peer_pubkey s = ps_peer_pubkey s0" "ps_sas_input s = ps_sas_input s0"
  have "decrypt_message c ev s = decrypt_message c ev s0"
    unfolding decrypt_message_def using a(1) by (simp only: same_session_def)
  then show ?thesis using a by (simp add: transcript_matches_def same_session_def)
qed

lemma matched_in_now: "transcript_matches c s0 ev \<Longrightarrow> matched_in c s0 (ops @ [(am, HandleSasConfirm ev)])"
  unfolding matched_in_def by (metis append_Nil2 append_Cons)

lemma target_history_step:
  assumes h: "target_history c s0 ops s"
  shows "target_history c s0 (ops @ [(am, op)]) (pair_step c s (am, op))"
proof -
  have keep: "target_history c s0 (ops @ [(am, op)]) s"
    using h by (auto simp: target_history_def intro: matched_in_snoc approved_in_snoc)
  have abort: "target_history c s0 (ops @ [(am, op)]) (s\<lparr>ps_state := Aborted\<rparr>)"
    "target_history c s0 (ops @ [(am, op)]) (record_event ev (s\<lparr>ps_state := Aborted\<rparr>))"
    "target_history c s0 (ops @ [(am, op)]) (s\<lparr>ps_state := Completed\<rparr>)" for ev
    using h by (auto simp: target_history_def same_session_def)
  have target: "ps_role s \<noteq> Source" using h by (simp add: target_history_def)
  show ?thesis
  proof (cases op)
    case (HandleOffer ev)
    then show ?thesis using keep target by (cases rule: handle_offer_cases [of c am ev s]) auto
  next
    case ConfirmSas
    then show ?thesis using keep target by (cases rule: confirm_sas_cases [of c am s]) auto
  next
    case (SendPayload t p)
    then show ?thesis using keep target by (cases rule: send_payload_cases [of c am t p s]) auto
  next
    case (HandleComplete ev)
    then show ?thesis using keep target by (cases rule: handle_complete_cases [of c am ev s]) auto
  next
    case (HandleSasConfirm ev)
    show ?thesis
    proof (cases rule: handle_sas_confirm_cases [of c am ev s])
      case 1 then show ?thesis using keep HandleSasConfirm by simp
    next
      case 2 then show ?thesis using abort HandleSasConfirm by simp
    next
      case 3
      have "transcript_matches c s0 ev"
        using h 3(3) transcript_matches_same [of s0 s] by (simp add: target_history_def)
      then show ?thesis
        using h 3(4) HandleSasConfirm matched_in_now by (auto simp: target_history_def same_session_def)
    qed
  next
    case ConfirmTargetSas
    show ?thesis
    proof (cases rule: confirm_target_sas_cases [of am s])
      case 1 then show ?thesis using keep ConfirmTargetSas by simp
    next
      case 2
      then have "matched_in c s0 ops" using h by (simp add: target_history_def)
      then show ?thesis
        using h 2(3) ConfirmTargetSas approved_in_step by (auto simp: target_history_def same_session_def)
    qed
  next
    case (HandlePayload ev)
    show ?thesis
    proof (cases rule: handle_payload_cases [of c am ev s])
      case 1 then show ?thesis using keep HandlePayload by simp
    next
      case (2 t p)
      then have "approved_in c s0 (ops @ [(am, op)])"
        using h approved_in_snoc by (simp add: target_history_def)
      then show ?thesis
        using h 2(4) HandlePayload by (auto simp: target_history_def same_session_def)
    qed
  next
    case SendComplete
    then show ?thesis using keep abort by (cases rule: send_complete_cases [of c am s]) auto
  next
    case (AbortSession r)
    then show ?thesis using keep abort by (cases rule: abort_cases [of c am r s]) auto
  next
    case (HandleAbort ev)
    then show ?thesis using keep abort by (cases rule: handle_abort_cases [of c ev s]) auto
  qed
qed

lemma target_history_run:
  assumes "target_history c s0 [] s0"
  shows "target_history c s0 ops (pair_run c s0 ops)"
proof (induction ops rule: rev_induct)
  case (snoc x ops)
  then show ?case using target_history_step [of c s0 ops _ "fst x" "snd x"] by simp
qed (use assms in simp)

lemma new_target_facts:
  assumes "new_target c am sk qr = Inr (s0, ev)"
  shows "ps_role s0 = Target" "ps_state s0 = Confirming" "ps_peer_pubkey s0 = Some (qr_source_pubkey qr)"
    "ps_keys s0 = sk"
  using assms
  by (auto simp: new_target_def Let_def split: option.splits sum.splits prod.splits)

text \<open>
  C9: A target hands out a payload only after the two checks of the protocol, in this order: a
  \<open>sas-confirm\<close> event from the scanned peer whose transcript hash is the one the target computes
  itself, then the user's explicit approval of the code. The payload comes from that same peer.
\<close>

theorem payload_needs_match_and_approval:
  assumes t: "new_target c am0 sk qr = Inr (s0, offer)"
    and p: "fst (handle_payload c am ev (pair_run c s0 ops)) = Inr (ptype, payload)"
  shows "ev_pubkey ev = qr_source_pubkey qr \<and>
    (\<exists>pre am1 ev1 mid am2 post.
       ops = pre @ (am1, HandleSasConfirm ev1) # mid @ (am2, ConfirmTargetSas) # post \<and>
       transcript_matches c s0 ev1)"
proof -
  note f = new_target_facts [OF t]
  have h: "target_history c s0 ops (pair_run c s0 ops)"
    by (rule target_history_run) (simp add: target_history_def f)
  show ?thesis
    using p h f(3) from_peer_None [of c ev "pair_run c s0 ops" "qr_source_pubkey qr"]
    by (cases rule: handle_payload_cases [of c am ev "pair_run c s0 ops"])
      (auto simp: target_history_def approved_in_def)
qed

section \<open>The source's order of events\<close>

text \<open>An offer that proves knowledge of the session secret of the QR code.\<close>

definition offer_proves_secret :: "pairing_crypto \<Rightarrow> pairing_session \<Rightarrow> nostr_event \<Rightarrow> bool" where
  "offer_proves_secret c s ev \<longleftrightarrow>
     (\<exists>sid. decrypt_message c ev s = Inr (Offer sid 1) \<and> decode32 c sid = Some (ps_session_id s))"

definition offered_in ::
  "pairing_crypto \<Rightarrow> pairing_session \<Rightarrow> (ambient \<times> pairing_op) list \<Rightarrow> string option \<Rightarrow> bool" where
  "offered_in c s0 ops peer \<longleftrightarrow>
     (\<exists>pre am ev post. ops = pre @ (am, HandleOffer ev) # post \<and> offer_proves_secret c s0 ev \<and>
        peer = Some (ev_pubkey ev))"

definition confirmed_in ::
  "pairing_crypto \<Rightarrow> pairing_session \<Rightarrow> (ambient \<times> pairing_op) list \<Rightarrow> string option \<Rightarrow> bool" where
  "confirmed_in c s0 ops peer \<longleftrightarrow>
     (\<exists>pre am ev mid am' post.
        ops = pre @ (am, HandleOffer ev) # mid @ (am', ConfirmSas) # post \<and>
        offer_proves_secret c s0 ev \<and> peer = Some (ev_pubkey ev))"

lemma offered_in_snoc: "offered_in c s0 ops peer \<Longrightarrow> offered_in c s0 (ops @ [x]) peer"
  unfolding offered_in_def by (metis append.assoc append_Cons)

lemma confirmed_in_snoc: "confirmed_in c s0 ops peer \<Longrightarrow> confirmed_in c s0 (ops @ [x]) peer"
  unfolding confirmed_in_def by (metis append.assoc append_Cons)

lemma confirmed_in_step: "offered_in c s0 ops peer \<Longrightarrow> confirmed_in c s0 (ops @ [(am, ConfirmSas)]) peer"
proof -
  assume "offered_in c s0 ops peer"
  then obtain pre am1 ev post where "ops = pre @ (am1, HandleOffer ev) # post"
    "offer_proves_secret c s0 ev" "peer = Some (ev_pubkey ev)"
    by (auto simp: offered_in_def)
  then show ?thesis
    unfolding confirmed_in_def by (intro exI [of _ pre] exI [of _ am1] exI [of _ ev] exI [of _ post]
        exI [of _ am] exI [of _ "[]"]) simp
qed

lemma offered_in_now:
  "offer_proves_secret c s0 ev \<Longrightarrow> offered_in c s0 (ops @ [(am, HandleOffer ev)]) (Some (ev_pubkey ev))"
  unfolding offered_in_def by (metis append_Nil2 append_Cons)

lemma offer_proves_same:
  "same_session s0 s \<Longrightarrow> offer_proves_secret c s ev = offer_proves_secret c s0 ev"
proof -
  assume a: "same_session s0 s"
  have "decrypt_message c ev s = decrypt_message c ev s0"
    unfolding decrypt_message_def using a by (simp only: same_session_def)
  then show ?thesis using a by (simp add: offer_proves_secret_def same_session_def)
qed

definition source_history ::
  "pairing_crypto \<Rightarrow> pairing_session \<Rightarrow> (ambient \<times> pairing_op) list \<Rightarrow> pairing_session \<Rightarrow> bool" where
  "source_history c s0 ops s \<longleftrightarrow>
     ps_role s = Source \<and> same_session s0 s \<and>
     (ps_state s = Confirming \<longrightarrow> offered_in c s0 ops (ps_peer_pubkey s)) \<and>
     (ps_state s = Transferring \<or> ps_state s = PayloadExchanged \<longrightarrow> confirmed_in c s0 ops (ps_peer_pubkey s))"

lemma source_history_step:
  assumes h: "source_history c s0 ops s"
  shows "source_history c s0 (ops @ [(am, op)]) (pair_step c s (am, op))"
proof -
  have keep: "source_history c s0 (ops @ [(am, op)]) s"
    using h by (auto simp: source_history_def intro: offered_in_snoc confirmed_in_snoc)
  have terminal: "source_history c s0 (ops @ [(am, op)]) t" if "same_session s t" "is_terminal (ps_state t)" for t
    using h that by (auto simp: source_history_def same_session_def is_terminal_def)
  have source: "ps_role s \<noteq> Target" using h by (simp add: source_history_def)
  show ?thesis
  proof (cases op)
    case (HandleOffer ev)
    show ?thesis
    proof (cases rule: handle_offer_cases [of c am ev s])
      case 1 then show ?thesis using keep HandleOffer by simp
    next
      case (2 sid)
      let ?t = "snd (accept_offer c ev s)"
      have "offer_proves_secret c s0 ev"
        using 2(3,4) h offer_proves_same [of s0 s c ev] by (auto simp: source_history_def offer_proves_secret_def)
      then have "offered_in c s0 (ops @ [(am, op)]) (ps_peer_pubkey ?t)"
        unfolding accept_offer_facts(2) HandleOffer by (rule offered_in_now)
      moreover have "same_session s0 ?t" "ps_role ?t = Source"
        using h accept_offer_facts(1) [of s c ev] by (auto simp: source_history_def same_session_def)
      ultimately have "source_history c s0 (ops @ [(am, op)]) ?t"
        using accept_offer_facts(3) [of c ev s] 2(1) by (auto simp: source_history_def)
      then show ?thesis using 2(5) HandleOffer by simp
    qed
  next
    case ConfirmSas
    show ?thesis
    proof (cases rule: confirm_sas_cases [of c am s])
      case 1 then show ?thesis using keep ConfirmSas by simp
    next
      case 2
      then have "confirmed_in c s0 (ops @ [(am, op)]) (ps_peer_pubkey s)"
        using h confirmed_in_step ConfirmSas by (simp add: source_history_def)
      then show ?thesis using h 2(3) ConfirmSas by (auto simp: source_history_def same_session_def)
    qed
  next
    case (SendPayload t p)
    show ?thesis
    proof (cases rule: send_payload_cases [of c am t p s])
      case 1 then show ?thesis using keep SendPayload by simp
    next
      case (2 ev)
      then have "confirmed_in c s0 (ops @ [(am, op)]) (ps_peer_pubkey s)"
        using h confirmed_in_snoc by (simp add: source_history_def)
      then show ?thesis using h 2(3) SendPayload by (auto simp: source_history_def same_session_def)
    qed
  next
    case (HandleComplete ev)
    then show ?thesis using keep terminal by (cases rule: handle_complete_cases [of c am ev s]) auto
  next
    case (HandleSasConfirm ev)
    then show ?thesis using keep source terminal
      by (cases rule: handle_sas_confirm_cases [of c am ev s]) (auto simp: same_session_def)
  next
    case ConfirmTargetSas
    then show ?thesis using keep source by (cases rule: confirm_target_sas_cases [of am s]) auto
  next
    case (HandlePayload ev)
    then show ?thesis using keep source by (cases rule: handle_payload_cases [of c am ev s]) auto
  next
    case SendComplete
    then show ?thesis using keep source by (cases rule: send_complete_cases [of c am s]) auto
  next
    case (AbortSession r)
    then show ?thesis using keep terminal by (cases rule: abort_cases [of c am r s]) (auto simp: same_session_def)
  next
    case (HandleAbort ev)
    then show ?thesis using keep terminal by (cases rule: handle_abort_cases [of c ev s]) (auto simp: same_session_def)
  qed
qed

lemma source_history_run:
  assumes "source_history c s0 [] s0"
  shows "source_history c s0 ops (pair_run c s0 ops)"
proof (induction ops rule: rev_induct)
  case (snoc x ops)
  then show ?case using source_history_step [of c s0 ops _ "fst x" "snd x"] by simp
qed (use assms in simp)

text \<open>
  A source sends its secret only after an offer that proves knowledge of the QR secret and,
  later, the user's confirmation of the code; and it encrypts the secret to the peer that made
  that offer.
\<close>

theorem secret_needs_offer_and_confirmation:
  assumes s0: "s0 = fst (new_source c now sk secret relay)"
    and p: "send_payload c am ptype payload (pair_run c s0 ops) = (Inr ev, s)"
  shows "\<exists>pre am1 ev1 mid am2 post j x.
    ops = pre @ (am1, HandleOffer ev1) # mid @ (am2, ConfirmSas) # post \<and>
    offer_proves_secret c s0 ev1 \<and>
    pc_to_json c (Payload ptype payload) = Some j \<and>
    pc_encrypt c sk (ev_pubkey ev1) j (am_nonce am) = Some x \<and>
    pc_sign c sk KIND_PAIRING [[''p'', ev_pubkey ev1]] (am_unix_secs am - am_random am mod 31) x = Some ev"
proof -
  let ?s = "pair_run c s0 ops"
  have h: "source_history c s0 ops ?s"
    by (rule source_history_run) (simp add: source_history_def s0 new_source_def)
  have st: "ps_state ?s = Transferring" and b: "build_event c am (Payload ptype payload) ?s = Inr ev"
    using p by (cases rule: send_payload_cases [of c am ptype payload ?s]; auto)+
  have "confirmed_in c s0 ops (ps_peer_pubkey ?s)" using h st by (simp add: source_history_def)
  then obtain pre am1 ev1 mid am2 post where
    o': "ops = pre @ (am1, HandleOffer ev1) # mid @ (am2, ConfirmSas) # post" and
    pr: "offer_proves_secret c s0 ev1" and peer: "ps_peer_pubkey ?s = Some (ev_pubkey ev1)"
    by (auto simp: confirmed_in_def)
  have k: "ps_keys ?s = sk"
    using h by (simp add: source_history_def same_session_def s0 new_source_def)
  obtain j x where "pc_to_json c (Payload ptype payload) = Some j"
    "pc_encrypt c sk (ev_pubkey ev1) j (am_nonce am) = Some x"
    "pc_sign c sk KIND_PAIRING [[''p'', ev_pubkey ev1]] (am_unix_secs am - am_random am mod 31) x = Some ev"
    using b unfolding build_event_def peer k by (auto split: option.splits)
  then show ?thesis using o' pr by blast
qed

section \<open>A complete exchange\<close>

text \<open>
  What the primitives promise: HKDF gives the 32 bytes asked for, hex and JSON decode what they encoded,
  key agreement is symmetric, signing yields a valid event with the given fields, and NIP-44 encrypts a
  plaintext of 1 to 65535 bytes so that the peer can decrypt it. Nothing is assumed of event ids.
\<close>

fun fixed_size :: "pairing_message \<Rightarrow> bool" where
  "fixed_size (Offer sid v) \<longleftrightarrow> length sid \<le> 64 \<and> v = 1"
| "fixed_size (SasConfirm h) \<longleftrightarrow> length h \<le> 64"
| "fixed_size (Complete b) \<longleftrightarrow> True"
| "fixed_size (Payload t p) \<longleftrightarrow> False"
| "fixed_size (Abort r) \<longleftrightarrow> True"

text \<open>The version of an offer is a \<open>u32\<close>.\<close>

fun json_message :: "pairing_message \<Rightarrow> bool" where
  "json_message (Offer sid v) \<longleftrightarrow> v < 2 ^ 32"
| "json_message _ \<longleftrightarrow> True"

definition crypto_laws :: "pairing_crypto \<Rightarrow> bool" where
  "crypto_laws c \<longleftrightarrow>
     (\<forall>salt ikm info. 32 \<le> length (pc_hkdf c salt ikm info)) \<and>
     (\<forall>b. pc_hex_decode c (pc_hex_encode c b) = Some b \<and> length (pc_hex_encode c b) = 2 * length b) \<and>
     (\<forall>a b. \<exists>x. pc_shared_key c a (pc_public_key c b) = Some x \<and> pc_shared_key c b (pc_public_key c a) = Some x) \<and>
     (\<forall>m. json_message m \<longrightarrow> (\<exists>j. pc_to_json c m = Some j \<and> pc_from_json c j = Some m \<and> j \<noteq> [] \<and>
        (fixed_size m \<longrightarrow> length j \<le> 65535))) \<and>
     (\<forall>a b p n. 1 \<le> length p \<and> length p \<le> 65535 \<longrightarrow>
        (\<exists>x. pc_encrypt c a (pc_public_key c b) p n = Some x \<and>
           132 \<le> length x \<and> length x \<le> 87472 \<and> pc_decrypt c b (pc_public_key c a) x = Some p)) \<and>
     (\<forall>a k tags ts x. \<exists>ev. pc_sign c a k tags ts x = Some ev \<and> pc_verify c ev \<and>
        ev_pubkey ev = pc_public_key c a \<and> ev_kind ev = k \<and> ev_tags ev = tags \<and> ev_content ev = x)"

lemma crypto_lawsD:
  assumes "crypto_laws c"
  shows "length (hkdf32 c salt ikm info) = 32"
    and "pc_hex_decode c (pc_hex_encode c b) = Some b" "length (pc_hex_encode c b) = 2 * length b"
    and "\<exists>x. pc_shared_key c k (pc_public_key c l) = Some x \<and> pc_shared_key c l (pc_public_key c k) = Some x"
    and "json_message m \<Longrightarrow> \<exists>j. pc_to_json c m = Some j \<and> pc_from_json c j = Some m \<and> j \<noteq> [] \<and>
           (fixed_size m \<longrightarrow> length j \<le> 65535)"
    and "p \<noteq> [] \<Longrightarrow> length p \<le> 65535 \<Longrightarrow> \<exists>x. pc_encrypt c k (pc_public_key c l) p n = Some x \<and>
           132 \<le> length x \<and> length x \<le> 87472 \<and> pc_decrypt c l (pc_public_key c k) x = Some p"
    and "\<exists>ev. pc_sign c k kd tags ts y = Some ev \<and> pc_verify c ev \<and>
        ev_pubkey ev = pc_public_key c k \<and> ev_kind ev = kd \<and> ev_tags ev = tags \<and> ev_content ev = y"
proof -
  show "length (hkdf32 c salt ikm info) = 32"
    using assms by (simp add: crypto_laws_def hkdf32_def)
  show "pc_hex_decode c (pc_hex_encode c b) = Some b" "length (pc_hex_encode c b) = 2 * length b"
    using assms by (simp_all add: crypto_laws_def)
  note laws = assms [unfolded crypto_laws_def]
  note l3 = laws [THEN conjunct2, THEN conjunct2]
  note l4 = l3 [THEN conjunct2]
  note l5 = l4 [THEN conjunct2]
  note l6 = l5 [THEN conjunct2]
  show "\<exists>x. pc_shared_key c k (pc_public_key c l) = Some x \<and> pc_shared_key c l (pc_public_key c k) = Some x"
    using l3 [THEN conjunct1] by (elim allE)
  show "\<exists>j. pc_to_json c m = Some j \<and> pc_from_json c j = Some m \<and> j \<noteq> [] \<and> (fixed_size m \<longrightarrow> length j \<le> 65535)"
    if "json_message m"
    using l4 [THEN conjunct1, rule_format, OF that] .
  show "\<exists>x. pc_encrypt c k (pc_public_key c l) p n = Some x \<and>
      132 \<le> length x \<and> length x \<le> 87472 \<and> pc_decrypt c l (pc_public_key c k) x = Some p"
    if "p \<noteq> []" "length p \<le> 65535"
  proof -
    have "1 \<le> length p \<and> length p \<le> 65535" using that by (cases p) simp_all
    then show ?thesis by (rule l5 [THEN conjunct1, rule_format])
  qed
  show "\<exists>ev. pc_sign c k kd tags ts y = Some ev \<and> pc_verify c ev \<and>
        ev_pubkey ev = pc_public_key c k \<and> ev_kind ev = kd \<and> ev_tags ev = tags \<and> ev_content ev = y"
    using l6 by (elim allE)
qed

lemma decode32_encode:
  "crypto_laws c \<Longrightarrow> length b = 32 \<Longrightarrow> decode32 c (pc_hex_encode c b) = Some b"
  by (simp add: decode32_def crypto_lawsD)

text \<open>Sending a message to the peer: what the peer's checks see.\<close>

lemma sent_message:
  assumes c: "crypto_laws c" and peer: "ps_peer_pubkey s = Some (pc_public_key c k)"
    and m: "json_message m" "fixed_size m \<or> (\<exists>j. pc_to_json c m = Some j \<and> length j \<le> 65535)"
  obtains ev j where "build_event c am m s = Inr ev" "pc_verify c ev" "ev_kind ev = KIND_PAIRING"
    "ev_pubkey ev = pc_public_key c (ps_keys s)" "has_p_tag (pc_public_key c k) ev"
    "\<And>r. ps_keys r = k \<Longrightarrow> decrypt_message c ev r = Inr m"
    "pc_to_json c m = Some j" "pc_from_json c j = Some m" "pc_decrypt c k (pc_public_key c (ps_keys s)) (ev_content ev) = Some j"
proof -
  obtain j where j: "pc_to_json c m = Some j" "pc_from_json c j = Some m" "j \<noteq> []" "length j \<le> 65535"
    using crypto_lawsD(5) [OF c m(1)] m(2) by auto
  obtain x where x: "pc_encrypt c (ps_keys s) (pc_public_key c k) j (am_nonce am) = Some x"
    "132 \<le> length x" "length x \<le> 87472" "pc_decrypt c k (pc_public_key c (ps_keys s)) x = Some j"
    using crypto_lawsD(6) [OF c j(3,4)] by blast
  obtain ev where ev: "pc_sign c (ps_keys s) KIND_PAIRING [[''p'', pc_public_key c k]]
      (am_unix_secs am - am_random am mod 31) x = Some ev" "pc_verify c ev"
    "ev_pubkey ev = pc_public_key c (ps_keys s)" "ev_kind ev = KIND_PAIRING"
    "ev_tags ev = [[''p'', pc_public_key c k]]" "ev_content ev = x"
    using crypto_lawsD(7) [OF c] by blast
  have d: "decrypt_message c ev r = Inr m" if "ps_keys r = k" for r
    using that j x ev by (simp add: decrypt_message_def Let_def)
  have p: "has_p_tag (pc_public_key c k) ev" using ev(5) by (simp add: has_p_tag_def)
  have b: "build_event c am m s = Inr ev"
    using peer j(1) x(1) ev(1) by (simp add: build_event_def)
  show ?thesis
    by (rule that [OF b ev(2,4,3) p d j(1,2)]) (use ev x j in auto)
qed

text \<open>
  The whole exchange, with the ambient input of each call: the events that were sent, and what the
  exchange gives, \<open>None\<close> as soon as a call fails.
\<close>

fun carry_on :: "nostr_event list \<Rightarrow> 'e + 'a \<Rightarrow> ('a \<Rightarrow> nostr_event list \<times> 'b option) \<Rightarrow> nostr_event list \<times> 'b option" where
  "carry_on sent (Inl e) k = (sent, None)"
| "carry_on sent (Inr x) k = k x"

definition exchange ::
  "pairing_crypto \<Rightarrow> instant \<Rightarrow> (nat \<Rightarrow> ambient) \<Rightarrow> string \<Rightarrow> string \<Rightarrow> string \<Rightarrow> string \<Rightarrow> payload_type \<Rightarrow> string \<Rightarrow>
   nostr_event list \<times> (string \<times> string \<times> (payload_type \<times> string) \<times> pairing_session \<times> pairing_session) option" where
  "exchange c now am sk tk secret relay ptype payload =
     (let (s0, qr) = new_source c now sk secret relay in
      carry_on [] (new_target c (am 0) tk qr) (\<lambda>(t0, offer).
      let (r1, s1) = handle_offer c (am 1) offer s0 in carry_on [offer] r1 (\<lambda>sas_s.
      let (r2, s2) = confirm_sas c (am 2) s1 in carry_on [offer] r2 (\<lambda>conf.
      let (r3, t1) = handle_sas_confirm c (am 3) conf t0 in carry_on [offer, conf] r3 (\<lambda>sas_t.
      let (r4, t2) = confirm_target_sas (am 4) t1 in carry_on [offer, conf] r4 (\<lambda>_.
      let (r5, s3) = send_payload c (am 5) ptype payload s2 in carry_on [offer, conf] r5 (\<lambda>pay.
      let (r6, t3) = handle_payload c (am 6) pay t2 in carry_on [offer, conf, pay] r6 (\<lambda>got.
      let (r7, t4) = send_complete c (am 7) t3 in carry_on [offer, conf, pay] r7 (\<lambda>comp.
      let (r8, s4) = handle_complete c (am 8) comp s3 in carry_on [offer, conf, pay, comp] r8 (\<lambda>_.
      ([offer, conf, pay, comp], Some (sas_s, sas_t, got, s4, t4))))))))))))"

text \<open>No two of the events have the same id.\<close>

definition distinct_ids :: "nostr_event list \<Rightarrow> bool" where
  "distinct_ids evs \<longleftrightarrow> (\<forall>ev \<in> set evs. \<forall>ev' \<in> set evs. ev_id ev = ev_id ev' \<longrightarrow> ev = ev')"

lemma distinct_idsD: "distinct_ids evs \<Longrightarrow> ev \<in> set evs \<Longrightarrow> ev' \<in> set evs \<Longrightarrow> ev \<noteq> ev' \<Longrightarrow> ev_id ev \<noteq> ev_id ev'"
  by (auto simp: distinct_ids_def)

lemma carry_on_sent: "ev \<in> set sent \<Longrightarrow> (\<And>x. ev \<in> set (fst (k x))) \<Longrightarrow> ev \<in> set (fst (carry_on sent r k))"
  by (cases r) auto

lemma not_expired: "am_now am \<le> ps_created_at s + ps_timeout s \<Longrightarrow> check_expired (am_now am) s = None"
  by (simp add: check_expired_def is_expired_def)

lemma validate_ok:
  "pc_verify c ev \<Longrightarrow> ev_id ev \<notin> ps_processed_ids s \<Longrightarrow> ev_kind ev = KIND_PAIRING \<Longrightarrow>
   has_p_tag (pc_public_key c (ps_keys s)) ev \<Longrightarrow> validate_event_basics c ev s = None"
  by (simp add: validate_event_basics_def)

lemma validate_peer_ok:
  "validate_event_basics c ev s = None \<Longrightarrow> ps_peer_pubkey s = Some (ev_pubkey ev) \<Longrightarrow>
   validate_event_from_peer c ev s = None"
  by (simp add: validate_event_from_peer_def)

text \<open>Two messages that decode differently are different events.\<close>

lemma events_differ:
  assumes "pc_decrypt c l pk (ev_content ev) = Some j" "pc_decrypt c l pk (ev_content ev') = Some j'"
    and "pc_from_json c j = Some m" "pc_from_json c j' = Some m'" "m \<noteq> m'"
  shows "ev \<noteq> ev'"
  using assms by auto

text \<open>Every call of an exchange, with its result.\<close>

lemma exchange_steps:
  assumes c: "crypto_laws c"
    and j: "pc_to_json c (Payload ptype payload) = Some j" "length j \<le> 65535"
    and time: "\<forall>i. now \<le> am_now (am i) \<and> am_now (am i) \<le> now + DEFAULT_TIMEOUT"
    and ids: "distinct_ids (fst (exchange c now am sk tk secret relay ptype payload))"
  obtains t0 s1 s2 s3 s4 t1 t2 t3 t4 oe ce pe de sas where
    "new_target c (am 0) tk (snd (new_source c now sk secret relay)) = Inr (t0, oe)"
    "handle_offer c (am 1) oe (fst (new_source c now sk secret relay)) = (Inr sas, s1)"
    "confirm_sas c (am 2) s1 = (Inr ce, s2)"
    "handle_sas_confirm c (am 3) ce t0 = (Inr sas, t1)"
    "confirm_target_sas (am 4) t1 = (Inr (), t2)"
    "send_payload c (am 5) ptype payload s2 = (Inr pe, s3)"
    "handle_payload c (am 6) pe t2 = (Inr (ptype, payload), t3)"
    "send_complete c (am 7) t3 = (Inr de, t4)"
    "handle_complete c (am 8) de s3 = (Inr (), s4)"
    "ps_state s4 = Completed" "ps_state t4 = Completed"
proof -
  let ?S = "pc_public_key c sk" and ?T = "pc_public_key c tk" and ?sid = "derive_session_id c secret"
  have tm: "am_now (am i) \<le> now + DEFAULT_TIMEOUT" "am_now (am i) \<le> am_now (am 0) + DEFAULT_TIMEOUT" for i
    using time [rule_format, of i] time [rule_format, of 0] by simp_all
  obtain x where x: "pc_shared_key c tk ?S = Some x" "pc_shared_key c sk ?T = Some x"
    using crypto_lawsD(4) [OF c, of tk sk] by blast
  obtain code inp where sas: "derive_sas c x secret = (code, inp)" by (cases "derive_sas c x secret")
  have sid: "length ?sid = 32" by (simp add: derive_session_id_def crypto_lawsD(1) [OF c])
  define h where "h = derive_transcript_hash c ?sid (pc_key_bytes c ?S) (pc_key_bytes c ?T) inp secret"
  have h: "length h = 32" by (simp add: h_def derive_transcript_hash_def crypto_lawsD(1) [OF c])
  let ?offer = "Offer (pc_hex_encode c ?sid) 1" and ?conf = "SasConfirm (pc_hex_encode c h)"
    and ?pay = "Payload ptype payload" and ?comp = "Complete True"
  define s0 where "s0 = fst (new_source c now sk secret relay)"
  define t0 where "t0 = \<lparr>ps_role = Target, ps_state = Waiting, ps_keys = tk, ps_session_secret = secret,
     ps_relay_urls = [relay], ps_peer_pubkey = Some ?S, ps_session_id = ?sid, ps_sas_code = Some code,
     ps_sas_input = Some inp, ps_processed_ids = {}, ps_created_at = am_now (am 0), ps_timeout = DEFAULT_TIMEOUT\<rparr>"
  have s0: "ps_role s0 = Source" "ps_state s0 = Waiting" "ps_keys s0 = sk" "ps_session_secret s0 = secret"
    "ps_session_id s0 = ?sid" "ps_processed_ids s0 = {}" "ps_created_at s0 = now" "ps_timeout s0 = DEFAULT_TIMEOUT"
    by (simp_all add: s0_def new_source_def)
  have keys_t: "ps_keys (t0\<lparr>ps_state := st\<rparr>) = tk" for st by (simp add: t0_def)
  \<comment> \<open>the four messages\<close>
  obtain oe oj where oe: "build_event c (am 0) ?offer t0 = Inr oe" "pc_verify c oe" "ev_kind oe = KIND_PAIRING"
    "ev_pubkey oe = ?T" "has_p_tag ?S oe" "\<And>r. ps_keys r = sk \<Longrightarrow> decrypt_message c oe r = Inr ?offer"
    "pc_from_json c oj = Some ?offer" "pc_decrypt c sk ?T (ev_content oe) = Some oj"
    by (rule sent_message [OF c, of t0 sk ?offer "am 0"]) (use sid crypto_lawsD(3) [OF c] in \<open>auto simp: t0_def\<close>)
  define s1 where "s1 = record_event oe (s0\<lparr>ps_peer_pubkey := Some ?T, ps_sas_code := Some code,
     ps_sas_input := Some inp, ps_state := Confirming\<rparr>)"
  obtain ce cj where ce: "build_event c (am 2) ?conf s1 = Inr ce" "pc_verify c ce" "ev_kind ce = KIND_PAIRING"
    "ev_pubkey ce = ?S" "has_p_tag ?T ce" "\<And>r. ps_keys r = tk \<Longrightarrow> decrypt_message c ce r = Inr ?conf"
    "pc_from_json c cj = Some ?conf" "pc_decrypt c tk ?S (ev_content ce) = Some cj"
    by (rule sent_message [OF c, of s1 tk ?conf "am 2"])
      (use h crypto_lawsD(3) [OF c] in \<open>auto simp: s1_def s0(3) record_event_def\<close>)
  define t1 where "t1 = record_event ce (t0\<lparr>ps_state := AwaitingConfirmation\<rparr>)"
  define s2 where "s2 = s1\<lparr>ps_state := Transferring\<rparr>"
  define t2 where "t2 = t1\<lparr>ps_state := Transferring\<rparr>"
  obtain pe pj where pe: "build_event c (am 5) ?pay s2 = Inr pe" "pc_verify c pe" "ev_kind pe = KIND_PAIRING"
    "ev_pubkey pe = ?S" "has_p_tag ?T pe" "\<And>r. ps_keys r = tk \<Longrightarrow> decrypt_message c pe r = Inr ?pay"
    "pc_from_json c pj = Some ?pay" "pc_decrypt c tk ?S (ev_content pe) = Some pj"
    by (rule sent_message [OF c, of s2 tk ?pay "am 5"])
      (use j in \<open>auto simp: s2_def s1_def s0(3) record_event_def\<close>)
  define s3 where "s3 = s2\<lparr>ps_state := PayloadExchanged\<rparr>"
  define t3 where "t3 = record_event pe (t2\<lparr>ps_state := PayloadExchanged\<rparr>)"
  obtain de dj where de: "build_event c (am 7) ?comp t3 = Inr de" "pc_verify c de" "ev_kind de = KIND_PAIRING"
    "ev_pubkey de = ?T" "has_p_tag ?S de" "\<And>r. ps_keys r = sk \<Longrightarrow> decrypt_message c de r = Inr ?comp"
    "pc_from_json c dj = Some ?comp" "pc_decrypt c sk ?T (ev_content de) = Some dj"
    by (rule sent_message [OF c, of t3 sk ?comp "am 7"])
      (auto simp: t3_def t2_def t1_def t0_def record_event_def)
  \<comment> \<open>the calls\<close>
  have st: "ps_peer_pubkey s1 = Some ?T" "ps_keys s1 = sk" "ps_session_secret s1 = secret" "ps_session_id s1 = ?sid"
    "ps_sas_input s1 = Some inp" "ps_state s1 = Confirming" "ps_role s1 = Source"
    "ps_created_at s1 = now" "ps_timeout s1 = DEFAULT_TIMEOUT" "ps_processed_ids s1 = {ev_id oe}"
    by (simp_all add: s1_def s0 record_event_def)
  have tt: "ps_peer_pubkey t0 = Some ?S" "ps_keys t0 = tk" "ps_session_secret t0 = secret" "ps_session_id t0 = ?sid"
    "ps_sas_input t0 = Some inp" "ps_sas_code t0 = Some code" "ps_role t0 = Target"
    "ps_created_at t0 = am_now (am 0)" "ps_timeout t0 = DEFAULT_TIMEOUT" "ps_processed_ids t0 = {}"
    by (simp_all add: t0_def)
  have c0: "new_target c (am 0) tk (snd (new_source c now sk secret relay)) =
      Inr (t0\<lparr>ps_state := Confirming\<rparr>, oe)"
    using oe(1) by (simp add: new_target_def new_source_def x sas Let_def t0_def)
  have c1: "handle_offer c (am 1) oe s0 = (Inr (format_sas code), s1)"
    using oe sid s0 tm(1) [of 1]
    by (simp add: handle_offer_def not_expired validate_ok expect_state_def expect_role_def
        decode32_encode [OF c] ct_eq_def accept_offer_def x sas s1_def Let_def)
  have c2: "confirm_sas c (am 2) s1 = (Inr ce, s2)"
    using ce(1) st tm(1) [of 2]
    by (simp add: confirm_sas_def not_expired expect_state_def expect_role_def h_def [symmetric] Let_def s2_def)
  have c3: "handle_sas_confirm c (am 3) ce (t0\<lparr>ps_state := Confirming\<rparr>) = (Inr (format_sas code), t1)"
    using ce tt h tm(2) [of 3]
    by (simp add: handle_sas_confirm_def not_expired validate_peer_ok validate_ok expect_state_def
        expect_role_def decode32_encode [OF c] ct_eq_def h_def [symmetric] Let_def t1_def record_event_def)
  have c4: "confirm_target_sas (am 4) t1 = (Inr (), t2)"
    using tt tm(2) [of 4]
    by (simp add: confirm_target_sas_def not_expired expect_state_def expect_role_def t1_def t2_def record_event_def)
  have c5: "send_payload c (am 5) ptype payload s2 = (Inr pe, s3)"
    using pe(1) st tm(1) [of 5]
    by (simp add: send_payload_def not_expired expect_state_def expect_role_def s2_def s3_def)
  let ?ex = "exchange c now am sk tk secret relay ptype payload"
  note calls = c0 c1 [unfolded s0_def] c2 c3 c4 c5
  have early: "pe \<in> set (fst ?ex) \<and> ce \<in> set (fst ?ex)"
    unfolding exchange_def
    by (subst (1 2) prod.collapse [of "new_source c now sk secret relay", symmetric])
      (simp add: calls [unfolded One_nat_def] carry_on_sent split: prod.split del: prod.collapse)
  have "pe \<noteq> ce" by (rule events_differ [OF pe(8) ce(8) pe(7) ce(7)]) simp
  then have id6: "ev_id pe \<noteq> ev_id ce" using distinct_idsD [OF ids] early by blast
  have c6: "handle_payload c (am 6) pe t2 = (Inr (ptype, payload), t3)"
    using pe tt id6 tm(2) [of 6]
    by (simp add: handle_payload_def not_expired validate_peer_ok validate_ok expect_state_def
        expect_role_def t1_def t2_def t3_def record_event_def)
  have c7: "send_complete c (am 7) t3 = (Inr de, t3\<lparr>ps_state := Completed\<rparr>)"
    using de(1) tt tm(2) [of 7]
    by (simp add: send_complete_def not_expired expect_state_def expect_role_def t1_def t2_def t3_def record_event_def)
  have late: "de \<in> set (fst ?ex) \<and> oe \<in> set (fst ?ex)"
    unfolding exchange_def
    by (subst (1 2) prod.collapse [of "new_source c now sk secret relay", symmetric])
      (simp add: calls [unfolded One_nat_def] c6 c7 carry_on_sent split: prod.split del: prod.collapse)
  have "de \<noteq> oe" by (rule events_differ [OF de(8) oe(8) de(7) oe(7)]) simp
  then have id8: "ev_id de \<noteq> ev_id oe" using distinct_idsD [OF ids] late by blast
  have c8: "handle_complete c (am 8) de s3 = (Inr (), record_event de (s3\<lparr>ps_state := Completed\<rparr>))"
    using de st id8 tm(1) [of 8]
    by (simp add: handle_complete_def not_expired validate_peer_ok validate_ok expect_state_def
        expect_role_def s2_def s3_def)
  show ?thesis
    by (rule that [OF c0 c1 [unfolded s0_def] c2 c3 c4 c5 c6 c7 c8]) (simp_all add: record_event_def)
qed

text \<open>
  C37: With primitives that keep their promises, and every call inside the 120 second lifetime of
  the session, the exchange completes: both sides show the same code, the target receives the
  payload the source sent, and both sessions end completed. The payload message has at most 65535
  bytes, and no two of the (at most four) events that the exchange sends have the same id: a session
  drops an event whose id it has seen.
\<close>

theorem exchange_completes:
  assumes c: "crypto_laws c"
    and j: "pc_to_json c (Payload ptype payload) = Some j" "length j \<le> 65535"
    and time: "\<forall>i. now \<le> am_now (am i) \<and> am_now (am i) \<le> now + DEFAULT_TIMEOUT"
    and ids: "distinct_ids (fst (exchange c now am sk tk secret relay ptype payload))"
  shows "\<exists>sas s t. snd (exchange c now am sk tk secret relay ptype payload) = Some (sas, sas, (ptype, payload), s, t) \<and>
    ps_state s = Completed \<and> ps_state t = Completed"
proof -
  obtain t0 s1 s2 s3 s4 t1 t2 t3 t4 oe ce pe de sas where e:
    "new_target c (am 0) tk (snd (new_source c now sk secret relay)) = Inr (t0, oe)"
    "handle_offer c (am 1) oe (fst (new_source c now sk secret relay)) = (Inr sas, s1)"
    "confirm_sas c (am 2) s1 = (Inr ce, s2)" "handle_sas_confirm c (am 3) ce t0 = (Inr sas, t1)"
    "confirm_target_sas (am 4) t1 = (Inr (), t2)" "send_payload c (am 5) ptype payload s2 = (Inr pe, s3)"
    "handle_payload c (am 6) pe t2 = (Inr (ptype, payload), t3)"
    "send_complete c (am 7) t3 = (Inr de, t4)" "handle_complete c (am 8) de s3 = (Inr (), s4)"
    "ps_state s4 = Completed" "ps_state t4 = Completed"
    using exchange_steps [OF c j time ids] by metis
  have "snd (exchange c now am sk tk secret relay ptype payload) = Some (sas, sas, (ptype, payload), s4, t4)"
    unfolding exchange_def
    by (subst prod.collapse [of "new_source c now sk secret relay", symmetric])
      (simp add: e [unfolded One_nat_def] del: prod.collapse)
  then show ?thesis using e(10,11) by blast
qed

section \<open>Primitives for concrete runs\<close>

text \<open>Stand-ins that keep the promises, to run the protocol on.\<close>

fun toy_json :: "pairing_message \<Rightarrow> string" where
  "toy_json (Offer sid v) = CHR ''o'' # replicate v (CHR ''v'') @ CHR '':'' # sid"
| "toy_json (SasConfirm h) = CHR ''s'' # h"
| "toy_json (Payload t p) =
     CHR ''p'' # (case t of Nsec \<Rightarrow> CHR ''n'' | Bunker \<Rightarrow> CHR ''b'' | Connect \<Rightarrow> CHR ''c'' | CustomPayload \<Rightarrow> CHR ''u'') # p"
| "toy_json (Complete b) = (if b then ''ct'' else ''cf'')"
| "toy_json (Abort r) =
     (case r of SasMismatchReason \<Rightarrow> ''as'' | UserDenied \<Rightarrow> ''ad'' | Timeout \<Rightarrow> ''at''
      | ProtocolError \<Rightarrow> ''ap'' | UnknownReason \<Rightarrow> ''au'')"

definition toy_parse :: "string \<Rightarrow> pairing_message option" where
  "toy_parse s =
     (case s of [] \<Rightarrow> None
      | k # r \<Rightarrow>
          if k = CHR ''o'' then
            Some (Offer (tl (dropWhile (\<lambda>x. x = CHR ''v'') r)) (length (takeWhile (\<lambda>x. x = CHR ''v'') r)))
          else if k = CHR ''s'' then Some (SasConfirm r)
          else if k = CHR ''p'' then
            Some (Payload (if hd r = CHR ''n'' then Nsec else if hd r = CHR ''b'' then Bunker
              else if hd r = CHR ''c'' then Connect else CustomPayload) (tl r))
          else if k = CHR ''c'' then Some (Complete (r = ''t''))
          else Some (Abort (if r = ''s'' then SasMismatchReason else if r = ''d'' then UserDenied
            else if r = ''t'' then Timeout else if r = ''p'' then ProtocolError else UnknownReason)))"

fun toy_unhex :: "string \<Rightarrow> string option" where
  "toy_unhex [] = Some []"
| "toy_unhex [x] = None"
| "toy_unhex (x # y # r) = map_option (Cons x) (toy_unhex r)"

definition toy_crypto :: pairing_crypto where
  "toy_crypto =
     \<lparr>pc_hkdf = (\<lambda>salt ikm info. replicate 32 (CHR ''k'')),
      pc_public_key = (\<lambda>k. k), pc_key_bytes = (\<lambda>k. k), pc_shared_key = (\<lambda>k pk. Some []),
      pc_to_json = (\<lambda>m. Some (toy_json m)), pc_from_json = toy_parse,
      pc_encrypt = (\<lambda>k pk p n. Some (replicate 132 (CHR ''x'') @ p)),
      pc_decrypt = (\<lambda>k pk x. Some (drop 132 x)),
      pc_sign = (\<lambda>k kind tags ts x. Some \<lparr>ev_id = x, ev_pubkey = k, ev_created_at = ts, ev_kind = kind,
        ev_tags = tags, ev_content = x\<rparr>),
      pc_verify = (\<lambda>ev. True),
      pc_hex_encode = (\<lambda>b. concat (map (\<lambda>x. [x, x]) b)), pc_hex_decode = toy_unhex\<rparr>"

lemma toy_parse_json: "toy_parse (toy_json m) = Some m"
proof (cases m)
  case (Offer sid v)
  then show ?thesis by (simp add: toy_parse_def takeWhile_append dropWhile_append)
next
  case (Payload t p)
  then show ?thesis by (cases t) (simp_all add: toy_parse_def)
next
  case (Abort r)
  then show ?thesis by (cases r) (simp_all add: toy_parse_def)
qed (auto simp: toy_parse_def)

lemma toy_unhex_hex: "toy_unhex (concat (map (\<lambda>x. [x, x]) b)) = Some b"
  "length (concat (map (\<lambda>x. [x, x]) b)) = 2 * length b"
  by (induction b) auto

lemma toy_json_size: "fixed_size m \<Longrightarrow> length (toy_json m) \<le> 65535"
proof (cases m)
  case (Abort r)
  then show ?thesis by (cases r) simp_all
qed auto

lemma toy_json_nonempty: "toy_json m \<noteq> []"
  by (cases m) (auto split: abort_reason.split)

lemma toy_laws: "crypto_laws toy_crypto"
  by (auto simp: crypto_laws_def toy_crypto_def toy_parse_json toy_unhex_hex toy_json_size toy_json_nonempty)

definition toy_ambient :: "nat \<Rightarrow> ambient" where
  "toy_ambient i = \<lparr>am_now = 5, am_unix_secs = 100, am_random = 7, am_nonce = []\<rparr>"

lemma finished_session_is_final_witness:
  "let s = (fst (new_source toy_crypto 0 ''S'' ''secret'' ''wss''))\<lparr>ps_state := Aborted\<rparr>
   in pair_run toy_crypto s [(toy_ambient 1, ConfirmSas), (toy_ambient 2, AbortSession UserDenied)] = s"
  unfolding Let_def by (rule finished_session_is_final) simp

lemma toy_payload_json:
  "pc_to_json toy_crypto (Payload Nsec ''nsec1'') = Some ''pnnsec1''" "length ''pnnsec1'' \<le> 65535"
  by (simp_all add: toy_crypto_def)

lemma toy_json_eq: "toy_json m = toy_json m' \<longleftrightarrow> m = m'"
  by (metis toy_parse_json option.inject)

lemma toy_lengths:
  "length (toy_json (Offer sid 1)) = 3 + length sid" "length (toy_json (SasConfirm h)) = 1 + length h"
  "length (toy_json (Payload t p)) = 2 + length p" "length (toy_json (Complete True)) = 2"
  by simp_all

lemma toy_fields:
  "pc_hkdf toy_crypto salt ikm info = replicate 32 (CHR ''k'')" "pc_public_key toy_crypto k = k" "pc_key_bytes toy_crypto k = k"
  "pc_shared_key toy_crypto k pk = Some []" "pc_to_json toy_crypto m = Some (toy_json m)" "pc_from_json toy_crypto j = toy_parse j"
  "pc_encrypt toy_crypto k pk p n = Some (replicate 132 (CHR ''x'') @ p)" "pc_decrypt toy_crypto k pk x = Some (drop 132 x)"
  "pc_sign toy_crypto k kind tags ts x = Some \<lparr>ev_id = x, ev_pubkey = k, ev_created_at = ts, ev_kind = kind, ev_tags = tags, ev_content = x\<rparr>"
  "pc_verify toy_crypto ev" "pc_hex_decode toy_crypto (pc_hex_encode toy_crypto b) = Some b"
  "length (pc_hex_encode toy_crypto b) = 2 * length b"
  by (simp_all add: toy_crypto_def toy_unhex_hex)

lemmas pairing_calls =
  exchange_def new_source_def new_target_def build_event_def handle_offer_def accept_offer_def confirm_sas_def handle_sas_confirm_def
  confirm_target_sas_def send_payload_def handle_payload_def send_complete_def handle_complete_def record_event_def
  validate_event_basics_def validate_event_from_peer_def has_p_tag_def decrypt_message_def decode32_def ct_eq_def
  check_expired_def is_expired_def expect_state_def expect_role_def derive_sas_def derive_session_id_def
  derive_transcript_hash_def hkdf32_def

lemma toy_ids: "distinct_ids (fst (exchange toy_crypto 0 toy_ambient ''S'' ''T'' ''secret'' ''wss'' Nsec ''nsec1''))"
  by (simp add: pairing_calls toy_fields toy_ambient_def DEFAULT_TIMEOUT_def Let_def toy_parse_json distinct_ids_def toy_json_eq
      toy_lengths del: toy_json.simps)

lemma toy_time: "\<forall>i. 0 \<le> am_now (toy_ambient i) \<and> am_now (toy_ambient i) \<le> 0 + DEFAULT_TIMEOUT"
  by (simp add: toy_ambient_def DEFAULT_TIMEOUT_def)

lemma exchange_completes_witness:
  "\<exists>sas s t. snd (exchange toy_crypto 0 toy_ambient ''S'' ''T'' ''secret'' ''wss'' Nsec ''nsec1'') =
     Some (sas, sas, (Nsec, ''nsec1''), s, t) \<and> ps_state s = Completed \<and> ps_state t = Completed"
  by (rule exchange_completes [OF toy_laws toy_payload_json(1,2) _ toy_ids]) (simp_all add: toy_ambient_def DEFAULT_TIMEOUT_def)

lemma payload_needs_match_and_approval_witness:
  "\<exists>t0 ev ops. fst (handle_payload toy_crypto (toy_ambient 6) ev (pair_run toy_crypto t0 ops)) = Inr (Nsec, ''nsec1'') \<and>
     ev_pubkey ev = ''S'' \<and> (\<exists>ev1. transcript_matches toy_crypto t0 ev1)"
proof -
  obtain t0 s1 s2 s3 s4 t1 t2 t3 t4 oe ce pe de sas where e:
    "new_target toy_crypto (toy_ambient 0) ''T'' (snd (new_source toy_crypto 0 ''S'' ''secret'' ''wss'')) = Inr (t0, oe)"
    "handle_sas_confirm toy_crypto (toy_ambient 3) ce t0 = (Inr sas, t1)"
    "confirm_target_sas (toy_ambient 4) t1 = (Inr (), t2)"
    "handle_payload toy_crypto (toy_ambient 6) pe t2 = (Inr (Nsec, ''nsec1''), t3)"
    using exchange_steps [OF toy_laws toy_payload_json(1,2) toy_time toy_ids] by metis
  let ?ops = "[(toy_ambient 3, HandleSasConfirm ce), (toy_ambient 4, ConfirmTargetSas)]"
  have p: "fst (handle_payload toy_crypto (toy_ambient 6) pe (pair_run toy_crypto t0 ?ops)) = Inr (Nsec, ''nsec1'')"
    using e by simp
  have q: "qr_source_pubkey (snd (new_source toy_crypto 0 ''S'' ''secret'' ''wss'')) = ''S''"
    by (simp add: new_source_def toy_crypto_def)
  show ?thesis
    using payload_needs_match_and_approval [OF e(1) p] p q by metis
qed

lemma secret_needs_offer_and_confirmation_witness:
  "\<exists>s0 ev1. s0 = fst (new_source toy_crypto 0 ''S'' ''secret'' ''wss'') \<and> offer_proves_secret toy_crypto s0 ev1"
proof -
  let ?s0 = "fst (new_source toy_crypto 0 ''S'' ''secret'' ''wss'')"
  obtain s1 s2 s3 oe ce pe sas where e:
    "handle_offer toy_crypto (toy_ambient 1) oe ?s0 = (Inr sas, s1)"
    "confirm_sas toy_crypto (toy_ambient 2) s1 = (Inr ce, s2)"
    "send_payload toy_crypto (toy_ambient 5) Nsec ''nsec1'' s2 = (Inr pe, s3)"
    using exchange_steps [OF toy_laws toy_payload_json(1,2) toy_time toy_ids] by metis
  let ?ops = "[(toy_ambient 1, HandleOffer oe), (toy_ambient 2, ConfirmSas)]"
  have "send_payload toy_crypto (toy_ambient 5) Nsec ''nsec1'' (pair_run toy_crypto ?s0 ?ops) = (Inr pe, s3)"
    using e by simp
  from secret_needs_offer_and_confirmation [OF refl this] show ?thesis by blast
qed

end
