(* ===== verification/PairingQr.thy ===== *)
theory PairingQr
  imports Pairing
begin

text \<open>
  The pairing URI, from \<open>crates/buzz-core/src/pairing/qr.rs\<close>: what the source prints as a QR
  code and what the target reads back. Hex, percent encoding, URL parsing and the check that a
  key text is a curve point are the fields of \<open>qr_lib\<close>; \<open>qr_laws\<close> is their documented
  behaviour. Each \<open>InvalidQr\<close> text is a constructor of \<open>qr_error\<close>.
\<close>

text \<open>\<open>str::split_once\<close> and \<open>str::parse::<u32>\<close>.\<close>

fun split_once :: "char \<Rightarrow> string \<Rightarrow> (string \<times> string) option" where
  "split_once d [] = None"
| "split_once d (c # cs) =
     (if c = d then Some ([], cs) else map_option (apfst (Cons c)) (split_once d cs))"

definition parse_u32 :: "string \<Rightarrow> nat option" where
  "parse_u32 s =
     (let digits = (case s of [] \<Rightarrow> [] | c # cs \<Rightarrow> if c = CHR ''+'' then cs else s) in
      if digits = [] \<or> \<not> list_all is_ascii_digit digits then None
      else if dec_value digits < 2 ^ 32 then Some (dec_value digits) else None)"

record qr_lib =
  ql_hex_encode :: "string \<Rightarrow> string"
  ql_hex_decode :: "string \<Rightarrow> string option"
  ql_key_ok :: "string \<Rightarrow> bool"
  ql_percent_encode :: "string \<Rightarrow> string"
  ql_percent_decode :: "string \<Rightarrow> string"
  ql_url_parse :: "string \<Rightarrow> (string \<times> bool) option"

datatype qr_error =
    UriTooLong
  | WrongScheme
  | MissingQuery
  | BadPubkey
  | UnsupportedVersion nat
  | MissingSecret
  | BadSecret
  | ZeroSecret
  | NoRelay
  | BadRelay string

definition url_encode :: "qr_lib \<Rightarrow> string \<Rightarrow> string" where
  "url_encode l s = ql_percent_encode l s"

definition url_decode :: "qr_lib \<Rightarrow> string \<Rightarrow> string" where
  "url_decode l s = ql_percent_decode l s"

definition is_lowercase_hex :: "char \<Rightarrow> bool" where
  "is_lowercase_hex c \<longleftrightarrow> is_ascii_digit c \<or> (97 \<le> code_of c \<and> code_of c \<le> 102)"

definition encode_qr :: "qr_lib \<Rightarrow> qr_payload \<Rightarrow> string" where
  "encode_qr l p =
     fold (\<lambda>relay uri. uri @ ''&relay='' @ url_encode l relay) (qr_relays p)
       (''nostrpair://'' @ qr_source_pubkey p @ ''?secret='' @ ql_hex_encode l (qr_session_secret p)) @
     ''&v=1''"

text \<open>The loop over the query pairs: the last secret and version win, relays accumulate.\<close>

fun parse_params ::
  "qr_lib \<Rightarrow> string list \<Rightarrow> string option \<times> string list \<times> nat option \<Rightarrow>
   string option \<times> string list \<times> nat option" where
  "parse_params l [] acc = acc"
| "parse_params l (pair # pairs) (secret, relays, version) =
     parse_params l pairs
       (case split_once (CHR ''='') pair of
          None \<Rightarrow> (secret, relays, version)
        | Some (key, value) \<Rightarrow>
            if key = ''secret'' then (Some value, relays, version)
            else if key = ''relay'' then (secret, relays @ [url_decode l value], version)
            else if key = ''v'' then (secret, relays, parse_u32 value)
            else (secret, relays, version))"

definition relay_ok :: "qr_lib \<Rightarrow> string \<Rightarrow> bool" where
  "relay_ok l relay =
     (case ql_url_parse l relay of
        None \<Rightarrow> False
      | Some (scheme, has_host) \<Rightarrow> (scheme = ''wss'' \<or> scheme = ''ws'') \<and> has_host)"

definition decode_secret :: "qr_lib \<Rightarrow> string option \<Rightarrow> qr_error + string" where
  "decode_secret l secret_hex =
     (case secret_hex of
        None \<Rightarrow> Inl MissingSecret
      | Some s \<Rightarrow>
          if length s \<noteq> 64 \<or> \<not> list_all is_lowercase_hex s then Inl BadSecret
          else (case ql_hex_decode l s of
            None \<Rightarrow> Inl BadSecret
          | Some b \<Rightarrow>
              if length b \<noteq> 32 then Inl BadSecret
              else if b = replicate 32 (CHR 0x00) then Inl ZeroSecret else Inr b))"

definition decode_query :: "qr_lib \<Rightarrow> string \<Rightarrow> string \<Rightarrow> qr_error + qr_payload" where
  "decode_query l pubkey query =
     (case parse_params l (split_on (CHR ''&'') query) (None, [], None) of
        (secret_hex, relays, version_opt) \<Rightarrow>
          (let version = (case version_opt of None \<Rightarrow> 1 | Some v \<Rightarrow> v) in
           if version \<noteq> 1 then Inl (UnsupportedVersion version)
           else case decode_secret l secret_hex of
             Inl e \<Rightarrow> Inl e
           | Inr secret \<Rightarrow>
               if relays = [] then Inl NoRelay
               else (case find (\<lambda>r. \<not> relay_ok l r) relays of
                 Some r \<Rightarrow> Inl (BadRelay r)
               | None \<Rightarrow> Inr \<lparr>qr_source_pubkey = pubkey, qr_session_secret = secret,
                              qr_relays = relays, qr_version = version\<rparr>)))"

definition decode_qr :: "qr_lib \<Rightarrow> string \<Rightarrow> qr_error + qr_payload" where
  "decode_qr l uri =
     (if length uri > 2048 then Inl UriTooLong
      else case strip_prefix ''nostrpair://'' uri of
        None \<Rightarrow> Inl WrongScheme
      | Some rest \<Rightarrow>
          (case split_once (CHR ''?'') rest of
             None \<Rightarrow> Inl MissingQuery
           | Some (pubkey_hex, query) \<Rightarrow>
               if length pubkey_hex \<noteq> 64 \<or> \<not> list_all is_lowercase_hex pubkey_hex then Inl BadPubkey
               else if \<not> ql_key_ok l pubkey_hex then Inl BadPubkey
               else decode_query l pubkey_hex query))"

section \<open>Reading back what was written\<close>

definition qr_laws :: "qr_lib \<Rightarrow> bool" where
  "qr_laws l \<longleftrightarrow>
     (\<forall>b. ql_hex_decode l (ql_hex_encode l b) = Some b \<and> length (ql_hex_encode l b) = 2 * length b \<and>
        list_all is_lowercase_hex (ql_hex_encode l b)) \<and>
     (\<forall>s. ql_percent_decode l (ql_percent_encode l s) = s \<and>
        list_all (\<lambda>c. is_ascii_alphanumeric c \<or> c = CHR ''%'') (ql_percent_encode l s))"

definition qr_valid :: "qr_lib \<Rightarrow> qr_payload \<Rightarrow> bool" where
  "qr_valid l p \<longleftrightarrow>
     length (qr_source_pubkey p) = 64 \<and> list_all is_lowercase_hex (qr_source_pubkey p) \<and>
     ql_key_ok l (qr_source_pubkey p) \<and> length (qr_session_secret p) = 32 \<and>
     qr_session_secret p \<noteq> replicate 32 (CHR 0x00) \<and> qr_relays p \<noteq> [] \<and>
     list_all (relay_ok l) (qr_relays p) \<and> qr_version p = 1"

text \<open>The URI up to its version, and the pairs of its query.\<close>

definition qr_prefix :: "qr_lib \<Rightarrow> qr_payload \<Rightarrow> string" where
  "qr_prefix l p =
     ''nostrpair://'' @ qr_source_pubkey p @ ''?secret='' @ ql_hex_encode l (qr_session_secret p) @
     concat (map (\<lambda>r. ''&relay='' @ ql_percent_encode l r) (qr_relays p))"

lemma encode_qr_prefix: "encode_qr l p = qr_prefix l p @ ''&v=1''"
proof -
  have "fold (\<lambda>relay uri. uri @ ''&relay='' @ url_encode l relay) rs u =
      u @ concat (map (\<lambda>r. ''&relay='' @ ql_percent_encode l r) rs)" for rs u
    by (induction rs arbitrary: u) (simp_all add: url_encode_def)
  then show ?thesis by (simp add: encode_qr_def qr_prefix_def)
qed

lemma split_once_absent: "d \<notin> set xs \<Longrightarrow> split_once d (xs @ d # ys) = Some (xs, ys)"
  by (induction xs) auto

lemma split_on_absent [simp]: "d \<notin> set xs \<Longrightarrow> split_on d xs = [xs]"
  by (induction xs) auto

lemma split_on_sep [simp]: "d \<notin> set xs \<Longrightarrow> split_on d (xs @ d # ys) = xs # split_on d ys"
  by (induction xs) auto

lemma lower_hex_no_sep:
  "list_all is_lowercase_hex s \<Longrightarrow> CHR ''?'' \<notin> set s \<and> CHR ''&'' \<notin> set s"
  by (auto simp: list_all_iff is_lowercase_hex_def ascii_defs)

lemma digit_not_mark: "is_ascii_digit c \<Longrightarrow> c \<noteq> CHR ''+'' \<and> c \<noteq> CHR ''&''"
  by (auto simp: ascii_defs)

lemma percent_no_sep:
  assumes "list_all (\<lambda>c. is_ascii_alphanumeric c \<or> c = CHR ''%'') s"
  shows "CHR ''&'' \<notin> set s"
proof
  assume "CHR ''&'' \<in> set s"
  then have "is_ascii_alphanumeric (CHR ''&'') \<or> CHR ''&'' = CHR ''%''"
    using assms by (auto simp: list_all_iff)
  then show False by (auto simp: ascii_defs)
qed

lemma split_relays:
  assumes "qr_laws l" and "CHR ''&'' \<notin> set x" and "CHR ''&'' \<notin> set vs"
  shows "split_on (CHR ''&'') (x @ concat (map (\<lambda>r. ''&relay='' @ ql_percent_encode l r) rs) @ ''&v='' @ vs) =
    x # map (\<lambda>r. ''relay='' @ ql_percent_encode l r) rs @ [''v='' @ vs]"
  using assms(2)
proof (induction rs arbitrary: x)
  case Nil
  then show ?case using assms(3) by (simp del: split_on.simps(2))
next
  case (Cons r rs)
  have n: "CHR ''&'' \<notin> set (''relay='' @ ql_percent_encode l r)"
    using percent_no_sep assms(1) by (simp add: qr_laws_def)
  show ?case
    using Cons.IH [OF n] Cons.prems by (simp del: split_on.simps(2))
qed

lemma parse_relays:
  "qr_laws l \<Longrightarrow> parse_params l (map (\<lambda>r. ''relay='' @ ql_percent_encode l r) rs @ rest) (s, relays, v) =
     parse_params l rest (s, relays @ rs, v)"
  by (induction rs arbitrary: relays) (simp_all add: url_decode_def qr_laws_def)

lemma decode_qr_version:
  assumes l: "qr_laws l" and v: "qr_valid l p" and vs: "CHR ''&'' \<notin> set vs"
    and len: "length (qr_prefix l p @ ''&v='' @ vs) \<le> 2048"
  shows "decode_qr l (qr_prefix l p @ ''&v='' @ vs) =
    (case parse_u32 vs of None \<Rightarrow> Inr p | Some n \<Rightarrow> if n = 1 then Inr p else Inl (UnsupportedVersion n))"
proof -
  let ?h = "ql_hex_encode l (qr_session_secret p)"
  let ?rs = "concat (map (\<lambda>r. ''&relay='' @ ql_percent_encode l r) (qr_relays p))"
  let ?q = "''secret='' @ ?h @ ?rs @ ''&v='' @ vs"
  have h: "list_all is_lowercase_hex ?h" "length ?h = 64" "ql_hex_decode l ?h = Some (qr_session_secret p)"
    using l v by (simp_all add: qr_laws_def qr_valid_def)
  have k: "CHR ''?'' \<notin> set (qr_source_pubkey p)"
    using v lower_hex_no_sep by (simp add: qr_valid_def)
  have pre: "strip_prefix ''nostrpair://'' (qr_prefix l p @ ''&v='' @ vs) =
      Some (qr_source_pubkey p @ CHR ''?'' # ?q)"
    by (simp add: strip_prefix_Some qr_prefix_def)
  have sep: "CHR ''&'' \<notin> set (''secret='' @ ?h)" using lower_hex_no_sep [OF h(1)] by simp
  have sp: "split_on (CHR ''&'') ?q =
      (''secret='' @ ?h) # map (\<lambda>r. ''relay='' @ ql_percent_encode l r) (qr_relays p) @ [''v='' @ vs]"
    using split_relays [OF l sep vs] by simp
  have ps: "parse_params l (split_on (CHR ''&'') ?q) (None, [], None) =
      (Some ?h, qr_relays p, parse_u32 vs)"
    unfolding sp by (simp add: parse_relays [OF l, simplified])
  have sec: "decode_secret l (Some ?h) = Inr (qr_session_secret p)"
    using h v by (simp add: decode_secret_def qr_valid_def)
  have rel: "find (\<lambda>r. \<not> relay_ok l r) (qr_relays p) = None"
    using v by (simp add: find_None_iff qr_valid_def list_all_iff)
  have q: "decode_query l (qr_source_pubkey p) ?q =
      (case parse_u32 vs of None \<Rightarrow> Inr p | Some n \<Rightarrow> if n = 1 then Inr p else Inl (UnsupportedVersion n))"
    unfolding decode_query_def ps using sec rel v by (auto simp: Let_def qr_valid_def split: option.splits)
  show ?thesis
    unfolding decode_qr_def pre
    using len v split_once_absent [OF k, of ?q] q by (simp add: qr_valid_def)
qed

text \<open>
  A valid payload that fits in 2048 characters is read back from its URI unchanged.
\<close>

theorem qr_round_trip:
  assumes "qr_laws l" and "qr_valid l p" and "length (encode_qr l p) \<le> 2048"
  shows "decode_qr l (encode_qr l p) = Inr p"
proof -
  have "parse_u32 ''1'' = Some 1" by (simp add: parse_u32_def dec_value_def ascii_defs)
  then show ?thesis
    using decode_qr_version [OF assms(1,2), of "''1''"] assms(3) by (simp add: encode_qr_prefix)
qed

text \<open>
  A version parameter that is not a 32-bit number, such as 4294967298, is not rejected: the
  URI is accepted as version 1.
\<close>

theorem oversized_version_accepted:
  assumes "qr_laws l" and "qr_valid l p" and "n \<ge> 2 ^ 32"
    and "length (qr_prefix l p @ ''&v='' @ decimal n) \<le> 2048"
  shows "decode_qr l (qr_prefix l p @ ''&v='' @ decimal n) = Inr p"
proof -
  have d: "list_all is_ascii_digit (decimal n)" using decimal_digits by (simp add: list_all_iff)
  have no: "CHR ''+'' \<notin> set (decimal n)" "CHR ''&'' \<notin> set (decimal n)"
    using decimal_digits digit_not_mark by blast+
  then have "(case decimal n of [] \<Rightarrow> [] | c # cs \<Rightarrow> if c = CHR ''+'' then cs else decimal n) = decimal n"
    by (cases "decimal n") auto
  then have "parse_u32 (decimal n) = None"
    using assms(3) d by (simp add: parse_u32_def)
  then show ?thesis
    using decode_qr_version [OF assms(1,2) no(2) assms(4)] by simp
qed

section \<open>A concrete URI\<close>

definition hex_char :: "nat \<Rightarrow> char" where
  "hex_char n = char_of (if n < 10 then 48 + n else 87 + n)"

definition hex_val :: "char \<Rightarrow> nat" where
  "hex_val c = (if is_ascii_digit c then code_of c - 48 else code_of c - 87)"

definition byte_hex :: "char \<Rightarrow> string" where
  "byte_hex c = [hex_char (code_of c div 16), hex_char (code_of c mod 16)]"

definition hex_byte :: "char \<Rightarrow> char \<Rightarrow> char" where
  "hex_byte x y = char_of (16 * hex_val x + hex_val y)"

fun unhex :: "string \<Rightarrow> string option" where
  "unhex [] = Some []"
| "unhex [x] = None"
| "unhex (x # y # r) = map_option (Cons (hex_byte x y)) (unhex r)"

fun unpercent :: "string \<Rightarrow> string" where
  "unpercent [] = []"
| "unpercent (c # cs) =
     (if c = CHR ''%'' then (case cs of x # y # r \<Rightarrow> hex_byte x y # unpercent r | _ \<Rightarrow> c # unpercent cs)
      else c # unpercent cs)"

definition percent_char :: "char \<Rightarrow> string" where
  "percent_char c = (if is_ascii_alphanumeric c then [c] else CHR ''%'' # byte_hex c)"

lemma hex_val_char: "n < 16 \<Longrightarrow> hex_val (hex_char n) = n \<and> is_lowercase_hex (hex_char n)"
  by (auto simp: hex_val_def hex_char_def is_lowercase_hex_def ascii_defs)

lemma code_of_less: "code_of c < 256"
  by (simp add: code_of_def)

lemma hex_byte_hex: "hex_byte (hex_char (code_of c div 16)) (hex_char (code_of c mod 16)) = c"
proof -
  have "code_of c div 16 < 16" "code_of c mod 16 < 16"
    using code_of_less [of c] by simp_all
  then have "hex_byte (hex_char (code_of c div 16)) (hex_char (code_of c mod 16)) = char_of (code_of c)"
    by (simp add: hex_byte_def hex_val_char)
  then show ?thesis by (simp add: code_of_def)
qed

lemma byte_hex_lower: "list_all is_lowercase_hex (byte_hex c)"
  using code_of_less [of c] by (simp add: byte_hex_def hex_val_char)

lemma unhex_hex: "unhex (concat (map byte_hex b)) = Some b"
  by (induction b) (simp_all add: byte_hex_def hex_byte_hex)

lemma hex_text: "length (concat (map byte_hex b)) = 2 * length b" "list_all is_lowercase_hex (concat (map byte_hex b))"
  using byte_hex_lower by (induction b) (simp_all add: byte_hex_def)

lemma unpercent_percent: "unpercent (concat (map percent_char s)) = s"
proof (induction s)
  case (Cons c s)
  have "is_ascii_alphanumeric c \<Longrightarrow> c \<noteq> CHR ''%''" by (auto simp: ascii_defs)
  with Cons show ?case by (simp add: percent_char_def byte_hex_def hex_byte_hex)
qed simp

lemma percent_text:
  "list_all (\<lambda>c. is_ascii_alphanumeric c \<or> c = CHR ''%'') (concat (map percent_char s))"
proof -
  have "list_all (\<lambda>c. is_ascii_alphanumeric c \<or> c = CHR ''%'') (byte_hex c)" for c
    using byte_hex_lower [of c]
    by (auto simp: byte_hex_def is_lowercase_hex_def is_ascii_alphanumeric_def is_ascii_lowercase_def)
  then have "list_all (\<lambda>c. is_ascii_alphanumeric c \<or> c = CHR ''%'') (percent_char c)" for c
    by (simp add: percent_char_def)
  then show ?thesis by (induction s) simp_all
qed

definition demo_lib :: qr_lib where
  "demo_lib = \<lparr>ql_hex_encode = (\<lambda>b. concat (map byte_hex b)), ql_hex_decode = unhex,
     ql_key_ok = (\<lambda>k. True), ql_percent_encode = (\<lambda>s. concat (map percent_char s)),
     ql_percent_decode = unpercent, ql_url_parse = (\<lambda>s. Some (''wss'', True))\<rparr>"

definition demo_payload :: qr_payload where
  "demo_payload = \<lparr>qr_source_pubkey = replicate 64 (CHR ''a''), qr_session_secret = replicate 32 (CHR ''b''),
     qr_relays = [''wss://r''], qr_version = 1\<rparr>"

lemma demo_laws: "qr_laws demo_lib"
  by (simp add: qr_laws_def demo_lib_def unhex_hex hex_text unpercent_percent percent_text)

lemma demo_valid: "qr_valid demo_lib demo_payload"
proof -
  have "(CHR ''b'') \<noteq> CHR 0x00" by simp
  then have "replicate 32 (CHR ''b'') \<noteq> replicate 32 (CHR 0x00)" by (simp only: replicate_eq_replicate) simp
  then show ?thesis
    by (simp add: qr_valid_def demo_lib_def demo_payload_def relay_ok_def list_all_iff is_lowercase_hex_def ascii_defs)
qed

lemma demo_prefix_length: "length (qr_prefix demo_lib demo_payload) \<le> 1000"
proof -
  have "length (percent_char c) \<le> 3" for c by (simp add: percent_char_def byte_hex_def)
  then have "length (concat (map percent_char s)) \<le> 3 * length s" for s
    by (induction s) (auto intro: add_le_mono [THEN order_trans])
  from this [of "''wss://r''"] have r: "length (concat (map percent_char ''wss://r'')) \<le> 21" by simp
  have h: "length (concat (map byte_hex (replicate 32 (CHR ''b'')))) = 64" by (simp only: hex_text length_replicate)
  have "qr_prefix demo_lib demo_payload =
      ''nostrpair://'' @ replicate 64 (CHR ''a'') @ ''?secret='' @ concat (map byte_hex (replicate 32 (CHR ''b''))) @
      ''&relay='' @ concat (map percent_char ''wss://r'')"
    by (simp add: qr_prefix_def demo_lib_def demo_payload_def)
  then show ?thesis using r h by (simp del: concat.simps list.map map_replicate)
qed

lemma qr_round_trip_witness: "decode_qr demo_lib (encode_qr demo_lib demo_payload) = Inr demo_payload"
  by (rule qr_round_trip [OF demo_laws demo_valid]) (use demo_prefix_length in \<open>simp add: encode_qr_prefix\<close>)

lemma oversized_version_accepted_witness:
  "decode_qr demo_lib (qr_prefix demo_lib demo_payload @ ''&v='' @ decimal 4294967298) = Inr demo_payload"
proof (rule oversized_version_accepted [OF demo_laws demo_valid])
  have "length (decimal 4294967298) = 10" by (simp add: decimal.simps)
  then show "length (qr_prefix demo_lib demo_payload @ ''&v='' @ decimal 4294967298) \<le> 2048"
    using demo_prefix_length by simp
qed simp

end
