(* ===== verification/AudioRoom.thy ===== *)
theory AudioRoom
  imports Prelude "HOL-Library.Word"
begin

text \<open>
  Huddle audio rooms, from \<open>crates/buzz-relay/src/audio/room.rs\<close>: admission, peer indexes,
  the roster log, frame fan-out and the manager's room table.

  \<^item> \<open>room\<close> is \<open>Room\<close> with the fields of its \<open>AdmissionGuard\<close>, which every operation holds.
    A poisoned lock is not modelled. Peer ids are given by the caller (\<open>Uuid::new_v4\<close>).
  \<^item> A peer's two channels are the frames and messages waiting in them, at most 8 and 32;
    \<open>try_send\<close> drops when full. The broadcast channel is the log of the deltas sent on it.
  \<^item> Peer indexes are \<open>u8\<close>: natural numbers with the saturating addition written out. The roster
    revision is a 64-bit word that wraps.
  \<^item> The manager holds rooms by address in a store, because a connection keeps using the room it
    got after the table has dropped it.
\<close>

datatype peer_ctrl = CtrlJson string | CtrlClose

record audio_peer =
  ap_pubkey :: string
  ap_audio :: "string list"
  ap_ctrl :: "peer_ctrl list"
  ap_peer_index :: nat

definition AUDIO_CHANNEL_CAPACITY :: nat where "AUDIO_CHANNEL_CAPACITY = 8"
definition CTRL_CHANNEL_CAPACITY :: nat where "CTRL_CHANNEL_CAPACITY = 32"
definition MAX_PEERS_PER_ROOM :: nat where "MAX_PEERS_PER_ROOM = 25"

record roster_peer =
  rp_pubkey :: string
  rp_peer_index :: nat

record roster_snapshot =
  rs_revision :: "64 word"
  rs_peers :: "roster_peer list"

record roster_delta =
  rd_revision :: "64 word"
  rd_joined :: "roster_peer option"
  rd_left :: "roster_peer option"

datatype admission_error = Ended | Full | VersionMismatch nat nat

record admission_guard =
  ag_next_fresh :: nat
  ag_free :: "nat list"
  ag_ended :: bool
  ag_pinned_version :: "nat option"
  ag_roster_revision :: "64 word"

definition guard_new :: admission_guard where
  "guard_new = \<lparr>ag_next_fresh = 0, ag_free = [], ag_ended = False, ag_pinned_version = None,
                ag_roster_revision = 0\<rparr>"

text \<open>The free list is a stack; its top is the last element of the vector, the list's head here.\<close>

definition alloc :: "admission_guard \<Rightarrow> nat option \<times> admission_guard" where
  "alloc g =
     (case ag_free g of
        idx # rest \<Rightarrow> (Some idx, g\<lparr>ag_free := rest\<rparr>)
      | [] \<Rightarrow>
          if ag_next_fresh g = 255 then (None, g)
          else (Some (ag_next_fresh g), g\<lparr>ag_next_fresh := ag_next_fresh g + 1\<rparr>))"

definition release :: "nat \<Rightarrow> admission_guard \<Rightarrow> admission_guard" where
  "release idx g = g\<lparr>ag_free := idx # ag_free g\<rparr>"

record room =
  rm_community_id :: uuid
  rm_channel_id :: uuid
  rm_peers :: "(uuid, audio_peer) hmap"
  rm_guard :: admission_guard
  rm_roster_log :: "roster_delta list"

definition room_new :: "uuid \<Rightarrow> uuid \<Rightarrow> room" where
  "room_new community channel =
     \<lparr>rm_community_id = community, rm_channel_id = channel, rm_peers = [], rm_guard = guard_new,
      rm_roster_log = []\<rparr>"

definition room_is_empty :: "room \<Rightarrow> bool" where
  "room_is_empty r \<longleftrightarrow> rm_peers r = []"

definition mark_ended :: "room \<Rightarrow> bool \<times> room" where
  "mark_ended r = (rm_peers r = [], r\<lparr>rm_guard := (rm_guard r)\<lparr>ag_ended := True\<rparr>\<rparr>)"

definition clear_ended :: "room \<Rightarrow> room" where
  "clear_ended r = r\<lparr>rm_guard := (rm_guard r)\<lparr>ag_ended := False\<rparr>\<rparr>"

text \<open>Advancing the revision and publishing the delta, the end of every roster mutation.\<close>

definition publish :: "roster_peer option \<Rightarrow> roster_peer option \<Rightarrow> room \<Rightarrow> room" where
  "publish joined left r =
     (let revision = ag_roster_revision (rm_guard r) + 1 in
      r\<lparr>rm_guard := (rm_guard r)\<lparr>ag_roster_revision := revision\<rparr>,
        rm_roster_log := rm_roster_log r @ [\<lparr>rd_revision = revision, rd_joined = joined, rd_left = left\<rparr>]\<rparr>)"

definition insert_peer :: "uuid \<Rightarrow> string \<Rightarrow> nat \<Rightarrow> room \<Rightarrow> room" where
  "insert_peer peer_id pubkey idx r =
     publish (Some \<lparr>rp_pubkey = pubkey, rp_peer_index = idx\<rparr>) None
       (r\<lparr>rm_peers := hinsert peer_id
            \<lparr>ap_pubkey = pubkey, ap_audio = [], ap_ctrl = [], ap_peer_index = idx\<rparr> (rm_peers r)\<rparr>)"

definition version_mismatch :: "nat \<Rightarrow> admission_guard \<Rightarrow> admission_error option" where
  "version_mismatch requested g =
     (case ag_pinned_version g of
        None \<Rightarrow> None
      | Some pinned \<Rightarrow> if pinned \<noteq> requested then Some (VersionMismatch pinned requested) else None)"

definition pin_version :: "nat \<Rightarrow> admission_guard \<Rightarrow> admission_guard" where
  "pin_version requested g =
     (case ag_pinned_version g of None \<Rightarrow> g\<lparr>ag_pinned_version := Some requested\<rparr> | Some _ \<Rightarrow> g)"

definition add_peer :: "uuid \<Rightarrow> string \<Rightarrow> nat \<Rightarrow> room \<Rightarrow> (admission_error + nat) \<times> room" where
  "add_peer peer_id pubkey requested r =
     (if ag_ended (rm_guard r) then (Inl Ended, r)
      else if length (rm_peers r) \<ge> MAX_PEERS_PER_ROOM then (Inl Full, r)
      else case version_mismatch requested (rm_guard r) of
        Some e \<Rightarrow> (Inl e, r)
      | None \<Rightarrow>
          (case alloc (rm_guard r) of
             (None, g) \<Rightarrow> (Inl Full, r)
           | (Some idx, g) \<Rightarrow>
               (Inr idx, insert_peer peer_id pubkey idx (r\<lparr>rm_guard := pin_version requested g\<rparr>))))"

definition reserve_index :: "nat \<Rightarrow> admission_guard \<Rightarrow> admission_guard" where
  "reserve_index idx g =
     (let g1 = g\<lparr>ag_free := filter (\<lambda>i. i \<noteq> idx) (ag_free g)\<rparr> in
      if idx \<ge> ag_next_fresh g1 then g1\<lparr>ag_next_fresh := min 255 (idx + 1)\<rparr> else g1)"

definition add_peer_at_index ::
  "uuid \<Rightarrow> string \<Rightarrow> nat \<Rightarrow> nat \<Rightarrow> room \<Rightarrow> (admission_error + unit) \<times> room" where
  "add_peer_at_index peer_id pubkey requested idx r =
     (if ag_ended (rm_guard r) then (Inl Ended, r)
      else if length (rm_peers r) \<ge> MAX_PEERS_PER_ROOM \<or>
              list_ex (\<lambda>(k, p). ap_peer_index p = idx) (rm_peers r) then (Inl Full, r)
      else case version_mismatch requested (rm_guard r) of
        Some e \<Rightarrow> (Inl e, r)
      | None \<Rightarrow>
          (Inr (), insert_peer peer_id pubkey idx
             (r\<lparr>rm_guard := reserve_index idx (pin_version requested (rm_guard r))\<rparr>)))"

definition take_peer :: "uuid \<Rightarrow> audio_peer \<Rightarrow> room \<Rightarrow> room" where
  "take_peer peer_id p r =
     publish None (Some \<lparr>rp_pubkey = ap_pubkey p, rp_peer_index = ap_peer_index p\<rparr>)
       (r\<lparr>rm_peers := hremove peer_id (rm_peers r), rm_guard := release (ap_peer_index p) (rm_guard r)\<rparr>)"

definition remove_peer :: "uuid \<Rightarrow> room \<Rightarrow> room" where
  "remove_peer peer_id r =
     (case hget (rm_peers r) peer_id of None \<Rightarrow> r | Some p \<Rightarrow> take_peer peer_id p r)"

definition remove_peer_and_check_ended :: "uuid \<Rightarrow> room \<Rightarrow> (nat \<times> bool) option \<times> room" where
  "remove_peer_and_check_ended peer_id r =
     (case hget (rm_peers r) peer_id of
        None \<Rightarrow> (None, r)
      | Some p \<Rightarrow>
          let r1 = take_peer peer_id p r;
              should_end = (\<not> ag_ended (rm_guard r1) \<and> rm_peers r1 = [])
          in (Some (ap_peer_index p, should_end),
              if should_end then snd (mark_ended r1) else r1))"

section \<open>Frames and messages\<close>

definition try_send :: "nat \<Rightarrow> 'a \<Rightarrow> 'a list \<Rightarrow> 'a list" where
  "try_send cap x q = (if length q < cap then q @ [x] else q)"

definition send_audio :: "(uuid \<Rightarrow> audio_peer \<Rightarrow> bool) \<Rightarrow> string \<Rightarrow> room \<Rightarrow> room" where
  "send_audio to frame r =
     r\<lparr>rm_peers := map (\<lambda>(k, p). (k, if to k p
         then p\<lparr>ap_audio := try_send AUDIO_CHANNEL_CAPACITY frame (ap_audio p)\<rparr> else p)) (rm_peers r)\<rparr>"

definition broadcast_frame :: "uuid \<Rightarrow> string \<Rightarrow> room \<Rightarrow> room" where
  "broadcast_frame sender_id frame r =
     (case hget (rm_peers r) sender_id of
        None \<Rightarrow> r
      | Some p \<Rightarrow> send_audio (\<lambda>k _. k \<noteq> sender_id) (char_of (ap_peer_index p) # frame) r)"

definition deliver_prefixed :: "nat \<Rightarrow> string \<Rightarrow> room \<Rightarrow> room" where
  "deliver_prefixed author_index prefixed r =
     send_audio (\<lambda>_ p. ap_peer_index p \<noteq> author_index) prefixed r"

definition broadcast_control :: "string \<Rightarrow> room \<Rightarrow> room" where
  "broadcast_control json r =
     r\<lparr>rm_peers := map (\<lambda>(k, p). (k, p\<lparr>ap_ctrl := try_send CTRL_CHANNEL_CAPACITY (CtrlJson json) (ap_ctrl p)\<rparr>))
         (rm_peers r)\<rparr>"

definition roster_of :: "room \<Rightarrow> roster_peer list" where
  "roster_of r = map (\<lambda>(k, p). \<lparr>rp_pubkey = ap_pubkey p, rp_peer_index = ap_peer_index p\<rparr>) (rm_peers r)"

definition roster_snapshot :: "room \<Rightarrow> roster_snapshot" where
  "roster_snapshot r =
     \<lparr>rs_revision = ag_roster_revision (rm_guard r), rs_peers = sort_key rp_peer_index (roster_of r)\<rparr>"

definition peer_pubkeys :: "room \<Rightarrow> (string \<times> nat) list" where
  "peer_pubkeys r = map (\<lambda>(k, p). (ap_pubkey p, ap_peer_index p)) (rm_peers r)"

section \<open>The manager\<close>

record room_manager =
  mg_rooms :: "(uuid \<times> uuid, nat) hmap"
  mg_store :: "room list"

definition manager_new :: room_manager where
  "manager_new = \<lparr>mg_rooms = [], mg_store = []\<rparr>"

definition get_or_create :: "uuid \<Rightarrow> uuid \<Rightarrow> room_manager \<Rightarrow> nat \<times> room_manager" where
  "get_or_create community channel m =
     (case hget (mg_rooms m) (community, channel) of
        Some a \<Rightarrow> (a, m)
      | None \<Rightarrow>
          let a = length (mg_store m) in
          (a, m\<lparr>mg_rooms := hinsert (community, channel) a (mg_rooms m),
                mg_store := mg_store m @ [room_new community channel]\<rparr>))"

definition get_room :: "uuid \<Rightarrow> uuid \<Rightarrow> room_manager \<Rightarrow> nat option" where
  "get_room community channel m = hget (mg_rooms m) (community, channel)"

definition get_unambiguous_by_channel :: "uuid \<Rightarrow> room_manager \<Rightarrow> nat option" where
  "get_unambiguous_by_channel channel m =
     (case filter (\<lambda>(k, a). snd k = channel) (mg_rooms m) of
        [] \<Rightarrow> None
      | [(k, a)] \<Rightarrow> Some a
      | _ \<Rightarrow> None)"

definition cleanup_if_empty :: "uuid \<Rightarrow> uuid \<Rightarrow> room_manager \<Rightarrow> bool \<times> room_manager" where
  "cleanup_if_empty community channel m =
     (case hget (mg_rooms m) (community, channel) of
        None \<Rightarrow> (False, m)
      | Some a \<Rightarrow>
          if room_is_empty (mg_store m ! a)
          then (True, m\<lparr>mg_rooms := hremove (community, channel) (mg_rooms m)\<rparr>) else (False, m))"

text \<open>A connection works on the room behind the address it holds.\<close>

definition on_room :: "nat \<Rightarrow> (room \<Rightarrow> 'r \<times> room) \<Rightarrow> room_manager \<Rightarrow> 'r \<times> room_manager" where
  "on_room a f m = (let (x, r) = f (mg_store m ! a) in (x, m\<lparr>mg_store := (mg_store m)[a := r]\<rparr>))"

section \<open>Invariant\<close>

definition used_indexes :: "room \<Rightarrow> nat list" where
  "used_indexes r = map (\<lambda>(k, p). ap_peer_index p) (rm_peers r)"

definition indexes_ok :: "nat list \<Rightarrow> admission_guard \<Rightarrow> bool" where
  "indexes_ok used g \<longleftrightarrow>
     distinct (used @ ag_free g) \<and> ag_next_fresh g \<le> 255 \<and>
     (\<forall>i \<in> set used \<union> set (ag_free g). i < ag_next_fresh g \<or> i = 255)"

definition queues_ok :: "audio_peer \<Rightarrow> bool" where
  "queues_ok p \<longleftrightarrow> length (ap_audio p) \<le> AUDIO_CHANNEL_CAPACITY \<and> length (ap_ctrl p) \<le> CTRL_CHANNEL_CAPACITY"

definition room_inv :: "room \<Rightarrow> bool" where
  "room_inv r \<longleftrightarrow>
     distinct (keys (rm_peers r)) \<and> indexes_ok (used_indexes r) (rm_guard r) \<and>
     length (rm_peers r) \<le> MAX_PEERS_PER_ROOM \<and> (\<forall>(k, p) \<in> set (rm_peers r). queues_ok p) \<and>
     (rm_peers r \<noteq> [] \<longrightarrow> ag_pinned_version (rm_guard r) \<noteq> None)"

text \<open>The peer's connection takes the oldest frame and message from its channels.\<close>

definition receive :: "uuid \<Rightarrow> room \<Rightarrow> room" where
  "receive i r =
     r\<lparr>rm_peers := map (\<lambda>(k, p). (k, if k = i
         then p\<lparr>ap_audio := tl (ap_audio p), ap_ctrl := tl (ap_ctrl p)\<rparr> else p)) (rm_peers r)\<rparr>"

datatype room_op =
    AddPeer uuid string nat
  | AddPeerAtIndex uuid string nat "8 word"
  | RemovePeer uuid
  | RemovePeerAndCheckEnded uuid
  | MarkEnded
  | ClearEnded
  | BroadcastFrame uuid string
  | DeliverPrefixed nat string
  | BroadcastControl string
  | Receive uuid

fun room_step :: "room \<Rightarrow> room_op \<Rightarrow> room" where
  "room_step r (AddPeer i pk v) = snd (add_peer i pk v r)"
| "room_step r (AddPeerAtIndex i pk v idx) = snd (add_peer_at_index i pk v (unat idx) r)"
| "room_step r (RemovePeer i) = remove_peer i r"
| "room_step r (RemovePeerAndCheckEnded i) = snd (remove_peer_and_check_ended i r)"
| "room_step r MarkEnded = snd (mark_ended r)"
| "room_step r ClearEnded = clear_ended r"
| "room_step r (BroadcastFrame i f) = broadcast_frame i f r"
| "room_step r (DeliverPrefixed idx f) = deliver_prefixed idx f r"
| "room_step r (BroadcastControl j) = broadcast_control j r"
| "room_step r (Receive i) = receive i r"

text \<open>Entries of a map after an insertion and a removal, as multisets.\<close>

lemma mset_hremove:
  "distinct (keys m) \<Longrightarrow> hget m k = Some v \<Longrightarrow> mset m = add_mset (k, v) (mset (hremove k m))"
proof (induction m)
  case (Cons e m)
  then show ?case by (cases e) (auto simp: map_of_eq_None_iff)
qed simp

lemma hinsert_absent: "hget m k = None \<Longrightarrow> hinsert k v m = m @ [(k, v)]"
  by (induction m) (auto split: if_splits)

lemma mset_hinsert:
  "distinct (keys m) \<Longrightarrow> mset (hinsert k v m) = add_mset (k, v) (mset (hremove k m))"
proof (induction m)
  case (Cons e m)
  then show ?case by (cases e) auto
qed simp

lemma used_remove:
  assumes "distinct (keys (rm_peers r))" and "hget (rm_peers r) i = Some p"
  shows "mset (used_indexes r) =
    add_mset (ap_peer_index p) (mset (used_indexes (r\<lparr>rm_peers := hremove i (rm_peers r)\<rparr>)))"
  using mset_hremove [OF assms] by (simp add: used_indexes_def)

lemma indexes_ok_mset: "mset used = mset used' \<Longrightarrow> indexes_ok used g = indexes_ok used' g"
proof -
  assume m: "mset used = mset used'"
  then have "mset (used @ ag_free g) = mset (used' @ ag_free g)" by simp
  then have "distinct (used @ ag_free g) = distinct (used' @ ag_free g)" by (rule mset_eq_imp_distinct_iff)
  moreover have "set used = set used'" using m by (rule mset_eq_setD)
  ultimately show ?thesis by (simp only: indexes_ok_def)
qed

lemma indexes_ok_release: "indexes_ok (i # used) g \<Longrightarrow> indexes_ok used (release i g)"
  by (auto simp: indexes_ok_def release_def)

lemma indexes_ok_alloc:
  "indexes_ok used g \<Longrightarrow> alloc g = (Some i, g') \<Longrightarrow> indexes_ok (i # used) g'"
  by (auto simp: indexes_ok_def alloc_def split: list.splits if_splits)

lemma indexes_ok_reserve:
  assumes ok: "indexes_ok used g" and new: "i \<notin> set used" and i: "i < 256"
  shows "indexes_ok (i # used) (reserve_index i g)"
proof (cases "ag_next_fresh g \<le> i")
  case True
  have "j < min 255 (i + 1) \<or> j = 255" if "j \<in> insert i (set used \<union> set (ag_free g))" for j
  proof -
    have "j = i \<or> j < ag_next_fresh g \<or> j = 255"
      using that ok unfolding indexes_ok_def by blast
    then show ?thesis using True i by linarith
  qed
  then show ?thesis
    using ok new True unfolding indexes_ok_def reserve_index_def Let_def by auto
next
  case False
  then show ?thesis using ok new by (auto simp: indexes_ok_def reserve_index_def)
qed

lemma indexes_ok_subset:
  assumes "indexes_ok used g" and "mset used' \<subseteq># mset used"
  shows "indexes_ok used' g"
proof -
  obtain rest where "mset used = mset (used' @ rest)"
    using assms(2) by (metis ex_mset mset_append subset_mset.le_iff_add)
  then have "indexes_ok (used' @ rest) g" using assms(1) indexes_ok_mset by blast
  then show ?thesis by (auto simp: indexes_ok_def)
qed

lemma indexes_ok_frame [simp]:
  "indexes_ok used (g\<lparr>ag_ended := b\<rparr>) = indexes_ok used g"
  "indexes_ok used (g\<lparr>ag_pinned_version := v\<rparr>) = indexes_ok used g"
  "indexes_ok used (g\<lparr>ag_roster_revision := w\<rparr>) = indexes_ok used g"
  by (simp_all add: indexes_ok_def)

lemma room_inv_publish [simp]: "room_inv (publish j l r) = room_inv r"
  by (simp add: room_inv_def publish_def Let_def used_indexes_def)

lemma room_inv_insert_peer:
  assumes inv: "room_inv r" and g: "indexes_ok (idx # used_indexes r) g" and pin: "ag_pinned_version g \<noteq> None"
    and len: "length (rm_peers r) < MAX_PEERS_PER_ROOM"
  shows "room_inv (insert_peer i pk idx (r\<lparr>rm_guard := g\<rparr>))"
proof -
  let ?p = "\<lparr>ap_pubkey = pk, ap_audio = [], ap_ctrl = [], ap_peer_index = idx\<rparr>"
  let ?r = "r\<lparr>rm_guard := g, rm_peers := hinsert i ?p (rm_peers r)\<rparr>"
  have d: "distinct (keys (rm_peers r))" using inv by (simp add: room_inv_def)
  have "mset (used_indexes ?r) = add_mset idx (mset (map (\<lambda>(k, p). ap_peer_index p) (hremove i (rm_peers r))))"
    using arg_cong [OF mset_hinsert [OF d, of i ?p], of "image_mset (\<lambda>(k, p). ap_peer_index p)"]
    by (simp add: used_indexes_def)
  moreover have "mset (hremove i (rm_peers r)) \<subseteq># mset (rm_peers r)"
  proof (cases "hget (rm_peers r) i")
    case None
    then show ?thesis by (simp add: map_of_eq_None_iff)
  next
    case (Some p)
    then show ?thesis using mset_hremove [OF d] by simp
  qed
  then have "mset (map (\<lambda>(k, p). ap_peer_index p) (hremove i (rm_peers r))) \<subseteq># mset (used_indexes r)"
    unfolding used_indexes_def mset_map by (rule image_mset_subseteq_mono)
  ultimately have "indexes_ok (used_indexes ?r) g"
    using indexes_ok_subset [OF g, of "used_indexes ?r"] by simp
  moreover have "\<forall>(k, p) \<in> set (hinsert i ?p (rm_peers r)). queues_ok p"
    using inv d by (auto simp: room_inv_def set_insert_entries queues_ok_def)
  moreover have "length (hinsert i ?p (rm_peers r)) \<le> MAX_PEERS_PER_ROOM"
    using len by (simp add: length_hinsert)
  ultimately have "room_inv ?r"
    using d pin by (simp add: room_inv_def)
  then show ?thesis by (simp add: insert_peer_def)
qed

lemma pin_version_some: "ag_pinned_version (pin_version v g) \<noteq> None"
  by (auto simp: pin_version_def split: option.splits)

lemma indexes_ok_pin [simp]: "indexes_ok used (pin_version v g) = indexes_ok used g"
  by (simp add: pin_version_def split: option.splits)

lemma add_peer_inv [inv_intros]:
  assumes inv: "room_inv r"
  shows "room_inv (snd (add_peer i pk v r))"
proof (cases "\<exists>idx g. \<not> ag_ended (rm_guard r) \<and> length (rm_peers r) < MAX_PEERS_PER_ROOM \<and>
    version_mismatch v (rm_guard r) = None \<and> alloc (rm_guard r) = (Some idx, g)")
  case True
  then obtain idx g where h: "\<not> ag_ended (rm_guard r)" "length (rm_peers r) < MAX_PEERS_PER_ROOM"
    "version_mismatch v (rm_guard r) = None" "alloc (rm_guard r) = (Some idx, g)" by blast
  have "indexes_ok (idx # used_indexes r) (pin_version v g)"
    using indexes_ok_alloc [OF _ h(4)] inv by (simp add: room_inv_def)
  then have "room_inv (insert_peer i pk idx (r\<lparr>rm_guard := pin_version v g\<rparr>))"
    using inv pin_version_some h(2) by (intro room_inv_insert_peer)
  then show ?thesis using h by (simp add: add_peer_def)
next
  case False
  then have "snd (add_peer i pk v r) = r"
    by (auto simp: add_peer_def split: option.splits prod.splits)
  then show ?thesis using inv by simp
qed

lemma add_peer_at_index_inv [inv_intros]:
  assumes inv: "room_inv r" and "idx < 256"
  shows "room_inv (snd (add_peer_at_index i pk v idx r))"
proof (cases "\<not> ag_ended (rm_guard r) \<and> length (rm_peers r) < MAX_PEERS_PER_ROOM \<and>
    idx \<notin> set (used_indexes r) \<and> version_mismatch v (rm_guard r) = None")
  case True
  then have h: "\<not> ag_ended (rm_guard r)" "length (rm_peers r) < MAX_PEERS_PER_ROOM"
    "\<not> list_ex (\<lambda>(k, p). ap_peer_index p = idx) (rm_peers r)" "version_mismatch v (rm_guard r) = None"
    by (auto simp: used_indexes_def list_ex_iff image_iff)
  have "indexes_ok (idx # used_indexes r) (reserve_index idx (pin_version v (rm_guard r)))"
    using inv True assms(2) by (intro indexes_ok_reserve) (simp_all add: room_inv_def)
  moreover have "ag_pinned_version (reserve_index idx (pin_version v (rm_guard r))) \<noteq> None"
    using pin_version_some by (simp add: reserve_index_def Let_def)
  ultimately have "room_inv (insert_peer i pk idx (r\<lparr>rm_guard := reserve_index idx (pin_version v (rm_guard r))\<rparr>))"
    using inv h(2) by (intro room_inv_insert_peer)
  then show ?thesis using h by (simp add: add_peer_at_index_def)
next
  case False
  then have "snd (add_peer_at_index i pk v idx r) = r"
    by (auto simp: add_peer_at_index_def used_indexes_def list_ex_iff split: option.splits)
  then show ?thesis using inv by simp
qed

lemma take_peer_inv:
  assumes inv: "room_inv r" and p: "hget (rm_peers r) i = Some p"
  shows "room_inv (take_peer i p r)"
proof -
  have d: "distinct (keys (rm_peers r))" using inv by (simp add: room_inv_def)
  let ?r = "r\<lparr>rm_peers := hremove i (rm_peers r)\<rparr>"
  have "indexes_ok (ap_peer_index p # used_indexes ?r) (rm_guard r)"
    using inv used_remove [OF d p] indexes_ok_mset [of "used_indexes r" "ap_peer_index p # used_indexes ?r"]
    by (simp add: room_inv_def)
  then have "indexes_ok (used_indexes ?r) (release (ap_peer_index p) (rm_guard r))"
    by (rule indexes_ok_release)
  moreover have "length (hremove i (rm_peers r)) \<le> length (rm_peers r)"
    by (rule length_delete_le)
  ultimately have "room_inv (r\<lparr>rm_peers := hremove i (rm_peers r), rm_guard := release (ap_peer_index p) (rm_guard r)\<rparr>)"
    using inv d by (auto simp: room_inv_def release_def used_indexes_def set_remove_entries)
  then show ?thesis by (simp add: take_peer_def)
qed

lemma send_inv:
  assumes "room_inv r" and "\<And>p. queues_ok p \<Longrightarrow> queues_ok (f' p)" "\<And>p. ap_peer_index (f' p) = ap_peer_index p"
  shows "room_inv (r\<lparr>rm_peers := map (\<lambda>(k, p). (k, if to k p then f' p else p)) (rm_peers r)\<rparr>)"
proof -
  let ?g = "\<lambda>(k, p). (k, if to k p then f' p else p)"
  have "map fst (map ?g ps) = map fst ps" for ps :: "(uuid, audio_peer) hmap"
    by (induction ps) auto
  moreover have "map (\<lambda>(k, p). ap_peer_index p) (map ?g ps) = map (\<lambda>(k, p). ap_peer_index p) ps" for ps
    by (induction ps) (auto simp: assms(3))
  moreover have "\<forall>(k, p) \<in> set (map ?g ps). queues_ok p" if "\<forall>(k, p) \<in> set ps. queues_ok p" for ps
    using that by (induction ps) (auto simp: assms(2))
  then have "\<forall>(k, p) \<in> set (map ?g (rm_peers r)). queues_ok p"
    using assms(1) unfolding room_inv_def by blast
  ultimately show ?thesis
    using assms(1) unfolding room_inv_def used_indexes_def
    by (auto simp del: map_map set_map)
qed

lemma send_audio_inv: "room_inv r \<Longrightarrow> room_inv (send_audio to f r)"
  unfolding send_audio_def
  by (rule send_inv) (auto simp: queues_ok_def try_send_def)

lemma broadcast_control_inv: "room_inv r \<Longrightarrow> room_inv (broadcast_control j r)"
  using send_inv [of r "\<lambda>p. p\<lparr>ap_ctrl := try_send CTRL_CHANNEL_CAPACITY (CtrlJson j) (ap_ctrl p)\<rparr>" "\<lambda>k p. True"]
  by (simp add: broadcast_control_def queues_ok_def try_send_def)

lemma receive_inv: "room_inv r \<Longrightarrow> room_inv (receive i r)"
  unfolding receive_def by (rule send_inv) (auto simp: queues_ok_def)

interpretation rooms: machine room_step room_inv
proof
  fix r :: room and a :: room_op
  assume inv: "room_inv r"
  have ended: "room_inv (r'\<lparr>rm_guard := (rm_guard r')\<lparr>ag_ended := b\<rparr>\<rparr>)" if "room_inv r'" for r' b
    using that by (simp add: room_inv_def used_indexes_def)
  show "room_inv (room_step r a)"
  proof (cases a)
    case (AddPeerAtIndex i pk v idx)
    have "unat idx < 256" using unsigned_less [of idx] by simp
    then show ?thesis using inv AddPeerAtIndex by (simp add: add_peer_at_index_inv)
  next
    case (RemovePeer i)
    then show ?thesis using inv by (simp add: remove_peer_def take_peer_inv split: option.splits)
  next
    case (RemovePeerAndCheckEnded i)
    then show ?thesis using inv ended
      by (simp add: remove_peer_and_check_ended_def take_peer_inv mark_ended_def Let_def split: option.splits)
  next
    case (BroadcastFrame i f)
    then show ?thesis using inv by (simp add: broadcast_frame_def send_audio_inv split: option.splits)
  qed (use inv ended in \<open>simp_all add: add_peer_inv mark_ended_def clear_ended_def deliver_prefixed_def
        send_audio_inv broadcast_control_inv receive_inv\<close>)
qed

lemma room_new_inv: "room_inv (room_new c ch)"
  by (simp add: room_inv_def room_new_def guard_new_def used_indexes_def indexes_ok_def)

text \<open>
  C35: In every state a room can reach, no two peers share an index and no recycled index is in
  use, so a frame prefix names one speaker; there are at most 25 peers, the bounded queues never
  exceed 8 frames and 32 messages, and a non-empty room has a pinned protocol version.
\<close>

theorem room_invariant:
  "room_inv (foldl room_step (room_new community channel) ops)"
  by (rule rooms.run_inv) (rule room_new_inv)

section \<open>The roster log\<close>

abbreviation mset_opt :: "'a option \<Rightarrow> 'a multiset" where
  "mset_opt x \<equiv> mset (case x of None \<Rightarrow> [] | Some a \<Rightarrow> [a])"

definition apply_delta :: "roster_delta \<Rightarrow> roster_peer multiset \<Rightarrow> roster_peer multiset" where
  "apply_delta d R = R + mset_opt (rd_joined d) - mset_opt (rd_left d)"

text \<open>\<open>explains r ds r'\<close>: the deltas \<open>ds\<close>, in this order and without a gap, turn one roster into the other.\<close>

definition explains :: "room \<Rightarrow> roster_delta list \<Rightarrow> room \<Rightarrow> bool" where
  "explains r ds r' \<longleftrightarrow>
     rm_roster_log r' = rm_roster_log r @ ds \<and>
     mset (roster_of r') = fold apply_delta ds (mset (roster_of r)) \<and>
     ag_roster_revision (rm_guard r') = ag_roster_revision (rm_guard r) + of_nat (length ds) \<and>
     (\<forall>n < length ds. rd_revision (ds ! n) = ag_roster_revision (rm_guard r) + of_nat (n + 1))"

lemma explains_Nil: "explains r [] r' \<longleftrightarrow>
  rm_roster_log r' = rm_roster_log r \<and> mset (roster_of r') = mset (roster_of r) \<and>
  ag_roster_revision (rm_guard r') = ag_roster_revision (rm_guard r)"
  by (simp add: explains_def)

lemma explains_trans:
  assumes 1: "explains r ds r'" and 2: "explains r' es r''"
  shows "explains r (ds @ es) r''"
proof -
  have "rd_revision ((ds @ es) ! n) = ag_roster_revision (rm_guard r) + of_nat (n + 1)"
    if n: "n < length ds + length es" for n
  proof (cases "n < length ds")
    case True
    then show ?thesis using 1 by (simp add: explains_def nth_append)
  next
    case False
    then obtain m where m: "n = length ds + m" "m < length es"
      using n by (metis add_less_cancel_left le_iff_add not_less)
    then have "rd_revision (es ! m) = ag_roster_revision (rm_guard r') + of_nat (m + 1)"
      using 2 by (simp add: explains_def)
    then show ?thesis using 1 m by (simp add: explains_def nth_append)
  qed
  then show ?thesis using 1 2 by (simp add: explains_def)
qed

lemma explains_publish:
  assumes "rm_roster_log r' = rm_roster_log r"
    and "ag_roster_revision (rm_guard r') = ag_roster_revision (rm_guard r)"
    and "mset (roster_of r') = mset (roster_of r) + mset_opt j - mset_opt l"
  shows "\<exists>ds. explains r ds (publish j l r')"
  using assms
  by (intro exI [of _ "[\<lparr>rd_revision = ag_roster_revision (rm_guard r) + 1, rd_joined = j, rd_left = l\<rparr>]"])
    (simp add: explains_def publish_def Let_def roster_of_def apply_delta_def)

lemma explains_add:
  assumes "hget (rm_peers r) i = None" and "ag_roster_revision g = ag_roster_revision (rm_guard r)"
  shows "\<exists>ds. explains r ds (insert_peer i pk idx (r\<lparr>rm_guard := g\<rparr>))"
  unfolding insert_peer_def
  by (rule explains_publish) (simp_all add: assms roster_of_def hinsert_absent)

lemma revision_frame [simp]:
  "ag_roster_revision (pin_version v g) = ag_roster_revision g"
  "ag_roster_revision (reserve_index idx g) = ag_roster_revision g"
  "ag_roster_revision (release idx g) = ag_roster_revision g"
  by (simp_all add: pin_version_def reserve_index_def release_def Let_def split: option.splits)

lemma revision_alloc: "alloc g = (x, g') \<Longrightarrow> ag_roster_revision g' = ag_roster_revision g"
  by (auto simp: alloc_def split: list.splits if_splits)

lemma explains_add_peer:
  assumes new: "hget (rm_peers r) i = None"
  shows "\<exists>ds. explains r ds (snd (add_peer i pk v r))"
proof (cases "fst (add_peer i pk v r)")
  case (Inl e)
  then have "snd (add_peer i pk v r) = r"
    by (auto simp: add_peer_def split: option.splits prod.splits if_splits)
  then show ?thesis using explains_Nil [of r r] by auto
next
  case (Inr idx)
  then obtain g where g: "alloc (rm_guard r) = (Some idx, g)"
    "snd (add_peer i pk v r) = insert_peer i pk idx (r\<lparr>rm_guard := pin_version v g\<rparr>)"
    by (auto simp: add_peer_def split: option.splits prod.splits if_splits)
  then show ?thesis using explains_add [OF new] revision_alloc by simp
qed

lemma explains_add_peer_at_index:
  assumes new: "hget (rm_peers r) i = None"
  shows "\<exists>ds. explains r ds (snd (add_peer_at_index i pk v idx r))"
proof (cases "fst (add_peer_at_index i pk v idx r)")
  case (Inl e)
  then have "snd (add_peer_at_index i pk v idx r) = r"
    by (auto simp: add_peer_at_index_def split: option.splits if_splits)
  then show ?thesis using explains_Nil [of r r] by auto
next
  case (Inr u)
  then have "snd (add_peer_at_index i pk v idx r) =
      insert_peer i pk idx (r\<lparr>rm_guard := reserve_index idx (pin_version v (rm_guard r))\<rparr>)"
    by (auto simp: add_peer_at_index_def split: option.splits if_splits)
  then show ?thesis using explains_add [OF new] by simp
qed

lemma explains_take_peer:
  assumes d: "distinct (keys (rm_peers r))" and p: "hget (rm_peers r) i = Some p"
  shows "\<exists>ds. explains r ds (take_peer i p r)"
  unfolding take_peer_def
  by (rule explains_publish) (simp_all add: roster_of_def mset_hremove [OF d p])

lemma roster_frames [simp]:
  "roster_of (send_audio to f r) = roster_of r" "rm_roster_log (send_audio to f r) = rm_roster_log r"
  "rm_guard (send_audio to f r) = rm_guard r"
  "roster_of (broadcast_control j r) = roster_of r" "rm_roster_log (broadcast_control j r) = rm_roster_log r"
  "rm_guard (broadcast_control j r) = rm_guard r"
  "roster_of (receive i r) = roster_of r" "rm_roster_log (receive i r) = rm_roster_log r"
  "rm_guard (receive i r) = rm_guard r"
  by (auto simp: send_audio_def broadcast_control_def receive_def roster_of_def split_beta)

text \<open>A peer id is new: \<open>Uuid::new_v4\<close> never returns the id of a peer in the room.\<close>

fun fresh_op :: "room \<Rightarrow> room_op \<Rightarrow> bool" where
  "fresh_op r (AddPeer i pk v) \<longleftrightarrow> hget (rm_peers r) i = None"
| "fresh_op r (AddPeerAtIndex i pk v idx) \<longleftrightarrow> hget (rm_peers r) i = None"
| "fresh_op r _ \<longleftrightarrow> True"

fun fresh_run :: "room \<Rightarrow> room_op list \<Rightarrow> bool" where
  "fresh_run r [] \<longleftrightarrow> True"
| "fresh_run r (a # as) \<longleftrightarrow> fresh_op r a \<and> fresh_run (room_step r a) as"

lemma explains_step:
  assumes inv: "room_inv r" and fresh: "fresh_op r a"
  shows "\<exists>ds. explains r ds (room_step r a)"
proof -
  have d: "distinct (keys (rm_peers r))" using inv by (simp add: room_inv_def)
  have ended: "\<exists>ds. explains r ds (r'\<lparr>rm_guard := (rm_guard r')\<lparr>ag_ended := b\<rparr>\<rparr>)"
    if "\<exists>ds. explains r ds r'" for r' b
    using that by (simp add: explains_def roster_of_def)
  have same: "\<exists>ds. explains r ds r'" if "rm_roster_log r' = rm_roster_log r" "roster_of r' = roster_of r"
    "rm_guard r' = rm_guard r" for r'
    using that by (intro exI [of _ "[]"]) (simp add: explains_Nil)
  show ?thesis
  proof (cases a)
    case (RemovePeer i)
    then show ?thesis using explains_take_peer [OF d] same
      by (simp add: remove_peer_def split: option.splits)
  next
    case (RemovePeerAndCheckEnded i)
    then show ?thesis using explains_take_peer [OF d] same ended
      by (simp add: remove_peer_and_check_ended_def mark_ended_def Let_def split: option.splits)
  next
    case (BroadcastFrame i f)
    then show ?thesis using same by (simp add: broadcast_frame_def split: option.splits)
  next
    case MarkEnded
    then show ?thesis using ended [of r] same [of r] by (simp add: mark_ended_def)
  next
    case ClearEnded
    then show ?thesis using ended [of r] same [of r] by (simp add: clear_ended_def)
  qed (use fresh same in \<open>simp_all add: explains_add_peer explains_add_peer_at_index
        deliver_prefixed_def\<close>)
qed

lemma explains_run:
  "room_inv r \<Longrightarrow> fresh_run r ops \<Longrightarrow> \<exists>ds. explains r ds (foldl room_step r ops)"
proof (induction ops arbitrary: r)
  case Nil
  then show ?case using explains_Nil [of r r] by auto
next
  case (Cons a as)
  obtain ds es where "explains r ds (room_step r a)" "explains (room_step r a) es (foldl room_step (room_step r a) as)"
    using explains_step [of r a] Cons rooms.step_inv by (metis fresh_run.simps(2))
  then have "explains r (ds @ es) (foldl room_step (room_step r a) as)" by (rule explains_trans)
  then show ?case by auto
qed

text \<open>
  A receiver that holds a room's roster snapshot and applies the deltas published since, in
  order, has the room's current roster and revision, and the revisions it sees are consecutive,
  so a missed delta shows as a gap.
\<close>

theorem roster_deltas_rebuild_snapshot:
  assumes "r = foldl room_step (room_new community channel) before"
    and "fresh_run r ops" and "r' = foldl room_step r ops"
    and "ds = drop (length (rm_roster_log r)) (rm_roster_log r')"
  shows "mset (rs_peers (roster_snapshot r')) = fold apply_delta ds (mset (rs_peers (roster_snapshot r)))
    \<and> rs_revision (roster_snapshot r') = rs_revision (roster_snapshot r) + of_nat (length ds)
    \<and> map rd_revision ds = map (\<lambda>n. rs_revision (roster_snapshot r) + of_nat (n + 1)) [0..<length ds]"
proof -
  have "room_inv r" unfolding assms(1) by (rule rooms.run_inv) (rule room_new_inv)
  then obtain es where es: "explains r es r'" using explains_run assms(2,3) by blast
  then have "ds = es" by (simp add: assms(4) explains_def)
  then show ?thesis using es by (auto simp: explains_def roster_snapshot_def intro!: nth_equalityI)
qed

text \<open>Witness: one peer joins before the snapshot, one joins and the first leaves after it.\<close>

definition ex_ops :: "room_op list" where
  "ex_ops = [AddPeer ''b'' ''pkb'' 2, RemovePeer ''a'']"

lemma roster_deltas_rebuild_snapshot_witness:
  "let r = foldl room_step (room_new ''c'' ''ch'') [AddPeer ''a'' ''pka'' 2];
       r' = foldl room_step r ex_ops; ds = drop (length (rm_roster_log r)) (rm_roster_log r')
   in length ds = 2 \<and> rs_peers (roster_snapshot r') = [\<lparr>rp_pubkey = ''pkb'', rp_peer_index = 1\<rparr>] \<and>
     mset (rs_peers (roster_snapshot r')) = fold apply_delta ds (mset (rs_peers (roster_snapshot r)))"
proof -
  let ?r = "foldl room_step (room_new ''c'' ''ch'') [AddPeer ''a'' ''pka'' 2]"
  have "fresh_run ?r ex_ops" by code_simp
  moreover have "length (drop (length (rm_roster_log ?r)) (rm_roster_log (foldl room_step ?r ex_ops))) = 2"
    by code_simp
  moreover have "rs_peers (roster_snapshot (foldl room_step ?r ex_ops)) = [\<lparr>rp_pubkey = ''pkb'', rp_peer_index = 1\<rparr>]"
    by code_simp
  ultimately show ?thesis
    using roster_deltas_rebuild_snapshot [of ?r "''c''" "''ch''" "[AddPeer ''a'' ''pka'' 2]" ex_ops, OF refl _ refl refl]
    unfolding Let_def by blast
qed

section \<open>A joiner and a concurrent cleanup\<close>

text \<open>
  A joiner holds the room it got while it waits for the database. When another connection
  cleans up the still empty room meanwhile, the joiner is admitted to a room that is no longer in
  the table, and the next joiner of the channel is admitted to a second room: both get index 0 and
  neither is in the other's peer list.
\<close>

theorem cleanup_splits_huddle:
  assumes "get_room c ch m = None"
    and "(a, m1) = get_or_create c ch m"
    and "(removed, m2) = cleanup_if_empty c ch m1"
    and "(x, m3) = on_room a (add_peer i pk v) m2"
    and "(b, m4) = get_or_create c ch m3"
    and "(y, m5) = on_room b (add_peer j pk' v') m4"
  shows "removed \<and> x = Inr 0 \<and> y = Inr 0 \<and> a \<noteq> b \<and>
    keys (rm_peers (mg_store m5 ! a)) = [i] \<and> keys (rm_peers (mg_store m5 ! b)) = [j]"
proof -
  note defs = get_room_def get_or_create_def cleanup_if_empty_def on_room_def room_is_empty_def
  have join: "add_peer i pk v (room_new c ch) = (Inr 0, insert_peer i pk 0
      ((room_new c ch)\<lparr>rm_guard := guard_new\<lparr>ag_next_fresh := 1, ag_pinned_version := Some v\<rparr>\<rparr>))" for i pk v
    by (simp add: add_peer_def room_new_def guard_new_def MAX_PEERS_PER_ROOM_def version_mismatch_def
        alloc_def pin_version_def)
  have peers: "keys (rm_peers (snd (add_peer i pk v (room_new c ch)))) = [i]" for i pk v
    by (simp only: join snd_conv) (simp add: insert_peer_def publish_def Let_def room_new_def)
  have 1: "a = length (mg_store m)" "mg_store m1 = mg_store m @ [room_new c ch]"
    "hget (mg_rooms m1) (c, ch) = Some a"
    using assms(1,2) by (simp_all add: defs Let_def)
  have 2: "removed" "mg_store m2 = mg_store m1" "hget (mg_rooms m2) (c, ch) = None"
    using assms(3) 1 by (simp_all add: defs room_new_def)
  have 3: "x = Inr 0" "mg_store m3 = mg_store m @ [snd (add_peer i pk v (room_new c ch))]"
    "hget (mg_rooms m3) (c, ch) = None"
    using assms(4) 1 2 by (simp_all add: on_room_def join)
  have 4: "b = Suc a" "mg_store m4 = mg_store m3 @ [room_new c ch]"
    using assms(5) 1 3 by (simp_all add: defs Let_def)
  have 5: "y = Inr 0" "mg_store m5 = mg_store m3 @ [snd (add_peer j pk' v' (room_new c ch))]"
    using assms(6) 1 3 4 by (simp_all add: on_room_def join nth_append list_update_append)
  show ?thesis using 1 2 3 4 5 peers by (simp add: nth_append)
qed

lemma cleanup_splits_huddle_witness:
  "let (a, m1) = get_or_create ''c'' ''ch'' manager_new; (removed, m2) = cleanup_if_empty ''c'' ''ch'' m1;
       (x, m3) = on_room a (add_peer ''p'' ''pka'' 2) m2; (b, m4) = get_or_create ''c'' ''ch'' m3;
       (y, m5) = on_room b (add_peer ''q'' ''pkb'' 2) m4
   in a \<noteq> b \<and> x = Inr 0 \<and> y = Inr 0"
proof -
  obtain a m1 where 1: "(a, m1) = get_or_create ''c'' ''ch'' manager_new" by (metis surj_pair)
  obtain removed m2 where 2: "(removed, m2) = cleanup_if_empty ''c'' ''ch'' m1" by (metis surj_pair)
  obtain x m3 where 3: "(x, m3) = on_room a (add_peer ''p'' ''pka'' 2) m2" by (metis surj_pair)
  obtain b m4 where 4: "(b, m4) = get_or_create ''c'' ''ch'' m3" by (metis surj_pair)
  obtain y m5 where 5: "(y, m5) = on_room b (add_peer ''q'' ''pkb'' 2) m4" by (metis surj_pair)
  have "get_room ''c'' ''ch'' manager_new = None" by (simp add: get_room_def manager_new_def)
  from cleanup_splits_huddle [OF this 1 2 3 4 5] show ?thesis
    by (simp add: 1 [symmetric] 2 [symmetric] 3 [symmetric] 4 [symmetric] 5 [symmetric])
qed

end
