(* ===== verification/AuditLog.thy ===== *)
theory AuditLog
  imports Text "HOL-Library.Char_ord" "HOL-Library.List_Lexorder"
begin

text \<open>
  The per-community audit log of \<open>crates/buzz-audit/src\<close>: \<open>action.rs\<close>, \<open>entry.rs\<close>, the hash of an
  entry (\<open>hash.rs\<close>) and the service that appends to and verifies a chain (\<open>service.rs\<close>).

  \<^item> The table \<open>audit_log\<close> is the list of its rows; the three SQL queries are filters and sorts of
    it. Its two unique constraints are checked by the insertion. The advisory lock makes the
    appends of a community sequential.
  \<^item> \<open>DateTime<Utc>\<close> is a number of nanoseconds. A \<open>TIMESTAMPTZ\<close> column keeps microseconds.
  \<^item> SHA-256, the bytes of a UUID, the RFC 3339 text of a time, the text of a JSON scalar and what a
    \<open>JSONB\<close> column makes of a value are library code: the fields of \<open>audit_lib\<close>.
  \<^item> Sequence numbers are \<open>i64\<close>: integers; a chain of \<open>2 ^ 63\<close> entries is out of scope.
\<close>

datatype audit_action =
    EventCreated | EventDeleted | ChannelCreated | ChannelUpdated | ChannelDeleted | MemberAdded
  | MemberRemoved | AuthSuccess | AuthFailure | RateLimitExceeded | MediaUploaded

fun action_as_str :: "audit_action \<Rightarrow> string" where
  "action_as_str EventCreated = ''event_created''"
| "action_as_str EventDeleted = ''event_deleted''"
| "action_as_str ChannelCreated = ''channel_created''"
| "action_as_str ChannelUpdated = ''channel_updated''"
| "action_as_str ChannelDeleted = ''channel_deleted''"
| "action_as_str MemberAdded = ''member_added''"
| "action_as_str MemberRemoved = ''member_removed''"
| "action_as_str AuthSuccess = ''auth_success''"
| "action_as_str AuthFailure = ''auth_failure''"
| "action_as_str RateLimitExceeded = ''rate_limit_exceeded''"
| "action_as_str MediaUploaded = ''media_uploaded''"

definition ALL_ACTIONS :: "audit_action list" where
  "ALL_ACTIONS = [EventCreated, EventDeleted, ChannelCreated, ChannelUpdated, ChannelDeleted, MemberAdded,
     MemberRemoved, AuthSuccess, AuthFailure, RateLimitExceeded, MediaUploaded]"

definition action_from_str :: "string \<Rightarrow> audit_action option" where
  "action_from_str s = find (\<lambda>a. action_as_str a = s) ALL_ACTIONS"

text \<open>\<open>serde_json::Value\<close>; a number is its text. An object's keys are distinct.\<close>

datatype json =
    JNull
  | JBool bool
  | JNumber string
  | JString string
  | JArray "json list"
  | JObject "(string \<times> json) list"

record audit_lib =
  al_uuid_bytes :: "uuid \<Rightarrow> string"
  al_rfc3339 :: "nat \<Rightarrow> string"
  al_json_text :: "json \<Rightarrow> string option"
  al_sha256 :: "string \<Rightarrow> string"
  al_jsonb :: "json \<Rightarrow> json"

record audit_entry =
  ae_community_id :: uuid
  ae_seq :: int
  ae_hash :: string
  ae_prev_hash :: "string option"
  ae_action :: audit_action
  ae_actor_pubkey :: "string option"
  ae_object_id :: "string option"
  ae_detail :: json
  ae_created_at :: nat

record new_audit_entry =
  ne_community_id :: uuid
  ne_action :: audit_action
  ne_actor_pubkey :: "string option"
  ne_object_id :: "string option"
  ne_detail :: json

datatype audit_error =
    Database
  | ChainViolation int
  | HashMismatch int
  | UnknownAction
  | Serialization

section \<open>The hash of an entry\<close>

definition GENESIS_HASH :: string where "GENESIS_HASH = replicate 32 (char_of (0 :: nat))"

definition to_storage_precision :: "nat \<Rightarrow> nat" where
  "to_storage_precision t = t - t mod 1000"

text \<open>The parts separated by commas; \<open>None\<close> when one of them failed.\<close>

fun comma_all :: "string option list \<Rightarrow> string option" where
  "comma_all [] = Some []"
| "comma_all [p] = p"
| "comma_all (p # q # ps) =
     (case (p, comma_all (q # ps)) of (Some s, Some r) \<Rightarrow> Some (s @ '','' @ r) | _ \<Rightarrow> None)"

definition member_text :: "audit_lib \<Rightarrow> string \<times> string option \<Rightarrow> string option" where
  "member_text L e =
     (case (al_json_text L (JString (fst e)), snd e) of
        (Some k, Some v) \<Rightarrow> Some (k @ '':'' @ v)
      | _ \<Rightarrow> None)"

text \<open>The members are written in the order of a \<open>BTreeMap\<close>, the byte order of their keys.\<close>

fun canonical_json :: "audit_lib \<Rightarrow> json \<Rightarrow> string option" where
  "canonical_json L (JObject m) =
     map_option (\<lambda>s. ''{'' @ s @ ''}'')
       (comma_all (map (member_text L) (sort_key fst (map (\<lambda>(k, v). (k, canonical_json L v)) m))))"
| "canonical_json L (JArray arr) =
     map_option (\<lambda>s. ''['' @ s @ '']'') (comma_all (map (canonical_json L) arr))"
| "canonical_json L v = al_json_text L v"

primrec be_bytes :: "nat \<Rightarrow> nat \<Rightarrow> string" where
  "be_bytes 0 n = []"
| "be_bytes (Suc k) n = be_bytes k (n div 256) @ [char_of n]"

definition be_i64 :: "int \<Rightarrow> string" where
  "be_i64 n = be_bytes 8 (nat (n mod 2 ^ 64))"

definition tagged :: "string option \<Rightarrow> string" where
  "tagged x = (case x of Some b \<Rightarrow> char_of (1 :: nat) # b | None \<Rightarrow> [char_of (0 :: nat)])"

definition preimage :: "audit_lib \<Rightarrow> audit_entry \<Rightarrow> string option" where
  "preimage L e =
     (case canonical_json L (ae_detail e) of
        None \<Rightarrow> None
      | Some detail \<Rightarrow>
          Some (al_uuid_bytes L (ae_community_id e) @ be_i64 (ae_seq e) @
            al_rfc3339 L (to_storage_precision (ae_created_at e)) @ action_as_str (ae_action e) @
            tagged (ae_actor_pubkey e) @ tagged (ae_object_id e) @ detail @
            (case ae_prev_hash e of Some h \<Rightarrow> h | None \<Rightarrow> GENESIS_HASH)))"

definition compute_hash :: "audit_lib \<Rightarrow> audit_entry \<Rightarrow> audit_error + string" where
  "compute_hash L e = (case preimage L e of None \<Rightarrow> Inl Serialization | Some p \<Rightarrow> Inr (al_sha256 L p))"

section \<open>The table\<close>

record audit_row =
  rw_community_id :: uuid
  rw_seq :: int
  rw_hash :: string
  rw_prev_hash :: "string option"
  rw_action :: string
  rw_actor_pubkey :: "string option"
  rw_object_id :: "string option"
  rw_detail :: json
  rw_created_at :: nat

definition row_to_audit_entry :: "audit_row \<Rightarrow> audit_error + audit_entry" where
  "row_to_audit_entry row =
     (case action_from_str (rw_action row) of
        None \<Rightarrow> Inl UnknownAction
      | Some action \<Rightarrow>
          Inr \<lparr>ae_community_id = rw_community_id row, ae_seq = rw_seq row, ae_hash = rw_hash row,
               ae_prev_hash = rw_prev_hash row, ae_action = action,
               ae_actor_pubkey = rw_actor_pubkey row, ae_object_id = rw_object_id row,
               ae_detail = rw_detail row, ae_created_at = rw_created_at row\<rparr>)"

definition insert_row :: "audit_lib \<Rightarrow> audit_entry \<Rightarrow> audit_row list \<Rightarrow> audit_row list option" where
  "insert_row L e t =
     (if list_ex (\<lambda>r. rw_community_id r = ae_community_id e \<and> (rw_seq r = ae_seq e \<or> rw_hash r = ae_hash e)) t
      then None
      else Some (t @
        [\<lparr>rw_community_id = ae_community_id e, rw_seq = ae_seq e, rw_hash = ae_hash e,
          rw_prev_hash = ae_prev_hash e, rw_action = action_as_str (ae_action e),
          rw_actor_pubkey = ae_actor_pubkey e, rw_object_id = ae_object_id e,
          rw_detail = al_jsonb L (ae_detail e),
          rw_created_at = to_storage_precision (ae_created_at e)\<rparr>]))"

text \<open>\<open>SELECT ... WHERE community_id = $1 ORDER BY seq\<close>.\<close>

definition rows_of :: "uuid \<Rightarrow> audit_row list \<Rightarrow> audit_row list" where
  "rows_of c t = sort_key rw_seq (filter (\<lambda>r. rw_community_id r = c) t)"

definition chain_head :: "uuid \<Rightarrow> audit_row list \<Rightarrow> audit_row option" where
  "chain_head c t = (case rev (rows_of c t) of [] \<Rightarrow> None | r # _ \<Rightarrow> Some r)"

definition log_timestamp :: "nat \<Rightarrow> nat" where
  "log_timestamp now = to_storage_precision now"

text \<open>\<open>log_inner\<close>; \<open>up\<close> is whether the database answers. Nothing is committed when a step fails.\<close>

definition log_inner ::
  "audit_lib \<Rightarrow> bool \<Rightarrow> nat \<Rightarrow> new_audit_entry \<Rightarrow> audit_row list
   \<Rightarrow> (audit_error + audit_entry) \<times> audit_row list" where
  "log_inner L up now entry t =
     (if \<not> up then (Inl Database, t)
      else
        let community = ne_community_id entry;
            (prev_seq, prev_hash) =
              (case chain_head community t of Some row \<Rightarrow> (rw_seq row, Some (rw_hash row)) | None \<Rightarrow> (0, None));
            e = \<lparr>ae_community_id = community, ae_seq = prev_seq + 1, ae_hash = [], ae_prev_hash = prev_hash,
                 ae_action = ne_action entry, ae_actor_pubkey = ne_actor_pubkey entry,
                 ae_object_id = ne_object_id entry, ae_detail = ne_detail entry,
                 ae_created_at = log_timestamp now\<rparr>
        in case compute_hash L e of
             Inl err \<Rightarrow> (Inl err, t)
           | Inr h \<Rightarrow>
               (case insert_row L (e\<lparr>ae_hash := h\<rparr>) t of
                  None \<Rightarrow> (Inl Database, t)
                | Some t' \<Rightarrow> (Inr (e\<lparr>ae_hash := h\<rparr>), t')))"

text \<open>The loop of \<open>verify_chain\<close>, with the hash the next entry has to link to.\<close>

fun verify_rows :: "audit_lib \<Rightarrow> string option \<Rightarrow> audit_row list \<Rightarrow> audit_error + bool" where
  "verify_rows L expected [] = Inr True"
| "verify_rows L expected (row # rows) =
     (case row_to_audit_entry row of
        Inl err \<Rightarrow> Inl err
      | Inr e \<Rightarrow>
          if (case expected of None \<Rightarrow> False | Some h \<Rightarrow> ae_prev_hash e \<noteq> Some h)
          then Inl (ChainViolation (ae_seq e))
          else (case compute_hash L e of
             Inl err \<Rightarrow> Inl err
           | Inr h \<Rightarrow>
               if h \<noteq> ae_hash e then Inl (HashMismatch (ae_seq e))
               else verify_rows L (Some (ae_hash e)) rows))"

definition verify_chain :: "audit_lib \<Rightarrow> uuid \<Rightarrow> int \<Rightarrow> int \<Rightarrow> audit_row list \<Rightarrow> audit_error + bool" where
  "verify_chain L c from_seq to_seq t =
     (let rows = filter (\<lambda>r. from_seq \<le> rw_seq r \<and> rw_seq r \<le> to_seq) (rows_of c t) in
      if rows = [] then Inr False else verify_rows L None rows)"

fun collect_rows :: "audit_row list \<Rightarrow> audit_error + audit_entry list" where
  "collect_rows [] = Inr []"
| "collect_rows (row # rows) =
     (case row_to_audit_entry row of
        Inl err \<Rightarrow> Inl err
      | Inr e \<Rightarrow> (case collect_rows rows of Inl err \<Rightarrow> Inl err | Inr es \<Rightarrow> Inr (e # es)))"

definition get_entries :: "uuid \<Rightarrow> int \<Rightarrow> nat \<Rightarrow> audit_row list \<Rightarrow> audit_error + audit_entry list" where
  "get_entries c from_seq limit t =
     collect_rows (take limit (filter (\<lambda>r. from_seq \<le> rw_seq r) (rows_of c t)))"

section \<open>The chain that the service writes\<close>

definition row_ok :: "audit_lib \<Rightarrow> audit_row \<Rightarrow> bool" where
  "row_ok L row \<longleftrightarrow> (case row_to_audit_entry row of Inl _ \<Rightarrow> False | Inr e \<Rightarrow> compute_hash L e = Inr (rw_hash row))"

definition linked :: "audit_row \<Rightarrow> audit_row \<Rightarrow> bool" where
  "linked r r' \<longleftrightarrow> rw_prev_hash r' = Some (rw_hash r)"

lemma row_entry_fields:
  "row_to_audit_entry row = Inr e \<Longrightarrow>
     ae_hash e = rw_hash row \<and> ae_prev_hash e = rw_prev_hash row \<and> ae_seq e = rw_seq row"
  by (auto simp: row_to_audit_entry_def split: option.splits)

lemma verify_rows_ok:
  "verify_rows L h rows = Inr True \<longleftrightarrow>
     (\<forall>r \<in> set rows. row_ok L r) \<and> successively linked rows \<and>
     (h \<noteq> None \<longrightarrow> rows \<noteq> [] \<longrightarrow> rw_prev_hash (hd rows) = h)"
proof (induction rows arbitrary: h)
  case (Cons row rows)
  show ?case
  proof (cases "row_to_audit_entry row")
    case (Inl err)
    then show ?thesis by (auto simp: row_ok_def)
  next
    case (Inr e)
    note f = row_entry_fields [OF Inr]
    show ?thesis
      using Cons Inr f
      by (cases rows; cases h)
        (auto simp: row_ok_def linked_def successively_Cons split: sum.splits if_splits)
  qed
qed simp

lemma verify_rows_not_False: "verify_rows L h rows \<noteq> Inr False"
  by (induction rows arbitrary: h) (auto split: sum.splits)

lemma sorted_range_filter:
  "sorted (map f xs) \<Longrightarrow>
   filter (\<lambda>x. a \<le> f x \<and> f x \<le> b) xs = takeWhile (\<lambda>x. f x \<le> b) (dropWhile (\<lambda>x. f x < a) xs)"
  for f :: "'a \<Rightarrow> 'b :: linorder"
proof (induction xs)
  case (Cons x xs)
  have above: "filter (\<lambda>x. a \<le> f x \<and> f x \<le> b) ys = takeWhile (\<lambda>x. f x \<le> b) ys"
    if "sorted (map f ys)" "\<forall>y \<in> set ys. a \<le> f y" for ys
    using that
  proof (induction ys)
    case (Cons y ys)
    then show ?case by (cases ys) (auto simp: filter_empty_conv dest: order_trans)
  qed simp
  show ?case
  proof (cases "f x < a")
    case True
    then have "\<not> a \<le> f x" by simp
    then show ?thesis using Cons True by simp
  next
    case False
    then show ?thesis using Cons.prems by (subst above) auto
  qed
qed simp

lemma successively_range:
  assumes "sorted (map f xs)" and "successively P xs"
  shows "successively P (filter (\<lambda>x. a \<le> f x \<and> f x \<le> b) xs)"
proof -
  have "successively P (dropWhile Q xs)" for Q
    using assms(2) by (metis successively_append_iff takeWhile_dropWhile_id)
  then have "successively P (takeWhile R (dropWhile Q xs))" for Q R
    by (metis successively_append_iff takeWhile_dropWhile_id)
  then show ?thesis using sorted_range_filter [OF assms(1)] by simp
qed

definition chain_inv :: "audit_lib \<Rightarrow> audit_row list \<Rightarrow> bool" where
  "chain_inv L rs \<longleftrightarrow>
     map rw_seq rs = map (\<lambda>i. int i + 1) [0..<length rs] \<and> (\<forall>r \<in> set rs. row_ok L r) \<and>
     successively linked rs \<and> (rs \<noteq> [] \<longrightarrow> rw_prev_hash (hd rs) = None)"

definition community_rows :: "uuid \<Rightarrow> audit_row list \<Rightarrow> audit_row list" where
  "community_rows c t = filter (\<lambda>r. rw_community_id r = c) t"

lemma chain_sorted: "chain_inv L rs \<Longrightarrow> sorted (map rw_seq rs)"
  unfolding chain_inv_def by (simp add: sorted_iff_nth_mono)

lemma rows_of_chain: "chain_inv L (community_rows c t) \<Longrightarrow> rows_of c t = community_rows c t"
  using chain_sorted unfolding rows_of_def community_rows_def by (simp add: sort_key_id_if_sorted)

lemma action_round_trip [simp]: "action_from_str (action_as_str a) = Some a"
  by (cases a) (simp_all add: action_from_str_def ALL_ACTIONS_def)

lemma to_storage_precision_idem [simp]: "to_storage_precision (to_storage_precision t) = to_storage_precision t"
  by (simp add: to_storage_precision_def mod_diff_left_eq [symmetric])

definition stored_row :: "audit_lib \<Rightarrow> audit_entry \<Rightarrow> audit_row" where
  "stored_row L e =
     \<lparr>rw_community_id = ae_community_id e, rw_seq = ae_seq e, rw_hash = ae_hash e,
      rw_prev_hash = ae_prev_hash e, rw_action = action_as_str (ae_action e),
      rw_actor_pubkey = ae_actor_pubkey e, rw_object_id = ae_object_id e,
      rw_detail = al_jsonb L (ae_detail e), rw_created_at = to_storage_precision (ae_created_at e)\<rparr>"

lemma stored_row_ok:
  assumes h: "compute_hash L e = Inr (ae_hash e)"
    and j: "canonical_json L (al_jsonb L (ae_detail e)) = canonical_json L (ae_detail e)"
  shows "row_ok L (stored_row L e)"
  using assms
  by (cases "canonical_json L (ae_detail e)")
    (simp_all add: row_ok_def row_to_audit_entry_def stored_row_def compute_hash_def preimage_def)

lemma compute_hash_frame: "compute_hash L (e\<lparr>ae_hash := h\<rparr>) = compute_hash L e"
  by (cases "canonical_json L (ae_detail e)") (simp_all add: compute_hash_def preimage_def)

text \<open>The database keeps a detail up to its canonical text.\<close>

definition detail_kept :: "audit_lib \<Rightarrow> json \<Rightarrow> bool" where
  "detail_kept L d \<longleftrightarrow> canonical_json L (al_jsonb L d) = canonical_json L d"

text \<open>What an append does: nothing, or one stored row that continues its community's chain.\<close>

lemma log_inner_cases:
  assumes "log_inner L up now n t = (res, t')"
  obtains "t' = t"
  | e where "t' = t @ [stored_row L e]" "compute_hash L e = Inr (ae_hash e)"
      "ae_community_id e = ne_community_id n" "ae_detail e = ne_detail n"
      "ae_seq e = (case chain_head (ne_community_id n) t of Some row \<Rightarrow> rw_seq row | None \<Rightarrow> 0) + 1"
      "ae_prev_hash e = map_option rw_hash (chain_head (ne_community_id n) t)"
proof (cases "t' = t")
  case False
  let ?head = "chain_head (ne_community_id n) t"
  let ?e = "\<lparr>ae_community_id = ne_community_id n,
      ae_seq = (case ?head of Some row \<Rightarrow> rw_seq row | None \<Rightarrow> 0) + 1, ae_hash = [],
      ae_prev_hash = map_option rw_hash ?head, ae_action = ne_action n,
      ae_actor_pubkey = ne_actor_pubkey n, ae_object_id = ne_object_id n, ae_detail = ne_detail n,
      ae_created_at = log_timestamp now\<rparr>"
  have "\<exists>h. compute_hash L ?e = Inr h \<and> t' = t @ [stored_row L (?e\<lparr>ae_hash := h\<rparr>)]"
    using assms False
    by (cases ?head) (auto simp: log_inner_def insert_row_def stored_row_def Let_def
        split: if_splits sum.splits option.splits)
  then obtain h where h: "compute_hash L ?e = Inr h" "t' = t @ [stored_row L (?e\<lparr>ae_hash := h\<rparr>)]" by blast
  have "compute_hash L (?e\<lparr>ae_hash := h\<rparr>) = Inr h"
    using h(1) unfolding compute_hash_frame .
  then show thesis using that(2) [of "?e\<lparr>ae_hash := h\<rparr>"] h(2) by simp
qed (use that in simp)

lemma chain_head_last:
  assumes "chain_inv L (community_rows c t)"
  shows "chain_head c t = (if community_rows c t = [] then None else Some (last (community_rows c t)))"
  using rows_of_chain [OF assms] unfolding chain_head_def
  by (cases "community_rows c t" rule: rev_cases) simp_all

lemma chain_inv_last_seq: "chain_inv L rs \<Longrightarrow> rs \<noteq> [] \<Longrightarrow> rw_seq (last rs) = int (length rs)"
  unfolding chain_inv_def by (cases rs rule: rev_cases) auto

lemma chain_inv_snoc:
  assumes "chain_inv L rs" and "row_ok L r" and "rw_seq r = int (length rs) + 1"
    and "rw_prev_hash r = (if rs = [] then None else Some (rw_hash (last rs)))"
  shows "chain_inv L (rs @ [r])"
  using assms unfolding chain_inv_def
  by (cases rs rule: rev_cases) (auto simp: successively_append_iff linked_def hd_append)

lemma log_keeps_chains:
  assumes inv: "\<And>c. chain_inv L (community_rows c t)" and kept: "detail_kept L (ne_detail n)"
  shows "chain_inv L (community_rows c (snd (log_inner L up now n t)))"
proof -
  obtain res t' where log: "log_inner L up now n t = (res, t')" by fastforce
  then show ?thesis
  proof (cases rule: log_inner_cases)
    case 1
    then show ?thesis using inv log by simp
  next
    case (2 e)
    let ?c = "ne_community_id n" and ?r = "stored_row L e"
    let ?rs = "community_rows ?c t"
    have "row_ok L ?r" using 2 kept by (intro stored_row_ok) (simp_all add: detail_kept_def)
    moreover have "rw_seq ?r = int (length ?rs) + 1"
      using 2(5) chain_head_last [OF inv] chain_inv_last_seq [OF inv] by (simp add: stored_row_def)
    moreover have "rw_prev_hash ?r = (if ?rs = [] then None else Some (rw_hash (last ?rs)))"
      using 2(6) chain_head_last [OF inv] by (simp add: stored_row_def)
    ultimately have "chain_inv L (?rs @ [?r])" using inv chain_inv_snoc by blast
    moreover have "community_rows c t' = (if c = ?c then ?rs @ [?r] else community_rows c t)"
      using 2 by (simp add: community_rows_def stored_row_def)
    ultimately show ?thesis using inv log by simp
  qed
qed

text \<open>A run of the service: appends by any communities, with or without the database.\<close>

fun log_run :: "audit_lib \<Rightarrow> (bool \<times> nat \<times> new_audit_entry) list \<Rightarrow> audit_row list \<Rightarrow> audit_row list" where
  "log_run L [] t = t"
| "log_run L ((up, now, n) # ops) t = log_run L ops (snd (log_inner L up now n t))"

lemma log_run_chains:
  assumes "\<And>c. chain_inv L (community_rows c t)" and "\<forall>(up, now, n) \<in> set ops. detail_kept L (ne_detail n)"
  shows "chain_inv L (community_rows c (log_run L ops t))"
  using assms
proof (induction ops arbitrary: t)
  case (Cons a ops)
  obtain up now n where [simp]: "a = (up, now, n)" by (cases a)
  show ?case using Cons by (simp add: log_keeps_chains)
qed simp

lemma verify_chain_of_inv:
  assumes "chain_inv L (community_rows c t)"
  shows "verify_chain L c a b t = Inr (\<exists>r \<in> set t. rw_community_id r = c \<and> a \<le> rw_seq r \<and> rw_seq r \<le> b)"
proof -
  let ?rows = "filter (\<lambda>r. a \<le> rw_seq r \<and> rw_seq r \<le> b) (community_rows c t)"
  have "successively linked ?rows"
    using assms chain_sorted [OF assms] by (intro successively_range) (simp_all add: chain_inv_def)
  moreover have "\<forall>r \<in> set ?rows. row_ok L r" using assms by (simp add: chain_inv_def)
  ultimately have "verify_rows L None ?rows = Inr True" by (simp add: verify_rows_ok)
  moreover have "?rows = [] \<longleftrightarrow> \<not> (\<exists>r \<in> set t. rw_community_id r = c \<and> a \<le> rw_seq r \<and> rw_seq r \<le> b)"
    by (auto simp: community_rows_def filter_empty_conv)
  ultimately show ?thesis
    unfolding verify_chain_def rows_of_chain [OF assms] Let_def by auto
qed

text \<open>
  After any appends by any communities, with any of them failing, each community's entries
  carry the sequence numbers 1, 2, 3, ... in the order they were appended, and verifying any
  range of any chain succeeds, with the answer whether the range has an entry.
\<close>

theorem logged_chains_verify:
  assumes "\<forall>(up, now, n) \<in> set ops. detail_kept L (ne_detail n)" and "t = log_run L ops []"
  shows "map rw_seq (filter (\<lambda>r. rw_community_id r = c) t) =
      map (\<lambda>i. int i + 1) [0..<length (filter (\<lambda>r. rw_community_id r = c) t)] \<and>
    verify_chain L c a b t = Inr (\<exists>r \<in> set t. rw_community_id r = c \<and> a \<le> rw_seq r \<and> rw_seq r \<le> b)"
proof -
  have "chain_inv L (community_rows c t)"
    unfolding assms(2) by (rule log_run_chains) (use assms(1) in \<open>simp_all add: chain_inv_def community_rows_def\<close>)
  then show ?thesis
    using verify_chain_of_inv unfolding chain_inv_def community_rows_def by blast
qed

section \<open>What the hash covers\<close>

lemma length_be_bytes [simp]: "length (be_bytes k n) = k"
  by (induction k arbitrary: n) simp_all

lemma be_bytes_inject: "n < 256 ^ k \<Longrightarrow> m < 256 ^ k \<Longrightarrow> be_bytes k n = be_bytes k m \<Longrightarrow> n = m"
proof (induction k arbitrary: n m)
  case (Suc k)
  then have "n div 256 < 256 ^ k" "m div 256 < 256 ^ k"
    by (simp_all add: less_mult_imp_div_less mult.commute)
  then have "n div 256 = m div 256" using Suc by simp
  moreover have "n mod 256 = m mod 256"
    using Suc.prems(3) by (metis append1_eq_conv be_bytes.simps(2) of_char_of)
  ultimately show ?case by (metis div_mult_mod_eq)
qed simp

definition i64_range :: "int \<Rightarrow> bool" where
  "i64_range n \<longleftrightarrow> - (2 ^ 63) \<le> n \<and> n < 2 ^ 63"

lemma be_i64_inject:
  assumes "i64_range n" and "i64_range m" and "be_i64 n = be_i64 m"
  shows "n = m"
proof -
  have "nat (x mod 2 ^ 64) < 256 ^ 8" for x :: int by simp
  then have "nat (n mod 2 ^ 64) = nat (m mod 2 ^ 64)"
    using assms(3) be_bytes_inject unfolding be_i64_def by blast
  then have "n mod 2 ^ 64 = m mod 2 ^ 64" by simp
  then have d: "2 ^ 64 dvd n - m" by (simp only: mod_eq_dvd_iff)
  show ?thesis
  proof (rule ccontr)
    assume "n \<noteq> m"
    then have "\<bar>2 ^ 64\<bar> \<le> \<bar>n - m\<bar>" using dvd_imp_le_int [OF _ d] by simp
    then show False using assms(1,2) unfolding i64_range_def by auto
  qed
qed

lemma append_takeWhile_eq:
  assumes "\<forall>x \<in> set xs. P x" "\<forall>x \<in> set xs'. P x" "ys \<noteq> []" "ys' \<noteq> []" "\<not> P (hd ys)" "\<not> P (hd ys')"
    and eq: "xs @ ys = xs' @ ys'"
  shows "xs = xs' \<and> ys = ys'"
proof -
  have split: "takeWhile P (us @ vs) = us" if "\<forall>x \<in> set us. P x" "vs \<noteq> []" "\<not> P (hd vs)" for us vs
    using that by (cases vs) simp_all
  then show ?thesis using assms by (metis same_append_eq)
qed

definition is_lower_letter :: "char \<Rightarrow> bool" where
  "is_lower_letter ch \<longleftrightarrow> 97 \<le> code_of ch \<and> code_of ch \<le> 122"

definition action_char :: "char \<Rightarrow> bool" where
  "action_char ch \<longleftrightarrow> is_lower_letter ch \<or> ch = CHR ''_''"

lemma action_text:
  "action_as_str a \<noteq> []" "is_lower_letter (hd (action_as_str a))" "\<forall>ch \<in> set (action_as_str a). action_char ch"
  by (cases a; simp add: action_char_def is_lower_letter_def code_of_def)+

lemma tagged_text: "tagged x \<noteq> []" "\<not> action_char (hd (tagged x))"
  by (auto simp: tagged_def action_char_def is_lower_letter_def code_of_def char_of_eq_iff split: option.splits)

lemma tagged_inject:
  assumes "\<And>v. x = Some v \<Longrightarrow> length v = n" and "\<And>v. y = Some v \<Longrightarrow> length v = n"
    and "tagged x @ us = tagged y @ vs"
  shows "x = y \<and> us = vs"
  using assms by (cases x; cases y) (auto simp: tagged_def char_of_eq_iff)

definition lib_texts :: "audit_lib \<Rightarrow> bool" where
  "lib_texts L \<longleftrightarrow>
     (\<forall>c. length (al_uuid_bytes L c) = 16) \<and> inj (al_rfc3339 L) \<and>
     (\<forall>t. \<forall>ch \<in> set (al_rfc3339 L t). \<not> is_lower_letter ch)"

text \<open>Rows as the relay writes them: a 32-byte key, a 64-character object id, a 32-byte link.\<close>

definition row_shape :: "audit_row \<Rightarrow> bool" where
  "row_shape r \<longleftrightarrow>
     i64_range (rw_seq r) \<and> (\<forall>k. rw_actor_pubkey r = Some k \<longrightarrow> length k = 32) \<and>
     (\<forall>i. rw_object_id r = Some i \<longrightarrow> length i = 64) \<and> (\<forall>h. rw_prev_hash r = Some h \<longrightarrow> length h = 32)"

text \<open>The data of a row that its hash is meant to protect.\<close>

definition protected ::
  "audit_lib \<Rightarrow> audit_row \<Rightarrow> string \<times> int \<times> nat \<times> string \<times> string option \<times> string option \<times> string option \<times> string"
where
  "protected L r =
     (al_uuid_bytes L (rw_community_id r), rw_seq r, to_storage_precision (rw_created_at r), rw_action r,
      rw_actor_pubkey r, rw_object_id r, canonical_json L (rw_detail r),
      (case rw_prev_hash r of Some h \<Rightarrow> h | None \<Rightarrow> GENESIS_HASH))"

definition row_preimage :: "audit_lib \<Rightarrow> audit_row \<Rightarrow> string option" where
  "row_preimage L r = (case row_to_audit_entry r of Inl _ \<Rightarrow> None | Inr e \<Rightarrow> preimage L e)"

lemma row_ok_preimage: "row_ok L r \<longleftrightarrow> (\<exists>p. row_preimage L r = Some p \<and> al_sha256 L p = rw_hash r)"
  by (auto simp: row_ok_def row_preimage_def compute_hash_def split: sum.splits option.splits)

abbreviation row_link :: "audit_row \<Rightarrow> string" where
  "row_link r \<equiv> (case rw_prev_hash r of Some h \<Rightarrow> h | None \<Rightarrow> GENESIS_HASH)"

abbreviation row_tail :: "audit_row \<Rightarrow> string \<Rightarrow> string" where
  "row_tail r d \<equiv> tagged (rw_actor_pubkey r) @ tagged (rw_object_id r) @ d @ row_link r"

lemma row_preimage_parts:
  assumes "row_preimage L r = Some p"
  obtains act d where "rw_action r = action_as_str act" "canonical_json L (rw_detail r) = Some d"
    "p = al_uuid_bytes L (rw_community_id r) @ be_i64 (rw_seq r) @
       al_rfc3339 L (to_storage_precision (rw_created_at r)) @ action_as_str act @ row_tail r d"
proof -
  obtain act where act: "action_from_str (rw_action r) = Some act"
    using assms by (auto simp: row_preimage_def row_to_audit_entry_def split: option.splits)
  then have "rw_action r = action_as_str act"
    by (auto simp: action_from_str_def find_Some_iff)
  then show thesis using assms act that
    by (auto simp: row_preimage_def row_to_audit_entry_def preimage_def split: option.splits)
qed

lemma head_inject:
  assumes lib: "lib_texts L"
    and eq: "al_uuid_bytes L c @ be_i64 n @ al_rfc3339 L t @ action_as_str a @ tagged x @ us =
      al_uuid_bytes L c' @ be_i64 n' @ al_rfc3339 L t' @ action_as_str a' @ tagged x' @ us'"
  shows "al_uuid_bytes L c = al_uuid_bytes L c' \<and> be_i64 n = be_i64 n' \<and> t = t' \<and>
    action_as_str a = action_as_str a' \<and> tagged x @ us = tagged x' @ us'"
proof -
  have 1: "al_uuid_bytes L c = al_uuid_bytes L c'" "be_i64 n = be_i64 n'"
    "al_rfc3339 L t @ action_as_str a @ tagged x @ us = al_rfc3339 L t' @ action_as_str a' @ tagged x' @ us'"
    using eq lib by (auto simp: lib_texts_def be_i64_def)
  have 2: "al_rfc3339 L t = al_rfc3339 L t'"
    "action_as_str a @ tagged x @ us = action_as_str a' @ tagged x' @ us'"
    using append_takeWhile_eq [OF _ _ _ _ _ _ 1(3), of "\<lambda>ch. \<not> is_lower_letter ch"] lib action_text
    by (auto simp: lib_texts_def)
  have "action_as_str a = action_as_str a' \<and> tagged x @ us = tagged x' @ us'"
    using append_takeWhile_eq [OF _ _ _ _ _ _ 2(2), of action_char] action_text tagged_text by auto
  then show ?thesis using 1 2 lib by (simp add: lib_texts_def inj_eq)
qed

lemma tail_inject:
  assumes s: "row_shape r" "row_shape r'" and eq: "row_tail r d = row_tail r' d'"
  shows "rw_actor_pubkey r = rw_actor_pubkey r' \<and> rw_object_id r = rw_object_id r' \<and> d = d' \<and>
    row_link r = row_link r'"
proof -
  have 1: "rw_actor_pubkey r = rw_actor_pubkey r'"
    "tagged (rw_object_id r) @ d @ row_link r = tagged (rw_object_id r') @ d' @ row_link r'"
    using tagged_inject [OF _ _ eq, of 32] s by (auto simp: row_shape_def)
  have 2: "rw_object_id r = rw_object_id r'" "d @ row_link r = d' @ row_link r'"
    using tagged_inject [OF _ _ 1(2), of 64] s by (auto simp: row_shape_def)
  have "length (row_link x) = 32" if "row_shape x" for x
    using that by (auto simp: row_shape_def GENESIS_HASH_def split: option.splits)
  then show ?thesis using 1 2 s by (simp add: append_eq_append_conv)
qed

lemma preimage_unambiguous:
  assumes lib: "lib_texts L" and s: "row_shape r" "row_shape r'"
    and p: "row_preimage L r = Some p" "row_preimage L r' = Some p"
  shows "protected L r = protected L r'"
proof -
  obtain a d where a: "rw_action r = action_as_str a" "canonical_json L (rw_detail r) = Some d"
    "p = al_uuid_bytes L (rw_community_id r) @ be_i64 (rw_seq r) @
       al_rfc3339 L (to_storage_precision (rw_created_at r)) @ action_as_str a @ row_tail r d"
    using row_preimage_parts [OF p(1)] by blast
  obtain a' d' where a': "rw_action r' = action_as_str a'" "canonical_json L (rw_detail r') = Some d'"
    "p = al_uuid_bytes L (rw_community_id r') @ be_i64 (rw_seq r') @
       al_rfc3339 L (to_storage_precision (rw_created_at r')) @ action_as_str a' @ row_tail r' d'"
    using row_preimage_parts [OF p(2)] by blast
  have h: "al_uuid_bytes L (rw_community_id r) = al_uuid_bytes L (rw_community_id r')"
    "be_i64 (rw_seq r) = be_i64 (rw_seq r')"
    "to_storage_precision (rw_created_at r) = to_storage_precision (rw_created_at r')"
    "action_as_str a = action_as_str a'" and tail: "row_tail r d = row_tail r' d'"
    using head_inject [OF lib a(3) [symmetric, unfolded a'(3), symmetric]] by (elim conjE, simp only:)+
  have "rw_seq r = rw_seq r'" using be_i64_inject s h(2) by (simp add: row_shape_def)
  then show ?thesis using h(1,3,4) a(1,2) a'(1,2) tail_inject [OF s tail] by (simp add: protected_def)
qed

lemma verify_chain_row_ok:
  assumes "verify_chain L c a b t = Inr True" "r \<in> set t" "rw_community_id r = c" "a \<le> rw_seq r" "rw_seq r \<le> b"
  shows "row_ok L r"
proof -
  have "r \<in> set (filter (\<lambda>r. a \<le> rw_seq r \<and> rw_seq r \<le> b) (rows_of c t))"
    using assms by (simp add: rows_of_def)
  then show ?thesis
    using assms(1) unfolding verify_chain_def by (auto simp: verify_rows_ok Let_def split: if_splits)
qed

text \<open>
  C21: Take any row that a verification accepted, and any table in which some row carries that row's hash
  but differs from it in the community, sequence number, time, action, actor, object, detail or link.
  When both rows have the fixed widths of the columns (\<open>row_shape\<close>: a key of 32 bytes, an object id of
  64 characters or none, a link of 32 bytes, a 64-bit sequence number) and SHA-256 does not map their
  hashed bytes to the same digest, every verification whose range includes the altered row fails. The width
  of the object id is needed: \<open>object_and_detail_ambiguous\<close> alters a row with a shorter one unnoticed.
\<close>

theorem tampering_detected:
  assumes lib: "lib_texts L"
    and verified: "verify_chain L c a b t = Inr True"
    and row: "row \<in> set t" "rw_community_id row = c" "a \<le> rw_seq row" "rw_seq row \<le> b"
    and row': "row' \<in> set t'" "rw_community_id row' = c'" "a' \<le> rw_seq row'" "rw_seq row' \<le> b'"
    and hash: "rw_hash row' = rw_hash row"
    and shape: "row_shape row" "row_shape row'"
    and changed: "protected L row' \<noteq> protected L row"
    and no_collision: "\<And>p p'. row_preimage L row = Some p \<Longrightarrow> row_preimage L row' = Some p' \<Longrightarrow>
      al_sha256 L p = al_sha256 L p' \<Longrightarrow> p = p'"
  shows "\<exists>err. verify_chain L c' a' b' t' = Inl err"
proof (cases "verify_chain L c' a' b' t'")
  case (Inr ok)
  have "ok"
  proof (rule ccontr)
    have in_range: "row' \<in> set (filter (\<lambda>r. a' \<le> rw_seq r \<and> rw_seq r \<le> b') (rows_of c' t'))"
      using row' by (simp add: rows_of_def)
    assume "\<not> ok"
    with Inr in_range verify_rows_not_False show False
      unfolding verify_chain_def Let_def by (metis (full_types) empty_iff empty_set)
  qed
  then have "row_ok L row'" using verify_chain_row_ok Inr row' by simp
  moreover have "row_ok L row" using verify_chain_row_ok verified row by blast
  ultimately obtain p where "row_preimage L row = Some p" "row_preimage L row' = Some p"
    using no_collision hash unfolding row_ok_preimage by metis
  then show ?thesis using preimage_unambiguous lib shape changed by metis
qed simp

section \<open>Concrete chains\<close>

text \<open>A library for concrete runs; its digest keeps the whole input, so nothing collides.\<close>

definition demo_lib :: audit_lib where
  "demo_lib = \<lparr>al_uuid_bytes = (\<lambda>c. take 16 (c @ replicate 16 CHR ''-'')), al_rfc3339 = decimal,
     al_json_text = (\<lambda>v. case v of JNumber n \<Rightarrow> Some n | JString s \<Rightarrow> Some (CHR 0x22 # s @ [CHR 0x22]) | _ \<Rightarrow> Some ''null''),
     al_sha256 = (\<lambda>x. x), al_jsonb = (\<lambda>v. v)\<rparr>"

lemma demo_lib_texts: "lib_texts demo_lib"
proof -
  have "\<not> is_lower_letter ch" if "ch \<in> set (decimal t)" for ch t
    using decimal_digits [OF that] by (simp add: is_lower_letter_def is_ascii_digit_def)
  then show ?thesis by (auto simp: lib_texts_def demo_lib_def inj_def)
qed

definition demo_entry :: "uuid \<Rightarrow> string \<Rightarrow> new_audit_entry" where
  "demo_entry c n = \<lparr>ne_community_id = c, ne_action = EventCreated, ne_actor_pubkey = None,
     ne_object_id = None, ne_detail = JObject [(''event_kind'', JNumber n)]\<rparr>"

definition demo_ops :: "(bool \<times> nat \<times> new_audit_entry) list" where
  "demo_ops = [(True, 5001, demo_entry ''a'' ''9''), (True, 6001, demo_entry ''b'' ''7''),
     (False, 7001, demo_entry ''a'' ''1''), (True, 8001, demo_entry ''a'' ''1111'')]"

lemma logged_chains_verify_witness:
  "verify_chain demo_lib ''a'' 1 9 (log_run demo_lib demo_ops []) =
     Inr (\<exists>r \<in> set (log_run demo_lib demo_ops []). rw_community_id r = ''a'' \<and> 1 \<le> rw_seq r \<and> rw_seq r \<le> 9)"
proof -
  have "al_jsonb demo_lib d = d" for d by (simp add: demo_lib_def)
  then have "\<forall>(up, now, n) \<in> set demo_ops. detail_kept demo_lib (ne_detail n)"
    unfolding detail_kept_def by simp
  from logged_chains_verify [OF this refl, of "''a''" 1 9, THEN conjunct2] show ?thesis .
qed

text \<open>A later row's detail, rewritten under its old hash.\<close>

definition demo_row :: "string \<Rightarrow> audit_row" where
  "demo_row n = \<lparr>rw_community_id = ''a'', rw_seq = 1,
     rw_hash = the (row_preimage demo_lib (\<lparr>rw_community_id = ''a'', rw_seq = 1, rw_hash = [],
       rw_prev_hash = None, rw_action = ''event_created'', rw_actor_pubkey = None, rw_object_id = None,
       rw_detail = JObject [(''event_kind'', JNumber ''9'')], rw_created_at = 5000\<rparr>)),
     rw_prev_hash = None, rw_action = ''event_created'', rw_actor_pubkey = None, rw_object_id = None,
     rw_detail = JObject [(''event_kind'', JNumber n)], rw_created_at = 5000\<rparr>"

lemma demo_detail:
  "canonical_json demo_lib (JObject [(k, JNumber n)]) = Some (''{'' @ (CHR 0x22 # k @ [CHR 0x22]) @ '':'' @ n @ ''}'')"
  by (simp add: member_text_def demo_lib_def)

lemma demo_action: "action_from_str ''event_created'' = Some EventCreated"
  using action_round_trip [of EventCreated] by simp

lemma demo_row_ok: "row_ok demo_lib (demo_row ''9'')"
  unfolding row_ok_preimage demo_row_def row_preimage_def row_to_audit_entry_def preimage_def
  by (simp add: demo_action demo_detail del: canonical_json.simps) (simp add: demo_lib_def)

lemma tampering_detected_witness: "\<exists>err. verify_chain demo_lib ''a'' 1 1 [demo_row ''8''] = Inl err"
proof -
  have "verify_chain demo_lib ''a'' 1 1 [demo_row ''9''] = Inr True"
    using demo_row_ok verify_rows_ok [of demo_lib None "[demo_row ''9'']"]
    unfolding verify_chain_def rows_of_def Let_def by (simp add: demo_row_def)
  moreover have "protected demo_lib (demo_row ''8'') \<noteq> protected demo_lib (demo_row ''9'')"
    by (simp add: protected_def demo_row_def demo_detail del: canonical_json.simps)
  moreover have "row_shape (demo_row n)" for n
    by (simp add: row_shape_def demo_row_def i64_range_def)
  ultimately show ?thesis
    using tampering_detected [OF demo_lib_texts, of "''a''" 1 1 "[demo_row ''9'']" "demo_row ''9''"
        "demo_row ''8''" "[demo_row ''8'']" "''a''" 1 1]
    by (simp add: demo_row_def) (simp add: demo_lib_def)
qed

text \<open>
  The object id has no length in the hashed bytes: an entry about object \<open>a\<close> with detail \<open>12\<close>
  and one about object \<open>a1\<close> with detail \<open>2\<close> have the same hash, whatever the hash function.
\<close>

theorem object_and_detail_ambiguous:
  assumes "\<And>n. al_json_text L (JNumber n) = Some n"
  shows "compute_hash L (e\<lparr>ae_object_id := Some ''a'', ae_detail := JNumber ''12''\<rparr>) =
    compute_hash L (e\<lparr>ae_object_id := Some ''a1'', ae_detail := JNumber ''2''\<rparr>)"
  using assms by (simp add: compute_hash_def preimage_def tagged_def)

definition demo_audit_entry :: audit_entry where
  "demo_audit_entry = \<lparr>ae_community_id = ''a'', ae_seq = 1, ae_hash = [], ae_prev_hash = None,
     ae_action = EventDeleted, ae_actor_pubkey = None, ae_object_id = None, ae_detail = JNull,
     ae_created_at = 0\<rparr>"

lemma object_and_detail_ambiguous_witness:
  "compute_hash demo_lib (demo_audit_entry\<lparr>ae_object_id := Some ''a'', ae_detail := JNumber ''12''\<rparr>) =
     compute_hash demo_lib (demo_audit_entry\<lparr>ae_object_id := Some ''a1'', ae_detail := JNumber ''2''\<rparr>)"
  by (rule object_and_detail_ambiguous) (simp add: demo_lib_def)

end
