(* ===== verification/Mesh.thy ===== *)
theory Mesh
  imports Prelude Complex_Main "HOL-Library.Word" "HOL-Library.Char_ord" "HOL-Library.List_Lexorder"
begin

text \<open>
  The relay mesh's membership, from \<open>crates/buzz-relay-mesh/src\<close>: gossip records and the pure
  gossip state (\<open>gossip.rs\<close>), the membership table that the relay uses (\<open>membership.rs\<close>), the ready
  records that seed it (\<open>registry.rs\<close>), and the tie-break between simultaneous dials
  (\<open>runtime.rs\<close>).

  \<^item> A runtime id is its hexadecimal text. Times are milliseconds in a record and nanoseconds in a
    \<open>SystemTime\<close>. A load is the bit pattern of its \<open>f32\<close>; the code never computes with it.
  \<^item> The suspicion level is a real number; the code rounds it to \<open>f64\<close>.
  \<^item> Versions are \<open>u64\<close> with the saturating increment written out; the atomic counters wrap.
  \<^item> The signature check of an attestation and the \<open>postcard\<close> codec are arguments.
\<close>

type_synonym runtime_id = string

definition U64_MAX :: nat where "U64_MAX = 2 ^ 64 - 1"

definition saturating_inc :: "nat \<Rightarrow> nat" where
  "saturating_inc n = min U64_MAX (n + 1)"

section \<open>Gossip records and messages\<close>

definition GOSSIP_PAYLOAD_VERSION :: nat where "GOSSIP_PAYLOAD_VERSION = 1"

record gossip_record =
  gr_runtime_id :: runtime_id
  gr_endpoint_addrs :: "string list"
  gr_proto_version :: nat
  gr_load :: "32 word"
  gr_draining :: bool
  gr_capabilities :: "string list"
  gr_version :: nat
  gr_heartbeat_millis :: nat

definition gossip_record_new :: "nat \<Rightarrow> runtime_id \<Rightarrow> string list \<Rightarrow> nat \<Rightarrow> gossip_record" where
  "gossip_record_new now_millis i addrs proto =
     \<lparr>gr_runtime_id = i, gr_endpoint_addrs = addrs, gr_proto_version = proto, gr_load = 0,
      gr_draining = False, gr_capabilities = [], gr_version = 1, gr_heartbeat_millis = now_millis\<rparr>"

type_synonym digest_entry = "runtime_id \<times> nat"

datatype gossip_message =
    Digest nat "digest_entry list"
  | Delta nat "gossip_record list"

datatype mesh_error = DecodeError | UnknownPayloadVersion nat | AttestationMismatch | AttestationInvalid

definition decode_message :: "(string \<Rightarrow> gossip_message option) \<Rightarrow> string \<Rightarrow> mesh_error + gossip_message" where
  "decode_message from_bytes bytes =
     (case from_bytes bytes of
        None \<Rightarrow> Inl DecodeError
      | Some message \<Rightarrow>
          let version = (case message of Digest v _ \<Rightarrow> v | Delta v _ \<Rightarrow> v) in
          if version \<noteq> GOSSIP_PAYLOAD_VERSION then Inl (UnknownPayloadVersion version) else Inr message)"

text \<open>The digest of a list of records, and the records that a remote digest lacks or is behind on.\<close>

definition digest_of :: "gossip_record list \<Rightarrow> gossip_message" where
  "digest_of records =
     Digest GOSSIP_PAYLOAD_VERSION (sort_key fst (map (\<lambda>r. (gr_runtime_id r, gr_version r)) records))"

definition remote_behind :: "digest_entry list \<Rightarrow> gossip_record \<Rightarrow> bool" where
  "remote_behind digest r =
     (let remote = fold (\<lambda>(i, v) m. hinsert i v m) digest [] in
      case hget remote (gr_runtime_id r) of None \<Rightarrow> True | Some v \<Rightarrow> v < gr_version r)"

definition delta_of :: "gossip_record list \<Rightarrow> digest_entry list \<Rightarrow> gossip_message" where
  "delta_of records digest =
     Delta GOSSIP_PAYLOAD_VERSION (sort_key gr_runtime_id (filter (remote_behind digest) records))"

section \<open>The pure gossip state\<close>

type_synonym gossip_state = "(runtime_id, gossip_record) hmap"

definition gossip_new :: "gossip_record \<Rightarrow> gossip_state" where
  "gossip_new local = hinsert (gr_runtime_id local) local []"

definition gossip_digest :: "gossip_state \<Rightarrow> gossip_message" where
  "gossip_digest s = digest_of (map snd s)"

definition gossip_delta_for :: "gossip_state \<Rightarrow> digest_entry list \<Rightarrow> gossip_message" where
  "gossip_delta_for s digest = delta_of (map snd s) digest"

definition bump :: "nat \<Rightarrow> (gossip_record \<Rightarrow> gossip_record) \<Rightarrow> gossip_record \<Rightarrow> gossip_record" where
  "bump now_millis update r =
     (let r' = update r in
      r'\<lparr>gr_version := saturating_inc (gr_version r'), gr_heartbeat_millis := now_millis\<rparr>)"

definition gossip_update_local ::
  "nat \<Rightarrow> runtime_id \<Rightarrow> (gossip_record \<Rightarrow> gossip_record) \<Rightarrow> gossip_state
   \<Rightarrow> gossip_record option \<times> gossip_state" where
  "gossip_update_local now i update s =
     (case hget s i of
        None \<Rightarrow> (None, s)
      | Some r \<Rightarrow> (Some (bump now update r), hinsert i (bump now update r) s))"

fun gossip_apply_delta :: "gossip_record list \<Rightarrow> gossip_state \<Rightarrow> runtime_id list \<times> gossip_state" where
  "gossip_apply_delta [] s = ([], s)"
| "gossip_apply_delta (r # rs) s =
     (if (case hget s (gr_runtime_id r) of None \<Rightarrow> True | Some existing \<Rightarrow> gr_version r > gr_version existing)
      then apfst (Cons (gr_runtime_id r)) (gossip_apply_delta rs (hinsert (gr_runtime_id r) r s))
      else gossip_apply_delta rs s)"

section \<open>Suspicion\<close>

record phi_accrual =
  ph_samples :: "nat list"
  ph_last_heartbeat :: "instant option"
  ph_max_samples :: nat

definition phi_new :: "nat \<Rightarrow> phi_accrual" where
  "phi_new max_samples = \<lparr>ph_samples = [], ph_last_heartbeat = None, ph_max_samples = max max_samples 1\<rparr>"

definition phi_default :: phi_accrual where "phi_default = phi_new 100"

text \<open>\<open>duration_since\<close> fails when the later time is before the earlier one.\<close>

definition duration_since :: "instant \<Rightarrow> instant \<Rightarrow> nat option" where
  "duration_since t prev = (if prev \<le> t then Some (t - prev) else None)"

definition push_sample :: "nat \<Rightarrow> phi_accrual \<Rightarrow> phi_accrual" where
  "push_sample interval p =
     (let samples = ph_samples p @ [interval] in
      p\<lparr>ph_samples := (if length samples > ph_max_samples p then tl samples else samples)\<rparr>)"

definition phi_observe :: "instant \<Rightarrow> phi_accrual \<Rightarrow> phi_accrual" where
  "phi_observe t p =
     (let p' = (case ph_last_heartbeat p of
                  None \<Rightarrow> p
                | Some prev \<Rightarrow>
                    (case duration_since t prev of
                       None \<Rightarrow> p
                     | Some interval \<Rightarrow> if interval = 0 then p else push_sample interval p))
      in p'\<lparr>ph_last_heartbeat := Some t\<rparr>)"

definition as_secs :: "nat \<Rightarrow> real" where "as_secs n = real n / 10 ^ 9"

definition mean_secs :: "phi_accrual \<Rightarrow> real" where
  "mean_secs p = sum_list (map as_secs (ph_samples p)) / real (length (ph_samples p))"

definition phi_at :: "phi_accrual \<Rightarrow> instant \<Rightarrow> real option" where
  "phi_at p now =
     (case ph_last_heartbeat p of
        None \<Rightarrow> None
      | Some prev \<Rightarrow>
          if ph_samples p = [] then None
          else (case duration_since now prev of
             None \<Rightarrow> None
           | Some elapsed \<Rightarrow>
               if mean_secs p \<le> (1 / 2) ^ 52 then None
               else Some ((as_secs elapsed / mean_secs p) / ln 10)))"

section \<open>The membership table\<close>

datatype connection_state = Disconnected | Connecting | Connected | Suspect

record peer_counters =
  mp_runtime_id :: runtime_id
  mp_streams_opened :: nat
  mp_streams_received :: nat
  mp_datagrams_sent :: nat
  mp_datagrams_received :: nat
  mp_gossip_frames_sent :: nat
  mp_gossip_frames_received :: nat
  mp_stale_generation_rejections :: nat

definition peer_counters_new :: "runtime_id \<Rightarrow> peer_counters" where
  "peer_counters_new i =
     \<lparr>mp_runtime_id = i, mp_streams_opened = 0, mp_streams_received = 0, mp_datagrams_sent = 0,
      mp_datagrams_received = 0, mp_gossip_frames_sent = 0, mp_gossip_frames_received = 0,
      mp_stale_generation_rejections = 0\<rparr>"

record mesh_peer =
  pr_record :: gossip_record
  pr_phi :: phi_accrual
  pr_connection_state :: connection_state
  pr_counters :: peer_counters

record membership =
  mm_local_runtime_id :: runtime_id
  mm_local_record :: gossip_record
  mm_peers :: "(runtime_id, mesh_peer) hmap"
  mm_draining :: bool
  mm_stale_generation_rejections :: "64 word"
  mm_foreign_relay_rejections :: "64 word"
  mm_expected_relay_pubkey :: "string option"
  mm_phi_suspect_threshold :: real

definition membership_new :: "gossip_record \<Rightarrow> membership" where
  "membership_new local =
     \<lparr>mm_local_runtime_id = gr_runtime_id local, mm_local_record = local, mm_peers = [], mm_draining = False,
      mm_stale_generation_rejections = 0, mm_foreign_relay_rejections = 0, mm_expected_relay_pubkey = None,
      mm_phi_suspect_threshold = 8\<rparr>"

definition with_expected_relay_pubkey :: "string \<Rightarrow> membership \<Rightarrow> membership" where
  "with_expected_relay_pubkey pubkey m = m\<lparr>mm_expected_relay_pubkey := Some pubkey\<rparr>"

definition with_phi_suspect_threshold :: "real \<Rightarrow> membership \<Rightarrow> membership" where
  "with_phi_suspect_threshold threshold m = m\<lparr>mm_phi_suspect_threshold := threshold\<rparr>"

record ready_record =
  ry_runtime_id :: runtime_id
  ry_runtime_pubkey :: string
  ry_relay_pubkey :: string
  ry_relay_sig :: string
  ry_endpoint_addrs :: "string list"
  ry_proto_version :: nat
  ry_capabilities :: "string list"

definition attestation_preimage :: "runtime_id \<Rightarrow> string \<Rightarrow> string" where
  "attestation_preimage i relay_pubkey =
     ''buzz-relay-mesh-ready-v1'' @ [CHR 0x0A] @ ''runtime_pubkey='' @ i @ [CHR 0x0A] @
     ''relay_pubkey='' @ relay_pubkey"

text \<open>\<open>verify key sig text\<close>: the key parses and the signature over the digest of the text is valid.\<close>

definition verify_attestation ::
  "(string \<Rightarrow> string \<Rightarrow> string \<Rightarrow> bool) \<Rightarrow> ready_record \<Rightarrow> mesh_error + unit" where
  "verify_attestation verify ready =
     (if ry_runtime_pubkey ready \<noteq> ry_runtime_id ready then Inl AttestationMismatch
      else if verify (ry_relay_pubkey ready) (ry_relay_sig ready)
                (attestation_preimage (ry_runtime_id ready) (ry_relay_pubkey ready)) then Inr ()
      else Inl AttestationInvalid)"

definition millis :: "nat \<Rightarrow> instant" where "millis n = n * 10 ^ 6"

definition apply_gossip_record :: "gossip_record \<Rightarrow> membership \<Rightarrow> bool \<times> membership" where
  "apply_gossip_record r m =
     (if gr_runtime_id r = mm_local_runtime_id m then (False, m)
      else
        let heartbeat = millis (gr_heartbeat_millis r) in
        case hget (mm_peers m) (gr_runtime_id r) of
          Some peer \<Rightarrow>
            if gr_version r \<le> gr_version (pr_record peer) then (False, m)
            else (True, m\<lparr>mm_peers := hinsert (gr_runtime_id r)
              (peer\<lparr>pr_record := r, pr_connection_state := Connected,
                    pr_phi := phi_observe heartbeat (pr_phi peer)\<rparr>) (mm_peers m)\<rparr>)
        | None \<Rightarrow>
            (True, m\<lparr>mm_peers := hinsert (gr_runtime_id r)
              \<lparr>pr_record = r, pr_phi = phi_observe heartbeat phi_default,
               pr_connection_state = Connected, pr_counters = peer_counters_new (gr_runtime_id r)\<rparr>
              (mm_peers m)\<rparr>))"

definition apply_ready_record ::
  "(string \<Rightarrow> string \<Rightarrow> string \<Rightarrow> bool) \<Rightarrow> nat \<Rightarrow> ready_record \<Rightarrow> membership \<Rightarrow> membership" where
  "apply_ready_record verify now ready m =
     (if ry_runtime_id ready = mm_local_runtime_id m then m
      else if mm_expected_relay_pubkey m \<noteq> Some (ry_relay_pubkey ready)
      then m\<lparr>mm_foreign_relay_rejections := mm_foreign_relay_rejections m + 1\<rparr>
      else case verify_attestation verify ready of
        Inl _ \<Rightarrow> m
      | Inr _ \<Rightarrow>
          snd (apply_gossip_record
            ((gossip_record_new now (ry_runtime_id ready) (ry_endpoint_addrs ready) (ry_proto_version ready))
               \<lparr>gr_capabilities := ry_capabilities ready\<rparr>) m))"

definition apply_ready_records ::
  "(string \<Rightarrow> string \<Rightarrow> string \<Rightarrow> bool) \<Rightarrow> nat \<Rightarrow> ready_record list \<Rightarrow> membership \<Rightarrow> membership" where
  "apply_ready_records verify now records m = fold (apply_ready_record verify now) records m"

definition mark_connection_state :: "runtime_id \<Rightarrow> connection_state \<Rightarrow> membership \<Rightarrow> membership" where
  "mark_connection_state i state m =
     (case hget (mm_peers m) i of
        None \<Rightarrow> m
      | Some peer \<Rightarrow> m\<lparr>mm_peers := hinsert i (peer\<lparr>pr_connection_state := state\<rparr>) (mm_peers m)\<rparr>)"

definition update_local :: "nat \<Rightarrow> (gossip_record \<Rightarrow> gossip_record) \<Rightarrow> membership \<Rightarrow> membership" where
  "update_local now update m = m\<lparr>mm_local_record := bump now update (mm_local_record m)\<rparr>"

definition begin_drain :: "nat \<Rightarrow> membership \<Rightarrow> membership" where
  "begin_drain now m = update_local now (\<lambda>r. r\<lparr>gr_draining := True\<rparr>) (m\<lparr>mm_draining := True\<rparr>)"

definition has_peer :: "runtime_id \<Rightarrow> membership \<Rightarrow> bool" where
  "has_peer i m = hcontains (mm_peers m) i"

definition mesh_records :: "membership \<Rightarrow> gossip_record list" where
  "mesh_records m = map (\<lambda>(i, p). pr_record p) (mm_peers m) @ [mm_local_record m]"

definition mesh_digest :: "membership \<Rightarrow> gossip_message" where
  "mesh_digest m = digest_of (mesh_records m)"

definition mesh_delta_for :: "membership \<Rightarrow> digest_entry list \<Rightarrow> gossip_message" where
  "mesh_delta_for m digest = delta_of (mesh_records m) digest"

definition update_peer_counters :: "runtime_id \<Rightarrow> (peer_counters \<Rightarrow> peer_counters) \<Rightarrow> membership \<Rightarrow> membership"
where
  "update_peer_counters i update m =
     (case hget (mm_peers m) i of
        None \<Rightarrow> m
      | Some peer \<Rightarrow> m\<lparr>mm_peers := hinsert i (peer\<lparr>pr_counters := update (pr_counters peer)\<rparr>) (mm_peers m)\<rparr>)"

datatype counter =
    StreamsOpened | StreamsReceived | DatagramsSent | DatagramsReceived | GossipFramesSent
  | GossipFramesReceived

definition count_one :: "counter \<Rightarrow> peer_counters \<Rightarrow> peer_counters" where
  "count_one k c =
     (case k of
        StreamsOpened \<Rightarrow> c\<lparr>mp_streams_opened := saturating_inc (mp_streams_opened c)\<rparr>
      | StreamsReceived \<Rightarrow> c\<lparr>mp_streams_received := saturating_inc (mp_streams_received c)\<rparr>
      | DatagramsSent \<Rightarrow> c\<lparr>mp_datagrams_sent := saturating_inc (mp_datagrams_sent c)\<rparr>
      | DatagramsReceived \<Rightarrow> c\<lparr>mp_datagrams_received := saturating_inc (mp_datagrams_received c)\<rparr>
      | GossipFramesSent \<Rightarrow> c\<lparr>mp_gossip_frames_sent := saturating_inc (mp_gossip_frames_sent c)\<rparr>
      | GossipFramesReceived \<Rightarrow>
          c\<lparr>mp_gossip_frames_received := saturating_inc (mp_gossip_frames_received c)\<rparr>)"

definition record_count :: "counter \<Rightarrow> runtime_id \<Rightarrow> membership \<Rightarrow> membership" where
  "record_count k i m = update_peer_counters i (count_one k) m"

definition record_stale_generation_rejection :: "runtime_id option \<Rightarrow> membership \<Rightarrow> membership" where
  "record_stale_generation_rejection i m =
     (let m' = m\<lparr>mm_stale_generation_rejections := mm_stale_generation_rejections m + 1\<rparr> in
      case i of
        None \<Rightarrow> m'
      | Some r \<Rightarrow> update_peer_counters r (\<lambda>c.
          c\<lparr>mp_stale_generation_rejections := saturating_inc (mp_stale_generation_rejections c)\<rparr>) m')"

definition suspected :: "membership \<Rightarrow> instant \<Rightarrow> mesh_peer \<Rightarrow> bool" where
  "suspected m now peer =
     (case phi_at (pr_phi peer) now of None \<Rightarrow> False | Some p \<Rightarrow> p \<ge> mm_phi_suspect_threshold m)"

record peer_info =
  pi_runtime_id :: runtime_id
  pi_draining :: bool
  pi_phi :: "real option"
  pi_load :: "32 word"

definition mesh_peers :: "instant \<Rightarrow> membership \<Rightarrow> peer_info list" where
  "mesh_peers now m =
     map (\<lambda>(i, p). \<lparr>pi_runtime_id = gr_runtime_id (pr_record p), pi_draining = gr_draining (pr_record p),
                    pi_phi = phi_at (pr_phi p) now, pi_load = gr_load (pr_record p)\<rparr>)
       (filter (\<lambda>(i, p). \<not> suspected m now p) (mm_peers m))"

record peer_status =
  ps_record :: gossip_record
  ps_connection_state :: connection_state
  ps_phi :: "real option"
  ps_counters :: peer_counters

definition peer_statuses :: "instant \<Rightarrow> membership \<Rightarrow> peer_status list" where
  "peer_statuses now m =
     map (\<lambda>(i, p). \<lparr>ps_record = pr_record p,
                    ps_connection_state = (if suspected m now p then Suspect else pr_connection_state p),
                    ps_phi = phi_at (pr_phi p) now, ps_counters = pr_counters p\<rparr>) (mm_peers m)"

record mesh_status =
  st_local_runtime_id :: runtime_id
  st_draining :: bool
  st_peer_count :: nat
  st_peers :: "peer_status list"
  st_stale_generation_rejections :: "64 word"
  st_foreign_relay_rejections :: "64 word"

definition mesh_status_of :: "instant \<Rightarrow> membership \<Rightarrow> mesh_status" where
  "mesh_status_of now m =
     (let peers = sort_key (\<lambda>s. gr_runtime_id (ps_record s)) (peer_statuses now m) in
      \<lparr>st_local_runtime_id = gr_runtime_id (mm_local_record m), st_draining = mm_draining m,
       st_peer_count = length peers, st_peers = peers,
       st_stale_generation_rejections = mm_stale_generation_rejections m,
       st_foreign_relay_rejections = mm_foreign_relay_rejections m\<rparr>)"

text \<open>What a received gossip message does: the reply of a digest, or the delta applied.\<close>

definition handle_gossip :: "runtime_id \<Rightarrow> gossip_message \<Rightarrow> membership \<Rightarrow> gossip_message option \<times> membership" where
  "handle_gossip remote message m =
     (let m' = record_count GossipFramesReceived remote m in
      case message of
        Digest v entries \<Rightarrow> (Some (mesh_delta_for m' entries), m')
      | Delta v records \<Rightarrow> (None, fold (\<lambda>r m. snd (apply_gossip_record r m)) records m'))"

definition gossip_tick :: "nat \<Rightarrow> membership \<Rightarrow> gossip_message \<times> membership" where
  "gossip_tick now m = (let m' = update_local now (\<lambda>r. r) m in (mesh_digest m', m'))"

section \<open>Simultaneous dials\<close>

definition new_connection_wins :: "runtime_id \<Rightarrow> runtime_id \<Rightarrow> bool \<Rightarrow> bool" where
  "new_connection_wins local remote new_dialed_by_us =
     (if local < remote then new_dialed_by_us else \<not> new_dialed_by_us)"

text \<open>The table of installed connections: which connection, and whether this side dialed it.\<close>

type_synonym 'c conn_table = "(runtime_id, 'c \<times> bool) hmap"

definition install_peer :: "runtime_id \<Rightarrow> runtime_id \<Rightarrow> 'c \<Rightarrow> bool \<Rightarrow> 'c conn_table \<Rightarrow> bool \<times> 'c conn_table" where
  "install_peer local remote conn dialed_by_us peers =
     (if hcontains peers remote \<and> \<not> new_connection_wins local remote dialed_by_us then (False, peers)
      else (True, hinsert remote (conn, dialed_by_us) peers))"

definition remove_conn :: "runtime_id \<Rightarrow> 'c conn_table \<Rightarrow> 'c conn_table" where
  "remove_conn remote peers = hremove remote peers"

section \<open>Replicas that keep the newest record\<close>

text \<open>
  A replica answers lookups by key and applies records; a record with a higher version than the one
  it holds replaces it, except under the keys it owns itself.
\<close>

locale newest_wins =
  fixes get :: "'s \<Rightarrow> 'k \<Rightarrow> 'r option"
    and put :: "'r \<Rightarrow> 's \<Rightarrow> 's"
    and key :: "'r \<Rightarrow> 'k"
    and ver :: "'r \<Rightarrow> nat"
    and own :: "'s \<Rightarrow> 'k \<Rightarrow> bool"
  assumes get_put: "get (put r s) k =
      (if k = key r \<and> \<not> own s k \<and> (case get s k of None \<Rightarrow> True | Some x \<Rightarrow> ver x < ver r)
       then Some r else get s k)"
    and own_put: "own (put r s) k = own s k"
begin

lemma own_fold: "own (fold put rs s) k = own s k"
  by (induction rs arbitrary: s) (simp_all add: own_put)

lemma get_fold_own: "own s k \<Longrightarrow> get (fold put rs s) k = get s k"
  by (induction rs arbitrary: s) (simp_all add: own_put get_put)

lemma get_fold_absent: "k \<notin> key ` set rs \<Longrightarrow> get (fold put rs s) k = get s k"
  by (induction rs arbitrary: s) (auto simp: get_put)

lemma version_grows: "get s k = Some x \<Longrightarrow> \<exists>y. get (fold put rs s) k = Some y \<and> ver x \<le> ver y"
proof (induction rs arbitrary: s x)
  case (Cons r rs)
  have "\<exists>z. get (put r s) k = Some z \<and> ver x \<le> ver z" using Cons.prems by (simp add: get_put)
  then obtain z where "get (put r s) k = Some z" "ver x \<le> ver z" by blast
  then show ?case using Cons.IH [of "put r s" z] by fastforce
qed simp

lemma get_fold:
  assumes "distinct (map key rs)" and "r \<in> set rs" and "\<not> own s (key r)"
  shows "get (fold put rs s) (key r) =
    (case get s (key r) of None \<Rightarrow> Some r | Some x \<Rightarrow> if ver x < ver r then Some r else Some x)"
  using assms
proof (induction rs arbitrary: s)
  case (Cons a rs)
  show ?case
  proof (cases "a = r")
    case True
    then have "key r \<notin> key ` set rs" using Cons.prems by simp
    then show ?thesis using True Cons.prems by (simp add: get_fold_absent get_put split: option.splits)
  next
    case False
    then have "r \<in> set rs" using Cons.prems by simp
    moreover have "key a \<notin> key ` set rs" using Cons.prems(1) by simp
    then have "key r \<noteq> key a" using \<open>r \<in> set rs\<close> by (metis imageI)
    ultimately show ?thesis using Cons by (simp add: own_put get_put)
  qed
qed simp

text \<open>Records of different versions may arrive in any order.\<close>

lemma put_commute:
  assumes "key r = key r' \<Longrightarrow> ver r = ver r' \<Longrightarrow> r = r'"
  shows "get (put r (put r' s)) = get (put r' (put r s))"
  using assms by (intro ext) (auto simp: get_put own_put split: option.splits)

lemma put_idempotent: "get (put r (put r s)) = get (put r s)"
  by (intro ext) (auto simp: get_put own_put split: option.splits)

end

section \<open>The two replicas of the code\<close>

definition gossip_put :: "gossip_record \<Rightarrow> gossip_state \<Rightarrow> gossip_state" where
  "gossip_put r s = snd (gossip_apply_delta [r] s)"

lemma gossip_put_eq:
  "gossip_put r s =
     (if (case hget s (gr_runtime_id r) of None \<Rightarrow> True | Some existing \<Rightarrow> gr_version r > gr_version existing)
      then hinsert (gr_runtime_id r) r s else s)"
  by (simp add: gossip_put_def)

lemma gossip_apply_delta_fold: "snd (gossip_apply_delta rs s) = fold gossip_put rs s"
  by (induction rs arbitrary: s) (simp_all add: gossip_put_eq)

interpretation pure_gossip: newest_wins hget gossip_put gr_runtime_id gr_version "\<lambda>s k. False"
  by unfold_locales (auto simp: gossip_put_eq split: option.splits)

definition mesh_get :: "membership \<Rightarrow> runtime_id \<Rightarrow> gossip_record option" where
  "mesh_get m i =
     (if i = mm_local_runtime_id m then Some (mm_local_record m) else map_option pr_record (hget (mm_peers m) i))"

lemma apply_local [simp]:
  "mm_local_runtime_id (snd (apply_gossip_record r m)) = mm_local_runtime_id m"
  "mm_local_record (snd (apply_gossip_record r m)) = mm_local_record m"
  "mm_expected_relay_pubkey (snd (apply_gossip_record r m)) = mm_expected_relay_pubkey m"
  by (simp_all add: apply_gossip_record_def Let_def split: option.splits)

interpretation mesh: newest_wins mesh_get "\<lambda>r m. snd (apply_gossip_record r m)" gr_runtime_id gr_version
    "\<lambda>m k. k = mm_local_runtime_id m"
  by unfold_locales
    (auto simp: mesh_get_def apply_gossip_record_def Let_def hget_insert split: option.splits)

section \<open>Well-formed tables\<close>

text \<open>A bounded window of positive intervals.\<close>

definition phi_ok :: "phi_accrual \<Rightarrow> bool" where
  "phi_ok p \<longleftrightarrow> length (ph_samples p) \<le> ph_max_samples p \<and> 0 < ph_max_samples p \<and> (\<forall>d \<in> set (ph_samples p). 0 < d)"

definition peer_ok :: "runtime_id \<Rightarrow> runtime_id \<Rightarrow> mesh_peer \<Rightarrow> bool" where
  "peer_ok local i p \<longleftrightarrow>
     i \<noteq> local \<and> gr_runtime_id (pr_record p) = i \<and> mp_runtime_id (pr_counters p) = i \<and> phi_ok (pr_phi p)"

definition mesh_wf :: "membership \<Rightarrow> bool" where
  "mesh_wf m \<longleftrightarrow>
     gr_runtime_id (mm_local_record m) = mm_local_runtime_id m \<and> distinct (keys (mm_peers m)) \<and>
     (\<forall>i p. hget (mm_peers m) i = Some p \<longrightarrow> peer_ok (mm_local_runtime_id m) i p)"

lemma push_sample_ok: "phi_ok p \<Longrightarrow> 0 < d \<Longrightarrow> phi_ok (push_sample d p)"
proof -
  assume ok: "phi_ok p" and d: "0 < d"
  have "set (tl (ph_samples p @ [d])) \<subseteq> insert d (set (ph_samples p))" by (cases "ph_samples p") auto
  then show ?thesis using ok d by (auto simp: phi_ok_def push_sample_def Let_def)
qed

lemma phi_observe_ok: "phi_ok p \<Longrightarrow> phi_ok (phi_observe t p)"
proof -
  assume ok: "phi_ok p"
  have last: "phi_ok (p'\<lparr>ph_last_heartbeat := x\<rparr>) = phi_ok p'" for p' x by (simp add: phi_ok_def)
  show ?thesis unfolding phi_observe_def Let_def last
    using ok by (simp add: push_sample_ok split: option.splits)
qed

lemma phi_default_ok: "phi_ok (phi_observe t phi_default)"
  by (rule phi_observe_ok) (simp add: phi_default_def phi_new_def phi_ok_def)

lemma mesh_wf_put_peer:
  "mesh_wf m \<Longrightarrow> peer_ok (mm_local_runtime_id m) i p \<Longrightarrow> mesh_wf (m\<lparr>mm_peers := hinsert i p (mm_peers m)\<rparr>)"
  unfolding mesh_wf_def by (simp add: hget_insert del: map_of_eq_Some_iff)

lemma apply_gossip_wf:
  assumes wf: "mesh_wf m"
  shows "mesh_wf (snd (apply_gossip_record r m))"
proof (cases "gr_runtime_id r = mm_local_runtime_id m")
  case False
  show ?thesis
  proof (cases "hget (mm_peers m) (gr_runtime_id r)")
    case None
    then show ?thesis using wf False phi_default_ok
      by (simp add: apply_gossip_record_def mesh_wf_put_peer peer_ok_def peer_counters_new_def Let_def)
  next
    case (Some p)
    then have "peer_ok (mm_local_runtime_id m) (gr_runtime_id r) p" using wf unfolding mesh_wf_def by blast
    then show ?thesis using wf Some phi_observe_ok [of "pr_phi p"]
      by (simp add: apply_gossip_record_def mesh_wf_put_peer peer_ok_def Let_def)
  qed
qed (use wf in \<open>simp add: apply_gossip_record_def\<close>)

datatype mesh_op =
    OpGossip runtime_id gossip_message
  | OpReady "ready_record list"
  | OpMark runtime_id connection_state
  | OpTick
  | OpDrain
  | OpCount counter runtime_id
  | OpStale "runtime_id option"

text \<open>The operations of the running mesh, at a time of the local clock.\<close>

fun mesh_step ::
  "(string \<Rightarrow> string \<Rightarrow> string \<Rightarrow> bool) \<Rightarrow> membership \<Rightarrow> nat \<times> mesh_op \<Rightarrow> membership" where
  "mesh_step verify m (now, OpGossip remote message) = snd (handle_gossip remote message m)"
| "mesh_step verify m (now, OpReady records) = apply_ready_records verify now records m"
| "mesh_step verify m (now, OpMark i state) = mark_connection_state i state m"
| "mesh_step verify m (now, OpTick) = snd (gossip_tick now m)"
| "mesh_step verify m (now, OpDrain) = begin_drain now m"
| "mesh_step verify m (now, OpCount k i) = record_count k i m"
| "mesh_step verify m (now, OpStale i) = record_stale_generation_rejection i m"

lemma fold_wf: "(\<And>x m. mesh_wf m \<Longrightarrow> mesh_wf (f x m)) \<Longrightarrow> mesh_wf m \<Longrightarrow> mesh_wf (fold f xs m)"
  by (induction xs arbitrary: m) simp_all

lemma mesh_wf_frame [simp]:
  "mesh_wf (m\<lparr>mm_foreign_relay_rejections := v\<rparr>) = mesh_wf m"
  "mesh_wf (m\<lparr>mm_stale_generation_rejections := v\<rparr>) = mesh_wf m"
  "mesh_wf (m\<lparr>mm_draining := b\<rparr>) = mesh_wf m"
  by (simp_all add: mesh_wf_def)

lemma change_peer_wf:
  assumes wf: "mesh_wf m" and p: "hget (mm_peers m) i = Some p"
    and f: "pr_record (f p) = pr_record p" "pr_phi (f p) = pr_phi p"
      "mp_runtime_id (pr_counters (f p)) = mp_runtime_id (pr_counters p)"
  shows "mesh_wf (m\<lparr>mm_peers := hinsert i (f p) (mm_peers m)\<rparr>)"
proof -
  have "peer_ok (mm_local_runtime_id m) i p" using wf p unfolding mesh_wf_def by blast
  then show ?thesis using wf f by (intro mesh_wf_put_peer) (simp_all add: peer_ok_def)
qed

lemma counters_wf:
  assumes wf: "mesh_wf m" and f: "\<And>c. mp_runtime_id (f c) = mp_runtime_id c"
  shows "mesh_wf (update_peer_counters i f m)"
proof (cases "hget (mm_peers m) i")
  case (Some p)
  then show ?thesis
    using change_peer_wf [OF wf Some, of "\<lambda>p. p\<lparr>pr_counters := f (pr_counters p)\<rparr>"] f
    by (simp add: update_peer_counters_def)
qed (use wf in \<open>simp add: update_peer_counters_def\<close>)

lemma mark_wf:
  assumes wf: "mesh_wf m"
  shows "mesh_wf (mark_connection_state i state m)"
proof (cases "hget (mm_peers m) i")
  case (Some p)
  then show ?thesis
    using change_peer_wf [OF wf Some, of "\<lambda>p. p\<lparr>pr_connection_state := state\<rparr>"]
    by (simp add: mark_connection_state_def)
qed (use wf in \<open>simp add: mark_connection_state_def\<close>)

lemma count_one_id: "mp_runtime_id (count_one k c) = mp_runtime_id c"
  by (cases k) (simp_all add: count_one_def)

lemma record_count_wf: "mesh_wf m \<Longrightarrow> mesh_wf (record_count k i m)"
  unfolding record_count_def by (rule counters_wf) (simp_all add: count_one_id)

lemma ready_wf: "mesh_wf m \<Longrightarrow> mesh_wf (apply_ready_record verify now ready m)"
  by (simp add: apply_ready_record_def apply_gossip_wf split: sum.splits)

lemma update_local_wf: "mesh_wf m \<Longrightarrow> (\<And>r. gr_runtime_id (f r) = gr_runtime_id r) \<Longrightarrow> mesh_wf (update_local now f m)"
  by (simp add: update_local_def bump_def mesh_wf_def Let_def)

interpretation mesh_run: machine "mesh_step verify" mesh_wf for verify
proof
  fix m :: membership and a :: "nat \<times> mesh_op"
  assume wf: "mesh_wf m"
  obtain now op where a: "a = (now, op)" by (cases a)
  show "mesh_wf (mesh_step verify m a)"
  proof (cases op)
    case (OpGossip remote message)
    then show ?thesis unfolding a using wf
      by (cases message) (auto simp: handle_gossip_def Let_def record_count_wf apply_gossip_wf intro!: fold_wf)
  next
    case (OpReady records)
    then show ?thesis unfolding a using wf by (auto simp: apply_ready_records_def ready_wf intro!: fold_wf)
  qed (use wf in \<open>simp_all add: a mark_wf gossip_tick_def begin_drain_def update_local_wf record_count_wf counters_wf
      record_stale_generation_rejection_def Let_def split: option.splits\<close>)
qed

lemma membership_new_wf: "mesh_wf (membership_new local)"
  by (simp add: membership_new_def mesh_wf_def)

section \<open>Gossip exchange\<close>

lemma mesh_get_record:
  assumes "mesh_wf m"
  shows "r \<in> set (mesh_records m) \<longleftrightarrow> mesh_get m (gr_runtime_id r) = Some r"
proof -
  have d: "distinct (keys (mm_peers m))" using assms by (simp add: mesh_wf_def)
  have p: "peer_ok (mm_local_runtime_id m) i p" if "(i, p) \<in> set (mm_peers m)" for i p
    using assms that hget_in_set [OF d] unfolding mesh_wf_def by blast
  show ?thesis
  proof (cases "gr_runtime_id r = mm_local_runtime_id m")
    case True
    then show ?thesis using p by (auto simp: mesh_records_def mesh_get_def peer_ok_def)
  next
    case False
    then have "r \<noteq> mm_local_record m" using assms by (auto simp: mesh_wf_def)
    then have "r \<in> set (mesh_records m) \<longleftrightarrow> (\<exists>i p. (i, p) \<in> set (mm_peers m) \<and> r = pr_record p)"
      by (auto simp: mesh_records_def)
    also have "\<dots> \<longleftrightarrow> (\<exists>p. hget (mm_peers m) (gr_runtime_id r) = Some p \<and> pr_record p = r)"
      using p hget_in_set [OF d] unfolding peer_ok_def by metis
    finally show ?thesis using False by (simp add: mesh_get_def)
  qed
qed

lemma mesh_get_id: "mesh_wf m \<Longrightarrow> mesh_get m k = Some r \<Longrightarrow> gr_runtime_id r = k"
  by (auto simp: mesh_get_def mesh_wf_def peer_ok_def split: if_splits)

lemma distinct_records:
  assumes "mesh_wf m"
  shows "distinct (map gr_runtime_id (mesh_records m))"
proof -
  have d: "distinct (keys (mm_peers m))" using assms by (simp add: mesh_wf_def)
  have p: "i \<noteq> mm_local_runtime_id m \<and> gr_runtime_id (pr_record p) = i" if "(i, p) \<in> set (mm_peers m)" for i p
    using assms that hget_in_set [OF d] unfolding mesh_wf_def peer_ok_def by blast
  have "map (gr_runtime_id \<circ> (\<lambda>(i, p). pr_record p)) (mm_peers m) = keys (mm_peers m)"
    using p by (intro map_cong) auto
  then have "map gr_runtime_id (mesh_records m) = keys (mm_peers m) @ [mm_local_runtime_id m]"
    using assms by (simp add: mesh_records_def mesh_wf_def)
  moreover have "mm_local_runtime_id m \<notin> set (keys (mm_peers m))" using p by fastforce
  ultimately show ?thesis using d by simp
qed

lemma digest_lookup:
  "distinct (map fst ds) \<Longrightarrow> hget (fold (\<lambda>(i, v) m. hinsert i v m) ds m0) k =
     (case map_of ds k of None \<Rightarrow> hget m0 k | Some v \<Rightarrow> Some v)"
proof (induction ds arbitrary: m0)
  case (Cons e ds)
  then have "map_of ds (fst e) = None" by (simp add: map_of_eq_None_iff)
  with Cons show ?case by (cases e) (auto split: option.splits)
qed simp

definition digest_entries :: "gossip_message \<Rightarrow> digest_entry list" where
  "digest_entries message = (case message of Digest v entries \<Rightarrow> entries | Delta v records \<Rightarrow> [])"

lemma behind_iff:
  assumes "mesh_wf b"
  shows "remote_behind (digest_entries (mesh_digest b)) r \<longleftrightarrow>
    (case mesh_get b (gr_runtime_id r) of None \<Rightarrow> True | Some x \<Rightarrow> gr_version x < gr_version r)"
proof -
  let ?ds = "digest_entries (mesh_digest b)"
  let ?es = "map (\<lambda>r. (gr_runtime_id r, gr_version r)) (mesh_records b)"
  have ds: "?ds = sort_key fst ?es" by (simp add: mesh_digest_def digest_of_def digest_entries_def)
  have fsts: "map fst ?es = map gr_runtime_id (mesh_records b)" by simp
  have d: "distinct (map fst ?es)" unfolding fsts by (rule distinct_records [OF assms])
  have "mset (map fst ?ds) = mset (map fst ?es)" unfolding ds by (simp only: mset_map mset_sort)
  then have d': "distinct (map fst ?ds)" using d mset_eq_imp_distinct_iff by blast
  have "map_of ?ds k = Some v \<longleftrightarrow> (\<exists>x. mesh_get b k = Some x \<and> gr_version x = v)" for k v
  proof -
    have "set ?ds = set ?es" unfolding ds by (rule set_sort)
    then have "map_of ?ds k = Some v \<longleftrightarrow> (k, v) \<in> set ?es"
      by (simp only: map_of_eq_Some_iff [OF d'])
    also have "\<dots> \<longleftrightarrow> (\<exists>x \<in> set (mesh_records b). gr_runtime_id x = k \<and> gr_version x = v)"
      unfolding set_map image_iff by auto
    also have "\<dots> \<longleftrightarrow> (\<exists>x. mesh_get b k = Some x \<and> gr_version x = v)"
      using mesh_get_record [OF assms] mesh_get_id [OF assms] by metis
    finally show ?thesis .
  qed
  then have "map_of ?ds k = Some v \<longleftrightarrow> map_option gr_version (mesh_get b k) = Some v" for k v by auto
  then have "map_of ?ds k = map_option gr_version (mesh_get b k)" for k by (metis not_None_eq)
  then show ?thesis
    unfolding remote_behind_def Let_def digest_lookup [OF d']
    by (simp split: option.splits)
qed

lemma mesh_get_counters [simp]: "mesh_get (update_peer_counters i f m) = mesh_get m"
  by (rule ext) (simp add: mesh_get_def update_peer_counters_def hget_insert split: option.splits)

lemma mesh_get_count [simp]: "mesh_get (record_count k i m) = mesh_get m"
  by (simp add: record_count_def)

lemma local_count [simp]: "mm_local_runtime_id (record_count k i m) = mm_local_runtime_id m"
  by (simp add: record_count_def update_peer_counters_def split: option.splits)

text \<open>One round of gossip: \<open>b\<close> sends its digest to \<open>a\<close> and applies the delta it gets back.\<close>

definition gossip_round :: "membership \<Rightarrow> membership \<Rightarrow> membership" where
  "gossip_round a b =
     (case handle_gossip (mm_local_runtime_id b) (mesh_digest b) a of
        (Some delta, a') \<Rightarrow> snd (handle_gossip (mm_local_runtime_id a) delta b)
      | (None, a') \<Rightarrow> b)"

definition newest :: "gossip_record option \<Rightarrow> gossip_record option \<Rightarrow> gossip_record option" where
  "newest mine theirs =
     (case (mine, theirs) of
        (None, t) \<Rightarrow> t
      | (Some x, None) \<Rightarrow> Some x
      | (Some x, Some y) \<Rightarrow> if gr_version x < gr_version y then Some y else Some x)"

lemma records_count: "mesh_wf m \<Longrightarrow> set (mesh_records (record_count k i m)) = set (mesh_records m)"
  using mesh_get_record record_count_wf by auto

lemma gossip_round_fold:
  "gossip_round a b =
     fold (\<lambda>r m. snd (apply_gossip_record r m))
       (sort_key gr_runtime_id (filter (remote_behind (digest_entries (mesh_digest b)))
          (mesh_records (record_count GossipFramesReceived (mm_local_runtime_id b) a))))
       (record_count GossipFramesReceived (mm_local_runtime_id a) b)"
  by (simp add: gossip_round_def handle_gossip_def mesh_digest_def digest_of_def mesh_delta_for_def delta_of_def
      digest_entries_def Let_def)

lemma gossip_round_get:
  assumes a: "mesh_wf a" and b: "mesh_wf b"
  shows "mesh_get (gossip_round a b) k =
    (if k = mm_local_runtime_id b then mesh_get b k else newest (mesh_get b k) (mesh_get a k))"
proof -
  let ?a = "record_count GossipFramesReceived (mm_local_runtime_id b) a"
  let ?b = "record_count GossipFramesReceived (mm_local_runtime_id a) b"
  let ?rs = "filter (remote_behind (digest_entries (mesh_digest b))) (mesh_records ?a)"
  have wf: "mesh_wf ?a" using a record_count_wf by blast
  have d: "distinct (map gr_runtime_id (sort_key gr_runtime_id ?rs))"
  proof -
    have "distinct (map gr_runtime_id ?rs)"
      using distinct_records [OF wf] by (simp add: distinct_map_filter)
    moreover have "mset (map gr_runtime_id (sort_key gr_runtime_id ?rs)) = mset (map gr_runtime_id ?rs)"
      by (simp only: mset_map mset_sort)
    ultimately show ?thesis using mset_eq_imp_distinct_iff by blast
  qed
  have mem: "r \<in> set (sort_key gr_runtime_id ?rs) \<longleftrightarrow> mesh_get a (gr_runtime_id r) = Some r \<and>
      (case mesh_get b (gr_runtime_id r) of None \<Rightarrow> True | Some x \<Rightarrow> gr_version x < gr_version r)" for r
    using mesh_get_record [OF wf] behind_iff [OF b] by auto
  show ?thesis
  proof (cases "k = mm_local_runtime_id b")
    case True
    then show ?thesis unfolding gossip_round_fold by (simp add: mesh.get_fold_own)
  next
    case k: False
    show ?thesis
    proof (cases "\<exists>r \<in> set (sort_key gr_runtime_id ?rs). gr_runtime_id r = k")
      case True
      then obtain r where r: "r \<in> set (sort_key gr_runtime_id ?rs)" "gr_runtime_id r = k" by blast
      have "mesh_get (gossip_round a b) k =
          (case mesh_get b k of None \<Rightarrow> Some r | Some x \<Rightarrow> if gr_version x < gr_version r then Some r else Some x)"
        unfolding gossip_round_fold using mesh.get_fold [OF d r(1), of ?b] k r(2) by simp
      then show ?thesis using r mem k by (auto simp: newest_def split: option.splits)
    next
      case False
      then have "mesh_get (gossip_round a b) k = mesh_get b k"
        unfolding gossip_round_fold by (subst mesh.get_fold_absent) auto
      moreover have "newest (mesh_get b k) (mesh_get a k) = mesh_get b k"
      proof (cases "mesh_get a k")
        case (Some r)
        then have "gr_runtime_id r = k" using a mesh_get_id by blast
        then show ?thesis using False mem [of r] Some by (auto simp: newest_def split: option.splits)
      qed (simp add: newest_def split: option.splits)
      ultimately show ?thesis using k by simp
    qed
  qed
qed

lemma gossip_round_wf: "mesh_wf b \<Longrightarrow> mesh_wf (gossip_round a b)"
  unfolding gossip_round_fold by (intro fold_wf record_count_wf apply_gossip_wf)

lemma gossip_round_local: "mm_local_runtime_id (gossip_round a b) = mm_local_runtime_id b"
proof -
  have "mm_local_runtime_id (fold (\<lambda>r m. snd (apply_gossip_record r m)) rs m) = mm_local_runtime_id m" for rs m
    by (induction rs arbitrary: m) simp_all
  then show ?thesis unfolding gossip_round_fold by simp
qed

text \<open>
  In any two reachable memberships, one round of gossip gives the receiver, for every runtime
  but itself, the newer of the two records that the parties held, and leaves its own record alone;
  after a round in each direction both hold the same version for every third runtime.
\<close>

theorem gossip_round_takes_newest:
  assumes "a = foldl (mesh_step verify) (membership_new la) opsa"
    and "b = foldl (mesh_step verify') (membership_new lb) opsb"
    and "b' = gossip_round a b" and "a' = gossip_round b' a"
  shows "mesh_get b' k =
      (if k = mm_local_runtime_id b then mesh_get b k else newest (mesh_get b k) (mesh_get a k)) \<and>
    (k \<notin> {mm_local_runtime_id a, mm_local_runtime_id b} \<longrightarrow>
      map_option gr_version (mesh_get a' k) = map_option gr_version (mesh_get b' k))"
proof -
  have wf: "mesh_wf a" "mesh_wf b"
    unfolding assms(1,2) by (rule mesh_run.run_inv, rule membership_new_wf)+
  note b' = gossip_round_get [OF wf, of k, folded assms(3)]
  have "mesh_wf b'" unfolding assms(3) using wf gossip_round_wf by blast
  note a' = gossip_round_get [OF this wf(1), of k, folded assms(4)]
  show ?thesis
    using b' a' by (auto simp: newest_def split: option.splits if_splits)
qed

definition demo_record :: "runtime_id \<Rightarrow> nat \<Rightarrow> gossip_record" where
  "demo_record i v = (gossip_record_new 0 i [] 1)\<lparr>gr_version := v\<rparr>"

lemma gossip_round_takes_newest_witness:
  "mesh_get (gossip_round
     (foldl (mesh_step (\<lambda>_ _ _. False)) (membership_new (demo_record ''a'' 1))
        [(0, OpGossip ''c'' (Delta 1 [demo_record ''c'' 5]))])
     (foldl (mesh_step (\<lambda>_ _ _. False)) (membership_new (demo_record ''b'' 1))
        [(0, OpGossip ''c'' (Delta 1 [demo_record ''c'' 4]))])) ''c'' = Some (demo_record ''c'' 5)"
  using gossip_round_takes_newest [OF refl refl refl refl, of "\<lambda>_ _ _. False" "demo_record ''a'' 1"
      "[(0, OpGossip ''c'' (Delta 1 [demo_record ''c'' 5]))]" "\<lambda>_ _ _. False" "demo_record ''b'' 1"
      "[(0, OpGossip ''c'' (Delta 1 [demo_record ''c'' 4]))]" "''c''"]
  by (simp add: handle_gossip_def record_count_def update_peer_counters_def apply_gossip_record_def Let_def
      membership_new_def mesh_get_def newest_def demo_record_def gossip_record_new_def)

section \<open>Seeds\<close>

lemma has_peer_apply:
  "has_peer i (snd (apply_gossip_record r m)) \<longleftrightarrow>
     has_peer i m \<or> (i = gr_runtime_id r \<and> i \<noteq> mm_local_runtime_id m)"
  unfolding has_peer_def hcontains_def
  by (auto simp: apply_gossip_record_def Let_def split: option.splits)

lemma has_peer_frame [simp]: "has_peer i (m\<lparr>mm_foreign_relay_rejections := v\<rparr>) = has_peer i m"
  by (simp add: has_peer_def)

definition admissible :: "(string \<Rightarrow> string \<Rightarrow> string \<Rightarrow> bool) \<Rightarrow> membership \<Rightarrow> ready_record \<Rightarrow> bool" where
  "admissible verify m ready \<longleftrightarrow>
     ry_runtime_id ready \<noteq> mm_local_runtime_id m \<and> mm_expected_relay_pubkey m = Some (ry_relay_pubkey ready) \<and>
     verify_attestation verify ready = Inr ()"

lemma ready_record_step:
  "has_peer i (apply_ready_record verify now ready m) \<longleftrightarrow>
     has_peer i m \<or> (i = ry_runtime_id ready \<and> admissible verify m ready)"
  "mm_local_runtime_id (apply_ready_record verify now ready m) = mm_local_runtime_id m"
  "mm_expected_relay_pubkey (apply_ready_record verify now ready m) = mm_expected_relay_pubkey m"
  by (auto simp: apply_ready_record_def admissible_def has_peer_apply gossip_record_new_def
      split: sum.splits)

text \<open>
  C30: Ready records seed exactly the runtimes that the deployment's own relay key attests: after a
  scan a runtime is known if and only if it was known before, or some record of it, not the local
  one, names the expected relay key, repeats the runtime id as the attested key and carries a
  valid signature by that key; without an expected key nothing is admitted.
\<close>

theorem seeds_are_attested:
  "has_peer i (apply_ready_records verify now records m) \<longleftrightarrow>
     has_peer i m \<or>
     (i \<noteq> mm_local_runtime_id m \<and>
      (\<exists>ready \<in> set records.
         ry_runtime_id ready = i \<and> ry_runtime_pubkey ready = i \<and>
         mm_expected_relay_pubkey m = Some (ry_relay_pubkey ready) \<and>
         verify (ry_relay_pubkey ready) (ry_relay_sig ready) (attestation_preimage i (ry_relay_pubkey ready))))"
proof -
  have "has_peer i (fold (apply_ready_record verify now) records m) \<longleftrightarrow>
      has_peer i m \<or> (\<exists>ready \<in> set records. i = ry_runtime_id ready \<and> admissible verify m ready)"
  proof (induction records arbitrary: m)
    case (Cons r rs)
    have "admissible verify (apply_ready_record verify now r m) = admissible verify m"
      by (rule ext) (simp add: admissible_def ready_record_step)
    then show ?case using Cons by (auto simp: ready_record_step)
  qed simp
  then show ?thesis
    by (auto simp: apply_ready_records_def admissible_def verify_attestation_def split: if_splits)
qed

text \<open>Gossip has no such check: a delta from any connected peer makes any runtime known.\<close>

theorem gossip_admits_unattested:
  assumes "gr_runtime_id r \<noteq> mm_local_runtime_id m"
  shows "has_peer (gr_runtime_id r) (snd (handle_gossip remote (Delta v [r]) m))"
  using assms by (simp add: handle_gossip_def Let_def has_peer_apply)

section \<open>One connection per pair\<close>

definition install_all :: "runtime_id \<Rightarrow> runtime_id \<Rightarrow> ('c \<times> bool) list \<Rightarrow> 'c conn_table \<Rightarrow> 'c conn_table" where
  "install_all local remote es t = fold (\<lambda>(c, d) t. snd (install_peer local remote c d t)) es t"

text \<open>A connection that wins replaces any other; one that loses is kept only where there is none.\<close>

lemma install_all_get:
  "hget (install_all local remote es t) remote =
     (case rev (filter (\<lambda>(c, d). new_connection_wins local remote d) es) of
        w # _ \<Rightarrow> Some w
      | [] \<Rightarrow> (case hget t remote of Some x \<Rightarrow> Some x | None \<Rightarrow> (case es of e # _ \<Rightarrow> Some e | [] \<Rightarrow> None)))"
proof (induction es arbitrary: t)
  case (Cons e es)
  obtain c d where e: "e = (c, d)" by (cases e)
  have "hget (snd (install_peer local remote c d t)) remote =
      (if hget t remote \<noteq> None \<and> \<not> new_connection_wins local remote d then hget t remote else Some (c, d))"
    unfolding install_peer_def hcontains_def by (auto split: option.splits)
  then show ?case
    using Cons [of "snd (install_peer local remote c d t)"]
    by (auto simp: install_all_def e simp del: map_of_eq_None_iff split: list.splits option.splits)
qed (simp add: install_all_def split: option.splits)

text \<open>
  Two runtimes that dial each other keep the same connection. Whatever order each side installs
  the connections in, and however often either dials, if the connections dialed by the smaller id
  arrive in the same order on both sides and there is at least one, both tables end with the last
  of them.
\<close>

theorem simultaneous_dials_agree:
  assumes order: "x < y" and conns: "cs \<noteq> []"
    and at_x: "filter snd ex = map (\<lambda>c. (c, True)) cs"
    and at_y: "filter (\<lambda>e. \<not> snd e) ey = map (\<lambda>c. (c, False)) cs"
  shows "hget (install_all x y ex tx) y = Some (last cs, True) \<and>
    hget (install_all y x ey ty) x = Some (last cs, False)"
proof -
  have r: "(case rev (map f cs) of w # _ \<Rightarrow> Some w | [] \<Rightarrow> z) = Some (f (last cs))" for f :: "'a \<Rightarrow> 'a \<times> bool" and z
    using conns by (cases cs rule: rev_cases) simp_all
  have "filter (\<lambda>(c, d). new_connection_wins x y d) ex = map (\<lambda>c. (c, True)) cs"
    using at_x order by (simp add: new_connection_wins_def case_prod_unfold)
  moreover have "filter (\<lambda>(c, d). new_connection_wins y x d) ey = map (\<lambda>c. (c, False)) cs"
    using at_y order by (simp add: new_connection_wins_def case_prod_unfold less_not_sym)
  ultimately show ?thesis unfolding install_all_get by (simp only: r simp_thms)
qed

lemma simultaneous_dials_agree_witness:
  "hget (install_all ''a'' ''b'' [(2 :: nat, False), (1, True)] []) ''b'' = Some (1, True) \<and>
   hget (install_all ''b'' ''a'' [(1 :: nat, False), (2, True)] []) ''a'' = Some (1, False)"
  using simultaneous_dials_agree [of "''a''" "''b''" "[1 :: nat]" "[(2, False), (1, True)]" "[(1, False), (2, True)]"]
  by simp

end
