(* ===== verification/SdkChecks.thy ===== *)
theory SdkChecks
  imports Kinds Text GitPerms
begin

text \<open>
  The checks and tag emitters that the SDK's event builders share, from the head of
  \<open>crates/buzz-sdk/src/builders.rs\<close>, with the channel enums and the channel-name
  normalisation of \<open>crates/buzz-core/src/channel.rs\<close>.

  \<^item> A builder returns \<open>Result<EventBuilder, SdkError>\<close>; here \<open>sdk_error + event_builder\<close>, with
    \<open>and_then\<close> for the question-mark operator and \<open>try_fold\<close> for a loop that returns early.
    Error texts keep their fixed part; the interpolated values are dropped.
  \<^item> \<open>nostr::Tag::parse\<close> is not part of the repository: it is the argument \<open>tp\<close> of every
    emitter and builder. \<open>tag_parser_ok\<close> is its documented behaviour, that a non-empty list of
    strings becomes the tag with these values and that the empty list is refused.
  \<^item> \<open>event_builder\<close> is what the builders hand to \<open>nostr::EventBuilder\<close>: kind, content, tags and
    the self-tagging flag.
\<close>

section \<open>Results\<close>

datatype sdk_error =
    ContentTooLarge nat nat
  | InvalidTag string
  | EmojiTooLong
  | TooManyMentions
  | InvalidDiffMeta string
  | InvalidInput string

type_synonym 'a sdk = "sdk_error + 'a"

definition and_then :: "'e + 'a \<Rightarrow> ('a \<Rightarrow> 'e + 'b) \<Rightarrow> 'e + 'b" where
  "and_then r f = (case r of Inl e \<Rightarrow> Inl e | Inr x \<Rightarrow> f x)"

fun try_fold :: "('x \<Rightarrow> 's \<Rightarrow> 'e + 's) \<Rightarrow> 'x list \<Rightarrow> 's \<Rightarrow> 'e + 's" where
  "try_fold f [] s = Inr s"
| "try_fold f (x # xs) s = and_then (f x s) (try_fold f xs)"

definition try_all :: "('x \<Rightarrow> 'e + unit) \<Rightarrow> 'x list \<Rightarrow> 'e + unit" where
  "try_all f xs = try_fold (\<lambda>x _. f x) xs ()"

definition refuse_if :: "bool \<Rightarrow> 'e \<Rightarrow> 'e + unit" where
  "refuse_if b e = (if b then Inl e else Inr ())"

definition when_some :: "'x option \<Rightarrow> ('x \<Rightarrow> 's \<Rightarrow> 'e + 's) \<Rightarrow> 's \<Rightarrow> 'e + 's" where
  "when_some o' f s = (case o' of Some x \<Rightarrow> f x s | None \<Rightarrow> Inr s)"

definition check_some :: "'x option \<Rightarrow> ('x \<Rightarrow> 'e + unit) \<Rightarrow> 'e + unit" where
  "check_some o' f = (case o' of Some x \<Rightarrow> f x | None \<Rightarrow> Inr ())"

named_theorems result_simps "when a result is a success, step by step"

lemma and_then_simps [simp]: "and_then (Inl e) f = Inl e" "and_then (Inr x) f = f x"
  by (simp_all add: and_then_def)

lemma and_then_Inr [result_simps]: "and_then r f = Inr y \<longleftrightarrow> (\<exists>x. r = Inr x \<and> f x = Inr y)"
  by (cases r) auto

lemma refuse_if_Inr [result_simps]: "refuse_if b e = Inr u \<longleftrightarrow> \<not> b"
  by (simp add: refuse_if_def)

lemma when_some_Inr [result_simps]:
  "when_some o' f s = Inr t \<longleftrightarrow> (o' = None \<and> t = s) \<or> (\<exists>x. o' = Some x \<and> f x s = Inr t)"
  by (cases o') (auto simp: when_some_def)

lemma check_some_Inr [result_simps]:
  "check_some o' f = Inr u \<longleftrightarrow> (\<forall>x. o' = Some x \<longrightarrow> f x = Inr ())"
  by (cases o') (auto simp: check_some_def)

lemma when_some_simps [simp]: "when_some None f s = Inr s" "when_some (Some x) f s = f x s"
  by (simp_all add: when_some_def)

lemma try_all_Inr [result_simps]: "try_all f xs = Inr u \<longleftrightarrow> (\<forall>x \<in> set xs. f x = Inr ())"
  by (induction xs) (auto simp: try_all_def and_then_Inr)

lemma try_fold_inv:
  assumes "try_fold f xs s = Inr t" "P s" "\<And>x s t. x \<in> set xs \<Longrightarrow> P s \<Longrightarrow> f x s = Inr t \<Longrightarrow> P t"
  shows "P t"
  using assms by (induction xs arbitrary: s) (auto simp: and_then_Inr)

section \<open>Builders and tags\<close>

record event_builder =
  eb_kind :: nat
  eb_content :: string
  eb_tags :: "tag list"
  eb_self_tagging :: bool

definition new_builder :: "nat \<Rightarrow> string \<Rightarrow> tag list \<Rightarrow> event_builder" where
  "new_builder kind content tags =
     \<lparr>eb_kind = kind, eb_content = content, eb_tags = tags, eb_self_tagging = False\<rparr>"

definition allow_self_tagging :: "event_builder \<Rightarrow> event_builder" where
  "allow_self_tagging b = b\<lparr>eb_self_tagging := True\<rparr>"

type_synonym tag_parser = "string list \<Rightarrow> string + tag"

definition tag_parser_ok :: "tag_parser \<Rightarrow> bool" where
  "tag_parser_ok tp \<longleftrightarrow> (\<exists>e. tp [] = Inl e) \<and> (\<forall>p ps. tp (p # ps) = Inr (p # ps))"

definition mk_tag :: "tag_parser \<Rightarrow> string list \<Rightarrow> tag sdk" where
  "mk_tag tp parts = (case tp parts of Inl e \<Rightarrow> Inl (InvalidTag e) | Inr t \<Rightarrow> Inr t)"

text \<open>\<open>tags.push(tag(parts)?)\<close>, and \<open>vec![tag(a)?, tag(b)?, ...]\<close>.\<close>

definition push_tag :: "tag_parser \<Rightarrow> string list \<Rightarrow> tag list \<Rightarrow> tag list sdk" where
  "push_tag tp parts tags = and_then (mk_tag tp parts) (\<lambda>t. Inr (tags @ [t]))"

definition tag_vec :: "tag_parser \<Rightarrow> string list list \<Rightarrow> tag list sdk" where
  "tag_vec tp ps = try_fold (push_tag tp) ps []"

text \<open>\<open>if let Some(x) = field { tags.push(tag(&[name, x])?) }\<close> and the boolean form.\<close>

definition push_opt :: "tag_parser \<Rightarrow> string \<Rightarrow> string option \<Rightarrow> tag list \<Rightarrow> tag list sdk" where
  "push_opt tp name o' tags = when_some o' (\<lambda>v. push_tag tp [name, v]) tags"

definition push_if :: "tag_parser \<Rightarrow> bool \<Rightarrow> string list \<Rightarrow> tag list \<Rightarrow> tag list sdk" where
  "push_if tp b parts tags = (if b then push_tag tp parts tags else Inr tags)"

section \<open>Checks\<close>

definition check_content :: "string \<Rightarrow> nat \<Rightarrow> unit sdk" where
  "check_content content lim =
     (if length content > lim then Inl (ContentTooLarge lim (length content)) else Inr ())"

definition check_hex_len :: "string \<Rightarrow> nat \<Rightarrow> string \<Rightarrow> unit sdk" where
  "check_hex_len s min_len field =
     refuse_if (length s < min_len \<or> \<not> list_all is_ascii_hexdigit s)
       (InvalidDiffMeta (field @ '' must be at least '' @ decimal min_len @ '' hex characters''))"

definition check_commit_hex :: "string \<Rightarrow> string \<Rightarrow> unit sdk" where
  "check_commit_hex s field =
     refuse_if ((length s \<noteq> 40 \<and> length s \<noteq> 64) \<or> \<not> list_all is_ascii_hexdigit s)
       (InvalidInput
         (field @ '' must be a full 40-character (SHA-1) or 64-character (SHA-256) hex commit id''))"

definition check_pubkey_hex :: "string \<Rightarrow> string \<Rightarrow> string sdk" where
  "check_pubkey_hex s field =
     (if length s \<noteq> 64 \<or> \<not> list_all is_ascii_hexdigit s
      then Inl (InvalidInput (field @ '' must be a 64-character hex pubkey''))
      else Inr (ascii_lower s))"

definition check_hex_exact :: "string \<Rightarrow> nat \<Rightarrow> string \<Rightarrow> string sdk" where
  "check_hex_exact s n field =
     (if length s \<noteq> n \<or> \<not> list_all is_ascii_hexdigit s
      then Inl (InvalidInput (field @ '' must be a '' @ decimal n @ ''-character hex string''))
      else Inr (ascii_lower s))"

definition repo_id_char :: "char \<Rightarrow> bool" where
  "repo_id_char c \<longleftrightarrow> is_ascii_alphanumeric c \<or> c = CHR ''.'' \<or> c = CHR ''_'' \<or> c = CHR ''-''"

fun contains_dot_dot :: "string \<Rightarrow> bool" where
  "contains_dot_dot (c # d # s) = ((c = CHR ''.'' \<and> d = CHR ''.'') \<or> contains_dot_dot (d # s))"
| "contains_dot_dot _ = False"

definition check_repo_id :: "string \<Rightarrow> unit sdk" where
  "check_repo_id repo_id =
     (if repo_id = [] then Inl (InvalidInput ''repo_id must not be empty'')
      else if length repo_id > 64 then Inl (InvalidInput ''repo_id exceeds 64 characters'')
      else if \<not> list_all repo_id_char repo_id
      then Inl (InvalidInput ''repo_id may only contain [a-zA-Z0-9._-]'')
      else if starts_with ''.'' repo_id then Inl (InvalidInput ''repo_id must not start with a dot'')
      else if contains_dot_dot repo_id then Inl (InvalidInput ''repo_id must not contain ..'')
      else Inr ())"

definition shortcode_char :: "char \<Rightarrow> bool" where
  "shortcode_char c \<longleftrightarrow> is_ascii_alphanumeric c \<or> c = CHR ''-'' \<or> c = CHR ''_''"

definition normalize_custom_emoji_shortcode :: "string \<Rightarrow> string sdk" where
  "normalize_custom_emoji_shortcode shortcode =
     (let trimmed = trim_char CHR '':'' (trim shortcode) in
      if trimmed = [] then Inl (InvalidInput ''emoji shortcode must not be empty'')
      else if length trimmed > 64 then Inl (InvalidInput ''emoji shortcode exceeds 64 bytes'')
      else if \<not> list_all shortcode_char trimmed
      then Inl (InvalidInput
             ''emoji shortcode may only contain ASCII letters, digits, hyphens, and underscores'')
      else Inr (ascii_lower trimmed))"

definition is_http_url :: "string \<Rightarrow> bool" where
  "is_http_url url \<longleftrightarrow> starts_with ''http://'' url \<or> starts_with ''https://'' url"

definition check_custom_emoji_url :: "string \<Rightarrow> unit sdk" where
  "check_custom_emoji_url url =
     (if url = [] then Inl (InvalidInput ''emoji image URL must not be empty'')
      else if length url > 2048 then Inl (InvalidInput ''emoji image URL exceeds 2048 bytes'')
      else if \<not> is_http_url url
      then Inl (InvalidInput ''emoji image URL must start with http:// or https://'')
      else Inr ())"

section \<open>Channel enums and names\<close>

datatype channel_visibility = Open | Private

definition visibility_as_str :: "channel_visibility \<Rightarrow> string" where
  "visibility_as_str v = (case v of Open \<Rightarrow> ''open'' | Private \<Rightarrow> ''private'')"

definition visibility_from_str :: "string \<Rightarrow> channel_visibility option" where
  "visibility_from_str s =
     (if s = ''open'' then Some Open else if s = ''private'' then Some Private else None)"

datatype channel_type = Stream | Forum | Dm | Workflow

definition channel_type_as_str :: "channel_type \<Rightarrow> string" where
  "channel_type_as_str t =
     (case t of Stream \<Rightarrow> ''stream'' | Forum \<Rightarrow> ''forum'' | Dm \<Rightarrow> ''dm'' | Workflow \<Rightarrow> ''workflow'')"

definition channel_type_from_str :: "string \<Rightarrow> channel_type option" where
  "channel_type_from_str s =
     (if s = ''stream'' then Some Stream else if s = ''forum'' then Some Forum
      else if s = ''dm'' then Some Dm else if s = ''workflow'' then Some Workflow else None)"

definition hash_or_ws_width :: "string \<Rightarrow> nat" where
  "hash_or_ws_width s = (if s \<noteq> [] \<and> hd s = CHR ''#'' then 1 else ws_width s)"

definition canonical_channel_name :: "string \<Rightarrow> string" where
  "canonical_channel_name name = trim_end (skip_while hash_or_ws_width name)"

section \<open>What the checks establish\<close>

lemma visibility_round_trip [simp]: "visibility_from_str (visibility_as_str v) = Some v"
  by (cases v) (simp_all add: visibility_as_str_def visibility_from_str_def)

lemma channel_type_round_trip [simp]: "channel_type_from_str (channel_type_as_str t) = Some t"
  by (cases t) (simp_all add: channel_type_as_str_def channel_type_from_str_def)

lemma check_content_Inr [result_simps]: "check_content c n = Inr u \<longleftrightarrow> length c \<le> n"
  by (auto simp: check_content_def)

lemma check_hex_len_Inr [result_simps]:
  "check_hex_len s n f = Inr u \<longleftrightarrow> n \<le> length s \<and> list_all is_ascii_hexdigit s"
  by (auto simp: check_hex_len_def refuse_if_def)

lemma check_pubkey_hex_Inr [result_simps]:
  "check_pubkey_hex s f = Inr k \<longleftrightarrow> length s = 64 \<and> list_all is_ascii_hexdigit s \<and> k = ascii_lower s"
  by (auto simp: check_pubkey_hex_def)

lemma check_hex_exact_Inr [result_simps]:
  "check_hex_exact s n f = Inr k \<longleftrightarrow> length s = n \<and> list_all is_ascii_hexdigit s \<and> k = ascii_lower s"
  by (auto simp: check_hex_exact_def)

lemma check_commit_hex_Inr [result_simps]:
  "check_commit_hex s f = Inr u \<longleftrightarrow> (length s = 40 \<or> length s = 64) \<and> list_all is_ascii_hexdigit s"
  by (auto simp: check_commit_hex_def refuse_if_def)

lemma mk_tag_ok [simp]: "tag_parser_ok tp \<Longrightarrow> mk_tag tp (p # ps) = Inr (p # ps)"
  by (simp add: mk_tag_def tag_parser_ok_def)

lemma push_tag_ok [simp]: "tag_parser_ok tp \<Longrightarrow> push_tag tp (p # ps) tags = Inr (tags @ [p # ps])"
  by (simp add: push_tag_def)

lemma push_opt_ok [simp]:
  "tag_parser_ok tp \<Longrightarrow>
   push_opt tp n o' tags = Inr (tags @ (case o' of None \<Rightarrow> [] | Some v \<Rightarrow> [[n, v]]))"
  by (cases o') (simp_all add: push_opt_def)

lemma push_if_ok [simp]:
  "tag_parser_ok tp \<Longrightarrow> push_if tp b (p # ps) tags = Inr (tags @ (if b then [p # ps] else []))"
  by (simp add: push_if_def)

lemma tag_vec_simps [simp]:
  "tag_parser_ok tp \<Longrightarrow> tag_vec tp [p # ps] = Inr [p # ps]"
  "tag_parser_ok tp \<Longrightarrow> tag_vec tp [p # ps, q # qs] = Inr [p # ps, q # qs]"
  "tag_parser_ok tp \<Longrightarrow> tag_vec tp [p # ps, q # qs, r # rs] = Inr [p # ps, q # qs, r # rs]"
  by (simp_all add: tag_vec_def)

lemma new_builder_simps [simp]:
  "eb_kind (new_builder k c ts) = k" "eb_content (new_builder k c ts) = c"
  "eb_tags (new_builder k c ts) = ts" "eb_self_tagging (new_builder k c ts) = False"
  by (simp_all add: new_builder_def)

lemma allow_self_tagging_simps [simp]:
  "eb_kind (allow_self_tagging b) = eb_kind b" "eb_content (allow_self_tagging b) = eb_content b"
  "eb_tags (allow_self_tagging b) = eb_tags b" "eb_self_tagging (allow_self_tagging b)"
  by (simp_all add: allow_self_tagging_def)

lemma shortcode_char_lower: "shortcode_char (to_ascii_lower c) = shortcode_char c"
  by (auto simp: shortcode_char_def to_ascii_lower_def ascii_defs)

lemma shortcode_char_graphic: "shortcode_char c \<Longrightarrow> is_graphic c \<and> c \<noteq> CHR '':''"
  by (auto simp: shortcode_char_def is_graphic_def ascii_defs)

lemma normalize_shortcode_fixed:
  assumes "s \<noteq> []" "length s \<le> 64" "list_all shortcode_char s"
  shows "normalize_custom_emoji_shortcode s = Inr (ascii_lower s)"
proof -
  have hd_last: "shortcode_char (hd s)" "shortcode_char (last s)"
    using assms by (auto simp: list_all_iff)
  then have "trim s = s"
    using assms(1) shortcode_char_graphic by (intro trim_graphic) auto
  moreover have "trim_char CHR '':'' s = s"
  proof -
    have "dropWhile (\<lambda>x. x = CHR '':'') s = s"
      using assms(1) hd_last(1) shortcode_char_graphic by (cases s) auto
    moreover have "dropWhile (\<lambda>x. x = CHR '':'') (rev s) = rev s"
      using assms(1) hd_last(2) shortcode_char_graphic by (cases s rule: rev_cases) auto
    ultimately show ?thesis by (simp add: trim_char_def)
  qed
  ultimately show ?thesis
    using assms by (simp add: normalize_custom_emoji_shortcode_def Let_def)
qed

text \<open>
  Normalising a custom emoji shortcode is idempotent: a normalised code is accepted
  unchanged, so the duplicate check of the emoji set compares what is stored.
\<close>

theorem shortcode_normalisation_idempotent:
  assumes "normalize_custom_emoji_shortcode s = Inr t"
  shows "normalize_custom_emoji_shortcode t = Inr t"
proof -
  let ?u = "trim_char CHR '':'' (trim s)"
  have u: "?u \<noteq> []" "length ?u \<le> 64" "list_all shortcode_char ?u" "t = ascii_lower ?u"
    using assms by (auto simp: normalize_custom_emoji_shortcode_def Let_def split: if_splits)
  then have "t \<noteq> []" "length t \<le> 64" "list_all shortcode_char t"
    by (auto simp: ascii_lower_def list_all_iff shortcode_char_lower)
  then show ?thesis using u(4) by (simp add: normalize_shortcode_fixed)
qed

theorem shortcode_normalisation_idempotent_witness:
  "normalize_custom_emoji_shortcode ''party_parrot'' = Inr ''party_parrot''"
proof -
  have "ascii_lower ''Party_Parrot'' = ''party_parrot''" by code_simp
  moreover have "list_all shortcode_char ''Party_Parrot''" by code_simp
  ultimately have "normalize_custom_emoji_shortcode ''Party_Parrot'' = Inr ''party_parrot''"
    by (simp add: normalize_shortcode_fixed)
  then show ?thesis by (rule shortcode_normalisation_idempotent)
qed

end
