(* ===== verification/SdkMessages.thy ===== *)
theory SdkMessages
  imports SdkChecks
begin

text \<open>
  The channel, message and profile builders of \<open>crates/buzz-sdk/src/builders.rs\<close>: messages,
  forum posts, diffs, edits, deletes, votes, reactions, emoji sets, members, channel
  metadata, notes and contact lists. Each builder checks its inputs in the order of the code,
  then emits its tags. Identifiers are canonical text (\<open>Uuid::to_string\<close>, \<open>EventId::to_hex\<close>).
  The JSON printer of \<open>build_profile\<close> (serde) is the argument \<open>json_object\<close>.
\<close>

section \<open>Parameters\<close>

record thread_ref =
  root_event_id :: string
  parent_event_id :: string

record diff_meta =
  dm_repo_url :: string
  dm_commit_sha :: string
  dm_file_path :: "string option"
  dm_parent_commit :: "string option"
  dm_branch :: "(string \<times> string) option"
  dm_pr_number :: "nat option"
  dm_language :: "string option"
  dm_description :: "string option"
  dm_truncated :: bool
  dm_alt_text :: "string option"

datatype vote_direction = Up | Down

record custom_emoji =
  shortcode :: string
  emoji_url :: string

record delete_message_options =
  action_id :: "uuid option"
  reason_code :: "string option"
  public_reason :: "string option"

definition default_delete_options :: delete_message_options where
  "default_delete_options = \<lparr>action_id = None, reason_code = None, public_reason = None\<rparr>"

definition MENTION_CAP :: nat where
  "MENTION_CAP = 50"

definition MAX_CONTACTS :: nat where
  "MAX_CONTACTS = 10000"

definition CUSTOM_EMOJI_SET_D_TAG :: string where
  "CUSTOM_EMOJI_SET_D_TAG = ''buzz:custom-emoji''"

section \<open>Shared tag groups\<close>

definition thread_tags :: "tag_parser \<Rightarrow> thread_ref \<Rightarrow> tag list \<Rightarrow> tag list sdk" where
  "thread_tags tp thread tags =
     (let root = root_event_id thread; parent = parent_event_id thread in
      if root = parent then push_tag tp [''e'', root, [], ''reply''] tags
      else and_then (push_tag tp [''e'', root, [], ''root''] tags) (\<lambda>tags.
           push_tag tp [''e'', parent, [], ''reply''] tags))"

text \<open>The loop's state: the lower-cased keys seen so far and the tags.\<close>

definition mention_tag :: "tag_parser \<Rightarrow> string \<Rightarrow> string list \<times> tag list \<Rightarrow> (string list \<times> tag list) sdk" where
  "mention_tag tp hex s =
     (case s of (seen, tags) \<Rightarrow>
       let lower = ascii_lower hex in
       if \<not> List.member seen lower
       then and_then (push_tag tp [''p'', lower] tags) (\<lambda>tags. Inr (lower # seen, tags))
       else Inr (seen, tags))"

definition mention_tags :: "tag_parser \<Rightarrow> string list \<Rightarrow> tag list \<Rightarrow> tag list sdk" where
  "mention_tags tp mentions tags =
     (if length mentions > MENTION_CAP then Inl TooManyMentions
      else and_then (try_fold (mention_tag tp) mentions ([], tags)) (\<lambda>(seen, tags). Inr tags))"

definition imeta_tags :: "tag_parser \<Rightarrow> string list list \<Rightarrow> tag list \<Rightarrow> tag list sdk" where
  "imeta_tags tp media_tags tags = try_fold (push_tag tp) media_tags tags"

section \<open>Messages\<close>

definition build_message ::
    "tag_parser \<Rightarrow> uuid \<Rightarrow> string \<Rightarrow> thread_ref option \<Rightarrow> string list \<Rightarrow> bool \<Rightarrow> string list list \<Rightarrow>
     event_builder sdk" where
  "build_message tp channel_id content thread mentions broadcast media_tags =
     and_then (check_content content (64 * 1024)) (\<lambda>_.
     and_then (tag_vec tp [[''h'', channel_id]]) (\<lambda>tags.
     and_then (when_some thread (thread_tags tp) tags) (\<lambda>tags.
     and_then (mention_tags tp mentions tags) (\<lambda>tags.
     and_then (push_if tp broadcast [''broadcast'', ''1''] tags) (\<lambda>tags.
     and_then (imeta_tags tp media_tags tags) (\<lambda>tags.
     Inr (new_builder 9 content tags)))))))"

definition NIP44_MIN_CONTENT_LEN :: nat where
  "NIP44_MIN_CONTENT_LEN = 132"

definition NIP44_MAX_CONTENT_LEN :: nat where
  "NIP44_MAX_CONTENT_LEN = 87472"

definition content_looks_like_nip44 :: "string \<Rightarrow> bool" where
  "content_looks_like_nip44 content \<longleftrightarrow>
     NIP44_MIN_CONTENT_LEN \<le> length content \<and> length content \<le> NIP44_MAX_CONTENT_LEN"

definition build_agent_observer_frame ::
    "tag_parser \<Rightarrow> string \<Rightarrow> string \<Rightarrow> string \<Rightarrow> string \<Rightarrow> event_builder sdk" where
  "build_agent_observer_frame tp recipient agent frame encrypted =
     and_then (refuse_if (frame \<noteq> ''telemetry'' \<and> frame \<noteq> ''control'')
       (InvalidInput ''observer frame must be telemetry or control'')) (\<lambda>_.
     and_then (refuse_if (\<not> content_looks_like_nip44 encrypted)
       (InvalidInput ''observer frame content must be NIP-44 v2 ciphertext'')) (\<lambda>_.
     and_then (check_pubkey_hex recipient ''recipient_pubkey'') (\<lambda>recipient.
     and_then (check_pubkey_hex agent ''agent_pubkey'') (\<lambda>agent.
     and_then (tag_vec tp [[''p'', recipient], [''agent'', agent], [''frame'', frame]]) (\<lambda>tags.
     Inr (new_builder KIND_AGENT_OBSERVER_FRAME encrypted tags))))))"

definition build_forum_post ::
    "tag_parser \<Rightarrow> uuid \<Rightarrow> string \<Rightarrow> string list \<Rightarrow> string list list \<Rightarrow> event_builder sdk" where
  "build_forum_post tp channel_id content mentions media_tags =
     and_then (check_content content (64 * 1024)) (\<lambda>_.
     and_then (tag_vec tp [[''h'', channel_id]]) (\<lambda>tags.
     and_then (mention_tags tp mentions tags) (\<lambda>tags.
     and_then (imeta_tags tp media_tags tags) (\<lambda>tags.
     Inr (new_builder 45001 content tags)))))"

definition build_forum_comment ::
    "tag_parser \<Rightarrow> uuid \<Rightarrow> string \<Rightarrow> thread_ref \<Rightarrow> string list \<Rightarrow> string list list \<Rightarrow> event_builder sdk" where
  "build_forum_comment tp channel_id content thread mentions media_tags =
     and_then (check_content content (64 * 1024)) (\<lambda>_.
     and_then (tag_vec tp [[''h'', channel_id]]) (\<lambda>tags.
     and_then (thread_tags tp thread tags) (\<lambda>tags.
     and_then (mention_tags tp mentions tags) (\<lambda>tags.
     and_then (imeta_tags tp media_tags tags) (\<lambda>tags.
     Inr (new_builder 45003 content tags))))))"

definition branch_incomplete :: "(string \<times> string) option \<Rightarrow> bool" where
  "branch_incomplete b = (case b of Some (src, tgt) \<Rightarrow> src = [] \<or> tgt = [] | None \<Rightarrow> False)"

definition check_diff_meta :: "diff_meta \<Rightarrow> unit sdk" where
  "check_diff_meta m =
     and_then (refuse_if (\<not> is_http_url (dm_repo_url m))
       (InvalidDiffMeta ''repo_url must start with http:// or https://'')) (\<lambda>_.
     and_then (check_hex_len (dm_commit_sha m) 7 ''commit_sha'') (\<lambda>_.
     and_then (check_some (dm_parent_commit m) (\<lambda>pc. check_hex_len pc 7 ''parent_commit'')) (\<lambda>_.
     and_then (refuse_if (branch_incomplete (dm_branch m))
       (InvalidDiffMeta ''branch requires both source and target to be non-empty'')) (\<lambda>_.
     refuse_if (dm_pr_number m = Some 0) (InvalidDiffMeta ''pr_number must be positive'')))))"

definition build_diff_message ::
    "tag_parser \<Rightarrow> uuid \<Rightarrow> string \<Rightarrow> diff_meta \<Rightarrow> thread_ref option \<Rightarrow> event_builder sdk" where
  "build_diff_message tp channel_id content m thread =
     and_then (check_content content (60 * 1024)) (\<lambda>_.
     and_then (check_diff_meta m) (\<lambda>_.
     and_then (tag_vec tp [[''h'', channel_id], [''repo'', dm_repo_url m], [''commit'', dm_commit_sha m]]) (\<lambda>tags.
     and_then (push_opt tp ''file'' (dm_file_path m) tags) (\<lambda>tags.
     and_then (push_opt tp ''parent-commit'' (dm_parent_commit m) tags) (\<lambda>tags.
     and_then (when_some (dm_branch m) (\<lambda>(src, tgt). push_tag tp [''branch'', src, tgt]) tags) (\<lambda>tags.
     and_then (push_opt tp ''pr'' (map_option decimal (dm_pr_number m)) tags) (\<lambda>tags.
     and_then (push_opt tp ''l'' (dm_language m) tags) (\<lambda>tags.
     and_then (push_opt tp ''description'' (dm_description m) tags) (\<lambda>tags.
     and_then (push_if tp (dm_truncated m) [''truncated'', ''true''] tags) (\<lambda>tags.
     and_then (push_opt tp ''alt'' (dm_alt_text m) tags) (\<lambda>tags.
     and_then (when_some thread (thread_tags tp) tags) (\<lambda>tags.
     Inr (new_builder 40008 content tags)))))))))))))"

definition build_edit :: "tag_parser \<Rightarrow> uuid \<Rightarrow> string \<Rightarrow> string \<Rightarrow> event_builder sdk" where
  "build_edit tp channel_id target new_content =
     and_then (check_content new_content (64 * 1024)) (\<lambda>_.
     and_then (tag_vec tp [[''h'', channel_id], [''e'', target]]) (\<lambda>tags.
     Inr (new_builder 40003 new_content tags)))"

definition build_delete_message_with_options ::
    "tag_parser \<Rightarrow> uuid \<Rightarrow> string \<Rightarrow> delete_message_options \<Rightarrow> event_builder sdk" where
  "build_delete_message_with_options tp channel_id target options =
     and_then (tag_vec tp [[''h'', channel_id], [''e'', target]]) (\<lambda>tags.
     and_then (push_opt tp ''action_id'' (action_id options) tags) (\<lambda>tags.
     and_then (push_opt tp ''reason_code'' (reason_code options) tags) (\<lambda>tags.
     and_then (push_opt tp ''public_reason'' (public_reason options) tags) (\<lambda>tags.
     Inr (new_builder 9005 [] tags)))))"

definition build_delete_message :: "tag_parser \<Rightarrow> uuid \<Rightarrow> string \<Rightarrow> event_builder sdk" where
  "build_delete_message tp channel_id target =
     build_delete_message_with_options tp channel_id target default_delete_options"

definition build_delete_compat :: "tag_parser \<Rightarrow> uuid \<Rightarrow> string \<Rightarrow> event_builder sdk" where
  "build_delete_compat tp channel_id target =
     and_then (tag_vec tp [[''h'', channel_id], [''e'', target]]) (\<lambda>tags.
     Inr (new_builder 5 [] tags))"

definition build_vote :: "tag_parser \<Rightarrow> uuid \<Rightarrow> string \<Rightarrow> vote_direction \<Rightarrow> event_builder sdk" where
  "build_vote tp channel_id target direction =
     (let content = (case direction of Up \<Rightarrow> ''+'' | Down \<Rightarrow> ''-'') in
      and_then (tag_vec tp [[''h'', channel_id], [''e'', target]]) (\<lambda>tags.
      Inr (new_builder 45002 content tags)))"

definition build_reaction :: "tag_parser \<Rightarrow> string \<Rightarrow> string \<Rightarrow> event_builder sdk" where
  "build_reaction tp target emoji =
     (if char_count emoji > 64 then Inl EmojiTooLong
      else and_then (tag_vec tp [[''e'', target]]) (\<lambda>tags.
           Inr (new_builder 7 emoji tags)))"

definition build_custom_emoji_reaction ::
    "tag_parser \<Rightarrow> string \<Rightarrow> string \<Rightarrow> string \<Rightarrow> event_builder sdk" where
  "build_custom_emoji_reaction tp target code url =
     and_then (normalize_custom_emoji_shortcode code) (\<lambda>code.
     and_then (check_custom_emoji_url url) (\<lambda>_.
     and_then (tag_vec tp [[''e'', target], [''emoji'', code, url]]) (\<lambda>tags.
     Inr (new_builder 7 ('':'' @ code @ '':'') tags))))"

definition build_remove_reaction :: "tag_parser \<Rightarrow> string \<Rightarrow> event_builder sdk" where
  "build_remove_reaction tp reaction =
     and_then (tag_vec tp [[''e'', reaction]]) (\<lambda>tags. Inr (new_builder 5 [] tags))"

text \<open>One turn of the emoji loop: the codes seen so far and the tags.\<close>

definition emoji_set_tag ::
    "tag_parser \<Rightarrow> custom_emoji \<Rightarrow> string list \<times> tag list \<Rightarrow> (string list \<times> tag list) sdk" where
  "emoji_set_tag tp emoji s =
     (case s of (seen, tags) \<Rightarrow>
       and_then (normalize_custom_emoji_shortcode (shortcode emoji)) (\<lambda>code.
       and_then (check_custom_emoji_url (emoji_url emoji)) (\<lambda>_.
       and_then (refuse_if (List.member seen code)
         (InvalidInput (''duplicate emoji shortcode: '' @ code))) (\<lambda>_.
       and_then (push_tag tp [''emoji'', code, emoji_url emoji] tags) (\<lambda>tags.
       Inr (code # seen, tags))))))"

definition build_custom_emoji_set :: "tag_parser \<Rightarrow> custom_emoji list \<Rightarrow> event_builder sdk" where
  "build_custom_emoji_set tp emojis =
     and_then (tag_vec tp [[''d'', CUSTOM_EMOJI_SET_D_TAG]]) (\<lambda>tags.
     and_then (try_fold (emoji_set_tag tp) emojis ([], tags)) (\<lambda>(seen, tags).
     Inr (new_builder KIND_EMOJI_SET [] tags)))"

definition build_set_canvas :: "tag_parser \<Rightarrow> uuid \<Rightarrow> string \<Rightarrow> event_builder sdk" where
  "build_set_canvas tp channel_id content =
     and_then (tag_vec tp [[''h'', channel_id]]) (\<lambda>tags. Inr (new_builder 40100 content tags))"

section \<open>Profiles, members and channels\<close>

definition insert_some :: "string \<Rightarrow> string option \<Rightarrow> (string, string) hmap \<Rightarrow> (string, string) hmap" where
  "insert_some k o' m = (case o' of Some v \<Rightarrow> hinsert k v m | None \<Rightarrow> m)"

definition build_profile ::
    "((string, string) hmap \<Rightarrow> string) \<Rightarrow> string option \<Rightarrow> string option \<Rightarrow> string option \<Rightarrow>
     string option \<Rightarrow> string option \<Rightarrow> event_builder sdk" where
  "build_profile json_object display_name name picture about nip05 =
     (let m = insert_some ''nip05'' nip05 (insert_some ''about'' about (insert_some ''picture'' picture
                (insert_some ''name'' name (insert_some ''display_name'' display_name []))))
      in Inr (new_builder 0 (json_object m) []))"

definition build_add_member :: "tag_parser \<Rightarrow> uuid \<Rightarrow> string \<Rightarrow> member_role option \<Rightarrow> event_builder sdk" where
  "build_add_member tp channel_id target role =
     and_then (check_hex_len target 64 ''target_pubkey'') (\<lambda>_.
     and_then (tag_vec tp [[''h'', channel_id], [''p'', ascii_lower target]]) (\<lambda>tags.
     and_then (push_opt tp ''role'' (map_option role_as_str role) tags) (\<lambda>tags.
     Inr (new_builder 9000 [] tags))))"

definition build_remove_member :: "tag_parser \<Rightarrow> uuid \<Rightarrow> string \<Rightarrow> event_builder sdk" where
  "build_remove_member tp channel_id target =
     and_then (check_hex_len target 64 ''target_pubkey'') (\<lambda>_.
     and_then (tag_vec tp [[''h'', channel_id], [''p'', ascii_lower target]]) (\<lambda>tags.
     Inr (new_builder 9001 [] tags)))"

definition build_leave :: "tag_parser \<Rightarrow> uuid \<Rightarrow> event_builder sdk" where
  "build_leave tp channel_id =
     and_then (tag_vec tp [[''h'', channel_id]]) (\<lambda>tags. Inr (new_builder 9022 [] tags))"

definition ttl_tag :: "int option \<Rightarrow> string list" where
  "ttl_tag ttl = (case ttl of Some secs \<Rightarrow> [''ttl'', int_decimal secs] | None \<Rightarrow> [''ttl'', []])"

definition build_update_channel ::
    "tag_parser \<Rightarrow> uuid \<Rightarrow> string option \<Rightarrow> string option \<Rightarrow> string option \<Rightarrow> int option option \<Rightarrow>
     event_builder sdk" where
  "build_update_channel tp channel_id name about visibility ttl =
     and_then (refuse_if (name = None \<and> about = None \<and> visibility = None \<and> ttl = None)
       (InvalidTag ''at least one of name, about, visibility, or ttl must be provided'')) (\<lambda>_.
     and_then (check_some visibility (\<lambda>v. refuse_if (v \<noteq> ''open'' \<and> v \<noteq> ''private'')
       (InvalidTag ''visibility must be \"open\" or \"private\"''))) (\<lambda>_.
     and_then (check_some (map_option canonical_channel_name name) (\<lambda>n. refuse_if (trim n = [])
       (InvalidTag ''channel name is required''))) (\<lambda>_.
     and_then (tag_vec tp [[''h'', channel_id]]) (\<lambda>tags.
     and_then (push_opt tp ''name'' (map_option canonical_channel_name name) tags) (\<lambda>tags.
     and_then (push_opt tp ''about'' about tags) (\<lambda>tags.
     and_then (push_opt tp ''visibility'' visibility tags) (\<lambda>tags.
     and_then (when_some ttl (\<lambda>t. push_tag tp (ttl_tag t)) tags) (\<lambda>tags.
     Inr (new_builder 9002 [] tags)))))))))"

definition build_set_topic :: "tag_parser \<Rightarrow> uuid \<Rightarrow> string \<Rightarrow> event_builder sdk" where
  "build_set_topic tp channel_id topic =
     and_then (tag_vec tp [[''h'', channel_id], [''topic'', topic]]) (\<lambda>tags.
     Inr (new_builder 9002 [] tags))"

definition build_set_purpose :: "tag_parser \<Rightarrow> uuid \<Rightarrow> string \<Rightarrow> event_builder sdk" where
  "build_set_purpose tp channel_id purpose =
     and_then (tag_vec tp [[''h'', channel_id], [''purpose'', purpose]]) (\<lambda>tags.
     Inr (new_builder 9002 [] tags))"

definition build_create_channel ::
    "tag_parser \<Rightarrow> uuid \<Rightarrow> string \<Rightarrow> channel_visibility option \<Rightarrow> channel_type option \<Rightarrow> string option \<Rightarrow>
     int option \<Rightarrow> event_builder sdk" where
  "build_create_channel tp channel_id name visibility ctype about ttl =
     (let name = canonical_channel_name name in
      and_then (refuse_if (trim name = []) (InvalidTag ''channel name is required'')) (\<lambda>_.
      and_then (tag_vec tp [[''h'', channel_id], [''name'', name]]) (\<lambda>tags.
      and_then (push_opt tp ''visibility'' (map_option visibility_as_str visibility) tags) (\<lambda>tags.
      and_then (push_opt tp ''channel_type'' (map_option channel_type_as_str ctype) tags) (\<lambda>tags.
      and_then (push_opt tp ''about'' about tags) (\<lambda>tags.
      and_then (push_opt tp ''ttl'' (map_option int_decimal ttl) tags) (\<lambda>tags.
      Inr (new_builder 9007 [] tags))))))))"

definition build_join :: "tag_parser \<Rightarrow> uuid \<Rightarrow> event_builder sdk" where
  "build_join tp channel_id =
     and_then (tag_vec tp [[''h'', channel_id]]) (\<lambda>tags. Inr (new_builder 9021 [] tags))"

definition build_archive :: "tag_parser \<Rightarrow> uuid \<Rightarrow> event_builder sdk" where
  "build_archive tp channel_id =
     and_then (tag_vec tp [[''h'', channel_id], [''archived'', ''true'']]) (\<lambda>tags.
     Inr (new_builder 9002 [] tags))"

definition build_unarchive :: "tag_parser \<Rightarrow> uuid \<Rightarrow> event_builder sdk" where
  "build_unarchive tp channel_id =
     and_then (tag_vec tp [[''h'', channel_id], [''archived'', ''false'']]) (\<lambda>tags.
     Inr (new_builder 9002 [] tags))"

definition build_delete_channel :: "tag_parser \<Rightarrow> uuid \<Rightarrow> event_builder sdk" where
  "build_delete_channel tp channel_id =
     and_then (tag_vec tp [[''h'', channel_id]]) (\<lambda>tags. Inr (new_builder 9008 [] tags))"

definition build_note :: "tag_parser \<Rightarrow> string \<Rightarrow> string option \<Rightarrow> event_builder sdk" where
  "build_note tp content reply_to =
     and_then (check_content content (64 * 1024)) (\<lambda>_.
     and_then (when_some reply_to (\<lambda>r. push_tag tp [''e'', r, [], ''reply'']) []) (\<lambda>tags.
     Inr (new_builder 1 content tags)))"

text \<open>A contact: key, relay URL, pet name. The loop's state is the seen keys and the tags.\<close>

type_synonym contact = "string \<times> string option \<times> string option"

definition contact_tag ::
    "tag_parser \<Rightarrow> contact \<Rightarrow> string list \<times> tag list \<Rightarrow> (string list \<times> tag list) sdk" where
  "contact_tag tp c s =
     (case c of (key, relay_url, petname) \<Rightarrow>
      case s of (seen, tags) \<Rightarrow>
       and_then (refuse_if (length key \<noteq> 64 \<or> \<not> list_all is_ascii_hexdigit key)
         (InvalidInput ''contact pubkey must be exactly 64 hex chars'')) (\<lambda>_.
       and_then (check_some relay_url (\<lambda>url. refuse_if (length url > 2048)
         (InvalidInput ''relay_url exceeds 2048 bytes''))) (\<lambda>_.
       and_then (check_some petname (\<lambda>name. refuse_if (length name > 256)
         (InvalidInput ''petname exceeds 256 bytes''))) (\<lambda>_.
       let lower = ascii_lower key in
       if List.member seen lower then Inr (seen, tags)
       else and_then (push_tag tp [''p'', lower, or_empty relay_url, or_empty petname] tags) (\<lambda>tags.
            Inr (lower # seen, tags))))))"

definition build_contact_list :: "tag_parser \<Rightarrow> contact list \<Rightarrow> event_builder sdk" where
  "build_contact_list tp contacts =
     and_then (refuse_if (length contacts > MAX_CONTACTS)
       (InvalidInput ''contact list exceeds maximum of 10000 contacts'')) (\<lambda>_.
     and_then (try_fold (contact_tag tp) contacts ([], [])) (\<lambda>(seen, tags).
     Inr (new_builder 3 [] tags)))"

text \<open>The channel of an event, as clients read it: the first \<open>h\<close> tag with a valid UUID.\<close>

definition sdk_extract_channel_id :: "(string \<Rightarrow> uuid option) \<Rightarrow> nostr_event \<Rightarrow> uuid option" where
  "sdk_extract_channel_id parse_uuid ev =
     List.find (\<lambda>_. True) (List.map_filter (\<lambda>t.
       case t of k # rest \<Rightarrow>
           if k = ''h'' then (case rest of v # _ \<Rightarrow> parse_uuid v | [] \<Rightarrow> None) else None
         | [] \<Rightarrow> None) (ev_tags ev))"

end
