(* ===== verification/SdkGit.thy ===== *)
theory SdkGit
  imports SdkMessages
begin

text \<open>
  The NIP-34 git builders of \<open>crates/buzz-sdk/src/builders.rs\<close>: repository announcements,
  patches, issues, statuses, pull requests and their updates, with the metadata structs they
  take and the parser of applied-patch references. UUID parsing is the argument
  \<open>parse_uuid\<close>, which returns the canonical text.
\<close>

section \<open>Repository announcements\<close>

definition check_max_len :: "string \<Rightarrow> nat \<Rightarrow> string \<Rightarrow> unit sdk" where
  "check_max_len v lim msg = refuse_if (length v > lim) (InvalidInput msg)"

definition check_clone_url :: "string \<Rightarrow> unit sdk" where
  "check_clone_url url =
     and_then (refuse_if (url = []) (InvalidInput ''clone_url must not be empty'')) (\<lambda>_.
     check_max_len url 512 ''clone_url exceeds 512 characters'')"

definition check_web_url :: "string \<Rightarrow> unit sdk" where
  "check_web_url url =
     and_then (refuse_if (\<not> is_http_url url)
       (InvalidInput ''web_url must start with http:// or https://'')) (\<lambda>_.
     check_max_len url 512 ''web_url exceeds 512 characters'')"

definition check_relay_url :: "string \<Rightarrow> unit sdk" where
  "check_relay_url relay =
     and_then (refuse_if (\<not> starts_with ''ws://'' relay \<and> \<not> starts_with ''wss://'' relay)
       (InvalidInput ''relay must start with ws:// or wss://'')) (\<lambda>_.
     check_max_len relay 256 ''relay exceeds 256 characters'')"

definition build_repo_announcement ::
    "tag_parser \<Rightarrow> string \<Rightarrow> string option \<Rightarrow> string option \<Rightarrow> string list \<Rightarrow> string option \<Rightarrow> string list \<Rightarrow>
     event_builder sdk" where
  "build_repo_announcement tp repo_id name description clone_urls web_url relays =
     and_then (check_repo_id repo_id) (\<lambda>_.
     and_then (check_some name (\<lambda>n. check_max_len n 128 ''name exceeds 128 characters'')) (\<lambda>_.
     and_then (check_some description (\<lambda>d. check_max_len d 1024 ''description exceeds 1024 characters'')) (\<lambda>_.
     and_then (refuse_if (length clone_urls > 5) (InvalidInput ''too many clone_urls (max 5)'')) (\<lambda>_.
     and_then (try_all check_clone_url clone_urls) (\<lambda>_.
     and_then (check_some web_url check_web_url) (\<lambda>_.
     and_then (refuse_if (length relays > 10) (InvalidInput ''too many relays (max 10)'')) (\<lambda>_.
     and_then (try_all check_relay_url relays) (\<lambda>_.
     and_then (tag_vec tp [[''d'', repo_id]]) (\<lambda>tags.
     and_then (push_opt tp ''name'' name tags) (\<lambda>tags.
     and_then (push_opt tp ''description'' description tags) (\<lambda>tags.
     and_then (push_if tp (clone_urls \<noteq> []) (''clone'' # clone_urls) tags) (\<lambda>tags.
     and_then (push_opt tp ''web'' web_url tags) (\<lambda>tags.
     and_then (push_if tp (relays \<noteq> []) (''relays'' # relays) tags) (\<lambda>tags.
     Inr (new_builder KIND_GIT_REPO_ANNOUNCEMENT [] tags)))))))))))))))"

definition build_repo_announcement_with_tags ::
    "tag_parser \<Rightarrow> string \<Rightarrow> string \<Rightarrow> tag list \<Rightarrow> event_builder sdk" where
  "build_repo_announcement_with_tags tp repo_id content tags =
     and_then (check_repo_id repo_id) (\<lambda>_.
     let kept = filter (\<lambda>t. t = [] \<or> hd t \<noteq> ''d'') tags in
     and_then (mk_tag tp [''d'', repo_id]) (\<lambda>d.
     Inr (new_builder KIND_GIT_REPO_ANNOUNCEMENT content (d # kept))))"

section \<open>Coordinates and metadata\<close>

record git_repo_coord =
  coord_owner :: string
  coord_id :: string

definition to_a_tag_value :: "git_repo_coord \<Rightarrow> string sdk" where
  "to_a_tag_value c =
     and_then (check_pubkey_hex (coord_owner c) ''repo owner'') (\<lambda>owner.
     and_then (check_repo_id (coord_id c)) (\<lambda>_.
     Inr (''30617:'' @ owner @ '':'' @ coord_id c)))"

record git_patch_meta =
  gp_euc :: "string option"
  gp_recipients :: "string list"
  gp_reply_to :: "string option"
  gp_root :: bool
  gp_root_revision :: bool
  gp_commit :: "string option"
  gp_parent_commit :: "string option"
  gp_commit_pgp_sig :: "string option"
  gp_committer :: "(string \<times> string \<times> string \<times> string) option"

text \<open>\<open>if let Some(euc)\<close> and the loop over the recipients, which several builders repeat.\<close>

definition euc_tag :: "tag_parser \<Rightarrow> string list \<Rightarrow> string option \<Rightarrow> tag list \<Rightarrow> tag list sdk" where
  "euc_tag tp marker euc tags =
     when_some euc (\<lambda>e tags. and_then (check_commit_hex e ''euc'') (\<lambda>_.
       push_tag tp ([''r'', e] @ marker) tags)) tags"

definition recipient_tag :: "tag_parser \<Rightarrow> string \<Rightarrow> tag list \<Rightarrow> tag list sdk" where
  "recipient_tag tp r tags =
     and_then (check_pubkey_hex r ''recipient'') (\<lambda>pk. push_tag tp [''p'', pk] tags)"

definition build_git_patch ::
    "tag_parser \<Rightarrow> git_repo_coord \<Rightarrow> string \<Rightarrow> git_patch_meta \<Rightarrow> event_builder sdk" where
  "build_git_patch tp repo content m =
     and_then (refuse_if (trim content = [])
       (InvalidInput ''patch content must not be empty'')) (\<lambda>_.
     and_then (check_content content (60 * 1024)) (\<lambda>_.
     and_then (to_a_tag_value repo) (\<lambda>a_value.
     and_then (check_pubkey_hex (coord_owner repo) ''repo owner'') (\<lambda>owner.
     and_then (tag_vec tp [[''a'', a_value]]) (\<lambda>tags.
     and_then (euc_tag tp [''euc''] (gp_euc m) tags) (\<lambda>tags.
     and_then (push_tag tp [''p'', owner] tags) (\<lambda>tags.
     and_then (try_fold (recipient_tag tp) (gp_recipients m) tags) (\<lambda>tags.
     and_then (when_some (gp_reply_to m) (\<lambda>prev tags.
         and_then (check_hex_exact prev 64 ''reply_to'') (\<lambda>event_id.
         push_tag tp [''e'', event_id, [], ''reply''] tags)) tags) (\<lambda>tags.
     and_then (refuse_if (gp_root m \<and> gp_root_revision m)
       (InvalidInput ''patch cannot be both --root and --root-revision'')) (\<lambda>_.
     and_then (push_if tp (gp_root m) [''t'', ''root''] tags) (\<lambda>tags.
     and_then (push_if tp (gp_root_revision m) [''t'', ''root-revision''] tags) (\<lambda>tags.
     and_then (when_some (gp_commit m) (\<lambda>commit tags.
         and_then (check_commit_hex commit ''commit'') (\<lambda>_.
         and_then (push_tag tp [''commit'', commit] tags) (\<lambda>tags.
         push_tag tp [''r'', commit] tags))) tags) (\<lambda>tags.
     and_then (when_some (gp_parent_commit m) (\<lambda>p tags.
         and_then (check_commit_hex p ''parent_commit'') (\<lambda>_.
         push_tag tp [''parent-commit'', p] tags)) tags) (\<lambda>tags.
     and_then (push_opt tp ''commit-pgp-sig'' (gp_commit_pgp_sig m) tags) (\<lambda>tags.
     and_then (when_some (gp_committer m) (\<lambda>(name, email, ts, tz).
         push_tag tp [''committer'', name, email, ts, tz]) tags) (\<lambda>tags.
     Inr (new_builder KIND_GIT_PATCH content tags)))))))))))))))))"

record git_issue_meta =
  gi_labels :: "string list"
  gi_recipients :: "string list"

definition check_subject :: "string \<Rightarrow> unit sdk" where
  "check_subject subject =
     and_then (refuse_if (subject = []) (InvalidInput ''subject must not be empty'')) (\<lambda>_.
     check_max_len subject 256 ''subject exceeds 256 characters'')"

definition label_tag :: "tag_parser \<Rightarrow> string \<Rightarrow> tag list \<Rightarrow> tag list sdk" where
  "label_tag tp label tags = push_tag tp [''t'', label] tags"

definition build_git_issue ::
    "tag_parser \<Rightarrow> git_repo_coord \<Rightarrow> string \<Rightarrow> string \<Rightarrow> git_issue_meta \<Rightarrow> event_builder sdk" where
  "build_git_issue tp repo subject content m =
     and_then (check_content content (64 * 1024)) (\<lambda>_.
     and_then (check_subject subject) (\<lambda>_.
     and_then (to_a_tag_value repo) (\<lambda>a_value.
     and_then (check_pubkey_hex (coord_owner repo) ''repo owner'') (\<lambda>owner.
     and_then (tag_vec tp [[''a'', a_value], [''p'', owner]]) (\<lambda>tags.
     and_then (try_fold (recipient_tag tp) (gi_recipients m) tags) (\<lambda>tags.
     and_then (push_tag tp [''subject'', subject] tags) (\<lambda>tags.
     and_then (try_fold (label_tag tp) (gi_labels m) tags) (\<lambda>tags.
     Inr (new_builder KIND_GIT_ISSUE content tags)))))))))"

section \<open>Statuses\<close>

datatype git_status = GitOpen | AppliedOrResolved | GitClosed | GitDraft

definition git_status_kind :: "git_status \<Rightarrow> nat" where
  "git_status_kind s =
     (case s of GitOpen \<Rightarrow> KIND_GIT_STATUS_OPEN | AppliedOrResolved \<Rightarrow> KIND_GIT_STATUS_MERGED
      | GitClosed \<Rightarrow> KIND_GIT_STATUS_CLOSED | GitDraft \<Rightarrow> KIND_GIT_STATUS_DRAFT)"

record git_applied_patch_ref =
  ap_id :: string
  ap_relay :: "string option"
  ap_pubkey :: "string option"

definition applied_patch_ref_parse :: "string \<Rightarrow> git_applied_patch_ref" where
  "applied_patch_ref_parse spec =
     (case splitn3 CHR '':'' spec of (i, rest, _) \<Rightarrow>
       (case rest of
          None \<Rightarrow> \<lparr>ap_id = i, ap_relay = None, ap_pubkey = None\<rparr>
        | Some _ \<Rightarrow>
            let rest_str = drop (length i + 1) spec in
            (case rsplit_once CHR '':'' rest_str of
               Some (relay, candidate) \<Rightarrow>
                 if length candidate = 64 \<and> list_all is_ascii_hexdigit candidate
                 then \<lparr>ap_id = i, ap_relay = Some relay, ap_pubkey = Some (ascii_lower candidate)\<rparr>
                 else \<lparr>ap_id = i, ap_relay = Some rest_str, ap_pubkey = None\<rparr>
             | None \<Rightarrow> \<lparr>ap_id = i, ap_relay = Some rest_str, ap_pubkey = None\<rparr>)))"

record git_status_meta =
  gs_root_event :: string
  gs_accepted_revision_root :: "string option"
  gs_repo :: "git_repo_coord option"
  gs_euc :: "string option"
  gs_recipients :: "string list"
  gs_applied_patches :: "git_applied_patch_ref list"
  gs_merge_commit :: "string option"
  gs_applied_as_commits :: "string list"

definition applied_patch_tag ::
    "tag_parser \<Rightarrow> git_applied_patch_ref \<Rightarrow> tag list \<Rightarrow> tag list sdk" where
  "applied_patch_tag tp r tags =
     and_then (check_hex_exact (ap_id r) 64 ''applied_patch'') (\<lambda>patch_id.
     (case ap_relay r of
        None \<Rightarrow> (case ap_pubkey r of
            None \<Rightarrow> push_tag tp [''q'', patch_id] tags
          | Some _ \<Rightarrow> Inl (InvalidInput ''applied_patch pubkey hint requires a relay-url hint''))
      | Some relay \<Rightarrow> (case ap_pubkey r of
            None \<Rightarrow> push_tag tp [''q'', patch_id, relay] tags
          | Some k \<Rightarrow> and_then (check_pubkey_hex k ''applied_patch pubkey'') (\<lambda>k.
              push_tag tp [''q'', patch_id, relay, k] tags))))"

definition applied_commits_tags :: "tag_parser \<Rightarrow> string list \<Rightarrow> tag list \<Rightarrow> tag list sdk" where
  "applied_commits_tags tp commits tags =
     (if commits = [] then Inr tags
      else and_then (try_all (\<lambda>c. check_commit_hex c ''applied_as_commit'') commits) (\<lambda>_.
           and_then (push_tag tp (''applied-as-commits'' # commits) tags) (\<lambda>tags.
           try_fold (\<lambda>c. push_tag tp [''r'', c]) commits tags)))"

definition build_git_status ::
    "tag_parser \<Rightarrow> git_status \<Rightarrow> string \<Rightarrow> git_status_meta \<Rightarrow> event_builder sdk" where
  "build_git_status tp status content m =
     and_then (check_content content (64 * 1024)) (\<lambda>_.
     and_then (check_hex_exact (gs_root_event m) 64 ''root_event'') (\<lambda>root.
     and_then (tag_vec tp [[''e'', root, [], ''root'']]) (\<lambda>tags.
     and_then (when_some (gs_accepted_revision_root m) (\<lambda>r tags.
         and_then (check_hex_exact r 64 ''accepted_revision_root'') (\<lambda>r.
         push_tag tp [''e'', r, [], ''reply''] tags)) tags) (\<lambda>tags.
     and_then (try_fold (recipient_tag tp) (gs_recipients m) tags) (\<lambda>tags.
     and_then (when_some (gs_repo m) (\<lambda>repo tags.
         and_then (to_a_tag_value repo) (\<lambda>a_value. push_tag tp [''a'', a_value] tags)) tags) (\<lambda>tags.
     and_then (euc_tag tp [] (gs_euc m) tags) (\<lambda>tags.
     and_then (refuse_if (status \<noteq> AppliedOrResolved \<and>
           (gs_applied_patches m \<noteq> [] \<or> gs_merge_commit m \<noteq> None \<or> gs_applied_as_commits m \<noteq> []))
       (InvalidInput ''applied_patches/merge_commit/applied_as_commits only apply to the merged/resolved status'')) (\<lambda>_.
     and_then (try_fold (applied_patch_tag tp) (gs_applied_patches m) tags) (\<lambda>tags.
     and_then (when_some (gs_merge_commit m) (\<lambda>c tags.
         and_then (check_commit_hex c ''merge_commit'') (\<lambda>_.
         and_then (push_tag tp [''merge-commit'', c] tags) (\<lambda>tags.
         push_tag tp [''r'', c] tags))) tags) (\<lambda>tags.
     and_then (applied_commits_tags tp (gs_applied_as_commits m) tags) (\<lambda>tags.
     Inr (new_builder (git_status_kind status) content tags))))))))))))"

section \<open>Pull requests\<close>

record git_pull_request_meta =
  pr_euc :: "string option"
  pr_recipients :: "string list"
  pr_channel_id :: "string option"
  pr_subject :: string
  pr_labels :: "string list"
  pr_commit :: string
  pr_clone_urls :: "string list"
  pr_branch_name :: "string option"
  pr_merge_base :: "string option"
  pr_revision_of :: "string option"

definition merge_base_tag :: "tag_parser \<Rightarrow> string option \<Rightarrow> tag list \<Rightarrow> tag list sdk" where
  "merge_base_tag tp base tags =
     when_some base (\<lambda>b tags. and_then (check_commit_hex b ''merge_base'') (\<lambda>_.
       push_tag tp [''merge-base'', b] tags)) tags"

definition build_git_pull_request ::
    "(string \<Rightarrow> uuid option) \<Rightarrow> tag_parser \<Rightarrow> git_repo_coord \<Rightarrow> string \<Rightarrow> git_pull_request_meta \<Rightarrow>
     event_builder sdk" where
  "build_git_pull_request parse_uuid tp repo content m =
     and_then (check_content content (64 * 1024)) (\<lambda>_.
     and_then (check_subject (pr_subject m)) (\<lambda>_.
     and_then (check_commit_hex (pr_commit m) ''commit'') (\<lambda>_.
     and_then (refuse_if (pr_clone_urls m = [])
       (InvalidInput ''a pull request needs at least one --clone url where the tip commit can be fetched'')) (\<lambda>_.
     and_then (to_a_tag_value repo) (\<lambda>a_value.
     and_then (check_pubkey_hex (coord_owner repo) ''repo owner'') (\<lambda>owner.
     and_then (tag_vec tp [[''a'', a_value]]) (\<lambda>tags.
     and_then (euc_tag tp [] (pr_euc m) tags) (\<lambda>tags.
     and_then (push_tag tp [''p'', owner] tags) (\<lambda>tags.
     and_then (try_fold (recipient_tag tp) (pr_recipients m) tags) (\<lambda>tags.
     and_then (push_tag tp [''subject'', pr_subject m] tags) (\<lambda>tags.
     and_then (try_fold (label_tag tp) (pr_labels m) tags) (\<lambda>tags.
     and_then (push_tag tp [''c'', pr_commit m] tags) (\<lambda>tags.
     and_then (when_some (pr_channel_id m) (\<lambda>c tags.
         (case parse_uuid c of
            None \<Rightarrow> Inl (InvalidInput ''channel_id must be a valid UUID'')
          | Some c \<Rightarrow> push_tag tp [''h'', c] tags)) tags) (\<lambda>tags.
     and_then (push_tag tp (''clone'' # pr_clone_urls m) tags) (\<lambda>tags.
     and_then (push_opt tp ''branch-name'' (pr_branch_name m) tags) (\<lambda>tags.
     and_then (merge_base_tag tp (pr_merge_base m) tags) (\<lambda>tags.
     and_then (when_some (pr_revision_of m) (\<lambda>p tags.
         and_then (check_hex_exact p 64 ''revision_of'') (\<lambda>p. push_tag tp [''e'', p] tags)) tags) (\<lambda>tags.
     Inr (new_builder KIND_GIT_PULL_REQUEST content tags)))))))))))))))))))"

record git_pr_update_meta =
  pu_euc :: "string option"
  pu_recipients :: "string list"
  pu_pr_event :: string
  pu_pr_author :: string
  pu_commit :: string
  pu_clone_urls :: "string list"
  pu_merge_base :: "string option"

definition build_git_pr_update ::
    "tag_parser \<Rightarrow> git_repo_coord \<Rightarrow> string \<Rightarrow> git_pr_update_meta \<Rightarrow> event_builder sdk" where
  "build_git_pr_update tp repo content m =
     and_then (check_content content (64 * 1024)) (\<lambda>_.
     and_then (check_hex_exact (pu_pr_event m) 64 ''pr_event'') (\<lambda>pr_event.
     and_then (check_pubkey_hex (pu_pr_author m) ''pr_author'') (\<lambda>pr_author.
     and_then (check_commit_hex (pu_commit m) ''commit'') (\<lambda>_.
     and_then (refuse_if (pu_clone_urls m = [])
       (InvalidInput ''a pull request update needs at least one --clone url where the tip commit can be fetched'')) (\<lambda>_.
     and_then (to_a_tag_value repo) (\<lambda>a_value.
     and_then (check_pubkey_hex (coord_owner repo) ''repo owner'') (\<lambda>owner.
     and_then (tag_vec tp [[''a'', a_value]]) (\<lambda>tags.
     and_then (euc_tag tp [] (pu_euc m) tags) (\<lambda>tags.
     and_then (push_tag tp [''p'', owner] tags) (\<lambda>tags.
     and_then (try_fold (recipient_tag tp) (pu_recipients m) tags) (\<lambda>tags.
     and_then (push_tag tp [''E'', pr_event] tags) (\<lambda>tags.
     and_then (push_tag tp [''P'', pr_author] tags) (\<lambda>tags.
     and_then (push_tag tp [''c'', pu_commit m] tags) (\<lambda>tags.
     and_then (push_tag tp (''clone'' # pu_clone_urls m) tags) (\<lambda>tags.
     and_then (merge_base_tag tp (pu_merge_base m) tags) (\<lambda>tags.
     Inr (new_builder KIND_GIT_PR_UPDATE content tags)))))))))))))))))"

section \<open>Applied-patch references\<close>

text \<open>The three spellings that \<open>GitAppliedPatchRef::parse\<close> documents.\<close>

definition patch_ref_text :: "git_applied_patch_ref \<Rightarrow> string" where
  "patch_ref_text r =
     ap_id r @ (case ap_relay r of
                  None \<Rightarrow> []
                | Some relay \<Rightarrow> '':'' @ relay @ (case ap_pubkey r of None \<Rightarrow> [] | Some k \<Rightarrow> '':'' @ k))"

definition ends_in_key :: "string \<Rightarrow> bool" where
  "ends_in_key s \<longleftrightarrow>
     (case rsplit_once CHR '':'' s of
        Some (_, k) \<Rightarrow> length k = 64 \<and> list_all is_ascii_hexdigit k | None \<Rightarrow> False)"

lemma splitn3_head: "CHR '':'' \<notin> set i \<Longrightarrow> \<exists>b r. splitn3 CHR '':'' (i @ CHR '':'' # s) = (i, Some b, r)"
  by (simp add: splitn3_def split: prod.split)

lemma lower_hex_fixed: "is_lower_hex 64 k \<Longrightarrow> ascii_lower k = k"
  by (induction k) (auto simp: is_lower_hex_def ascii_lower_def to_ascii_lower_def list_all_iff intro: map_idI)

text \<open>
  The parser of applied-patch references inverts the three documented spellings, also when
  the relay URL contains colons: an id without a colon, alone, with a relay URL that does not
  end in a key, or with a URL and a lower-case key.
\<close>

theorem patch_reference_round_trip:
  assumes "CHR '':'' \<notin> set (ap_id r)"
    and "ap_relay r = None \<longrightarrow> ap_pubkey r = None"
    and "\<And>k. ap_pubkey r = Some k \<Longrightarrow> is_lower_hex 64 k"
    and "\<And>relay. ap_relay r = Some relay \<Longrightarrow> ap_pubkey r = None \<Longrightarrow> \<not> ends_in_key relay"
  shows "applied_patch_ref_parse (patch_ref_text r) = r"
proof (cases "ap_relay r")
  case None
  have "split_once CHR '':'' (ap_id r) = (ap_id r, None)"
    using assms(1) by (simp add: split_once_None)
  then have "splitn3 CHR '':'' (ap_id r) = (ap_id r, None, None)"
    by (simp add: splitn3_def)
  then show ?thesis
    using None assms(2) by (simp add: applied_patch_ref_parse_def patch_ref_text_def)
next
  case (Some relay)
  let ?s = "relay @ (case ap_pubkey r of None \<Rightarrow> [] | Some k \<Rightarrow> '':'' @ k)"
  have spelled: "patch_ref_text r = ap_id r @ CHR '':'' # ?s"
    by (simp add: patch_ref_text_def Some)
  obtain b q where head: "splitn3 CHR '':'' (patch_ref_text r) = (ap_id r, Some b, q)"
    unfolding spelled using splitn3_head [OF assms(1)] by blast
  have rest: "drop (length (ap_id r) + 1) (patch_ref_text r) = ?s"
    by (simp add: spelled)
  show ?thesis
  proof (cases "ap_pubkey r")
    case None
    then have "\<not> ends_in_key relay" using assms(4) Some by simp
    then show ?thesis
      using head rest None Some
      by (auto simp: applied_patch_ref_parse_def Let_def ends_in_key_def split: option.splits prod.splits)
  next
    case (Some k)
    have k: "is_lower_hex 64 k" by (rule assms(3) [OF Some])
    then have "CHR '':'' \<notin> set k" by (auto simp: is_lower_hex_def list_all_iff ascii_defs)
    then have "rsplit_once CHR '':'' ?s = Some (relay, k)"
      by (simp add: rsplit_once_Some Some)
    moreover have "length k = 64 \<and> list_all is_ascii_hexdigit k"
      using k by (auto simp: is_lower_hex_def list_all_iff)
    ultimately show ?thesis
      using head rest Some \<open>ap_relay r = Some relay\<close> lower_hex_fixed [OF k]
      by (simp add: applied_patch_ref_parse_def Let_def)
  qed
qed

theorem patch_reference_round_trip_witness:
  "applied_patch_ref_parse (''ab:wss://host:7777:'' @ replicate 64 CHR ''c'') =
     \<lparr>ap_id = ''ab'', ap_relay = Some ''wss://host:7777'', ap_pubkey = Some (replicate 64 CHR ''c'')\<rparr>"
proof -
  let ?r = "\<lparr>ap_id = ''ab'', ap_relay = Some ''wss://host:7777'', ap_pubkey = Some (replicate 64 CHR ''c'')\<rparr>"
  have "applied_patch_ref_parse (patch_ref_text ?r) = ?r"
    by (rule patch_reference_round_trip) (simp_all add: is_lower_hex_def list_all_iff ascii_defs)
  then show ?thesis by (simp add: patch_ref_text_def)
qed

end
