(* ===== verification/SdkCommands.thy ===== *)
theory SdkCommands
  imports SdkMessages
begin

text \<open>
  The command builders of \<open>crates/buzz-sdk/src/builders.rs\<close>: workflows and approvals, direct
  messages, presence and status, community moderation and identity archival.
\<close>

section \<open>Workflows\<close>

definition build_delete_addressable :: "tag_parser \<Rightarrow> nat \<Rightarrow> string \<Rightarrow> string \<Rightarrow> event_builder sdk" where
  "build_delete_addressable tp kind key d =
     (let is_addressable = (10000 \<le> kind \<and> kind < 20000) \<or> (30000 \<le> kind \<and> kind < 40000) in
      and_then (refuse_if (\<not> is_addressable) (InvalidInput (''kind '' @ decimal kind @
        '' is not an addressable kind (must be 10000-19999 or 30000-39999)''))) (\<lambda>_.
      and_then (check_pubkey_hex key ''pubkey'') (\<lambda>pk.
      and_then (refuse_if (d = []) (InvalidInput ''d must not be empty'')) (\<lambda>_.
      let coord = decimal kind @ '':'' @ pk @ '':'' @ d in
      and_then (tag_vec tp [[''a'', coord]]) (\<lambda>tags.
      Inr (new_builder KIND_DELETION [] tags))))))"

definition build_workflow_def :: "tag_parser \<Rightarrow> uuid \<Rightarrow> uuid \<Rightarrow> string \<Rightarrow> event_builder sdk" where
  "build_workflow_def tp channel_id workflow_id yaml =
     and_then (check_content yaml (64 * 1024)) (\<lambda>_.
     and_then (tag_vec tp [[''d'', workflow_id], [''h'', channel_id]]) (\<lambda>tags.
     Inr (new_builder KIND_WORKFLOW_DEF yaml tags)))"

definition build_workflow_update :: "tag_parser \<Rightarrow> uuid \<Rightarrow> uuid \<Rightarrow> string \<Rightarrow> event_builder sdk" where
  "build_workflow_update tp channel_id workflow_id yaml =
     and_then (check_content yaml (64 * 1024)) (\<lambda>_.
     and_then (tag_vec tp [[''d'', workflow_id], [''h'', channel_id]]) (\<lambda>tags.
     Inr (new_builder KIND_WORKFLOW_DEF yaml tags)))"

definition build_workflow_delete :: "tag_parser \<Rightarrow> string \<Rightarrow> uuid \<Rightarrow> event_builder sdk" where
  "build_workflow_delete tp author_pubkey workflow_id =
     build_delete_addressable tp KIND_WORKFLOW_DEF author_pubkey workflow_id"

definition build_workflow_trigger :: "tag_parser \<Rightarrow> uuid \<Rightarrow> event_builder sdk" where
  "build_workflow_trigger tp workflow_id =
     and_then (tag_vec tp [[''d'', workflow_id]]) (\<lambda>tags.
     Inr (new_builder KIND_WORKFLOW_TRIGGER [] tags))"

definition build_workflow_approval :: "tag_parser \<Rightarrow> string \<Rightarrow> bool \<Rightarrow> string \<Rightarrow> event_builder sdk" where
  "build_workflow_approval tp token_hash approved note =
     and_then (refuse_if (length token_hash \<noteq> 64 \<or> \<not> list_all is_ascii_hexdigit token_hash)
       (InvalidInput ''token_hash must be a 64-character hex SHA-256 digest'')) (\<lambda>_.
     let kind = (if approved then KIND_APPROVAL_GRANT else KIND_APPROVAL_DENY) in
     and_then (tag_vec tp [[''d'', token_hash]]) (\<lambda>tags.
     Inr (new_builder kind note tags)))"

section \<open>Direct messages, presence and status\<close>

definition build_dm_open :: "tag_parser \<Rightarrow> string list \<Rightarrow> event_builder sdk" where
  "build_dm_open tp pubkeys =
     and_then (refuse_if (pubkeys = [] \<or> length pubkeys > 8)
       (InvalidInput ''dm open requires 1-8 pubkeys'')) (\<lambda>_.
     and_then (try_fold (\<lambda>pk tags.
         and_then (check_pubkey_hex pk ''pubkey'') (\<lambda>pk. push_tag tp [''p'', pk] tags)) pubkeys []) (\<lambda>tags.
     Inr (new_builder KIND_DM_OPEN [] tags)))"

definition build_dm_add_member :: "tag_parser \<Rightarrow> uuid \<Rightarrow> string \<Rightarrow> event_builder sdk" where
  "build_dm_add_member tp channel_id key =
     and_then (check_pubkey_hex key ''pubkey'') (\<lambda>pk.
     and_then (tag_vec tp [[''h'', channel_id], [''p'', pk]]) (\<lambda>tags.
     Inr (new_builder KIND_DM_ADD_MEMBER [] tags)))"

definition build_presence_update :: "tag_parser \<Rightarrow> string \<Rightarrow> event_builder sdk" where
  "build_presence_update tp status =
     and_then (refuse_if (status \<noteq> ''online'' \<and> status \<noteq> ''away'' \<and> status \<noteq> ''offline'')
       (InvalidInput (''status must be online, away, or offline (got: '' @ status @ '')''))) (\<lambda>_.
     and_then (tag_vec tp [[''status'', status]]) (\<lambda>tags.
     Inr (new_builder KIND_PRESENCE_UPDATE status tags)))"

definition non_blank :: "string option \<Rightarrow> string option" where
  "non_blank o' = (case o' of Some e \<Rightarrow> if trim e = [] then None else Some (trim e) | None \<Rightarrow> None)"

definition build_user_status :: "tag_parser \<Rightarrow> string \<Rightarrow> string option \<Rightarrow> event_builder sdk" where
  "build_user_status tp txt emoji =
     (let txt = trim txt in
      and_then (check_content txt (64 * 1024)) (\<lambda>_.
      and_then (tag_vec tp [[''d'', ''general'']]) (\<lambda>tags.
      and_then (push_opt tp ''emoji'' (non_blank emoji) tags) (\<lambda>tags.
      Inr (new_builder KIND_USER_STATUS txt tags)))))"

section \<open>Community moderation\<close>

definition build_moderation_ban ::
    "tag_parser \<Rightarrow> string \<Rightarrow> nat option \<Rightarrow> string option \<Rightarrow> event_builder sdk" where
  "build_moderation_ban tp target expires_at reason =
     and_then (check_pubkey_hex target ''target_pubkey'') (\<lambda>target.
     and_then (tag_vec tp [[''p'', target]]) (\<lambda>tags.
     and_then (push_opt tp ''expiration'' (map_option decimal expires_at) tags) (\<lambda>tags.
     and_then (push_opt tp ''reason'' reason tags) (\<lambda>tags.
     Inr (new_builder KIND_MODERATION_BAN [] tags)))))"

definition build_moderation_unban :: "tag_parser \<Rightarrow> string \<Rightarrow> event_builder sdk" where
  "build_moderation_unban tp target =
     and_then (check_pubkey_hex target ''target_pubkey'') (\<lambda>target.
     and_then (tag_vec tp [[''p'', target]]) (\<lambda>tags.
     Inr (new_builder KIND_MODERATION_UNBAN [] tags)))"

definition build_moderation_timeout ::
    "tag_parser \<Rightarrow> string \<Rightarrow> nat \<Rightarrow> string option \<Rightarrow> event_builder sdk" where
  "build_moderation_timeout tp target expires_at reason =
     and_then (check_pubkey_hex target ''target_pubkey'') (\<lambda>target.
     and_then (tag_vec tp [[''p'', target], [''expiration'', decimal expires_at]]) (\<lambda>tags.
     and_then (push_opt tp ''reason'' reason tags) (\<lambda>tags.
     Inr (new_builder KIND_MODERATION_TIMEOUT [] tags))))"

definition build_moderation_untimeout :: "tag_parser \<Rightarrow> string \<Rightarrow> event_builder sdk" where
  "build_moderation_untimeout tp target =
     and_then (check_pubkey_hex target ''target_pubkey'') (\<lambda>target.
     and_then (tag_vec tp [[''p'', target]]) (\<lambda>tags.
     Inr (new_builder KIND_MODERATION_UNTIMEOUT [] tags)))"

definition build_moderation_resolve_report ::
    "tag_parser \<Rightarrow> string \<Rightarrow> string \<Rightarrow> string \<Rightarrow> string option \<Rightarrow> event_builder sdk" where
  "build_moderation_resolve_report tp report status action reason =
     and_then (check_hex_exact report 64 ''report_event_id'') (\<lambda>report.
     and_then (refuse_if (status \<noteq> ''resolved'' \<and> status \<noteq> ''dismissed'')
       (InvalidInput (''status must be resolved or dismissed (got: '' @ status @ '')''))) (\<lambda>_.
     and_then (refuse_if (action \<notin> {''delete'', ''kick'', ''ban'', ''timeout'', ''dismiss'', ''escalate''})
       (InvalidInput (''action must be delete, kick, ban, timeout, dismiss, or escalate (got: '' @
          action @ '')''))) (\<lambda>_.
     and_then (tag_vec tp [[''report'', report], [''status'', status], [''action'', action]]) (\<lambda>tags.
     and_then (push_opt tp ''reason'' reason tags) (\<lambda>tags.
     Inr (new_builder KIND_MODERATION_RESOLVE_REPORT [] tags))))))"

section \<open>Identity archival\<close>

definition MAX_REASON_BYTES :: nat where
  "MAX_REASON_BYTES = 64"

definition check_reason :: "string \<Rightarrow> unit sdk" where
  "check_reason reason =
     and_then (refuse_if (length reason > MAX_REASON_BYTES)
       (InvalidInput ''reason code exceeds maximum length of 64 UTF-8 bytes'')) (\<lambda>_.
     refuse_if (has_control reason)
       (InvalidInput ''reason code must not contain control characters''))"

text \<open>The \<open>auth\<close> tag: label, owner, conditions, signature.\<close>

type_synonym auth_tag = "string \<times> string \<times> string \<times> string"

definition check_auth_tag_shape :: "auth_tag \<Rightarrow> unit sdk" where
  "check_auth_tag_shape auth =
     (case auth of (label, owner, conditions, sig) \<Rightarrow>
       and_then (refuse_if (label \<noteq> ''auth'')
         (InvalidInput ''auth tag label must be auth'')) (\<lambda>_.
       and_then (check_pubkey_hex owner ''auth tag owner pubkey'') (\<lambda>_.
       refuse_if (length sig \<noteq> 128 \<or> \<not> list_all is_ascii_hexdigit sig)
         (InvalidInput ''auth tag signature must be 128-character hex''))))"

definition identity_archive_tags ::
    "tag_parser \<Rightarrow> string \<Rightarrow> string option \<Rightarrow> string option \<Rightarrow> auth_tag option \<Rightarrow> tag list sdk" where
  "identity_archive_tags tp target reason replaced_by auth =
     and_then (check_pubkey_hex target ''target_pubkey'') (\<lambda>target.
     and_then (tag_vec tp [[''-''], [''p'', target]]) (\<lambda>tags.
     and_then (when_some reason (\<lambda>r tags.
         and_then (check_reason r) (\<lambda>_. push_tag tp [''reason'', r] tags)) tags) (\<lambda>tags.
     and_then (when_some replaced_by (\<lambda>rb tags.
         and_then (check_pubkey_hex rb ''replaced_by'') (\<lambda>rb.
         and_then (refuse_if (rb = target)
           (InvalidInput ''replaced-by must differ from the target'')) (\<lambda>_.
         push_tag tp [''replaced-by'', rb] tags))) tags) (\<lambda>tags.
     when_some auth (\<lambda>a tags.
         and_then (check_auth_tag_shape a) (\<lambda>_.
         push_tag tp [''auth'', fst (snd a), fst (snd (snd a)), snd (snd (snd a))] tags)) tags))))"

definition build_archive_identity_request ::
    "tag_parser \<Rightarrow> string \<Rightarrow> string \<Rightarrow> string option \<Rightarrow> string option \<Rightarrow> auth_tag option \<Rightarrow>
     event_builder sdk" where
  "build_archive_identity_request tp target content reason replaced_by auth =
     and_then (check_content content (64 * 1024)) (\<lambda>_.
     and_then (identity_archive_tags tp target reason replaced_by auth) (\<lambda>tags.
     Inr (allow_self_tagging (new_builder KIND_IA_ARCHIVE_REQUEST content tags))))"

definition build_unarchive_identity_request ::
    "tag_parser \<Rightarrow> string \<Rightarrow> string \<Rightarrow> string option \<Rightarrow> auth_tag option \<Rightarrow> event_builder sdk" where
  "build_unarchive_identity_request tp target content reason auth =
     and_then (check_content content (64 * 1024)) (\<lambda>_.
     and_then (identity_archive_tags tp target reason None auth) (\<lambda>tags.
     Inr (allow_self_tagging (new_builder KIND_IA_UNARCHIVE_REQUEST content tags))))"

end
