(* ===== verification/SdkProjects.thy ===== *)
theory SdkProjects
  imports SdkMessages
begin

text \<open>
  Multi-repository projects (NIP-MP, kind 30621) of \<open>crates/buzz-sdk/src/builders.rs\<close>: the
  member coordinate, the envelope validator with its eight rules and the two project builders.
\<close>

definition PROJECT_D_MAX_LEN :: nat where "PROJECT_D_MAX_LEN = 1024"
definition PROJECT_NAME_MAX :: nat where "PROJECT_NAME_MAX = 256"
definition PROJECT_DESCRIPTION_MAX :: nat where "PROJECT_DESCRIPTION_MAX = 2048"
definition PROJECT_CHANNEL_MAX :: nat where "PROJECT_CHANNEL_MAX = 256"
definition PROJECT_VISIBILITY_MAX :: nat where "PROJECT_VISIBILITY_MAX = 256"
definition PROJECT_MEMBER_CAP :: nat where "PROJECT_MEMBER_CAP = 64"

lemmas project_limits =
  PROJECT_D_MAX_LEN_def PROJECT_NAME_MAX_def PROJECT_DESCRIPTION_MAX_def PROJECT_CHANNEL_MAX_def
  PROJECT_VISIBILITY_MAX_def PROJECT_MEMBER_CAP_def

record project_member_coord =
  member_coord :: string
  member_hint :: "string option"

definition member_eq :: "project_member_coord \<Rightarrow> project_member_coord \<Rightarrow> bool" where
  "member_eq a b \<longleftrightarrow> member_coord a = member_coord b"

definition parse_full :: "string \<Rightarrow> project_member_coord sdk" where
  "parse_full coord =
     (case splitn3 CHR '':'' coord of (kind_part, o2, o3) \<Rightarrow>
       let owner_part = or_empty o2; rest = or_empty o3 in
       if kind_part \<noteq> ''30617'' then
         Inl (InvalidInput ''member coordinate must start with 30617:'')
       else if length owner_part \<noteq> 64 \<or> \<not> list_all is_ascii_hexdigit owner_part then
         Inl (InvalidInput ''member owner must be a 64-character hex pubkey'')
       else if list_ex is_ascii_uppercase owner_part then
         Inl (InvalidInput ''member owner hex must be lowercase'')
       else if rest = [] then
         Inl (InvalidInput ''member coordinate repo-d must not be empty'')
       else Inr \<lparr>member_coord = ''30617:'' @ owner_part @ '':'' @ rest, member_hint = None\<rparr>)"

definition to_tag_parts :: "project_member_coord \<Rightarrow> string list" where
  "to_tag_parts m =
     [''a'', member_coord m] @ (case member_hint m of Some h \<Rightarrow> [h] | None \<Rightarrow> [])"

definition tag_name :: "tag \<Rightarrow> string option" where
  "tag_name t = (case t of [] \<Rightarrow> None | k # _ \<Rightarrow> Some k)"

definition tag_value :: "tag \<Rightarrow> string option" where
  "tag_value t = (case t of _ # v # _ \<Rightarrow> Some v | _ \<Rightarrow> None)"

definition value_of :: "tag \<Rightarrow> string" where
  "value_of t = or_empty (tag_value t)"

definition tags_named :: "string \<Rightarrow> tag list \<Rightarrow> tag list" where
  "tags_named k tags = filter (\<lambda>t. tag_name t = Some k) tags"

section \<open>The envelope validator\<close>

text \<open>One turn of the member loop: parse, then compare with the coordinates already seen.\<close>

definition member_step :: "tag \<Rightarrow> string list \<Rightarrow> string list sdk" where
  "member_step a seen =
     (let coord_val = value_of a in
      case parse_full coord_val of
        Inl e \<Rightarrow> Inl (InvalidInput ''(rule: member-coordinate-malformed)'')
      | Inr _ \<Rightarrow>
          if List.member seen coord_val
          then Inl (InvalidInput ''duplicate member coordinate (rule: member-duplicate)'')
          else Inr (coord_val # seen))"

definition singleton_field :: "tag list \<Rightarrow> string \<times> nat \<Rightarrow> unit sdk" where
  "singleton_field tags fm =
     (case fm of (field, max_bytes) \<Rightarrow>
       let matches = tags_named field tags in
       and_then (refuse_if (length matches > 1)
         (InvalidInput (''project must have at most one '' @ field @ '' tag (rule: metadata-cardinality)''))) (\<lambda>_.
       (case matches of
          [] \<Rightarrow> Inr ()
        | t # _ \<Rightarrow> refuse_if (length (value_of t) > max_bytes)
            (InvalidInput (field @ '' tag exceeds its bound (rule: metadata-length)'')))))"

definition singleton_fields :: "(string \<times> nat) list" where
  "singleton_fields =
     [(''name'', PROJECT_NAME_MAX), (''description'', PROJECT_DESCRIPTION_MAX),
      (''buzz-channel'', PROJECT_CHANNEL_MAX), (''buzz-visibility'', PROJECT_VISIBILITY_MAX)]"

definition validate_project_envelope :: "tag list \<Rightarrow> string \<Rightarrow> unit sdk" where
  "validate_project_envelope tags content =
     (let d_tags = tags_named ''d'' tags; a_tags = tags_named ''a'' tags in
      and_then (refuse_if (length d_tags \<noteq> 1)
        (InvalidInput ''project must have exactly one d tag (rule: d-cardinality)'')) (\<lambda>_.
      let d_val = value_of (hd d_tags) in
      and_then (refuse_if (d_val = [])
        (InvalidInput ''project d tag must not be empty (rule: d-empty)'')) (\<lambda>_.
      and_then (refuse_if (length d_val > PROJECT_D_MAX_LEN)
        (InvalidInput ''project d tag exceeds 1024 bytes (rule: d-empty)'')) (\<lambda>_.
      and_then (refuse_if (length a_tags > PROJECT_MEMBER_CAP)
        (InvalidInput ''project exceeds member cap of 64 (rule: member-cap)'')) (\<lambda>_.
      and_then (try_all (\<lambda>a. refuse_if (\<not> (1 \<le> length a - 1 \<and> length a - 1 \<le> 2))
        (InvalidInput ''member a tag must have 1 or 2 value elements (rule: member-tag-arity)'')) a_tags) (\<lambda>_.
      and_then (try_fold member_step a_tags []) (\<lambda>_.
      try_all (singleton_field tags) singleton_fields)))))))"

section \<open>Builders\<close>

definition build_project_with_tags :: "string \<Rightarrow> tag list \<Rightarrow> event_builder sdk" where
  "build_project_with_tags content tags =
     and_then (validate_project_envelope tags content) (\<lambda>_.
     Inr (new_builder KIND_PROJECT content tags))"

definition build_project ::
    "(string \<Rightarrow> uuid option) \<Rightarrow> tag_parser \<Rightarrow> string \<Rightarrow> string option \<Rightarrow> string option \<Rightarrow>
     project_member_coord list \<Rightarrow> string option \<Rightarrow> string option \<Rightarrow> event_builder sdk" where
  "build_project parse_uuid tp slug name description members channel visibility =
     and_then (refuse_if (slug = []) (InvalidInput ''project slug must not be empty'')) (\<lambda>_.
     and_then (refuse_if (length slug > PROJECT_D_MAX_LEN)
       (InvalidInput ''project slug must not exceed 1024 bytes'')) (\<lambda>_.
     and_then (check_some channel (\<lambda>ch. refuse_if (parse_uuid ch = None)
       (InvalidInput ''buzz-channel must be a valid UUID''))) (\<lambda>_.
     and_then (check_some visibility (\<lambda>vis. refuse_if (vis \<noteq> ''listed'' \<and> vis \<noteq> ''unlisted'')
       (InvalidInput ''buzz-visibility must be listed or unlisted''))) (\<lambda>_.
     and_then (push_tag tp [''d'', slug] []) (\<lambda>tags.
     and_then (push_opt tp ''name'' name tags) (\<lambda>tags.
     and_then (push_opt tp ''description'' description tags) (\<lambda>tags.
     and_then (try_fold (\<lambda>m. push_tag tp (to_tag_parts m)) members tags) (\<lambda>tags.
     and_then (push_opt tp ''buzz-channel'' channel tags) (\<lambda>tags.
     and_then (push_opt tp ''buzz-visibility'' visibility tags) (\<lambda>tags.
     build_project_with_tags [] tags))))))))))"

end
