(* ===== verification/IngestRules.thy ===== *)
theory IngestRules
  imports SdkChecks
begin

text \<open>
  The relay's per-kind ingest rules, from \<open>crates/buzz-relay/src/handlers/ingest.rs\<close>: the
  scope each kind needs, channel extraction, membership and token checks, NIP-10 thread
  resolution, ownership of edits, vote targets and the envelope validators.

  \<^item> Database rows, caches and third-party parsers are the fields of \<open>ingest_env\<close>: one
    snapshot per check. A lookup is a function into \<open>string + row option\<close>; \<open>Inl\<close> is a
    database error.
  \<^item> 32-byte ids and keys are their canonical lower-case hex text; \<open>env_hex32\<close> is
    \<open>hex::decode\<close> followed by the test for 32 bytes.
  \<^item> Rejection texts keep their fixed part.
\<close>

section \<open>Scopes and transports\<close>

datatype scope =
    MessagesRead | MessagesWrite | ChannelsRead | ChannelsWrite | AdminChannels
  | UsersRead | UsersWrite | AdminUsers | JobsRead | JobsWrite
  | SubscriptionsRead | SubscriptionsWrite | FilesRead | FilesWrite | ReposRead | ReposWrite
  | UnknownScope string

definition scope_as_str :: "scope \<Rightarrow> string" where
  "scope_as_str s =
     (case s of
        MessagesRead \<Rightarrow> ''messages:read'' | MessagesWrite \<Rightarrow> ''messages:write''
      | ChannelsRead \<Rightarrow> ''channels:read'' | ChannelsWrite \<Rightarrow> ''channels:write''
      | AdminChannels \<Rightarrow> ''admin:channels'' | UsersRead \<Rightarrow> ''users:read''
      | UsersWrite \<Rightarrow> ''users:write'' | AdminUsers \<Rightarrow> ''admin:users''
      | JobsRead \<Rightarrow> ''jobs:read'' | JobsWrite \<Rightarrow> ''jobs:write''
      | SubscriptionsRead \<Rightarrow> ''subscriptions:read'' | SubscriptionsWrite \<Rightarrow> ''subscriptions:write''
      | FilesRead \<Rightarrow> ''files:read'' | FilesWrite \<Rightarrow> ''files:write''
      | ReposRead \<Rightarrow> ''repos:read'' | ReposWrite \<Rightarrow> ''repos:write''
      | UnknownScope t \<Rightarrow> t)"

definition all_known_scopes :: "scope list" where
  "all_known_scopes =
     [MessagesRead, MessagesWrite, ChannelsRead, ChannelsWrite, AdminChannels, UsersRead, UsersWrite,
      AdminUsers, JobsRead, JobsWrite, SubscriptionsRead, SubscriptionsWrite, FilesRead, FilesWrite,
      ReposRead, ReposWrite]"

definition all_non_admin_scopes :: "scope list" where
  "all_non_admin_scopes =
     [MessagesRead, MessagesWrite, ChannelsRead, ChannelsWrite, UsersRead, UsersWrite,
      JobsRead, JobsWrite, SubscriptionsRead, SubscriptionsWrite, FilesRead, FilesWrite,
      ReposRead, ReposWrite]"

datatype ingest_auth =
    Nip42 (auth_pubkey: string) (auth_scopes: "scope list") "uuid list option" uuid
  | Http (auth_pubkey: string) (auth_scopes: "scope list")

definition auth_channel_ids :: "ingest_auth \<Rightarrow> uuid list option" where
  "auth_channel_ids a = (case a of Nip42 _ _ ids _ \<Rightarrow> ids | Http _ _ \<Rightarrow> None)"

definition auth_is_http :: "ingest_auth \<Rightarrow> bool" where
  "auth_is_http a = (case a of Nip42 _ _ _ _ \<Rightarrow> False | Http _ _ \<Rightarrow> True)"

definition has_tag_kind :: "string \<Rightarrow> nostr_event \<Rightarrow> bool" where
  "has_tag_kind k ev \<longleftrightarrow> list_ex (\<lambda>t. tag_kind t = k) (ev_tags ev)"

definition required_scope_for_kind :: "nat \<Rightarrow> nostr_event \<Rightarrow> string + scope" where
  "required_scope_for_kind kind ev =
     (if kind = KIND_PROFILE then Inr UsersWrite
      else if kind \<in> {KIND_TEXT_NOTE, KIND_LONG_FORM} then Inr MessagesWrite
      else if kind \<in> {KIND_CONTACT_LIST, KIND_READ_STATE, KIND_USER_STATUS, KIND_AGENT_ENGRAM,
        KIND_EVENT_REMINDER, KIND_PERSONA, KIND_TEAM, KIND_MANAGED_AGENT, KIND_TEAM_CATALOG,
        KIND_PUSH_LEASE} then Inr UsersWrite
      else if kind = KIND_AGENT_TURN_METRIC then Inr MessagesWrite
      else if kind \<in> {KIND_REPORT, KIND_PRODUCT_FEEDBACK} then Inr MessagesWrite
      else if is_moderation_command_kind kind then Inr MessagesWrite
      else if kind \<in> {KIND_MUTE_LIST, KIND_PIN_LIST, KIND_NIP65_RELAY_LIST_METADATA,
        KIND_BOOKMARK_LIST, KIND_FOLLOW_SET, KIND_BOOKMARK_SET, KIND_EMOJI_SET, KIND_EMOJI_LIST,
        KIND_AGENT_PROFILE, KIND_EVM_ROTATION} then Inr UsersWrite
      else if kind \<in> {KIND_DELETION, KIND_REACTION, KIND_GIFT_WRAP, KIND_STREAM_MESSAGE,
        KIND_STREAM_MESSAGE_V2, KIND_NIP29_DELETE_EVENT, KIND_STREAM_MESSAGE_EDIT,
        KIND_STREAM_MESSAGE_PINNED, KIND_STREAM_MESSAGE_BOOKMARKED, KIND_STREAM_MESSAGE_SCHEDULED,
        KIND_STREAM_REMINDER, KIND_STREAM_MESSAGE_DIFF, KIND_FORUM_POST, KIND_FORUM_VOTE,
        KIND_FORUM_COMMENT} then Inr MessagesWrite
      else if kind \<in> {KIND_NIP29_PUT_USER, KIND_NIP29_REMOVE_USER, KIND_NIP29_DELETE_GROUP}
      then Inr AdminChannels
      else if kind \<in> {RELAY_ADMIN_ADD_MEMBER, RELAY_ADMIN_REMOVE_MEMBER, RELAY_ADMIN_CHANGE_ROLE,
        RELAY_ADMIN_SET_WORKSPACE_PROFILE} then Inr AdminUsers
      else if kind \<in> {KIND_IA_ARCHIVE_REQUEST, KIND_IA_UNARCHIVE_REQUEST} then Inr UsersWrite
      else if kind = KIND_NIP29_EDIT_METADATA then
        (if has_tag_kind ''archived'' ev then Inr AdminChannels else Inr ChannelsWrite)
      else if kind \<in> {KIND_NIP29_CREATE_GROUP, KIND_CANVAS} then Inr ChannelsWrite
      else if kind \<in> {KIND_NIP29_JOIN_REQUEST, KIND_NIP29_LEAVE_REQUEST, KIND_NIP43_LEAVE_REQUEST}
      then Inr ChannelsRead
      else if kind \<in> {KIND_HUDDLE_STARTED, KIND_HUDDLE_PARTICIPANT_JOINED,
        KIND_HUDDLE_PARTICIPANT_LEFT, KIND_HUDDLE_ENDED, KIND_HUDDLE_GUIDELINES} then Inr ChannelsWrite
      else if kind \<in> {KIND_GIT_REPO_ANNOUNCEMENT, KIND_GIT_REPO_STATE} then Inr ReposWrite
      else if kind = KIND_PROJECT then Inr ReposWrite
      else if kind \<in> {KIND_GIT_PATCH, KIND_GIT_PULL_REQUEST, KIND_GIT_PR_UPDATE, KIND_GIT_ISSUE,
        KIND_GIT_STATUS_OPEN, KIND_GIT_STATUS_MERGED, KIND_GIT_STATUS_CLOSED, KIND_GIT_STATUS_DRAFT}
      then Inr MessagesWrite
      else if kind \<in> {KIND_DM_OPEN, KIND_DM_ADD_MEMBER, KIND_DM_HIDE} then Inr MessagesWrite
      else if kind \<in> {KIND_WORKFLOW_DEF, KIND_WORKFLOW_TRIGGER} then Inr MessagesWrite
      else if kind \<in> {KIND_APPROVAL_GRANT, KIND_APPROVAL_DENY} then Inr MessagesWrite
      else Inl ''restricted: unknown event kind'')"

definition is_global_only_kind :: "nat \<Rightarrow> bool" where
  "is_global_only_kind kind \<longleftrightarrow>
     kind \<in> {KIND_PROFILE, KIND_TEXT_NOTE, KIND_CONTACT_LIST, KIND_LONG_FORM, KIND_USER_STATUS,
       KIND_READ_STATE, KIND_MUTE_LIST, KIND_PIN_LIST, KIND_NIP65_RELAY_LIST_METADATA,
       KIND_BOOKMARK_LIST, KIND_FOLLOW_SET, KIND_BOOKMARK_SET, KIND_EMOJI_SET, KIND_EMOJI_LIST,
       KIND_AGENT_ENGRAM, KIND_EVENT_REMINDER, KIND_AGENT_PROFILE, KIND_PERSONA, KIND_TEAM,
       KIND_MANAGED_AGENT, KIND_TEAM_CATALOG, KIND_GIT_REPO_ANNOUNCEMENT, KIND_GIT_REPO_STATE,
       KIND_GIT_PATCH, KIND_GIT_PULL_REQUEST, KIND_GIT_PR_UPDATE, KIND_GIT_ISSUE,
       KIND_GIT_STATUS_OPEN, KIND_GIT_STATUS_MERGED, KIND_GIT_STATUS_CLOSED, KIND_GIT_STATUS_DRAFT,
       KIND_PROJECT, KIND_MODERATION_BAN, KIND_MODERATION_UNBAN, KIND_MODERATION_TIMEOUT,
       KIND_MODERATION_UNTIMEOUT, KIND_MODERATION_RESOLVE_REPORT, RELAY_ADMIN_ADD_MEMBER,
       RELAY_ADMIN_REMOVE_MEMBER, RELAY_ADMIN_CHANGE_ROLE, RELAY_ADMIN_SET_WORKSPACE_PROFILE,
       KIND_NIP43_LEAVE_REQUEST, KIND_IA_ARCHIVE_REQUEST, KIND_IA_UNARCHIVE_REQUEST,
       KIND_AGENT_TURN_METRIC, KIND_PUSH_LEASE}"

definition requires_h_channel_scope :: "nat \<Rightarrow> bool" where
  "requires_h_channel_scope kind \<longleftrightarrow>
     kind \<in> {KIND_STREAM_MESSAGE, KIND_STREAM_MESSAGE_V2, KIND_STREAM_MESSAGE_EDIT,
       KIND_STREAM_MESSAGE_PINNED, KIND_STREAM_MESSAGE_BOOKMARKED, KIND_STREAM_MESSAGE_SCHEDULED,
       KIND_STREAM_REMINDER, KIND_STREAM_MESSAGE_DIFF, KIND_CANVAS, KIND_FORUM_POST,
       KIND_FORUM_VOTE, KIND_FORUM_COMMENT, KIND_NIP29_PUT_USER, KIND_NIP29_REMOVE_USER,
       KIND_NIP29_EDIT_METADATA, KIND_NIP29_DELETE_EVENT, KIND_NIP29_DELETE_GROUP,
       KIND_NIP29_LEAVE_REQUEST, KIND_HUDDLE_STARTED, KIND_HUDDLE_PARTICIPANT_JOINED,
       KIND_HUDDLE_PARTICIPANT_LEFT, KIND_HUDDLE_ENDED, KIND_HUDDLE_GUIDELINES}"

section \<open>The environment\<close>

record channel_row =
  cr_visibility :: string
  cr_archived :: bool

record thread_row =
  tr_root :: "string option"
  tr_depth :: int

record ingest_env =
  env_uuid :: "string \<Rightarrow> uuid option"
  env_hex32 :: "string \<Rightarrow> string option"
  env_datetime :: "nat \<Rightarrow> instant option"
  env_now :: instant
  env_event_by_id :: "string \<Rightarrow> string + stored_event option"
  env_thread_meta :: "string \<Rightarrow> string + thread_row option"
  env_is_member :: "uuid \<Rightarrow> string \<Rightarrow> string + bool"
  env_channel :: "uuid \<Rightarrow> string + channel_row"
  env_agent_owner :: "string \<Rightarrow> string \<Rightarrow> string + bool"
  env_relay_pubkey :: string

text \<open>The documented behaviour of the parsers in the environment.\<close>

definition is_hex64 :: "string \<Rightarrow> bool" where
  "is_hex64 s \<longleftrightarrow> length s = 64 \<and> list_all is_ascii_hexdigit s"

definition hex32_ok :: "ingest_env \<Rightarrow> bool" where
  "hex32_ok env \<longleftrightarrow>
     (\<forall>s. env_hex32 env s = (if is_hex64 s then Some (ascii_lower s) else None))"

section \<open>Channels\<close>

fun first_some :: "('x \<Rightarrow> 'y option) \<Rightarrow> 'x list \<Rightarrow> 'y option" where
  "first_some f [] = None"
| "first_some f (x # xs) = (case f x of Some y \<Rightarrow> Some y | None \<Rightarrow> first_some f xs)"

definition channel_of_tag :: "ingest_env \<Rightarrow> tag \<Rightarrow> uuid option" where
  "channel_of_tag env t =
     (if tag_kind t = ''h'' then
        (case tag_content t of Some v \<Rightarrow> env_uuid env v | None \<Rightarrow> None)
      else None)"

definition extract_channel_id :: "ingest_env \<Rightarrow> nostr_event \<Rightarrow> uuid option" where
  "extract_channel_id env ev = first_some (channel_of_tag env) (ev_tags ev)"

text \<open>The closure of the target lookups: an \<open>e\<close> tag whose value is 64 hex digits.\<close>

definition target_of_tag :: "tag \<Rightarrow> string option" where
  "target_of_tag t =
     (if tag_kind t = ''e'' then
        (case tag_content t of Some v \<Rightarrow> if is_hex64 v then Some v else None | None \<Rightarrow> None)
      else None)"

definition first_target :: "nostr_event \<Rightarrow> string option" where
  "first_target ev = first_some target_of_tag (ev_tags ev)"

definition last_target :: "nostr_event \<Rightarrow> string option" where
  "last_target ev = first_some target_of_tag (rev (ev_tags ev))"

datatype reaction_channel =
    RChannel uuid | NoChannel | NotFound | NoTarget | RDbError string

definition derive_reaction_channel :: "ingest_env \<Rightarrow> nostr_event \<Rightarrow> reaction_channel" where
  "derive_reaction_channel env ev =
     (case last_target ev of
        None \<Rightarrow> NoTarget
      | Some target_hex \<Rightarrow>
          (case env_hex32 env target_hex of
             None \<Rightarrow> NoTarget
           | Some id_bytes \<Rightarrow>
               (case env_event_by_id env id_bytes of
                  Inl e \<Rightarrow> RDbError e
                | Inr None \<Rightarrow> NotFound
                | Inr (Some target) \<Rightarrow>
                    (case se_channel_id target of Some ch \<Rightarrow> RChannel ch | None \<Rightarrow> NoChannel))))"

definition check_channel_membership ::
    "ingest_env \<Rightarrow> uuid \<Rightarrow> string \<Rightarrow> channel_row option \<Rightarrow> string + unit" where
  "check_channel_membership env ch_id key channel =
     (case env_is_member env ch_id key of
        Inl e \<Rightarrow> Inl (''error: database error: '' @ e)
      | Inr True \<Rightarrow> Inr ()
      | Inr False \<Rightarrow>
          (let is_open =
             (case channel of
                Some ch \<Rightarrow> cr_visibility ch = ''open''
              | None \<Rightarrow>
                  (case env_channel env ch_id of Inr ch \<Rightarrow> cr_visibility ch = ''open'' | Inl _ \<Rightarrow> False))
           in if is_open then Inr () else Inl ''restricted: not a channel member''))"

definition check_token_channel_access :: "ingest_auth \<Rightarrow> uuid \<Rightarrow> string + unit" where
  "check_token_channel_access auth ch =
     (case auth_channel_ids auth of
        Some ids \<Rightarrow>
          if \<not> List.member ids ch
          then Inl ''restricted: token does not have access to this channel'' else Inr ()
      | None \<Rightarrow> Inr ())"

section \<open>NIP-10 threads\<close>

record thread_metadata =
  tm_event_id :: string
  tm_event_created_at :: instant
  tm_channel_id :: uuid
  tm_parent_event_id :: string
  tm_parent_created_at :: instant
  tm_root_event_id :: string
  tm_root_created_at :: instant
  tm_depth :: int
  tm_broadcast :: bool

text \<open>The loop over the tags: the last valid \<open>root\<close> and \<open>reply\<close> markers win.\<close>

definition marker_step :: "tag \<Rightarrow> string option \<times> string option \<Rightarrow> string option \<times> string option" where
  "marker_step parts acc =
     (if length parts \<ge> 4 \<and> parts ! 0 = ''e'' \<and> is_hex64 (parts ! 1) then
        (if parts ! 3 = ''root'' then (Some (parts ! 1), snd acc)
         else if parts ! 3 = ''reply'' then (fst acc, Some (parts ! 1)) else acc)
      else acc)"

definition thread_markers :: "tag list \<Rightarrow> string option \<times> string option" where
  "thread_markers tags = fold marker_step tags (None, None)"

definition thread_ancestry :: "tag list \<Rightarrow> (string \<times> string) option" where
  "thread_ancestry tags =
     (case thread_markers tags of
        (Some r, Some p) \<Rightarrow> Some (r, p)
      | (None, Some p) \<Rightarrow> Some (p, p)
      | (_, None) \<Rightarrow> None)"

definition marked_ancestor :: "ingest_env \<Rightarrow> string \<Rightarrow> tag \<Rightarrow> string option" where
  "marked_ancestor env marker parts =
     (if length parts \<ge> 4 \<and> parts ! 0 = ''e'' \<and> parts ! 3 = marker then env_hex32 env (parts ! 1) else None)"

definition parent_root_of :: "ingest_env \<Rightarrow> string \<Rightarrow> nostr_event \<Rightarrow> string" where
  "parent_root_of env parent_bytes parent =
     (case first_some (marked_ancestor env ''root'') (ev_tags parent) of
        Some r \<Rightarrow> r
      | None \<Rightarrow>
          (case first_some (marked_ancestor env ''reply'') (ev_tags parent) of
             Some r \<Rightarrow> r | None \<Rightarrow> parent_bytes))"

definition root_time :: "ingest_env \<Rightarrow> string \<Rightarrow> instant \<Rightarrow> instant" where
  "root_time env root parent_created =
     (case env_event_by_id env root of
        Inr (Some root_ev) \<Rightarrow>
          (case env_datetime env (ev_created_at (se_event root_ev)) of
             Some t \<Rightarrow> t | None \<Rightarrow> parent_created)
      | _ \<Rightarrow> parent_created)"

definition event_time :: "ingest_env \<Rightarrow> nostr_event \<Rightarrow> instant" where
  "event_time env ev =
     (case env_datetime env (ev_created_at ev) of Some t \<Rightarrow> t | None \<Rightarrow> env_now env)"

definition has_broadcast :: "nostr_event \<Rightarrow> bool" where
  "has_broadcast ev \<longleftrightarrow>
     list_ex (\<lambda>p. length p \<ge> 2 \<and> p ! 0 = ''broadcast'' \<and> p ! 1 = ''1'') (ev_tags ev)"

text \<open>
  The position of the reply in its thread: by the parent's metadata row when there is one
  (the depth is an \<open>i32\<close>, far below its limit), otherwise by the parent's own tags.
\<close>

definition thread_position ::
    "ingest_env \<Rightarrow> string \<Rightarrow> string \<Rightarrow> nostr_event \<Rightarrow> instant \<Rightarrow> thread_row option \<Rightarrow>
     string + (string \<times> instant \<times> int)" where
  "thread_position env client_root parent_bytes parent parent_created meta =
     (case meta of
        Some m \<Rightarrow>
          (let effective_root = (case tr_root m of Some r \<Rightarrow> r | None \<Rightarrow> parent_bytes) in
           if client_root \<noteq> effective_root then Inl ''root tag does not match thread ancestry''
           else
             (let depth = tr_depth m + 1 in
              if depth > 100 then Inl ''thread depth limit exceeded''
              else Inr (effective_root, root_time env effective_root parent_created, depth)))
      | None \<Rightarrow>
          (let parent_root = parent_root_of env parent_bytes parent in
           if client_root \<noteq> parent_root then Inl ''root tag does not match thread ancestry''
           else
             (let depth = (if parent_root = parent_bytes then 1 else 2);
                  created = (if parent_root \<noteq> parent_bytes then root_time env parent_root parent_created
                             else parent_created)
              in Inr (parent_root, created, depth))))"

definition resolve_nip10_thread_meta ::
    "ingest_env \<Rightarrow> nostr_event \<Rightarrow> uuid \<Rightarrow> string + thread_metadata option" where
  "resolve_nip10_thread_meta env ev channel_id =
     (case thread_ancestry (ev_tags ev) of
        None \<Rightarrow> Inr None
      | Some (root_hex, parent_hex) \<Rightarrow>
          (case env_hex32 env parent_hex of
             None \<Rightarrow> Inl ''invalid parent event ID hex''
           | Some parent_bytes \<Rightarrow>
          (case env_event_by_id env parent_bytes of
             Inl e \<Rightarrow> Inl (''db error looking up parent: '' @ e)
           | Inr None \<Rightarrow> Inl ''reply parent not found''
           | Inr (Some parent) \<Rightarrow>
          (case se_channel_id parent of
             None \<Rightarrow> Inl ''parent event has no channel association''
           | Some parent_ch \<Rightarrow>
               if parent_ch \<noteq> channel_id then Inl ''parent event belongs to a different channel''
               else
          (case env_hex32 env root_hex of
             None \<Rightarrow> Inl ''invalid root event ID hex''
           | Some client_root \<Rightarrow>
          (case env_thread_meta env parent_bytes of
             Inl e \<Rightarrow> Inl (''db error looking up thread metadata: '' @ e)
           | Inr meta \<Rightarrow>
               (let parent_created = event_time env (se_event parent) in
                case thread_position env client_root parent_bytes (se_event parent) parent_created meta of
                  Inl e \<Rightarrow> Inl e
                | Inr (root, root_created, depth) \<Rightarrow>
                    Inr (Some \<lparr>tm_event_id = ev_id ev, tm_event_created_at = event_time env ev,
                      tm_channel_id = channel_id, tm_parent_event_id = parent_bytes,
                      tm_parent_created_at = parent_created, tm_root_event_id = root,
                      tm_root_created_at = root_created, tm_depth = depth,
                      tm_broadcast = has_broadcast ev\<rparr>))))))))"

section \<open>Authors and targets\<close>

definition count_e_tags :: "nostr_event \<Rightarrow> nat" where
  "count_e_tags ev = length (filter (\<lambda>t. tag_kind t = ''e'') (ev_tags ev))"

definition content_of_kind :: "string \<Rightarrow> tag \<Rightarrow> string option" where
  "content_of_kind k t = (if tag_kind t = k then tag_content t else None)"

definition effective_message_author :: "ingest_env \<Rightarrow> nostr_event \<Rightarrow> string" where
  "effective_message_author env ev =
     (if ev_pubkey ev = env_relay_pubkey env then
        (let actor = (case first_some (content_of_kind ''actor'') (ev_tags ev) of
                        Some h \<Rightarrow> env_hex32 env h | None \<Rightarrow> None)
         in case actor of
              Some a \<Rightarrow> a
            | None \<Rightarrow>
                (case first_some (\<lambda>t. case content_of_kind ''p'' t of
                                   Some h \<Rightarrow> env_hex32 env h | None \<Rightarrow> None) (ev_tags ev) of
                   Some p \<Rightarrow> p | None \<Rightarrow> ev_pubkey ev))
      else ev_pubkey ev)"

text \<open>\<open>match (event channel, target channel)\<close> of edits and votes.\<close>

definition check_same_channel :: "uuid option \<Rightarrow> uuid option \<Rightarrow> string + unit" where
  "check_same_channel own target =
     (case own of
        None \<Rightarrow> Inr ()
      | Some ch \<Rightarrow>
          (case target of
             None \<Rightarrow> Inl ''target event has no channel''
           | Some target_ch \<Rightarrow>
               if ch \<noteq> target_ch then Inl ''target event belongs to a different channel'' else Inr ()))"

definition find_target :: "ingest_env \<Rightarrow> string \<Rightarrow> nostr_event \<Rightarrow> string + stored_event" where
  "find_target env what ev =
     (case first_target ev of
        None \<Rightarrow> Inl (''missing e tag for '' @ what @ '' target'')
      | Some target_hex \<Rightarrow>
          (case env_hex32 env target_hex of
             None \<Rightarrow> Inl ''invalid target event ID''
           | Some target_bytes \<Rightarrow>
               (case env_event_by_id env target_bytes of
                  Inl e \<Rightarrow> Inl (''db error: '' @ e)
                | Inr None \<Rightarrow> Inl (what @ '' target event not found'')
                | Inr (Some target) \<Rightarrow> Inr target)))"

definition validate_edit_ownership :: "ingest_env \<Rightarrow> nostr_event \<Rightarrow> string + unit" where
  "validate_edit_ownership env ev =
     and_then (find_target env ''edit'' ev) (\<lambda>target.
     and_then (check_same_channel (extract_channel_id env ev) (se_channel_id target)) (\<lambda>_.
     let author = effective_message_author env (se_event target); actor = ev_pubkey ev in
     if author = actor then
       (case se_channel_id target of
          None \<Rightarrow> Inr ()
        | Some ch_id \<Rightarrow>
            (case env_is_member env ch_id actor of
               Inl e \<Rightarrow> Inl (''db error checking membership: '' @ e)
             | Inr is_member \<Rightarrow>
                 if is_member then Inr ()
                 else if (case env_channel env ch_id of Inr ch \<Rightarrow> cr_visibility ch = ''open'' | Inl _ \<Rightarrow> False)
                 then Inr ()
                 else Inl ''restricted: not a channel member''))
     else
       (case env_agent_owner env author actor of
          Inl e \<Rightarrow> Inl (''db error checking agent ownership: '' @ e)
        | Inr is_owner \<Rightarrow> if is_owner then Inr () else Inl ''must be event author to edit'')))"

definition validate_forum_vote_target :: "ingest_env \<Rightarrow> nostr_event \<Rightarrow> string + unit" where
  "validate_forum_vote_target env ev =
     and_then (find_target env ''vote'' ev) (\<lambda>target.
     let target_kind = ev_kind (se_event target) in
     if target_kind \<noteq> KIND_FORUM_POST \<and> target_kind \<noteq> KIND_FORUM_COMMENT
     then Inl ''vote target must be a forum post or comment''
     else check_same_channel (extract_channel_id env ev) (se_channel_id target))"

text \<open>The \<open>d_tag\<close> column of an event row, from \<open>crates/buzz-db/src/event.rs\<close>.\<close>

definition extract_d_tag :: "nostr_event \<Rightarrow> string option" where
  "extract_d_tag ev =
     (if \<not> is_parameterized_replaceable (ev_kind ev) then None
      else Some (or_empty (first_some (\<lambda>p. if length p \<ge> 2 \<and> p ! 0 = ''d'' then Some (p ! 1) else None)
             (ev_tags ev))))"

end
