(* ===== verification/IngestEnvelopes.thy ===== *)
theory IngestEnvelopes
  imports IngestRules
begin

text \<open>
  The envelope validators of \<open>crates/buzz-relay/src/handlers/ingest.rs\<close>: what the relay
  demands of the public part of diffs, engrams, shared-gated definitions, projects, turn
  metrics and reminders before it stores them. A validator that loops over the tags with
  several accumulators is a fold over a state of those accumulators; a project rejection
  carries the stable rule identifier.
\<close>

section \<open>Diffs\<close>

text \<open>One turn of the loop: the flags \<open>has_repo\<close> and \<open>has_commit\<close>.\<close>

definition short_sha :: "string \<Rightarrow> bool" where
  "short_sha sha \<longleftrightarrow> length sha < 7 \<or> \<not> list_all is_ascii_hexdigit sha"

definition diff_step :: "tag \<Rightarrow> bool \<times> bool \<Rightarrow> string + (bool \<times> bool)" where
  "diff_step parts s =
     (if length parts < 2 then Inr s
      else if parts ! 0 = ''repo'' then
        (if \<not> is_http_url (parts ! 1) then Inl ''repo URL must be http or https''
         else Inr (True, snd s))
      else if parts ! 0 = ''commit'' then
        (if short_sha (parts ! 1) then Inl ''commit SHA must be at least 7 hex characters''
         else Inr (fst s, True))
      else if parts ! 0 = ''parent-commit'' then
        (if short_sha (parts ! 1) then Inl ''parent-commit SHA must be at least 7 hex characters''
         else Inr s)
      else if parts ! 0 = ''branch'' \<and> (length parts < 3 \<or> parts ! 1 = [] \<or> parts ! 2 = []) then
        Inl ''branch tag requires both source and target''
      else if parts ! 0 = ''pr'' \<and>
          (case parse_unsigned (2 ^ 32 - 1) (parts ! 1) of Some n \<Rightarrow> n = 0 | None \<Rightarrow> True) then
        Inl ''pr number must be a positive integer''
      else Inr s)"

definition validate_diff_event :: "nostr_event \<Rightarrow> string + unit" where
  "validate_diff_event ev =
     (if length (ev_content ev) > 61440 then Inl ''diff content exceeds 60KB limit''
      else and_then (try_fold diff_step (ev_tags ev) (False, False)) (\<lambda>(has_repo, has_commit).
        if \<not> has_repo then Inl ''diff event requires a repo tag''
        else if \<not> has_commit then Inl ''diff event requires a commit tag''
        else Inr ()))"

section \<open>NIP-44 ciphertext\<close>

definition is_base64_char :: "char \<Rightarrow> bool" where
  "is_base64_char c \<longleftrightarrow> is_ascii_alphanumeric c \<or> c = CHR ''+'' \<or> c = CHR ''/''"

definition base64_step :: "nat \<Rightarrow> nat \<times> char \<Rightarrow> nat \<Rightarrow> string + nat" where
  "base64_step len ib pad_count =
     (case ib of (i, b) \<Rightarrow>
       if is_base64_char b then
         (if pad_count > 0 then Inl ''agent-engram content is not valid base64'' else Inr pad_count)
       else if b = CHR ''='' then
         (if i < len - 2 then Inl ''agent-engram content is not valid base64''
          else if pad_count + 1 > 2 then Inl ''agent-engram content is not valid base64''
          else Inr (pad_count + 1))
       else Inl ''agent-engram content is not valid base64'')"

definition b64_val :: "char \<Rightarrow> nat option" where
  "b64_val c =
     (if is_ascii_uppercase c then Some (code_of c - 65)
      else if is_ascii_lowercase c then Some (code_of c - 97 + 26)
      else if is_ascii_digit c then Some (code_of c - 48 + 52)
      else if c = CHR ''+'' then Some 62
      else if c = CHR ''/'' then Some 63
      else None)"

text \<open>The shifts are on \<open>u8\<close>: \<open>v0 << 2\<close> drops the bits above 255.\<close>

definition first_byte :: "nat \<Rightarrow> nat \<Rightarrow> nat" where
  "first_byte v0 v1 = or ((v0 * 4) mod 256) (v1 div 16)"

definition validate_engram_nip44_content :: "string \<Rightarrow> string + unit" where
  "validate_engram_nip44_content content =
     (let len = length content in
      if content = [] then Inl ''agent-engram content must not be empty (NIP-44 ciphertext)''
      else if len mod 4 \<noteq> 0 then Inl ''agent-engram content is not valid base64 (length)''
      else and_then (try_fold (base64_step len) (enumerate 0 content) 0) (\<lambda>pad_count.
        let decoded_len = (len div 4) * 3 - pad_count in
        if decoded_len < 99 then Inl ''agent-engram content too short for NIP-44 v2''
        else (case b64_val (content ! 0) of
                None \<Rightarrow> Inl ''agent-engram content is not valid base64''
              | Some v0 \<Rightarrow>
                  (case b64_val (content ! 1) of
                     None \<Rightarrow> Inl ''agent-engram content is not valid base64''
                   | Some v1 \<Rightarrow>
                       if first_byte v0 v1 \<noteq> 2
                       then Inl ''agent-engram content is not NIP-44 v2 (expected 0x02 version prefix)''
                       else Inr ()))))"

section \<open>Engrams and turn metrics\<close>

text \<open>The values of the tags with this name that have a value.\<close>

definition values_of :: "string \<Rightarrow> nostr_event \<Rightarrow> string list" where
  "values_of k ev =
     List.map_filter (\<lambda>parts. if length parts \<ge> 2 \<and> parts ! 0 = k then Some (parts ! 1) else None)
       (ev_tags ev)"

definition validate_engram_envelope :: "nostr_event \<Rightarrow> string + unit" where
  "validate_engram_envelope ev =
     (let d_tags = values_of ''d'' ev; p_tags = values_of ''p'' ev in
      if length d_tags \<noteq> 1 then Inl ''agent-engram event must have exactly one `d` tag''
      else if length p_tags \<noteq> 1 then Inl ''agent-engram event must have exactly one `p` tag''
      else if \<not> is_lower_hex 64 (d_tags ! 0) then Inl ''agent-engram `d` tag must be 64 lowercase hex chars''
      else if \<not> is_lower_hex 64 (p_tags ! 0) then
        Inl ''agent-engram `p` tag must be 64 lowercase hex chars (pubkey)''
      else validate_engram_nip44_content (ev_content ev))"

definition validate_agent_turn_metric_envelope :: "nostr_event \<Rightarrow> string + unit" where
  "validate_agent_turn_metric_envelope ev =
     (let p_tags = values_of ''p'' ev; agent_tags = values_of ''agent'' ev in
      if values_of ''h'' ev \<noteq> [] then
        Inl ''agent-turn-metric event must not have an `h` tag (channel identity belongs inside the encrypted payload)''
      else if length p_tags \<noteq> 1 then Inl ''agent-turn-metric event must have exactly one `p` tag''
      else if \<not> is_lower_hex 64 (p_tags ! 0) then
        Inl ''agent-turn-metric `p` tag must be 64 lowercase hex chars''
      else if length agent_tags \<noteq> 1 then Inl ''agent-turn-metric event must have exactly one `agent` tag''
      else if \<not> is_lower_hex 64 (agent_tags ! 0) then
        Inl ''agent-turn-metric `agent` tag must be 64 lowercase hex chars''
      else if agent_tags ! 0 \<noteq> ev_pubkey ev then
        Inl ''agent-turn-metric `agent` tag must equal event pubkey''
      else (case validate_engram_nip44_content (ev_content ev) of
              Inl e \<Rightarrow> Inl (''agent-turn-metric: '' @ e) | Inr u \<Rightarrow> Inr u))"

section \<open>Shared-gated definitions\<close>

definition shared_step :: "tag \<Rightarrow> nat \<Rightarrow> string + nat" where
  "shared_step parts n =
     (if parts \<noteq> [] \<and> parts ! 0 = ''shared'' then
        (if length parts \<noteq> 2 \<or> parts ! 1 \<noteq> ''true''
         then Inl '' `shared` tag must be exactly [shared,true]'' else Inr (n + 1))
      else Inr n)"

definition validate_shared_tag :: "nostr_event \<Rightarrow> string + unit" where
  "validate_shared_tag ev =
     and_then (try_fold shared_step (ev_tags ev) 0) (\<lambda>shared_count.
     refuse_if (shared_count > 1) '' must have at most one `shared` tag'')"

definition single_bounded_d_tag :: "nostr_event \<Rightarrow> string + string" where
  "single_bounded_d_tag ev =
     (let d_tags = map (\<lambda>t. case t of _ # v # _ \<Rightarrow> Some v | _ \<Rightarrow> None)
                     (filter (\<lambda>t. case t of k # _ \<Rightarrow> k = ''d'' | [] \<Rightarrow> False) (ev_tags ev)) in
      if length d_tags \<noteq> 1 then Inl '' must have exactly one `d` tag''
      else
        (let d = or_empty (d_tags ! 0) in
         if d = [] then Inl '' `d` tag must not be empty''
         else if char_count d > 64 then Inl '' `d` tag too long''
         else if has_control d \<or> has_whitespace d then
           Inl '' `d` tag must not contain control characters or whitespace''
         else Inr d))"

definition slug_tail_char :: "char \<Rightarrow> bool" where
  "slug_tail_char c \<longleftrightarrow> is_ascii_lowercase c \<or> is_ascii_digit c \<or> c = CHR ''_'' \<or> c = CHR ''-''"

definition validate_persona_envelope :: "nostr_event \<Rightarrow> string + unit" where
  "validate_persona_envelope ev =
     and_then (validate_shared_tag ev) (\<lambda>_.
     and_then (single_bounded_d_tag ev) (\<lambda>d.
     if \<not> is_ascii_lowercase (d ! 0) \<and> \<not> is_ascii_digit (d ! 0)
     then Inl ''persona event `d` tag must start with a lowercase letter or digit''
     else if \<not> list_all slug_tail_char (tl d)
     then Inl ''persona event `d` tag must match [a-z0-9_-] after the first character''
     else Inr ()))"

definition validate_team_catalog_envelope :: "nostr_event \<Rightarrow> string + unit" where
  "validate_team_catalog_envelope ev =
     and_then (validate_shared_tag ev) (\<lambda>_.
     and_then (single_bounded_d_tag ev) (\<lambda>_. Inr ()))"

section \<open>Projects\<close>

definition RELAY_PROJECT_MEMBER_CAP :: nat where "RELAY_PROJECT_MEMBER_CAP = 64"
definition PROJECT_NAME_MAX_LEN :: nat where "PROJECT_NAME_MAX_LEN = 256"
definition PROJECT_DESCRIPTION_MAX_LEN :: nat where "PROJECT_DESCRIPTION_MAX_LEN = 2048"
definition PROJECT_METADATA_TAG_MAX_LEN :: nat where "PROJECT_METADATA_TAG_MAX_LEN = 256"

definition PROJECT_SINGLETON_METADATA_TAGS :: "string list" where
  "PROJECT_SINGLETON_METADATA_TAGS = [''name'', ''description'', ''buzz-channel'', ''buzz-visibility'']"

definition PROJECT_MEMBER_KIND_SEGMENT :: string where
  "PROJECT_MEMBER_KIND_SEGMENT = ''30617''"

record project_rejection =
  pr_rule :: string
  pr_message :: string

definition project_rejection_new :: "string \<Rightarrow> string \<Rightarrow> project_rejection" where
  "project_rejection_new rule message = \<lparr>pr_rule = rule, pr_message = message\<rparr>"

definition project_rejection_text :: "project_rejection \<Rightarrow> string" where
  "project_rejection_text r = ''['' @ pr_rule r @ ''] '' @ pr_message r"

text \<open>The accumulators of the loop over the tags; the last value of a metadata tag is kept.\<close>

record project_scan =
  ps_d :: "string list"
  ps_members :: "string list"
  ps_name :: "string option"
  ps_description :: "string option"
  ps_channel :: "string option"
  ps_visibility :: "string option"
  ps_counts :: "nat list"

definition project_scan_start :: project_scan where
  "project_scan_start =
     \<lparr>ps_d = [], ps_members = [], ps_name = None, ps_description = None, ps_channel = None,
      ps_visibility = None, ps_counts = replicate (length PROJECT_SINGLETON_METADATA_TAGS) 0\<rparr>"

definition project_scan_step :: "tag \<Rightarrow> project_scan \<Rightarrow> project_scan" where
  "project_scan_step parts s =
     (case parts of
        [] \<Rightarrow> s
      | name # rest \<Rightarrow>
          (let val = (case rest of v # _ \<Rightarrow> v | [] \<Rightarrow> []) in
           if name = ''d'' then s\<lparr>ps_d := ps_d s @ [val]\<rparr>
           else if name = ''a'' then s\<lparr>ps_members := ps_members s @ [val]\<rparr>
           else (case position (\<lambda>k. k = name) PROJECT_SINGLETON_METADATA_TAGS of
               None \<Rightarrow> s
             | Some i \<Rightarrow>
                 (let s' = s\<lparr>ps_counts := (ps_counts s)[i := ps_counts s ! i + 1]\<rparr> in
                  if name = ''name'' then s'\<lparr>ps_name := Some val\<rparr>
                  else if name = ''description'' then s'\<lparr>ps_description := Some val\<rparr>
                  else if name = ''buzz-channel'' then s'\<lparr>ps_channel := Some val\<rparr>
                  else if name = ''buzz-visibility'' then s'\<lparr>ps_visibility := Some val\<rparr>
                  else s'))))"

definition parse_project_member_coordinate :: "string \<Rightarrow> project_rejection + unit" where
  "parse_project_member_coordinate coordinate =
     (let malformed = project_rejection_new ''member-coordinate-malformed''
            ''project event member `a` tag must be `30617:<lowercase-64-hex-owner>:<repo-d>`''
      in case splitn3 CHR '':'' coordinate of
           (kind, Some owner, Some repo_d) \<Rightarrow>
             if kind \<noteq> PROJECT_MEMBER_KIND_SEGMENT then Inl malformed
             else if \<not> is_lower_hex 64 owner then Inl malformed
             else if repo_d = [] then Inl malformed
             else Inr ()
         | _ \<Rightarrow> Inl malformed)"

definition project_member_step :: "string \<Rightarrow> string list \<Rightarrow> project_rejection + string list" where
  "project_member_step member seen =
     and_then (parse_project_member_coordinate member) (\<lambda>_.
     if List.member seen member
     then Inl (project_rejection_new ''member-duplicate'' ''project event has duplicate member coordinate'')
     else Inr (member # seen))"

definition metadata_bound :: "string option \<Rightarrow> nat \<Rightarrow> string \<Rightarrow> project_rejection + unit" where
  "metadata_bound o' lim field =
     check_some o' (\<lambda>v. refuse_if (length v > lim)
       (project_rejection_new ''metadata-length'' (''project event `'' @ field @ ''` tag too long'')))"

definition relay_validate_project_envelope :: "nostr_event \<Rightarrow> project_rejection + unit" where
  "relay_validate_project_envelope ev =
     (let s = fold project_scan_step (ev_tags ev) project_scan_start in
      and_then (refuse_if (length (ps_d s) \<noteq> 1)
        (project_rejection_new ''d-cardinality'' ''project event must have exactly one `d` tag'')) (\<lambda>_.
      and_then (refuse_if (ps_d s ! 0 = [])
        (project_rejection_new ''d-empty'' ''project event `d` tag must not be empty'')) (\<lambda>_.
      and_then (refuse_if (length (ps_members s) > RELAY_PROJECT_MEMBER_CAP)
        (project_rejection_new ''member-cap'' ''project event must have at most 64 member `a` tags'')) (\<lambda>_.
      and_then (try_all (\<lambda>parts. refuse_if
          (parts \<noteq> [] \<and> hd parts = ''a'' \<and> \<not> (2 \<le> length parts \<and> length parts \<le> 3))
          (project_rejection_new ''member-tag-arity''
            ''project event member `a` tag must have exactly 2 or 3 elements'')) (ev_tags ev)) (\<lambda>_.
      and_then (try_fold project_member_step (ps_members s) []) (\<lambda>_.
      and_then (try_all (\<lambda>count. refuse_if (count > 1)
          (project_rejection_new ''metadata-cardinality''
            ''project event must have at most one tag of this name'')) (ps_counts s)) (\<lambda>_.
      and_then (metadata_bound (ps_name s) PROJECT_NAME_MAX_LEN ''name'') (\<lambda>_.
      and_then (metadata_bound (ps_description s) PROJECT_DESCRIPTION_MAX_LEN ''description'') (\<lambda>_.
      and_then (metadata_bound (ps_channel s) PROJECT_METADATA_TAG_MAX_LEN ''buzz-channel'') (\<lambda>_.
      metadata_bound (ps_visibility s) PROJECT_METADATA_TAG_MAX_LEN ''buzz-visibility''))))))))))"

section \<open>Reminders\<close>

definition MAX_NOT_BEFORE :: nat where
  "MAX_NOT_BEFORE = 9007199254740991"

definition validate_not_before :: "string \<Rightarrow> string + nat" where
  "validate_not_before v =
     (if v = [] \<or> \<not> list_all is_ascii_digit v then Inl ''malformed not_before''
      else if length v > 1 \<and> starts_with ''0'' v then Inl ''malformed not_before''
      else (case parse_unsigned (2 ^ 64 - 1) v of
              None \<Rightarrow> Inl ''malformed not_before''
            | Some n \<Rightarrow> if n > MAX_NOT_BEFORE then Inl ''malformed not_before'' else Inr n))"

record reminder_scan =
  rs_not_before :: "nat option"
  rs_expiration :: "string option"
  rs_d_count :: nat
  rs_d_empty :: bool

definition reminder_step :: "tag \<Rightarrow> reminder_scan \<Rightarrow> string + reminder_scan" where
  "reminder_step parts s =
     (if length parts < 2 then Inr s
      else if parts ! 0 = ''not_before'' then
        (if rs_not_before s \<noteq> None then Inl ''malformed not_before''
         else and_then (validate_not_before (parts ! 1)) (\<lambda>n. Inr (s\<lparr>rs_not_before := Some n\<rparr>)))
      else if parts ! 0 = ''expiration'' then Inr (s\<lparr>rs_expiration := Some (parts ! 1)\<rparr>)
      else if parts ! 0 = ''d'' then
        Inr (s\<lparr>rs_d_count := min 255 (rs_d_count s + 1),
               rs_d_empty := (rs_d_empty s \<or> parts ! 1 = [])\<rparr>)
      else Inr s)"

text \<open>
  \<open>now\<close> and \<open>max_delta\<close> are \<open>u64\<close> and their sum wraps in a release build; \<open>max_delta\<close> is the
  configured horizon or its default.
\<close>

definition validate_event_reminder :: "nat \<Rightarrow> nat \<Rightarrow> nostr_event \<Rightarrow> string + unit" where
  "validate_event_reminder now max_delta ev =
     and_then (try_fold reminder_step (ev_tags ev)
       \<lparr>rs_not_before = None, rs_expiration = None, rs_d_count = 0, rs_d_empty = False\<rparr>) (\<lambda>s.
     if rs_d_count s = 0 then Inl ''missing d tag''
     else if rs_d_count s > 1 then Inl ''duplicate d tag''
     else if rs_d_empty s then Inl ''empty d tag''
     else (case rs_not_before s of
             None \<Rightarrow> Inr ()
           | Some nb \<Rightarrow>
               if nb > (now + max_delta) mod 2 ^ 64 then Inl ''not_before too far in future''
               else (case rs_expiration s of
                       None \<Rightarrow> Inr ()
                     | Some e \<Rightarrow>
                         (case parse_unsigned (2 ^ 64 - 1) e of
                            None \<Rightarrow> Inr ()
                          | Some exp \<Rightarrow> if exp \<le> nb then Inl ''expiration before not_before'' else Inr ()))))"

section \<open>What the validators establish\<close>

lemma shared_fold:
  "try_fold shared_step tags n = Inr m \<Longrightarrow>
   m = n + length (filter (\<lambda>t. tag_kind t = ''shared'') tags) \<and>
   (\<forall>t \<in> set tags. tag_kind t = ''shared'' \<longrightarrow> t = [''shared'', ''true''])"
proof (induction tags arbitrary: n)
  case (Cons t tags)
  from Cons.prems obtain k where k: "shared_step t n = Inr k" and r: "try_fold shared_step tags k = Inr m"
    by (auto simp: and_then_Inr)
  have "(tag_kind t = ''shared'' \<and> t = [''shared'', ''true''] \<and> k = n + 1) \<or>
      (tag_kind t \<noteq> ''shared'' \<and> k = n)"
    using k by (cases t) (auto simp: shared_step_def tag_kind_def length_Suc_conv numeral_2_eq_2 split: if_splits)
  then show ?case using Cons.IH [OF r] by auto
qed simp

text \<open>
  On the read side, an event of a shared-gated kind that ingest accepted is shared exactly
  when it carries a \<open>shared\<close> tag: the validators leave no stored head that one reader could
  take for shared and another for private.
\<close>

theorem accepted_definitions_are_unambiguous:
  assumes "validate_persona_envelope ev = Inr () \<or> validate_team_catalog_envelope ev = Inr ()"
  shows "event_is_shared ev \<longleftrightarrow> has_tag_kind ''shared'' ev"
proof -
  let ?ts = "filter (\<lambda>t. tag_kind t = ''shared'') (ev_tags ev)"
  have "validate_shared_tag ev = Inr ()"
    using assms
    by (auto simp: validate_persona_envelope_def validate_team_catalog_envelope_def and_then_Inr)
  then obtain n where n: "try_fold shared_step (ev_tags ev) 0 = Inr n" "n \<le> 1"
    by (auto simp: validate_shared_tag_def and_then_Inr refuse_if_Inr)
  then have len: "length ?ts \<le> 1"
    and all: "\<forall>t \<in> set (ev_tags ev). tag_kind t = ''shared'' \<longrightarrow> t = [''shared'', ''true'']"
    using shared_fold [OF n(1)] by auto
  have "?ts = [[''shared'', ''true'']] \<longleftrightarrow> has_tag_kind ''shared'' ev"
  proof
    assume "has_tag_kind ''shared'' ev"
    then obtain t where t: "t \<in> set ?ts" by (auto simp: has_tag_kind_def list_ex_iff)
    then obtain u us where us: "?ts = u # us" by (cases ?ts) auto
    then have "us = []" using len by simp
    moreover have "u = [''shared'', ''true'']"
      using all us filter_eq_ConsD [of _ "ev_tags ev" u us] by (auto dest: filter_eq_ConsD)
    ultimately show "?ts = [[''shared'', ''true'']]" using us by simp
  next
    assume "?ts = [[''shared'', ''true'']]"
    then have "[''shared'', ''true''] \<in> set ?ts" by simp
    then show "has_tag_kind ''shared'' ev" by (auto simp: has_tag_kind_def list_ex_iff)
  qed
  then show ?thesis using event_is_shared_iff [of ev] by simp
qed

section \<open>Reminders\<close>

lemma dec_value_snoc: "dec_value (u @ [c]) = dec_value u * 10 + (code_of c - 48)"
  by (simp add: dec_value_def)

lemma digit_char_code: "is_ascii_digit c \<Longrightarrow> digit_char (code_of c - 48) = c"
  by (simp add: digit_char_def is_ascii_digit_def code_of_def)

lemma digit_char_zero: "digit_char 0 = CHR ''0''"
  by code_simp

lemma canonical_decimal:
  "v \<noteq> [] \<Longrightarrow> list_all is_ascii_digit v \<Longrightarrow> (length v > 1 \<longrightarrow> hd v \<noteq> CHR ''0'') \<Longrightarrow>
   decimal (dec_value v) = v \<and> (hd v \<noteq> CHR ''0'' \<longrightarrow> dec_value v > 0)"
proof (induction v rule: rev_induct)
  case (snoc c u)
  let ?d = "code_of c - 48"
  have c: "is_ascii_digit c" and d: "?d < 10"
    using snoc.prems(2) by (auto simp: is_ascii_digit_def)
  show ?case
  proof (cases "u = []")
    case True
    have "c \<noteq> CHR ''0'' \<Longrightarrow> ?d > 0"
      using digit_char_code [OF c] digit_char_zero by (cases "?d = 0") auto
    then show ?thesis
      using True c d by (simp add: dec_value_def decimal.simps [of ?d] digit_char_code)
  next
    case False
    then have nz: "hd u \<noteq> CHR ''0''" using snoc.prems(3) by auto
    then have u: "decimal (dec_value u) = u" "dec_value u > 0"
      using snoc.IH False snoc.prems(2) by auto
    then have "decimal (dec_value (u @ [c])) = u @ [c]"
      using d c by (subst decimal.simps) (simp add: dec_value_snoc digit_char_code)
    then show ?thesis using u by (simp add: dec_value_snoc)
  qed
qed simp

lemma decimal_head: "n > 0 \<Longrightarrow> hd (decimal n) \<noteq> CHR ''0''"
proof (induction n rule: decimal.induct)
  case (1 n)
  show ?case
  proof (cases "n < 10")
    case True
    then have "code_of (digit_char n) \<noteq> code_of (digit_char 0)" using 1(2) by (simp add: code_digit)
    then show ?thesis using True by (auto simp: decimal.simps [of n] digit_char_zero)
  next
    case False
    then show ?thesis using 1(1) by (simp add: decimal.simps [of n])
  qed
qed

lemma length_decimal_zero: "length (decimal 0) = 1"
  by (simp add: decimal.simps)

text \<open>
  The schedule of a reminder has one spelling: the relay accepts a \<open>not_before\<close> value
  exactly when it is the canonical decimal text of a number up to 2^53 - 1, and reads that
  number. Leading zeros, signs, white space and larger values are refused.
\<close>

theorem not_before_is_canonical:
  "validate_not_before v = Inr n \<longleftrightarrow> v = decimal n \<and> n \<le> 9007199254740991"
proof
  assume l: "validate_not_before v = Inr n"
  then have v: "v \<noteq> []" "list_all is_ascii_digit v" "length v > 1 \<longrightarrow> hd v \<noteq> CHR ''0''"
      and p: "parse_unsigned (2 ^ 64 - 1) v = Some n" and n: "n \<le> 9007199254740991"
    by (auto simp: validate_not_before_def MAX_NOT_BEFORE_def starts_with_def take_Suc split: if_splits option.splits)
  have "strip_plus v = v"
    using v(1,2) by (cases v) (auto simp: strip_plus_def is_ascii_digit_def code_of_def)
  then have "n = dec_value v"
    using p by (auto simp: parse_unsigned_def Let_def split: if_splits)
  then show "v = decimal n \<and> n \<le> 9007199254740991"
    using canonical_decimal [OF v] n by simp
next
  assume r: "v = decimal n \<and> n \<le> 9007199254740991"
  have "list_all is_ascii_digit (decimal n)" by (auto simp: list_all_iff dest: decimal_digits)
  moreover have "length (decimal n) > 1 \<Longrightarrow> hd (decimal n) \<noteq> CHR ''0''"
    using decimal_head [of n] length_decimal_zero by (cases "n = 0") auto
  moreover have "parse_unsigned (2 ^ 64 - 1) (decimal n) = Some n"
    using r by (intro parse_unsigned_decimal) simp
  ultimately show "validate_not_before v = Inr n"
    using r by (auto simp: validate_not_before_def MAX_NOT_BEFORE_def starts_with_def take_Suc)
qed

text \<open>A repeated \<open>expiration\<close> tag: only the last one is compared with the schedule.\<close>

lemma earlier_expiration_is_ignored:
  "validate_event_reminder 0 31536000
     \<lparr>ev_id = i, ev_pubkey = k, ev_created_at = c, ev_kind = 30300,
      ev_tags = [[''d'', ''x''], [''not_before'', ''50''], [''expiration'', ''10''], [''expiration'', ''60'']],
      ev_content = t\<rparr> = Inr ()"
proof -
  have "digit_char 5 = CHR ''5''" by code_simp
  then have n: "validate_not_before ''50'' = Inr 50"
    by (subst not_before_is_canonical) (simp add: decimal.simps digit_char_zero)
  have "parse_unsigned 18446744073709551615 ''60'' = Some 60"
    by (simp add: parse_unsigned_def strip_plus_def ascii_defs dec_value_def)
  then show ?thesis
    by (simp add: validate_event_reminder_def reminder_step_def n and_then_def)
qed

section \<open>NIP-44 content\<close>

lemma base64_fold_pads:
  "try_fold (base64_step len) ibs p = Inr q \<Longrightarrow> p \<le> 2 \<Longrightarrow> q \<le> 2"
  by (erule try_fold_inv [where P = "\<lambda>q. q \<le> 2"]) (auto simp: base64_step_def split: if_splits prod.splits)

text \<open>
  Content the relay accepts as NIP-44 ciphertext has the length of one: a multiple of four
  and at least 132 characters, the lower bound of the observer's own length test.
\<close>

theorem accepted_ciphertext_length:
  assumes "validate_engram_nip44_content c = Inr ()"
  shows "length c mod 4 = 0 \<and> 132 \<le> length c"
proof -
  obtain p where p: "try_fold (base64_step (length c)) (enumerate 0 c) 0 = Inr p"
      and len: "length c mod 4 = 0" "\<not> (length c div 4) * 3 - p < 99"
    using assms by (auto simp: validate_engram_nip44_content_def Let_def and_then_Inr split: if_splits)
  have "99 \<le> (length c div 4) * 3" using len(2) by linarith
  then have "33 \<le> length c div 4" by simp
  then show ?thesis using len(1) by (auto simp: mod_eq_0_iff_dvd elim!: dvdE)
qed

section \<open>Threads\<close>

text \<open>
  A resolved reply stays in its channel and its thread: the parent is a stored event of the
  same channel, the root the client names is the parent's root, and the depth lies between 1
  and 100 when the parent's row has a depth of at least 0.
\<close>

theorem resolved_reply_is_well_placed:
  assumes "resolve_nip10_thread_meta env ev ch = Inr (Some m)"
    and "\<And>r. env_thread_meta env (tm_parent_event_id m) = Inr (Some r) \<Longrightarrow> 0 \<le> tr_depth r"
  shows "(\<exists>p. env_event_by_id env (tm_parent_event_id m) = Inr (Some p) \<and> se_channel_id p = Some ch) \<and>
    tm_channel_id m = ch \<and> tm_event_id m = ev_id ev \<and> 1 \<le> tm_depth m \<and> tm_depth m \<le> 100"
proof -
  obtain rh ph pb p cr meta root rt d where
      pb: "env_hex32 env ph = Some pb" and p: "env_event_by_id env pb = Inr (Some p)"
      and c: "se_channel_id p = Some ch" and meta: "env_thread_meta env pb = Inr meta"
      and pos: "thread_position env cr pb (se_event p) (event_time env (se_event p)) meta = Inr (root, rt, d)"
      and m: "tm_parent_event_id m = pb" "tm_channel_id m = ch" "tm_depth m = d" "tm_event_id m = ev_id ev"
    using assms(1)
    by (auto simp: resolve_nip10_thread_meta_def Let_def split: option.splits sum.splits if_splits prod.splits)
  have "1 \<le> d \<and> d \<le> 100"
    using pos assms(2) meta m(1)
    by (auto simp: thread_position_def Let_def split: option.splits if_splits)
  then show ?thesis using p c m by auto
qed

section \<open>Concrete events\<close>

theorem accepted_ciphertext_length_witness:
  "132 \<le> length (''Ag'' @ replicate 130 CHR ''A'')"
proof -
  have "validate_engram_nip44_content (''Ag'' @ replicate 130 CHR ''A'') = Inr ()" by code_simp
  from accepted_ciphertext_length [OF this] show ?thesis by simp
qed

definition demo_persona :: nostr_event where
  "demo_persona =
     \<lparr>ev_id = ''id'', ev_pubkey = ''alice'', ev_created_at = 0, ev_kind = 30175,
      ev_tags = [[''d'', ''scout''], [''shared'', ''true'']], ev_content = []\<rparr>"

theorem accepted_definitions_are_unambiguous_witness: "event_is_shared demo_persona"
proof -
  have "validate_persona_envelope demo_persona = Inr ()" by code_simp
  then have "event_is_shared demo_persona \<longleftrightarrow> has_tag_kind ''shared'' demo_persona"
    by (intro accepted_definitions_are_unambiguous disjI1)
  then show ?thesis by (simp add: demo_persona_def has_tag_kind_def tag_kind_def)
qed

text \<open>A reply to a stored root message of the same channel.\<close>

definition demo_parent_id :: string where
  "demo_parent_id = replicate 64 CHR ''a''"

definition demo_thread_env :: ingest_env where
  "demo_thread_env =
     \<lparr>env_uuid = Some, env_hex32 = Some, env_datetime = Some, env_now = 0,
      env_event_by_id = (\<lambda>i. Inr (Some (stored_event_new 0
        \<lparr>ev_id = i, ev_pubkey = ''bob'', ev_created_at = 5, ev_kind = 9, ev_tags = [[''h'', ''room'']],
         ev_content = ''root''\<rparr> (Some ''room'')))),
      env_thread_meta = (\<lambda>_. Inr None), env_is_member = (\<lambda>_ _. Inr True), env_channel = (\<lambda>_. Inl []),
      env_agent_owner = (\<lambda>_ _. Inr False), env_relay_pubkey = []\<rparr>"

definition demo_reply :: nostr_event where
  "demo_reply =
     \<lparr>ev_id = ''id'', ev_pubkey = ''alice'', ev_created_at = 9, ev_kind = 9,
      ev_tags = [[''h'', ''room''], [''e'', demo_parent_id, [], ''reply'']], ev_content = ''re''\<rparr>"

theorem resolved_reply_is_well_placed_witness:
  "\<exists>m. resolve_nip10_thread_meta demo_thread_env demo_reply ''room'' = Inr (Some m) \<and> tm_depth m \<le> 100 \<and>
     tm_channel_id m = ''room''"
proof -
  have hex: "is_hex64 demo_parent_id"
    by (simp add: is_hex64_def demo_parent_id_def list_all_iff ascii_defs)
  obtain m where m: "resolve_nip10_thread_meta demo_thread_env demo_reply ''room'' = Inr (Some m)"
    by (simp add: resolve_nip10_thread_meta_def demo_reply_def demo_thread_env_def thread_ancestry_def
        thread_markers_def marker_step_def hex thread_position_def parent_root_of_def marked_ancestor_def
        stored_event_new_def Let_def)
  moreover from m have "tm_depth m \<le> 100 \<and> tm_channel_id m = ''room''"
    using resolved_reply_is_well_placed [OF m] by (simp add: demo_thread_env_def)
  ultimately show ?thesis by blast
qed

end
