(* ===== verification/IngestPipeline.thy ===== *)
theory IngestPipeline
  imports IngestEnvelopes "HOL-Library.Word"
begin

text \<open>
  The event ingest pipeline of the relay, \<open>ingest_event\<close> in
  \<open>crates/buzz-relay/src/handlers/ingest.rs\<close>, with the trace guard of
  \<open>crates/buzz-relay/src/conformance/mod.rs\<close>.

  \<^item> A step of the pipeline takes the relay (its world and the trace of the request) to a
    result and the relay after it. The world is a type variable: the database, the handlers
    of other components, the signature check and media validation are the operations
    \<open>ingest_ops\<close>. The theorems hold for every choice of them.
  \<^item> A panic is the error \<open>Panicked\<close>. Caches and counters are not part of the world. The
    labels of trace actions are the identifiers themselves. The code awaits between steps; one
    run here is one request with no other writer in between.
\<close>

section \<open>Results, trace and operations\<close>

datatype ingest_error = Rejected string | AuthFailed string | Internal string | Panicked string

record ingest_result =
  ir_event_id :: string
  ir_accepted :: bool
  ir_message :: string

datatype sanitized_reason = ReasonInvalid | ReasonRestricted | ReasonServerError

datatype trace_action =
    WriteInsert string uuid "uuid option"
  | WriteInsertGlobal string "uuid option"
  | WriteDuplicate string uuid "uuid option"
  | AuthCheck uuid "uuid option" bool
  | SanitizedError sanitized_reason
  | ImplBug string

record 'w relay =
  world :: 'w
  trace :: "trace_action list"

type_synonym ('w, 'a) ingest = "'w relay \<Rightarrow> (ingest_error + 'a) \<times> 'w relay"

datatype verify_outcome = VerifyOk | VerifyErr string | VerifyPanicked

record restriction_state =
  re_banned :: bool
  re_muted_until :: "int option"

record evm_binding =
  evm_revoked :: bool
  evm_attestation :: "string option"

datatype attestation_outcome = AttestationValid | AttestationMalformed string | AttestationFailed string

datatype relay_admin_error = AdminBanned | AdminRejected string | AdminInternal string

datatype remove_result = Removed | MemberNotFound | IsOwner | RoleMismatch

datatype lease_outcome =
    LeaseAccepted | StaleEvent | StaleGeneration | EndpointAlreadyLeased | LeaseQuotaExceeded
  | SourceEventCollision | ConstraintViolation

datatype accept_error = LeaseInvalid string | LeaseInternal string

datatype reaction_insert = TargetMissing | ReactionDuplicate | ReactionInserted stored_event bool

datatype db_error = AuthEventRejected | OtherDbError string

record ingest_config =
  cf_now :: nat
  cf_now_gate :: int
  cf_now_leave :: nat
  cf_now_unix :: nat
  cf_max_delta :: nat
  cf_enforce_attestation :: bool
  cf_require_membership :: bool
  cf_ttl_override :: "int option"

record 'w ingest_ops =
  op_env :: "'w \<Rightarrow> ingest_env"
  op_verify :: "nostr_event \<Rightarrow> verify_outcome"
  op_command :: "nostr_event \<Rightarrow> ingest_auth \<Rightarrow> 'w \<Rightarrow> (ingest_error + ingest_result) \<times> 'w"
  op_feedback :: "nostr_event \<Rightarrow> 'w \<Rightarrow> (string + unit) \<times> 'w"
  op_report :: "nostr_event \<Rightarrow> 'w \<Rightarrow> (string + unit) \<times> 'w"
  op_moderation :: "nostr_event \<Rightarrow> 'w \<Rightarrow> (string + unit) \<times> 'w"
  op_restriction :: "'w \<Rightarrow> string \<Rightarrow> string + restriction_state"
  op_visibility :: "'w \<Rightarrow> uuid \<Rightarrow> channel_row \<Rightarrow> string + string"
  op_evm_identity :: "'w \<Rightarrow> string \<Rightarrow> string + evm_binding option"
  op_attestation :: "string \<Rightarrow> string \<Rightarrow> nat \<Rightarrow> attestation_outcome"
  op_rotation :: "nostr_event \<Rightarrow> string + unit"
  op_relay_admin :: "nostr_event \<Rightarrow> 'w \<Rightarrow> (relay_admin_error + unit) \<times> 'w"
  op_remove_member :: "string \<Rightarrow> 'w \<Rightarrow> (string + remove_result) \<times> 'w"
  op_announce_leave :: "string \<Rightarrow> 'w \<Rightarrow> 'w"
  op_validate_admin :: "'w \<Rightarrow> nat \<Rightarrow> nostr_event \<Rightarrow> string + unit"
  op_identity_archive :: "nostr_event \<Rightarrow> 'w \<Rightarrow> (string + unit) \<times> 'w"
  op_validate_deletion :: "'w \<Rightarrow> nostr_event \<Rightarrow> string + unit"
  op_create_channel :: "uuid \<Rightarrow> string \<Rightarrow> channel_type \<Rightarrow> channel_visibility \<Rightarrow> string option \<Rightarrow> string \<Rightarrow>
    int option \<Rightarrow> 'w \<Rightarrow> (string + bool) \<times> 'w"
  op_soft_delete_channel :: "uuid \<Rightarrow> 'w \<Rightarrow> 'w"
  op_accept_lease :: "nostr_event \<Rightarrow> nat \<Rightarrow> 'w \<Rightarrow> (accept_error + lease_outcome) \<times> 'w"
  op_imeta :: "'w \<Rightarrow> tag list \<Rightarrow> string + unit"
  op_json_ok :: "string \<Rightarrow> bool"
  op_insert_reaction :: "nostr_event \<Rightarrow> uuid option \<Rightarrow> thread_metadata option \<Rightarrow> string \<Rightarrow> string \<Rightarrow>
    string \<Rightarrow> 'w \<Rightarrow> (string + reaction_insert) \<times> 'w"
  op_replace :: "nostr_event \<Rightarrow> uuid option \<Rightarrow> 'w \<Rightarrow> (string + stored_event \<times> bool) \<times> 'w"
  op_replace_param :: "nostr_event \<Rightarrow> string \<Rightarrow> uuid option \<Rightarrow> 'w \<Rightarrow> (string + stored_event \<times> bool) \<times> 'w"
  op_insert :: "nostr_event \<Rightarrow> uuid option \<Rightarrow> thread_metadata option \<Rightarrow> 'w \<Rightarrow>
    (db_error + stored_event \<times> bool) \<times> 'w"
  op_side_effects :: "nat \<Rightarrow> nostr_event \<Rightarrow> 'w \<Rightarrow> 'w"
  op_thread_summary :: "uuid \<Rightarrow> string \<Rightarrow> 'w \<Rightarrow> 'w"
  op_dispatch :: "stored_event \<Rightarrow> nat \<Rightarrow> string \<Rightarrow> (uuid \<times> string) option \<Rightarrow> 'w \<Rightarrow> 'w"

section \<open>The step type\<close>

definition done_with :: "'a \<Rightarrow> ('w, 'a) ingest" where
  "done_with x = (\<lambda>s. (Inr x, s))"

definition fail :: "ingest_error \<Rightarrow> ('w, 'a) ingest" where
  "fail e = (\<lambda>s. (Inl e, s))"

definition next_step :: "('w, 'a) ingest \<Rightarrow> ('a \<Rightarrow> ('w, 'b) ingest) \<Rightarrow> ('w, 'b) ingest" where
  "next_step m f = (\<lambda>s. case m s of (Inl e, s') \<Rightarrow> (Inl e, s') | (Inr x, s') \<Rightarrow> f x s')"

definition fail_if :: "bool \<Rightarrow> ingest_error \<Rightarrow> ('w, unit) ingest" where
  "fail_if b e = (if b then fail e else done_with ())"

text \<open>A result of a check or a lookup with its error mapped, and an operation on the world.\<close>

definition checked :: "('e \<Rightarrow> ingest_error) \<Rightarrow> ('w \<Rightarrow> 'e + 'a) \<Rightarrow> ('w, 'a) ingest" where
  "checked err f = (\<lambda>s. case f (world s) of Inl e \<Rightarrow> (Inl (err e), s) | Inr x \<Rightarrow> (Inr x, s))"

definition reads :: "('w \<Rightarrow> 'a) \<Rightarrow> ('w, 'a) ingest" where
  "reads f = (\<lambda>s. (Inr (f (world s)), s))"

definition performs :: "('e \<Rightarrow> ingest_error) \<Rightarrow> ('w \<Rightarrow> ('e + 'a) \<times> 'w) \<Rightarrow> ('w, 'a) ingest" where
  "performs err f =
     (\<lambda>s. case f (world s) of
            (Inl e, w) \<Rightarrow> (Inl (err e), s\<lparr>world := w\<rparr>)
          | (Inr x, w) \<Rightarrow> (Inr x, s\<lparr>world := w\<rparr>))"

definition updates :: "('w \<Rightarrow> 'w) \<Rightarrow> ('w, unit) ingest" where
  "updates f = (\<lambda>s. (Inr (), s\<lparr>world := f (world s)\<rparr>))"

definition emit :: "trace_action \<Rightarrow> ('w, unit) ingest" where
  "emit a = (\<lambda>s. (Inr (), s\<lparr>trace := trace s @ [a]\<rparr>))"

definition invalid :: "string \<Rightarrow> ingest_error" where
  "invalid e = Rejected (''invalid: '' @ e)"

definition accepted :: "nostr_event \<Rightarrow> string \<Rightarrow> ingest_result" where
  "accepted ev msg = \<lparr>ir_event_id = ev_id ev, ir_accepted = True, ir_message = msg\<rparr>"

definition refused_duplicate :: "nostr_event \<Rightarrow> string \<Rightarrow> ingest_result" where
  "refused_duplicate ev msg = \<lparr>ir_event_id = ev_id ev, ir_accepted = False, ir_message = msg\<rparr>"

section \<open>Admission\<close>

text \<open>
  \<open>event.created_at.as_secs() as i64\<close>, the subtraction and \<open>abs\<close> are on 64-bit integers and
  wrap in a release build.
\<close>

definition MAX_TIMESTAMP_DRIFT_SECS :: int where
  "MAX_TIMESTAMP_DRIFT_SECS = 900"

definition abs_i64 :: "64 word \<Rightarrow> 64 word" where
  "abs_i64 d = (if sint d < 0 then - d else d)"

definition timestamp_too_far :: "nat \<Rightarrow> nat \<Rightarrow> bool" where
  "timestamp_too_far now ts \<longleftrightarrow>
     sint (abs_i64 (word_of_nat ts - word_of_nat now)) > MAX_TIMESTAMP_DRIFT_SECS"

definition MAX_EVENT_CONTENT_BYTES :: nat where
  "MAX_EVENT_CONTENT_BYTES = 256 * 1024"

definition admit_kind :: "nostr_event \<Rightarrow> ingest_auth \<Rightarrow> ('w, unit) ingest" where
  "admit_kind ev auth =
     (let kind = ev_kind ev in
      next_step (fail_if (kind = KIND_AUTH)
        (Rejected ''invalid: AUTH events cannot be submitted'')) (\<lambda>_.
      next_step (fail_if (kind = KIND_MEMBER_ADDED_NOTIFICATION \<or> kind = KIND_MEMBER_REMOVED_NOTIFICATION)
        (Rejected ''invalid: membership notifications are relay-signed only'')) (\<lambda>_.
      next_step (fail_if (auth_is_http auth \<and> (kind = KIND_GIFT_WRAP \<or> kind = KIND_PRESENCE_UPDATE))
        (Rejected ''invalid: kind is only accepted via WebSocket'')) (\<lambda>_.
      fail_if (is_relay_only_kind kind) (Rejected ''restricted: relay-only kind'')))))"

definition verify_signature :: "'w ingest_ops \<Rightarrow> nostr_event \<Rightarrow> ('w, unit) ingest" where
  "verify_signature ops ev =
     (case op_verify ops ev of
        VerifyOk \<Rightarrow> done_with ()
      | VerifyErr e \<Rightarrow> fail (invalid e)
      | VerifyPanicked \<Rightarrow> fail (Internal ''error: internal verification error''))"

definition admit_event :: "ingest_config \<Rightarrow> 'w ingest_ops \<Rightarrow> nostr_event \<Rightarrow> ingest_auth \<Rightarrow> ('w, unit) ingest" where
  "admit_event cfg ops ev auth =
     next_step (admit_kind ev auth) (\<lambda>_.
     next_step (verify_signature ops ev) (\<lambda>_.
     next_step (fail_if (timestamp_too_far (cf_now cfg) (ev_created_at ev))
       (Rejected ''invalid: event timestamp too far from server time'')) (\<lambda>_.
     next_step (fail_if (length (ev_content ev) > MAX_EVENT_CONTENT_BYTES)
       (Rejected ''invalid: content exceeds maximum size of 262144 bytes'')) (\<lambda>_.
     fail_if (ev_pubkey ev \<noteq> auth_pubkey auth \<and> ev_kind ev \<noteq> KIND_GIFT_WRAP)
       (AuthFailed ''invalid: event pubkey does not match authenticated identity'')))))"

definition check_scope :: "nostr_event \<Rightarrow> ingest_auth \<Rightarrow> ('w, unit) ingest" where
  "check_scope ev auth =
     (let kind = ev_kind ev in
      next_step (checked Rejected (\<lambda>_. required_scope_for_kind kind ev)) (\<lambda>required.
      next_step (fail_if (is_relay_admin_kind kind \<and> auth_channel_ids auth \<noteq> None)
        (AuthFailed ''restricted: relay admin commands require a global token, not a channel-scoped token'')) (\<lambda>_.
      next_step (fail_if (kind = KIND_NIP43_LEAVE_REQUEST \<and> auth_channel_ids auth \<noteq> None)
        (AuthFailed ''restricted: leave requests require a global token'')) (\<lambda>_.
      fail_if (\<not> List.member (auth_scopes auth) required)
        (AuthFailed (''restricted: insufficient scope (need '' @ scope_as_str required @ '')''))))))"

section \<open>The restriction gate\<close>

definition restriction_gate ::
    "ingest_config \<Rightarrow> 'w ingest_ops \<Rightarrow> nat \<Rightarrow> ingest_auth \<Rightarrow> ('w, unit) ingest" where
  "restriction_gate cfg ops kind auth =
     (if \<not> is_moderation_command_kind kind \<and> \<not> is_relay_admin_kind kind then
        next_step (checked (\<lambda>e. Internal (''error: internal error checking restriction state: '' @ e))
          (\<lambda>w. op_restriction ops w (auth_pubkey auth))) (\<lambda>r.
        next_step (fail_if (re_banned r)
          (AuthFailed ''blocked: you are banned from this community'')) (\<lambda>_.
        case re_muted_until r of
          None \<Rightarrow> done_with ()
        | Some until \<Rightarrow> fail_if (until > cf_now_gate cfg)
            (AuthFailed (''restricted: you are timed out until '' @ int_decimal until))))
      else done_with ())"

section \<open>The channel of the event\<close>

definition deletion_channel :: "'w ingest_ops \<Rightarrow> nostr_event \<Rightarrow> ('w, uuid option) ingest" where
  "deletion_channel ops ev =
     (case first_target ev of
        None \<Rightarrow> done_with None
      | Some target_hex \<Rightarrow>
          next_step (checked (\<lambda>_. invalid ''malformed deletion target id'')
            (\<lambda>w. case env_hex32 (op_env ops w) target_hex of None \<Rightarrow> Inl () | Some b \<Rightarrow> Inr b)) (\<lambda>target_bytes.
          next_step (checked (\<lambda>e. Internal (''error: looking up deletion target: '' @ e))
            (\<lambda>w. env_event_by_id (op_env ops w) target_bytes)) (\<lambda>target.
          done_with (case target of Some t \<Rightarrow> se_channel_id t | None \<Rightarrow> None))))"

definition reaction_target_channel :: "'w ingest_ops \<Rightarrow> nostr_event \<Rightarrow> ('w, uuid option) ingest" where
  "reaction_target_channel ops ev =
     next_step (reads (\<lambda>w. derive_reaction_channel (op_env ops w) ev)) (\<lambda>r.
     case r of
       RChannel ch \<Rightarrow> done_with (Some ch)
     | NoChannel \<Rightarrow> done_with None
     | NotFound \<Rightarrow> fail (Rejected ''invalid: reaction target event not found'')
     | NoTarget \<Rightarrow> fail (Rejected ''invalid: reaction must reference a target event via e tag'')
     | RDbError e \<Rightarrow> fail (Internal (''error: internal error looking up reaction target: '' @ e)))"

definition derive_channel :: "'w ingest_ops \<Rightarrow> nostr_event \<Rightarrow> ('w, uuid option) ingest" where
  "derive_channel ops ev =
     (let kind = ev_kind ev in
      next_step
        (if kind = KIND_REACTION then reaction_target_channel ops ev
         else if kind = KIND_GIFT_WRAP then done_with None
         else if kind = KIND_DELETION then deletion_channel ops ev
         else reads (\<lambda>w. extract_channel_id (op_env ops w) ev)) (\<lambda>ch.
      done_with (if is_global_only_kind kind then None else ch)))"

definition scope_channel :: "nostr_event \<Rightarrow> ingest_auth \<Rightarrow> uuid option \<Rightarrow> ('w, unit) ingest" where
  "scope_channel ev auth ch =
     next_step (fail_if (requires_h_channel_scope (ev_kind ev) \<and> ch = None)
       (Rejected ''invalid: channel-scoped events must include an h tag'')) (\<lambda>_.
     case ch of
       Some ch_id \<Rightarrow> checked AuthFailed (\<lambda>_. check_token_channel_access auth ch_id)
     | None \<Rightarrow> fail_if (auth_channel_ids auth \<noteq> None)
         (AuthFailed ''restricted: channel-scoped tokens cannot publish global events''))"

definition claimed_community_from_event :: "ingest_env \<Rightarrow> nostr_event \<Rightarrow> uuid option" where
  "claimed_community_from_event env ev =
     (case List.find (\<lambda>t. t \<noteq> [] \<and> hd t = ''h'') (ev_tags ev) of
        Some (_ # v # _) \<Rightarrow> env_uuid env v
      | _ \<Rightarrow> None)"

definition skips_membership :: "nat \<Rightarrow> bool" where
  "skips_membership kind \<longleftrightarrow>
     kind = KIND_NIP29_JOIN_REQUEST \<or> kind = KIND_NIP29_CREATE_GROUP \<or>
     kind = KIND_STREAM_MESSAGE_EDIT \<or> kind = KIND_NIP29_EDIT_METADATA \<or>
     kind = KIND_NIP29_DELETE_EVENT \<or> kind = KIND_NIP29_DELETE_GROUP"

definition membership_gate ::
    "'w ingest_ops \<Rightarrow> nostr_event \<Rightarrow> ingest_auth \<Rightarrow> uuid option \<Rightarrow> channel_row option \<Rightarrow> ('w, unit) ingest" where
  "membership_gate ops ev auth ch row =
     (case ch of
        None \<Rightarrow> done_with ()
      | Some ch_id \<Rightarrow>
          if skips_membership (ev_kind ev) then done_with ()
          else
            next_step (reads (\<lambda>w. (check_channel_membership (op_env ops w) ch_id (auth_pubkey auth) row,
                                   claimed_community_from_event (op_env ops w) ev))) (\<lambda>(auth_result, claimed).
            next_step (emit (AuthCheck ch_id claimed (case auth_result of Inr _ \<Rightarrow> True | Inl _ \<Rightarrow> False))) (\<lambda>_.
            checked Rejected (\<lambda>_. auth_result))))"

definition prefetch_row :: "'w ingest_ops \<Rightarrow> uuid option \<Rightarrow> 'w \<Rightarrow> channel_row option" where
  "prefetch_row ops ch w =
     (case ch of
        None \<Rightarrow> None
      | Some ch_id \<Rightarrow> (case env_channel (op_env ops w) ch_id of Inr r \<Rightarrow> Some r | Inl _ \<Rightarrow> None))"

definition threaded_visibility ::
    "'w ingest_ops \<Rightarrow> uuid option \<Rightarrow> channel_row option \<Rightarrow> 'w \<Rightarrow> (uuid \<times> string) option" where
  "threaded_visibility ops ch row w =
     (case ch of
        None \<Rightarrow> None
      | Some ch_id \<Rightarrow>
          (case row of
             None \<Rightarrow> None
           | Some r \<Rightarrow> (case op_visibility ops w ch_id r of Inr v \<Rightarrow> Some (ch_id, v) | Inl _ \<Rightarrow> None)))"

section \<open>Identity checks\<close>

definition check_attestation ::
    "ingest_config \<Rightarrow> 'w ingest_ops \<Rightarrow> nat \<Rightarrow> ingest_auth \<Rightarrow> ('w, unit) ingest" where
  "check_attestation cfg ops kind auth =
     (if kind = KIND_STREAM_MESSAGE_V2 \<and> cf_enforce_attestation cfg then
        (let sender_hex = auth_pubkey auth in
         next_step (checked (\<lambda>e. Internal (''error: evm identity lookup: '' @ e))
           (\<lambda>w. op_evm_identity ops w sender_hex)) (\<lambda>binding.
         case binding of
           None \<Rightarrow> done_with ()
         | Some b \<Rightarrow>
             next_step (fail_if (evm_revoked b) (Rejected ''invalid: evm identity is revoked'')) (\<lambda>_.
             case evm_attestation b of
               None \<Rightarrow> fail (Rejected ''invalid: publisher joined via SIWE but has no NostrSigner attestation'')
             | Some json \<Rightarrow>
                 (case op_attestation ops json sender_hex (cf_now_unix cfg) of
                    AttestationMalformed e \<Rightarrow>
                      fail (Rejected (''invalid: malformed attestation stored for publisher: '' @ e))
                  | AttestationFailed e \<Rightarrow>
                      fail (Rejected (''invalid: attestation check failed: '' @ e))
                  | AttestationValid \<Rightarrow> done_with ()))))
      else done_with ())"

definition check_rotation :: "'w ingest_ops \<Rightarrow> nostr_event \<Rightarrow> ('w, unit) ingest" where
  "check_rotation ops ev =
     (if ev_kind ev = KIND_EVM_ROTATION
      then checked (\<lambda>e. Rejected (''invalid: rotation delegation rejected: '' @ e)) (\<lambda>_. op_rotation ops ev)
      else done_with ())"

section \<open>Commands that are not stored\<close>

definition map_relay_admin_error :: "relay_admin_error \<Rightarrow> ingest_error" where
  "map_relay_admin_error e =
     (case e of
        AdminBanned \<Rightarrow> AuthFailed ''blocked: you are banned from this community''
      | AdminRejected reason \<Rightarrow> Rejected (''invalid: '' @ reason)
      | AdminInternal reason \<Rightarrow> Internal (''error: '' @ reason))"

definition leave_relay ::
    "ingest_config \<Rightarrow> 'w ingest_ops \<Rightarrow> nostr_event \<Rightarrow> ('w, ingest_result) ingest" where
  "leave_relay cfg ops ev =
     next_step (fail_if (\<not> cf_require_membership cfg)
       (Rejected ''invalid: relay membership is not enabled'')) (\<lambda>_.
     next_step (fail_if (sint (abs_i64 (word_of_nat (ev_created_at ev) - word_of_nat (cf_now_leave cfg))) > 120)
       (Rejected ''invalid: leave request timestamp out of range (max 120s)'')) (\<lambda>_.
     next_step (fail_if (\<not> list_ex (\<lambda>t. t \<noteq> [] \<and> hd t = ''-'') (ev_tags ev))
       (Rejected ''invalid: leave request must include NIP-70 protected event tag [-]'')) (\<lambda>_.
     next_step (performs (\<lambda>e. Internal (''database error: '' @ e)) (op_remove_member ops (ev_pubkey ev))) (\<lambda>r.
     case r of
       Removed \<Rightarrow>
         next_step (updates (op_announce_leave ops (ev_pubkey ev))) (\<lambda>_.
         done_with (accepted ev ''info: you have left this relay''))
     | MemberNotFound \<Rightarrow> fail (Rejected ''invalid: you are not a relay member'')
     | IsOwner \<Rightarrow> fail (Rejected ''invalid: relay owner cannot leave'')
     | RoleMismatch \<Rightarrow> fail (Internal ''unexpected RoleMismatch from remove_relay_member'')))))"

definition is_admin_kind :: "nat \<Rightarrow> bool" where
  "is_admin_kind kind \<longleftrightarrow> 9000 \<le> kind \<and> kind \<le> 9022"

definition is_side_effect_kind :: "nat \<Rightarrow> bool" where
  "is_side_effect_kind kind \<longleftrightarrow>
     kind = 0 \<or> kind = 5 \<or> (9000 \<le> kind \<and> kind \<le> 9022) \<or> kind = KIND_GIT_REPO_ANNOUNCEMENT \<or>
     kind = KIND_AGENT_PROFILE \<or> (41001 \<le> kind \<and> kind \<le> 41003) \<or> kind = 40099"

section \<open>Per-kind validation\<close>

definition is_unarchive :: "nostr_event \<Rightarrow> bool" where
  "is_unarchive ev \<longleftrightarrow>
     ev_kind ev = KIND_NIP29_EDIT_METADATA \<and>
     list_ex (\<lambda>p. length p \<ge> 2 \<and> p ! 0 = ''archived'' \<and> p ! 1 = ''false'') (ev_tags ev)"

definition archived_gate :: "nostr_event \<Rightarrow> uuid option \<Rightarrow> channel_row option \<Rightarrow> ('w, unit) ingest" where
  "archived_gate ev ch row =
     fail_if (ch \<noteq> None \<and> \<not> is_unarchive ev \<and> (case row of Some r \<Rightarrow> cr_archived r | None \<Rightarrow> False))
       (Rejected ''invalid: channel is archived'')"

definition single_deletion_target :: "nostr_event \<Rightarrow> ('w, unit) ingest" where
  "single_deletion_target ev =
     (let kind = ev_kind ev;
          a_count = length (filter (\<lambda>t. tag_kind t = ''a'') (ev_tags ev)) in
      fail_if ((kind = KIND_NIP29_DELETE_EVENT \<or> kind = KIND_DELETION) \<and> count_e_tags ev + a_count \<noteq> 1)
        (Rejected ''invalid: deletion events must reference exactly one target via e or a tag''))"

definition when_kind :: "nostr_event \<Rightarrow> nat \<Rightarrow> ('w, unit) ingest \<Rightarrow> ('w, unit) ingest" where
  "when_kind ev kind m = (if ev_kind ev = kind then m else done_with ())"

text \<open>The \<open>p\<close> tag of a validated turn metric must name the agent's registered owner.\<close>

definition check_metric_owner :: "'w ingest_ops \<Rightarrow> nostr_event \<Rightarrow> ('w, unit) ingest" where
  "check_metric_owner ops ev =
     (case values_of ''p'' ev of
        [] \<Rightarrow> fail (Panicked ''p tag present (validated above)'')
      | owner_hex # _ \<Rightarrow>
          next_step (checked (\<lambda>_. Panicked ''hex validated above'')
            (\<lambda>w. case env_hex32 (op_env ops w) owner_hex of None \<Rightarrow> Inl () | Some b \<Rightarrow> Inr b)) (\<lambda>owner_bytes.
          next_step (checked (\<lambda>e. Internal (''error: db error checking agent-turn-metric ownership: '' @ e))
            (\<lambda>w. env_agent_owner (op_env ops w) (ev_pubkey ev) owner_bytes)) (\<lambda>is_owner.
          fail_if (\<not> is_owner)
            (AuthFailed ''restricted: agent-turn-metric `p` tag must be the registered owner of this agent''))))"

definition validate_kind :: "ingest_config \<Rightarrow> 'w ingest_ops \<Rightarrow> nostr_event \<Rightarrow> ('w, unit) ingest" where
  "validate_kind cfg ops ev =
     next_step (when_kind ev KIND_STREAM_MESSAGE_EDIT
       (checked invalid (\<lambda>w. validate_edit_ownership (op_env ops w) ev))) (\<lambda>_.
     next_step (when_kind ev KIND_FORUM_VOTE
       (checked invalid (\<lambda>w. validate_forum_vote_target (op_env ops w) ev))) (\<lambda>_.
     next_step (when_kind ev KIND_STREAM_MESSAGE_DIFF
       (checked invalid (\<lambda>_. validate_diff_event ev))) (\<lambda>_.
     next_step (when_kind ev KIND_AGENT_ENGRAM
       (checked invalid (\<lambda>_. validate_engram_envelope ev))) (\<lambda>_.
     next_step (when_kind ev KIND_AGENT_TURN_METRIC
       (next_step (checked invalid (\<lambda>_. validate_agent_turn_metric_envelope ev)) (\<lambda>_.
        check_metric_owner ops ev))) (\<lambda>_.
     next_step (when_kind ev KIND_EVENT_REMINDER
       (checked invalid (\<lambda>_. validate_event_reminder (cf_now_unix cfg) (cf_max_delta cfg) ev))) (\<lambda>_.
     next_step (when_kind ev KIND_PERSONA
       (checked invalid (\<lambda>_. validate_persona_envelope ev))) (\<lambda>_.
     next_step (when_kind ev KIND_TEAM_CATALOG
       (checked invalid (\<lambda>_. validate_team_catalog_envelope ev))) (\<lambda>_.
     when_kind ev KIND_PROJECT
       (checked (\<lambda>r. invalid (project_rejection_text r)) (\<lambda>_. relay_validate_project_envelope ev))))))))))"

section \<open>Creating and joining channels\<close>

definition first_content :: "string \<Rightarrow> nostr_event \<Rightarrow> string option" where
  "first_content k ev = first_some (content_of_kind k) (ev_tags ev)"

definition parse_i32 :: "string \<Rightarrow> int option" where
  "parse_i32 s =
     (if s \<noteq> [] \<and> hd s = CHR ''-'' then
        (if tl s \<noteq> [] \<and> list_all is_ascii_digit (tl s) \<and> dec_value (tl s) \<le> 2 ^ 31
         then Some (- int (dec_value (tl s))) else None)
      else map_option int (parse_unsigned (2 ^ 31 - 1) s))"

definition resolve_ttl :: "nostr_event \<Rightarrow> int option \<Rightarrow> int option" where
  "resolve_ttl ev ttl_override =
     (let from_tag = first_some (\<lambda>t. case content_of_kind ''ttl'' t of
                       Some v \<Rightarrow> parse_i32 v | None \<Rightarrow> None) (ev_tags ev) in
      case from_tag of
        None \<Rightarrow> None
      | Some original \<Rightarrow> (case ttl_override of Some ovr \<Rightarrow> Some ovr | None \<Rightarrow> Some original))"

text \<open>
  The outcome of the create step: go on with the channel that was created for this request,
  or stop because the channel exists.
\<close>

datatype create_outcome = GoOn "uuid option" | ChannelExists

definition name_missing :: "string option \<Rightarrow> bool" where
  "name_missing n = (case n of None \<Rightarrow> True | Some s \<Rightarrow> trim (canonical_channel_name s) = [])"

definition create_group ::
    "ingest_config \<Rightarrow> 'w ingest_ops \<Rightarrow> nostr_event \<Rightarrow> uuid option \<Rightarrow> ('w, create_outcome) ingest" where
  "create_group cfg ops ev ch =
     (if ev_kind ev \<noteq> KIND_NIP29_CREATE_GROUP then done_with (GoOn None)
      else
        (let create_name = first_content ''name'' ev;
             visibility_str = (case first_content ''visibility'' ev of Some v \<Rightarrow> v | None \<Rightarrow> ''open'');
             channel_type_str = (case first_content ''channel_type'' ev of Some t \<Rightarrow> t | None \<Rightarrow> ''stream'') in
         next_step (fail_if (name_missing create_name)
           (Rejected ''invalid: channel name is required'')) (\<lambda>_.
         case visibility_from_str visibility_str of
           None \<Rightarrow> fail (Rejected (''invalid visibility: '' @ visibility_str))
         | Some visibility \<Rightarrow>
         (case channel_type_from_str channel_type_str of
            None \<Rightarrow> fail (Rejected (''invalid channel_type: '' @ channel_type_str))
          | Some ctype \<Rightarrow>
         (case ch of
            None \<Rightarrow> done_with (GoOn None)
          | Some client_uuid \<Rightarrow>
              next_step (performs (\<lambda>e. Internal (''error: '' @ e))
                (op_create_channel ops client_uuid (canonical_channel_name (or_empty create_name))
                   ctype visibility (first_content ''about'' ev) (ev_pubkey ev)
                   (resolve_ttl ev (cf_ttl_override cfg)))) (\<lambda>was_created.
              done_with (if was_created then GoOn (Some client_uuid) else ChannelExists)))))))"

definition check_join :: "nostr_event \<Rightarrow> uuid option \<Rightarrow> channel_row option \<Rightarrow> ('w, unit) ingest" where
  "check_join ev ch row =
     (if ev_kind ev = KIND_NIP29_JOIN_REQUEST then
        (if ch = None then fail (Rejected ''invalid: join request must include an h tag'')
         else (case row of
                 None \<Rightarrow> fail (Rejected ''invalid: channel not found'')
               | Some r \<Rightarrow> fail_if (cr_visibility r = ''private'') (Rejected ''restricted: channel is private'')))
      else done_with ())"

section \<open>Leases, media and threads\<close>

definition map_push_accept_error :: "accept_error \<Rightarrow> ingest_error" where
  "map_push_accept_error e =
     (case e of LeaseInvalid reason \<Rightarrow> Rejected (''invalid: '' @ reason) | LeaseInternal reason \<Rightarrow> Internal reason)"

definition accept_lease ::
    "ingest_config \<Rightarrow> 'w ingest_ops \<Rightarrow> nostr_event \<Rightarrow> ('w, ingest_result) ingest" where
  "accept_lease cfg ops ev =
     next_step (performs map_push_accept_error (op_accept_lease ops ev (cf_now cfg))) (\<lambda>outcome.
     case outcome of
       LeaseAccepted \<Rightarrow>
         next_step (reads (\<lambda>w. claimed_community_from_event (op_env ops w) ev)) (\<lambda>claimed.
         next_step (emit (WriteInsertGlobal (ev_id ev) claimed)) (\<lambda>_. done_with (accepted ev [])))
     | StaleEvent \<Rightarrow> fail (Rejected ''invalid: stale replacement'')
     | StaleGeneration \<Rightarrow> fail (Rejected ''invalid: stale generation'')
     | EndpointAlreadyLeased \<Rightarrow> fail (Rejected ''invalid: endpoint already leased'')
     | LeaseQuotaExceeded \<Rightarrow> fail (Rejected ''invalid: lease quota exceeded'')
     | SourceEventCollision \<Rightarrow> fail (Rejected ''invalid: source event collision'')
     | ConstraintViolation \<Rightarrow> fail (Rejected ''invalid: lease constraint violation''))"

definition check_media :: "'w ingest_ops \<Rightarrow> nostr_event \<Rightarrow> ('w, unit) ingest" where
  "check_media ops ev =
     (let imeta = filter (\<lambda>t. tag_kind t = ''imeta'') (ev_tags ev) in
      if imeta \<noteq> [] then checked invalid (\<lambda>w. op_imeta ops w imeta) else done_with ())"

definition thread_of_event ::
    "'w ingest_ops \<Rightarrow> nostr_event \<Rightarrow> uuid option \<Rightarrow> ('w, thread_metadata option) ingest" where
  "thread_of_event ops ev ch =
     (if requires_h_channel_scope (ev_kind ev) then
        (case ch of
           Some ch_id \<Rightarrow> checked invalid (\<lambda>w. resolve_nip10_thread_meta (op_env ops w) ev ch_id)
         | None \<Rightarrow> done_with None)
      else done_with None)"

definition check_profile :: "'w ingest_ops \<Rightarrow> nostr_event \<Rightarrow> ('w, unit) ingest" where
  "check_profile ops ev =
     fail_if (ev_kind ev = KIND_PROFILE \<and> \<not> op_json_ok ops (ev_content ev))
       (Rejected ''invalid: kind:0 content must be valid JSON'')"

section \<open>Storage\<close>

text \<open>\<open>channel_id.expect(...)\<close>: the label of the channel, or a panic.\<close>

definition expect_channel :: "uuid option \<Rightarrow> ('w, uuid) ingest" where
  "expect_channel ch =
     (case ch of Some ch_id \<Rightarrow> done_with ch_id | None \<Rightarrow> fail (Panicked ''reaction path has channel''))"

definition ingest_reaction ::
    "'w ingest_ops \<Rightarrow> nostr_event \<Rightarrow> ingest_auth \<Rightarrow> uuid option \<Rightarrow> thread_metadata option \<Rightarrow>
     (uuid \<times> string) option \<Rightarrow> ('w, ingest_result) ingest" where
  "ingest_reaction ops ev auth ch meta vis =
     (case last_target ev of
        None \<Rightarrow> fail (Rejected ''invalid: reaction must reference a target event via e tag'')
      | Some target_hex \<Rightarrow>
          next_step (checked (\<lambda>_. invalid ''malformed reaction target id'')
            (\<lambda>w. case env_hex32 (op_env ops w) target_hex of None \<Rightarrow> Inl () | Some b \<Rightarrow> Inr b)) (\<lambda>target_id.
          next_step (reads (\<lambda>w. effective_message_author (op_env ops w) ev)) (\<lambda>actor.
          let emoji = (if ev_content ev = [] then ''+'' else ev_content ev) in
          next_step (fail_if (char_count emoji > 64)
            (Rejected ''invalid: reaction emoji exceeds 64 characters'')) (\<lambda>_.
          next_step (performs (\<lambda>e. Internal (''error: '' @ e))
            (op_insert_reaction ops ev ch meta target_id actor emoji)) (\<lambda>outcome.
          case outcome of
            TargetMissing \<Rightarrow> fail (Rejected ''invalid: reaction target event not found'')
          | ReactionDuplicate \<Rightarrow> done_with (refused_duplicate ev ''duplicate: reaction already exists'')
          | ReactionInserted stored was_inserted \<Rightarrow>
              next_step (reads (\<lambda>w. claimed_community_from_event (op_env ops w) ev)) (\<lambda>claimed.
              next_step (expect_channel ch) (\<lambda>ch_id.
              next_step (emit (if was_inserted then WriteInsert (ev_id ev) ch_id claimed
                               else WriteDuplicate (ev_id ev) ch_id claimed)) (\<lambda>_.
              next_step (updates (op_dispatch ops stored (ev_kind ev) (auth_pubkey auth) vis)) (\<lambda>_.
              done_with (accepted ev []))))))))))"

definition D_TAG_MAX_LEN :: nat where
  "D_TAG_MAX_LEN = 1024"

text \<open>A failed insert removes the channel this request created, then reports the error.\<close>

definition compensate :: "'w ingest_ops \<Rightarrow> uuid option \<Rightarrow> db_error \<Rightarrow> ('w, 'a) ingest" where
  "compensate ops created e =
     next_step (case created of Some ch_id \<Rightarrow> updates (op_soft_delete_channel ops ch_id) | None \<Rightarrow> done_with ()) (\<lambda>_.
     fail (case e of
             AuthEventRejected \<Rightarrow> Rejected ''invalid: AUTH events cannot be stored''
           | OtherDbError m \<Rightarrow> Internal (''error: database error: '' @ m)))"

definition store_event ::
    "'w ingest_ops \<Rightarrow> nostr_event \<Rightarrow> uuid option \<Rightarrow> thread_metadata option \<Rightarrow> uuid option \<Rightarrow>
     ('w, stored_event \<times> bool) ingest" where
  "store_event ops ev ch meta created =
     (let kind = ev_kind ev in
      if is_replaceable kind then
        performs (\<lambda>e. Internal (''error: '' @ e)) (op_replace ops ev ch)
      else if is_parameterized_replaceable kind then
        (let d_tag = or_empty (extract_d_tag ev) in
         next_step (fail_if (length d_tag > D_TAG_MAX_LEN)
           (Rejected ''invalid: d tag too long (max 1024)'')) (\<lambda>_.
         performs (\<lambda>e. Internal (''error: '' @ e)) (op_replace_param ops ev d_tag ch)))
      else
        (\<lambda>s. case op_insert ops ev ch meta (world s) of
               (Inr r, w) \<Rightarrow> (Inr r, s\<lparr>world := w\<rparr>)
             | (Inl e, w) \<Rightarrow> compensate ops created e (s\<lparr>world := w\<rparr>)))"

definition publish_stored ::
    "'w ingest_ops \<Rightarrow> nostr_event \<Rightarrow> ingest_auth \<Rightarrow> uuid option \<Rightarrow> thread_metadata option \<Rightarrow>
     (uuid \<times> string) option \<Rightarrow> stored_event \<Rightarrow> ('w, ingest_result) ingest" where
  "publish_stored ops ev auth ch meta vis stored =
     (let kind = ev_kind ev in
      next_step (if is_side_effect_kind kind then updates (op_side_effects ops kind ev) else done_with ()) (\<lambda>_.
      next_step (case meta of
                   Some m \<Rightarrow> updates (op_thread_summary ops (tm_channel_id m) (tm_root_event_id m))
                 | None \<Rightarrow> done_with ()) (\<lambda>_.
      next_step (reads (\<lambda>w. claimed_community_from_event (op_env ops w) ev)) (\<lambda>claimed.
      next_step (emit (case ch of
                         Some ch_id \<Rightarrow> WriteInsert (ev_id ev) ch_id claimed
                       | None \<Rightarrow> WriteInsertGlobal (ev_id ev) claimed)) (\<lambda>_.
      next_step (updates (op_dispatch ops stored kind (auth_pubkey auth) vis)) (\<lambda>_.
      done_with (accepted ev [])))))))"

section \<open>The pipeline\<close>

definition ingest_stored ::
    "ingest_config \<Rightarrow> 'w ingest_ops \<Rightarrow> nostr_event \<Rightarrow> ingest_auth \<Rightarrow> uuid option \<Rightarrow> channel_row option \<Rightarrow>
     (uuid \<times> string) option \<Rightarrow> ('w, ingest_result) ingest" where
  "ingest_stored cfg ops ev auth ch row vis =
     next_step (create_group cfg ops ev ch) (\<lambda>outcome.
     case outcome of
       ChannelExists \<Rightarrow> done_with (refused_duplicate ev ''duplicate: channel already exists'')
     | GoOn created \<Rightarrow>
         next_step (check_join ev ch row) (\<lambda>_.
         if ev_kind ev = KIND_PUSH_LEASE then accept_lease cfg ops ev
         else
           next_step (check_media ops ev) (\<lambda>_.
           next_step (thread_of_event ops ev ch) (\<lambda>meta.
           next_step (check_profile ops ev) (\<lambda>_.
           if ev_kind ev = KIND_REACTION then ingest_reaction ops ev auth ch meta vis
           else
             next_step (store_event ops ev ch meta created) (\<lambda>(stored, was_inserted).
             if \<not> was_inserted then done_with (accepted ev ''duplicate:'')
             else publish_stored ops ev auth ch meta vis stored))))))"

definition ingest_channel_write ::
    "ingest_config \<Rightarrow> 'w ingest_ops \<Rightarrow> nostr_event \<Rightarrow> ingest_auth \<Rightarrow> uuid option \<Rightarrow> ('w, ingest_result) ingest" where
  "ingest_channel_write cfg ops ev auth ch =
     (let kind = ev_kind ev in
      next_step (reads (prefetch_row ops ch)) (\<lambda>row.
      next_step (reads (threaded_visibility ops ch row)) (\<lambda>vis.
      next_step (membership_gate ops ev auth ch row) (\<lambda>_.
      next_step (check_attestation cfg ops kind auth) (\<lambda>_.
      next_step (check_rotation ops ev) (\<lambda>_.
      if is_relay_admin_kind kind then
        next_step (performs map_relay_admin_error (op_relay_admin ops ev)) (\<lambda>_. done_with (accepted ev []))
      else if kind = KIND_NIP43_LEAVE_REQUEST then leave_relay cfg ops ev
      else
        next_step (if is_admin_kind kind then checked invalid (\<lambda>w. op_validate_admin ops w kind ev)
                   else done_with ()) (\<lambda>_.
        next_step (if is_identity_archive_request_kind kind then performs invalid (op_identity_archive ops ev)
                   else done_with ()) (\<lambda>_.
        next_step (when_kind ev KIND_DELETION (checked invalid (\<lambda>w. op_validate_deletion ops w ev))) (\<lambda>_.
        next_step (archived_gate ev ch row) (\<lambda>_.
        next_step (single_deletion_target ev) (\<lambda>_.
        next_step (validate_kind cfg ops ev) (\<lambda>_.
        ingest_stored cfg ops ev auth ch row vis))))))))))))"

definition ingest_gated ::
    "ingest_config \<Rightarrow> 'w ingest_ops \<Rightarrow> nostr_event \<Rightarrow> ingest_auth \<Rightarrow> ('w, ingest_result) ingest" where
  "ingest_gated cfg ops ev auth =
     next_step (restriction_gate cfg ops (ev_kind ev) auth) (\<lambda>_.
     next_step (derive_channel ops ev) (\<lambda>ch.
     next_step (scope_channel ev auth ch) (\<lambda>_.
     ingest_channel_write cfg ops ev auth ch)))"

definition ingest_event_inner ::
    "ingest_config \<Rightarrow> 'w ingest_ops \<Rightarrow> nostr_event \<Rightarrow> ingest_auth \<Rightarrow> ('w, ingest_result) ingest" where
  "ingest_event_inner cfg ops ev auth =
     (let kind = ev_kind ev in
      next_step (admit_event cfg ops ev auth) (\<lambda>_.
      next_step (check_scope ev auth) (\<lambda>_.
      if is_command_kind kind then performs id (op_command ops ev auth)
      else if kind = KIND_PRODUCT_FEEDBACK then
        next_step (performs Rejected (op_feedback ops ev)) (\<lambda>_.
        next_step (reads (\<lambda>w. claimed_community_from_event (op_env ops w) ev)) (\<lambda>claimed.
        next_step (emit (WriteInsertGlobal (ev_id ev) claimed)) (\<lambda>_.
        done_with (accepted ev []))))
      else if kind = KIND_REPORT then
        next_step (performs Rejected (op_report ops ev)) (\<lambda>_. done_with (accepted ev []))
      else if is_moderation_command_kind kind then
        next_step (performs Rejected (op_moderation ops ev)) (\<lambda>_. done_with (accepted ev []))
      else ingest_gated cfg ops ev auth)))"

section \<open>The trace guard\<close>

definition sanitized_reason_for :: "ingest_error \<Rightarrow> sanitized_reason" where
  "sanitized_reason_for e =
     (case e of Rejected _ \<Rightarrow> ReasonInvalid | AuthFailed _ \<Rightarrow> ReasonRestricted
      | Internal _ \<Rightarrow> ReasonServerError | Panicked _ \<Rightarrow> ReasonServerError)"

text \<open>
  \<open>ingest_event\<close> arms the guard with the trace so far, runs the pipeline, records an error and
  drops the guard, which records \<open>ImplBug\<close> when the request recorded nothing. A panic unwinds
  past the error record; the guard still drops.
\<close>

definition drop_guard :: "nat \<Rightarrow> 'w relay \<Rightarrow> 'w relay" where
  "drop_guard before s =
     (if length (trace s) = before
      then s\<lparr>trace := trace s @ [ImplBug ''ingest_event_exited_without_trace'']\<rparr> else s)"

definition record_error :: "(ingest_error + 'a) \<Rightarrow> 'w relay \<Rightarrow> 'w relay" where
  "record_error r s =
     (case r of
        Inr _ \<Rightarrow> s
      | Inl (Panicked _) \<Rightarrow> s
      | Inl e \<Rightarrow> s\<lparr>trace := trace s @ [SanitizedError (sanitized_reason_for e)]\<rparr>)"

definition ingest_event ::
    "ingest_config \<Rightarrow> 'w ingest_ops \<Rightarrow> nostr_event \<Rightarrow> ingest_auth \<Rightarrow> ('w, ingest_result) ingest" where
  "ingest_event cfg ops ev auth s =
     (case ingest_event_inner cfg ops ev auth s of
        (r, s') \<Rightarrow> (r, drop_guard (length (trace s)) (record_error r s')))"

section \<open>Steps that write nothing\<close>

definition no_write :: "('w, 'a) ingest \<Rightarrow> bool" where
  "no_write m \<longleftrightarrow> (\<forall>s. world (snd (m s)) = world s)"

text \<open>From the world \<open>w\<close> the step ends in an error and leaves the world as it is.\<close>

definition stops :: "('w, 'a) ingest \<Rightarrow> 'w \<Rightarrow> bool" where
  "stops m w \<longleftrightarrow> (\<forall>s. world s = w \<longrightarrow> (\<exists>e. fst (m s) = Inl e) \<and> world (snd (m s)) = w)"

named_theorems no_write_intros "steps that leave the world alone"

lemma no_write_basic [no_write_intros]:
  "no_write (done_with x)" "no_write (fail e)" "no_write (fail_if b e)" "no_write (emit a)"
  "no_write (reads f)" "no_write (checked err g)"
  by (auto simp: no_write_def done_with_def fail_def fail_if_def emit_def reads_def checked_def
      split: sum.splits)

lemma no_write_next [no_write_intros]:
  assumes "no_write m" "\<And>x. no_write (f x)"
  shows "no_write (next_step m f)"
  unfolding no_write_def
proof
  fix s
  show "world (snd (next_step m f s)) = world s"
    using assms by (cases "m s") (auto simp: next_step_def no_write_def split: sum.splits; metis snd_conv)
qed

lemma no_write_if [no_write_intros]: "no_write m \<Longrightarrow> no_write n \<Longrightarrow> no_write (if b then m else n)"
  by simp

lemma no_write_option [no_write_intros]:
  "no_write m \<Longrightarrow> (\<And>x. no_write (f x)) \<Longrightarrow> no_write (case o' of None \<Rightarrow> m | Some x \<Rightarrow> f x)"
  by (cases o') auto

lemma no_write_when_kind [no_write_intros]: "no_write m \<Longrightarrow> no_write (when_kind ev k m)"
  by (simp add: when_kind_def no_write_basic)

lemma stops_first: "stops m w \<Longrightarrow> stops (next_step m f) w"
  by (force simp: stops_def next_step_def split: prod.splits sum.splits)

lemma stops_next:
  fixes m :: "('w, 'a) ingest" and f :: "'a \<Rightarrow> ('w, 'b) ingest"
  assumes "no_write m"
    and "\<And>s x s'. world s = w \<Longrightarrow> m s = (Inr x, s') \<Longrightarrow> stops (f x) w"
  shows "stops (next_step m f) w"
  unfolding stops_def
proof (intro allI impI)
  fix s :: "'w relay" assume s: "world s = w"
  obtain r s' where m: "m s = (r, s')" by fastforce
  have s': "world s' = w" using assms(1) s m by (metis no_write_def snd_conv)
  show "(\<exists>e. fst (next_step m f s) = Inl e) \<and> world (snd (next_step m f s)) = w"
  proof (cases r)
    case Inl
    with m s' show ?thesis by (simp add: next_step_def)
  next
    case (Inr x)
    with assms(2) [OF s] m have "stops (f x) w" by simp
    with m Inr s' show ?thesis by (simp add: next_step_def stops_def)
  qed
qed

lemma stops_fail: "stops (fail e) w" "b \<Longrightarrow> stops (fail_if b e) w"
  by (auto simp: stops_def fail_def fail_if_def)

lemma stops_checked: "g w = Inl e \<Longrightarrow> stops (checked err g) w"
  by (auto simp: stops_def checked_def)

lemma next_step_cases:
  assumes "next_step m f s = (Inr y, s'')"
  obtains x s' where "m s = (Inr x, s')" "f x s' = (Inr y, s'')"
  using assms by (auto simp: next_step_def split: prod.splits sum.splits)

section \<open>The stages before a write\<close>

lemma no_write_admit [no_write_intros]:
  "no_write (admit_event cfg ops ev auth)" "no_write (check_scope ev auth)"
  "no_write (restriction_gate cfg ops kind auth)" "no_write (derive_channel ops ev)"
  "no_write (scope_channel ev auth ch)" "no_write (membership_gate ops ev auth ch row)"
  "no_write (check_attestation cfg ops kind auth)" "no_write (check_rotation ops ev)"
proof -
  show "no_write (admit_event cfg ops ev auth)"
    unfolding admit_event_def admit_kind_def verify_signature_def Let_def
    by (intro no_write_intros) (cases "op_verify ops ev"; simp add: no_write_intros)
  show "no_write (check_scope ev auth)"
    unfolding check_scope_def Let_def by (intro no_write_intros)
  show "no_write (restriction_gate cfg ops kind auth)"
    unfolding restriction_gate_def by (intro no_write_intros)
  have "no_write (reaction_target_channel ops ev)"
    unfolding reaction_target_channel_def
    by (intro no_write_intros) (simp add: no_write_intros split: reaction_channel.split)
  moreover have "no_write (deletion_channel ops ev)"
    unfolding deletion_channel_def by (intro no_write_intros)
  ultimately show "no_write (derive_channel ops ev)"
    unfolding derive_channel_def Let_def by (intro no_write_intros)
  show "no_write (scope_channel ev auth ch)"
    unfolding scope_channel_def by (intro no_write_intros)
  show "no_write (membership_gate ops ev auth ch row)"
    unfolding membership_gate_def
    by (intro no_write_intros) (simp add: no_write_intros split: prod.split)
  show "no_write (check_attestation cfg ops kind auth)"
    unfolding check_attestation_def Let_def
    by (intro no_write_intros) (simp add: no_write_intros split: attestation_outcome.split)
  show "no_write (check_rotation ops ev)"
    unfolding check_rotation_def by (intro no_write_intros)
qed

text \<open>The kinds that reach the restriction gate.\<close>

definition ordinary_kind :: "nat \<Rightarrow> bool" where
  "ordinary_kind kind \<longleftrightarrow>
     \<not> is_command_kind kind \<and> kind \<noteq> KIND_PRODUCT_FEEDBACK \<and> kind \<noteq> KIND_REPORT \<and>
     \<not> is_moderation_command_kind kind"

definition writes_nothing ::
    "ingest_config \<Rightarrow> 'w ingest_ops \<Rightarrow> nostr_event \<Rightarrow> ingest_auth \<Rightarrow> 'w relay \<Rightarrow> bool" where
  "writes_nothing cfg ops ev auth s \<longleftrightarrow>
     (\<exists>e s'. ingest_event cfg ops ev auth s = (Inl e, s') \<and> world s' = world s)"

lemma world_guard [simp]: "world (drop_guard n s) = world s" "world (record_error r s) = world s"
  by (auto simp: drop_guard_def record_error_def split: sum.splits ingest_error.splits)

lemma writes_nothingI: "stops (ingest_event_inner cfg ops ev auth) (world s) \<Longrightarrow> writes_nothing cfg ops ev auth s"
  by (cases "ingest_event_inner cfg ops ev auth s")
     (auto simp: writes_nothing_def ingest_event_def stops_def)

lemma writes_nothing_gated:
  assumes "ordinary_kind (ev_kind ev)" "stops (ingest_gated cfg ops ev auth) (world s)"
  shows "writes_nothing cfg ops ev auth s"
proof (rule writes_nothingI)
  show "stops (ingest_event_inner cfg ops ev auth) (world s)"
    unfolding ingest_event_inner_def Let_def
    using assms by (intro stops_next no_write_intros) (auto simp: ordinary_kind_def)
qed

section \<open>Safety of the gates\<close>

lemma stops_gated:
  assumes "\<And>u y u'. world u = w \<Longrightarrow> derive_channel ops ev u = (Inr y, u') \<Longrightarrow>
    stops (scope_channel ev auth y) w \<or> stops (ingest_channel_write cfg ops ev auth y) w"
  shows "stops (ingest_gated cfg ops ev auth) w"
  unfolding ingest_gated_def
proof (rule stops_next, rule no_write_admit, rule stops_next, rule no_write_admit)
  fix u u' y
  assume "world u = w" "derive_channel ops ev u = (Inr y, u')"
  then have "stops (scope_channel ev auth y) w \<or> stops (ingest_channel_write cfg ops ev auth y) w"
    by (rule assms)
  then show "stops (next_step (scope_channel ev auth y) (\<lambda>_. ingest_channel_write cfg ops ev auth y)) w"
    by (auto intro: stops_first stops_next no_write_admit)
qed

text \<open>
  C6: A banned author, or one whose timeout has not ended, changes nothing in the relay's world
  by an ordinary event: whatever the database, the handlers and the event, the pipeline ends
  in an error before any operation that writes.
\<close>

theorem restricted_author_writes_nothing:
  assumes "ordinary_kind (ev_kind ev)" "\<not> is_relay_admin_kind (ev_kind ev)"
    and "op_restriction ops (world s) (auth_pubkey auth) = Inr r"
    and "re_banned r \<or> (\<exists>t. re_muted_until r = Some t \<and> t > cf_now_gate cfg)"
  shows "writes_nothing cfg ops ev auth s"
proof (rule writes_nothing_gated)
  show "ordinary_kind (ev_kind ev)" by (rule assms)
  have "stops (restriction_gate cfg ops (ev_kind ev) auth) (world s)"
  proof -
    have "\<not> is_moderation_command_kind (ev_kind ev)" using assms(1) by (simp add: ordinary_kind_def)
    then show ?thesis
      using assms(2,3,4)
      by (auto simp: restriction_gate_def stops_def next_step_def checked_def fail_if_def fail_def
          done_with_def split: option.splits)
  qed
  then show "stops (ingest_gated cfg ops ev auth) (world s)"
    unfolding ingest_gated_def by (rule stops_first)
qed

lemma h_scope_kinds:
  assumes "requires_h_channel_scope k"
  shows "k \<noteq> KIND_REACTION" "k \<noteq> KIND_GIFT_WRAP" "k \<noteq> KIND_DELETION" "\<not> is_global_only_kind k"
    "ordinary_kind k"
proof -
  show "k \<noteq> KIND_REACTION" "k \<noteq> KIND_GIFT_WRAP" "k \<noteq> KIND_DELETION"
    using assms unfolding requires_h_channel_scope_def kind_consts by (elim insertE emptyE; simp)+
  show "\<not> is_global_only_kind k"
    using assms unfolding requires_h_channel_scope_def
    by (elim insertE emptyE; simp add: is_global_only_kind_def kind_consts)
  show "ordinary_kind k"
    using assms unfolding requires_h_channel_scope_def
    by (elim insertE emptyE; simp add: ordinary_kind_def is_command_kind_def is_moderation_command_kind_def kind_consts)
qed

text \<open>The channel of an event depends on the world alone.\<close>

lemma derive_channel_world:
  "world t = world s \<Longrightarrow> fst (derive_channel ops ev t) = fst (derive_channel ops ev s)"
  by (auto simp: derive_channel_def reaction_target_channel_def deletion_channel_def Let_def next_step_def
      reads_def checked_def done_with_def fail_def split: option.splits sum.splits reaction_channel.splits)

text \<open>
  C17: An event that the pipeline places in a channel - by its \<open>h\<close> tag, or, for reactions and
  deletions, by its target - changes nothing unless its author is a member of the channel or the
  channel is open. Six kinds are exempt, as \<open>skips_membership\<close> lists them: join requests, channel
  creation, message edits and the three group commands that have validators of their own. Events
  without a channel and the commands dispatched before this gate are not covered.
\<close>

theorem channel_write_needs_membership:
  assumes kind: "ordinary_kind (ev_kind ev)" "\<not> skips_membership (ev_kind ev)"
    and ch: "fst (derive_channel ops ev s) = Inr (Some ch)"
    and not_member: "env_is_member (op_env ops (world s)) ch (auth_pubkey auth) \<noteq> Inr True"
    and not_open: "\<And>row. env_channel (op_env ops (world s)) ch = Inr row \<Longrightarrow> cr_visibility row \<noteq> ''open''"
  shows "writes_nothing cfg ops ev auth s"
proof (rule writes_nothing_gated)
  let ?w = "world s"
  show "ordinary_kind (ev_kind ev)" by (rule kind)
  have derived: "x = Some ch" if "world t = ?w" "derive_channel ops ev t = (Inr x, t')" for t t' x
    using that ch derive_channel_world [of t s ops ev] by simp
  have deny: "\<exists>e. check_channel_membership (op_env ops ?w) ch (auth_pubkey auth)
      (prefetch_row ops (Some ch) ?w) = Inl e"
    using not_member not_open
    by (auto simp: check_channel_membership_def prefetch_row_def split: sum.splits bool.splits option.splits)
  have "stops (membership_gate ops ev auth (Some ch) (prefetch_row ops (Some ch) ?w)) ?w"
    using deny kind(2)
    by (auto simp: membership_gate_def stops_def next_step_def reads_def emit_def checked_def)
  then have wr: "stops (ingest_channel_write cfg ops ev auth (Some ch)) ?w"
    unfolding ingest_channel_write_def Let_def
    by (intro stops_next no_write_intros stops_first) (auto simp: reads_def)
  show "stops (ingest_gated cfg ops ev auth) ?w"
    using derived wr by (intro stops_gated) blast
qed

text \<open>
  C26: By an ordinary event a token restricted to some channels writes nowhere else: unless the
  pipeline resolves the event to one of the token's channels, the event changes nothing. Commands,
  feedback, reports and moderation commands are not ordinary: they are dispatched before this gate, and
  \<open>scoped_token_reaches_moderation\<close> below shows that no other check holds them back.
\<close>

theorem scoped_token_stays_in_its_channels:
  assumes "ordinary_kind (ev_kind ev)" "auth_channel_ids auth = Some ids"
    and "\<And>ch. fst (derive_channel ops ev s) = Inr (Some ch) \<Longrightarrow> ch \<notin> set ids"
  shows "writes_nothing cfg ops ev auth s"
proof (rule writes_nothing_gated)
  show "ordinary_kind (ev_kind ev)" by (rule assms)
  let ?w = "world s"
  show "stops (ingest_gated cfg ops ev auth) ?w"
  proof (rule stops_gated, rule disjI1)
    fix u u' y
    assume "world u = ?w" "derive_channel ops ev u = (Inr y, u')"
    then have "fst (derive_channel ops ev s) = Inr y" using derive_channel_world [of u s ops ev] by simp
    then show "stops (scope_channel ev auth y) ?w"
      using assms(2,3)
      by (auto simp: scope_channel_def stops_def next_step_def checked_def fail_if_def fail_def done_with_def
          check_token_channel_access_def split: option.splits)
  qed
qed

section \<open>The timestamp window\<close>

lemma sint_of_int_small:
  "- (2 ^ 63) \<le> z \<Longrightarrow> z < 2 ^ 63 \<Longrightarrow> sint (word_of_int z :: 64 word) = z"
  by (simp add: signed_of_int signed_take_bit_int_eq_self)

lemma sint_abs_i64:
  assumes "- (2 ^ 63) < z" "z < 2 ^ 63"
  shows "sint (abs_i64 (word_of_int z)) = \<bar>z\<bar>"
proof (cases "z < 0")
  case True
  have "abs_i64 (word_of_int z) = word_of_int (- z)"
    using True assms by (simp add: abs_i64_def sint_of_int_small)
  then show ?thesis using True assms sint_of_int_small [of "- z"] by simp
next
  case False
  then show ?thesis using assms by (simp add: abs_i64_def sint_of_int_small)
qed

text \<open>
  For clocks and timestamps below 2^63 the wrapping arithmetic of the drift check is
  exact: an event is refused just when it lies more than 900 seconds from the server's clock.
\<close>

theorem drift_window_exact:
  assumes "now < 2 ^ 63" "ts < 2 ^ 63"
  shows "timestamp_too_far now ts \<longleftrightarrow> \<bar>int ts - int now\<bar> > 900"
proof -
  let ?z = "int ts - int now"
  have "int now < int (2 ^ 63)" "int ts < int (2 ^ 63)" using assms by (simp_all only: of_nat_less_iff)
  then have z: "- (2 ^ 63) < ?z" "?z < 2 ^ 63" by simp_all
  have d: "(word_of_nat ts - word_of_nat now :: 64 word) = word_of_int ?z"
    by simp
  have "sint (abs_i64 (word_of_int ?z)) = \<bar>?z\<bar>"
    using z by (rule sint_abs_i64)
  then show ?thesis by (simp only: timestamp_too_far_def d MAX_TIMESTAMP_DRIFT_SECS_def)
qed

theorem drift_window_exact_witness: "timestamp_too_far 1700000000 1700000901"
  by (subst drift_window_exact) simp_all

text \<open>The one timestamp beyond that range that the wrap lets through.\<close>

lemma drift_check_wraps: "\<not> timestamp_too_far now (now + 2 ^ 63)"
proof -
  have "(word_of_nat (now + 2 ^ 63) - word_of_nat now :: 64 word) = 2 ^ 63"
    by simp
  moreover have "sint (abs_i64 (2 ^ 63)) = - (2 ^ 63)"
    by (simp add: abs_i64_def)
  ultimately show ?thesis by (simp add: timestamp_too_far_def MAX_TIMESTAMP_DRIFT_SECS_def)
qed

section \<open>A message that passes the gates\<close>

text \<open>
  With a clock past 900 seconds and below 2^63, as every real clock is, the wrapping check admits the
  timestamps within 900 seconds of it and one more, exactly 2^63 seconds ahead.
\<close>

lemma drift_window_wraps:
  assumes "900 \<le> now" "now < 2 ^ 63" "ts < 2 ^ 64"
  shows "timestamp_too_far now ts \<longleftrightarrow> \<bar>int ts - int now\<bar> > 900 \<and> int ts - int now \<noteq> 2 ^ 63"
proof -
  let ?z = "int ts - int now"
  have "int now < int (2 ^ 63)" "int ts < int (2 ^ 64)" "int 900 \<le> int now"
    using assms by (simp_all only: of_nat_less_iff of_nat_le_iff)
  then have z: "- (2 ^ 63) < ?z" "?z < 2 ^ 64 - 900" by simp_all
  have d: "(word_of_nat ts - word_of_nat now :: 64 word) = word_of_int ?z" by simp
  consider "?z < 2 ^ 63" | "?z = 2 ^ 63" | "?z > 2 ^ 63" by linarith
  then show ?thesis
  proof cases
    case 1
    then have "sint (abs_i64 (word_of_int ?z)) = \<bar>?z\<bar>" using z by (intro sint_abs_i64)
    then show ?thesis using 1 by (simp only: timestamp_too_far_def d MAX_TIMESTAMP_DRIFT_SECS_def) simp
  next
    case 2
    have "sint (abs_i64 (word_of_int (2 ^ 63))) = - (2 ^ 63)" by (simp add: abs_i64_def)
    then show ?thesis by (simp only: timestamp_too_far_def d 2 MAX_TIMESTAMP_DRIFT_SECS_def) simp
  next
    case 3
    have "(word_of_int ?z :: 64 word) = word_of_int (?z - 2 ^ 64)"
      by (simp add: word_of_int_eq_iff take_bit_eq_mod mod_diff_right_eq flip: of_nat_diff)
    moreover have "sint (abs_i64 (word_of_int (?z - 2 ^ 64))) = \<bar>?z - 2 ^ 64\<bar>"
      using 3 z by (intro sint_abs_i64) simp_all
    ultimately show ?thesis using 3 z by (simp only: timestamp_too_far_def d MAX_TIMESTAMP_DRIFT_SECS_def) simp
  qed
qed

text \<open>
  C1: Whatever a request changes was admitted: the signature verified, the kind is not
  reserved to the relay, the author is the authenticated key (a gift wrap may be of any author),
  the content is within its bound, the connection holds the scope the kind requires, and the
  timestamp lies within 900 seconds of the server's clock or, the hole of the wrapping subtraction,
  exactly 2^63 seconds ahead of it. This covers the commands too.
\<close>

theorem every_write_is_admitted:
  assumes "world (snd (ingest_event cfg ops ev auth s)) \<noteq> world s"
    and clock: "900 \<le> cf_now cfg" "cf_now cfg < 2 ^ 63" and u64: "ev_created_at ev < 2 ^ 64"
  shows "op_verify ops ev = VerifyOk \<and> \<not> is_relay_only_kind (ev_kind ev) \<and>
    (ev_pubkey ev = auth_pubkey auth \<or> ev_kind ev = KIND_GIFT_WRAP) \<and>
    length (ev_content ev) \<le> 262144 \<and>
    (\<exists>sc. required_scope_for_kind (ev_kind ev) ev = Inr sc \<and> sc \<in> set (auth_scopes auth)) \<and>
    (\<bar>int (ev_created_at ev) - int (cf_now cfg)\<bar> \<le> 900 \<or>
     int (ev_created_at ev) - int (cf_now cfg) = 2 ^ 63)"
proof -
  have "\<not> stops (ingest_event_inner cfg ops ev auth) (world s)"
    using assms(1) writes_nothingI [of cfg ops ev auth s] by (auto simp: writes_nothing_def)
  then have a: "\<not> stops (admit_event cfg ops ev auth) (world s)"
    and b: "\<not> stops (check_scope ev auth) (world s)"
    unfolding ingest_event_inner_def Let_def
    by (auto intro: stops_first stops_next no_write_intros)
  from a have window: "\<not> timestamp_too_far (cf_now cfg) (ev_created_at ev)"
    by (auto simp: admit_event_def admit_kind_def verify_signature_def stops_def next_step_def fail_if_def
        fail_def done_with_def Let_def split: if_splits verify_outcome.splits)
  have "\<bar>int (ev_created_at ev) - int (cf_now cfg)\<bar> \<le> 900 \<or>
     int (ev_created_at ev) - int (cf_now cfg) = 2 ^ 63"
    using window drift_window_wraps [OF clock u64] by linarith
  with a b show ?thesis
    by (auto simp: admit_event_def admit_kind_def verify_signature_def check_scope_def stops_def
        next_step_def fail_if_def fail_def done_with_def checked_def Let_def MAX_EVENT_CONTENT_BYTES_def
        split: if_splits verify_outcome.splits sum.splits)
qed

lemma next_step_done [simp]: "next_step (done_with x) f = f x"
  by (simp add: next_step_def done_with_def)

lemma fail_if_False [simp]: "fail_if False e = done_with ()"
  by (simp add: fail_if_def)

lemmas pipeline_defs =
  next_step_def done_with_def checked_def reads_def performs_def updates_def emit_def fail_if_def fail_def

text \<open>
  C38: A stream message of a channel member that passes the gates is stored once and then
  handed to the fan-out: the world is the insert followed by the dispatch of the stored event,
  and the trace of the request is the membership verdict and the write.
\<close>

theorem member_message_is_published:
  fixes ops :: "'w ingest_ops"
  assumes kind: "ev_kind ev = KIND_STREAM_MESSAGE"
    and admitted: "op_verify ops ev = VerifyOk" "\<not> timestamp_too_far (cf_now cfg) (ev_created_at ev)"
      "length (ev_content ev) \<le> 262144" "ev_pubkey ev = auth_pubkey auth"
      "MessagesWrite \<in> set (auth_scopes auth)"
    and free: "op_restriction ops (world s) (auth_pubkey auth) = Inr \<lparr>re_banned = False, re_muted_until = None\<rparr>"
    and ch: "extract_channel_id (op_env ops (world s)) ev = Some ch"
      "check_token_channel_access auth ch = Inr ()"
      "env_is_member (op_env ops (world s)) ch (auth_pubkey auth) = Inr True"
      "\<And>r. env_channel (op_env ops (world s)) ch = Inr r \<Longrightarrow> \<not> cr_archived r"
    and plain: "filter (\<lambda>t. tag_kind t = ''imeta'') (ev_tags ev) = []" "thread_ancestry (ev_tags ev) = None"
    and stored: "op_insert ops ev (Some ch) None (world s) = (Inr (st, True), w')"
  shows "\<exists>s'. ingest_event cfg ops ev auth s = (Inr (accepted ev []), s') \<and>
    world s' = op_dispatch ops st (ev_kind ev) (auth_pubkey auth)
      (threaded_visibility ops (Some ch) (prefetch_row ops (Some ch) (world s)) (world s)) w' \<and>
    trace s' = trace s @
      [AuthCheck ch (claimed_community_from_event (op_env ops (world s)) ev) True,
       WriteInsert (ev_id ev) ch (claimed_community_from_event (op_env ops w') ev)]"
proof -
  have k: "ev_kind ev = 9" using kind by (simp add: kind_consts)
  have admit: "admit_event cfg ops ev auth = done_with ()" "check_scope ev auth = done_with ()"
  proof -
    show "admit_event cfg ops ev auth = done_with ()"
      using admitted k
      by (simp add: admit_event_def admit_kind_def verify_signature_def Let_def is_relay_only_kind_def
          MAX_EVENT_CONTENT_BYTES_def kind_consts)
    have "required_scope_for_kind 9 ev = Inr MessagesWrite"
      by (simp add: required_scope_for_kind_def is_moderation_command_kind_def kind_consts)
    then show "check_scope ev auth = done_with ()"
      using admitted(5) k
      by (auto simp: check_scope_def pipeline_defs is_relay_admin_kind_def kind_consts)
  qed
  have inner: "ingest_event_inner cfg ops ev auth = ingest_gated cfg ops ev auth"
    using k by (simp add: ingest_event_inner_def Let_def admit is_command_kind_def
        is_moderation_command_kind_def kind_consts)
  have gate: "restriction_gate cfg ops (ev_kind ev) auth s = (Inr (), s)"
    using free by (simp add: restriction_gate_def pipeline_defs)
  have derived: "derive_channel ops ev s = (Inr (Some ch), s)"
    using k ch(1) by (simp add: derive_channel_def Let_def pipeline_defs is_global_only_kind_def kind_consts)
  have scoped: "scope_channel ev auth (Some ch) s = (Inr (), s)"
    using ch(2) by (simp add: scope_channel_def pipeline_defs)
  have gated: "ingest_gated cfg ops ev auth s = ingest_channel_write cfg ops ev auth (Some ch) s"
    by (simp add: ingest_gated_def next_step_def gate derived scoped)
  let ?row = "prefetch_row ops (Some ch) (world s)"
  let ?claimed = "claimed_community_from_event (op_env ops (world s)) ev"
  let ?s1 = "s\<lparr>trace := trace s @ [AuthCheck ch ?claimed True]\<rparr>"
  have member: "membership_gate ops ev auth (Some ch) ?row s = (Inr (), ?s1)"
    using ch(3) k
    by (simp add: membership_gate_def pipeline_defs check_channel_membership_def skips_membership_def kind_consts)
  have rest: "check_attestation cfg ops 9 auth = done_with ()" "check_rotation ops ev = done_with ()"
    "archived_gate ev (Some ch) ?row = done_with ()" "single_deletion_target ev = done_with ()"
    "when_kind ev 5 m = done_with ()" "validate_kind cfg ops ev = done_with ()" for m :: "('w, unit) ingest"
    using k ch(4)
    by (auto simp: check_attestation_def check_rotation_def archived_gate_def prefetch_row_def
        single_deletion_target_def validate_kind_def when_kind_def kind_consts fail_if_def split: sum.splits)
  have write_path: "ingest_channel_write cfg ops ev auth (Some ch) s =
      ingest_stored cfg ops ev auth (Some ch) ?row
        (threaded_visibility ops (Some ch) ?row (world s)) ?s1"
    using k
    by (simp add: member rest ingest_channel_write_def Let_def next_step_def reads_def done_with_def
        is_relay_admin_kind_def is_admin_kind_def is_identity_archive_request_kind_def kind_consts)
  have store: "create_group cfg ops ev (Some ch) = done_with (GoOn None)" "check_join ev (Some ch) ?row = done_with ()"
    "check_media ops ev = done_with ()" "check_profile ops ev = done_with ()"
    "thread_of_event ops ev (Some ch) ?s1 = (Inr None, ?s1)"
    using k plain
    by (simp_all add: create_group_def check_join_def check_media_def check_profile_def thread_of_event_def
        pipeline_defs resolve_nip10_thread_meta_def kind_consts requires_h_channel_scope_def)
  have insert: "store_event ops ev (Some ch) None None ?s1 = (Inr (st, True), ?s1\<lparr>world := w'\<rparr>)"
    using k stored
    by (simp add: store_event_def Let_def is_replaceable_def is_parameterized_replaceable_def kind_consts)
  show ?thesis
    using k
    by (simp add: store insert ingest_event_def inner gated write_path ingest_stored_def publish_stored_def Let_def
        next_step_def done_with_def updates_def emit_def reads_def is_side_effect_kind_def
        drop_guard_def record_error_def kind_consts)
qed

section \<open>Findings\<close>

text \<open>
  A reaction whose target has no channel: the row and the event are committed, then the
  request panics, so the client gets no answer and subscribers get no event.
\<close>

lemma reaction_to_global_event_panics:
  assumes "last_target ev = Some h" "env_hex32 (op_env ops (world s)) h = Some b"
    and "char_count (if ev_content ev = [] then ''+'' else ev_content ev) \<le> 64"
    and "op_insert_reaction ops ev None meta b (effective_message_author (op_env ops (world s)) ev)
      (if ev_content ev = [] then ''+'' else ev_content ev) (world s) = (Inr (ReactionInserted st ins), w')"
  shows "ingest_reaction ops ev auth None meta vis s =
    (Inl (Panicked ''reaction path has channel''), s\<lparr>world := w'\<rparr>)"
  using assms by (simp add: ingest_reaction_def pipeline_defs expect_channel_def Let_def)

text \<open>
  A create-group event whose media is refused: the channel created for it stays, because only a
  failing insert runs the compensating delete.
\<close>

lemma refused_media_leaves_created_channel:
  assumes "ev_kind ev = KIND_NIP29_CREATE_GROUP" "create_group cfg ops ev (Some ch) s = (Inr (GoOn (Some ch)), s1)"
    and "filter (\<lambda>t. tag_kind t = ''imeta'') (ev_tags ev) \<noteq> []"
    and "op_imeta ops (world s1) (filter (\<lambda>t. tag_kind t = ''imeta'') (ev_tags ev)) = Inl e"
  shows "ingest_stored cfg ops ev auth (Some ch) row vis s = (Inl (invalid e), s1)"
  using assms
  by (simp add: ingest_stored_def pipeline_defs check_join_def check_media_def Let_def kind_consts)

text \<open>
  An accepted report or moderation command records no trace action, so the coverage guard of
  the request records an implementation bug.
\<close>

lemma accepted_moderation_traces_impl_bug:
  assumes "is_moderation_command_kind (ev_kind ev) \<or> ev_kind ev = KIND_REPORT"
    and "ingest_event cfg ops ev auth s = (Inr r, s')"
  shows "trace s' = trace s @ [ImplBug ''ingest_event_exited_without_trace'']"
proof -
  have k: "\<not> is_command_kind (ev_kind ev)" "ev_kind ev \<noteq> KIND_PRODUCT_FEEDBACK"
    using assms(1)
    by (auto simp: is_moderation_command_kind_def is_command_kind_def kind_consts)
  obtain s1 where i: "ingest_event_inner cfg ops ev auth s = (Inr r, s1)"
      and s': "s' = drop_guard (length (trace s)) s1"
    using assms(2)
    by (auto simp: ingest_event_def record_error_def split: prod.splits sum.splits ingest_error.splits)
  have admit: "snd (admit_event cfg ops ev auth t) = t" "snd (check_scope ev auth t) = t" for t :: "'a relay"
    by (auto simp: admit_event_def admit_kind_def verify_signature_def check_scope_def pipeline_defs Let_def
        split: verify_outcome.splits sum.splits)
  have "trace s1 = trace s"
    using i assms(1) k admit [of s]
    by (auto simp: ingest_event_inner_def Let_def next_step_def performs_def done_with_def
        split: prod.splits sum.splits if_splits)
  then show ?thesis by (simp add: s' drop_guard_def)
qed

section \<open>A concrete relay\<close>

text \<open>
  A relay whose world counts the writes: every operation on the world adds one. One channel,
  \<open>room\<close>, private; one member key.
\<close>

definition demo_env :: ingest_env where
  "demo_env =
     \<lparr>env_uuid = (\<lambda>s. if s = ''room'' \<or> s = ''other'' then Some s else None),
      env_hex32 = (\<lambda>s. if is_hex64 s then Some (ascii_lower s) else None),
      env_datetime = Some, env_now = 0,
      env_event_by_id = (\<lambda>_. Inr None), env_thread_meta = (\<lambda>_. Inr None),
      env_is_member = (\<lambda>ch key. Inr (ch = ''room'' \<and> key = ''alice'')),
      env_channel = (\<lambda>ch. Inr \<lparr>cr_visibility = ''private'', cr_archived = False\<rparr>),
      env_agent_owner = (\<lambda>_ _. Inr False), env_relay_pubkey = ''relay''\<rparr>"

definition demo_ops :: "nat ingest_ops" where
  "demo_ops =
     \<lparr>op_env = (\<lambda>_. demo_env), op_verify = (\<lambda>_. VerifyOk),
      op_command = (\<lambda>ev _ w. (Inr (accepted ev []), w + 1)),
      op_feedback = (\<lambda>_ w. (Inr (), w + 1)), op_report = (\<lambda>_ w. (Inr (), w + 1)),
      op_moderation = (\<lambda>_ w. (Inr (), w + 1)),
      op_restriction = (\<lambda>_ key. Inr \<lparr>re_banned = (key = ''mallory''), re_muted_until = None\<rparr>),
      op_visibility = (\<lambda>_ _ r. Inr (cr_visibility r)), op_evm_identity = (\<lambda>_ _. Inr None),
      op_attestation = (\<lambda>_ _ _. AttestationValid), op_rotation = (\<lambda>_. Inr ()),
      op_relay_admin = (\<lambda>_ w. (Inr (), w + 1)), op_remove_member = (\<lambda>_ w. (Inr Removed, w + 1)),
      op_announce_leave = (\<lambda>_ w. w + 1), op_validate_admin = (\<lambda>_ _ _. Inr ()),
      op_identity_archive = (\<lambda>_ w. (Inr (), w + 1)), op_validate_deletion = (\<lambda>_ _. Inr ()),
      op_create_channel = (\<lambda>_ _ _ _ _ _ _ w. (Inr True, w + 1)),
      op_soft_delete_channel = (\<lambda>_ w. w + 1),
      op_accept_lease = (\<lambda>_ _ w. (Inr LeaseAccepted, w + 1)), op_imeta = (\<lambda>_ _. Inr ()),
      op_json_ok = (\<lambda>_. True),
      op_insert_reaction = (\<lambda>ev ch _ _ _ _ w. (Inr (ReactionInserted (stored_event_new 0 ev ch) True), w + 1)),
      op_replace = (\<lambda>ev ch w. (Inr (stored_event_new 0 ev ch, True), w + 1)),
      op_replace_param = (\<lambda>ev _ ch w. (Inr (stored_event_new 0 ev ch, True), w + 1)),
      op_insert = (\<lambda>ev ch _ w. (Inr (stored_event_new 0 ev ch, True), w + 1)),
      op_side_effects = (\<lambda>_ _ w. w + 1), op_thread_summary = (\<lambda>_ _ w. w + 1),
      op_dispatch = (\<lambda>_ _ _ _ w. w + 1)\<rparr>"

definition demo_config :: ingest_config where
  "demo_config =
     \<lparr>cf_now = 1000, cf_now_gate = 1000, cf_now_leave = 1000, cf_now_unix = 1000, cf_max_delta = 31536000,
      cf_enforce_attestation = True, cf_require_membership = True, cf_ttl_override = None\<rparr>"

definition demo_relay :: "nat relay" where
  "demo_relay = \<lparr>world = 0, trace = []\<rparr>"

definition demo_message :: "string \<Rightarrow> nostr_event" where
  "demo_message author =
     \<lparr>ev_id = ''id'', ev_pubkey = author, ev_created_at = 1000, ev_kind = 9,
      ev_tags = [[''h'', ''room'']], ev_content = ''hello''\<rparr>"

definition demo_report :: nostr_event where
  "demo_report =
     \<lparr>ev_id = ''id'', ev_pubkey = ''alice'', ev_created_at = 1000, ev_kind = 1984,
      ev_tags = [], ev_content = ''spam''\<rparr>"

lemmas demo_defs = demo_env_def demo_ops_def demo_config_def demo_relay_def demo_message_def demo_report_def

lemma demo_channel:
  "extract_channel_id (op_env demo_ops w) (demo_message a) = Some ''room''"
  by (simp add: demo_defs extract_channel_id_def channel_of_tag_def tag_kind_def tag_content_def)

theorem restricted_author_writes_nothing_witness:
  "writes_nothing demo_config demo_ops (demo_message ''mallory'') (Http ''mallory'' [MessagesWrite]) demo_relay"
  by (rule restricted_author_writes_nothing [where r = "\<lparr>re_banned = True, re_muted_until = None\<rparr>"])
     (simp_all add: demo_defs ordinary_kind_def is_command_kind_def is_moderation_command_kind_def
       is_relay_admin_kind_def kind_consts)

theorem channel_write_needs_membership_witness:
  "writes_nothing demo_config demo_ops (demo_message ''bob'') (Http ''bob'' [MessagesWrite]) demo_relay"
proof (rule channel_write_needs_membership [where ch = "''room''"])
  have k: "ev_kind (demo_message ''bob'') = 9" by (simp add: demo_message_def)
  show "ordinary_kind (ev_kind (demo_message ''bob''))" "\<not> skips_membership (ev_kind (demo_message ''bob''))"
    by (simp_all add: k ordinary_kind_def is_command_kind_def is_moderation_command_kind_def skips_membership_def
        kind_consts)
  show "fst (derive_channel demo_ops (demo_message ''bob'') demo_relay) = Inr (Some ''room'')"
    by (simp add: derive_channel_def Let_def pipeline_defs demo_channel k is_global_only_kind_def kind_consts)
qed (simp_all add: demo_defs)

theorem scoped_token_stays_in_its_channels_witness:
  "writes_nothing demo_config demo_ops (demo_message ''alice'')
     (Nip42 ''alice'' [MessagesWrite] (Some [''other'']) ''conn'') demo_relay"
proof (rule scoped_token_stays_in_its_channels [where ids = "[''other'']"])
  have k: "ev_kind (demo_message ''alice'') = 9" by (simp add: demo_message_def)
  show "ordinary_kind (ev_kind (demo_message ''alice''))"
    by (simp add: k ordinary_kind_def is_command_kind_def is_moderation_command_kind_def kind_consts)
  fix ch
  assume "fst (derive_channel demo_ops (demo_message ''alice'') demo_relay) = Inr (Some ch)"
  then show "ch \<notin> set [''other'']"
    by (auto simp: derive_channel_def Let_def pipeline_defs demo_channel k is_global_only_kind_def kind_consts)
qed (simp add: auth_channel_ids_def)

theorem every_write_is_admitted_witness:
  "(ev_pubkey demo_report = auth_pubkey (Http ''alice'' [MessagesWrite]) \<or> ev_kind demo_report = KIND_GIFT_WRAP) \<and>
   (\<bar>int (ev_created_at demo_report) - int (cf_now demo_config)\<bar> \<le> 900 \<or>
     int (ev_created_at demo_report) - int (cf_now demo_config) = 2 ^ 63)"
proof -
  have "required_scope_for_kind 1984 demo_report = Inr MessagesWrite"
    by (simp add: required_scope_for_kind_def kind_consts)
  moreover have "\<not> timestamp_too_far 1000 1000"
    by (simp add: drift_window_exact)
  ultimately have "world (snd (ingest_event demo_config demo_ops demo_report (Http ''alice'' [MessagesWrite]) demo_relay))
      \<noteq> world demo_relay"
    by (simp add: ingest_event_def ingest_event_inner_def admit_event_def admit_kind_def verify_signature_def
        check_scope_def pipeline_defs Let_def demo_defs is_relay_only_kind_def is_command_kind_def
        is_relay_admin_kind_def auth_channel_ids_def MAX_EVENT_CONTENT_BYTES_def kind_consts)
  from every_write_is_admitted [OF this] show ?thesis by (simp add: demo_defs)
qed

theorem member_message_is_published_witness:
  "\<exists>s'. ingest_event demo_config demo_ops (demo_message ''alice'') (Http ''alice'' [MessagesWrite]) demo_relay =
     (Inr (accepted (demo_message ''alice'') []), s') \<and> world s' = 2"
proof -
  have "\<not> timestamp_too_far 1000 1000"
    by (simp add: drift_window_exact)
  then have "\<exists>s'. ingest_event demo_config demo_ops (demo_message ''alice'') (Http ''alice'' [MessagesWrite]) demo_relay =
     (Inr (accepted (demo_message ''alice'') []), s') \<and>
     world s' = op_dispatch demo_ops (stored_event_new 0 (demo_message ''alice'') (Some ''room''))
       (ev_kind (demo_message ''alice'')) (auth_pubkey (Http ''alice'' [MessagesWrite]))
      (threaded_visibility demo_ops (Some ''room'') (prefetch_row demo_ops (Some ''room'') (world demo_relay)) (world demo_relay)) 1 \<and>
     trace s' = trace demo_relay @
      [AuthCheck ''room'' (claimed_community_from_event (op_env demo_ops (world demo_relay)) (demo_message ''alice'')) True,
       WriteInsert (ev_id (demo_message ''alice'')) ''room'' (claimed_community_from_event (op_env demo_ops 1) (demo_message ''alice''))]"
    by (intro member_message_is_published)
       (simp_all add: demo_channel, auto simp: demo_defs check_token_channel_access_def auth_channel_ids_def
         tag_kind_def thread_ancestry_def thread_markers_def marker_step_def kind_consts)
  then show ?thesis by (auto simp: demo_ops_def)
qed

text \<open>
  A moderation command passes with a token restricted to another channel, although
  \<open>handlers/moderation_commands.rs\<close> says that channel-scoped tokens are rejected: the command reaches its
  handler.
\<close>

definition demo_ban :: nostr_event where
  "demo_ban =
     \<lparr>ev_id = ''id'', ev_pubkey = ''alice'', ev_created_at = 1000, ev_kind = 9040,
      ev_tags = [[''p'', ''mallory'']], ev_content = []\<rparr>"

lemma scoped_token_reaches_moderation:
  "fst (ingest_event demo_config demo_ops demo_ban (Nip42 ''alice'' [MessagesWrite] (Some [''other'']) ''conn'') demo_relay) =
     Inr (accepted demo_ban [])"
  "world (snd (ingest_event demo_config demo_ops demo_ban (Nip42 ''alice'' [MessagesWrite] (Some [''other'']) ''conn'')
     demo_relay)) = 1"
proof -
  have "required_scope_for_kind 9040 demo_ban = Inr MessagesWrite"
    by (simp add: required_scope_for_kind_def is_moderation_command_kind_def kind_consts)
  moreover have "\<not> timestamp_too_far 1000 1000"
    by (simp add: drift_window_exact)
  ultimately have "ingest_event_inner demo_config demo_ops demo_ban
      (Nip42 ''alice'' [MessagesWrite] (Some [''other'']) ''conn'') demo_relay =
      (Inr (accepted demo_ban []), demo_relay\<lparr>world := 1\<rparr>)"
    by (simp add: ingest_event_inner_def admit_event_def admit_kind_def verify_signature_def
        check_scope_def pipeline_defs Let_def demo_defs demo_ban_def is_relay_only_kind_def is_command_kind_def
        is_moderation_command_kind_def is_relay_admin_kind_def auth_channel_ids_def MAX_EVENT_CONTENT_BYTES_def
        kind_consts)
  then show "fst (ingest_event demo_config demo_ops demo_ban (Nip42 ''alice'' [MessagesWrite] (Some [''other'']) ''conn'') demo_relay) =
     Inr (accepted demo_ban [])"
    "world (snd (ingest_event demo_config demo_ops demo_ban (Nip42 ''alice'' [MessagesWrite] (Some [''other'']) ''conn'')
     demo_relay)) = 1"
    by (simp_all add: ingest_event_def)
qed

text \<open>The report of the demo trips the coverage guard although it was accepted.\<close>

lemma accepted_moderation_traces_impl_bug_demo:
  "trace (snd (ingest_event demo_config demo_ops demo_report (Http ''alice'' [MessagesWrite]) demo_relay)) =
     [ImplBug ''ingest_event_exited_without_trace'']"
proof -
  have "required_scope_for_kind 1984 demo_report = Inr MessagesWrite"
    by (simp add: required_scope_for_kind_def kind_consts)
  moreover have "\<not> timestamp_too_far 1000 1000"
    by (simp add: drift_window_exact)
  ultimately show ?thesis
    by (simp add: ingest_event_def ingest_event_inner_def admit_event_def admit_kind_def verify_signature_def
        check_scope_def pipeline_defs Let_def demo_defs is_relay_only_kind_def is_command_kind_def
        is_relay_admin_kind_def auth_channel_ids_def MAX_EVENT_CONTENT_BYTES_def kind_consts
        drop_guard_def record_error_def)
qed

end
