(* ===== verification/IngestContracts.thy ===== *)
theory IngestContracts
  imports IngestEnvelopes SdkGit SdkCommands SdkProjects
begin

text \<open>
  The contract between the SDK that builds events (\<open>crates/buzz-sdk/src/builders.rs\<close>) and the
  relay that ingests them (\<open>crates/buzz-relay/src/handlers/ingest.rs\<close>).

  \<^item> The two project validators, written independently, accept the same events.
  \<^item> \<open>sdk_builds\<close> collects what the SDK can build, one rule per builder. Every such event is well
    typed, and one built for a channel is scoped to that channel by the relay.
  \<^item> Diff metadata the builder accepts passes the relay's diff validator, mentions are
    deduplicated, and thread references survive the round trip through the tags.
\<close>

section \<open>Project envelopes\<close>

lemma is_lower_hex_iff:
  "is_lower_hex 64 s \<longleftrightarrow> length s = 64 \<and> list_all is_ascii_hexdigit s \<and> \<not> list_ex is_ascii_uppercase s"
  by (auto simp: is_lower_hex_def list_all_iff list_ex_iff)

lemma member_coordinate_agrees:
  "(\<exists>m. parse_full c = Inr m) \<longleftrightarrow> parse_project_member_coordinate c = Inr ()"
proof -
  obtain a o2 o3 where s: "splitn3 CHR '':'' c = (a, o2, o3)" by (cases "splitn3 CHR '':'' c")
  show ?thesis
  proof (cases o2)
    case None
    then show ?thesis
      by (simp add: parse_full_def parse_project_member_coordinate_def s Let_def)
  next
    case (Some b)
    then show ?thesis
      by (cases o3)
         (auto simp: parse_full_def parse_project_member_coordinate_def s Let_def is_lower_hex_iff
            PROJECT_MEMBER_KIND_SEGMENT_def)
  qed
qed

lemma member_step_Inr:
  "member_step a seen = Inr t \<longleftrightarrow>
   parse_project_member_coordinate (value_of a) = Inr () \<and> value_of a \<notin> set seen \<and> t = value_of a # seen"
  using member_coordinate_agrees [of "value_of a"]
  by (auto simp: member_step_def Let_def split: sum.splits)

lemma project_member_step_Inr:
  "project_member_step c seen = Inr t \<longleftrightarrow>
   parse_project_member_coordinate c = Inr () \<and> c \<notin> set seen \<and> t = c # seen"
  by (auto simp: project_member_step_def and_then_Inr)

lemma member_folds_agree:
  "try_fold member_step as seen = Inr t \<longleftrightarrow> try_fold project_member_step (map value_of as) seen = Inr t"
  by (induction as arbitrary: seen)
     (auto simp: and_then_Inr member_step_Inr project_member_step_Inr)

text \<open>What the relay's single pass over the tags collects.\<close>

definition last_value :: "string \<Rightarrow> tag list \<Rightarrow> string option \<Rightarrow> string option" where
  "last_value k tags o' = (if tags_named k tags = [] then o' else Some (value_of (last (tags_named k tags))))"

lemma tags_named_simps [simp]:
  "tags_named k [] = []"
  "tags_named k ([] # ts) = tags_named k ts"
  "tags_named k ((n # r) # ts) = (if n = k then (n # r) # tags_named k ts else tags_named k ts)"
  by (simp_all add: tags_named_def tag_name_def)

lemma last_value_simps [simp]:
  "last_value k [] o' = o'"
  "last_value k ([] # ts) o' = last_value k ts o'"
  "last_value k ((n # r) # ts) o' = last_value k ts (if n = k then Some (value_of (n # r)) else o')"
  by (simp_all add: last_value_def)

lemma scan_value: "(case r of v # _ \<Rightarrow> v | [] \<Rightarrow> []) = value_of (n # r)"
  by (simp add: value_of_def tag_value_def split: list.split)

lemma position_singletons:
  "position (\<lambda>k. k = n) PROJECT_SINGLETON_METADATA_TAGS =
   (if n = ''name'' then Some 0 else if n = ''description'' then Some 1
    else if n = ''buzz-channel'' then Some 2 else if n = ''buzz-visibility'' then Some 3 else None)"
  by (auto simp: PROJECT_SINGLETON_METADATA_TAGS_def)

definition named :: "string \<Rightarrow> tag \<Rightarrow> tag list" where
  "named k t = (if tag_name t = Some k then [t] else [])"

lemma tags_named_Cons: "tags_named k (t # ts) = named k t @ tags_named k ts"
  by (simp add: tags_named_def named_def)

lemma project_scan_step_Cons:
  assumes "ps_counts s = [a, b, c, d]"
  shows "project_scan_step (n # r) s =
    \<lparr>ps_d = ps_d s @ map value_of (named ''d'' (n # r)),
     ps_members = ps_members s @ map value_of (named ''a'' (n # r)),
     ps_name = (if n = ''name'' then Some (value_of (n # r)) else ps_name s),
     ps_description = (if n = ''description'' then Some (value_of (n # r)) else ps_description s),
     ps_channel = (if n = ''buzz-channel'' then Some (value_of (n # r)) else ps_channel s),
     ps_visibility = (if n = ''buzz-visibility'' then Some (value_of (n # r)) else ps_visibility s),
     ps_counts = [a + length (named ''name'' (n # r)), b + length (named ''description'' (n # r)),
       c + length (named ''buzz-channel'' (n # r)), d + length (named ''buzz-visibility'' (n # r))]\<rparr>"
  using assms by (cases s) (auto simp: named_def tag_name_def project_scan_step_def Let_def scan_value [of r n] position_singletons)

lemma project_scan_fold:
  assumes "ps_counts s = [a, b, c, d]"
  shows "fold project_scan_step tags s =
    \<lparr>ps_d = ps_d s @ map value_of (tags_named ''d'' tags),
     ps_members = ps_members s @ map value_of (tags_named ''a'' tags),
     ps_name = last_value ''name'' tags (ps_name s),
     ps_description = last_value ''description'' tags (ps_description s),
     ps_channel = last_value ''buzz-channel'' tags (ps_channel s),
     ps_visibility = last_value ''buzz-visibility'' tags (ps_visibility s),
     ps_counts = [a + length (tags_named ''name'' tags), b + length (tags_named ''description'' tags),
       c + length (tags_named ''buzz-channel'' tags), d + length (tags_named ''buzz-visibility'' tags)]\<rparr>"
  using assms
proof (induction tags arbitrary: s a b c d)
  case (Cons t tags)
  show ?case
  proof (cases t)
    case Nil
    with Cons show ?thesis by (simp add: project_scan_step_def)
  next
    case (Cons n r)
    show ?thesis
      unfolding Cons fold_simps project_scan_step_Cons [OF Cons.prems]
      by (subst Cons.IH, simp) (simp del: tags_named_simps add: tags_named_Cons split del: if_split)
  qed
qed simp

lemma project_scan_start_counts: "ps_counts project_scan_start = [0, 0, 0, 0]"
  by (simp add: project_scan_start_def PROJECT_SINGLETON_METADATA_TAGS_def)

text \<open>One metadata field: the SDK's test on the first tag and the relay's on the last agree.\<close>

lemma singleton_field_Inr:
  "singleton_field tags (k, lim) = Inr () \<longleftrightarrow>
   length (tags_named k tags) \<le> 1 \<and>
   (\<forall>v. last_value k tags None = Some v \<longrightarrow> length v \<le> lim)"
proof (cases "tags_named k tags")
  case (Cons t ts)
  then show ?thesis
    by (cases ts) (auto simp: singleton_field_def Let_def and_then_Inr refuse_if_Inr last_value_def)
qed (simp add: singleton_field_def Let_def and_then_Inr refuse_if_Inr last_value_def)

lemma arity_agrees:
  "(\<forall>a \<in> set (tags_named ''a'' tags). 1 \<le> length a - 1 \<and> length a - 1 \<le> 2) \<longleftrightarrow>
   (\<forall>p \<in> set tags. hd p = ''a'' \<longrightarrow> p = [] \<or> 2 \<le> length p \<and> length p \<le> 3)"
proof -
  have "tag_name p = Some ''a'' \<longleftrightarrow> p \<noteq> [] \<and> hd p = ''a''" for p
    by (cases p) (simp_all add: tag_name_def)
  moreover have "1 \<le> length p - 1 \<and> length p - 1 \<le> 2 \<longleftrightarrow> 2 \<le> length p \<and> length p \<le> 3" for p :: tag
    by arith
  ultimately show ?thesis by (auto simp: tags_named_def)
qed

text \<open>
  C27: The client's and the relay's project validators agree: an event's tags pass
  \<open>validate_project_envelope\<close> of the SDK exactly when the event passes the relay's validator
  and its \<open>d\<close> value is within the relay's general bound of 1024 bytes.
\<close>

theorem project_validators_agree:
  "validate_project_envelope (ev_tags ev) content = Inr () \<longleftrightarrow>
   relay_validate_project_envelope ev = Inr () \<and>
   (\<forall>t \<in> set (tags_named ''d'' (ev_tags ev)). length (value_of t) \<le> 1024)"
proof -
  let ?ts = "ev_tags ev"
  let ?d = "tags_named ''d'' ?ts" and ?a = "tags_named ''a'' ?ts"
  have sdk: "validate_project_envelope ?ts content = Inr () \<longleftrightarrow>
      length ?d = 1 \<and> value_of (hd ?d) \<noteq> [] \<and> length (value_of (hd ?d)) \<le> 1024 \<and> length ?a \<le> 64 \<and>
      (\<forall>a \<in> set ?a. 1 \<le> length a - 1 \<and> length a - 1 \<le> 2) \<and> (\<exists>t. try_fold member_step ?a [] = Inr t) \<and>
      (\<forall>f \<in> set singleton_fields. singleton_field ?ts f = Inr ())"
    by (simp add: validate_project_envelope_def Let_def result_simps project_limits del: One_nat_def)
       (auto simp: not_less)
  have fields: "(\<forall>f \<in> set singleton_fields. singleton_field ?ts f = Inr ()) \<longleftrightarrow>
      (\<forall>k \<in> {''name'', ''description'', ''buzz-channel'', ''buzz-visibility''}. length (tags_named k ?ts) \<le> 1) \<and>
      (\<forall>v. last_value ''name'' ?ts None = Some v \<longrightarrow> length v \<le> 256) \<and>
      (\<forall>v. last_value ''description'' ?ts None = Some v \<longrightarrow> length v \<le> 2048) \<and>
      (\<forall>v. last_value ''buzz-channel'' ?ts None = Some v \<longrightarrow> length v \<le> 256) \<and>
      (\<forall>v. last_value ''buzz-visibility'' ?ts None = Some v \<longrightarrow> length v \<le> 256)"
    by (simp add: singleton_fields_def singleton_field_Inr project_limits) blast
  have scan: "fold project_scan_step ?ts project_scan_start =
    \<lparr>ps_d = map value_of ?d, ps_members = map value_of ?a,
     ps_name = last_value ''name'' ?ts None, ps_description = last_value ''description'' ?ts None,
     ps_channel = last_value ''buzz-channel'' ?ts None, ps_visibility = last_value ''buzz-visibility'' ?ts None,
     ps_counts = [length (tags_named ''name'' ?ts), length (tags_named ''description'' ?ts),
       length (tags_named ''buzz-channel'' ?ts), length (tags_named ''buzz-visibility'' ?ts)]\<rparr>"
    by (subst project_scan_fold [OF project_scan_start_counts]) (simp add: project_scan_start_def)
  have relay: "relay_validate_project_envelope ev = Inr () \<longleftrightarrow>
      length ?d = 1 \<and> map value_of ?d ! 0 \<noteq> [] \<and> length ?a \<le> 64 \<and>
      (\<forall>p \<in> set ?ts. hd p = ''a'' \<longrightarrow> p = [] \<or> 2 \<le> length p \<and> length p \<le> 3) \<and>
      (\<exists>t. try_fold project_member_step (map value_of ?a) [] = Inr t) \<and>
      (\<forall>k \<in> {''name'', ''description'', ''buzz-channel'', ''buzz-visibility''}. length (tags_named k ?ts) \<le> 1) \<and>
      (\<forall>v. last_value ''name'' ?ts None = Some v \<longrightarrow> length v \<le> 256) \<and>
      (\<forall>v. last_value ''description'' ?ts None = Some v \<longrightarrow> length v \<le> 2048) \<and>
      (\<forall>v. last_value ''buzz-channel'' ?ts None = Some v \<longrightarrow> length v \<le> 256) \<and>
      (\<forall>v. last_value ''buzz-visibility'' ?ts None = Some v \<longrightarrow> length v \<le> 256)"
    by (simp add: relay_validate_project_envelope_def scan Let_def result_simps metadata_bound_def
        RELAY_PROJECT_MEMBER_CAP_def PROJECT_NAME_MAX_LEN_def PROJECT_DESCRIPTION_MAX_LEN_def
        PROJECT_METADATA_TAG_MAX_LEN_def not_less del: One_nat_def)
  have d: "map value_of ?d ! 0 = value_of (hd ?d)" "(\<forall>t \<in> set ?d. length (value_of t) \<le> 1024) \<longleftrightarrow>
      length (value_of (hd ?d)) \<le> 1024" if "length ?d = 1"
    using that by (cases ?d; simp)+
  show ?thesis
  proof (cases "length ?d = 1")
    case True
    show ?thesis
      unfolding sdk relay fields arity_agrees member_folds_agree d [OF True] by (simp only: conj_ac)
  next
    case False
    then show ?thesis unfolding sdk relay by (simp only: simp_thms)
  qed
qed

definition demo_project :: nostr_event where
  "demo_project =
     \<lparr>ev_id = ''1'', ev_pubkey = ''alice'', ev_created_at = 0, ev_kind = KIND_PROJECT,
      ev_tags = [[''d'', ''site''], [''name'', ''Site'']], ev_content = []\<rparr>"

lemma demo_project_valid: "validate_project_envelope (ev_tags demo_project) [] = Inr ()"
  by code_simp

theorem project_validators_agree_witness: "relay_validate_project_envelope demo_project = Inr ()"
  using project_validators_agree [of demo_project "[]"] demo_project_valid by simp

section \<open>What the emitters add\<close>

text \<open>An emitter only appends, and appends no empty tag.\<close>

definition extends :: "tag list \<Rightarrow> tag list \<Rightarrow> bool" where
  "extends tags t \<longleftrightarrow> (\<exists>more. t = tags @ more \<and> [] \<notin> set more)"

lemma extends_refl [simp]: "extends tags tags"
  by (simp add: extends_def)

lemma extends_snoc: "extends tags (tags @ [p # ps])"
  by (auto simp: extends_def)

lemma extends_trans: "extends a b \<Longrightarrow> extends b c \<Longrightarrow> extends a c"
proof -
  assume "extends a b" "extends b c"
  then obtain m n where "b = a @ m" "[] \<notin> set m" "c = b @ n" "[] \<notin> set n" by (auto simp: extends_def)
  then have "c = a @ (m @ n) \<and> [] \<notin> set (m @ n)" by simp
  then show ?thesis unfolding extends_def by blast
qed

lemma extends_fold:
  assumes "try_fold f xs s = Inr t" "\<And>x s t. f x s = Inr t \<Longrightarrow> extends (g s) (g t)"
  shows "extends (g s) (g t)"
  using assms(1)
proof (rule try_fold_inv [where P = "\<lambda>u. extends (g s) (g u)"])
  show "extends (g s) (g s)" by (rule extends_refl)
qed (blast intro: extends_trans assms(2))

lemma extends_when_some:
  assumes "when_some o' f s = Inr t" "\<And>x. f x s = Inr t \<Longrightarrow> extends s t"
  shows "extends s t"
  using assms by (cases o') auto

named_theorems emits "emitters extend the tags"

lemma push_tag_extends [emits]: "push_tag tp p tags = Inr t \<Longrightarrow> tag_parser_ok tp \<Longrightarrow> extends tags t"
  by (cases p) (auto simp: extends_snoc push_tag_def mk_tag_def tag_parser_ok_def)

lemma emitters_extend [emits]:
  "push_opt tp n o' tags = Inr t \<Longrightarrow> tag_parser_ok tp \<Longrightarrow> extends tags t"
  "push_if tp b p tags = Inr t \<Longrightarrow> tag_parser_ok tp \<Longrightarrow> extends tags t"
  "thread_tags tp thr tags = Inr t \<Longrightarrow> tag_parser_ok tp \<Longrightarrow> extends tags t"
  "imeta_tags tp ps tags = Inr t \<Longrightarrow> tag_parser_ok tp \<Longrightarrow> extends tags t"
  "euc_tag tp mk euc tags = Inr t \<Longrightarrow> tag_parser_ok tp \<Longrightarrow> extends tags t"
  "merge_base_tag tp mb tags = Inr t \<Longrightarrow> tag_parser_ok tp \<Longrightarrow> extends tags t"
  "recipient_tag tp r tags = Inr t \<Longrightarrow> tag_parser_ok tp \<Longrightarrow> extends tags t"
  "label_tag tp l tags = Inr t \<Longrightarrow> tag_parser_ok tp \<Longrightarrow> extends tags t"
  "applied_patch_tag tp ap tags = Inr t \<Longrightarrow> tag_parser_ok tp \<Longrightarrow> extends tags t"
proof -
  assume tp: "tag_parser_ok tp"
  note step = push_tag_extends [OF _ tp]
  show "push_opt tp n o' tags = Inr t \<Longrightarrow> extends tags t"
    unfolding push_opt_def by (erule extends_when_some) (rule step)
  show "push_if tp b p tags = Inr t \<Longrightarrow> extends tags t"
    by (auto simp: push_if_def dest: step split: if_splits)
  show "thread_tags tp thr tags = Inr t \<Longrightarrow> extends tags t"
    by (auto simp: thread_tags_def Let_def and_then_Inr simp del: push_tag_ok dest!: step
        intro: extends_trans split: if_splits)
  show "imeta_tags tp ps tags = Inr t \<Longrightarrow> extends tags t"
    unfolding imeta_tags_def by (erule extends_fold [where g = id, simplified]) (rule step)
  show "euc_tag tp mk euc tags = Inr t \<Longrightarrow> extends tags t"
    unfolding euc_tag_def by (erule extends_when_some) (auto simp: and_then_Inr simp del: push_tag_ok dest: step)
  show "merge_base_tag tp mb tags = Inr t \<Longrightarrow> extends tags t"
    unfolding merge_base_tag_def
    by (erule extends_when_some) (auto simp: and_then_Inr simp del: push_tag_ok dest: step)
  show "recipient_tag tp r tags = Inr t \<Longrightarrow> extends tags t"
    by (auto simp: recipient_tag_def and_then_Inr simp del: push_tag_ok dest: step)
  show "label_tag tp l tags = Inr t \<Longrightarrow> extends tags t"
    unfolding label_tag_def by (rule step)
  show "applied_patch_tag tp ap tags = Inr t \<Longrightarrow> extends tags t"
    by (auto simp: applied_patch_tag_def and_then_Inr simp del: push_tag_ok dest: step split: option.splits)
qed

lemma emitter_loops_extend [emits]:
  "try_fold (recipient_tag tp) rs tags = Inr t \<Longrightarrow> tag_parser_ok tp \<Longrightarrow> extends tags t"
  "try_fold (label_tag tp) ls tags = Inr t \<Longrightarrow> tag_parser_ok tp \<Longrightarrow> extends tags t"
  "try_fold (applied_patch_tag tp) aps tags = Inr t \<Longrightarrow> tag_parser_ok tp \<Longrightarrow> extends tags t"
  "try_fold (\<lambda>x. push_tag tp (f x)) xs tags = Inr t \<Longrightarrow> tag_parser_ok tp \<Longrightarrow> extends tags t"
  by (erule extends_fold [where g = id, simplified]; erule (1) emits)+

lemma emitter_states_extend [emits]:
  "try_fold (mention_tag tp) ms s = Inr s' \<Longrightarrow> tag_parser_ok tp \<Longrightarrow> extends (snd s) (snd s')"
  "try_fold (emoji_set_tag tp) es s = Inr s' \<Longrightarrow> tag_parser_ok tp \<Longrightarrow> extends (snd s) (snd s')"
  "try_fold (contact_tag tp) cs s = Inr s' \<Longrightarrow> tag_parser_ok tp \<Longrightarrow> extends (snd s) (snd s')"
proof -
  assume tp: "tag_parser_ok tp"
  note step = push_tag_extends [OF _ tp]
  show "try_fold (mention_tag tp) ms s = Inr s' \<Longrightarrow> extends (snd s) (snd s')"
    by (erule extends_fold)
       (auto simp: mention_tag_def Let_def and_then_Inr simp del: push_tag_ok dest!: step split: prod.splits if_splits)
  show "try_fold (emoji_set_tag tp) es s = Inr s' \<Longrightarrow> extends (snd s) (snd s')"
    by (erule extends_fold)
       (auto simp: emoji_set_tag_def Let_def and_then_Inr simp del: push_tag_ok dest!: step split: prod.splits)
  show "try_fold (contact_tag tp) cs s = Inr s' \<Longrightarrow> extends (snd s) (snd s')"
    by (erule extends_fold)
       (auto simp: contact_tag_def Let_def and_then_Inr simp del: push_tag_ok dest!: step split: prod.splits if_splits)
qed

lemma mention_tags_extends [emits]:
  "mention_tags tp ms tags = Inr t \<Longrightarrow> tag_parser_ok tp \<Longrightarrow> extends tags t"
  by (auto simp: mention_tags_def and_then_Inr split: if_splits dest!: emitter_states_extend(1))

lemma applied_commits_extends [emits]:
  "applied_commits_tags tp cs tags = Inr t \<Longrightarrow> tag_parser_ok tp \<Longrightarrow> extends tags t"
  by (auto simp: applied_commits_tags_def and_then_Inr simp del: push_tag_ok split: if_splits
      dest!: emits intro: extends_trans)

section \<open>Everything the SDK builds\<close>

text \<open>
  One rule per builder: the events a client of the SDK can obtain, with the channel the caller
  named, if the builder takes one. Tags that a caller passes in parsed are not empty.
\<close>

inductive sdk_builds :: "(string \<Rightarrow> uuid option) \<Rightarrow> tag_parser \<Rightarrow> uuid option \<Rightarrow> event_builder \<Rightarrow> bool"
  for pu tp where
  "build_message tp ch c thr ms bc md = Inr b \<Longrightarrow> sdk_builds pu tp (Some ch) b"
| "build_agent_observer_frame tp r a f c = Inr b \<Longrightarrow> sdk_builds pu tp None b"
| "build_forum_post tp ch c ms md = Inr b \<Longrightarrow> sdk_builds pu tp (Some ch) b"
| "build_forum_comment tp ch c thr ms md = Inr b \<Longrightarrow> sdk_builds pu tp (Some ch) b"
| "build_diff_message tp ch c dm thr = Inr b \<Longrightarrow> sdk_builds pu tp (Some ch) b"
| "build_edit tp ch e c = Inr b \<Longrightarrow> sdk_builds pu tp (Some ch) b"
| "build_delete_message_with_options tp ch e opts = Inr b \<Longrightarrow> sdk_builds pu tp (Some ch) b"
| "build_delete_message tp ch e = Inr b \<Longrightarrow> sdk_builds pu tp (Some ch) b"
| "build_delete_compat tp ch e = Inr b \<Longrightarrow> sdk_builds pu tp (Some ch) b"
| "build_vote tp ch e dir = Inr b \<Longrightarrow> sdk_builds pu tp (Some ch) b"
| "build_reaction tp e c = Inr b \<Longrightarrow> sdk_builds pu tp None b"
| "build_custom_emoji_reaction tp e c u = Inr b \<Longrightarrow> sdk_builds pu tp None b"
| "build_remove_reaction tp e = Inr b \<Longrightarrow> sdk_builds pu tp None b"
| "build_custom_emoji_set tp es = Inr b \<Longrightarrow> sdk_builds pu tp None b"
| "build_set_canvas tp ch c = Inr b \<Longrightarrow> sdk_builds pu tp (Some ch) b"
| "build_profile js a1 a2 a3 a4 a5 = Inr b \<Longrightarrow> sdk_builds pu tp None b"
| "build_add_member tp ch k role = Inr b \<Longrightarrow> sdk_builds pu tp (Some ch) b"
| "build_remove_member tp ch k = Inr b \<Longrightarrow> sdk_builds pu tp (Some ch) b"
| "build_leave tp ch = Inr b \<Longrightarrow> sdk_builds pu tp (Some ch) b"
| "build_update_channel tp ch n a v ttl = Inr b \<Longrightarrow> sdk_builds pu tp (Some ch) b"
| "build_set_topic tp ch c = Inr b \<Longrightarrow> sdk_builds pu tp (Some ch) b"
| "build_set_purpose tp ch c = Inr b \<Longrightarrow> sdk_builds pu tp (Some ch) b"
| "build_create_channel tp ch n v ct a ttl = Inr b \<Longrightarrow> sdk_builds pu tp (Some ch) b"
| "build_join tp ch = Inr b \<Longrightarrow> sdk_builds pu tp (Some ch) b"
| "build_archive tp ch = Inr b \<Longrightarrow> sdk_builds pu tp (Some ch) b"
| "build_unarchive tp ch = Inr b \<Longrightarrow> sdk_builds pu tp (Some ch) b"
| "build_delete_channel tp ch = Inr b \<Longrightarrow> sdk_builds pu tp (Some ch) b"
| "build_note tp c r = Inr b \<Longrightarrow> sdk_builds pu tp None b"
| "build_contact_list tp cs = Inr b \<Longrightarrow> sdk_builds pu tp None b"
| "build_repo_announcement tp i n d cl w rl = Inr b \<Longrightarrow> sdk_builds pu tp None b"
| "[] \<notin> set ts \<Longrightarrow> build_repo_announcement_with_tags tp i c ts = Inr b \<Longrightarrow> sdk_builds pu tp None b"
| "build_git_patch tp repo c gp = Inr b \<Longrightarrow> sdk_builds pu tp None b"
| "build_git_issue tp repo sb c gi = Inr b \<Longrightarrow> sdk_builds pu tp None b"
| "build_git_status tp st c gs = Inr b \<Longrightarrow> sdk_builds pu tp None b"
| "build_git_pull_request pu tp repo c pr = Inr b \<Longrightarrow> sdk_builds pu tp None b"
| "build_git_pr_update tp repo c gu = Inr b \<Longrightarrow> sdk_builds pu tp None b"
| "build_workflow_def tp ch w y = Inr b \<Longrightarrow> sdk_builds pu tp (Some ch) b"
| "build_workflow_update tp ch w y = Inr b \<Longrightarrow> sdk_builds pu tp (Some ch) b"
| "build_workflow_delete tp k w = Inr b \<Longrightarrow> sdk_builds pu tp None b"
| "build_workflow_trigger tp w = Inr b \<Longrightarrow> sdk_builds pu tp None b"
| "build_workflow_approval tp h a n = Inr b \<Longrightarrow> sdk_builds pu tp None b"
| "build_dm_open tp ks = Inr b \<Longrightarrow> sdk_builds pu tp None b"
| "build_dm_add_member tp ch k = Inr b \<Longrightarrow> sdk_builds pu tp (Some ch) b"
| "build_presence_update tp st = Inr b \<Longrightarrow> sdk_builds pu tp None b"
| "build_user_status tp x e = Inr b \<Longrightarrow> sdk_builds pu tp None b"
| "build_moderation_ban tp k ex r = Inr b \<Longrightarrow> sdk_builds pu tp None b"
| "build_moderation_unban tp k = Inr b \<Longrightarrow> sdk_builds pu tp None b"
| "build_moderation_timeout tp k ex r = Inr b \<Longrightarrow> sdk_builds pu tp None b"
| "build_moderation_untimeout tp k = Inr b \<Longrightarrow> sdk_builds pu tp None b"
| "build_moderation_resolve_report tp rp st a r = Inr b \<Longrightarrow> sdk_builds pu tp None b"
| "build_archive_identity_request tp k c r rb au = Inr b \<Longrightarrow> sdk_builds pu tp None b"
| "build_unarchive_identity_request tp k c r au = Inr b \<Longrightarrow> sdk_builds pu tp None b"
| "[] \<notin> set ts \<Longrightarrow> build_project_with_tags c ts = Inr b \<Longrightarrow> sdk_builds pu tp None b"
| "build_project pu tp sl n d ms ch vis = Inr b \<Longrightarrow> sdk_builds pu tp None b"
| "build_delete_addressable tp kd k d = Inr b \<Longrightarrow> sdk_builds pu tp None b"

definition well_built :: "uuid option \<Rightarrow> event_builder \<Rightarrow> bool" where
  "well_built sc b \<longleftrightarrow>
     eb_kind b \<in> set ALL_KINDS \<and> \<not> is_relay_only_kind (eb_kind b) \<and> [] \<notin> set (eb_tags b) \<and>
     (case sc of
        Some ch \<Rightarrow> List.find (\<lambda>t. tag_kind t = ''h'') (eb_tags b) = Some [''h'', ch]
      | None \<Rightarrow> \<not> requires_h_channel_scope (eb_kind b))"

definition sdk_kinds :: "nat list" where
  "sdk_kinds = [9, 24200, 45001, 45003, 40008, 40003, 9005, 5, 45002, 7, 30030, 40100, 0, 9000, 9001, 9022, 9002, 9007, 9021, 9008, 1, 3, 30617, 1617, 1621, 1630, 1631, 1632, 1633, 1618, 1619, 30620, 46020, 46030, 46031, 41010, 41011, 20001, 30315, 9040, 9041, 9042, 9043, 9044, 9035, 9036, 30621]"

definition sdk_global_kinds :: "nat list" where
  "sdk_global_kinds =
     [24200, 5, 7, 30030, 0, 1, 3, 30617, 1617, 1621, 1630, 1631, 1632, 1633, 1618, 1619, 30620, 46020,
      46030, 46031, 41010, 20001, 30315, 9040, 9041, 9042, 9043, 9044, 9035, 9036, 30621]"

lemma sdk_kinds_known: "k \<in> set sdk_kinds \<Longrightarrow> k \<in> set ALL_KINDS \<and> \<not> is_relay_only_kind k"
  unfolding sdk_kinds_def list.set
  by (elim insertE emptyE; simp add: ALL_KINDS_def is_relay_only_kind_def kind_consts)

lemma sdk_global_kinds_unscoped: "k \<in> set sdk_global_kinds \<Longrightarrow> \<not> requires_h_channel_scope k"
  unfolding sdk_global_kinds_def list.set
  by (elim insertE emptyE; simp add: requires_h_channel_scope_def kind_consts)

lemma find_skip: "\<forall>t \<in> set pre. \<not> P t \<Longrightarrow> P x \<Longrightarrow> List.find P (pre @ x # r) = Some x"
  by (induction pre) auto

lemma well_built_scoped:
  assumes "extends (pre @ [[''h'', ch]]) (eb_tags b)" "eb_kind b \<in> set sdk_kinds"
    "\<forall>t \<in> set pre. t \<noteq> [] \<and> tag_kind t \<noteq> ''h''"
  shows "well_built (Some ch) b"
proof -
  obtain more where t: "eb_tags b = pre @ [''h'', ch] # more" "[] \<notin> set more"
    using assms(1) by (auto simp: extends_def)
  have "List.find (\<lambda>t. tag_kind t = ''h'') (eb_tags b) = Some [''h'', ch]"
    using assms(3) by (simp add: t find_skip tag_kind_def)
  then show ?thesis
    using sdk_kinds_known [OF assms(2)] t assms(3) by (auto simp: well_built_def)
qed

lemma well_built_global:
  assumes "extends pre (eb_tags b)" "eb_kind b \<in> set sdk_kinds" "eb_kind b \<in> set sdk_global_kinds" "[] \<notin> set pre"
  shows "well_built None b"
  using assms sdk_kinds_known [OF assms(2)] sdk_global_kinds_unscoped [OF assms(3)]
  by (auto simp: well_built_def extends_def)

lemmas sdk_kind_simps = sdk_kinds_def sdk_global_kinds_def kind_consts

lemma extendsE: "extends tags t \<Longrightarrow> (\<And>more. t = tags @ more \<Longrightarrow> [] \<notin> set more \<Longrightarrow> P) \<Longrightarrow> P"
  by (auto simp: extends_def)

lemma well_builtI:
  "k \<in> set sdk_kinds \<Longrightarrow> [] \<notin> set r \<Longrightarrow> well_built (Some ch) (new_builder k c ([''h'', ch] # r))"
  "k \<in> set sdk_kinds \<Longrightarrow> k \<in> set sdk_global_kinds \<Longrightarrow> [] \<notin> set r \<Longrightarrow> well_built None (new_builder k c r)"
  "k \<in> set sdk_kinds \<Longrightarrow> [] \<notin> set r \<Longrightarrow> well_built (Some ch) (new_builder k c ([''d'', w] # [''h'', ch] # r))"
  "well_built sc b \<Longrightarrow> well_built sc (allow_self_tagging b)"
proof -
  assume "k \<in> set sdk_kinds" "[] \<notin> set r"
  then show "well_built (Some ch) (new_builder k c ([''h'', ch] # r))"
    by (intro well_built_scoped [where pre = "[]"]) (auto simp: extends_def)
next
  assume "k \<in> set sdk_kinds" "k \<in> set sdk_global_kinds" "[] \<notin> set r"
  then show "well_built None (new_builder k c r)"
    by (intro well_built_global [where pre = "[]"]) (auto simp: extends_def)
next
  assume "k \<in> set sdk_kinds" "[] \<notin> set r"
  then show "well_built (Some ch) (new_builder k c ([''d'', w] # [''h'', ch] # r))"
    by (intro well_built_scoped [where pre = "[[''d'', w]]"]) (auto simp: extends_def tag_kind_def)
next
  assume "well_built sc b"
  then show "well_built sc (allow_self_tagging b)"
    by (cases sc) (simp_all add: well_built_def)
qed

lemmas message_builder_defs =
  build_message_def build_forum_post_def build_forum_comment_def build_diff_message_def build_edit_def
  build_delete_message_def build_delete_message_with_options_def build_delete_compat_def build_vote_def
  build_set_canvas_def

lemmas channel_builder_defs =
  build_add_member_def build_remove_member_def build_leave_def build_update_channel_def
  build_set_topic_def build_set_purpose_def build_create_channel_def build_join_def build_archive_def
  build_unarchive_def build_delete_channel_def build_dm_add_member_def

lemma message_builders_wf:
  assumes tp: "tag_parser_ok tp"
  shows "build_message tp ch c thr ms bc md = Inr b \<Longrightarrow> well_built (Some ch) b"
    "build_forum_post tp ch c ms md = Inr b \<Longrightarrow> well_built (Some ch) b"
    "build_forum_comment tp ch c thr2 ms md = Inr b \<Longrightarrow> well_built (Some ch) b"
    "build_edit tp ch e c = Inr b \<Longrightarrow> well_built (Some ch) b"
    "build_delete_message_with_options tp ch e opts = Inr b \<Longrightarrow> well_built (Some ch) b"
    "build_delete_message tp ch e = Inr b \<Longrightarrow> well_built (Some ch) b"
    "build_delete_compat tp ch e = Inr b \<Longrightarrow> well_built (Some ch) b"
    "build_vote tp ch e dir = Inr b \<Longrightarrow> well_built (Some ch) b"
    "build_set_canvas tp ch c = Inr b \<Longrightarrow> well_built (Some ch) b"
  using tp
  by (auto simp: message_builder_defs result_simps sdk_kind_simps Let_def simp del: push_if_ok push_opt_ok
      dest!: emits elim!: extendsE intro!: well_builtI)


lemma diff_builder_wf:
  assumes "tag_parser_ok tp" "build_diff_message tp ch c dm thr = Inr b"
  shows "well_built (Some ch) b"
  using assms
  by (auto simp: build_diff_message_def and_then_Inr when_some_Inr sdk_kind_simps simp del: push_if_ok push_opt_ok
      dest!: emits elim!: extendsE intro!: well_builtI)

lemma channel_builders_wf:
  assumes tp: "tag_parser_ok tp"
  shows "build_add_member tp ch k role = Inr b \<Longrightarrow> well_built (Some ch) b"
    "build_remove_member tp ch k = Inr b \<Longrightarrow> well_built (Some ch) b"
    "build_leave tp ch = Inr b \<Longrightarrow> well_built (Some ch) b"
    "build_update_channel tp ch n a v ttl = Inr b \<Longrightarrow> well_built (Some ch) b"
    "build_set_topic tp ch c = Inr b \<Longrightarrow> well_built (Some ch) b"
    "build_set_purpose tp ch c = Inr b \<Longrightarrow> well_built (Some ch) b"
    "build_create_channel tp ch nm vis ct a ttl2 = Inr b \<Longrightarrow> well_built (Some ch) b"
    "build_join tp ch = Inr b \<Longrightarrow> well_built (Some ch) b"
    "build_archive tp ch = Inr b \<Longrightarrow> well_built (Some ch) b"
    "build_unarchive tp ch = Inr b \<Longrightarrow> well_built (Some ch) b"
    "build_delete_channel tp ch = Inr b \<Longrightarrow> well_built (Some ch) b"
    "build_dm_add_member tp ch k = Inr b \<Longrightarrow> well_built (Some ch) b"
    "build_workflow_def tp ch w y = Inr b \<Longrightarrow> well_built (Some ch) b"
    "build_workflow_update tp ch w y = Inr b \<Longrightarrow> well_built (Some ch) b"
  using tp
  by (auto simp: channel_builder_defs build_workflow_def_def build_workflow_update_def and_then_Inr when_some_Inr
      sdk_kind_simps Let_def simp del: push_if_ok push_opt_ok dest!: emits elim!: extendsE intro!: well_builtI)

lemmas global_builder_defs =
  build_agent_observer_frame_def build_reaction_def build_custom_emoji_reaction_def build_remove_reaction_def
  build_custom_emoji_set_def build_profile_def build_note_def build_contact_list_def build_workflow_trigger_def
  build_workflow_approval_def build_presence_update_def build_user_status_def build_moderation_ban_def
  build_moderation_unban_def build_moderation_timeout_def build_moderation_untimeout_def
  build_moderation_resolve_report_def build_delete_addressable_def build_workflow_delete_def

lemma global_builders_wf:
  assumes tp: "tag_parser_ok tp"
  shows "build_agent_observer_frame tp r a f c = Inr b \<Longrightarrow> well_built None b"
    "build_reaction tp e c = Inr b \<Longrightarrow> well_built None b"
    "build_custom_emoji_reaction tp e c u = Inr b \<Longrightarrow> well_built None b"
    "build_remove_reaction tp e = Inr b \<Longrightarrow> well_built None b"
    "build_custom_emoji_set tp es = Inr b \<Longrightarrow> well_built None b"
    "build_profile js a1 a2 a3 a4 a5 = Inr b \<Longrightarrow> well_built None b"
    "build_note tp c rep = Inr b \<Longrightarrow> well_built None b"
    "build_contact_list tp cs = Inr b \<Longrightarrow> well_built None b"
    "build_workflow_trigger tp w = Inr b \<Longrightarrow> well_built None b"
    "build_workflow_approval tp h ap n = Inr b \<Longrightarrow> well_built None b"
    "build_presence_update tp st = Inr b \<Longrightarrow> well_built None b"
    "build_user_status tp x em = Inr b \<Longrightarrow> well_built None b"
    "build_moderation_ban tp k ex re = Inr b \<Longrightarrow> well_built None b"
    "build_moderation_unban tp k = Inr b \<Longrightarrow> well_built None b"
    "build_moderation_timeout tp k ex2 re = Inr b \<Longrightarrow> well_built None b"
    "build_moderation_untimeout tp k = Inr b \<Longrightarrow> well_built None b"
    "build_moderation_resolve_report tp rp st a re = Inr b \<Longrightarrow> well_built None b"
    "build_delete_addressable tp kd k d = Inr b \<Longrightarrow> well_built None b"
    "build_workflow_delete tp k w = Inr b \<Longrightarrow> well_built None b"
  using tp
  by (auto simp: global_builder_defs and_then_Inr when_some_Inr sdk_kind_simps Let_def
      simp del: push_if_ok push_opt_ok dest!: emits elim!: extendsE intro!: well_builtI split: if_splits)


lemma optional_checked_tag_extends [emits]:
  "when_some o' (\<lambda>x t. and_then (f x) (\<lambda>y. push_tag tp (p x y) t)) tags = Inr t' \<Longrightarrow> tag_parser_ok tp \<Longrightarrow>
   extends tags t'"
  "when_some o' (\<lambda>x t. and_then (f x) (\<lambda>y. and_then (push_tag tp (p x y) t) (push_tag tp (q x y)))) tags = Inr t' \<Longrightarrow>
   tag_parser_ok tp \<Longrightarrow> extends tags t'"
  by (erule extends_when_some, auto simp: and_then_Inr simp del: push_tag_ok dest!: emits intro: extends_trans)+

lemma checked_keys_extend:
  "try_fold (\<lambda>pk t. and_then (check_pubkey_hex pk f) (\<lambda>k. push_tag tp [''p'', k] t)) ks tags = Inr t' \<Longrightarrow>
   tag_parser_ok tp \<Longrightarrow> extends tags t'"
  by (erule extends_fold [where g = id, simplified]) (auto simp: and_then_Inr simp del: push_tag_ok dest!: emits)

lemma identity_archive_extends [emits]:
  "identity_archive_tags tp k r rb au = Inr t \<Longrightarrow> tag_parser_ok tp \<Longrightarrow> extends [] t"
  by (auto simp: identity_archive_tags_def and_then_Inr when_some_Inr simp del: push_tag_ok
      dest!: emits elim!: extendsE intro: extends_trans) (auto simp: extends_def)

lemma command_builders_wf:
  assumes tp: "tag_parser_ok tp"
  shows "build_dm_open tp ks = Inr b \<Longrightarrow> well_built None b"
    "build_archive_identity_request tp k c r rb au = Inr b \<Longrightarrow> well_built None b"
    "build_unarchive_identity_request tp k c r au = Inr b \<Longrightarrow> well_built None b"
    "build_project pu tp sl n d ms chn vis = Inr b \<Longrightarrow> well_built None b"
    "[] \<notin> set ts \<Longrightarrow> build_project_with_tags c ts = Inr b \<Longrightarrow> well_built None b"
    "[] \<notin> set ts \<Longrightarrow> build_repo_announcement_with_tags tp i c ts = Inr b \<Longrightarrow> well_built None b"
    "build_repo_announcement tp i n2 d cl w rl = Inr b \<Longrightarrow> well_built None b"
  using tp
  by (auto simp: build_dm_open_def build_archive_identity_request_def build_unarchive_identity_request_def
      build_project_def build_project_with_tags_def build_repo_announcement_with_tags_def
      build_repo_announcement_def and_then_Inr when_some_Inr sdk_kind_simps Let_def
      simp del: push_tag_ok push_if_ok push_opt_ok dest!: emits checked_keys_extend elim!: extendsE intro!: well_builtI)

lemma git_builders_wf:
  assumes tp: "tag_parser_ok tp"
  shows "build_git_patch tp repo c gp = Inr b \<Longrightarrow> well_built None b"
    "build_git_issue tp repo sb c gi = Inr b \<Longrightarrow> well_built None b"
    "build_git_status tp st c gs = Inr b \<Longrightarrow> well_built None b"
    "build_git_pull_request pu tp repo c pr = Inr b \<Longrightarrow> well_built None b"
    "build_git_pr_update tp repo c gu = Inr b \<Longrightarrow> well_built None b"
  using tp
  by (auto simp: build_git_patch_def build_git_issue_def build_git_status_def build_git_pull_request_def
      build_git_pr_update_def and_then_Inr when_some_Inr sdk_kind_simps git_status_kind_def
      simp del: push_if_ok push_opt_ok dest!: emits elim!: extendsE intro!: well_builtI
      split: option.splits git_status.splits)


lemma sdk_builds_wf: "sdk_builds pu tp sc b \<Longrightarrow> tag_parser_ok tp \<Longrightarrow> well_built sc b"
  by (erule sdk_builds.cases)
     (simp_all add: message_builders_wf diff_builder_wf channel_builders_wf global_builders_wf
       command_builders_wf git_builders_wf)

text \<open>
  C40: Typing of the SDK: every builder, given any input it accepts, yields an event of a
  registered kind that is not reserved to the relay, whose tags are all non-empty; and a builder
  that takes a channel yields an event whose first \<open>h\<close> tag is that channel, while a builder that
  takes none never yields a kind the relay wants scoped.
\<close>

theorem sdk_events_are_well_typed:
  assumes "sdk_builds pu tp sc b" "tag_parser_ok tp"
  shows "eb_kind b \<in> set ALL_KINDS \<and> \<not> is_relay_only_kind (eb_kind b) \<and> [] \<notin> set (eb_tags b) \<and>
    (case sc of
       Some ch \<Rightarrow> List.find (\<lambda>t. tag_kind t = ''h'') (eb_tags b) = Some [''h'', ch]
     | None \<Rightarrow> \<not> requires_h_channel_scope (eb_kind b))"
  using sdk_builds_wf [OF assms] unfolding well_built_def .

text \<open>The documented tag parser, as a concrete function.\<close>

definition demo_tag_parser :: tag_parser where
  "demo_tag_parser ps = (if ps = [] then Inl ''empty tag'' else Inr ps)"

lemma demo_tag_parser_ok: "tag_parser_ok demo_tag_parser"
  by (simp add: tag_parser_ok_def demo_tag_parser_def)

lemma demo_build_message:
  "build_message demo_tag_parser ''room'' ''hello'' None [] False [] =
   Inr (new_builder 9 ''hello'' [[''h'', ''room'']])"
  by (simp add: build_message_def check_content_def demo_tag_parser_ok mention_tags_def MENTION_CAP_def
      imeta_tags_def push_if_def)

theorem sdk_events_are_well_typed_witness:
  "List.find (\<lambda>t. tag_kind t = ''h'') (eb_tags (new_builder 9 ''hello'' [[''h'', ''room'']])) = Some [''h'', ''room'']"
  using sdk_events_are_well_typed [OF sdk_builds.intros(1) [OF demo_build_message, of Map.empty] demo_tag_parser_ok]
  by simp

text \<open>
  Client and relay agree on the channel: an event built for a channel, signed and submitted,
  is scoped by the relay's extraction to exactly that channel.
\<close>

theorem built_event_is_scoped_to_its_channel:
  assumes "sdk_builds pu tp (Some ch) b" "tag_parser_ok tp" "ev_tags ev = eb_tags b" "env_uuid env ch = Some ch"
  shows "extract_channel_id env ev = Some ch"
proof -
  have f: "List.find (\<lambda>t. tag_kind t = ''h'') (ev_tags ev) = Some [''h'', ch]"
    using sdk_builds_wf [OF assms(1,2)] assms(3) by (simp add: well_built_def)
  have "first_some (channel_of_tag env) ts = Some ch"
    if "List.find (\<lambda>t. tag_kind t = ''h'') ts = Some [''h'', ch]" for ts
    using that assms(4)
    by (induction ts) (auto simp: channel_of_tag_def tag_content_def split: if_splits)
  then show ?thesis using f by (simp add: extract_channel_id_def)
qed

theorem built_event_is_scoped_to_its_channel_witness:
  "extract_channel_id
     \<lparr>env_uuid = Some, env_hex32 = (\<lambda>_. None), env_datetime = Some, env_now = 0,
      env_event_by_id = (\<lambda>_. Inr None), env_thread_meta = (\<lambda>_. Inr None),
      env_is_member = (\<lambda>_ _. Inr False), env_channel = (\<lambda>_. Inl []),
      env_agent_owner = (\<lambda>_ _. Inr False), env_relay_pubkey = []\<rparr>
     \<lparr>ev_id = ''id'', ev_pubkey = ''alice'', ev_created_at = 0, ev_kind = 9,
      ev_tags = [[''h'', ''room'']], ev_content = ''hello''\<rparr> = Some ''room''"
  by (rule built_event_is_scoped_to_its_channel [OF sdk_builds.intros(1) [OF demo_build_message] demo_tag_parser_ok])
     simp_all

section \<open>Diffs\<close>

lemma try_fold_append: "try_fold f (xs @ ys) s = and_then (try_fold f xs s) (try_fold f ys)"
  by (induction xs arbitrary: s) (auto simp: and_then_def split: sum.split)

lemma try_fold_stable: "\<forall>x \<in> set xs. f x s = Inr s \<Longrightarrow> try_fold f xs s = Inr s"
  by (induction xs) auto

definition thread_list :: "thread_ref \<Rightarrow> tag list" where
  "thread_list t =
     (if root_event_id t = parent_event_id t then [[''e'', root_event_id t, [], ''reply'']]
      else [[''e'', root_event_id t, [], ''root''], [''e'', parent_event_id t, [], ''reply'']])"

lemma thread_tags_ok: "tag_parser_ok tp \<Longrightarrow> thread_tags tp t tags = Inr (tags @ thread_list t)"
  by (simp add: thread_tags_def thread_list_def Let_def)

lemma when_some_thread_ok:
  "tag_parser_ok tp \<Longrightarrow>
   when_some thr (thread_tags tp) tags = Inr (tags @ (case thr of None \<Rightarrow> [] | Some t \<Rightarrow> thread_list t))"
  by (cases thr) (simp_all add: thread_tags_ok)

lemma when_some_branch_ok:
  "tag_parser_ok tp \<Longrightarrow>
   when_some o' (\<lambda>(s, t). push_tag tp [n, s, t]) tags =
     Inr (tags @ (case o' of None \<Rightarrow> [] | Some (s, t) \<Rightarrow> [[n, s, t]]))"
  by (cases o') auto

lemma diff_step_kept:
  "k \<notin> {''repo'', ''commit'', ''parent-commit'', ''branch'', ''pr''} \<Longrightarrow> diff_step (k # r) s = Inr s"
  "\<not> short_sha c \<Longrightarrow> diff_step [''parent-commit'', c] s = Inr s"
  "src \<noteq> [] \<Longrightarrow> tgt \<noteq> [] \<Longrightarrow> diff_step [''branch'', src, tgt] s = Inr s"
  "parse_unsigned 4294967295 v = Some n \<Longrightarrow> n \<noteq> 0 \<Longrightarrow> diff_step [''pr'', v] s = Inr s"
  by (simp_all add: diff_step_def)

text \<open>
  The client's diff builder and the relay's diff validator agree: whatever metadata the
  builder accepts, the event it yields passes \<open>validate_diff_event\<close>. The pull-request number is
  a \<open>u32\<close>.
\<close>

theorem built_diff_is_accepted:
  assumes b: "build_diff_message tp ch content m thr = Inr b" and tp: "tag_parser_ok tp"
    and pr: "\<And>n. dm_pr_number m = Some n \<Longrightarrow> n < 2 ^ 32"
    and ev: "ev_tags ev = eb_tags b" "ev_content ev = eb_content b"
  shows "validate_diff_event ev = Inr ()"
proof -
  have len: "length content \<le> 61440" and meta: "check_diff_meta m = Inr ()"
    using b by (auto simp: build_diff_message_def and_then_Inr check_content_Inr)
  let ?rest = "(case dm_file_path m of None \<Rightarrow> [] | Some v \<Rightarrow> [[''file'', v]])
    @ (case dm_parent_commit m of None \<Rightarrow> [] | Some v \<Rightarrow> [[''parent-commit'', v]])
    @ (case dm_branch m of None \<Rightarrow> [] | Some (s, t) \<Rightarrow> [[''branch'', s, t]])
    @ (case map_option decimal (dm_pr_number m) of None \<Rightarrow> [] | Some v \<Rightarrow> [[''pr'', v]])
    @ (case dm_language m of None \<Rightarrow> [] | Some v \<Rightarrow> [[''l'', v]])
    @ (case dm_description m of None \<Rightarrow> [] | Some v \<Rightarrow> [[''description'', v]])
    @ (if dm_truncated m then [[''truncated'', ''true'']] else [])
    @ (case dm_alt_text m of None \<Rightarrow> [] | Some v \<Rightarrow> [[''alt'', v]])
    @ (case thr of None \<Rightarrow> [] | Some t \<Rightarrow> thread_list t)"
  let ?first = "[[''h'', ch], [''repo'', dm_repo_url m], [''commit'', dm_commit_sha m]]"
  have tags: "eb_tags b = ?first @ ?rest" "eb_content b = content"
    using b tp
    by (auto simp: build_diff_message_def and_then_Inr when_some_thread_ok when_some_branch_ok)
  have url: "is_http_url (dm_repo_url m)" and sha: "\<not> short_sha (dm_commit_sha m)"
    and pc: "\<And>c. dm_parent_commit m = Some c \<Longrightarrow> \<not> short_sha c"
    and br: "\<And>s t. dm_branch m = Some (s, t) \<Longrightarrow> s \<noteq> [] \<and> t \<noteq> []"
    and n: "dm_pr_number m \<noteq> Some 0"
    using meta
    by (auto simp: check_diff_meta_def result_simps short_sha_def branch_incomplete_def)
  have num: "parse_unsigned 4294967295 (decimal n) = Some n" if "dm_pr_number m = Some n" for n
    using pr [OF that] by (intro parse_unsigned_decimal) simp
  have "\<forall>t \<in> set ?rest. diff_step t (True, True) = Inr (True, True)"
    unfolding set_append ball_Un
  proof (intro conjI)
    show "\<forall>t \<in> set (case dm_branch m of None \<Rightarrow> [] | Some (s, t) \<Rightarrow> [[''branch'', s, t]]).
        diff_step t (True, True) = Inr (True, True)"
      using br by (cases "dm_branch m") (auto simp: diff_step_kept(3))
    show "\<forall>t \<in> set (case map_option decimal (dm_pr_number m) of None \<Rightarrow> [] | Some v \<Rightarrow> [[''pr'', v]]).
        diff_step t (True, True) = Inr (True, True)"
      using n num by (cases "dm_pr_number m") (auto simp: diff_step_kept(4))
    show "\<forall>t \<in> set (case dm_parent_commit m of None \<Rightarrow> [] | Some v \<Rightarrow> [[''parent-commit'', v]]).
        diff_step t (True, True) = Inr (True, True)"
      using pc by (cases "dm_parent_commit m") (auto simp: diff_step_kept(2))
  qed (auto simp: diff_step_kept(1) thread_list_def split: option.splits)
  then have "try_fold diff_step (?first @ ?rest) (False, False) = Inr (True, True)"
    using url sha by (simp add: diff_step_def try_fold_stable)
  then show ?thesis
    using len by (simp add: validate_diff_event_def ev tags)
qed

theorem built_diff_is_accepted_witness:
  "validate_diff_event
     \<lparr>ev_id = ''id'', ev_pubkey = ''alice'', ev_created_at = 0, ev_kind = 40008,
      ev_tags = [[''h'', ''room''], [''repo'', ''https://r''], [''commit'', ''abcdef0''], [''pr'', decimal 7]],
      ev_content = ''diff''\<rparr> = Inr ()"
proof (rule built_diff_is_accepted [OF _ demo_tag_parser_ok])
  let ?m = "\<lparr>dm_repo_url = ''https://r'', dm_commit_sha = ''abcdef0'', dm_file_path = None, dm_parent_commit = None,
    dm_branch = None, dm_pr_number = Some 7, dm_language = None, dm_description = None,
    dm_truncated = False, dm_alt_text = None\<rparr>"
  show "build_diff_message demo_tag_parser ''room'' ''diff'' ?m None = Inr (new_builder 40008 ''diff''
      [[''h'', ''room''], [''repo'', ''https://r''], [''commit'', ''abcdef0''], [''pr'', decimal 7]])"
    by (simp add: build_diff_message_def check_content_def check_diff_meta_def is_http_url_def starts_with_def
        check_hex_len_def refuse_if_def check_some_def branch_incomplete_def demo_tag_parser_ok ascii_defs)
qed simp_all

section \<open>Mentions and threads\<close>

lemma mention_fold:
  assumes "tag_parser_ok tp"
  shows "try_fold (mention_tag tp) ms (rev seen, tags @ map (\<lambda>k. [''p'', k]) seen) =
    Inr (rev (fold push_new (map ascii_lower ms) seen),
         tags @ map (\<lambda>k. [''p'', k]) (fold push_new (map ascii_lower ms) seen))"
proof (induction ms arbitrary: seen)
  case (Cons m ms)
  have "mention_tag tp m (rev seen, tags @ map (\<lambda>k. [''p'', k]) seen) =
      Inr (rev (push_new (ascii_lower m) seen), tags @ map (\<lambda>k. [''p'', k]) (push_new (ascii_lower m) seen))"
    using assms by (simp add: mention_tag_def Let_def push_new_def)
  then show ?case using Cons.IH [of "push_new (ascii_lower m) seen"] by simp
qed simp

text \<open>
  Mentions become one \<open>p\<close> tag per distinct key: at most 50 are taken, keys are compared and
  written in lower case, and the order is that of their first occurrence.
\<close>

theorem mentions_are_deduplicated:
  assumes "tag_parser_ok tp"
  shows "mention_tags tp ms tags =
    (if length ms > 50 then Inl TooManyMentions
     else Inr (tags @ map (\<lambda>k. [''p'', k]) (fold push_new (map ascii_lower ms) [])))"
  using mention_fold [OF assms, of ms "[]" tags]
  by (simp add: mention_tags_def MENTION_CAP_def)

theorem mentions_are_deduplicated_witness:
  "mention_tags demo_tag_parser [''AB'', ''cd'', ''ab''] [] = Inr [[''p'', ''ab''], [''p'', ''cd'']]"
proof -
  have "map ascii_lower [''AB'', ''cd'', ''ab''] = [''ab'', ''cd'', ''ab'']" by code_simp
  then show ?thesis
    using mentions_are_deduplicated [OF demo_tag_parser_ok, of "[''AB'', ''cd'', ''ab'']" "[]"]
    by (simp add: push_new_def)
qed

lemma marker_fold_skip:
  "\<forall>t \<in> set ts. length t \<ge> 4 \<longrightarrow> t ! 0 \<noteq> ''e'' \<Longrightarrow> fold marker_step ts acc = acc"
  by (induction ts) (auto simp: marker_step_def)

lemma thread_markers_list:
  assumes "is_hex64 (root_event_id t)" "is_hex64 (parent_event_id t)"
    "\<forall>u \<in> set pre. tag_kind u \<noteq> ''e''" "\<forall>u \<in> set post. tag_kind u \<noteq> ''e''"
  shows "thread_ancestry (pre @ thread_list t @ post) = Some (root_event_id t, parent_event_id t)"
proof -
  have skip: "fold marker_step us acc = acc" if "\<forall>u \<in> set us. tag_kind u \<noteq> ''e''" for us acc
  proof (rule marker_fold_skip, intro ballI impI)
    fix u assume "u \<in> set us" "length u \<ge> 4"
    moreover have "u ! 0 = tag_kind u" if "length u \<ge> 4" using that by (cases u) (simp_all add: tag_kind_def)
    ultimately show "u ! 0 \<noteq> ''e''" using that by simp
  qed
  show ?thesis
    using assms(1,2)
    by (auto simp: thread_ancestry_def thread_markers_def skip [OF assms(3)] skip [OF assms(4)]
        thread_list_def marker_step_def)
qed

lemma imeta_tags_Inr:
  "tag_parser_ok tp \<Longrightarrow> imeta_tags tp md tags = Inr t \<Longrightarrow> t = tags @ md"
proof (induction md arbitrary: tags)
  case (Cons p md)
  show ?case
  proof (cases p)
    case Nil
    with Cons.prems show ?thesis
      by (auto simp: imeta_tags_def push_tag_def mk_tag_def tag_parser_ok_def)
  next
    case (Cons x xs)
    then show ?thesis using Cons.prems Cons.IH [of "tags @ [p]"] by (simp add: imeta_tags_def)
  qed
qed (simp add: imeta_tags_def)

text \<open>
  A thread reference survives the wire: the \<open>e\<close> tags that a message or a forum comment
  carries for it are read back by the relay's NIP-10 parser as the same root and the same
  parent, for direct and for nested replies, whatever the mentions and the media tags.
\<close>

theorem thread_reference_round_trip:
  assumes b: "build_message tp ch c (Some t) ms bc md = Inr b \<or> build_forum_comment tp ch c t ms md = Inr b"
    and tp: "tag_parser_ok tp"
    and ids: "is_hex64 (root_event_id t)" "is_hex64 (parent_event_id t)"
    and media: "\<forall>u \<in> set md. tag_kind u \<noteq> ''e''"
  shows "thread_ancestry (eb_tags b) = Some (root_event_id t, parent_event_id t)"
proof -
  let ?ps = "map (\<lambda>k. [''p'', k]) (fold push_new (map ascii_lower ms) [])"
  have "\<exists>post. eb_tags b = [[''h'', ch]] @ thread_list t @ post \<and> (\<forall>u \<in> set post. tag_kind u \<noteq> ''e'')"
    using b
  proof
    assume "build_message tp ch c (Some t) ms bc md = Inr b"
    then have "eb_tags b = [[''h'', ch]] @ thread_list t @ ?ps @ (if bc then [[''broadcast'', ''1'']] else []) @ md"
      using tp mentions_are_deduplicated [OF tp, of ms]
      by (auto simp: build_message_def and_then_Inr thread_tags_ok split: if_splits dest!: imeta_tags_Inr)
    then show ?thesis using media by (intro exI conjI) (assumption, auto simp: tag_kind_def)
  next
    assume "build_forum_comment tp ch c t ms md = Inr b"
    then have "eb_tags b = [[''h'', ch]] @ thread_list t @ ?ps @ md"
      using tp mentions_are_deduplicated [OF tp, of ms]
      by (auto simp: build_forum_comment_def and_then_Inr thread_tags_ok split: if_splits dest!: imeta_tags_Inr)
    then show ?thesis using media by (intro exI conjI) (assumption, auto simp: tag_kind_def)
  qed
  then show ?thesis
    using thread_markers_list [OF ids, of "[[''h'', ch]]"] by (auto simp: tag_kind_def)
qed

theorem thread_reference_round_trip_witness:
  "thread_ancestry
     [[''h'', ''room''], [''e'', replicate 64 CHR ''a'', [], ''root''], [''e'', replicate 64 CHR ''b'', [], ''reply'']] =
   Some (replicate 64 CHR ''a'', replicate 64 CHR ''b'')"
proof -
  let ?t = "\<lparr>root_event_id = replicate 64 CHR ''a'', parent_event_id = replicate 64 CHR ''b''\<rparr>"
  have b: "build_message demo_tag_parser ''room'' ''hi'' (Some ?t) [] False [] =
      Inr (new_builder 9 ''hi'' ([[''h'', ''room'']] @ thread_list ?t))"
    by (simp add: build_message_def check_content_def demo_tag_parser_ok mention_tags_def MENTION_CAP_def
        imeta_tags_def push_if_def thread_tags_ok)
  have "is_hex64 (replicate 64 CHR ''a'')" "is_hex64 (replicate 64 CHR ''b'')"
    by (simp_all add: is_hex64_def list_all_iff ascii_defs)
  moreover have "replicate 64 CHR ''a'' \<noteq> replicate 64 CHR ''b''"
    by simp
  ultimately show ?thesis
    using thread_reference_round_trip [OF disjI1 [OF b] demo_tag_parser_ok] by (simp add: thread_list_def)
qed

end
