(* ===== verification/SessionLease.thy ===== *)
theory SessionLease
  imports Text Mesh
begin

text \<open>
  Who owns a tunnel session: the Redis-backed directory of
  \<open>crates/buzz-relay/src/tunnel/directory.rs\<close>, with the fenced header, the profiles and the errors
  of \<open>crates/buzz-relay-mesh/src\<close> (\<open>wire.rs\<close>, \<open>lib.rs\<close>) it is written over.

  \<^item> Redis is not code of the repository: a \<open>redis\<close> record holds the commands the scripts call, over
    an abstract server state, and \<open>redis_ok\<close> states what Redis documents of them. A script runs
    atomically. What happens to a call on its way is the argument \<open>net\<close>: the pool has no
    connection, the request is lost, or the reply is lost after the script ran.
  \<^item> A runtime id is its hexadecimal text; \<open>hx\<close> is \<open>hex::decode\<close> followed by the conversion to 32
    bytes. A generation is a \<open>u64\<close>, kept as a natural number below \<open>2 ^ 64\<close>.
  \<^item> Redis replies to \<open>INCR\<close> with an integer that Lua holds as a double and prints with 14
    significant digits, so the laws of \<open>rd_tostring\<close> stop at \<open>10 ^ 14\<close>; the theorems carry that bound.
\<close>

section \<open>Profiles, headers and errors\<close>

datatype profile = ReliableStream | RealtimeMedia | HuddleControl

record fenced_header =
  fh_session :: uuid
  fh_generation :: nat
  fh_owner :: runtime_id

datatype relay_mesh_error =
    MeshEncode | MeshDecode | UnknownWireVersion nat | EmptyFrame
  | FrameTooLarge nat nat | DatagramTooLarge nat nat
  | PeerNotConnected runtime_id | PeerDraining runtime_id
  | StaleGeneration uuid nat nat
  | NoActiveLease uuid nat nat runtime_id
  | OwnerMismatch uuid nat runtime_id runtime_id
  | FutureGeneration uuid nat nat
  | MeshDisabled
  | MeshTransport string
  | MeshRedis

definition as_wire_str :: "profile \<Rightarrow> string" where
  "as_wire_str p = (case p of
      ReliableStream \<Rightarrow> ''reliable-stream''
    | RealtimeMedia \<Rightarrow> ''realtime-media''
    | HuddleControl \<Rightarrow> ''huddle-control'')"

definition profile_from_wire :: "string \<Rightarrow> profile option" where
  "profile_from_wire s =
     (if s = ''reliable-stream'' then Some ReliableStream
      else if s = ''realtime-media'' then Some RealtimeMedia
      else if s = ''huddle-control'' then Some HuddleControl
      else None)"

record session_lease =
  sl_community :: uuid
  sl_session :: uuid
  sl_owner :: runtime_id
  sl_generation :: nat
  sl_profile :: profile

definition fenced_header_of :: "session_lease \<Rightarrow> fenced_header" where
  "fenced_header_of l = \<lparr>fh_session = sl_session l, fh_generation = sl_generation l, fh_owner = sl_owner l\<rparr>"

datatype acquire_result = Acquired session_lease | Exists session_lease

datatype renew_result =
    Renewed session_lease
  | Lost "session_lease option" "nat option"

datatype release_result =
    Released session_lease
  | NotOwner "session_lease option" "nat option"

text \<open>\<open>ExpectPanic\<close> stands for the panic of an \<open>expect\<close>.\<close>

datatype directory_error =
    PoolError
  | RedisError
  | MalformedLease uuid uuid string
  | MalformedGeneration uuid uuid string
  | UnexpectedScriptStatus string
  | InvalidLeaseTtl
  | ExpectPanic

section \<open>Lease values\<close>

definition parse_lease :: "(string \<Rightarrow> runtime_id option) \<Rightarrow> uuid \<Rightarrow> uuid \<Rightarrow> string \<Rightarrow> directory_error + session_lease" where
  "parse_lease hx c s v =
     (let bad = Inl (MalformedLease c s v)
      in case split_on CHR ''|'' v of
           owner_hex # gen # rest \<Rightarrow>
             (case parse_unsigned U64_MAX gen of
                None \<Rightarrow> bad
              | Some g \<Rightarrow>
                  if g = 0 then bad
                  else (case rest of
                          [] \<Rightarrow> bad
                        | p # others \<Rightarrow>
                            (case profile_from_wire p of
                               None \<Rightarrow> bad
                             | Some prof \<Rightarrow>
                                 if others \<noteq> [] then bad
                                 else (case hx owner_hex of
                                         None \<Rightarrow> bad
                                       | Some o' \<Rightarrow> Inr \<lparr>sl_community = c, sl_session = s, sl_owner = o',
                                                         sl_generation = g, sl_profile = prof\<rparr>))))
         | _ \<Rightarrow> bad)"

definition parse_optional_lease ::
  "(string \<Rightarrow> runtime_id option) \<Rightarrow> uuid \<Rightarrow> uuid \<Rightarrow> string \<Rightarrow> directory_error + session_lease option" where
  "parse_optional_lease hx c s v =
     (if v = [] then Inr None
      else case parse_lease hx c s v of Inl e \<Rightarrow> Inl e | Inr l \<Rightarrow> Inr (Some l))"

definition parse_optional_generation :: "uuid \<Rightarrow> uuid \<Rightarrow> string \<Rightarrow> directory_error + nat option" where
  "parse_optional_generation c s v =
     (if v = [] then Inr None
      else case parse_unsigned U64_MAX v of
             None \<Rightarrow> Inl (MalformedGeneration c s v)
           | Some g \<Rightarrow> if g = 0 then Inl (MalformedGeneration c s v) else Inr (Some g))"

text \<open>The lease time to live is a \<open>Duration\<close>; the argument is its whole milliseconds.\<close>

definition ttl_ms :: "nat \<Rightarrow> directory_error + int" where
  "ttl_ms ms = (if 0 < ms \<and> ms < 2 ^ 63 then Inr (int ms) else Inl InvalidLeaseTtl)"

definition DEFAULT_LEASE_TTL :: nat where "DEFAULT_LEASE_TTL = 30 * 1000"

record session_keys =
  sk_lease :: string
  sk_generation :: string

definition session_keys_new :: "uuid \<Rightarrow> uuid \<Rightarrow> session_keys" where
  "session_keys_new c s =
     (let base = ''buzz:'' @ c @ '':tunnel:'' @ s
      in \<lparr>sk_lease = base @ '':lease'', sk_generation = base @ '':generation''\<rparr>)"

section \<open>Redis and the scripts\<close>

record 'r redis =
  rd_get :: "string \<Rightarrow> 'r \<Rightarrow> string option"
  rd_incr :: "string \<Rightarrow> 'r \<Rightarrow> int option \<times> 'r"
  rd_set_px :: "string \<Rightarrow> string \<Rightarrow> int \<Rightarrow> 'r \<Rightarrow> 'r"
  rd_pexpire :: "string \<Rightarrow> int \<Rightarrow> 'r \<Rightarrow> 'r"
  rd_del :: "string \<Rightarrow> 'r \<Rightarrow> 'r"
  rd_tostring :: "int \<Rightarrow> string"
  rd_volatile :: "string \<Rightarrow> 'r \<Rightarrow> bool"
  rd_elapse :: "nat \<Rightarrow> 'r \<Rightarrow> 'r"

type_synonym reply = "string \<times> string \<times> string"

text \<open>\<open>redis.call('GET', key) or ''\<close> and \<open>redis.call('GET', key) or dflt\<close>.\<close>

definition get_or :: "'r redis \<Rightarrow> string \<Rightarrow> string \<Rightarrow> 'r \<Rightarrow> string" where
  "get_or R d k r = (case rd_get R k r of None \<Rightarrow> d | Some v \<Rightarrow> v)"

text \<open>\<open>string.match(current, '^([^|]+)|([^|]+)|([^|]+)$')\<close>: all captures are nil when it does not match.\<close>

definition lua_match :: "string \<Rightarrow> (string \<times> string \<times> string) option" where
  "lua_match v = (case split_on CHR ''|'' v of
      [a, b, c] \<Rightarrow> if a \<noteq> [] \<and> b \<noteq> [] \<and> c \<noteq> [] then Some (a, b, c) else None
    | _ \<Rightarrow> None)"

definition acquire_script ::
  "'r redis \<Rightarrow> session_keys \<Rightarrow> string \<Rightarrow> string \<Rightarrow> int \<Rightarrow> 'r \<Rightarrow> reply option \<times> 'r" where
  "acquire_script R ks owner prof ttl r =
     (case rd_get R (sk_lease ks) r of
        Some current \<Rightarrow> (Some (''exists'', current, get_or R [] (sk_generation ks) r), r)
      | None \<Rightarrow>
          (case rd_incr R (sk_generation ks) r of
             (None, r') \<Rightarrow> (None, r')
           | (Some g, r') \<Rightarrow>
               let v = owner @ ''|'' @ rd_tostring R g @ ''|'' @ prof
               in (Some (''acquired'', v, rd_tostring R g), rd_set_px R (sk_lease ks) v ttl r')))"

text \<open>The check that \<open>RENEW_SCRIPT\<close> and \<open>RELEASE_SCRIPT\<close> share.\<close>

definition names_caller :: "string \<Rightarrow> string \<Rightarrow> string \<Rightarrow> bool" where
  "names_caller owner gen current =
     (case lua_match current of Some (o', g, _) \<Rightarrow> o' = owner \<and> g = gen | None \<Rightarrow> False)"

definition match_generation :: "string \<Rightarrow> string" where
  "match_generation current = (case lua_match current of Some (_, g, _) \<Rightarrow> g | None \<Rightarrow> [])"

definition renew_script :: "'r redis \<Rightarrow> session_keys \<Rightarrow> string \<Rightarrow> string \<Rightarrow> int \<Rightarrow> 'r \<Rightarrow> reply \<times> 'r" where
  "renew_script R ks owner gen ttl r =
     (case rd_get R (sk_lease ks) r of
        None \<Rightarrow> ((''missing'', [], get_or R [] (sk_generation ks) r), r)
      | Some current \<Rightarrow>
          if names_caller owner gen current
          then (let r' = rd_pexpire R (sk_lease ks) ttl r
                in ((''renewed'', current, get_or R (match_generation current) (sk_generation ks) r'), r'))
          else ((''lost'', current, get_or R (match_generation current) (sk_generation ks) r), r))"

definition release_script :: "'r redis \<Rightarrow> session_keys \<Rightarrow> string \<Rightarrow> string \<Rightarrow> 'r \<Rightarrow> reply \<times> 'r" where
  "release_script R ks owner gen r =
     (case rd_get R (sk_lease ks) r of
        None \<Rightarrow> ((''missing'', [], get_or R [] (sk_generation ks) r), r)
      | Some current \<Rightarrow>
          if names_caller owner gen current
          then (let r' = rd_del R (sk_lease ks) r
                in ((''released'', current, get_or R (match_generation current) (sk_generation ks) r'), r'))
          else ((''lost'', current, get_or R (match_generation current) (sk_generation ks) r), r))"

definition validate_script :: "'r redis \<Rightarrow> session_keys \<Rightarrow> 'r \<Rightarrow> string \<times> string" where
  "validate_script R ks r = (get_or R [] (sk_lease ks) r, get_or R [] (sk_generation ks) r)"

section \<open>Directory operations\<close>

datatype net = NetOk | PoolDown | RequestLost | ReplyLost

text \<open>Running a script over the network: what the caller sees and what the server did.\<close>

definition invoke :: "net \<Rightarrow> ('r \<Rightarrow> 'a option \<times> 'r) \<Rightarrow> 'r \<Rightarrow> (directory_error + 'a) \<times> 'r" where
  "invoke n script r =
     (case n of
        PoolDown \<Rightarrow> (Inl PoolError, r)
      | RequestLost \<Rightarrow> (Inl RedisError, r)
      | ReplyLost \<Rightarrow> (Inl RedisError, snd (script r))
      | NetOk \<Rightarrow> (case script r of (None, r') \<Rightarrow> (Inl RedisError, r') | (Some a, r') \<Rightarrow> (Inr a, r')))"

definition lift_script :: "('r \<Rightarrow> 'a \<times> 'r) \<Rightarrow> 'r \<Rightarrow> 'a option \<times> 'r" where
  "lift_script f r = (case f r of (a, r') \<Rightarrow> (Some a, r'))"

definition acquire_reply ::
  "(string \<Rightarrow> runtime_id option) \<Rightarrow> uuid \<Rightarrow> uuid \<Rightarrow> reply \<Rightarrow> directory_error + acquire_result" where
  "acquire_reply hx c s rep =
     (case rep of (status, v, _) \<Rightarrow>
        (case parse_lease hx c s v of
           Inl e \<Rightarrow> Inl e
         | Inr l \<Rightarrow>
             if status = ''acquired'' then Inr (Acquired l)
             else if status = ''exists'' then Inr (Exists l)
             else Inl (UnexpectedScriptStatus status)))"

definition dir_acquire ::
  "'r redis \<Rightarrow> (string \<Rightarrow> runtime_id option) \<Rightarrow> nat \<Rightarrow> uuid \<Rightarrow> uuid \<Rightarrow> runtime_id \<Rightarrow> profile \<Rightarrow> net \<Rightarrow> 'r \<Rightarrow>
   (directory_error + acquire_result) \<times> 'r" where
  "dir_acquire R hx ttl c s owner p n r =
     (case ttl_ms ttl of
        Inl e \<Rightarrow> (Inl e, r)
      | Inr ms \<Rightarrow>
          (case invoke n (acquire_script R (session_keys_new c s) owner (as_wire_str p) ms) r of
             (Inl e, r') \<Rightarrow> (Inl e, r')
           | (Inr rep, r') \<Rightarrow> (acquire_reply hx c s rep, r')))"

definition dir_takeover ::
  "'r redis \<Rightarrow> (string \<Rightarrow> runtime_id option) \<Rightarrow> nat \<Rightarrow> uuid \<Rightarrow> uuid \<Rightarrow> runtime_id \<Rightarrow> profile \<Rightarrow> net \<Rightarrow> 'r \<Rightarrow>
   (directory_error + acquire_result) \<times> 'r" where
  "dir_takeover = dir_acquire"

definition renew_reply ::
  "(string \<Rightarrow> runtime_id option) \<Rightarrow> uuid \<Rightarrow> uuid \<Rightarrow> reply \<Rightarrow> directory_error + renew_result" where
  "renew_reply hx c s rep =
     (case rep of (status, v, known) \<Rightarrow>
        (case parse_optional_lease hx c s v of
           Inl e \<Rightarrow> Inl e
         | Inr current \<Rightarrow>
             if status = ''renewed''
             then (case current of None \<Rightarrow> Inl ExpectPanic | Some l \<Rightarrow> Inr (Renewed l))
             else if status = ''missing'' \<or> status = ''lost''
             then (case parse_optional_generation c s known of
                     Inl e \<Rightarrow> Inl e | Inr g \<Rightarrow> Inr (Lost current g))
             else Inl (UnexpectedScriptStatus status)))"

definition dir_renew ::
  "'r redis \<Rightarrow> (string \<Rightarrow> runtime_id option) \<Rightarrow> nat \<Rightarrow> session_lease \<Rightarrow> net \<Rightarrow> 'r \<Rightarrow>
   (directory_error + renew_result) \<times> 'r" where
  "dir_renew R hx ttl l n r =
     (case ttl_ms ttl of
        Inl e \<Rightarrow> (Inl e, r)
      | Inr ms \<Rightarrow>
          (case invoke n (lift_script (renew_script R (session_keys_new (sl_community l) (sl_session l))
                  (sl_owner l) (decimal (sl_generation l)) ms)) r of
             (Inl e, r') \<Rightarrow> (Inl e, r')
           | (Inr rep, r') \<Rightarrow> (renew_reply hx (sl_community l) (sl_session l) rep, r')))"

definition release_reply ::
  "(string \<Rightarrow> runtime_id option) \<Rightarrow> uuid \<Rightarrow> uuid \<Rightarrow> reply \<Rightarrow> directory_error + release_result" where
  "release_reply hx c s rep =
     (case rep of (status, v, known) \<Rightarrow>
        (case parse_optional_lease hx c s v of
           Inl e \<Rightarrow> Inl e
         | Inr current \<Rightarrow>
             if status = ''released''
             then (case current of None \<Rightarrow> Inl ExpectPanic | Some l \<Rightarrow> Inr (Released l))
             else if status = ''missing'' \<or> status = ''lost''
             then (case parse_optional_generation c s known of
                     Inl e \<Rightarrow> Inl e | Inr g \<Rightarrow> Inr (NotOwner current g))
             else Inl (UnexpectedScriptStatus status)))"

definition dir_release ::
  "'r redis \<Rightarrow> (string \<Rightarrow> runtime_id option) \<Rightarrow> session_lease \<Rightarrow> net \<Rightarrow> 'r \<Rightarrow>
   (directory_error + release_result) \<times> 'r" where
  "dir_release R hx l n r =
     (case invoke n (lift_script (release_script R (session_keys_new (sl_community l) (sl_session l))
             (sl_owner l) (decimal (sl_generation l)))) r of
        (Inl e, r') \<Rightarrow> (Inl e, r')
      | (Inr rep, r') \<Rightarrow> (release_reply hx (sl_community l) (sl_session l) rep, r'))"

text \<open>The two reads; \<open>net\<close> only decides whether an answer arrives.\<close>

definition redis_get :: "'r redis \<Rightarrow> net \<Rightarrow> string \<Rightarrow> 'r \<Rightarrow> directory_error + string option" where
  "redis_get R n k r = fst (invoke n (\<lambda>r. (Some (rd_get R k r), r)) r)"

definition dir_lookup ::
  "'r redis \<Rightarrow> (string \<Rightarrow> runtime_id option) \<Rightarrow> uuid \<Rightarrow> uuid \<Rightarrow> net \<Rightarrow> 'r \<Rightarrow> directory_error + session_lease option" where
  "dir_lookup R hx c s n r =
     (case redis_get R n (sk_lease (session_keys_new c s)) r of
        Inl e \<Rightarrow> Inl e
      | Inr None \<Rightarrow> Inr None
      | Inr (Some v) \<Rightarrow> (case parse_lease hx c s v of Inl e \<Rightarrow> Inl e | Inr l \<Rightarrow> Inr (Some l)))"

definition dir_known_generation :: "'r redis \<Rightarrow> uuid \<Rightarrow> uuid \<Rightarrow> net \<Rightarrow> 'r \<Rightarrow> directory_error + nat option" where
  "dir_known_generation R c s n r =
     (case redis_get R n (sk_generation (session_keys_new c s)) r of
        Inl e \<Rightarrow> Inl e
      | Inr None \<Rightarrow> Inr None
      | Inr (Some v) \<Rightarrow> parse_optional_generation c s v)"

text \<open>The pure part of \<open>validate_fenced_header\<close>: from the current lease and the counter to a verdict.\<close>

definition fence_check :: "session_lease option \<Rightarrow> nat \<Rightarrow> fenced_header \<Rightarrow> relay_mesh_error + unit" where
  "fence_check current counter f =
     (let known = max (case current of None \<Rightarrow> counter | Some l \<Rightarrow> sl_generation l) counter
      in if 0 < known \<and> fh_generation f < known
         then Inl (StaleGeneration (fh_session f) (fh_generation f) known)
         else case current of
                None \<Rightarrow> Inl (NoActiveLease (fh_session f) (fh_generation f) known (fh_owner f))
              | Some l \<Rightarrow>
                  if fh_generation f \<noteq> sl_generation l
                  then Inl (FutureGeneration (fh_session f) (fh_generation f) (sl_generation l))
                  else if fh_owner f \<noteq> sl_owner l
                  then Inl (OwnerMismatch (fh_session f) (fh_generation f) (fh_owner f) (sl_owner l))
                  else Inr ())"

definition validate_fenced_header ::
  "'r redis \<Rightarrow> (string \<Rightarrow> runtime_id option) \<Rightarrow> uuid \<Rightarrow> fenced_header \<Rightarrow> net \<Rightarrow> 'r \<Rightarrow> relay_mesh_error + unit" where
  "validate_fenced_header R hx c f n r =
     (case invoke n (\<lambda>r. (Some (validate_script R (session_keys_new c (fh_session f)) r), r)) r of
        (Inl PoolError, _) \<Rightarrow> Inl (MeshTransport ''redis pool'')
      | (Inl _, _) \<Rightarrow> Inl MeshRedis
      | (Inr (lease_value, known_generation), _) \<Rightarrow>
          (case parse_optional_generation c (fh_session f) known_generation of
             Inl _ \<Rightarrow> Inl (MeshTransport ''malformed session generation'')
           | Inr known \<Rightarrow>
               (case parse_optional_lease hx c (fh_session f) lease_value of
                  Inl _ \<Rightarrow> Inl (MeshTransport ''malformed session lease'')
                | Inr current \<Rightarrow> fence_check current (case known of None \<Rightarrow> 0 | Some g \<Rightarrow> g) f)))"

section \<open>What Redis promises\<close>

definition incr_ok :: "'r redis \<Rightarrow> string \<Rightarrow> 'r \<Rightarrow> bool" where
  "incr_ok R k r \<longleftrightarrow>
     (case rd_incr R k r of (x, r') \<Rightarrow>
        (rd_get R k r = None \<longrightarrow>
           x = Some 1 \<and> rd_get R k r' = Some ''1'' \<and> \<not> rd_volatile R k r') \<and>
        (\<forall>n < 10 ^ 14. rd_get R k r = Some (decimal n) \<longrightarrow>
           x = Some (int n + 1) \<and> rd_get R k r' = Some (decimal (n + 1)) \<and>
           rd_volatile R k r' = rd_volatile R k r))"

definition redis_ok :: "'r redis \<Rightarrow> bool" where
  "redis_ok R \<longleftrightarrow>
     (\<forall>r k. incr_ok R k r) \<and>
     (\<forall>r k j. j \<noteq> k \<longrightarrow>
        rd_get R j (snd (rd_incr R k r)) = rd_get R j r \<and>
        rd_volatile R j (snd (rd_incr R k r)) = rd_volatile R j r) \<and>
     (\<forall>r k v t j. 0 < t \<longrightarrow>
        rd_get R j (rd_set_px R k v t r) = (if j = k then Some v else rd_get R j r) \<and>
        (j \<noteq> k \<longrightarrow> rd_volatile R j (rd_set_px R k v t r) = rd_volatile R j r)) \<and>
     (\<forall>r k t j. 0 < t \<longrightarrow>
        rd_get R j (rd_pexpire R k t r) = rd_get R j r \<and>
        (j \<noteq> k \<longrightarrow> rd_volatile R j (rd_pexpire R k t r) = rd_volatile R j r)) \<and>
     (\<forall>r k j.
        rd_get R j (rd_del R k r) = (if j = k then None else rd_get R j r) \<and>
        (j \<noteq> k \<longrightarrow> rd_volatile R j (rd_del R k r) = rd_volatile R j r)) \<and>
     (\<forall>r t j.
        (rd_get R j (rd_elapse R t r) = rd_get R j r \<or>
         rd_volatile R j r \<and> rd_get R j (rd_elapse R t r) = None) \<and>
        (rd_volatile R j (rd_elapse R t r) \<longrightarrow> rd_volatile R j r)) \<and>
     (\<forall>n. n < 10 ^ 14 \<longrightarrow> rd_tostring R (int n) = decimal n)"

text \<open>\<open>hex::decode\<close> reads back what \<open>hex::encode\<close> writes of 32 bytes.\<close>

definition hex_ok :: "(string \<Rightarrow> runtime_id option) \<Rightarrow> bool" where
  "hex_ok hx \<longleftrightarrow> (\<forall>s. is_lower_hex 64 s \<longrightarrow> hx s = Some s)"

lemma redis_incr_ok: "redis_ok R \<Longrightarrow> incr_ok R k r"
  by (simp add: redis_ok_def)

lemma incr_fresh:
  assumes "redis_ok R" "rd_get R k r = None"
  obtains r' where "rd_incr R k r = (Some 1, r')" "rd_get R k r' = Some ''1''" "\<not> rd_volatile R k r'"
  using redis_incr_ok [OF assms(1), of k r] assms(2) by (auto simp: incr_ok_def split: prod.splits)

lemma incr_next:
  assumes "redis_ok R" "rd_get R k r = Some (decimal n)" "n < 10 ^ 14"
  obtains r' where "rd_incr R k r = (Some (int n + 1), r')" "rd_get R k r' = Some (decimal (n + 1))"
    "rd_volatile R k r' = rd_volatile R k r"
  using redis_incr_ok [OF assms(1), of k r] assms(2,3)
  by (cases "rd_incr R k r") (auto simp: incr_ok_def)

lemma incr_frame:
  "redis_ok R \<Longrightarrow> rd_incr R k r = (x, r') \<Longrightarrow> j \<noteq> k \<Longrightarrow>
   rd_get R j r' = rd_get R j r \<and> rd_volatile R j r' = rd_volatile R j r"
  unfolding redis_ok_def by (metis snd_conv)

lemma set_px_law:
  "redis_ok R \<Longrightarrow> 0 < t \<Longrightarrow> rd_get R j (rd_set_px R k v t r) = (if j = k then Some v else rd_get R j r)"
  unfolding redis_ok_def by blast

lemma set_px_volatile:
  "redis_ok R \<Longrightarrow> 0 < t \<Longrightarrow> j \<noteq> k \<Longrightarrow> rd_volatile R j (rd_set_px R k v t r) = rd_volatile R j r"
  unfolding redis_ok_def by blast

lemma pexpire_law:
  "redis_ok R \<Longrightarrow> 0 < t \<Longrightarrow> rd_get R j (rd_pexpire R k t r) = rd_get R j r"
  unfolding redis_ok_def by blast

lemma pexpire_volatile:
  "redis_ok R \<Longrightarrow> 0 < t \<Longrightarrow> j \<noteq> k \<Longrightarrow> rd_volatile R j (rd_pexpire R k t r) = rd_volatile R j r"
  unfolding redis_ok_def by blast

lemma del_law:
  "redis_ok R \<Longrightarrow> rd_get R j (rd_del R k r) = (if j = k then None else rd_get R j r)"
  unfolding redis_ok_def by blast

lemma del_volatile:
  "redis_ok R \<Longrightarrow> j \<noteq> k \<Longrightarrow> rd_volatile R j (rd_del R k r) = rd_volatile R j r"
  unfolding redis_ok_def by blast

lemma elapse_law:
  "redis_ok R \<Longrightarrow> rd_get R j (rd_elapse R t r) = rd_get R j r \<or>
     rd_volatile R j r \<and> rd_get R j (rd_elapse R t r) = None"
  unfolding redis_ok_def by blast

lemma elapse_persistent:
  "redis_ok R \<Longrightarrow> \<not> rd_volatile R j r \<Longrightarrow>
   rd_get R j (rd_elapse R t r) = rd_get R j r \<and> \<not> rd_volatile R j (rd_elapse R t r)"
  unfolding redis_ok_def by blast

lemma tostring_law: "redis_ok R \<Longrightarrow> n < 10 ^ 14 \<Longrightarrow> rd_tostring R (int n) = decimal n"
  unfolding redis_ok_def by blast

lemmas redis_frame = set_px_law set_px_volatile pexpire_law pexpire_volatile del_law del_volatile

section \<open>The values the directory writes\<close>

definition lease_value :: "runtime_id \<Rightarrow> nat \<Rightarrow> profile \<Rightarrow> string" where
  "lease_value o' g p = o' @ ''|'' @ decimal g @ ''|'' @ as_wire_str p"

lemma as_wire_str_facts [simp]:
  "profile_from_wire (as_wire_str p) = Some p" "CHR ''|'' \<notin> set (as_wire_str p)" "as_wire_str p \<noteq> []"
  by (cases p; simp add: as_wire_str_def profile_from_wire_def)+

lemma as_wire_str_inj [simp]: "as_wire_str p = as_wire_str q \<longleftrightarrow> p = q"
  by (metis as_wire_str_facts(1) option.inject)

lemma decimal_no_bar [simp]: "CHR ''|'' \<notin> set (decimal n)"
  using decimal_digits [of "CHR ''|''" n] by (auto simp: ascii_defs)

lemma hex_no_bar: "is_lower_hex n s \<Longrightarrow> CHR ''|'' \<notin> set s"
  by (auto simp: is_lower_hex_def list_all_iff ascii_defs)

lemma hex64_nonempty: "is_lower_hex 64 s \<Longrightarrow> s \<noteq> []"
  by (auto simp: is_lower_hex_def)

lemma split_on_single: "d \<notin> set s \<Longrightarrow> split_on d s = [s]"
  by (induction s) auto

lemma split_on_append: "d \<notin> set s \<Longrightarrow> split_on d (s @ d # t) = s # split_on d t"
  by (induction s) auto

lemma split_lease_value:
  "is_lower_hex 64 o' \<Longrightarrow> split_on CHR ''|'' (lease_value o' g p) = [o', decimal g, as_wire_str p]"
  by (simp add: lease_value_def split_on_append hex_no_bar split_on_single)

lemma lease_value_nonempty [simp]: "lease_value o' g p \<noteq> []"
  by (simp add: lease_value_def)

lemma lua_match_lease_value:
  "is_lower_hex 64 o' \<Longrightarrow> lua_match (lease_value o' g p) = Some (o', decimal g, as_wire_str p)"
  by (simp add: lua_match_def split_lease_value hex64_nonempty)

lemma names_caller_lease_value:
  "is_lower_hex 64 o' \<Longrightarrow>
   names_caller owner (decimal n) (lease_value o' g p) \<longleftrightarrow> o' = owner \<and> g = n"
  by (simp add: names_caller_def lua_match_lease_value)

lemma parse_lease_value:
  assumes "hex_ok hx" "is_lower_hex 64 o'" "0 < g" "g \<le> U64_MAX"
  shows "parse_lease hx c s (lease_value o' g p) =
    Inr \<lparr>sl_community = c, sl_session = s, sl_owner = o', sl_generation = g, sl_profile = p\<rparr>"
  using assms by (simp add: parse_lease_def split_lease_value parse_unsigned_decimal hex_ok_def)

lemma parse_optional_lease_value:
  assumes "hex_ok hx" "is_lower_hex 64 o'" "0 < g" "g \<le> U64_MAX"
  shows "parse_optional_lease hx c s (lease_value o' g p) =
    Inr (Some \<lparr>sl_community = c, sl_session = s, sl_owner = o', sl_generation = g, sl_profile = p\<rparr>)"
  using assms by (simp add: parse_optional_lease_def parse_lease_value)

lemma parse_optional_generation_decimal:
  "0 < g \<Longrightarrow> g \<le> U64_MAX \<Longrightarrow> parse_optional_generation c s (decimal g) = Inr (Some g)"
  by (simp add: parse_optional_generation_def parse_unsigned_decimal)

lemma parse_optional_nothing [simp]:
  "parse_optional_lease hx c s [] = Inr None" "parse_optional_generation c s [] = Inr None"
  by (simp_all add: parse_optional_lease_def parse_optional_generation_def)

lemma parse_lease_ids:
  "parse_lease hx c s v = Inr l \<Longrightarrow> sl_community l = c \<and> sl_session l = s \<and> 0 < sl_generation l"
  by (auto simp: parse_lease_def Let_def split: list.splits option.splits if_splits)

section \<open>Ownership epochs\<close>

text \<open>
  What the directory promises of one session, without Redis: a counter that never goes back and at
  most one holder of the current count. A holder can only appear together with a new count.
\<close>

type_synonym epoch = "nat \<times> (runtime_id \<times> profile) option"

inductive epoch_step :: "epoch \<Rightarrow> epoch \<Rightarrow> bool" where
  epoch_stay: "epoch_step e e"
| epoch_take: "epoch_step (n, None) (Suc n, Some h)"
| epoch_end: "epoch_step (n, Some h) (n, None)"

inductive_cases epoch_step_elim: "epoch_step e e'"

lemma epoch_step_counter: "epoch_step e e' \<Longrightarrow> fst e \<le> fst e' \<and> fst e' \<le> Suc (fst e)"
  by (auto elim: epoch_step_elim)

lemma epoch_run_counter: "epoch_step\<^sup>*\<^sup>* e e' \<Longrightarrow> fst e \<le> fst e'"
  by (induction rule: rtranclp_induct) (auto dest: epoch_step_counter)

text \<open>While the counter stands still the holder can only go away.\<close>

lemma epoch_run_holder:
  "epoch_step\<^sup>*\<^sup>* e e' \<Longrightarrow> fst e' = fst e \<Longrightarrow> snd e' = None \<or> snd e' = snd e"
proof (induction rule: rtranclp_induct)
  case (step e1 e2)
  then have "fst e \<le> fst e1" "fst e1 \<le> fst e2"
    by (auto dest: epoch_run_counter epoch_step_counter)
  with step show ?case by (auto elim!: epoch_step_elim)
qed simp

text \<open>A session that has no holder gets one only by counting up.\<close>

lemma epoch_run_retaken:
  "epoch_step\<^sup>*\<^sup>* (n, None) (m, Some h) \<Longrightarrow> n < m"
  using epoch_run_counter [of "(n, None)" "(m, Some h)"] epoch_run_holder [of "(n, None)" "(m, Some h)"]
  by fastforce

text \<open>The epoch that a Redis state records for a session.\<close>

definition epoch_is :: "'r redis \<Rightarrow> uuid \<Rightarrow> uuid \<Rightarrow> 'r \<Rightarrow> epoch \<Rightarrow> bool" where
  "epoch_is R c s r e \<longleftrightarrow>
     (let ks = session_keys_new c s
      in rd_get R (sk_generation ks) r = (if fst e = 0 then None else Some (decimal (fst e))) \<and>
         (fst e \<noteq> 0 \<longrightarrow> \<not> rd_volatile R (sk_generation ks) r) \<and>
         rd_get R (sk_lease ks) r = map_option (\<lambda>(o', p). lease_value o' (fst e) p) (snd e) \<and>
         (case snd e of None \<Rightarrow> True | Some (o', p) \<Rightarrow> 0 < fst e \<and> is_lower_hex 64 o'))"

text \<open>The canonical text of a community or session id has no colon, so keys do not collide.\<close>

definition id_ok :: "uuid \<Rightarrow> bool" where
  "id_ok u \<longleftrightarrow> CHR '':'' \<notin> set u"

lemma keys_differ [simp]:
  "sk_lease (session_keys_new c s) \<noteq> sk_generation (session_keys_new c' s')"
  "sk_generation (session_keys_new c s) \<noteq> sk_lease (session_keys_new c' s')"
proof -
  have "last (sk_lease (session_keys_new c s)) \<noteq> last (sk_generation (session_keys_new c' s'))" for c s c' s'
    by (simp add: session_keys_new_def Let_def)
  then show "sk_lease (session_keys_new c s) \<noteq> sk_generation (session_keys_new c' s')"
    and "sk_generation (session_keys_new c s) \<noteq> sk_lease (session_keys_new c' s')"
    by metis+
qed

lemma keys_of_sessions:
  assumes "id_ok c" "id_ok c'" "(c, s) \<noteq> (c', s')"
  shows "sk_lease (session_keys_new c s) \<noteq> sk_lease (session_keys_new c' s')"
    "sk_generation (session_keys_new c s) \<noteq> sk_generation (session_keys_new c' s')"
  using assms append_sep_eq [of "CHR '':''" c c']
  by (auto simp: session_keys_new_def Let_def id_ok_def)

lemma epoch_live:
  "epoch_is R c s r (n, Some (o', p)) \<Longrightarrow>
   rd_get R (sk_lease (session_keys_new c s)) r = Some (lease_value o' n p) \<and>
   rd_get R (sk_generation (session_keys_new c s)) r = Some (decimal n) \<and> 0 < n \<and> is_lower_hex 64 o'"
  by (simp add: epoch_is_def Let_def)

lemma epoch_idle:
  "epoch_is R c s r (n, None) \<Longrightarrow>
   rd_get R (sk_lease (session_keys_new c s)) r = None \<and>
   rd_get R (sk_generation (session_keys_new c s)) r = (if n = 0 then None else Some (decimal n))"
  by (simp add: epoch_is_def Let_def)

text \<open>Two states that agree on the keys of a session record the same epoch.\<close>

lemma epoch_frame:
  assumes "rd_get R (sk_lease (session_keys_new c s)) r' = rd_get R (sk_lease (session_keys_new c s)) r"
    "rd_get R (sk_generation (session_keys_new c s)) r' = rd_get R (sk_generation (session_keys_new c s)) r"
    "rd_volatile R (sk_generation (session_keys_new c s)) r' = rd_volatile R (sk_generation (session_keys_new c s)) r"
  shows "epoch_is R c s r' e = epoch_is R c s r e"
  using assms by (simp add: epoch_is_def Let_def)

lemma decimal_one: "decimal (Suc 0) = ''1''"
  by (subst decimal.simps) (code_simp)

lemma acquire_script_takes:
  assumes "redis_ok R" "epoch_is R c s r (n, None)" "n + 1 < 10 ^ 14" "0 < ttl" "is_lower_hex 64 owner"
  obtains r' where
    "acquire_script R (session_keys_new c s) owner (as_wire_str p) ttl r =
       (Some (''acquired'', lease_value owner (Suc n) p, decimal (Suc n)), r')"
    "epoch_is R c s r' (Suc n, Some (owner, p))"
proof -
  let ?ks = "session_keys_new c s"
  obtain r1 where incr: "rd_incr R (sk_generation ?ks) r = (Some (int (Suc n)), r1)"
    and gen: "rd_get R (sk_generation ?ks) r1 = Some (decimal (Suc n))"
    and vol: "\<not> rd_volatile R (sk_generation ?ks) r1"
  proof (cases "n = 0")
    case True
    then have "rd_get R (sk_generation ?ks) r = None" using epoch_idle [OF assms(2)] by simp
    then show ?thesis using that True decimal_one
      by (elim incr_fresh [OF assms(1)]) simp
  next
    case False
    have "\<not> rd_volatile R (sk_generation ?ks) r" using assms(2) False by (simp add: epoch_is_def Let_def)
    moreover have "rd_get R (sk_generation ?ks) r = Some (decimal n)"
      using epoch_idle [OF assms(2)] False by simp
    ultimately show ?thesis using that assms(3)
      by (elim incr_next [OF assms(1), of "sk_generation ?ks" r n]) (auto simp: add.commute)
  qed
  let ?r' = "rd_set_px R (sk_lease ?ks) (lease_value owner (Suc n) p) ttl r1"
  have "rd_tostring R (int (Suc n)) = decimal (Suc n)"
    using assms(1,3) by (intro tostring_law) simp_all
  then have "acquire_script R ?ks owner (as_wire_str p) ttl r =
      (Some (''acquired'', lease_value owner (Suc n) p, decimal (Suc n)), ?r')"
    using epoch_idle [OF assms(2)] incr by (simp add: acquire_script_def lease_value_def Let_def)
  moreover have "epoch_is R c s ?r' (Suc n, Some (owner, p))"
    using assms(1,4,5) gen vol by (simp add: epoch_is_def Let_def redis_frame)
  ultimately show ?thesis using that by blast
qed

lemma acquire_script_exists:
  assumes "epoch_is R c s r (n, Some (o', q))"
  shows "acquire_script R (session_keys_new c s) owner p ttl r =
    (Some (''exists'', lease_value o' n q, decimal n), r)"
  using epoch_live [OF assms] by (simp add: acquire_script_def get_or_def)

lemma epoch_pexpire:
  "redis_ok R \<Longrightarrow> 0 < t \<Longrightarrow>
   epoch_is R c s (rd_pexpire R (sk_lease (session_keys_new c' s')) t r) e = epoch_is R c s r e"
  by (rule epoch_frame) (simp_all add: redis_frame)

lemma epoch_del:
  "redis_ok R \<Longrightarrow> sk_lease (session_keys_new c s) \<noteq> k \<Longrightarrow> sk_generation (session_keys_new c s) \<noteq> k \<Longrightarrow>
   epoch_is R c s (rd_del R k r) e = epoch_is R c s r e"
  by (rule epoch_frame) (simp_all add: redis_frame)

lemma epoch_set_px:
  "redis_ok R \<Longrightarrow> 0 < t \<Longrightarrow> sk_lease (session_keys_new c s) \<noteq> k \<Longrightarrow> sk_generation (session_keys_new c s) \<noteq> k \<Longrightarrow>
   epoch_is R c s (rd_set_px R k v t r) e = epoch_is R c s r e"
  by (rule epoch_frame) (simp_all add: redis_frame)

lemma epoch_incr:
  "redis_ok R \<Longrightarrow> rd_incr R k r = (x, r') \<Longrightarrow> sk_lease (session_keys_new c s) \<noteq> k \<Longrightarrow>
   sk_generation (session_keys_new c s) \<noteq> k \<Longrightarrow> epoch_is R c s r' e = epoch_is R c s r e"
  by (rule epoch_frame) (simp_all add: incr_frame)

lemma acquire_script_frame:
  assumes "redis_ok R" "0 < ttl" "id_ok c" "id_ok c'" "(c, s) \<noteq> (c', s')"
  shows "epoch_is R c s (snd (acquire_script R (session_keys_new c' s') owner p ttl r)) e = epoch_is R c s r e"
proof (cases "rd_get R (sk_lease (session_keys_new c' s')) r")
  case None
  obtain g r1 where incr: "rd_incr R (sk_generation (session_keys_new c' s')) r = (g, r1)" by fastforce
  show ?thesis
    using keys_of_sessions [OF assms(3-5)] None incr assms(1,2)
      epoch_incr [OF assms(1) incr, of c s e]
    by (cases g) (simp_all add: acquire_script_def Let_def epoch_set_px)
qed (simp add: acquire_script_def)

lemma renew_script_epoch:
  assumes "redis_ok R" "0 < ttl"
  shows "epoch_is R c s (snd (renew_script R (session_keys_new c' s') owner gen ttl r)) e = epoch_is R c s r e"
  using assms by (simp add: renew_script_def Let_def epoch_pexpire split: option.splits)

lemma release_script_frame:
  assumes "redis_ok R" "id_ok c" "id_ok c'" "(c, s) \<noteq> (c', s')"
  shows "epoch_is R c s (snd (release_script R (session_keys_new c' s') owner gen r)) e = epoch_is R c s r e"
  using keys_of_sessions [OF assms(2-4)] assms(1)
  by (simp add: release_script_def Let_def epoch_del split: option.splits)

text \<open>Only the caller that the current value names can end an epoch.\<close>

lemma release_script_epoch:
  assumes "redis_ok R" "epoch_is R c s r (n, Some (o', p))"
  shows "epoch_is R c s (snd (release_script R (session_keys_new c s) owner (decimal g) r))
           (n, if o' = owner \<and> g = n then None else Some (o', p))"
  using assms(1) assms(2) epoch_live [OF assms(2)]
  by (auto simp: release_script_def Let_def redis_frame names_caller_lease_value epoch_is_def)

lemma release_script_idle:
  "epoch_is R c s r (n, None) \<Longrightarrow> snd (release_script R (session_keys_new c s) owner gen r) = r"
  by (auto dest: epoch_idle simp: release_script_def)

lemma elapse_epoch:
  assumes "redis_ok R" "epoch_is R c s r (n, h)"
  shows "epoch_is R c s (rd_elapse R t r) (n, h) \<or> epoch_is R c s (rd_elapse R t r) (n, None)"
proof -
  let ?k = "sk_generation (session_keys_new c s)"
  let ?l = "sk_lease (session_keys_new c s)"
  have gen: "rd_get R ?k (rd_elapse R t r) = rd_get R ?k r \<and> (n \<noteq> 0 \<longrightarrow> \<not> rd_volatile R ?k (rd_elapse R t r))"
  proof (cases "n = 0")
    case True
    then have "rd_get R ?k r = None" using assms(2) by (simp add: epoch_is_def Let_def)
    then show ?thesis using True elapse_law [OF assms(1), of ?k t r] by auto
  next
    case False
    then show ?thesis using assms elapse_persistent [OF assms(1), of ?k r t]
      by (auto simp: epoch_is_def Let_def)
  qed
  moreover have "rd_get R ?l (rd_elapse R t r) = rd_get R ?l r \<or> rd_get R ?l (rd_elapse R t r) = None"
    using elapse_law [OF assms(1), of ?l t r] by auto
  ultimately show ?thesis using assms(2) by (auto simp: epoch_is_def Let_def)
qed

section \<open>The operations on epochs\<close>

lemma ttl_ms_Inr: "ttl_ms ttl = Inr ms \<Longrightarrow> 0 < ms"
  by (auto simp: ttl_ms_def split: if_splits)

lemma snd_invoke: "snd (invoke n f r) = (if n = NetOk \<or> n = ReplyLost then snd (f r) else r)"
  by (auto simp: invoke_def split: net.splits prod.splits option.splits)

lemma snd_lift_script [simp]: "snd (lift_script f r) = snd (f r)"
  by (simp add: lift_script_def split: prod.splits)

lemma snd_reply:
  "snd (case x of (Inl e, r) \<Rightarrow> (Inl e, r) | (Inr a, r) \<Rightarrow> (g a, r)) = snd x"
  by (cases x; cases "fst x") auto

lemma snd_dir_acquire:
  "snd (dir_acquire R hx ttl c s owner p n r) =
     (case ttl_ms ttl of Inl _ \<Rightarrow> r
      | Inr ms \<Rightarrow> if n = NetOk \<or> n = ReplyLost
                 then snd (acquire_script R (session_keys_new c s) owner (as_wire_str p) ms r) else r)"
  by (cases "ttl_ms ttl") (simp_all add: dir_acquire_def snd_reply snd_invoke)

lemma snd_dir_renew:
  "snd (dir_renew R hx ttl l n r) =
     (case ttl_ms ttl of Inl _ \<Rightarrow> r
      | Inr ms \<Rightarrow> if n = NetOk \<or> n = ReplyLost
                 then snd (renew_script R (session_keys_new (sl_community l) (sl_session l))
                             (sl_owner l) (decimal (sl_generation l)) ms r) else r)"
  by (cases "ttl_ms ttl") (simp_all add: dir_renew_def snd_reply snd_invoke)

lemma snd_dir_release:
  "snd (dir_release R hx l n r) =
     (if n = NetOk \<or> n = ReplyLost
      then snd (release_script R (session_keys_new (sl_community l) (sl_session l))
                  (sl_owner l) (decimal (sl_generation l)) r) else r)"
  by (simp add: dir_release_def snd_reply snd_invoke)

datatype dir_op =
    DAcquire uuid uuid runtime_id profile net
  | DRenew session_lease net
  | DRelease session_lease net
  | DElapse nat

fun dir_step :: "'r redis \<Rightarrow> (string \<Rightarrow> runtime_id option) \<Rightarrow> nat \<Rightarrow> 'r \<Rightarrow> dir_op \<Rightarrow> 'r" where
  "dir_step R hx ttl r (DAcquire c s owner p n) = snd (dir_acquire R hx ttl c s owner p n r)"
| "dir_step R hx ttl r (DRenew l n) = snd (dir_renew R hx ttl l n r)"
| "dir_step R hx ttl r (DRelease l n) = snd (dir_release R hx l n r)"
| "dir_step R hx ttl r (DElapse t) = rd_elapse R t r"

definition dir_run :: "'r redis \<Rightarrow> (string \<Rightarrow> runtime_id option) \<Rightarrow> nat \<Rightarrow> dir_op list \<Rightarrow> 'r \<Rightarrow> 'r" where
  "dir_run R hx ttl ops r = foldl (dir_step R hx ttl) r ops"

lemma dir_run_simps [simp]:
  "dir_run R hx ttl [] r = r"
  "dir_run R hx ttl (a # ops) r = dir_run R hx ttl ops (dir_step R hx ttl r a)"
  "dir_run R hx ttl (ops @ ops') r = dir_run R hx ttl ops' (dir_run R hx ttl ops r)"
  by (simp_all add: dir_run_def)

text \<open>Ids are canonical texts, and a caller acquires under its own runtime id.\<close>

fun dir_op_ok :: "dir_op \<Rightarrow> bool" where
  "dir_op_ok (DAcquire c s owner p n) = (id_ok c \<and> is_lower_hex 64 owner)"
| "dir_op_ok (DRenew l n) = id_ok (sl_community l)"
| "dir_op_ok (DRelease l n) = id_ok (sl_community l)"
| "dir_op_ok (DElapse t) = True"

lemma acquire_refines:
  assumes "redis_ok R" "epoch_is R c s r e" "fst e + 1 < 10 ^ 14" "id_ok c" "id_ok c'"
    "is_lower_hex 64 owner" "0 < ttl"
  shows "\<exists>e'. epoch_is R c s (snd (acquire_script R (session_keys_new c' s') owner (as_wire_str p) ttl r)) e' \<and>
              epoch_step e e'"
proof (cases "(c', s') = (c, s)")
  case True
  then have eq: "c' = c" "s' = s" by simp_all
  obtain k h where e: "e = (k, h)" by fastforce
  show ?thesis
  proof (cases h)
    case None
    then show ?thesis
      using acquire_script_takes [OF assms(1), of c s r k ttl owner p] assms e eq
      by (metis epoch_take fst_conv snd_conv)
  next
    case (Some x)
    obtain o' q where "x = (o', q)" by fastforce
    with Some e eq assms(2) show ?thesis
      using acquire_script_exists [of R c s r k o' q] by (auto intro: epoch_stay)
  qed
next
  case False
  then show ?thesis using acquire_script_frame [OF assms(1,7,4,5)] assms(2)
    by (metis epoch_stay)
qed

lemma release_refines:
  assumes "redis_ok R" "epoch_is R c s r e" "id_ok c" "id_ok c'"
  shows "\<exists>e'. epoch_is R c s (snd (release_script R (session_keys_new c' s') owner (decimal g) r)) e' \<and>
              epoch_step e e'"
proof (cases "(c', s') = (c, s)")
  case True
  then have eq: "c' = c" "s' = s" by simp_all
  obtain k h where e: "e = (k, h)" by fastforce
  show ?thesis
  proof (cases h)
    case None
    then show ?thesis using release_script_idle [of R c s r k owner "decimal g"] assms(2) e eq
      by (auto intro: epoch_stay)
  next
    case (Some x)
    obtain o' q where x: "x = (o', q)" by fastforce
    show ?thesis
      using release_script_epoch [OF assms(1), of c s r k o' q owner g] Some e eq x assms(2)
      by (cases "o' = owner \<and> g = k") (auto intro: epoch_stay epoch_end)
  qed
next
  case False
  then show ?thesis using release_script_frame [OF assms(1,3,4)] assms(2)
    by (metis epoch_stay)
qed

lemma refines_stay: "epoch_is R c s r e \<Longrightarrow> \<exists>e'. epoch_is R c s r e' \<and> epoch_step e e'"
  by (blast intro: epoch_stay)

text \<open>The directory refines the epoch machine, whatever is lost on the network and whoever calls.\<close>

lemma dir_step_refines:
  assumes R: "redis_ok R" and e: "epoch_is R c s r e" "fst e + 1 < 10 ^ 14" "id_ok c" and op: "dir_op_ok a"
  shows "\<exists>e'. epoch_is R c s (dir_step R hx ttl r a) e' \<and> epoch_step e e'"
proof (cases a)
  case (DAcquire c' s' owner p n)
  then show ?thesis
    using acquire_refines [OF R e, of c' owner _ s' p] op refines_stay [OF e(1)]
    by (auto simp: snd_dir_acquire simp del: split_paired_Ex dest: ttl_ms_Inr split: sum.splits)
next
  case (DRenew l n)
  then show ?thesis
    using refines_stay [OF e(1)] renew_script_epoch [OF R ttl_ms_Inr]
    by (simp add: snd_dir_renew del: split_paired_Ex split: sum.splits)
next
  case (DRelease l n)
  then show ?thesis
    using release_refines [OF R e(1,3)] op refines_stay [OF e(1)]
    by (simp add: snd_dir_release del: split_paired_Ex)
next
  case (DElapse t)
  obtain k h where "e = (k, h)" by fastforce
  then show ?thesis
    using elapse_epoch [OF R, of c s r k h t] e(1) DElapse
    by (cases h) (auto intro: epoch_stay epoch_end)
qed

lemma dir_run_refines:
  assumes "redis_ok R" "epoch_is R c s r e" "fst e + length ops < 10 ^ 14" "id_ok c" "list_all dir_op_ok ops"
  shows "\<exists>e'. epoch_is R c s (dir_run R hx ttl ops r) e' \<and> epoch_step\<^sup>*\<^sup>* e e' \<and> fst e' \<le> fst e + length ops"
  using assms
proof (induction ops arbitrary: r e)
  case (Cons a ops)
  obtain e1 where e1: "epoch_is R c s (dir_step R hx ttl r a) e1" "epoch_step e e1"
    using dir_step_refines [of R c s r e a hx ttl] Cons.prems by auto
  moreover have "fst e1 \<le> Suc (fst e)" using epoch_step_counter [OF e1(2)] by simp
  ultimately obtain e' where "epoch_is R c s (dir_run R hx ttl ops (dir_step R hx ttl r a)) e'"
    "epoch_step\<^sup>*\<^sup>* e1 e'" "fst e' \<le> fst e1 + length ops"
    using Cons.IH [of "dir_step R hx ttl r a" e1] Cons.prems by auto
  then have "epoch_step\<^sup>*\<^sup>* e e'" "fst e' \<le> fst e + length (a # ops)"
    using e1(2) \<open>fst e1 \<le> Suc (fst e)\<close> by (auto intro: converse_rtranclp_into_rtranclp)
  with \<open>epoch_is R c s (dir_run R hx ttl ops (dir_step R hx ttl r a)) e'\<close> show ?case
    by (intro exI [of _ e']) simp
qed (auto simp del: split_paired_Ex)

section \<open>What callers learn\<close>

definition holder_lease :: "uuid \<Rightarrow> uuid \<Rightarrow> epoch \<Rightarrow> session_lease option" where
  "holder_lease c s e = map_option (\<lambda>(o', p). \<lparr>sl_community = c, sl_session = s, sl_owner = o',
     sl_generation = fst e, sl_profile = p\<rparr>) (snd e)"

lemma bound_U64: "n < 10 ^ 14 \<Longrightarrow> n \<le> U64_MAX"
  by (simp add: U64_MAX_def)

lemma parse_epoch_lease:
  assumes "hex_ok hx" "epoch_is R c s r e" "fst e < 10 ^ 14"
  shows "parse_optional_lease hx c s (get_or R [] (sk_lease (session_keys_new c s)) r) = Inr (holder_lease c s e)"
    and "parse_optional_generation c s (get_or R [] (sk_generation (session_keys_new c s)) r) =
      Inr (if fst e = 0 then None else Some (fst e))"
  using assms bound_U64 [OF assms(3)]
  by (auto simp: epoch_is_def Let_def get_or_def holder_lease_def parse_optional_lease_value
      parse_optional_generation_decimal split: option.splits)

lemma dir_acquire_taken:
  assumes "redis_ok R" "hex_ok hx" "epoch_is R c s r (n, None)" "n + 1 < 10 ^ 14" "is_lower_hex 64 owner"
    "ttl_ms ttl = Inr ms"
  shows "\<exists>r'. dir_acquire R hx ttl c s owner p NetOk r =
      (Inr (Acquired \<lparr>sl_community = c, sl_session = s, sl_owner = owner, sl_generation = Suc n, sl_profile = p\<rparr>), r')
    \<and> epoch_is R c s r' (Suc n, Some (owner, p))"
proof -
  obtain r' where "acquire_script R (session_keys_new c s) owner (as_wire_str p) ms r =
      (Some (''acquired'', lease_value owner (Suc n) p, decimal (Suc n)), r')"
    and "epoch_is R c s r' (Suc n, Some (owner, p))"
    using acquire_script_takes [OF assms(1,3,4) ttl_ms_Inr [OF assms(6)] assms(5)] by metis
  then show ?thesis
    using assms(2,5,6) bound_U64 [of "Suc n"] assms(4)
    by (simp add: dir_acquire_def invoke_def acquire_reply_def parse_lease_value)
qed

lemma dir_acquire_exists:
  assumes "hex_ok hx" "epoch_is R c s r (n, Some (o', q))" "n < 10 ^ 14" "ttl_ms ttl = Inr ms"
  shows "dir_acquire R hx ttl c s owner p NetOk r =
      (Inr (Exists \<lparr>sl_community = c, sl_session = s, sl_owner = o', sl_generation = n, sl_profile = q\<rparr>), r)"
  using acquire_script_exists [OF assms(2)] epoch_live [OF assms(2)] assms(1,4) bound_U64 [OF assms(3)]
  by (simp add: dir_acquire_def invoke_def acquire_reply_def parse_lease_value)

lemma dir_lookup_epoch:
  assumes "hex_ok hx" "epoch_is R c s r e" "fst e < 10 ^ 14"
  shows "dir_lookup R hx c s NetOk r = Inr (holder_lease c s e)"
proof (cases "snd e")
  case None
  then show ?thesis using epoch_idle [of R c s r "fst e"] assms(2)
    by (cases e) (simp add: dir_lookup_def redis_get_def invoke_def holder_lease_def)
next
  case (Some x)
  obtain o' p where e: "e = (fst e, Some (o', p))" using Some by (cases e; cases x) simp
  then have "epoch_is R c s r (fst e, Some (o', p))" using assms(2) by simp
  from epoch_live [OF this] show ?thesis
    using assms(1) bound_U64 [OF assms(3)]
    by (subst e) (simp add: dir_lookup_def redis_get_def invoke_def holder_lease_def parse_lease_value)
qed

text \<open>A frame passes the fence exactly when it names the live lease.\<close>

lemma fence_check_Inr:
  "(\<forall>l. current = Some l \<longrightarrow> sl_generation l = counter) \<Longrightarrow>
   fence_check current counter f = Inr () \<longleftrightarrow>
     (\<exists>l. current = Some l \<and> fh_generation f = sl_generation l \<and> fh_owner f = sl_owner l)"
  by (cases current) (auto simp: fence_check_def Let_def)

lemma validate_epoch:
  assumes "hex_ok hx" "epoch_is R c (fh_session f) r e" "fst e < 10 ^ 14"
  shows "validate_fenced_header R hx c f NetOk r = fence_check (holder_lease c (fh_session f) e) (fst e) f"
  using parse_epoch_lease [OF assms]
  by (simp add: validate_fenced_header_def invoke_def validate_script_def)

lemma validate_names_holder:
  assumes "hex_ok hx" "epoch_is R c (fh_session f) r e" "fst e < 10 ^ 14"
  shows "validate_fenced_header R hx c f NetOk r = Inr () \<longleftrightarrow>
    fh_generation f = fst e \<and> (\<exists>p. snd e = Some (fh_owner f, p))"
  unfolding validate_epoch [OF assms]
  by (subst fence_check_Inr) (auto simp: holder_lease_def)

lemma validate_needs_answer:
  "validate_fenced_header R hx c f n r = Inr u \<Longrightarrow> n = NetOk"
  by (cases n) (auto simp: validate_fenced_header_def invoke_def)

lemma dir_release_result:
  assumes "redis_ok R" "hex_ok hx" "epoch_is R (sl_community l) (sl_session l) r e" "fst e < 10 ^ 14"
  shows "fst (dir_release R hx l NetOk r) =
    (let cur = holder_lease (sl_community l) (sl_session l) e;
         gen = (if fst e = 0 then None else Some (fst e))
     in case cur of
          None \<Rightarrow> Inr (NotOwner None gen)
        | Some h \<Rightarrow> if sl_owner h = sl_owner l \<and> sl_generation h = sl_generation l
                   then Inr (Released h) else Inr (NotOwner (Some h) gen))"
proof (cases "snd e")
  case None
  then have "epoch_is R (sl_community l) (sl_session l) r (fst e, None)" using assms(3) by (cases e) simp
  from epoch_idle [OF this] show ?thesis
    using None bound_U64 [OF assms(4)]
    by (simp add: dir_release_def invoke_def lift_script_def release_script_def release_reply_def
        holder_lease_def get_or_def parse_optional_generation_decimal)
next
  case (Some x)
  obtain o' p where x: "x = (o', p)" by fastforce
  obtain k where e: "e = (k, Some (o', p))" using Some x by (cases e) simp
  then have "epoch_is R (sl_community l) (sl_session l) r (k, Some (o', p))" using assms(3) by simp
  note live = epoch_live [OF this]
  note reads = parse_optional_lease_value [OF assms(2), of o' k "sl_community l" "sl_session l" p]
    parse_optional_generation_decimal [of k "sl_community l" "sl_session l"]
  show ?thesis
    using e live reads assms(1,2) bound_U64 [OF assms(4)]
    by (auto simp: dir_release_def invoke_def lift_script_def release_script_def release_reply_def Let_def
        names_caller_lease_value holder_lease_def get_or_def redis_frame)
qed

lemma dir_renew_result:
  assumes "redis_ok R" "hex_ok hx" "epoch_is R (sl_community l) (sl_session l) r e" "fst e < 10 ^ 14"
    "ttl_ms ttl = Inr ms"
  shows "fst (dir_renew R hx ttl l NetOk r) =
    (let cur = holder_lease (sl_community l) (sl_session l) e;
         gen = (if fst e = 0 then None else Some (fst e))
     in case cur of
          None \<Rightarrow> Inr (Lost None gen)
        | Some h \<Rightarrow> if sl_owner h = sl_owner l \<and> sl_generation h = sl_generation l
                   then Inr (Renewed h) else Inr (Lost (Some h) gen))"
proof (cases "snd e")
  case None
  then have "epoch_is R (sl_community l) (sl_session l) r (fst e, None)" using assms(3) by (cases e) simp
  from epoch_idle [OF this] show ?thesis
    using None bound_U64 [OF assms(4)] assms(5)
    by (simp add: dir_renew_def invoke_def lift_script_def renew_script_def renew_reply_def
        holder_lease_def get_or_def parse_optional_generation_decimal)
next
  case (Some x)
  obtain o' p where x: "x = (o', p)" by fastforce
  obtain k where e: "e = (k, Some (o', p))" using Some x by (cases e) simp
  then have "epoch_is R (sl_community l) (sl_session l) r (k, Some (o', p))" using assms(3) by simp
  note live = epoch_live [OF this]
  note reads = parse_optional_lease_value [OF assms(2), of o' k "sl_community l" "sl_session l" p]
    parse_optional_generation_decimal [of k "sl_community l" "sl_session l"]
  show ?thesis
    using e live reads assms(1,2,5) bound_U64 [OF assms(4)] ttl_ms_Inr [OF assms(5)]
    by (auto simp: dir_renew_def invoke_def lift_script_def renew_script_def renew_reply_def Let_def
        names_caller_lease_value holder_lease_def get_or_def redis_frame)
qed

text \<open>What an acquisition that reports success means, whatever the network did.\<close>

lemma dir_acquire_Acquired:
  assumes "redis_ok R" "hex_ok hx" "epoch_is R c s r e" "fst e + 1 < 10 ^ 14" "is_lower_hex 64 owner"
    "dir_acquire R hx ttl c s owner p n r = (Inr (Acquired l), r')"
  shows "snd e = None \<and> epoch_is R c s r' (Suc (fst e), Some (owner, p)) \<and>
    l = \<lparr>sl_community = c, sl_session = s, sl_owner = owner, sl_generation = Suc (fst e), sl_profile = p\<rparr>"
proof -
  obtain ms where ttl: "ttl_ms ttl = Inr ms"
    using assms(6) by (cases "ttl_ms ttl") (auto simp: dir_acquire_def)
  have n: "n = NetOk" using assms(6) ttl by (cases n) (auto simp: dir_acquire_def invoke_def)
  obtain k h where e: "e = (k, h)" by fastforce
  show ?thesis
  proof (cases h)
    case None
    then obtain r1 where "dir_acquire R hx ttl c s owner p NetOk r =
      (Inr (Acquired \<lparr>sl_community = c, sl_session = s, sl_owner = owner, sl_generation = Suc k, sl_profile = p\<rparr>), r1)"
      "epoch_is R c s r1 (Suc k, Some (owner, p))"
      using dir_acquire_taken [OF assms(1,2) _ _ assms(5) ttl, of c s r k p] assms(3,4) e by auto
    with assms(6) n e None show ?thesis by simp
  next
    case (Some x)
    then show ?thesis
      using dir_acquire_exists [OF assms(2) _ _ ttl, of R c s r k "fst x" "snd x" owner p] assms(3,4,6) n e
      by simp
  qed
qed

section \<open>Fencing\<close>

text \<open>
  C10: The fencing law. Once a runtime has been told that it acquired a session, no frame of an earlier
  generation passes validation anywhere, whatever the directory is asked to do in between, and a
  frame of that very generation passes only under that runtime's name.
\<close>

theorem fenced_frames_follow_acquisition:
  assumes "redis_ok R" "hex_ok hx" "epoch_is R c s r e" "fst e + Suc (length ops) < 10 ^ 14"
    "id_ok c" "is_lower_hex 64 owner" "list_all dir_op_ok ops" "fh_session f = s"
    "dir_acquire R hx ttl c s owner p n r = (Inr (Acquired l), r1)"
    "validate_fenced_header R hx c f n' (dir_run R hx ttl' ops r1) = Inr ()"
  shows "sl_generation l \<le> fh_generation f \<and> (fh_generation f = sl_generation l \<longrightarrow> fh_owner f = owner)"
proof -
  have got: "epoch_is R c s r1 (Suc (fst e), Some (owner, p))" "sl_generation l = Suc (fst e)"
    using dir_acquire_Acquired [OF assms(1-3) _ assms(6,9)] assms(4) by simp_all
  obtain e' where e': "epoch_is R c s (dir_run R hx ttl' ops r1) e'"
    "epoch_step\<^sup>*\<^sup>* (Suc (fst e), Some (owner, p)) e'" "fst e' < 10 ^ 14"
    using dir_run_refines [OF assms(1) got(1) _ assms(5,7), of hx ttl'] assms(4) by fastforce
  have "fh_generation f = fst e'" "\<exists>q. snd e' = Some (fh_owner f, q)"
    using validate_names_holder [OF assms(2), of R c f] e'(1,3) assms(8,10)
      validate_needs_answer [OF assms(10)] by auto
  with epoch_run_counter [OF e'(2)] epoch_run_holder [OF e'(2)] got(2) show ?thesis by auto
qed

text \<open>
  Generations never repeat: a later acquisition of the session, by whomever and whatever happened
  in between, returns a larger one.
\<close>

theorem acquired_generations_increase:
  assumes "redis_ok R" "hex_ok hx" "epoch_is R c s r e" "fst e + length ops + 2 < 10 ^ 14"
    "id_ok c" "is_lower_hex 64 owner" "is_lower_hex 64 owner'" "list_all dir_op_ok ops"
    "dir_acquire R hx ttl c s owner p n r = (Inr (Acquired l), r1)"
    "dir_acquire R hx ttl c s owner' p' n' (dir_run R hx ttl' ops r1) = (Inr (Acquired l'), r2)"
  shows "sl_generation l < sl_generation l'"
proof -
  have got: "epoch_is R c s r1 (Suc (fst e), Some (owner, p))" "sl_generation l = Suc (fst e)"
    using dir_acquire_Acquired [OF assms(1-3) _ assms(6,9)] assms(4) by simp_all
  obtain e' where e': "epoch_is R c s (dir_run R hx ttl' ops r1) e'"
    "epoch_step\<^sup>*\<^sup>* (Suc (fst e), Some (owner, p)) e'" "fst e' + 1 < 10 ^ 14"
    using dir_run_refines [OF assms(1) got(1) _ assms(5,8), of hx ttl'] assms(4) by fastforce
  have "sl_generation l' = Suc (fst e')"
    using dir_acquire_Acquired [OF assms(1,2) e'(1,3) assms(7,10)] by simp
  with epoch_run_counter [OF e'(2)] got(2) show ?thesis by simp
qed

text \<open>
  On a state the directory itself wrote no call panics, finds a malformed value or an unknown status:
  what can go wrong is the pool, the connection and the configured time to live.
\<close>

definition io_error :: "directory_error \<Rightarrow> bool" where
  "io_error e \<longleftrightarrow> e = PoolError \<or> e = RedisError \<or> e = InvalidLeaseTtl"

lemma ttl_ms_Inl: "ttl_ms ttl = Inl e \<Longrightarrow> e = InvalidLeaseTtl"
  by (auto simp: ttl_ms_def split: if_splits)

lemma fst_invoke_lost: "n \<noteq> NetOk \<Longrightarrow> \<exists>e. fst (invoke n f r) = Inl e \<and> io_error e"
  by (cases n) (auto simp: invoke_def io_error_def)

lemma fst_reply:
  "fst (case x of (Inl e, r) \<Rightarrow> (Inl e, r) | (Inr a, r) \<Rightarrow> (g a, r)) = (case fst x of Inl e \<Rightarrow> Inl e | Inr a \<Rightarrow> g a)"
  by (cases x; cases "fst x") auto

lemma release_errors:
  assumes "redis_ok R" "hex_ok hx" "epoch_is R (sl_community l) (sl_session l) r e" "fst e < 10 ^ 14"
    "fst (dir_release R hx l n r) = Inl err"
  shows "io_error err"
proof (cases "n = NetOk")
  case True
  then show ?thesis using dir_release_result [OF assms(1-4)] assms(5)
    by (auto simp: Let_def split: option.splits if_splits)
next
  case False
  let ?f = "lift_script (release_script R (session_keys_new (sl_community l) (sl_session l))
    (sl_owner l) (decimal (sl_generation l)))"
  show ?thesis using fst_invoke_lost [OF False, of ?f r] assms(5) by (auto simp: dir_release_def fst_reply)
qed

lemma renew_errors:
  assumes "redis_ok R" "hex_ok hx" "epoch_is R (sl_community l) (sl_session l) r e" "fst e < 10 ^ 14"
    "fst (dir_renew R hx ttl l n r) = Inl err"
  shows "io_error err"
proof (cases "ttl_ms ttl")
  case (Inl e')
  then show ?thesis using assms(5) ttl_ms_Inl [OF Inl] by (simp add: dir_renew_def io_error_def)
next
  case (Inr ms)
  show ?thesis
  proof (cases "n = NetOk")
    case True
    then show ?thesis using dir_renew_result [OF assms(1-4) Inr] assms(5)
      by (auto simp: Let_def split: option.splits if_splits)
  next
    case False
    let ?f = "lift_script (renew_script R (session_keys_new (sl_community l) (sl_session l))
      (sl_owner l) (decimal (sl_generation l)) ms)"
    show ?thesis using fst_invoke_lost [OF False, of ?f r] assms(5) Inr
      by (auto simp: dir_renew_def fst_reply)
  qed
qed

lemma acquire_errors:
  assumes "redis_ok R" "hex_ok hx" "epoch_is R c s r e" "fst e + 1 < 10 ^ 14" "is_lower_hex 64 owner"
    "fst (dir_acquire R hx ttl c s owner p n r) = Inl err"
  shows "io_error err"
proof (cases "ttl_ms ttl")
  case (Inl e')
  then show ?thesis using assms(6) ttl_ms_Inl [OF Inl] by (simp add: dir_acquire_def io_error_def)
next
  case (Inr ms)
  obtain k h where e: "e = (k, h)" by fastforce
  show ?thesis
  proof (cases "n = NetOk")
    case n: True
    show ?thesis
    proof (cases h)
      case None
      then show ?thesis using dir_acquire_taken [OF assms(1,2) _ _ assms(5) Inr, of c s r k p] assms(3,4,6) e n
        by auto
    next
      case (Some x)
      then show ?thesis
        using dir_acquire_exists [OF assms(2) _ _ Inr, of R c s r k "fst x" "snd x" owner p] assms(3,4,6) n e
        by simp
    qed
  next
    case False
    let ?f = "acquire_script R (session_keys_new c s) owner (as_wire_str p) ms"
    show ?thesis using fst_invoke_lost [OF False, of ?f r] assms(6) Inr
      by (auto simp: dir_acquire_def fst_reply)
  qed
qed

text \<open>
  C39: The errors of the directory. Over a database that only these operations write, an operation can
  fail only because Redis cannot be reached or the configured lease time is out of range: a malformed
  lease, a malformed counter and an unexpected status cannot occur.
\<close>

theorem directory_fails_only_on_io:
  assumes "redis_ok R" "hex_ok hx" "epoch_is R (sl_community l) (sl_session l) r e" "fst e + 1 < 10 ^ 14"
    "is_lower_hex 64 (sl_owner l)"
    "fst (dir_acquire R hx ttl (sl_community l) (sl_session l) (sl_owner l) (sl_profile l) n r) = Inl err \<or>
     fst (dir_renew R hx ttl l n r) = Inl err \<or>
     fst (dir_release R hx l n r) = Inl err"
  shows "err = PoolError \<or> err = RedisError \<or> err = InvalidLeaseTtl"
proof -
  have b: "fst e < 10 ^ 14" using assms(4) by simp
  from assms(6) have "io_error err"
    by (elim disjE) (rule acquire_errors [OF assms(1-5)] renew_errors [OF assms(1-3) b]
        release_errors [OF assms(1-3) b]; assumption)+
  then show ?thesis by (simp add: io_error_def)
qed

text \<open>A runtime whose lease has moved on learns so, and changes nothing.\<close>

theorem stale_owner_changes_nothing:
  assumes "redis_ok R" "hex_ok hx" "epoch_is R (sl_community l) (sl_session l) r e" "fst e < 10 ^ 14"
    "ttl_ms ttl = Inr ms"
    "\<not> (\<exists>p. e = (sl_generation l, Some (sl_owner l, p)))"
  shows "(\<exists>cur g. fst (dir_renew R hx ttl l NetOk r) = Inr (Lost cur g)) \<and>
    (\<exists>cur g. fst (dir_release R hx l NetOk r) = Inr (NotOwner cur g)) \<and>
    epoch_is R (sl_community l) (sl_session l) (snd (dir_renew R hx ttl l n r)) e \<and>
    epoch_is R (sl_community l) (sl_session l) (snd (dir_release R hx l n r)) e"
proof -
  obtain k h where e: "e = (k, h)" by fastforce
  have 1: "(\<exists>cur g. fst (dir_renew R hx ttl l NetOk r) = Inr (Lost cur g))"
    using dir_renew_result [OF assms(1-5)] assms(6) e
    by (auto simp: Let_def holder_lease_def split: option.splits if_splits)
  have 2: "\<exists>cur g. fst (dir_release R hx l NetOk r) = Inr (NotOwner cur g)"
    using dir_release_result [OF assms(1-4)] assms(6) e
    by (auto simp: Let_def holder_lease_def split: option.splits)
  have 3: "epoch_is R (sl_community l) (sl_session l) (snd (dir_renew R hx ttl l n r)) e"
    using assms(3) renew_script_epoch [OF assms(1) ttl_ms_Inr [OF assms(5)]] assms(5) by (simp add: snd_dir_renew)
  have "epoch_is R (sl_community l) (sl_session l)
      (snd (release_script R (session_keys_new (sl_community l) (sl_session l)) (sl_owner l) (decimal (sl_generation l)) r)) e"
  proof (cases h)
    case None
    then show ?thesis using release_script_idle [of R "sl_community l" "sl_session l" r k] assms(3) e by simp
  next
    case (Some x)
    obtain o' p where "x = (o', p)" by fastforce
    with Some e have e': "e = (k, Some (o', p))" by simp
    then have "\<not> (o' = sl_owner l \<and> sl_generation l = k)" using assms(6) by auto
    with e' show ?thesis
      using release_script_epoch [OF assms(1), of "sl_community l" "sl_session l" r k o' p
          "sl_owner l" "sl_generation l"] assms(3) by (cases "o' = sl_owner l") simp_all
  qed
  then have 4: "epoch_is R (sl_community l) (sl_session l) (snd (dir_release R hx l n r)) e"
    using assms(3) by (simp add: snd_dir_release)
  from 1 2 3 4 show ?thesis by blast
qed

section \<open>A concrete server\<close>

text \<open>
  A clock and a map from keys to values with an optional deadline, with the commands as Redis
  documents them. It satisfies \<open>redis_ok\<close>, and the theorems are applied to it.
\<close>

type_synonym demo_db = "nat \<times> (string \<Rightarrow> (string \<times> nat option) option)"

definition demo_get :: "string \<Rightarrow> demo_db \<Rightarrow> string option" where
  "demo_get k db = (case snd db k of
      None \<Rightarrow> None
    | Some (v, None) \<Rightarrow> Some v
    | Some (v, Some d) \<Rightarrow> if fst db < d then Some v else None)"

definition demo_incr :: "string \<Rightarrow> demo_db \<Rightarrow> int option \<times> demo_db" where
  "demo_incr k db = (case demo_get k db of
      None \<Rightarrow> (Some 1, (fst db, (snd db)(k \<mapsto> (''1'', None))))
    | Some v \<Rightarrow>
        (case parse_unsigned (2 ^ 63 - 2) v of
           None \<Rightarrow> (None, db)
         | Some n \<Rightarrow> (Some (int n + 1),
             (fst db, (snd db)(k \<mapsto> (decimal (n + 1), case snd db k of None \<Rightarrow> None | Some (_, d) \<Rightarrow> d))))))"

definition demo_expire :: "string \<Rightarrow> int \<Rightarrow> demo_db \<Rightarrow> demo_db" where
  "demo_expire k t db = (case demo_get k db of
      None \<Rightarrow> db
    | Some v \<Rightarrow> (fst db, (snd db)(k \<mapsto> (v, Some (fst db + nat t)))))"

definition demo_redis :: "demo_db redis" where
  "demo_redis = \<lparr>rd_get = demo_get, rd_incr = demo_incr,
     rd_set_px = (\<lambda>k v t db. (fst db, (snd db)(k \<mapsto> (v, Some (fst db + nat t))))),
     rd_pexpire = demo_expire,
     rd_del = (\<lambda>k db. (fst db, (snd db)(k := None))),
     rd_tostring = (\<lambda>i. int_decimal i),
     rd_volatile = (\<lambda>k db. case snd db k of Some (_, Some _) \<Rightarrow> True | _ \<Rightarrow> False),
     rd_elapse = (\<lambda>t db. (fst db + t, snd db))\<rparr>"

definition demo_hex :: "string \<Rightarrow> runtime_id option" where
  "demo_hex s = (if is_lower_hex 64 s then Some s else None)"

lemma demo_hex_ok: "hex_ok demo_hex"
  by (simp add: hex_ok_def demo_hex_def)

lemma demo_incr_ok: "incr_ok demo_redis k db"
proof -
  have "n < 10 ^ 14 \<Longrightarrow> parse_unsigned (2 ^ 63 - 2) (decimal n) = Some n" for n
    by (rule parse_unsigned_decimal) simp
  then show ?thesis
    by (auto simp: incr_ok_def demo_redis_def demo_incr_def demo_get_def
        split: option.splits prod.splits if_splits)
qed

lemma demo_redis_ok: "redis_ok demo_redis"
  unfolding redis_ok_def
proof (intro conjI allI impI)
  show "incr_ok demo_redis k r" for r k by (rule demo_incr_ok)
qed (auto simp: demo_redis_def demo_incr_def demo_get_def demo_expire_def int_decimal_def
      split: option.splits prod.splits if_splits)

definition demo_owner :: runtime_id where
  "demo_owner = replicate 64 CHR ''a''"

definition demo_rival :: runtime_id where
  "demo_rival = replicate 64 CHR ''b''"

definition demo_empty :: demo_db where
  "demo_empty = (0, \<lambda>_. None)"

lemma demo_epoch: "epoch_is demo_redis ''c'' ''s'' demo_empty (0, None)"
  by (simp add: epoch_is_def demo_redis_def demo_get_def demo_empty_def)

lemma demo_ids: "is_lower_hex 64 demo_owner" "is_lower_hex 64 demo_rival" "id_ok ''c''"
  by code_simp+

text \<open>A first acquisition, and the rival's after the first lease has run out.\<close>

definition demo_first :: "(directory_error + acquire_result) \<times> demo_db" where
  "demo_first = dir_acquire demo_redis demo_hex 30000 ''c'' ''s'' demo_owner HuddleControl NetOk demo_empty"

definition demo_takeover :: "dir_op list" where
  "demo_takeover = [DElapse 30000, DAcquire ''c'' ''s'' demo_rival HuddleControl NetOk]"

definition demo_lease :: "runtime_id \<Rightarrow> nat \<Rightarrow> session_lease" where
  "demo_lease o' g = \<lparr>sl_community = ''c'', sl_session = ''s'', sl_owner = o', sl_generation = g,
     sl_profile = HuddleControl\<rparr>"

abbreviation demo_keys :: session_keys where
  "demo_keys \<equiv> session_keys_new ''c'' ''s''"

definition demo_after :: demo_db where
  "demo_after = (0, [sk_generation demo_keys \<mapsto> (decimal 1, None),
     sk_lease demo_keys \<mapsto> (lease_value demo_owner 1 HuddleControl, Some 30000)])"

lemma demo_parse:
  "0 < g \<Longrightarrow> g < 10 \<Longrightarrow> o' = demo_owner \<or> o' = demo_rival \<Longrightarrow>
   parse_lease demo_hex ''c'' ''s'' (lease_value o' g HuddleControl) = Inr (demo_lease o' g)"
  using demo_ids by (auto simp: parse_lease_value demo_hex_ok demo_lease_def U64_MAX_def)

lemma demo_ttl: "ttl_ms 30000 = Inr 30000"
  by (simp add: ttl_ms_def)

lemma demo_first_is: "demo_first = (Inr (Acquired (demo_lease demo_owner 1)), demo_after)"
  using demo_parse [of 1 demo_owner]
  by (simp add: demo_first_def dir_acquire_def ttl_ms_def invoke_def acquire_script_def demo_redis_def
      demo_get_def demo_incr_def demo_empty_def acquire_reply_def int_decimal_def lease_value_def
      demo_after_def decimal_one fun_upd_twist Let_def)

lemma demo_epoch_first: "epoch_is demo_redis ''c'' ''s'' demo_after (1, Some (demo_owner, HuddleControl))"
  by (simp add: epoch_is_def Let_def demo_redis_def demo_get_def demo_after_def demo_ids)

lemma demo_epoch_lapsed:
  "epoch_is demo_redis ''c'' ''s'' (dir_step demo_redis demo_hex 30000 demo_after (DElapse 30000)) (1, None)"
  by (simp add: epoch_is_def Let_def demo_redis_def demo_get_def demo_after_def)

lemma demo_epoch_rival:
  "epoch_is demo_redis ''c'' ''s'' (dir_run demo_redis demo_hex 30000 demo_takeover demo_after)
     (2, Some (demo_rival, HuddleControl))"
  using dir_acquire_taken [OF demo_redis_ok demo_hex_ok demo_epoch_lapsed, of demo_rival 30000 30000 HuddleControl]
  by (auto simp: demo_takeover_def demo_ttl demo_ids numeral_2_eq_2)

lemma demo_rival_passes:
  "validate_fenced_header demo_redis demo_hex ''c'' (fenced_header_of (demo_lease demo_rival 2)) NetOk
     (dir_run demo_redis demo_hex 30000 demo_takeover demo_after) = Inr ()"
  using validate_names_holder [OF demo_hex_ok, of demo_redis "''c''" "fenced_header_of (demo_lease demo_rival 2)"]
    demo_epoch_rival
  by (simp add: fenced_header_of_def demo_lease_def)

theorem fenced_frames_follow_acquisition_witness:
  "validate_fenced_header demo_redis demo_hex ''c'' (fenced_header_of (demo_lease demo_rival 2)) NetOk
     (dir_run demo_redis demo_hex 30000 demo_takeover demo_after) = Inr () \<and>
   sl_generation (demo_lease demo_owner 1) \<le> sl_generation (demo_lease demo_rival 2)"
  using fenced_frames_follow_acquisition [OF demo_redis_ok demo_hex_ok demo_epoch _ demo_ids(3,1), of demo_takeover
      "fenced_header_of (demo_lease demo_rival 2)" 30000 HuddleControl NetOk "demo_lease demo_owner 1" demo_after NetOk 30000]
    demo_first_is demo_rival_passes demo_ids
  by (simp add: demo_first_def demo_takeover_def fenced_header_of_def demo_lease_def)

definition demo_second :: "(directory_error + acquire_result) \<times> demo_db" where
  "demo_second = dir_acquire demo_redis demo_hex 30000 ''c'' ''s'' demo_rival HuddleControl NetOk
     (dir_run demo_redis demo_hex 30000 [DElapse 30000] demo_after)"

lemma demo_second_is: "\<exists>r'. demo_second = (Inr (Acquired (demo_lease demo_rival 2)), r')"
  using dir_acquire_taken [OF demo_redis_ok demo_hex_ok demo_epoch_lapsed, of demo_rival 30000 30000 HuddleControl]
  by (auto simp: demo_second_def demo_ttl demo_ids numeral_2_eq_2 demo_lease_def)

theorem acquired_generations_increase_witness:
  "sl_generation (demo_lease demo_owner 1) < sl_generation (demo_lease demo_rival 2)"
proof -
  obtain r2 where "demo_second = (Inr (Acquired (demo_lease demo_rival 2)), r2)" using demo_second_is by blast
  then show ?thesis
    using acquired_generations_increase [OF demo_redis_ok demo_hex_ok demo_epoch _ demo_ids(3,1,2), of
        "[DElapse 30000]" 30000 HuddleControl NetOk "demo_lease demo_owner 1" demo_after HuddleControl NetOk
        30000 "demo_lease demo_rival 2" r2] demo_first_is
    by (simp add: demo_first_def demo_second_def)
qed

theorem directory_fails_only_on_io_witness:
  "fst (dir_renew demo_redis demo_hex 0 (demo_lease demo_owner 1) NetOk demo_empty) = Inl InvalidLeaseTtl \<and>
   (InvalidLeaseTtl = PoolError \<or> InvalidLeaseTtl = RedisError \<or> InvalidLeaseTtl = InvalidLeaseTtl)"
proof -
  have "fst (dir_renew demo_redis demo_hex 0 (demo_lease demo_owner 1) NetOk demo_empty) = Inl InvalidLeaseTtl"
    by (simp add: dir_renew_def ttl_ms_def)
  with directory_fails_only_on_io [OF demo_redis_ok demo_hex_ok, of "demo_lease demo_owner 1" demo_empty "(0, None)" 0
      NetOk InvalidLeaseTtl] demo_epoch demo_ids
  show ?thesis by (simp add: demo_lease_def)
qed

theorem stale_owner_changes_nothing_witness:
  "\<exists>cur g. fst (dir_release demo_redis demo_hex (demo_lease demo_rival 1) NetOk demo_after) = Inr (NotOwner cur g)"
  using stale_owner_changes_nothing [OF demo_redis_ok demo_hex_ok, of "demo_lease demo_rival 1" demo_after
      "(1, Some (demo_owner, HuddleControl))" 30000 30000 NetOk] demo_epoch_first
  by (simp add: demo_lease_def ttl_ms_def demo_owner_def demo_rival_def)

end
