(* ===== verification/HuddleOwner.thy ===== *)
theory HuddleOwner
  imports SessionLease
begin

text \<open>
  Which relay owns a huddle, from \<open>crates/buzz-relay/src/audio/join.rs\<close>: the directory capability the
  join path uses and its implementation on the session directory, the resolution of a join, the
  renewer of an owned lease and the registry of the rooms this relay owns.

  \<^item> The trait \<open>HuddleDirectory\<close> is a record of operations over a directory state \<open>'d\<close>.
  \<^item> At an \<open>await\<close> the other relays may use the directory: a schedule \<open>q\<close> gives, for each call, how the
    network treats it and the operations of others (run by \<open>env\<close>) that come before it.
  \<^item> A cancellation token is a number; the registry holds the tokens that have been cancelled and the
    renewers that have been spawned.
  \<^item> A \<open>DashMap\<close> call is atomic. Its iterator is not: it visits the shards one after another.
\<close>

section \<open>The directory as the join path sees it\<close>

record ownership =
  ow_owner :: runtime_id
  ow_generation :: nat

datatype huddle_renew_outcome = HuddleRenewed session_lease | HuddleLost
datatype huddle_release_outcome = HuddleReleased | HuddleNotOwner
datatype acquire_outcome = AcquiredLease session_lease | Held ownership

record 'd huddle_directory =
  hd_owner_of :: "uuid \<Rightarrow> uuid \<Rightarrow> net \<Rightarrow> 'd \<Rightarrow> relay_mesh_error + ownership option"
  hd_acquire :: "uuid \<Rightarrow> uuid \<Rightarrow> runtime_id \<Rightarrow> net \<Rightarrow> 'd \<Rightarrow> (relay_mesh_error + acquire_outcome) \<times> 'd"
  hd_renew :: "session_lease \<Rightarrow> net \<Rightarrow> 'd \<Rightarrow> (relay_mesh_error + huddle_renew_outcome) \<times> 'd"
  hd_release :: "session_lease \<Rightarrow> net \<Rightarrow> 'd \<Rightarrow> (relay_mesh_error + huddle_release_outcome) \<times> 'd"
  hd_validate :: "uuid \<Rightarrow> fenced_header \<Rightarrow> net \<Rightarrow> 'd \<Rightarrow> relay_mesh_error + unit"

text \<open>\<open>DirectoryError\<close> shown as text, its fixed part.\<close>

definition directory_error_text :: "directory_error \<Rightarrow> string" where
  "directory_error_text e = (case e of
      PoolError \<Rightarrow> ''redis pool: ''
    | RedisError \<Rightarrow> ''redis: ''
    | MalformedLease _ _ _ \<Rightarrow> ''malformed session lease for ''
    | MalformedGeneration _ _ _ \<Rightarrow> ''malformed session generation for ''
    | UnexpectedScriptStatus _ \<Rightarrow> ''unexpected session directory script status ''
    | InvalidLeaseTtl \<Rightarrow> ''lease ttl must be at least 1ms and fit in i64 milliseconds''
    | ExpectPanic \<Rightarrow> ''renewed returns lease'')"

definition as_transport :: "directory_error + 'a \<Rightarrow> relay_mesh_error + 'a" where
  "as_transport x = (case x of Inl e \<Rightarrow> Inl (MeshTransport (directory_error_text e)) | Inr a \<Rightarrow> Inr a)"

definition ownership_of :: "session_lease \<Rightarrow> ownership" where
  "ownership_of l = \<lparr>ow_owner = sl_owner l, ow_generation = sl_generation l\<rparr>"

definition huddle_owner_of where
  "huddle_owner_of R hx c s n r = as_transport (map_sum id (map_option ownership_of) (dir_lookup R hx c s n r))"

definition acquire_outcome_of :: "acquire_result \<Rightarrow> acquire_outcome" where
  "acquire_outcome_of a = (case a of Acquired l \<Rightarrow> AcquiredLease l | Exists l \<Rightarrow> Held (ownership_of l))"

definition huddle_acquire where
  "huddle_acquire R hx ttl c s owner n r =
     (case dir_acquire R hx ttl c s owner HuddleControl n r of
        (res, r') \<Rightarrow> (as_transport (map_sum id acquire_outcome_of res), r'))"

definition renew_outcome_of :: "renew_result \<Rightarrow> huddle_renew_outcome" where
  "renew_outcome_of a = (case a of Renewed l \<Rightarrow> HuddleRenewed l | Lost _ _ \<Rightarrow> HuddleLost)"

definition huddle_renew where
  "huddle_renew R hx ttl l n r =
     (case dir_renew R hx ttl l n r of
        (res, r') \<Rightarrow> (as_transport (map_sum id renew_outcome_of res), r'))"

definition huddle_release where
  "huddle_release R hx l n r =
     (case dir_release R hx l n r of
        (res, r') \<Rightarrow> (as_transport (map_sum id
           (\<lambda>a. case a of Released _ \<Rightarrow> HuddleReleased | NotOwner _ _ \<Rightarrow> HuddleNotOwner) res), r'))"

definition session_directory :: "'r redis \<Rightarrow> (string \<Rightarrow> runtime_id option) \<Rightarrow> nat \<Rightarrow> 'r huddle_directory" where
  "session_directory R hx ttl =
     \<lparr>hd_owner_of = huddle_owner_of R hx, hd_acquire = huddle_acquire R hx ttl, hd_renew = huddle_renew R hx ttl,
      hd_release = huddle_release R hx, hd_validate = validate_fenced_header R hx\<rparr>"

section \<open>Resolving a join\<close>

datatype join_outcome = LocalOwner nat | RemoteOwner runtime_id nat

definition join_fenced_header :: "join_outcome \<Rightarrow> uuid \<Rightarrow> runtime_id \<Rightarrow> fenced_header" where
  "join_fenced_header out s me = (case out of
      LocalOwner g \<Rightarrow> \<lparr>fh_session = s, fh_generation = g, fh_owner = me\<rparr>
    | RemoteOwner o' g \<Rightarrow> \<lparr>fh_session = s, fh_generation = g, fh_owner = o'\<rparr>)"

record resolved_join =
  rj_outcome :: join_outcome
  rj_acquired :: "session_lease option"

type_synonym 'op schedule = "nat \<Rightarrow> net \<times> 'op list"

text \<open>What the others do before call \<open>i\<close> of the schedule.\<close>

definition others :: "('d \<Rightarrow> 'op \<Rightarrow> 'd) \<Rightarrow> 'op schedule \<Rightarrow> nat \<Rightarrow> 'd \<Rightarrow> 'd" where
  "others env q i d = foldl env d (snd (q i))"

definition route_to ::
  "'d huddle_directory \<Rightarrow> ('d \<Rightarrow> 'op \<Rightarrow> 'd) \<Rightarrow> uuid \<Rightarrow> uuid \<Rightarrow> runtime_id \<Rightarrow> 'op schedule \<Rightarrow> ownership \<Rightarrow> 'd \<Rightarrow>
   (relay_mesh_error + resolved_join) \<times> 'd" where
  "route_to D env c s me q ow d =
     (if ow_owner ow = me
      then (Inr \<lparr>rj_outcome = LocalOwner (ow_generation ow), rj_acquired = None\<rparr>, d)
      else (let f = \<lparr>fh_session = s, fh_generation = ow_generation ow, fh_owner = ow_owner ow\<rparr>;
                d' = others env q 2 d
            in case hd_validate D c f (fst (q 2)) d' of
                 Inl e \<Rightarrow> (Inl e, d')
               | Inr _ \<Rightarrow> (Inr \<lparr>rj_outcome = RemoteOwner (ow_owner ow) (ow_generation ow), rj_acquired = None\<rparr>, d')))"

definition resolve_join ::
  "'d huddle_directory \<Rightarrow> ('d \<Rightarrow> 'op \<Rightarrow> 'd) \<Rightarrow> uuid \<Rightarrow> uuid \<Rightarrow> runtime_id \<Rightarrow> 'op schedule \<Rightarrow> 'd \<Rightarrow>
   (relay_mesh_error + resolved_join) \<times> 'd" where
  "resolve_join D env c s me q d =
     (let d1 = others env q 0 d
      in case hd_owner_of D c s (fst (q 0)) d1 of
           Inl e \<Rightarrow> (Inl e, d1)
         | Inr (Some ow) \<Rightarrow> route_to D env c s me q ow d1
         | Inr None \<Rightarrow>
             (case hd_acquire D c s me (fst (q 1)) (others env q 1 d1) of
                (Inl e, d2) \<Rightarrow> (Inl e, d2)
              | (Inr (AcquiredLease l), d2) \<Rightarrow>
                  (Inr \<lparr>rj_outcome = LocalOwner (sl_generation l), rj_acquired = Some l\<rparr>, d2)
              | (Inr (Held ow), d2) \<Rightarrow> route_to D env c s me q ow d2))"

definition OWNER_READY_MAX_ATTEMPTS :: nat where "OWNER_READY_MAX_ATTEMPTS = 25"

text \<open>Attempt \<open>j\<close> runs under schedule \<open>q j\<close>; \<open>live j\<close> says whether \<open>lost_for\<close> then finds an entry.\<close>

fun owner_ready_loop where
  "owner_ready_loop D env c s me q live 0 j d =
     (Inl (MeshTransport ''huddle owner not ready for session ''), d)"
| "owner_ready_loop D env c s me q live (Suc k) j d =
     (case resolve_join D env c s me (q j) d of
        (Inl e, d') \<Rightarrow> (Inl e, d')
      | (Inr res, d') \<Rightarrow>
          (case (rj_outcome res, rj_acquired res) of
             (LocalOwner _, None) \<Rightarrow>
               if live j then (Inr res, d') else owner_ready_loop D env c s me q live k (Suc j) d'
           | _ \<Rightarrow> (Inr res, d')))"

definition resolve_join_owner_ready ::
  "'d huddle_directory \<Rightarrow> ('d \<Rightarrow> 'op \<Rightarrow> 'd) \<Rightarrow> uuid \<Rightarrow> uuid \<Rightarrow> runtime_id \<Rightarrow> (nat \<Rightarrow> 'op schedule) \<Rightarrow> (nat \<Rightarrow> bool) \<Rightarrow>
   'd \<Rightarrow> (relay_mesh_error + resolved_join) \<times> 'd" where
  "resolve_join_owner_ready D env c s me q live d =
     owner_ready_loop D env c s me q live OWNER_READY_MAX_ATTEMPTS 0 d"

section \<open>The renewer\<close>

text \<open>
  The renewal task selects between the caller's cancellation and its interval; each event comes
  after the directory operations of others. It ends with the release of the lease, under the network
  argument \<open>n\<close>. The result is \<open>None\<close> while the task is running, and whether \<open>lost\<close> was cancelled once it
  has ended, with the directory it leaves.
\<close>

datatype 'op renewer_event = CallerCancel "'op list" | Tick net "'op list"

definition finish_renewer ::
  "'d huddle_directory \<Rightarrow> session_lease \<Rightarrow> net \<Rightarrow> bool \<Rightarrow> bool \<Rightarrow> 'd \<Rightarrow> bool \<times> 'd" where
  "finish_renewer D l n caller_cancelled lost d =
     (case hd_release D l n d of
        (Inr HuddleReleased, d') \<Rightarrow> (lost, d')
      | (Inr HuddleNotOwner, d') \<Rightarrow> (True, d')
      | (Inl _, d') \<Rightarrow> (if caller_cancelled then lost else True, d'))"

fun run_renewer ::
  "'d huddle_directory \<Rightarrow> ('d \<Rightarrow> 'op \<Rightarrow> 'd) \<Rightarrow> session_lease \<Rightarrow> net \<Rightarrow> 'op renewer_event list \<Rightarrow> 'd \<Rightarrow> bool option \<times> 'd" where
  "run_renewer D env l n [] d = (None, d)"
| "run_renewer D env l n (CallerCancel ops # evs) d =
     apfst Some (finish_renewer D l n True False (foldl env d ops))"
| "run_renewer D env l n (Tick m ops # evs) d =
     (case hd_renew D l m (foldl env d ops) of
        (Inr (HuddleRenewed _), d') \<Rightarrow> run_renewer D env l n evs d'
      | (_, d') \<Rightarrow> apfst Some (finish_renewer D l n False True d'))"

section \<open>The law of the directory\<close>

text \<open>
  What a join relies on: an answer of the directory is true when it is given. \<open>holder\<close> is the live
  owner and generation of a session; \<open>dinv k\<close> is the directory's invariant with room for \<open>k\<close> more
  operations.
\<close>

definition schedule_ok :: "('op \<Rightarrow> bool) \<Rightarrow> 'op schedule \<Rightarrow> bool" where
  "schedule_ok op_ok q \<longleftrightarrow> (\<forall>i<3. list_all op_ok (snd (q i)))"

text \<open>The directory operations of one join attempt, its own and those of the others.\<close>

definition schedule_cost :: "'op schedule \<Rightarrow> nat" where
  "schedule_cost q = Suc (\<Sum>i<3. length (snd (q i)))"

locale lease_directory =
  fixes D :: "'d huddle_directory"
    and env :: "'d \<Rightarrow> 'op \<Rightarrow> 'd"
    and op_ok :: "'op \<Rightarrow> bool"
    and dinv :: "uuid \<Rightarrow> uuid \<Rightarrow> nat \<Rightarrow> 'd \<Rightarrow> bool"
    and holder :: "uuid \<Rightarrow> uuid \<Rightarrow> 'd \<Rightarrow> (runtime_id \<times> nat) option"
    and runtime_ok :: "runtime_id \<Rightarrow> bool"
  assumes env_inv: "dinv c s (Suc k) d \<Longrightarrow> op_ok a \<Longrightarrow> dinv c s k (env d a)"
    and owner_of_true: "dinv c s k d \<Longrightarrow> hd_owner_of D c s n d = Inr x \<Longrightarrow>
      map_option (\<lambda>ow. (ow_owner ow, ow_generation ow)) x = holder c s d"
    and acquire_inv: "dinv c s (Suc k) d \<Longrightarrow> runtime_ok me \<Longrightarrow> dinv c s k (snd (hd_acquire D c s me n d))"
    and acquire_takes: "dinv c s (Suc k) d \<Longrightarrow> runtime_ok me \<Longrightarrow>
      hd_acquire D c s me n d = (Inr (AcquiredLease l), d') \<Longrightarrow>
      holder c s d = None \<and> holder c s d' = Some (me, sl_generation l)"
    and acquire_held: "dinv c s (Suc k) d \<Longrightarrow> runtime_ok me \<Longrightarrow>
      hd_acquire D c s me n d = (Inr (Held ow), d') \<Longrightarrow> holder c s d' = Some (ow_owner ow, ow_generation ow)"
    and validate_true: "dinv c (fh_session f) k d \<Longrightarrow> hd_validate D c f n d = Inr u \<Longrightarrow>
      holder c (fh_session f) d = Some (fh_owner f, fh_generation f)"
    and inv_less: "dinv c s k d \<Longrightarrow> j \<le> k \<Longrightarrow> dinv c s j d"
begin

lemma others_inv:
  "dinv c s (k + length ops) d \<Longrightarrow> list_all op_ok ops \<Longrightarrow> dinv c s k (foldl env d ops)"
  by (induction ops arbitrary: d) (auto intro: env_inv)

lemma route_true:
  assumes "dinv c s (k + length (snd (q 2))) d" "list_all op_ok (snd (q 2))"
    "holder c s d = Some (ow_owner ow, ow_generation ow)"
    "route_to D env c s me q ow d = (Inr res, d')"
  shows "holder c s d' = Some (fh_owner (join_fenced_header (rj_outcome res) s me),
                               fh_generation (join_fenced_header (rj_outcome res) s me)) \<and>
    rj_acquired res = None \<and> dinv c s k d'"
proof (cases "ow_owner ow = me")
  case True
  then show ?thesis using assms inv_less [OF assms(1)] by (auto simp: route_to_def join_fenced_header_def)
next
  case False
  let ?f = "\<lparr>fh_session = s, fh_generation = ow_generation ow, fh_owner = ow_owner ow\<rparr>"
  have "dinv c s k (others env q 2 d)" using others_inv assms(1,2) by (simp add: others_def)
  then show ?thesis using False assms(4) validate_true [of c ?f k "others env q 2 d" "fst (q 2)"]
    by (auto simp: route_to_def Let_def join_fenced_header_def split: sum.splits)
qed

lemma resolve_true:
  assumes inv: "dinv c s (k + schedule_cost q) d" and q: "schedule_ok op_ok q" and me: "runtime_ok me"
    and run: "resolve_join D env c s me q d = (Inr res, d')"
  shows "holder c s d' = Some (fh_owner (join_fenced_header (rj_outcome res) s me),
                               fh_generation (join_fenced_header (rj_outcome res) s me)) \<and> dinv c s k d'"
proof -
  let ?n = "\<lambda>i. length (snd (q i))"
  have sum: "schedule_cost q = Suc (?n 0 + ?n 1 + ?n 2)" by (simp add: schedule_cost_def numeral_3_eq_3 numeral_2_eq_2)
  have ok: "list_all op_ok (snd (q 0))" "list_all op_ok (snd (q 1))" "list_all op_ok (snd (q 2))"
    using q by (simp_all add: schedule_ok_def)
  let ?d1 = "others env q 0 d"
  have d1: "dinv c s (k + Suc (?n 1 + ?n 2)) ?d1"
    using others_inv [of c s "k + Suc (?n 1 + ?n 2)" "snd (q 0)" d] inv ok(1)
    by (simp add: others_def sum ac_simps)
  obtain x where x: "hd_owner_of D c s (fst (q 0)) ?d1 = Inr x"
    using run by (auto simp: resolve_join_def Let_def split: sum.splits)
  show ?thesis
  proof (cases x)
    case (Some ow)
    moreover have "holder c s ?d1 = Some (ow_owner ow, ow_generation ow)"
      using owner_of_true [OF d1 x] Some by simp
    moreover have "dinv c s (k + ?n 2) ?d1" using inv_less [OF d1] by simp
    ultimately show ?thesis using run x route_true [of c s k q, OF _ ok(3)] by (auto simp: resolve_join_def Let_def)
  next
    case None
    let ?d2 = "others env q 1 ?d1"
    have d2: "dinv c s (Suc (k + ?n 2)) ?d2"
      using others_inv [of c s "Suc (k + ?n 2)" "snd (q 1)" ?d1] d1 ok(2) by (simp add: others_def ac_simps)
    obtain a d3 where a: "hd_acquire D c s me (fst (q 1)) ?d2 = (Inr a, d3)"
      using run x None by (auto simp: resolve_join_def Let_def split: sum.splits prod.splits)
    have d3: "dinv c s (k + ?n 2) d3" using acquire_inv [OF d2 me, of "fst (q 1)"] a by simp
    show ?thesis
    proof (cases a)
      case (AcquiredLease l)
      then show ?thesis
        using run x None a acquire_takes [OF d2 me, of "fst (q 1)" l d3] inv_less [OF d3]
        by (auto simp: resolve_join_def Let_def join_fenced_header_def)
    next
      case (Held ow)
      then show ?thesis
        using run x None a acquire_held [OF d2 me, of "fst (q 1)" ow d3] route_true [of c s k q, OF d3 ok(3)]
        by (auto simp: resolve_join_def Let_def)
    qed
  qed
qed

text \<open>A lease that is returned was taken by this call, and is the live one.\<close>

lemma resolve_acquired:
  assumes inv: "dinv c s (k + schedule_cost q) d" and q: "schedule_ok op_ok q" and me: "runtime_ok me"
    and run: "resolve_join D env c s me q d = (Inr res, d')" and got: "rj_acquired res = Some l"
  shows "rj_outcome res = LocalOwner (sl_generation l) \<and> holder c s d' = Some (me, sl_generation l)"
proof -
  have "rj_outcome res = LocalOwner (sl_generation l)"
    using run got
    by (auto simp: resolve_join_def route_to_def Let_def split: sum.splits prod.splits option.splits
        acquire_outcome.splits if_splits)
  with resolve_true [OF inv q me run] show ?thesis by (simp add: join_fenced_header_def)
qed

lemma owner_ready_true:
  assumes "dinv c s (k + (\<Sum>i<m. schedule_cost (q (j + i)))) d"
    and "\<forall>i<m. schedule_ok op_ok (q (j + i))" and me: "runtime_ok me"
    and "owner_ready_loop D env c s me q live m j d = (Inr res, d')"
  shows "holder c s d' = Some (fh_owner (join_fenced_header (rj_outcome res) s me),
                               fh_generation (join_fenced_header (rj_outcome res) s me))"
  using assms(1,2,4)
proof (induction m arbitrary: j d)
  case (Suc m)
  let ?cost = "\<lambda>i. schedule_cost (q (j + i))"
  let ?rest = "(\<Sum>i<m. schedule_cost (q (Suc j + i)))"
  have "(\<Sum>i<Suc m. ?cost i) = ?cost 0 + ?rest"
    by (subst sum.lessThan_Suc_shift) simp
  then have inv: "dinv c s ((k + ?rest) + schedule_cost (q j)) d"
    using Suc.prems(1) by (simp add: ac_simps)
  have q: "schedule_ok op_ok (q j)" and qs: "\<forall>i<m. schedule_ok op_ok (q (Suc j + i))"
    using Suc.prems(2) by (auto dest: spec [of _ 0] spec [of _ "Suc _"])
  obtain r1 d1 where r: "resolve_join D env c s me (q j) d = (Inr r1, d1)"
    using Suc.prems(3) by (auto split: sum.splits prod.splits)
  note t = resolve_true [OF inv q me r]
  show ?case
  proof (cases "res = r1 \<and> d' = d1")
    case False
    then have "owner_ready_loop D env c s me q live m (Suc j) d1 = (Inr res, d')"
      using Suc.prems(3) r by (auto split: join_outcome.splits option.splits if_splits)
    then show ?thesis using Suc.IH [of "Suc j" d1] t qs by simp
  qed (use t in simp)
qed simp

end

text \<open>The reuse arm is never taken without a live registry entry.\<close>

lemma owner_ready_live:
  "owner_ready_loop D env c s me q live m j d = (Inr res, d') \<Longrightarrow>
   rj_acquired res \<noteq> None \<or> (\<exists>o' g. rj_outcome res = RemoteOwner o' g) \<or> (\<exists>i<m. live (j + i))"
proof (induction m arbitrary: j d)
  case (Suc m)
  then obtain r1 d1 where r: "resolve_join D env c s me (q j) d = (Inr r1, d1)"
    by (auto split: sum.splits prod.splits)
  show ?case
  proof (cases "(\<exists>g. rj_outcome r1 = LocalOwner g) \<and> rj_acquired r1 = None \<and> \<not> live j")
    case True
    then have "owner_ready_loop D env c s me q live m (Suc j) d1 = (Inr res, d')"
      using Suc.prems r by auto
    from Suc.IH [OF this] show ?thesis by (auto intro: exI [of _ "Suc _"])
  next
    case False
    then show ?thesis using Suc.prems r
      by (auto split: join_outcome.splits option.splits if_splits)
  qed
qed simp

section \<open>The session directory keeps the law\<close>

definition lease_inv :: "'r redis \<Rightarrow> (string \<Rightarrow> runtime_id option) \<Rightarrow> uuid \<Rightarrow> uuid \<Rightarrow> nat \<Rightarrow> 'r \<Rightarrow> bool" where
  "lease_inv R hx c s k r \<longleftrightarrow>
     redis_ok R \<and> hex_ok hx \<and> id_ok c \<and> (\<exists>e. epoch_is R c s r e \<and> fst e + k < 10 ^ 14)"

definition lease_holder ::
  "'r redis \<Rightarrow> (string \<Rightarrow> runtime_id option) \<Rightarrow> uuid \<Rightarrow> uuid \<Rightarrow> 'r \<Rightarrow> (runtime_id \<times> nat) option" where
  "lease_holder R hx c s r =
     (case rd_get R (sk_lease (session_keys_new c s)) r of
        None \<Rightarrow> None
      | Some v \<Rightarrow> (case parse_lease hx c s v of Inl _ \<Rightarrow> None | Inr l \<Rightarrow> Some (sl_owner l, sl_generation l)))"

lemma lease_holder_epoch:
  assumes "hex_ok hx" "epoch_is R c s r e" "fst e < 10 ^ 14"
  shows "lease_holder R hx c s r = map_option (\<lambda>(o', p). (o', fst e)) (snd e)"
  using assms(2) bound_U64 [OF assms(3)] parse_lease_value [OF assms(1)]
  by (auto simp: lease_holder_def epoch_is_def Let_def split: option.splits)

lemma as_transport_Inr: "as_transport x = Inr a \<longleftrightarrow> x = Inr a"
  by (auto simp: as_transport_def split: sum.splits)

lemma map_sum_Inr: "map_sum id f x = Inr b \<longleftrightarrow> (\<exists>a. x = Inr a \<and> b = f a)"
  by (cases x) auto

lemma outcome_of_simps [simp]:
  "AcquiredLease l = acquire_outcome_of a \<longleftrightarrow> a = Acquired l"
  "Held ow = acquire_outcome_of a \<longleftrightarrow> (\<exists>l. a = Exists l \<and> ow = ownership_of l)"
  "HuddleRenewed l = renew_outcome_of b \<longleftrightarrow> b = Renewed l"
  by (auto simp: acquire_outcome_of_def renew_outcome_of_def split: acquire_result.splits renew_result.splits)

lemma lease_step_inv:
  assumes "lease_inv R hx c s (Suc k) r" "dir_op_ok a"
  shows "lease_inv R hx c s k (dir_step R hx ttl r a)"
proof -
  obtain e where e: "epoch_is R c s r e" "fst e + Suc k < 10 ^ 14" and ok: "redis_ok R" "hex_ok hx" "id_ok c"
    using assms(1) by (auto simp: lease_inv_def)
  obtain e' where "epoch_is R c s (dir_step R hx ttl r a) e'" "epoch_step e e'"
    using dir_step_refines [OF ok(1) e(1) _ ok(3) assms(2), of hx ttl] e(2) by auto
  with epoch_step_counter [of e e'] e(2) ok show ?thesis unfolding lease_inv_def by fastforce
qed

lemma dir_lookup_answers: "dir_lookup R hx c s n r = Inr x \<Longrightarrow> n = NetOk"
  by (cases n) (auto simp: dir_lookup_def redis_get_def invoke_def)

lemma dir_acquire_answers: "dir_acquire R hx ttl c s me p n r = (Inr x, r') \<Longrightarrow> n = NetOk \<and> (\<exists>ms. ttl_ms ttl = Inr ms)"
  by (cases n; cases "ttl_ms ttl") (auto simp: dir_acquire_def invoke_def)

lemma dir_acquire_Exists:
  assumes "redis_ok R" "hex_ok hx" "epoch_is R c s r e" "fst e + 1 < 10 ^ 14" "is_lower_hex 64 me"
    "dir_acquire R hx ttl c s me p n r = (Inr (Exists l), r')"
  shows "r' = r \<and> holder_lease c s e = Some l"
proof -
  obtain ms where n: "n = NetOk" and ms: "ttl_ms ttl = Inr ms" using dir_acquire_answers [OF assms(6)] by blast
  obtain k h where e: "e = (k, h)" by fastforce
  show ?thesis
  proof (cases h)
    case None
    then show ?thesis using dir_acquire_taken [OF assms(1,2) _ _ assms(5) ms, of c s r k p] assms(3,4,6) e n by auto
  next
    case (Some x)
    then show ?thesis
      using dir_acquire_exists [OF assms(2) _ _ ms, of R c s r k "fst x" "snd x" me p] assms(3,4,6) n e
      by (auto simp: holder_lease_def split_beta)
  qed
qed

interpretation leases: lease_directory "session_directory R hx ttl" "dir_step R hx ttl" dir_op_ok
  "lease_inv R hx" "lease_holder R hx" "is_lower_hex 64"
proof
  fix c s k r and a :: dir_op
  assume "lease_inv R hx c s (Suc k) r" "dir_op_ok a"
  then show "lease_inv R hx c s k (dir_step R hx ttl r a)" by (rule lease_step_inv)
next
  fix c s k r n x
  assume inv: "lease_inv R hx c s k r" and x: "hd_owner_of (session_directory R hx ttl) c s n r = Inr x"
  obtain e where e: "epoch_is R c s r e" "fst e + k < 10 ^ 14" and ok: "redis_ok R" "hex_ok hx" "id_ok c"
    using inv by (auto simp: lease_inv_def)
  obtain y where y: "dir_lookup R hx c s n r = Inr y" "x = map_option ownership_of y"
    using x by (auto simp: session_directory_def huddle_owner_of_def as_transport_Inr map_sum_Inr)
  then have "y = holder_lease c s e"
    using dir_lookup_answers [OF y(1)] dir_lookup_epoch [OF ok(2) e(1)] e(2) by simp
  then show "map_option (\<lambda>ow. (ow_owner ow, ow_generation ow)) x = lease_holder R hx c s r"
    using y(2) lease_holder_epoch [OF ok(2) e(1)] e(2)
    by (cases "snd e") (auto simp: holder_lease_def ownership_of_def)
next
  fix c s k r me n
  assume inv: "lease_inv R hx c s (Suc k) r" and me: "is_lower_hex 64 me"
  then have "lease_inv R hx c s k (dir_step R hx ttl r (DAcquire c s me HuddleControl n))"
    by (intro lease_step_inv) (auto simp: lease_inv_def)
  then show "lease_inv R hx c s k (snd (hd_acquire (session_directory R hx ttl) c s me n r))"
    by (simp add: session_directory_def huddle_acquire_def split_beta)
next
  fix c s k r me n l r'
  assume inv: "lease_inv R hx c s (Suc k) r" and me: "is_lower_hex 64 me"
    and run: "hd_acquire (session_directory R hx ttl) c s me n r = (Inr (AcquiredLease l), r')"
  obtain e where e: "epoch_is R c s r e" "fst e + Suc k < 10 ^ 14" and ok: "redis_ok R" "hex_ok hx" "id_ok c"
    using inv by (auto simp: lease_inv_def)
  have "dir_acquire R hx ttl c s me HuddleControl n r = (Inr (Acquired l), r')"
    using run by (auto simp: session_directory_def huddle_acquire_def as_transport_Inr map_sum_Inr
        split: prod.splits)
  from dir_acquire_Acquired [OF ok(1,2) e(1) _ me this]
  show "lease_holder R hx c s r = None \<and> lease_holder R hx c s r' = Some (me, sl_generation l)"
    using e lease_holder_epoch [OF ok(2)] by (auto simp: lease_holder_epoch [OF ok(2)])
next
  fix c s k r me n ow r'
  assume inv: "lease_inv R hx c s (Suc k) r" and me: "is_lower_hex 64 me"
    and run: "hd_acquire (session_directory R hx ttl) c s me n r = (Inr (Held ow), r')"
  obtain e where e: "epoch_is R c s r e" "fst e + Suc k < 10 ^ 14" and ok: "redis_ok R" "hex_ok hx" "id_ok c"
    using inv by (auto simp: lease_inv_def)
  obtain l where l: "dir_acquire R hx ttl c s me HuddleControl n r = (Inr (Exists l), r')" "ow = ownership_of l"
    using run by (auto simp: session_directory_def huddle_acquire_def as_transport_Inr map_sum_Inr
        split: prod.splits)
  from dir_acquire_Exists [OF ok(1,2) e(1) _ me l(1)]
  show "lease_holder R hx c s r' = Some (ow_owner ow, ow_generation ow)"
    using e l(2) lease_holder_epoch [OF ok(2) e(1)] by (auto simp: holder_lease_def ownership_of_def)
next
  fix c f k r n u
  assume inv: "lease_inv R hx c (fh_session f) k r" and v: "hd_validate (session_directory R hx ttl) c f n r = Inr u"
  obtain e where e: "epoch_is R c (fh_session f) r e" "fst e + k < 10 ^ 14" and ok: "redis_ok R" "hex_ok hx" "id_ok c"
    using inv by (auto simp: lease_inv_def)
  have v: "validate_fenced_header R hx c f n r = Inr ()" using v by (simp add: session_directory_def)
  then show "lease_holder R hx c (fh_session f) r = Some (fh_owner f, fh_generation f)"
    using validate_needs_answer [OF v] validate_names_holder [OF ok(2) e(1)] lease_holder_epoch [OF ok(2) e(1)] e(2)
    by auto
next
  fix c s k r j
  assume "lease_inv R hx c s k r" "j \<le> k"
  then show "lease_inv R hx c s j r" unfolding lease_inv_def by fastforce
qed

text \<open>
  C14: The join decision. Whatever the other relays and the network do between its calls, a join that
  succeeds names the owner and generation that the directory holds at its last call, and it
  admits a client as owner only with a fresh lease or a live registry entry.
\<close>

theorem join_resolves_to_live_owner:
  assumes "lease_inv R hx c s (\<Sum>i<OWNER_READY_MAX_ATTEMPTS. schedule_cost (q i)) r"
    "\<forall>i<OWNER_READY_MAX_ATTEMPTS. schedule_ok dir_op_ok (q i)" "is_lower_hex 64 me"
    "resolve_join_owner_ready (session_directory R hx ttl) (dir_step R hx ttl) c s me q live r = (Inr res, r')"
  shows "lease_holder R hx c s r' = Some (fh_owner (join_fenced_header (rj_outcome res) s me),
                                          fh_generation (join_fenced_header (rj_outcome res) s me)) \<and>
    (rj_acquired res \<noteq> None \<or> (\<exists>o' g. rj_outcome res = RemoteOwner o' g) \<or>
     (\<exists>j<OWNER_READY_MAX_ATTEMPTS. live j))"
proof -
  have run: "owner_ready_loop (session_directory R hx ttl) (dir_step R hx ttl) c s me q live OWNER_READY_MAX_ATTEMPTS 0 r
      = (Inr res, r')"
    using assms(4) by (simp add: resolve_join_owner_ready_def)
  from leases.owner_ready_true [where k = 0 and j = 0, simplified, OF assms(1,2,3) run] owner_ready_live [OF run]
  show ?thesis by simp
qed

lemma owner_ready_first:
  "0 < m \<Longrightarrow> resolve_join D env c s me (q j) d = (Inr res, d') \<Longrightarrow> live j \<Longrightarrow>
   owner_ready_loop D env c s me q live m j d = (Inr res, d')"
  by (cases m) (auto split: join_outcome.splits option.splits)

text \<open>A client of the first relay joins again on it, and the lease is its own.\<close>

definition quiet :: "nat \<Rightarrow> dir_op schedule" where
  "quiet i j = (NetOk, [])"

theorem join_resolves_to_live_owner_witness:
  "lease_holder demo_redis demo_hex ''c'' ''s'' demo_after = Some (demo_owner, 1)"
proof -
  have inv: "lease_inv demo_redis demo_hex ''c'' ''s'' (\<Sum>i<OWNER_READY_MAX_ATTEMPTS. schedule_cost (quiet i)) demo_after"
    using demo_epoch_first demo_redis_ok demo_hex_ok demo_ids
    by (auto simp: lease_inv_def OWNER_READY_MAX_ATTEMPTS_def schedule_cost_def quiet_def
        intro!: exI [of _ "1 :: nat"] exI [of _ "Some (demo_owner, HuddleControl)"])
  have "dir_lookup demo_redis demo_hex ''c'' ''s'' NetOk demo_after = Inr (Some (demo_lease demo_owner 1))"
    using dir_lookup_epoch [OF demo_hex_ok demo_epoch_first] by (simp add: holder_lease_def demo_lease_def)
  then have "resolve_join (session_directory demo_redis demo_hex 30000) (dir_step demo_redis demo_hex 30000)
      ''c'' ''s'' demo_owner (quiet 0) demo_after = (Inr \<lparr>rj_outcome = LocalOwner 1, rj_acquired = None\<rparr>, demo_after)"
    by (simp add: resolve_join_def others_def quiet_def session_directory_def huddle_owner_of_def as_transport_def
        ownership_of_def route_to_def demo_lease_def)
  then have run: "resolve_join_owner_ready (session_directory demo_redis demo_hex 30000)
      (dir_step demo_redis demo_hex 30000) ''c'' ''s'' demo_owner quiet (\<lambda>_. True) demo_after
      = (Inr \<lparr>rj_outcome = LocalOwner 1, rj_acquired = None\<rparr>, demo_after)"
    unfolding resolve_join_owner_ready_def by (intro owner_ready_first) (simp_all add: OWNER_READY_MAX_ATTEMPTS_def)
  show ?thesis
    using join_resolves_to_live_owner [OF inv _ demo_ids(1) run]
    by (simp add: schedule_ok_def quiet_def join_fenced_header_def)
qed

text \<open>Nobody installs an entry and the lease stays: the loop gives up after its last attempt.\<close>

lemma owner_ready_exhausts:
  "\<forall>i<m. resolve_join D env c s me (q (j + i)) d = (Inr \<lparr>rj_outcome = LocalOwner g, rj_acquired = None\<rparr>, d) \<and>
         \<not> live (j + i) \<Longrightarrow>
   owner_ready_loop D env c s me q live m j d = (Inl (MeshTransport ''huddle owner not ready for session ''), d)"
proof (induction m arbitrary: j)
  case (Suc m)
  have "owner_ready_loop D env c s me q live m (Suc j) d = (Inl (MeshTransport ''huddle owner not ready for session ''), d)"
    using Suc.prems by (intro Suc.IH) (auto dest: spec [of _ "Suc _"])
  then show ?case using Suc.prems [rule_format, of 0] by simp
qed simp

section \<open>Loss of ownership is never silent\<close>

lemma renewed_is_live:
  assumes "lease_inv R hx (sl_community l) (sl_session l) (Suc k) r"
    "hd_renew (session_directory R hx ttl) l n r = (Inr (HuddleRenewed l'), r')"
  shows "lease_holder R hx (sl_community l) (sl_session l) r' = Some (sl_owner l, sl_generation l)"
proof -
  let ?c = "sl_community l" and ?s = "sl_session l"
  obtain e where e: "epoch_is R ?c ?s r e" "fst e + Suc k < 10 ^ 14" and ok: "redis_ok R" "hex_ok hx" "id_ok ?c"
    using assms(1) by (auto simp: lease_inv_def)
  obtain x where x: "dir_renew R hx ttl l n r = (Inr (Renewed x), r')"
    using assms(2) by (auto simp: session_directory_def huddle_renew_def as_transport_Inr map_sum_Inr
        split: prod.splits)
  then obtain ms where ms: "ttl_ms ttl = Inr ms" and n: "n = NetOk"
    by (cases n; cases "ttl_ms ttl") (auto simp: dir_renew_def invoke_def)
  have "e = (sl_generation l, snd e) \<and> (\<exists>p. snd e = Some (sl_owner l, p))"
    using dir_renew_result [OF ok(1,2) e(1) _ ms] e(2) x n
    by (cases e) (auto simp: Let_def holder_lease_def split: option.splits if_splits)
  moreover have "epoch_is R ?c ?s r' e"
    using renew_script_epoch [OF ok(1) ttl_ms_Inr [OF ms]] e(1) x ms n
      snd_dir_renew [of R hx ttl l n r] by simp
  ultimately show ?thesis using lease_holder_epoch [OF ok(2), of R ?c ?s r' e] e(2) by auto
qed

fun event_cost :: "'op renewer_event \<Rightarrow> nat" where
  "event_cost (CallerCancel ops) = length ops"
| "event_cost (Tick m ops) = Suc (length ops)"

fun is_tick :: "dir_op renewer_event \<Rightarrow> bool" where
  "is_tick (CallerCancel ops) = False"
| "is_tick (Tick m ops) = list_all dir_op_ok ops"

lemma finish_renewer_lost [simp]: "fst (finish_renewer D l n False True d) = True"
  by (auto simp: finish_renewer_def split: prod.splits sum.splits huddle_release_outcome.splits)

lemma run_renewer_lost:
  "hd_renew D l m (foldl env d ops) = (Inr HuddleLost, d') \<Longrightarrow>
   fst (run_renewer D env l n (Tick m ops # evs) d) = Some True"
  by simp

lemma renewer_ticks:
  assumes "lease_inv R hx (sl_community l) (sl_session l) (k + sum_list (map event_cost evs)) r"
    "list_all is_tick evs" "evs \<noteq> []"
  shows "(case run_renewer (session_directory R hx ttl) (dir_step R hx ttl) l n evs r of
      (None, r') \<Rightarrow> lease_holder R hx (sl_community l) (sl_session l) r' = Some (sl_owner l, sl_generation l)
    | (Some lost, r') \<Rightarrow> lost)"
  using assms
proof (induction evs arbitrary: r)
  case (Cons ev evs)
  let ?D = "session_directory R hx ttl" and ?env = "dir_step R hx ttl"
  let ?c = "sl_community l" and ?s = "sl_session l"
  obtain m ops where ev: "ev = Tick m ops" and ops: "list_all dir_op_ok ops"
    using Cons.prems(2) by (cases ev) auto
  let ?r1 = "foldl ?env r ops"
  have inv1: "lease_inv R hx ?c ?s (Suc (k + sum_list (map event_cost evs))) ?r1"
    using leases.others_inv [of R hx ?c ?s _ ops r ttl, OF _ ops] Cons.prems(1) ev by (simp add: ac_simps)
  obtain res r2 where r2: "hd_renew ?D l m ?r1 = (res, r2)" by fastforce
  show ?case
  proof (cases "\<exists>l'. res = Inr (HuddleRenewed l')")
    case True
    then obtain l' where res: "res = Inr (HuddleRenewed l')" by blast
    have "id_ok ?c" using inv1 by (simp add: lease_inv_def)
    then have "lease_inv R hx ?c ?s (k + sum_list (map event_cost evs)) (dir_step R hx ttl ?r1 (DRenew l m))"
      by (intro lease_step_inv [OF inv1]) simp
    then have inv2: "lease_inv R hx ?c ?s (k + sum_list (map event_cost evs)) r2"
      using r2 by (auto simp: session_directory_def huddle_renew_def split: prod.splits)
    have live: "lease_holder R hx ?c ?s r2 = Some (sl_owner l, sl_generation l)"
      using renewed_is_live [OF inv1] r2 res by simp
    show ?thesis
    proof (cases "evs = []")
      case True
      then show ?thesis using ev r2 res live by simp
    next
      case False
      then show ?thesis using Cons.IH [OF inv2] Cons.prems(2) ev r2 res by simp
    qed
  next
    case False
    then have "run_renewer ?D ?env l n (ev # evs) r = apfst Some (finish_renewer ?D l n False True r2)"
      using ev r2 by (auto split: sum.splits huddle_renew_outcome.splits)
    then show ?thesis by (simp add: apfst_def map_prod_def split_beta)
  qed
qed simp

text \<open>
  As long as nobody cancels it, the renewer has after every tick either seen the directory name its
  lease or signalled the loss, whatever the others and the network did.
\<close>

theorem ownership_loss_is_signalled:
  assumes "lease_inv R hx (sl_community l) (sl_session l) (sum_list (map event_cost evs)) r"
    "list_all is_tick evs" "evs \<noteq> []"
    "run_renewer (session_directory R hx ttl) (dir_step R hx ttl) l n evs r = (out, r')"
  shows "out = Some True \<or>
    out = None \<and> lease_holder R hx (sl_community l) (sl_session l) r' = Some (sl_owner l, sl_generation l)"
  using renewer_ticks [where k = 0, simplified, OF assms(1-3), of ttl n] assms(4)
  by (cases out) auto

definition demo_ticks :: "dir_op renewer_event list" where
  "demo_ticks = [Tick NetOk demo_takeover]"

theorem ownership_loss_is_signalled_witness:
  "fst (run_renewer (session_directory demo_redis demo_hex 30000) (dir_step demo_redis demo_hex 30000)
     (demo_lease demo_owner 1) NetOk demo_ticks demo_after) = Some True"
proof -
  let ?r1 = "dir_run demo_redis demo_hex 30000 demo_takeover demo_after"
  let ?run = "run_renewer (session_directory demo_redis demo_hex 30000) (dir_step demo_redis demo_hex 30000)
     (demo_lease demo_owner 1) NetOk demo_ticks demo_after"
  have "lease_inv demo_redis demo_hex ''c'' ''s'' (sum_list (map event_cost demo_ticks)) demo_after"
    using demo_epoch_first demo_redis_ok demo_hex_ok demo_ids
    by (auto simp: lease_inv_def demo_ticks_def demo_takeover_def
        intro!: exI [of _ "1 :: nat"] exI [of _ "Some (demo_owner, HuddleControl)"])
  moreover have "list_all is_tick demo_ticks"
    using demo_ids by (simp add: demo_ticks_def demo_takeover_def)
  ultimately have "fst ?run = Some True \<or> fst ?run = None"
    using ownership_loss_is_signalled [of demo_redis demo_hex "demo_lease demo_owner 1" demo_ticks demo_after 30000 NetOk
        "fst ?run" "snd ?run"] by (auto simp: demo_lease_def demo_ticks_def)
  moreover have "\<exists>cur g. fst (dir_renew demo_redis demo_hex 30000 (demo_lease demo_owner 1) NetOk ?r1) = Inr (Lost cur g)"
    using dir_renew_result [OF demo_redis_ok demo_hex_ok, of "demo_lease demo_owner 1" ?r1 "(2, Some (demo_rival, HuddleControl))"
        30000 30000] demo_epoch_rival demo_ttl
    by (simp add: demo_lease_def holder_lease_def)
  then obtain r2 where "hd_renew (session_directory demo_redis demo_hex 30000) (demo_lease demo_owner 1) NetOk ?r1
      = (Inr HuddleLost, r2)"
    by (cases "dir_renew demo_redis demo_hex 30000 (demo_lease demo_owner 1) NetOk ?r1")
      (auto simp: session_directory_def huddle_renew_def as_transport_def renew_outcome_of_def)
  then have "fst ?run \<noteq> None"
    by (simp add: demo_ticks_def run_renewer_lost dir_run_def)
  ultimately show ?thesis by blast
qed

section \<open>The rooms this relay owns\<close>

record owner_entry =
  oe_lost :: nat
  oe_draining :: nat
  oe_cancel :: nat
  oe_generation :: nat

record renewer =
  rn_lease :: session_lease
  rn_cancel :: nat
  rn_lost :: nat

record owner_registry =
  hr_entries :: "(uuid, owner_entry) hmap"
  hr_draining :: bool
  hr_cancelled :: "nat list"
  hr_fresh :: nat
  hr_renewers :: "renewer list"

record owner_signals =
  os_lost :: nat
  os_draining :: nat

definition owners_new :: owner_registry where
  "owners_new = \<lparr>hr_entries = [], hr_draining = False, hr_cancelled = [], hr_fresh = 0, hr_renewers = []\<rparr>"

definition new_token :: "owner_registry \<Rightarrow> nat \<times> owner_registry" where
  "new_token g = (hr_fresh g, g\<lparr>hr_fresh := hr_fresh g + 1\<rparr>)"

definition cancel_token :: "nat \<Rightarrow> owner_registry \<Rightarrow> owner_registry" where
  "cancel_token t g = g\<lparr>hr_cancelled := t # hr_cancelled g\<rparr>"

definition spawn_renewer :: "session_lease \<Rightarrow> nat \<Rightarrow> owner_registry \<Rightarrow> nat \<times> owner_registry" where
  "spawn_renewer l cancel g =
     (case new_token g of (lost, g1) \<Rightarrow>
        (lost, g1\<lparr>hr_renewers := hr_renewers g1 @ [\<lparr>rn_lease = l, rn_cancel = cancel, rn_lost = lost\<rparr>]\<rparr>))"

definition lost_for :: "uuid \<Rightarrow> owner_registry \<Rightarrow> nat option" where
  "lost_for s g = map_option oe_lost (hget (hr_entries g) s)"

definition drain_for :: "uuid \<Rightarrow> owner_registry \<Rightarrow> nat option" where
  "drain_for s g = map_option oe_draining (hget (hr_entries g) s)"

text \<open>A renewer that is cancelled from the start: it only releases the lease.\<close>

definition throw_away :: "session_lease \<Rightarrow> owner_registry \<Rightarrow> owner_registry" where
  "throw_away l g =
     (case new_token g of (cancel, g1) \<Rightarrow> snd (spawn_renewer l cancel (cancel_token cancel g1)))"

text \<open>The first check, and the registration proper up to the publication of the entry.\<close>

definition attach_refused :: "session_lease \<Rightarrow> owner_registry \<Rightarrow> owner_signals \<times> owner_registry" where
  "attach_refused l g =
     (case new_token (throw_away l g) of (draining, g1) \<Rightarrow>
        case new_token (cancel_token draining g1) of (lost, g2) \<Rightarrow>
          (\<lparr>os_lost = lost, os_draining = draining\<rparr>, g2))"

definition attach_insert :: "uuid \<Rightarrow> session_lease \<Rightarrow> owner_registry \<Rightarrow> owner_entry \<times> owner_registry" where
  "attach_insert s l g =
     (case new_token g of (cancel, g1) \<Rightarrow>
        case spawn_renewer l cancel g1 of (lost, g2) \<Rightarrow>
          case new_token g2 of (draining, g3) \<Rightarrow>
            let entry = \<lparr>oe_lost = lost, oe_draining = draining, oe_cancel = cancel, oe_generation = sl_generation l\<rparr>
            in (entry, g3\<lparr>hr_entries := hinsert s entry (hr_entries g3)\<rparr>))"

text \<open>\<open>remove_if\<close> on the generation, with the tokens the predicate cancels.\<close>

definition remove_if_generation ::
  "(owner_entry \<Rightarrow> owner_registry \<Rightarrow> owner_registry) \<Rightarrow> uuid \<Rightarrow> nat \<Rightarrow> owner_registry \<Rightarrow> bool \<times> owner_registry" where
  "remove_if_generation act s generation g =
     (case hget (hr_entries g) s of
        Some e \<Rightarrow> if oe_generation e = generation
                  then (True, (act e g)\<lparr>hr_entries := hremove s (hr_entries g)\<rparr>) else (False, g)
      | None \<Rightarrow> (False, g))"

definition cancel_both :: "owner_entry \<Rightarrow> owner_registry \<Rightarrow> owner_registry" where
  "cancel_both e g = cancel_token (oe_cancel e) (cancel_token (oe_draining e) g)"

definition attach_recheck :: "uuid \<Rightarrow> owner_entry \<Rightarrow> owner_registry \<Rightarrow> owner_signals \<times> owner_registry" where
  "attach_recheck s e g =
     (\<lparr>os_lost = oe_lost e, os_draining = oe_draining e\<rparr>,
      if hr_draining g
      then cancel_both e (snd (remove_if_generation cancel_both s (oe_generation e) g))
      else g)"

text \<open>
  The whole of \<open>attach_signals\<close>; between its accesses to the shared state the other threads run:
  \<open>i1\<close> after the first check, \<open>i2\<close> after the lookup, \<open>i3\<close> after the insertion.
\<close>

definition attach_signals ::
  "uuid \<Rightarrow> session_lease \<Rightarrow> (owner_registry \<Rightarrow> owner_registry) \<Rightarrow> (owner_registry \<Rightarrow> owner_registry) \<Rightarrow>
   (owner_registry \<Rightarrow> owner_registry) \<Rightarrow> owner_registry \<Rightarrow> owner_signals \<times> owner_registry" where
  "attach_signals s l i1 i2 i3 g =
     (if hr_draining g then attach_refused l g
      else let g1 = i1 g
           in case hget (hr_entries g1) s of
                Some e \<Rightarrow> (\<lparr>os_lost = oe_lost e, os_draining = oe_draining e\<rparr>, throw_away l g1)
              | None \<Rightarrow> (case attach_insert s l (i2 g1) of (e, g3) \<Rightarrow> attach_recheck s e (i3 g3)))"

definition attach ::
  "uuid \<Rightarrow> session_lease \<Rightarrow> (owner_registry \<Rightarrow> owner_registry) \<Rightarrow> (owner_registry \<Rightarrow> owner_registry) \<Rightarrow>
   (owner_registry \<Rightarrow> owner_registry) \<Rightarrow> owner_registry \<Rightarrow> nat \<times> owner_registry" where
  "attach s l i1 i2 i3 g = apfst os_lost (attach_signals s l i1 i2 i3 g)"

definition registry_release :: "uuid \<Rightarrow> nat \<Rightarrow> owner_registry \<Rightarrow> owner_registry" where
  "registry_release s generation g =
     snd (remove_if_generation (\<lambda>e. cancel_token (oe_cancel e)) s generation g)"

definition drain :: "uuid \<Rightarrow> nat \<Rightarrow> owner_registry \<Rightarrow> bool \<times> owner_registry" where
  "drain s generation g = remove_if_generation cancel_both s generation g"

fun drain_rooms :: "(uuid \<times> nat) list \<Rightarrow> owner_registry \<Rightarrow> nat \<times> owner_registry" where
  "drain_rooms [] g = (0, g)"
| "drain_rooms ((s, generation) # rooms) g =
     (case drain s generation g of (hit, g1) \<Rightarrow>
        case drain_rooms rooms g1 of (n, g2) \<Rightarrow> (if hit then n + 1 else n, g2))"

definition rooms_of :: "(uuid, owner_entry) hmap \<Rightarrow> (uuid \<times> nat) list" where
  "rooms_of m = map (\<lambda>(s, e). (s, oe_generation e)) m"

definition drain_all :: "owner_registry \<Rightarrow> nat \<times> owner_registry" where
  "drain_all g = (let g1 = g\<lparr>hr_draining := True\<rparr> in drain_rooms (rooms_of (hr_entries g1)) g1)"

lemma attach_alone_installs:
  assumes "\<not> hr_draining g" "hget (hr_entries g) s = None"
  shows "lost_for s (snd (attach_signals s l id id id g)) = Some (os_lost (fst (attach_signals s l id id id g)))"
  using assms
  by (simp add: attach_signals_def attach_insert_def new_token_def spawn_renewer_def attach_recheck_def lost_for_def Let_def)

section \<open>Registration against shutdown\<close>

text \<open>
  Any number of connections attach while the shutdown drains the registry. A step is one access to
  the shared state, and the pieces are those of \<open>attach_signals\<close>, \<open>drain_all\<close> and \<open>release\<close>. The
  iterator of \<open>drain_all\<close> reads one shard at a time.
\<close>

datatype attach_pc = AtStart | AtLookup | AtInsert | AtRecheck owner_entry | AtDone

datatype drain_pc =
    DrainIdle
  | Collecting nat "(uuid \<times> nat) list"
  | Emptying "(uuid \<times> nat) list"
  | Drained

record shutdown =
  sd_registry :: owner_registry
  sd_threads :: "(uuid \<times> session_lease \<times> attach_pc) list"
  sd_drain :: drain_pc

definition advance :: "nat \<Rightarrow> uuid \<Rightarrow> session_lease \<Rightarrow> attach_pc \<Rightarrow> owner_registry \<Rightarrow> shutdown \<Rightarrow> shutdown" where
  "advance i s l pc g st = st\<lparr>sd_registry := g, sd_threads := (sd_threads st)[i := (s, l, pc)]\<rparr>"

definition thread_at :: "shutdown \<Rightarrow> nat \<Rightarrow> uuid \<Rightarrow> session_lease \<Rightarrow> attach_pc \<Rightarrow> bool" where
  "thread_at st i s l pc \<longleftrightarrow> i < length (sd_threads st) \<and> sd_threads st ! i = (s, l, pc)"

inductive owner_step :: "(uuid \<Rightarrow> nat) \<Rightarrow> nat \<Rightarrow> shutdown \<Rightarrow> shutdown \<Rightarrow> bool" for shard shards where
  step_arrive: "owner_step shard shards st (st\<lparr>sd_threads := sd_threads st @ [(s, l, AtStart)]\<rparr>)"
| step_refuse: "thread_at st i s l AtStart \<Longrightarrow> hr_draining (sd_registry st) \<Longrightarrow>
    owner_step shard shards st (advance i s l AtDone (snd (attach_refused l (sd_registry st))) st)"
| step_check: "thread_at st i s l AtStart \<Longrightarrow> \<not> hr_draining (sd_registry st) \<Longrightarrow>
    owner_step shard shards st (advance i s l AtLookup (sd_registry st) st)"
| step_found: "thread_at st i s l AtLookup \<Longrightarrow> hget (hr_entries (sd_registry st)) s = Some e \<Longrightarrow>
    owner_step shard shards st (advance i s l AtDone (throw_away l (sd_registry st)) st)"
| step_absent: "thread_at st i s l AtLookup \<Longrightarrow> hget (hr_entries (sd_registry st)) s = None \<Longrightarrow>
    owner_step shard shards st (advance i s l AtInsert (sd_registry st) st)"
| step_insert: "thread_at st i s l AtInsert \<Longrightarrow> attach_insert s l (sd_registry st) = (e, g) \<Longrightarrow>
    owner_step shard shards st (advance i s l (AtRecheck e) g st)"
| step_recheck: "thread_at st i s l (AtRecheck e) \<Longrightarrow>
    owner_step shard shards st (advance i s l AtDone (snd (attach_recheck s e (sd_registry st))) st)"
| step_release: "owner_step shard shards st (st\<lparr>sd_registry := registry_release s generation (sd_registry st)\<rparr>)"
| step_drain: "sd_drain st = DrainIdle \<Longrightarrow>
    owner_step shard shards st (st\<lparr>sd_registry := (sd_registry st)\<lparr>hr_draining := True\<rparr>, sd_drain := Collecting 0 []\<rparr>)"
| step_shard: "sd_drain st = Collecting i acc \<Longrightarrow> i < shards \<Longrightarrow>
    owner_step shard shards st (st\<lparr>sd_drain := Collecting (Suc i)
      (acc @ filter (\<lambda>(s, _). shard s = i) (rooms_of (hr_entries (sd_registry st))))\<rparr>)"
| step_collected: "sd_drain st = Collecting shards acc \<Longrightarrow>
    owner_step shard shards st (st\<lparr>sd_drain := Emptying acc\<rparr>)"
| step_drain_room: "sd_drain st = Emptying ((s, generation) # rooms) \<Longrightarrow>
    owner_step shard shards st (st\<lparr>sd_registry := snd (drain s generation (sd_registry st)), sd_drain := Emptying rooms\<rparr>)"
| step_drained: "sd_drain st = Emptying [] \<Longrightarrow>
    owner_step shard shards st (st\<lparr>sd_drain := Drained\<rparr>)"

inductive_cases owner_step_elim: "owner_step shard shards st st'"

definition shutdown_start :: "shutdown \<Rightarrow> bool" where
  "shutdown_start st \<longleftrightarrow> sd_registry st = owners_new \<and> sd_threads st = [] \<and> sd_drain st = DrainIdle"

text \<open>An entry that the shutdown will not see belongs to a thread that still has to look again.\<close>

definition in_flight :: "shutdown \<Rightarrow> uuid \<Rightarrow> nat \<Rightarrow> bool" where
  "in_flight st s n \<longleftrightarrow> (\<exists>i l e. thread_at st i s l (AtRecheck e) \<and> oe_generation e = n)"

definition awaited :: "(uuid \<Rightarrow> nat) \<Rightarrow> drain_pc \<Rightarrow> uuid \<Rightarrow> nat \<Rightarrow> bool" where
  "awaited shard pc s n = (case pc of
      DrainIdle \<Rightarrow> True
    | Collecting i acc \<Rightarrow> i \<le> shard s \<or> (s, n) \<in> set acc
    | Emptying rooms \<Rightarrow> (s, n) \<in> set rooms
    | Drained \<Rightarrow> False)"

definition shutdown_inv :: "(uuid \<Rightarrow> nat) \<Rightarrow> shutdown \<Rightarrow> bool" where
  "shutdown_inv shard st \<longleftrightarrow>
     (sd_drain st \<noteq> DrainIdle \<longrightarrow> hr_draining (sd_registry st)) \<and>
     (\<forall>s e. hget (hr_entries (sd_registry st)) s = Some e \<longrightarrow>
        awaited shard (sd_drain st) s (oe_generation e) \<or> in_flight st s (oe_generation e))"

lemma registry_frame [simp]:
  "hr_entries (throw_away l g) = hr_entries g" "hr_draining (throw_away l g) = hr_draining g"
  "hr_entries (snd (attach_refused l g)) = hr_entries g" "hr_draining (snd (attach_refused l g)) = hr_draining g"
  "hr_entries (cancel_both e g) = hr_entries g" "hr_draining (cancel_both e g) = hr_draining g"
  "hr_entries (cancel_token t g) = hr_entries g" "hr_draining (cancel_token t g) = hr_draining g"
  by (simp_all add: throw_away_def attach_refused_def new_token_def spawn_renewer_def cancel_token_def cancel_both_def)

lemma attach_insert_entries:
  "attach_insert s l g = (e, g') \<Longrightarrow>
   hr_entries g' = hinsert s e (hr_entries g) \<and> hr_draining g' = hr_draining g"
  by (auto simp: attach_insert_def new_token_def spawn_renewer_def Let_def)

lemma remove_if_entries:
  assumes "\<And>e g. hr_draining (act e g) = hr_draining g"
  shows "hr_draining (snd (remove_if_generation act s n g)) = hr_draining g"
    and "hget (hr_entries (snd (remove_if_generation act s n g))) k =
      (if k = s \<and> (\<exists>e. hget (hr_entries g) s = Some e \<and> oe_generation e = n) then None else hget (hr_entries g) k)"
  using assms by (auto simp: remove_if_generation_def split: option.splits)

lemma drain_entries [simp]:
  "hr_draining (snd (drain s n g)) = hr_draining g"
  "hget (hr_entries (snd (drain s n g))) k =
      (if k = s \<and> (\<exists>e. hget (hr_entries g) s = Some e \<and> oe_generation e = n) then None else hget (hr_entries g) k)"
  unfolding drain_def by (rule remove_if_entries; simp)+

lemma release_entries [simp]:
  "hr_draining (registry_release s n g) = hr_draining g"
  "hget (hr_entries (registry_release s n g)) k =
      (if k = s \<and> (\<exists>e. hget (hr_entries g) s = Some e \<and> oe_generation e = n) then None else hget (hr_entries g) k)"
  unfolding registry_release_def by (rule remove_if_entries; simp)+

lemma recheck_entries [simp]:
  "hr_draining (snd (attach_recheck s e g)) = hr_draining g"
  "hget (hr_entries (snd (attach_recheck s e g))) k =
      (if hr_draining g \<and> k = s \<and> (\<exists>e'. hget (hr_entries g) s = Some e' \<and> oe_generation e' = oe_generation e)
       then None else hget (hr_entries g) k)"
  by (cases "hr_draining g"; simp add: attach_recheck_def remove_if_entries [of cancel_both])+

lemma rooms_of_entry: "hget m s = Some e \<Longrightarrow> (s, oe_generation e) \<in> set (rooms_of m)"
  by (auto simp: rooms_of_def dest!: map_of_SomeD intro!: rev_image_eqI [of "(s, e)"])

lemma advance_simps [simp]:
  "sd_registry (advance i s l pc g st) = g" "sd_drain (advance i s l pc g st) = sd_drain st"
  by (simp_all add: advance_def)

lemma in_flight_advance:
  assumes "thread_at st i s l pc" "in_flight st k n" "\<And>e. pc = AtRecheck e \<Longrightarrow> k \<noteq> s \<or> n \<noteq> oe_generation e"
  shows "in_flight (advance i s l pc' g st) k n"
proof -
  obtain j l' e where j: "thread_at st j k l' (AtRecheck e)" "oe_generation e = n"
    using assms(2) by (auto simp: in_flight_def)
  with assms have "j \<noteq> i" by (auto simp: thread_at_def)
  with j have "thread_at (advance i s l pc' g st) j k l' (AtRecheck e)" by (simp add: thread_at_def advance_def)
  with j(2) show ?thesis by (auto simp: in_flight_def)
qed

lemma in_flight_inserted:
  "thread_at st i s l pc \<Longrightarrow> in_flight (advance i s l (AtRecheck e) g st) s (oe_generation e)"
  unfolding in_flight_def thread_at_def advance_def by auto

lemma in_flight_frame [simp]:
  "in_flight (st\<lparr>sd_registry := g\<rparr>) s n = in_flight st s n"
  "in_flight (st\<lparr>sd_drain := pc\<rparr>) s n = in_flight st s n"
  "in_flight (st\<lparr>sd_registry := g, sd_drain := pc\<rparr>) s n = in_flight st s n"
  by (simp_all add: in_flight_def thread_at_def)

lemma in_flight_arrive: "in_flight st s n \<Longrightarrow> in_flight (st\<lparr>sd_threads := sd_threads st @ ts\<rparr>) s n"
  unfolding in_flight_def thread_at_def
  by (elim exE conjE) (metis (no_types, lifting) length_append nth_append shutdown.select_convs(2)
      shutdown.surjective shutdown.update_convs(2) trans_less_add1)

lemma shutdown_invI:
  "(sd_drain st \<noteq> DrainIdle \<Longrightarrow> hr_draining (sd_registry st)) \<Longrightarrow>
   (\<And>s e. hget (hr_entries (sd_registry st)) s = Some e \<Longrightarrow> \<not> awaited shard (sd_drain st) s (oe_generation e) \<Longrightarrow>
      in_flight st s (oe_generation e)) \<Longrightarrow>
   shutdown_inv shard st"
  by (auto simp: shutdown_inv_def)

lemma shutdown_flag: "shutdown_inv shard st \<Longrightarrow> sd_drain st \<noteq> DrainIdle \<Longrightarrow> hr_draining (sd_registry st)"
  by (simp add: shutdown_inv_def)

lemma shutdown_entry:
  "shutdown_inv shard st \<Longrightarrow> hget (hr_entries (sd_registry st)) s = Some e \<Longrightarrow>
   \<not> awaited shard (sd_drain st) s (oe_generation e) \<Longrightarrow> in_flight st s (oe_generation e)"
  by (auto simp: shutdown_inv_def)

text \<open>Every step keeps the invariant.\<close>

lemma quiet_advance:
  assumes inv: "shutdown_inv shard st" and at: "thread_at st i s l pc" "\<And>e. pc \<noteq> AtRecheck e"
    and g: "hr_entries g = hr_entries (sd_registry st)" "hr_draining g = hr_draining (sd_registry st)"
  shows "shutdown_inv shard (advance i s l pc' g st)"
proof (rule shutdown_invI)
  fix k e assume "hget (hr_entries (sd_registry (advance i s l pc' g st))) k = Some e"
    "\<not> awaited shard (sd_drain (advance i s l pc' g st)) k (oe_generation e)"
  then have "in_flight st k (oe_generation e)" using shutdown_entry [OF inv] g by simp
  then show "in_flight (advance i s l pc' g st) k (oe_generation e)"
    using in_flight_advance [OF at(1)] at(2) by blast
qed (use shutdown_flag [OF inv] g in simp)

text \<open>A change of the registry that only removes entries, and of the shutdown's progress.\<close>

lemma registry_change:
  assumes inv: "shutdown_inv shard st"
    and flag: "pc \<noteq> DrainIdle \<Longrightarrow> hr_draining g"
    and kept: "\<And>s e. hget (hr_entries g) s = Some e \<Longrightarrow> hget (hr_entries (sd_registry st)) s = Some e"
    and still: "\<And>s e. hget (hr_entries g) s = Some e \<Longrightarrow> awaited shard (sd_drain st) s (oe_generation e) \<Longrightarrow>
      awaited shard pc s (oe_generation e)"
  shows "shutdown_inv shard (st\<lparr>sd_registry := g, sd_drain := pc\<rparr>)"
proof (rule shutdown_invI)
  fix s e assume e: "hget (hr_entries (sd_registry (st\<lparr>sd_registry := g, sd_drain := pc\<rparr>))) s = Some e"
    and "\<not> awaited shard (sd_drain (st\<lparr>sd_registry := g, sd_drain := pc\<rparr>)) s (oe_generation e)"
  then have "\<not> awaited shard (sd_drain st) s (oe_generation e)" using still by auto
  then show "in_flight (st\<lparr>sd_registry := g, sd_drain := pc\<rparr>) s (oe_generation e)"
    using shutdown_entry [OF inv kept] e by simp
qed (use flag in simp)

lemma insert_inv:
  assumes inv: "shutdown_inv shard st" and at: "thread_at st i s l AtInsert"
    and ins: "attach_insert s l (sd_registry st) = (e, g)"
  shows "shutdown_inv shard (advance i s l (AtRecheck e) g st)" (is "shutdown_inv shard ?st'")
proof (rule shutdown_invI)
  note g = attach_insert_entries [OF ins]
  fix k e' assume e': "hget (hr_entries (sd_registry ?st')) k = Some e'"
    "\<not> awaited shard (sd_drain ?st') k (oe_generation e')"
  show "in_flight ?st' k (oe_generation e')"
  proof (cases "k = s")
    case True
    then show ?thesis using e' g in_flight_inserted [OF at] by simp
  next
    case False
    then have "in_flight st k (oe_generation e')" using shutdown_entry [OF inv] e' g by simp
    then show ?thesis using in_flight_advance [OF at] by simp
  qed
qed (use shutdown_flag [OF inv] attach_insert_entries [OF ins] in simp)

lemma recheck_inv:
  assumes inv: "shutdown_inv shard st" and at: "thread_at st i s l (AtRecheck e)"
  shows "shutdown_inv shard (advance i s l AtDone (snd (attach_recheck s e (sd_registry st))) st)"
    (is "shutdown_inv shard ?st'")
proof (rule shutdown_invI)
  fix k e' assume e': "hget (hr_entries (sd_registry ?st')) k = Some e'"
    "\<not> awaited shard (sd_drain ?st') k (oe_generation e')"
  then have "sd_drain st \<noteq> DrainIdle" by (auto simp: awaited_def)
  then have "hr_draining (sd_registry st)" by (rule shutdown_flag [OF inv])
  then have "hget (hr_entries (sd_registry st)) k = Some e'" "k \<noteq> s \<or> oe_generation e' \<noteq> oe_generation e"
    using e'(1) by (auto split: if_splits)
  moreover have "in_flight st k (oe_generation e')"
    using shutdown_entry [OF inv] calculation(1) e'(2) by simp
  ultimately show "in_flight ?st' k (oe_generation e')"
    using in_flight_advance [OF at] by auto
qed (use shutdown_flag [OF inv] in simp)

lemma arrive_inv:
  assumes inv: "shutdown_inv shard st"
  shows "shutdown_inv shard (st\<lparr>sd_threads := sd_threads st @ ts\<rparr>)"
  by (rule shutdown_invI) (use shutdown_flag [OF inv] shutdown_entry [OF inv] in \<open>auto intro: in_flight_arrive\<close>)

lemma owner_step_inv:
  assumes "owner_step shard shards st st'" and inv: "shutdown_inv shard st"
    and bound: "\<And>s. shard s < shards"
  shows "shutdown_inv shard st'"
  using assms(1)
proof (cases rule: owner_step.cases)
  case step_arrive
  then show ?thesis using arrive_inv [OF inv] by simp
next
  case step_refuse
  then show ?thesis using quiet_advance [OF inv] by simp
next
  case step_check
  then show ?thesis using quiet_advance [OF inv] by simp
next
  case step_found
  then show ?thesis using quiet_advance [OF inv] by simp
next
  case step_absent
  then show ?thesis using quiet_advance [OF inv] by simp
next
  case step_insert
  then show ?thesis using insert_inv [OF inv] by simp
next
  case step_recheck
  then show ?thesis using recheck_inv [OF inv] by simp
next
  case (step_release s n)
  have "shutdown_inv shard (st\<lparr>sd_registry := registry_release s n (sd_registry st), sd_drain := sd_drain st\<rparr>)"
    using shutdown_flag [OF inv] by (intro registry_change [OF inv]) (auto split: if_splits)
  then show ?thesis using step_release by simp
next
  case step_drain
  then show ?thesis using registry_change [OF inv, of "Collecting 0 []" "(sd_registry st)\<lparr>hr_draining := True\<rparr>"]
    by (simp add: awaited_def)
next
  case (step_shard i acc)
  let ?pc = "Collecting (Suc i) (acc @ filter (\<lambda>(s, _). shard s = i) (rooms_of (hr_entries (sd_registry st))))"
  have "shutdown_inv shard (st\<lparr>sd_registry := sd_registry st, sd_drain := ?pc\<rparr>)"
    using shutdown_flag [OF inv] step_shard(2)
    by (intro registry_change [OF inv]) (auto simp: awaited_def dest: rooms_of_entry)
  then show ?thesis using step_shard by simp
next
  case (step_collected acc)
  have "shutdown_inv shard (st\<lparr>sd_registry := sd_registry st, sd_drain := Emptying acc\<rparr>)"
    using shutdown_flag [OF inv] step_collected(2) bound
    by (intro registry_change [OF inv]) (auto simp: awaited_def linorder_not_less [symmetric])
  then show ?thesis using step_collected by simp
next
  case (step_drain_room s n rooms)
  then show ?thesis using shutdown_flag [OF inv]
    by (auto simp: awaited_def split: if_splits intro!: registry_change [OF inv])
next
  case step_drained
  have "shutdown_inv shard (st\<lparr>sd_registry := sd_registry st, sd_drain := Drained\<rparr>)"
    using shutdown_flag [OF inv] step_drained(2)
    by (intro registry_change [OF inv]) (auto simp: awaited_def)
  then show ?thesis using step_drained by simp
qed

definition bounded_inv :: "(uuid \<Rightarrow> nat) \<Rightarrow> nat \<Rightarrow> shutdown \<Rightarrow> bool" where
  "bounded_inv shard shards st \<longleftrightarrow> (\<forall>s. shard s < shards) \<longrightarrow> shutdown_inv shard st"

interpretation shutdowns: transition_system shutdown_start "owner_step shard shards" "bounded_inv shard shards"
proof
  fix st assume "shutdown_start st"
  then show "bounded_inv shard shards st"
    by (auto simp: shutdown_start_def bounded_inv_def shutdown_inv_def owners_new_def)
next
  fix st st' assume "owner_step shard shards st st'" "bounded_inv shard shards st"
  then show "bounded_inv shard shards st'" using owner_step_inv by (auto simp: bounded_inv_def)
qed

text \<open>
  C23: Shutdown leaves no owned room behind: once \<open>drain_all\<close> has finished and every connection that
  was attaching has returned, the registry is empty, however the steps were interleaved.
\<close>

theorem shutdown_leaves_no_owner:
  assumes "shutdown_start st" "(owner_step shard shards)\<^sup>*\<^sup>* st st'" "\<forall>s. shard s < shards"
    "sd_drain st' = Drained" "\<forall>(s, l, pc) \<in> set (sd_threads st'). pc = AtDone"
  shows "hr_entries (sd_registry st') = []"
proof (rule ccontr)
  assume "hr_entries (sd_registry st') \<noteq> []"
  then obtain s e m where "hr_entries (sd_registry st') = (s, e) # m"
    by (cases "hr_entries (sd_registry st')") auto
  then have "hget (hr_entries (sd_registry st')) s = Some e" by simp
  moreover have "shutdown_inv shard st'"
    using shutdowns.reachable_inv [OF assms(1,2)] assms(3) by (simp add: bounded_inv_def)
  ultimately have "in_flight st' s (oe_generation e)"
    using shutdown_entry assms(4) by (simp add: awaited_def)
  then obtain i l e' where "thread_at st' i s l (AtRecheck e')" by (auto simp: in_flight_def)
  then have "(s, l, AtRecheck e') \<in> set (sd_threads st')" by (auto simp: thread_at_def in_set_conv_nth)
  with assms(5) show False by auto
qed

text \<open>
  A connection publishes its entry between the two halves of the shutdown: the flag is set after
  its first check, and its shard is read before its insertion.
\<close>

definition race_lease :: session_lease where
  "race_lease = demo_lease demo_owner 1"

definition race0 :: shutdown where
  "race0 = \<lparr>sd_registry = owners_new, sd_threads = [], sd_drain = DrainIdle\<rparr>"

definition race1 :: shutdown where "race1 = race0\<lparr>sd_threads := [(''s'', race_lease, AtStart)]\<rparr>"
definition race2 :: shutdown where "race2 = advance 0 ''s'' race_lease AtLookup (sd_registry race1) race1"
definition race3 :: shutdown where "race3 = advance 0 ''s'' race_lease AtInsert (sd_registry race2) race2"
definition race4 :: shutdown where
  "race4 = race3\<lparr>sd_registry := (sd_registry race3)\<lparr>hr_draining := True\<rparr>, sd_drain := Collecting 0 []\<rparr>"
definition race5 :: shutdown where "race5 = race4\<lparr>sd_drain := Collecting 1 []\<rparr>"
definition race6 :: shutdown where
  "race6 = (case attach_insert ''s'' race_lease (sd_registry race5) of
     (e, g) \<Rightarrow> advance 0 ''s'' race_lease (AtRecheck e) g race5)"
definition race7 :: shutdown where "race7 = race6\<lparr>sd_drain := Emptying []\<rparr>"
definition race8 :: shutdown where "race8 = race7\<lparr>sd_drain := Drained\<rparr>"
definition race9 :: shutdown where
  "race9 = (case sd_threads race8 ! 0 of
     (s, l, AtRecheck e) \<Rightarrow> advance 0 ''s'' race_lease AtDone (snd (attach_recheck ''s'' e (sd_registry race8))) race8)"

lemmas race_defs = race0_def race1_def race2_def race3_def race4_def race5_def race6_def race7_def race8_def
  race9_def advance_def attach_insert_def new_token_def spawn_renewer_def Let_def thread_at_def owners_new_def

lemma race_steps:
  "owner_step (\<lambda>_. 0) 1 race0 race1" "owner_step (\<lambda>_. 0) 1 race1 race2" "owner_step (\<lambda>_. 0) 1 race2 race3"
  "owner_step (\<lambda>_. 0) 1 race3 race4" "owner_step (\<lambda>_. 0) 1 race4 race5" "owner_step (\<lambda>_. 0) 1 race5 race6"
  "owner_step (\<lambda>_. 0) 1 race6 race7" "owner_step (\<lambda>_. 0) 1 race7 race8" "owner_step (\<lambda>_. 0) 1 race8 race9"
proof -
  show "owner_step (\<lambda>_. 0) 1 race0 race1"
    using step_arrive [of "\<lambda>_. 0" 1 race0 "''s''" race_lease] by (simp add: race1_def race0_def)
  show "owner_step (\<lambda>_. 0) 1 race1 race2"
    unfolding race2_def by (rule step_check) (simp_all add: race_defs)
  show "owner_step (\<lambda>_. 0) 1 race2 race3"
    unfolding race3_def by (rule step_absent) (simp_all add: race_defs)
  show "owner_step (\<lambda>_. 0) 1 race3 race4"
    unfolding race4_def by (rule step_drain) (simp add: race_defs)
  show "owner_step (\<lambda>_. 0) 1 race4 race5"
    using step_shard [of race4 0 "[]" 1 "\<lambda>_. 0"] by (simp add: race_defs rooms_of_def)
  show "owner_step (\<lambda>_. 0) 1 race5 race6"
  proof -
    obtain e g where ins: "attach_insert ''s'' race_lease (sd_registry race5) = (e, g)" by fastforce
    have "thread_at race5 0 ''s'' race_lease AtInsert" by (simp add: race_defs)
    from step_insert [OF this ins] show ?thesis by (simp add: race6_def ins)
  qed
  show "owner_step (\<lambda>_. 0) 1 race6 race7"
    unfolding race7_def by (rule step_collected) (simp add: race_defs)
  show "owner_step (\<lambda>_. 0) 1 race7 race8"
    unfolding race8_def by (rule step_drained) (simp add: race_defs)
  obtain e where e: "thread_at race8 0 ''s'' race_lease (AtRecheck e)"
    by (simp add: race_defs)
  then show "owner_step (\<lambda>_. 0) 1 race8 race9"
    using step_recheck [OF e] by (simp add: race9_def thread_at_def)
qed

theorem shutdown_leaves_no_owner_witness:
  "hr_entries (sd_registry race8) \<noteq> [] \<and> hr_entries (sd_registry race9) = []"
proof -
  have "(owner_step (\<lambda>_. 0) 1)\<^sup>*\<^sup>* race0 race9"
    using race_steps by (meson rtranclp.rtrancl_refl rtranclp.rtrancl_into_rtrancl)
  moreover have "shutdown_start race0" by (simp add: shutdown_start_def race0_def)
  moreover have "sd_drain race9 = Drained" "\<forall>(s, l, pc) \<in> set (sd_threads race9). pc = AtDone"
    by (simp_all add: race_defs)
  ultimately have "hr_entries (sd_registry race9) = []"
    using shutdown_leaves_no_owner [of race0 "\<lambda>_. 0" 1 race9] by simp
  moreover have "hr_entries (sd_registry race8) \<noteq> []" by (simp add: race_defs)
  ultimately show ?thesis by simp
qed

end
