(* ===== verification/MeshWire.thy ===== *)
theory MeshWire
  imports SessionLease
begin

text \<open>
  The mesh wire contract, from \<open>crates/buzz-relay-mesh/src\<close>: the frames and the version byte
  (\<open>wire.rs\<close>), the length-delimited framing of a stream (\<open>peer.rs\<close>) and the size check of a datagram
  (\<open>lib.rs\<close>).

  \<^item> Bytes are characters. The \<open>postcard\<close> codec is a pair of arguments \<open>ser\<close> and \<open>de\<close>; that \<open>de\<close>
    reads back what \<open>ser\<close> writes is the hypothesis \<open>codec_ok\<close>.
  \<^item> A stream is the bytes still to be read; reading past its end is the error of \<open>read_exact\<close>.
\<close>

datatype goodbye_reason = SessionEnded | OwnerDraining | GenerationStale

datatype stream_role = ControlRole | SessionRole fenced_header profile

record stream_hello =
  sh_sender :: runtime_id
  sh_role :: stream_role

datatype mesh_stream_frame =
    FrameHello stream_hello
  | FrameData fenced_header string
  | FrameGoodbye fenced_header goodbye_reason
  | FrameGossip string

record mesh_datagram =
  md_fenced :: fenced_header
  md_seq :: "64 word"
  md_payload :: string

definition WIRE_VERSION :: nat where "WIRE_VERSION = 1"

definition MAX_STREAM_FRAME :: nat where "MAX_STREAM_FRAME = 16 * 1024 * 1024"

definition encode :: "('a \<Rightarrow> string option) \<Rightarrow> 'a \<Rightarrow> relay_mesh_error + string" where
  "encode ser x = (case ser x of None \<Rightarrow> Inl MeshEncode | Some b \<Rightarrow> Inr (char_of WIRE_VERSION # b))"

definition decode :: "(string \<Rightarrow> 'a option) \<Rightarrow> string \<Rightarrow> relay_mesh_error + 'a" where
  "decode de bytes =
     (case bytes of
        [] \<Rightarrow> Inl EmptyFrame
      | v # rest \<Rightarrow>
          if code_of v = WIRE_VERSION
          then (case de rest of None \<Rightarrow> Inl MeshDecode | Some x \<Rightarrow> Inr x)
          else Inl (UnknownWireVersion (code_of v)))"

definition encode_datagram_checked ::
  "(mesh_datagram \<Rightarrow> string option) \<Rightarrow> nat \<Rightarrow> mesh_datagram \<Rightarrow> relay_mesh_error + string" where
  "encode_datagram_checked ser limit d =
     (case encode ser d of
        Inl e \<Rightarrow> Inl e
      | Inr b \<Rightarrow> if limit < length b then Inl (DatagramTooLarge (length b) limit) else Inr b)"

section \<open>Length-delimited frames\<close>

definition le32 :: "nat \<Rightarrow> string" where
  "le32 n = [char_of (n mod 256), char_of (n div 256 mod 256), char_of (n div 65536 mod 256),
             char_of (n div 16777216 mod 256)]"

definition of_le32 :: "string \<Rightarrow> nat" where
  "of_le32 bs = (case bs of
      [a, b, c, d] \<Rightarrow> code_of a + 256 * code_of b + 65536 * code_of c + 16777216 * code_of d
    | _ \<Rightarrow> 0)"

text \<open>What \<open>send_frame\<close> writes; a failure of the connection itself is not modelled here.\<close>

definition send_frame :: "('a \<Rightarrow> string option) \<Rightarrow> 'a \<Rightarrow> relay_mesh_error + string" where
  "send_frame ser frame =
     (case encode ser frame of
        Inl e \<Rightarrow> Inl e
      | Inr bytes \<Rightarrow>
          if MAX_STREAM_FRAME < length bytes then Inl (FrameTooLarge (length bytes) MAX_STREAM_FRAME)
          else Inr (le32 (length bytes) @ bytes))"

definition recv_frame :: "(string \<Rightarrow> 'a option) \<Rightarrow> string \<Rightarrow> (relay_mesh_error + 'a option) \<times> string" where
  "recv_frame de s =
     (if s = [] then (Inr None, [])
      else if length s < 4 then (Inl (MeshTransport ''stream finished early''), [])
      else (let len = of_le32 (take 4 s); rest = drop 4 s
            in if MAX_STREAM_FRAME < len then (Inl (FrameTooLarge len MAX_STREAM_FRAME), rest)
               else if length rest < len then (Inl (MeshTransport ''stream finished early''), [])
               else (case decode de (take len rest) of
                       Inl e \<Rightarrow> (Inl e, drop len rest)
                     | Inr x \<Rightarrow> (Inr (Some x), drop len rest))))"

lemma code_of_char_of [simp]: "n < 256 \<Longrightarrow> code_of (char_of n) = n"
  by (simp add: code_of_def)

lemma length_le32 [simp]: "length (le32 n) = 4" "le32 n \<noteq> []"
  by (simp_all add: le32_def)

lemma of_le32_le32: "n < 2 ^ 32 \<Longrightarrow> of_le32 (le32 n) = n"
proof -
  assume "n < 2 ^ 32"
  define a b c where "a = n div 256" and "b = a div 256" and "c = b div 256"
  have "n div 65536 = b" "n div 16777216 = c"
    by (simp_all add: a_def b_def c_def div_mult2_eq [symmetric])
  moreover have "c < 256"
    using less_mult_imp_div_less [of n 256 16777216] \<open>n < 2 ^ 32\<close> calculation(2) by simp
  moreover have "n mod 256 + 256 * a = n" "a mod 256 + 256 * b = a" "b mod 256 + 256 * c = b"
    by (simp_all add: a_def b_def c_def)
  ultimately show ?thesis
    by (simp add: of_le32_def le32_def code_of_def a_def [symmetric])
qed

definition codec_ok :: "('a \<Rightarrow> string option) \<Rightarrow> (string \<Rightarrow> 'a option) \<Rightarrow> bool" where
  "codec_ok ser de \<longleftrightarrow> (\<forall>x b. ser x = Some b \<longrightarrow> de b = Some x)"

lemma decode_encode: "codec_ok ser de \<Longrightarrow> encode ser x = Inr b \<Longrightarrow> decode de b = Inr x"
  by (auto simp: codec_ok_def encode_def decode_def WIRE_VERSION_def split: option.splits)

text \<open>A frame that was sent is received, and reading stops at its end.\<close>

lemma recv_sent:
  assumes "codec_ok ser de" "send_frame ser x = Inr b"
  shows "recv_frame de (b @ rest) = (Inr (Some x), rest)"
proof -
  obtain bytes where e: "encode ser x = Inr bytes" and len: "length bytes \<le> MAX_STREAM_FRAME"
    and b: "b = le32 (length bytes) @ bytes"
    using assms(2) by (auto simp: send_frame_def split: sum.splits if_splits)
  have "of_le32 (le32 (length bytes)) = length bytes"
    using len by (intro of_le32_le32) (simp add: MAX_STREAM_FRAME_def)
  then show ?thesis
    using decode_encode [OF assms(1) e] len by (simp add: b recv_frame_def Let_def)
qed

text \<open>Reading to the end of a stream, or to the first error.\<close>

lemma recv_frame_shrinks: "recv_frame de s = (Inr (Some x), s') \<Longrightarrow> length s' < length s"
  by (auto simp: recv_frame_def Let_def split: if_splits sum.splits)

function recv_all :: "(string \<Rightarrow> 'a option) \<Rightarrow> string \<Rightarrow> 'a list \<times> relay_mesh_error option" where
  "recv_all de s =
     (case recv_frame de s of
        (Inr (Some x), s') \<Rightarrow> (case recv_all de s' of (xs, e) \<Rightarrow> (x # xs, e))
      | (Inr None, _) \<Rightarrow> ([], None)
      | (Inl e, _) \<Rightarrow> ([], Some e))"
  by pat_completeness auto
termination
  by (relation "measure (\<lambda>(de, s). length s)") (auto dest: recv_frame_shrinks [OF sym])

declare recv_all.simps [simp del]

fun send_all :: "('a \<Rightarrow> string option) \<Rightarrow> 'a list \<Rightarrow> relay_mesh_error + string" where
  "send_all ser [] = Inr []"
| "send_all ser (x # xs) =
     (case send_frame ser x of
        Inl e \<Rightarrow> Inl e
      | Inr b \<Rightarrow> (case send_all ser xs of Inl e \<Rightarrow> Inl e | Inr bs \<Rightarrow> Inr (b @ bs)))"

text \<open>
  A whole stream round-trips: what was sent frame by frame is what is received, in order and
  without a frame split, merged or lost.
\<close>

theorem stream_round_trip:
  assumes "codec_ok ser de" "send_all ser xs = Inr bytes"
  shows "recv_all de bytes = (xs, None)"
  using assms(2)
proof (induction xs arbitrary: bytes)
  case Nil
  then show ?case by (simp add: recv_all.simps recv_frame_def)
next
  case (Cons x xs)
  then obtain b bs where "send_frame ser x = Inr b" "send_all ser xs = Inr bs" "bytes = b @ bs"
    by (auto split: sum.splits)
  with Cons.IH recv_sent [OF assms(1)] show ?case by (simp add: recv_all.simps [of de "b @ bs"])
qed

text \<open>A codec of strings that are at most four bytes long, to apply the theorem to.\<close>

definition demo_ser :: "string \<Rightarrow> string option" where
  "demo_ser s = (if length s \<le> 4 then Some s else None)"

theorem stream_round_trip_witness:
  "recv_all Some (le32 3 @ char_of WIRE_VERSION # ''ab'' @ le32 1 @ [char_of WIRE_VERSION]) = ([''ab'', []], None)"
proof -
  have "codec_ok demo_ser Some" by (simp add: codec_ok_def demo_ser_def)
  moreover have "send_all demo_ser [''ab'', []] =
      Inr (le32 3 @ char_of WIRE_VERSION # ''ab'' @ le32 1 @ [char_of WIRE_VERSION])"
    by (simp add: demo_ser_def send_frame_def encode_def MAX_STREAM_FRAME_def numeral_3_eq_3)
  ultimately show ?thesis by (rule stream_round_trip)
qed

text \<open>A peer that speaks another version, or announces too much, is refused before anything is decoded.\<close>

theorem foreign_frames_are_refused:
  "decode de [] = Inl EmptyFrame \<and>
   (code_of v \<noteq> WIRE_VERSION \<longrightarrow> decode de (v # rest) = Inl (UnknownWireVersion (code_of v))) \<and>
   (MAX_STREAM_FRAME < of_le32 (take 4 (w # s)) \<and> 3 \<le> length s \<longrightarrow>
      (\<exists>rest'. recv_frame de (w # s) = (Inl (FrameTooLarge (of_le32 (take 4 (w # s))) MAX_STREAM_FRAME), rest')))"
  by (auto simp: decode_def recv_frame_def Let_def)

end
