(* ===== verification/ReliableStream.thy ===== *)
theory ReliableStream
  imports HuddleOwner MeshWire
begin

text \<open>
  Reliable tunnel streams, from \<open>crates/buzz-relay/src/tunnel/reliable.rs\<close>: joining a session, accepting
  an inbound stream, the inner frame format, sending in chunks, and receiving behind the fence.

  \<^item> A community id is its text; \<open>ub\<close> and \<open>fu\<close> are \<open>Uuid::as_bytes\<close> and \<open>Uuid::from_bytes\<close>, with the
    law \<open>uuid_codec_ok\<close>.
  \<^item> A stream is what was sent on it and what \<open>recv_frame\<close> will return next; \<open>fails\<close> says which sends the
    transport refuses. The directory is the one of \<open>SessionLease\<close>.
\<close>

section \<open>Errors, frames and streams\<close>

datatype reliable_error =
    DirectoryErr directory_error
  | MeshErr relay_mesh_error
  | ProfileMismatch uuid profile profile
  | SenderMismatch runtime_id runtime_id
  | UnexpectedStreamRole
  | OwnerIsNotLocal uuid runtime_id runtime_id
  | UnexpectedFrame string
  | FrameFenceMismatch fenced_header fenced_header
  | CommunityMismatch uuid uuid
  | MalformedReliableFrame string

datatype reliable_frame = ReliableData string | ReliableGoodbye goodbye_reason

datatype reliable_wire_frame = WireData uuid string | WireGoodbye uuid goodbye_reason

definition MAX_RELIABLE_PAYLOAD_BYTES :: nat where "MAX_RELIABLE_PAYLOAD_BYTES = 1024 * 1024"

definition to_wire_byte :: "goodbye_reason \<Rightarrow> nat" where
  "to_wire_byte r = (case r of SessionEnded \<Rightarrow> 1 | OwnerDraining \<Rightarrow> 2 | GenerationStale \<Rightarrow> 3)"

definition from_wire_byte :: "nat \<Rightarrow> reliable_error + goodbye_reason" where
  "from_wire_byte b =
     (if b = 1 then Inr SessionEnded else if b = 2 then Inr OwnerDraining else if b = 3 then Inr GenerationStale
      else Inl (MalformedReliableFrame ''unknown goodbye reason''))"

definition wire_community :: "reliable_wire_frame \<Rightarrow> uuid" where
  "wire_community f = (case f of WireData c _ \<Rightarrow> c | WireGoodbye c _ \<Rightarrow> c)"

definition wire_encode :: "(uuid \<Rightarrow> string) \<Rightarrow> reliable_wire_frame \<Rightarrow> string" where
  "wire_encode ub f = (case f of
      WireData c payload \<Rightarrow> char_of (1 :: nat) # char_of (1 :: nat) # ub c @ payload
    | WireGoodbye c reason \<Rightarrow> char_of (1 :: nat) # char_of (2 :: nat) # ub c @ [char_of (to_wire_byte reason)])"

definition wire_decode :: "(string \<Rightarrow> uuid) \<Rightarrow> string \<Rightarrow> reliable_error + reliable_wire_frame" where
  "wire_decode fu bytes =
     (if length bytes < 18 then Inl (MalformedReliableFrame ''too short'')
      else if code_of (bytes ! 0) \<noteq> 1 then Inl (MalformedReliableFrame ''unknown version'')
      else (let c = fu (take 16 (drop 2 bytes)); kind = code_of (bytes ! 1)
            in if kind = 1 then Inr (WireData c (drop 18 bytes))
               else if kind = 2
               then (if length bytes \<noteq> 19 then Inl (MalformedReliableFrame ''bad goodbye length'')
                     else (case from_wire_byte (code_of (bytes ! 18)) of
                             Inl e \<Rightarrow> Inl e | Inr reason \<Rightarrow> Inr (WireGoodbye c reason)))
               else Inl (MalformedReliableFrame ''unknown kind'')))"

record reliable_stream =
  st_fenced :: fenced_header
  st_community :: "uuid option"
  st_sent :: "mesh_stream_frame list"
  st_incoming :: "(relay_mesh_error + mesh_stream_frame) list"
  st_finished :: bool

definition stream_new :: "fenced_header \<Rightarrow> (relay_mesh_error + mesh_stream_frame) list \<Rightarrow> reliable_stream" where
  "stream_new f incoming =
     \<lparr>st_fenced = f, st_community = None, st_sent = [], st_incoming = incoming, st_finished = False\<rparr>"

definition with_community :: "uuid \<Rightarrow> reliable_stream \<Rightarrow> reliable_stream" where
  "with_community c st = st\<lparr>st_community := Some c\<rparr>"

section \<open>Sending\<close>

definition ensure_outbound_community :: "uuid \<Rightarrow> reliable_stream \<Rightarrow> (reliable_error + unit) \<times> reliable_stream" where
  "ensure_outbound_community c st =
     (case st_community st of
        Some expected \<Rightarrow> if expected \<noteq> c then (Inl (CommunityMismatch expected c), st) else (Inr (), st)
      | None \<Rightarrow> (Inr (), st\<lparr>st_community := Some c\<rparr>))"

text \<open>\<open>[u8]::chunks\<close>: nothing for an empty slice.\<close>

function chunks :: "nat \<Rightarrow> 'a list \<Rightarrow> 'a list list" where
  "chunks n xs = (if xs = [] \<or> n = 0 then [] else take n xs # chunks n (drop n xs))"
  by pat_completeness auto
termination by (relation "measure (\<lambda>(n, xs). length xs)") auto

declare chunks.simps [simp del]

definition transmit ::
  "(mesh_stream_frame list \<Rightarrow> mesh_stream_frame \<Rightarrow> relay_mesh_error option) \<Rightarrow> mesh_stream_frame \<Rightarrow> reliable_stream \<Rightarrow>
   (reliable_error + unit) \<times> reliable_stream" where
  "transmit fails f st =
     (case fails (st_sent st) f of
        Some e \<Rightarrow> (Inl (MeshErr e), st)
      | None \<Rightarrow> (Inr (), st\<lparr>st_sent := st_sent st @ [f]\<rparr>))"

fun send_chunks where
  "send_chunks ub fails c [] st = (Inr (), st)"
| "send_chunks ub fails c (chunk # more_chunks) st =
     (case transmit fails (FrameData (st_fenced st) (wire_encode ub (WireData c chunk))) st of
        (Inl e, st') \<Rightarrow> (Inl e, st')
      | (Inr _, st') \<Rightarrow> send_chunks ub fails c more_chunks st')"

definition send_bytes ::
  "(uuid \<Rightarrow> string) \<Rightarrow> (mesh_stream_frame list \<Rightarrow> mesh_stream_frame \<Rightarrow> relay_mesh_error option) \<Rightarrow> uuid \<Rightarrow> string \<Rightarrow>
   reliable_stream \<Rightarrow> (reliable_error + unit) \<times> reliable_stream" where
  "send_bytes ub fails c bytes st =
     (case ensure_outbound_community c st of
        (Inl e, st') \<Rightarrow> (Inl e, st')
      | (Inr _, st') \<Rightarrow> send_chunks ub fails c (chunks MAX_RELIABLE_PAYLOAD_BYTES bytes) st')"

definition send_goodbye ::
  "(uuid \<Rightarrow> string) \<Rightarrow> (mesh_stream_frame list \<Rightarrow> mesh_stream_frame \<Rightarrow> relay_mesh_error option) \<Rightarrow> uuid \<Rightarrow>
   goodbye_reason \<Rightarrow> reliable_stream \<Rightarrow> (reliable_error + unit) \<times> reliable_stream" where
  "send_goodbye ub fails c reason st =
     (case ensure_outbound_community c st of
        (Inl e, st') \<Rightarrow> (Inl e, st')
      | (Inr _, st') \<Rightarrow>
          (case transmit fails (FrameData (st_fenced st') (wire_encode ub (WireGoodbye c reason))) st' of
             (Inl e, st'') \<Rightarrow> (Inl e, st'')
           | (Inr _, st'') \<Rightarrow> (Inr (), st''\<lparr>st_finished := True\<rparr>)))"

section \<open>Receiving\<close>

definition validate_frame_fence ::
  "'r redis \<Rightarrow> (string \<Rightarrow> runtime_id option) \<Rightarrow> net \<Rightarrow> 'r \<Rightarrow> uuid \<Rightarrow> fenced_header \<Rightarrow> reliable_stream \<Rightarrow>
   (reliable_error + unit) \<times> reliable_stream" where
  "validate_frame_fence R hx n r c f st =
     (if f \<noteq> st_fenced st then (Inl (FrameFenceMismatch (st_fenced st) f), st)
      else if (case st_community st of Some expected \<Rightarrow> expected \<noteq> c | None \<Rightarrow> False)
      then (Inl (CommunityMismatch (the (st_community st)) c), st)
      else (case validate_fenced_header R hx c f n r of
              Inl e \<Rightarrow> (Inl (MeshErr e), st)
            | Inr _ \<Rightarrow> (Inr (), if st_community st = None then st\<lparr>st_community := Some c\<rparr> else st)))"

definition recv_validated ::
  "(string \<Rightarrow> uuid) \<Rightarrow> 'r redis \<Rightarrow> (string \<Rightarrow> runtime_id option) \<Rightarrow> net \<Rightarrow> 'r \<Rightarrow> reliable_stream \<Rightarrow>
   (reliable_error + reliable_frame option) \<times> reliable_stream" where
  "recv_validated fu R hx n r st =
     (case st_incoming st of
        [] \<Rightarrow> (Inr None, st)
      | x # rest \<Rightarrow>
          let st1 = st\<lparr>st_incoming := rest\<rparr>
          in case x of
               Inl e \<Rightarrow> (Inl (MeshErr e), st1)
             | Inr (FrameData f payload) \<Rightarrow>
                 (case wire_decode fu payload of
                    Inl e \<Rightarrow> (Inl e, st1)
                  | Inr frame \<Rightarrow>
                      (case validate_frame_fence R hx n r (wire_community frame) f st1 of
                         (Inl e, st2) \<Rightarrow> (Inl e, st2)
                       | (Inr _, st2) \<Rightarrow>
                           (case frame of
                              WireData _ p \<Rightarrow> (Inr (Some (ReliableData p)), st2)
                            | WireGoodbye _ reason \<Rightarrow> (Inr (Some (ReliableGoodbye reason)), st2))))
             | Inr (FrameGoodbye _ _) \<Rightarrow> (Inl (UnexpectedFrame ''goodbye''), st1)
             | Inr (FrameHello _) \<Rightarrow> (Inl (UnexpectedFrame ''hello''), st1)
             | Inr (FrameGossip _) \<Rightarrow> (Inl (UnexpectedFrame ''gossip''), st1))"

section \<open>Joining and accepting\<close>

datatype reliable_join = Owned session_lease | Forwarded session_lease reliable_stream

text \<open>\<open>opens\<close> is the transport: the error of \<open>open_session_stream\<close>, or what the stream will bring.\<close>

definition reliable_join_session ::
  "'r redis \<Rightarrow> (string \<Rightarrow> runtime_id option) \<Rightarrow> nat \<Rightarrow> runtime_id \<Rightarrow>
   (runtime_id \<Rightarrow> stream_hello \<Rightarrow> relay_mesh_error + (relay_mesh_error + mesh_stream_frame) list) \<Rightarrow>
   uuid \<Rightarrow> uuid \<Rightarrow> net \<Rightarrow> 'r \<Rightarrow> (reliable_error + reliable_join) \<times> 'r" where
  "reliable_join_session R hx ttl me opens c s n r =
     (case dir_acquire R hx ttl c s me ReliableStream n r of
        (Inl e, r') \<Rightarrow> (Inl (DirectoryErr e), r')
      | (Inr (Acquired l), r') \<Rightarrow> (Inr (Owned l), r')
      | (Inr (Exists l), r') \<Rightarrow>
          if sl_profile l \<noteq> ReliableStream then (Inl (ProfileMismatch s ReliableStream (sl_profile l)), r')
          else if sl_owner l = me then (Inr (Owned l), r')
          else (let f = fenced_header_of l;
                    hello = \<lparr>sh_sender = me, sh_role = SessionRole f ReliableStream\<rparr>
                in case opens (sl_owner l) hello of
                     Inl e \<Rightarrow> (Inl (MeshErr e), r')
                   | Inr incoming \<Rightarrow> (Inr (Forwarded l (stream_new f incoming)), r')))"

record reliable_inbound =
  ri_fenced :: fenced_header
  ri_from :: runtime_id
  ri_stream :: reliable_stream

definition reliable_accept_inbound ::
  "runtime_id \<Rightarrow> runtime_id \<Rightarrow> stream_hello \<Rightarrow> (relay_mesh_error + mesh_stream_frame) list \<Rightarrow> reliable_error + reliable_inbound" where
  "reliable_accept_inbound me peer hello incoming =
     (if sh_sender hello \<noteq> peer then Inl (SenderMismatch peer (sh_sender hello))
      else (case sh_role hello of
              ControlRole \<Rightarrow> Inl UnexpectedStreamRole
            | SessionRole f prof \<Rightarrow>
                if prof \<noteq> ReliableStream then Inl (ProfileMismatch (fh_session f) ReliableStream prof)
                else if fh_owner f \<noteq> me then Inl (OwnerIsNotLocal (fh_session f) (fh_owner f) me)
                else Inr \<lparr>ri_fenced = f, ri_from = peer, ri_stream = stream_new f incoming\<rparr>))"

section \<open>The lease renewer\<close>

definition finish_lease_renewer where
  "finish_lease_renewer R hx l n caller_cancelled lost r =
     (case dir_release R hx l n r of
        (Inr (Released _), r') \<Rightarrow> (lost, r')
      | (Inr (NotOwner _ _), r') \<Rightarrow> (True, r')
      | (Inl _, r') \<Rightarrow> (if caller_cancelled then lost else True, r'))"

fun run_lease_renewer ::
  "'r redis \<Rightarrow> (string \<Rightarrow> runtime_id option) \<Rightarrow> nat \<Rightarrow> ('r \<Rightarrow> 'op \<Rightarrow> 'r) \<Rightarrow> session_lease \<Rightarrow> net \<Rightarrow> 'op renewer_event list \<Rightarrow>
   'r \<Rightarrow> bool option \<times> 'r" where
  "run_lease_renewer R hx ttl env l n [] r = (None, r)"
| "run_lease_renewer R hx ttl env l n (CallerCancel ops # evs) r =
     apfst Some (finish_lease_renewer R hx l n True False (foldl env r ops))"
| "run_lease_renewer R hx ttl env l n (Tick m ops # evs) r =
     (case dir_renew R hx ttl l m (foldl env r ops) of
        (Inr (Renewed _), r') \<Rightarrow> run_lease_renewer R hx ttl env l n evs r'
      | (Inr (Lost _ _), r') \<Rightarrow> apfst Some (finish_lease_renewer R hx l n False True r')
      | (Inl _, r') \<Rightarrow> apfst Some (finish_lease_renewer R hx l n False True r'))"

section \<open>The inner frame format\<close>

definition uuid_codec_ok :: "(uuid \<Rightarrow> string) \<Rightarrow> (string \<Rightarrow> uuid) \<Rightarrow> bool" where
  "uuid_codec_ok ub fu \<longleftrightarrow> (\<forall>b. length b = 16 \<longrightarrow> ub (fu b) = b)"

definition is_uuid :: "(string \<Rightarrow> uuid) \<Rightarrow> uuid \<Rightarrow> bool" where
  "is_uuid fu u \<longleftrightarrow> (\<exists>b. length b = 16 \<and> u = fu b)"

lemma uuid_bytes:
  "uuid_codec_ok ub fu \<Longrightarrow> is_uuid fu u \<Longrightarrow> length (ub u) = 16 \<and> fu (ub u) = u"
  by (auto simp: uuid_codec_ok_def is_uuid_def)

lemma wire_byte_inverse: "from_wire_byte b = Inr reason \<Longrightarrow> to_wire_byte reason = b"
  by (auto simp: from_wire_byte_def to_wire_byte_def split: if_splits)

lemma from_to_wire_byte [simp]: "from_wire_byte (to_wire_byte reason) = Inr reason"
  by (cases reason) (simp_all add: from_wire_byte_def to_wire_byte_def)

lemma to_wire_byte_small [simp]: "to_wire_byte reason < 256"
  by (cases reason) (simp_all add: to_wire_byte_def)

lemma code_wire_byte [simp]: "code_of (char_of (to_wire_byte reason)) = to_wire_byte reason"
  by simp

lemma wire_decode_encode:
  assumes "uuid_codec_ok ub fu" "is_uuid fu (wire_community f)"
  shows "wire_decode fu (wire_encode ub f) = Inr f"
proof (cases f)
  case (WireData c p)
  then show ?thesis using uuid_bytes [OF assms(1), of c] assms(2)
    by (simp add: wire_decode_def wire_encode_def wire_community_def Let_def numeral_2_eq_2 eval_nat_numeral)
next
  case (WireGoodbye c reason)
  then show ?thesis using uuid_bytes [OF assms(1), of c] assms(2)
    by (simp add: wire_decode_def wire_encode_def wire_community_def Let_def nth_append eval_nat_numeral)
qed

lemma wire_encode_decode:
  assumes "uuid_codec_ok ub fu" "wire_decode fu bytes = Inr f"
  shows "wire_encode ub f = bytes \<and> is_uuid fu (wire_community f)"
proof -
  let ?b = "take 16 (drop 2 bytes)"
  have len: "18 \<le> length bytes" and v: "code_of (bytes ! 0) = 1"
    using assms(2) by (auto simp: wire_decode_def split: if_splits)
  have ub: "ub (fu ?b) = ?b" "is_uuid fu (fu ?b)"
    using assms(1) len by (auto simp: uuid_codec_ok_def is_uuid_def intro!: exI [of _ ?b])
  have split: "bytes = bytes ! 0 # bytes ! 1 # ?b @ drop 18 bytes"
  proof -
    have "bytes = bytes ! 0 # bytes ! 1 # drop 2 bytes"
      using len by (cases bytes; cases "tl bytes") auto
    also have "drop 2 bytes = ?b @ drop 18 bytes"
      using append_take_drop_id [of 16 "drop 2 bytes"] by simp
    finally show ?thesis .
  qed
  have code: "char_of (code_of x) = x" for x by (simp add: code_of_def)
  show ?thesis
  proof (cases f)
    case (WireData c p)
    then have "code_of (bytes ! 1) = 1" "c = fu ?b" "p = drop 18 bytes"
      using assms(2) len v by (auto simp: wire_decode_def Let_def split: if_splits sum.splits)
    then show ?thesis using WireData ub v split code [of "bytes ! 0"] code [of "bytes ! 1"]
      by (simp add: wire_encode_def wire_community_def)
  next
    case (WireGoodbye c reason)
    then have k: "code_of (bytes ! 1) = 2" "c = fu ?b" "length bytes = 19" "to_wire_byte reason = code_of (bytes ! 18)"
      using assms(2) len v by (auto simp: wire_decode_def Let_def wire_byte_inverse split: if_splits sum.splits)
    have "drop 18 bytes = [bytes ! 18]"
      using k(3) by (simp add: Cons_nth_drop_Suc [symmetric])
    then show ?thesis using WireGoodbye k ub v split code [of "bytes ! 0"] code [of "bytes ! 1"] code [of "bytes ! 18"]
      by (simp add: wire_encode_def wire_community_def)
  qed
qed

text \<open>The two directions together: the decoder accepts exactly what the encoder writes.\<close>

theorem reliable_frames_round_trip:
  assumes "uuid_codec_ok ub fu"
  shows "wire_decode fu bytes = Inr f \<longleftrightarrow> wire_encode ub f = bytes \<and> is_uuid fu (wire_community f)"
  using wire_encode_decode [OF assms] wire_decode_encode [OF assms] by blast

text \<open>Ids that are their own 16 bytes.\<close>

theorem reliable_frames_round_trip_witness:
  "wire_decode id (wire_encode id (WireGoodbye ''0123456789abcdef'' OwnerDraining))
     = Inr (WireGoodbye ''0123456789abcdef'' OwnerDraining)"
  using reliable_frames_round_trip [of id id]
  by (simp add: uuid_codec_ok_def is_uuid_def wire_community_def)

section \<open>Chunks\<close>

lemma chunks_concat [simp]: "0 < n \<Longrightarrow> concat (chunks n xs) = xs"
  by (induction n xs rule: chunks.induct) (subst chunks.simps, simp)

lemma chunks_sizes: "c \<in> set (chunks n xs) \<Longrightarrow> c \<noteq> [] \<and> length c \<le> n"
  by (induction n xs rule: chunks.induct) (subst (asm) (2) chunks.simps, auto split: if_splits)

lemma max_payload_pos [simp]: "0 < MAX_RELIABLE_PAYLOAD_BYTES"
  by (simp add: MAX_RELIABLE_PAYLOAD_BYTES_def)

definition data_frames :: "(uuid \<Rightarrow> string) \<Rightarrow> fenced_header \<Rightarrow> uuid \<Rightarrow> string \<Rightarrow> mesh_stream_frame list" where
  "data_frames ub f c bytes =
     map (\<lambda>p. FrameData f (wire_encode ub (WireData c p))) (chunks MAX_RELIABLE_PAYLOAD_BYTES bytes)"

lemma send_chunks_all:
  "(\<And>out fr. fails out fr = None) \<Longrightarrow>
   send_chunks ub fails c ps st =
     (Inr (), st\<lparr>st_sent := st_sent st @ map (\<lambda>p. FrameData (st_fenced st) (wire_encode ub (WireData c p))) ps\<rparr>)"
  by (induction ps arbitrary: st) (simp_all add: transmit_def)

lemma send_chunks_prefix:
  "send_chunks ub fails c ps st = (res, st') \<Longrightarrow>
   \<exists>k\<le>length ps. st_sent st' = st_sent st @ map (\<lambda>p. FrameData (st_fenced st) (wire_encode ub (WireData c p))) (take k ps) \<and>
      (res = Inr () \<longrightarrow> k = length ps) \<and> st_fenced st' = st_fenced st"
proof (induction ps arbitrary: st)
  case (Cons p ps)
  let ?f = "FrameData (st_fenced st) (wire_encode ub (WireData c p))"
  show ?case
  proof (cases "fails (st_sent st) ?f")
    case (Some e)
    then show ?thesis using Cons.prems by (auto simp: transmit_def intro!: exI [of _ 0])
  next
    case None
    then obtain k where "k \<le> length ps" "st_sent st' = (st_sent st @ [?f]) @
        map (\<lambda>p. FrameData (st_fenced st) (wire_encode ub (WireData c p))) (take k ps)"
      "res = Inr () \<longrightarrow> k = length ps" "st_fenced st' = st_fenced st"
      using Cons.prems Cons.IH [of "st\<lparr>st_sent := st_sent st @ [?f]\<rparr>"] by (auto simp: transmit_def)
    then show ?thesis by (intro exI [of _ "Suc k"]) simp
  qed
qed simp

section \<open>Receiving behind the fence\<close>

text \<open>Nothing is delivered that the directory does not vouch for at that moment.\<close>

lemma recv_validated_fence:
  assumes "recv_validated fu R hx n r st = (Inr (Some out), st')"
  shows "\<exists>payload rest frame. st_incoming st = Inr (FrameData (st_fenced st) payload) # rest \<and>
     wire_decode fu payload = Inr frame \<and> st_community st' = Some (wire_community frame) \<and>
     (st_community st = None \<or> st_community st = st_community st') \<and>
     validate_fenced_header R hx (wire_community frame) (st_fenced st) n r = Inr () \<and>
     st_fenced st' = st_fenced st \<and> st_incoming st' = rest \<and>
     out = (case frame of WireData _ p \<Rightarrow> ReliableData p | WireGoodbye _ g \<Rightarrow> ReliableGoodbye g)"
proof -
  obtain f payload rest where inc: "st_incoming st = Inr (FrameData f payload) # rest"
    using assms by (auto simp: recv_validated_def Let_def split: list.splits sum.splits mesh_stream_frame.splits)
  obtain frame where dec: "wire_decode fu payload = Inr frame"
    using assms inc by (auto simp: recv_validated_def Let_def split: sum.splits)
  obtain st2 where v: "validate_frame_fence R hx n r (wire_community frame) f (st\<lparr>st_incoming := rest\<rparr>) = (Inr (), st2)"
    using assms inc dec by (auto simp: recv_validated_def Let_def split: sum.splits prod.splits)
  then have "f = st_fenced st" "st_community st = None \<or> st_community st = Some (wire_community frame)"
    "validate_fenced_header R hx (wire_community frame) f n r = Inr ()"
    "st2 = (if st_community st = None then st\<lparr>st_incoming := rest, st_community := Some (wire_community frame)\<rparr>
            else st\<lparr>st_incoming := rest\<rparr>)"
    by (auto simp: validate_frame_fence_def split: if_splits option.splits sum.splits)
  with assms inc dec v show ?thesis
    by (cases frame) (auto simp: recv_validated_def Let_def)
qed

theorem delivery_needs_live_owner:
  assumes "lease_inv R hx c (fh_session (st_fenced st)) k r"
    "recv_validated fu R hx n r st = (Inr (Some out), st')" "st_community st' = Some c"
  shows "lease_holder R hx c (fh_session (st_fenced st)) r =
      Some (fh_owner (st_fenced st), fh_generation (st_fenced st)) \<and>
    (st_community st = None \<or> st_community st = Some c) \<and> st_fenced st' = st_fenced st"
proof -
  obtain frame where "validate_fenced_header R hx (wire_community frame) (st_fenced st) n r = Inr ()"
    "wire_community frame = c" "st_community st = None \<or> st_community st = st_community st'"
    "st_fenced st' = st_fenced st"
    using recv_validated_fence [OF assms(2)] assms(3) by auto
  then show ?thesis
    using leases.validate_true [of R hx c "st_fenced st" k r 1 n "()"] assms(1,3)
    by (auto simp: session_directory_def)
qed

text \<open>The receiving loop of a consumer, one validated frame after the other.\<close>

fun recv_many ::
  "(string \<Rightarrow> uuid) \<Rightarrow> 'r redis \<Rightarrow> (string \<Rightarrow> runtime_id option) \<Rightarrow> 'r list \<Rightarrow> reliable_stream \<Rightarrow>
   reliable_frame list \<times> reliable_error option" where
  "recv_many fu R hx [] st = ([], None)"
| "recv_many fu R hx (r # rs) st =
     (case recv_validated fu R hx NetOk r st of
        (Inl e, _) \<Rightarrow> ([], Some e)
      | (Inr None, _) \<Rightarrow> ([], None)
      | (Inr (Some x), st') \<Rightarrow> (case recv_many fu R hx rs st' of (xs, e) \<Rightarrow> (x # xs, e)))"

lemma recv_one:
  assumes "uuid_codec_ok ub fu" "is_uuid fu c" "st_community st = None \<or> st_community st = Some c"
    "st_incoming st = Inr (FrameData (st_fenced st) (wire_encode ub (WireData c p))) # rest"
    "validate_fenced_header R hx c (st_fenced st) NetOk r = Inr ()"
  shows "recv_validated fu R hx NetOk r st =
    (Inr (Some (ReliableData p)), st\<lparr>st_incoming := rest, st_community := Some c\<rparr>)"
  using assms(3,4,5) wire_decode_encode [OF assms(1), of "WireData c p"] assms(2)
  by (auto simp: recv_validated_def validate_frame_fence_def wire_community_def)

lemma recv_pieces:
  assumes "uuid_codec_ok ub fu" "is_uuid fu c"
  shows "st_community st = None \<or> st_community st = Some c \<Longrightarrow>
    st_incoming st = map (\<lambda>p. Inr (FrameData (st_fenced st) (wire_encode ub (WireData c p)))) ps \<Longrightarrow>
    length rs = length ps \<Longrightarrow> \<forall>r \<in> set rs. validate_fenced_header R hx c (st_fenced st) NetOk r = Inr () \<Longrightarrow>
    recv_many fu R hx rs st = (map ReliableData ps, None)"
proof (induction ps arbitrary: st rs)
  case (Cons p ps)
  then obtain r rs' where rs: "rs = r # rs'" by (cases rs) auto
  have "recv_validated fu R hx NetOk r st = (Inr (Some (ReliableData p)),
      st\<lparr>st_incoming := map (\<lambda>p. Inr (FrameData (st_fenced st) (wire_encode ub (WireData c p)))) ps, st_community := Some c\<rparr>)"
    using Cons.prems rs by (intro recv_one [OF assms]) auto
  then show ?case using Cons rs by simp
qed simp

text \<open>
  C31: The tunnel delivers what was sent: the bytes of one side, cut into frames of at most one MiB, come
  out on the other side unchanged and in order, as long as the sender's lease stays live.
\<close>

theorem tunnel_delivers_bytes:
  assumes "uuid_codec_ok ub fu" "is_uuid fu c" "\<And>out fr. fails out fr = None"
    "send_bytes ub fails c bytes (stream_new f []) = (res, st)"
    "length rs = length (st_sent st)" "\<forall>r \<in> set rs. validate_fenced_header R hx c f NetOk r = Inr ()"
  shows "\<exists>ps. recv_many fu R hx rs (stream_new f (map Inr (st_sent st))) = (map ReliableData ps, None) \<and>
    concat ps = bytes \<and> (\<forall>p \<in> set ps. length p \<le> MAX_RELIABLE_PAYLOAD_BYTES)"
proof -
  let ?ps = "chunks MAX_RELIABLE_PAYLOAD_BYTES bytes"
  have sent: "st_sent st = map (\<lambda>p. FrameData f (wire_encode ub (WireData c p))) ?ps"
    using assms(4) by (auto simp: send_bytes_def ensure_outbound_community_def stream_new_def send_chunks_all [OF assms(3)])
  have "recv_many fu R hx rs (stream_new f (map Inr (st_sent st))) = (map ReliableData ?ps, None)"
    using assms(5,6) sent by (intro recv_pieces [OF assms(1,2)]) (simp_all add: stream_new_def)
  then show ?thesis using chunks_sizes by (intro exI [of _ ?ps]) auto
qed

definition demo_bytes_of :: "uuid \<Rightarrow> string" where
  "demo_bytes_of u = (if u = ''c'' then ''0123456789abcdef'' else u)"

definition demo_of_bytes :: "string \<Rightarrow> uuid" where
  "demo_of_bytes b = (if b = ''0123456789abcdef'' then ''c'' else b)"

lemma demo_uuid_codec: "uuid_codec_ok demo_bytes_of demo_of_bytes"
  by (auto simp: uuid_codec_ok_def demo_bytes_of_def demo_of_bytes_def)

lemma demo_is_uuid: "is_uuid demo_of_bytes ''c''"
  by (auto simp: is_uuid_def demo_of_bytes_def intro!: exI [of _ "''0123456789abcdef''"])

definition demo_fence :: fenced_header where
  "demo_fence = fenced_header_of (demo_lease demo_owner 1)"

lemma demo_fence_live: "validate_fenced_header demo_redis demo_hex ''c'' demo_fence NetOk demo_after = Inr ()"
  using validate_names_holder [OF demo_hex_ok, of demo_redis "''c''" demo_fence] demo_epoch_first
  by (simp add: demo_fence_def fenced_header_of_def demo_lease_def)

theorem tunnel_delivers_bytes_witness:
  "\<exists>ps. recv_many demo_of_bytes demo_redis demo_hex [demo_after]
      (stream_new demo_fence [Inr (FrameData demo_fence (wire_encode demo_bytes_of (WireData ''c'' ''hello'')))])
      = (map ReliableData ps, None) \<and> concat ps = ''hello''"
proof -
  have "chunks MAX_RELIABLE_PAYLOAD_BYTES ''hello'' = [''hello'']"
    by (simp add: chunks.simps MAX_RELIABLE_PAYLOAD_BYTES_def)
  then have "send_bytes demo_bytes_of (\<lambda>_ _. None) ''c'' ''hello'' (stream_new demo_fence []) =
      (Inr (), (stream_new demo_fence [])\<lparr>st_community := Some ''c'',
         st_sent := [FrameData demo_fence (wire_encode demo_bytes_of (WireData ''c'' ''hello''))]\<rparr>)"
    by (simp add: send_bytes_def ensure_outbound_community_def stream_new_def transmit_def)
  from tunnel_delivers_bytes [OF demo_uuid_codec demo_is_uuid _ this, of "[demo_after]" demo_redis demo_hex]
  show ?thesis using demo_fence_live by (auto simp: stream_new_def)
qed

text \<open>
  Accepting a stream is exactly four checks, and joining hands out a lease only when the directory
  names this relay.
\<close>

theorem accept_inbound_checks:
  "(\<exists>inb. reliable_accept_inbound me peer hello incoming = Inr inb) \<longleftrightarrow>
   sh_sender hello = peer \<and> (\<exists>f. sh_role hello = SessionRole f ReliableStream \<and> fh_owner f = me)"
  by (auto simp: reliable_accept_inbound_def split: stream_role.splits if_splits)

theorem join_is_owned_by_holder:
  assumes "lease_inv R hx c s (Suc k) r" "is_lower_hex 64 me"
    "reliable_join_session R hx ttl me opens c s n r = (Inr j, r')"
  shows "(case j of
      Owned l \<Rightarrow> sl_owner l = me \<and> lease_holder R hx c s r' = Some (me, sl_generation l)
    | Forwarded l st \<Rightarrow> sl_owner l \<noteq> me \<and> st_fenced st = fenced_header_of l \<and>
        lease_holder R hx c s r' = Some (sl_owner l, sl_generation l))"
proof -
  obtain e where e: "epoch_is R c s r e" "fst e + Suc k < 10 ^ 14" and ok: "redis_ok R" "hex_ok hx" "id_ok c"
    using assms(1) by (auto simp: lease_inv_def)
  obtain a where a: "dir_acquire R hx ttl c s me ReliableStream n r = (Inr a, r')"
    using assms(3) by (auto simp: reliable_join_session_def Let_def split: sum.splits prod.splits acquire_result.splits if_splits)
  show ?thesis
  proof (cases a)
    case (Acquired l)
    then have got: "epoch_is R c s r' (Suc (fst e), Some (me, ReliableStream))" "sl_owner l = me" "sl_generation l = Suc (fst e)"
      using dir_acquire_Acquired [OF ok(1,2) e(1) _ assms(2), of ttl ReliableStream n l r'] a e(2) by auto
    then show ?thesis using assms(3) a Acquired lease_holder_epoch [OF ok(2) got(1)] e(2)
      by (auto simp: reliable_join_session_def)
  next
    case (Exists l)
    then have got: "r' = r" "holder_lease c s e = Some l"
      using dir_acquire_Exists [OF ok(1,2) e(1) _ assms(2), of ttl ReliableStream n l r'] a e(2) by auto
    then have "lease_holder R hx c s r' = Some (sl_owner l, sl_generation l)"
      using lease_holder_epoch [OF ok(2) e(1)] e(2) by (auto simp: holder_lease_def)
    then show ?thesis using assms(3) a Exists
      by (auto simp: reliable_join_session_def Let_def stream_new_def split: if_splits sum.splits)
  qed
qed

text \<open>The renewer of a tunnel and the renewer of a huddle behave alike.\<close>

lemma finish_renewers_agree:
  "finish_lease_renewer R hx l n cc lost r = finish_renewer (session_directory R hx ttl) l n cc lost r"
  by (auto simp: finish_lease_renewer_def finish_renewer_def session_directory_def huddle_release_def as_transport_def
      split: prod.splits sum.splits release_result.splits)

text \<open>
  On the same directory and the same sequence of ticks, both renewers make the same calls, leave the
  same database and signal the same loss.
\<close>

theorem renewers_agree:
  "run_lease_renewer R hx ttl env l n evs r = run_renewer (session_directory R hx ttl) env l n evs r"
proof (induction evs arbitrary: r)
  case (Cons ev evs)
  show ?case
  proof (cases ev)
    case (Tick m ops)
    obtain res r1 where r1: "dir_renew R hx ttl l m (foldl env r ops) = (res, r1)" by fastforce
    have hd: "hd_renew (session_directory R hx ttl) l m (foldl env r ops) =
        (as_transport (map_sum id renew_outcome_of res), r1)"
      using r1 by (simp add: session_directory_def huddle_renew_def)
    show ?thesis
      using Tick r1 hd Cons.IH [of r1] finish_renewers_agree [of R hx l n False True r1 ttl]
      by (cases res; cases "\<exists>l'. res = Inr (Renewed l')")
        (auto simp: as_transport_def renew_outcome_of_def split: renew_result.splits)
  next
    case (CallerCancel ops)
    then show ?thesis using finish_renewers_agree [of R hx l n True False "foldl env r ops" ttl] by simp
  qed
qed simp

end
