(* ===== verification/HuddleControl.thy ===== *)
theory HuddleControl
  imports AudioRoom HuddleOwner MeshWire
begin

text \<open>
  Huddles across relays: the control messages between the owner of a huddle and the relays whose
  clients take part in it, the owner's control loop, the other side's reader and dial, and the media
  path with its generation floor, from \<open>crates/buzz-relay/src/audio\<close> (\<open>join.rs\<close>, \<open>mesh.rs\<close>).

  \<^item> The loop of the owner selects among the drain signal, the loss signal, a roster event and the next
    frame; the argument is the sequence of what it selected. What the rest of the world contributes
    to one turn is in the \<open>turn\<close> record: the verdict of the directory, whether shutdown has begun, the
    fresh peer id and which send fails.
  \<^item> The rooms are the manager of \<open>AudioRoom\<close>. A registered room handle is its address.
  \<^item> \<open>joined_text\<close>, \<open>left_text\<close> and \<open>roster_text\<close> of the reader are the messages themselves; their JSON is
    written by \<open>serde_json\<close>, whose text is the argument \<open>js\<close> where a room broadcasts it.
  \<^item> The payload codec is \<open>postcard\<close>; a decoded payload is the argument's result.
\<close>

section \<open>Control messages\<close>

datatype fence_rejection = RejStaleGeneration | RejNoActiveLease | RejOwnerMismatch | RejFutureGeneration

definition fence_rejection_of :: "relay_mesh_error \<Rightarrow> fence_rejection option" where
  "fence_rejection_of e = (case e of
      StaleGeneration _ _ _ \<Rightarrow> Some RejStaleGeneration
    | NoActiveLease _ _ _ _ \<Rightarrow> Some RejNoActiveLease
    | OwnerMismatch _ _ _ _ \<Rightarrow> Some RejOwnerMismatch
    | FutureGeneration _ _ _ \<Rightarrow> Some RejFutureGeneration
    | _ \<Rightarrow> None)"

definition fence_rejection_code :: "fence_rejection \<Rightarrow> string" where
  "fence_rejection_code r = (case r of
      RejStaleGeneration \<Rightarrow> ''stale_generation''
    | RejNoActiveLease \<Rightarrow> ''no_active_lease''
    | RejOwnerMismatch \<Rightarrow> ''owner_mismatch''
    | RejFutureGeneration \<Rightarrow> ''future_generation'')"

datatype register_rejection = RoomFull | RoomEnded | RoomVersionMismatch nat nat | Fenced fence_rejection

definition admission_to_rejection :: "admission_error \<Rightarrow> register_rejection" where
  "admission_to_rejection e = (case e of
      Full \<Rightarrow> RoomFull | Ended \<Rightarrow> RoomEnded | VersionMismatch pinned requested \<Rightarrow> RoomVersionMismatch pinned requested)"

datatype huddle_control_msg =
    RegisterPeer uuid string nat
  | PeerRegistered string nat roster_snapshot
  | RosterSnapshotMsg roster_snapshot
  | RosterDeltaMsg "64 word" "roster_peer option" "roster_peer option"
  | RosterResync
  | RegisterRejected string register_rejection
  | UnregisterPeer string

definition roster_snapshot_msg :: "room \<Rightarrow> huddle_control_msg" where
  "roster_snapshot_msg r = RosterSnapshotMsg (roster_snapshot r)"

definition roster_delta_msg :: "roster_delta \<Rightarrow> huddle_control_msg" where
  "roster_delta_msg d = RosterDeltaMsg (rd_revision d) (rd_joined d) (rd_left d)"

section \<open>The owner's control loop\<close>

text \<open>The broadcast texts \<open>joined\<close> and \<open>left\<close> of a peer.\<close>

record broadcast_text =
  js_joined :: "string \<Rightarrow> nat \<Rightarrow> string"
  js_left :: "string \<Rightarrow> nat \<Rightarrow> string"

record control_loop =
  cl_rooms :: room_manager
  cl_registered :: "(string, uuid) hmap"
  cl_community :: "uuid option"
  cl_roster_rx :: "nat option"
  cl_sent :: "huddle_control_msg list"

definition control_loop_new :: "room_manager \<Rightarrow> control_loop" where
  "control_loop_new rooms =
     \<lparr>cl_rooms = rooms, cl_registered = [], cl_community = None, cl_roster_rx = None, cl_sent = []\<rparr>"

datatype roster_event = RosterPublished roster_delta | RosterLagged | RosterClosed

text \<open>A frame as \<open>recv_frame\<close> returns it, its payload decoded.\<close>

datatype control_frame =
    ControlData fenced_header "relay_mesh_error + huddle_control_msg"
  | ControlGoodbye
  | ControlEnd
  | ControlOther
  | ControlError relay_mesh_error

record turn =
  tn_draining :: bool
  tn_verdict :: "relay_mesh_error + unit"
  tn_peer_id :: uuid
  tn_send :: "relay_mesh_error option"

datatype control_event =
    DrainFired
  | LostFired
  | RosterEvent roster_event turn
  | FrameEvent control_frame turn

text \<open>
  How one turn of the loop ends: it goes on, it breaks with a result and possibly a reason for the
  goodbye, or it leaves the function with an error (the operator \<open>?\<close>).
\<close>

datatype turn_end =
    GoOn control_loop
  | Break "relay_mesh_error + unit" "goodbye_reason option" control_loop
  | Leave relay_mesh_error control_loop

definition send_control :: "turn \<Rightarrow> huddle_control_msg \<Rightarrow> control_loop \<Rightarrow> (relay_mesh_error + unit) \<times> control_loop" where
  "send_control t msg cl =
     (case tn_send t of Some e \<Rightarrow> (Inl e, cl) | None \<Rightarrow> (Inr (), cl\<lparr>cl_sent := cl_sent cl @ [msg]\<rparr>))"

definition room_at :: "nat \<Rightarrow> room_manager \<Rightarrow> room" where
  "room_at a m = mg_store m ! a"

definition loop_room :: "uuid \<Rightarrow> control_loop \<Rightarrow> nat option" where
  "loop_room session cl =
     (case cl_community cl of None \<Rightarrow> None | Some c \<Rightarrow> get_room c session (cl_rooms cl))"

definition in_room :: "nat \<Rightarrow> (room \<Rightarrow> room) \<Rightarrow> control_loop \<Rightarrow> control_loop" where
  "in_room a f cl = cl\<lparr>cl_rooms := snd (on_room a (\<lambda>r. ((), f r)) (cl_rooms cl))\<rparr>"

text \<open>Taking one registered peer out of the room, with the \<open>left\<close> message to those who stay.\<close>

definition drop_remote_peer :: "broadcast_text \<Rightarrow> string \<Rightarrow> uuid \<Rightarrow> room \<Rightarrow> room" where
  "drop_remote_peer js pubkey peer_id r =
     (case hget (rm_peers r) peer_id of
        None \<Rightarrow> remove_peer peer_id r
      | Some p \<Rightarrow> broadcast_control (js_left js pubkey (ap_peer_index p)) (remove_peer peer_id r))"

definition register_remote_peer ::
  "broadcast_text \<Rightarrow> nat \<Rightarrow> string \<Rightarrow> nat \<Rightarrow> turn \<Rightarrow> control_loop \<Rightarrow> huddle_control_msg \<times> control_loop" where
  "register_remote_peer js a pubkey version t cl =
     (case add_peer (tn_peer_id t) pubkey version (room_at a (cl_rooms cl)) of
        (Inr idx, r) \<Rightarrow>
          let r' = broadcast_control (js_joined js pubkey idx) r;
              cl' = in_room a (\<lambda>_. r') (cl\<lparr>cl_registered := hinsert pubkey (tn_peer_id t) (cl_registered cl)\<rparr>)
          in (PeerRegistered pubkey idx (roster_snapshot r'), cl')
      | (Inl e, r) \<Rightarrow> (RegisterRejected pubkey (admission_to_rejection e), in_room a (\<lambda>_. r) cl))"

definition on_roster_event :: "uuid \<Rightarrow> roster_event \<Rightarrow> turn \<Rightarrow> control_loop \<Rightarrow> turn_end" where
  "on_roster_event session ev t cl =
     (let reply = (\<lambda>msg. case send_control t msg cl of (Inl e, cl') \<Rightarrow> Leave e cl' | (Inr _, cl') \<Rightarrow> GoOn cl')
      in case ev of
           RosterPublished d \<Rightarrow> reply (roster_delta_msg d)
         | RosterLagged \<Rightarrow>
             (case loop_room session cl of
                None \<Rightarrow> Break (Inr ()) None cl
              | Some a \<Rightarrow> reply (roster_snapshot_msg (room_at a (cl_rooms cl))))
         | RosterClosed \<Rightarrow> Break (Inr ()) None cl)"

definition on_register ::
  "broadcast_text \<Rightarrow> uuid \<Rightarrow> uuid \<Rightarrow> string \<Rightarrow> nat \<Rightarrow> turn \<Rightarrow> control_loop \<Rightarrow> turn_end" where
  "on_register js session c pubkey version t cl0 =
     (if (case cl_community cl0 of Some latched \<Rightarrow> latched \<noteq> c | None \<Rightarrow> False)
      then Break (Inl (MeshTransport ''huddle-control stream community changed '')) None cl0
      else
        (let cl = cl0\<lparr>cl_community := Some c\<rparr>
         in if tn_draining t then Break (Inr ()) (Some OwnerDraining) cl
            else
              (case get_or_create c session (cl_rooms cl) of (a, rooms) \<Rightarrow>
                 let cl1 = cl\<lparr>cl_rooms := rooms\<rparr>
                 in case (case tn_verdict t of
                            Inr _ \<Rightarrow> Inr (register_remote_peer js a pubkey version t cl1)
                          | Inl e \<Rightarrow>
                              (case fence_rejection_of e of
                                 Some reason \<Rightarrow> Inr (RegisterRejected pubkey (Fenced reason), cl1)
                               | None \<Rightarrow> Inl e)) of
                      Inl e \<Rightarrow> Break (Inl e) None cl1
                    | Inr (reply, cl2) \<Rightarrow>
                        (case send_control t reply cl2 of
                           (Inl e, cl3) \<Rightarrow> Break (Inl e) None cl3
                         | (Inr _, cl3) \<Rightarrow>
                             GoOn (case reply of
                                     PeerRegistered _ _ _ \<Rightarrow> cl3\<lparr>cl_roster_rx := Some a\<rparr>
                                   | _ \<Rightarrow> cl3)))))"

definition on_unregister :: "broadcast_text \<Rightarrow> uuid \<Rightarrow> string \<Rightarrow> control_loop \<Rightarrow> turn_end" where
  "on_unregister js session pubkey cl =
     (case hget (cl_registered cl) pubkey of
        None \<Rightarrow> GoOn cl
      | Some peer_id \<Rightarrow>
          let cl' = cl\<lparr>cl_registered := hremove pubkey (cl_registered cl)\<rparr>
          in GoOn (case loop_room session cl' of
                     None \<Rightarrow> cl' | Some a \<Rightarrow> in_room a (drop_remote_peer js pubkey peer_id) cl'))"

definition on_control_msg ::
  "broadcast_text \<Rightarrow> uuid \<Rightarrow> huddle_control_msg \<Rightarrow> turn \<Rightarrow> control_loop \<Rightarrow> turn_end" where
  "on_control_msg js session msg t cl =
     (case msg of
        RegisterPeer c pubkey version \<Rightarrow> on_register js session c pubkey version t cl
      | UnregisterPeer pubkey \<Rightarrow> on_unregister js session pubkey cl
      | RosterResync \<Rightarrow>
          (case loop_room session cl of
             None \<Rightarrow> Break (Inr ()) None cl
           | Some a \<Rightarrow>
               (case send_control t (roster_snapshot_msg (room_at a (cl_rooms cl))) cl of
                  (Inl e, cl') \<Rightarrow> Leave e cl'
                | (Inr _, cl') \<Rightarrow> GoOn cl'))
      | _ \<Rightarrow> Break (Inl (MeshTransport ''huddle-control owner received an owner->non-owner reply'')) None cl)"

definition control_turn ::
  "broadcast_text \<Rightarrow> runtime_id \<Rightarrow> fenced_header \<Rightarrow> control_event \<Rightarrow> control_loop \<Rightarrow> turn_end" where
  "control_turn js me fenced ev cl =
     (case ev of
        DrainFired \<Rightarrow> Break (Inr ()) (Some OwnerDraining) cl
      | LostFired \<Rightarrow> Break (Inr ()) (Some GenerationStale) cl
      | RosterEvent rv t \<Rightarrow>
          if cl_roster_rx cl = None then GoOn cl else on_roster_event (fh_session fenced) rv t cl
      | FrameEvent frame t \<Rightarrow>
          (case frame of
             ControlData f payload \<Rightarrow>
               if f \<noteq> fenced
               then Break (Inl (OwnerMismatch (fh_session fenced) (fh_generation f) (fh_owner f) me)) None cl
               else (case payload of
                       Inl e \<Rightarrow> Break (Inl e) None cl
                     | Inr msg \<Rightarrow> on_control_msg js (fh_session fenced) msg t cl)
           | ControlGoodbye \<Rightarrow> Break (Inr ()) None cl
           | ControlEnd \<Rightarrow> Break (Inr ()) None cl
           | ControlOther \<Rightarrow> Break (Inl (MeshTransport ''huddle-control stream got unexpected frame '')) None cl
           | ControlError e \<Rightarrow> Break (Inl e) None cl))"

fun drop_all :: "broadcast_text \<Rightarrow> (string \<times> uuid) list \<Rightarrow> room \<Rightarrow> room" where
  "drop_all js [] r = r"
| "drop_all js ((pubkey, peer_id) # peers) r = drop_all js peers (drop_remote_peer js pubkey peer_id r)"

text \<open>The end of the function after the loop has broken: the registered peers leave the room.\<close>

definition teardown :: "broadcast_text \<Rightarrow> uuid \<Rightarrow> control_loop \<Rightarrow> control_loop" where
  "teardown js session cl =
     (case loop_room session cl of
        None \<Rightarrow> cl | Some a \<Rightarrow> in_room a (drop_all js (cl_registered cl)) cl)"

record served =
  sv_result :: "relay_mesh_error + unit"
  sv_goodbye :: "goodbye_reason option"
  sv_loop :: control_loop

text \<open>The whole function; \<open>None\<close> while the loop is still waiting.\<close>

fun serve_control_loop ::
  "broadcast_text \<Rightarrow> runtime_id \<Rightarrow> fenced_header \<Rightarrow> control_event list \<Rightarrow> control_loop \<Rightarrow> served option" where
  "serve_control_loop js me fenced [] cl = None"
| "serve_control_loop js me fenced (ev # evs) cl =
     (case control_turn js me fenced ev cl of
        GoOn cl' \<Rightarrow> serve_control_loop js me fenced evs cl'
      | Break res reason cl' \<Rightarrow>
          Some \<lparr>sv_result = res, sv_goodbye = reason, sv_loop = teardown js (fh_session fenced) cl'\<rparr>
      | Leave e cl' \<Rightarrow> Some \<lparr>sv_result = Inl e, sv_goodbye = None, sv_loop = cl'\<rparr>)"

text \<open>The structural checks before the loop, and the signals it listens to.\<close>

definition huddle_accept_inbound ::
  "runtime_id \<Rightarrow> runtime_id \<Rightarrow> stream_hello \<Rightarrow> relay_mesh_error + fenced_header" where
  "huddle_accept_inbound me peer hello =
     (if sh_sender hello \<noteq> peer then Inl (MeshTransport ''huddle-control hello.sender '')
      else (case sh_role hello of
              ControlRole \<Rightarrow> Inl (MeshTransport ''huddle-control stream Hello was not a session role'')
            | SessionRole f prof \<Rightarrow>
                if prof \<noteq> HuddleControl then Inl (MeshTransport ''huddle-control acceptor got profile '')
                else if fh_owner f \<noteq> me
                then Inl (OwnerMismatch (fh_session f) (fh_generation f) (fh_owner f) me)
                else Inr f))"

section \<open>The other side: reader and dial\<close>

datatype teardown_cause = OwnerLost | OwnerIsDraining | SessionIsEnded | StreamClosed

definition from_goodbye :: "goodbye_reason \<Rightarrow> teardown_cause" where
  "from_goodbye r = (case r of
      GenerationStale \<Rightarrow> OwnerLost | OwnerDraining \<Rightarrow> OwnerIsDraining | SessionEnded \<Rightarrow> SessionIsEnded)"

text \<open>What the client is told: its control socket.\<close>

datatype client_text =
    TextRoster "64 word" "roster_peer list"
  | TextJoined "64 word" roster_peer
  | TextLeft "64 word" roster_peer

text \<open>
  A frame from the owner; \<open>OwnerData\<close> carries the decoded payload, whether the client's socket takes
  the text it may cause, and whether the stream takes a request for a snapshot.
\<close>

datatype owner_frame =
    OwnerGoodbye goodbye_reason
  | OwnerData "relay_mesh_error + huddle_control_msg" bool bool
  | OwnerOther
  | OwnerEnd
  | OwnerError relay_mesh_error

record reader =
  rr_revision :: "64 word"
  rr_texts :: "client_text list"
  rr_requests :: nat

definition tell :: "bool \<Rightarrow> client_text \<Rightarrow> reader \<Rightarrow> teardown_cause option \<times> reader" where
  "tell ok text rr =
     (if ok then (None, rr\<lparr>rr_texts := rr_texts rr @ [text]\<rparr>) else (Some SessionIsEnded, rr))"

definition read_owner_msg :: "huddle_control_msg \<Rightarrow> bool \<Rightarrow> bool \<Rightarrow> reader \<Rightarrow> teardown_cause option \<times> reader" where
  "read_owner_msg msg told asked rr =
     (case msg of
        RosterSnapshotMsg snap \<Rightarrow>
          tell told (TextRoster (rs_revision snap) (rs_peers snap)) (rr\<lparr>rr_revision := rs_revision snap\<rparr>)
      | RosterDeltaMsg nxt joined left \<Rightarrow>
          if nxt = rr_revision rr + 1
          then (let rr' = rr\<lparr>rr_revision := nxt\<rparr>
                in case joined of
                     Some p \<Rightarrow> tell told (TextJoined nxt p) rr'
                   | None \<Rightarrow> (case left of Some p \<Rightarrow> tell told (TextLeft nxt p) rr' | None \<Rightarrow> (None, rr')))
          else if nxt \<le> rr_revision rr then (None, rr)
          else if asked then (None, rr\<lparr>rr_requests := rr_requests rr + 1\<rparr>)
          else (Some StreamClosed, rr)
      | _ \<Rightarrow> (None, rr))"

fun read_owner_control :: "owner_frame list \<Rightarrow> reader \<Rightarrow> teardown_cause option \<times> reader" where
  "read_owner_control [] rr = (None, rr)"
| "read_owner_control (fr # frs) rr =
     (case fr of
        OwnerGoodbye reason \<Rightarrow> (Some (from_goodbye reason), rr)
      | OwnerData (Inr msg) told asked \<Rightarrow>
          (case read_owner_msg msg told asked rr of
             (Some cause, rr') \<Rightarrow> (Some cause, rr')
           | (None, rr') \<Rightarrow> read_owner_control frs rr')
      | OwnerData (Inl _) _ _ \<Rightarrow> read_owner_control frs rr
      | OwnerOther \<Rightarrow> read_owner_control frs rr
      | OwnerEnd \<Rightarrow> (Some StreamClosed, rr)
      | OwnerError _ \<Rightarrow> (Some StreamClosed, rr))"

fun read_teardown_cause :: "owner_frame list \<Rightarrow> teardown_cause option" where
  "read_teardown_cause [] = None"
| "read_teardown_cause (fr # frs) =
     (case fr of
        OwnerGoodbye reason \<Rightarrow> Some (from_goodbye reason)
      | OwnerEnd \<Rightarrow> Some StreamClosed
      | OwnerError _ \<Rightarrow> Some StreamClosed
      | _ \<Rightarrow> read_teardown_cause frs)"

datatype dial_error = Rejected register_rejection | DialMesh relay_mesh_error

record remote_session =
  re_peer_index :: nat
  re_roster :: roster_snapshot
  re_fenced :: fenced_header
  re_owner :: runtime_id
  re_pubkey :: string
  re_seq :: "64 word"

definition dial_hello :: "runtime_id \<Rightarrow> fenced_header \<Rightarrow> stream_hello" where
  "dial_hello me f = \<lparr>sh_sender = me, sh_role = SessionRole f HuddleControl\<rparr>"

text \<open>
  The dial after its \<open>RegisterPeer\<close>: \<open>opened\<close> and \<open>registered\<close> are the errors of opening the stream and of
  the first send, \<open>reply\<close> is what comes back.
\<close>

definition dial_remote_owner ::
  "relay_mesh_error option \<Rightarrow> relay_mesh_error option \<Rightarrow> owner_frame \<Rightarrow> runtime_id \<Rightarrow> fenced_header \<Rightarrow> string \<Rightarrow>
   dial_error + remote_session" where
  "dial_remote_owner opened registered reply owner f pubkey =
     (case (opened, registered) of
        (Some e, _) \<Rightarrow> Inl (DialMesh e)
      | (None, Some e) \<Rightarrow> Inl (DialMesh e)
      | (None, None) \<Rightarrow>
          (case reply of
             OwnerData (Inl e) _ _ \<Rightarrow> Inl (DialMesh e)
           | OwnerData (Inr (PeerRegistered _ idx roster)) _ _ \<Rightarrow>
               Inr \<lparr>re_peer_index = idx, re_roster = roster, re_fenced = f, re_owner = owner, re_pubkey = pubkey, re_seq = 0\<rparr>
           | OwnerData (Inr (RegisterRejected _ reason)) _ _ \<Rightarrow> Inl (Rejected reason)
           | OwnerData (Inr _) _ _ \<Rightarrow> Inl (DialMesh (MeshTransport ''expected PeerRegistered/RegisterRejected, got ''))
           | OwnerGoodbye _ \<Rightarrow> Inl (DialMesh (MeshTransport ''owner closed HuddleControl stream before replying''))
           | OwnerEnd \<Rightarrow> Inl (DialMesh (MeshTransport ''owner closed HuddleControl stream before replying''))
           | OwnerOther \<Rightarrow> Inl (DialMesh (MeshTransport ''unexpected HuddleControl frame from owner: ''))
           | OwnerError e \<Rightarrow> Inl (DialMesh e)))"

section \<open>Media\<close>

definition media_datagram :: "nat \<Rightarrow> fenced_header \<Rightarrow> 64 word \<Rightarrow> string \<Rightarrow> mesh_datagram" where
  "media_datagram idx f n frame = \<lparr>md_fenced = f, md_seq = n, md_payload = char_of idx # frame\<rparr>"

text \<open>\<open>forward_media\<close>: a failed send is dropped, the sequence number advances anyway.\<close>

definition forward_media :: "string \<Rightarrow> remote_session \<Rightarrow> mesh_datagram \<times> remote_session" where
  "forward_media frame re =
     (media_datagram (re_peer_index re) (re_fenced re) (re_seq re) frame, re\<lparr>re_seq := re_seq re + 1\<rparr>)"

fun remote_peer_sink :: "fenced_header \<Rightarrow> 64 word \<Rightarrow> string list \<Rightarrow> mesh_datagram list" where
  "remote_peer_sink f n [] = []"
| "remote_peer_sink f n (frame # frames) =
     \<lparr>md_fenced = f, md_seq = n, md_payload = frame\<rparr> # remote_peer_sink f (n + 1) frames"

datatype fence_verdict = FenceAccept bool | FenceRejectStale nat

type_synonym generation_floor = "(uuid, nat) hmap"

definition floor_check :: "uuid \<Rightarrow> nat \<Rightarrow> generation_floor \<Rightarrow> fence_verdict \<times> generation_floor" where
  "floor_check s g fl =
     (case hget fl s of
        Some known \<Rightarrow>
          if g < known then (FenceRejectStale known, fl)
          else (FenceAccept (known < g), if known < g then hinsert s g fl else fl)
      | None \<Rightarrow> (FenceAccept False, hinsert s g fl))"

definition floor_forget :: "uuid \<Rightarrow> generation_floor \<Rightarrow> generation_floor" where
  "floor_forget s fl = hremove s fl"

definition on_media_datagram ::
  "mesh_datagram \<Rightarrow> generation_floor \<Rightarrow> room_manager \<Rightarrow> fence_verdict \<times> generation_floor \<times> room_manager" where
  "on_media_datagram d fl m =
     (let session = fh_session (md_fenced d)
      in case floor_check session (fh_generation (md_fenced d)) fl of
           (FenceRejectStale known, fl') \<Rightarrow> (FenceRejectStale known, fl', m)
         | (FenceAccept adv, fl') \<Rightarrow>
             (FenceAccept adv, fl',
              case get_unambiguous_by_channel session m of
                None \<Rightarrow> m
              | Some a \<Rightarrow>
                  (case md_payload d of
                     [] \<Rightarrow> m
                   | author # rest \<Rightarrow> snd (on_room a (\<lambda>r. ((), deliver_prefixed (code_of author) (author # rest) r)) m))))"

section \<open>Peers come in through the fence\<close>

definition loop_of :: "turn_end \<Rightarrow> control_loop" where
  "loop_of x = (case x of GoOn cl \<Rightarrow> cl | Break _ _ cl \<Rightarrow> cl | Leave _ cl \<Rightarrow> cl)"

definition peer_ids :: "room \<Rightarrow> uuid set" where
  "peer_ids r = set (keys (rm_peers r))"

lemma loop_of_simps [simp]:
  "loop_of (GoOn cl) = cl" "loop_of (Break res reason cl) = cl" "loop_of (Leave e cl) = cl"
  by (simp_all add: loop_of_def)

text \<open>The peers of the room at an address, and a manager whose table only names rooms it has.\<close>

definition peers_at :: "nat \<Rightarrow> room_manager \<Rightarrow> uuid set" where
  "peers_at a m = (if a < length (mg_store m) then peer_ids (room_at a m) else {})"

definition rooms_wf :: "room_manager \<Rightarrow> bool" where
  "rooms_wf m \<longleftrightarrow> (\<forall>c s a. get_room c s m = Some a \<longrightarrow> a < length (mg_store m))"

lemma peer_ids_new [simp]: "peer_ids (room_new c s) = {}"
  by (simp add: peer_ids_def room_new_def)

lemma peer_ids_broadcast [simp]: "peer_ids (broadcast_control j r) = peer_ids r"
  by (simp add: peer_ids_def broadcast_control_def split_beta comp_def)

lemma peer_ids_remove_peer [simp]: "peer_ids (remove_peer i r) = peer_ids r - {i}"
proof (cases "hget (rm_peers r) i")
  case None
  then have "i \<notin> peer_ids r" by (simp add: peer_ids_def map_of_eq_None_iff)
  with None show ?thesis by (simp add: remove_peer_def)
next
  case (Some p)
  then show ?thesis by (simp add: peer_ids_def remove_peer_def take_peer_def publish_def Let_def delete_keys)
qed

lemma peer_ids_drop_remote_peer [simp]: "peer_ids (drop_remote_peer js pk i r) = peer_ids r - {i}"
  by (simp add: drop_remote_peer_def split: option.splits)

lemma peer_ids_drop_all [simp]: "peer_ids (drop_all js ps r) = peer_ids r - snd ` set ps"
  by (induction js ps r rule: drop_all.induct) auto

lemma peer_ids_add_peer: "peer_ids (snd (add_peer i pk v r)) \<subseteq> insert i (peer_ids r)"
  by (auto simp: peer_ids_def add_peer_def insert_peer_def publish_def Let_def dom_update
      split: option.splits prod.splits if_splits)

lemma in_room_facts [simp]:
  "mg_rooms (cl_rooms (in_room a f cl)) = mg_rooms (cl_rooms cl)"
  "length (mg_store (cl_rooms (in_room a f cl))) = length (mg_store (cl_rooms cl))"
  "cl_registered (in_room a f cl) = cl_registered cl" "cl_community (in_room a f cl) = cl_community cl"
  "cl_roster_rx (in_room a f cl) = cl_roster_rx cl" "cl_sent (in_room a f cl) = cl_sent cl"
  by (simp_all add: in_room_def on_room_def Let_def)

lemma room_at_in_room:
  "b < length (mg_store (cl_rooms cl)) \<Longrightarrow>
   room_at b (cl_rooms (in_room a f cl)) = (if b = a then f (room_at a (cl_rooms cl)) else room_at b (cl_rooms cl))"
  by (simp add: in_room_def on_room_def Let_def room_at_def)

lemma peers_in_room:
  "peers_at b (cl_rooms (in_room a f cl)) =
     (if b = a \<and> a < length (mg_store (cl_rooms cl)) then peer_ids (f (room_at a (cl_rooms cl)))
      else peers_at b (cl_rooms cl))"
  by (auto simp: peers_at_def room_at_in_room)

lemma get_or_create_facts:
  assumes "get_or_create c s m = (a, m')" "rooms_wf m"
  shows "a < length (mg_store m')" "get_room c s m' = Some a" "rooms_wf m'" "peers_at b m' = peers_at b m"
    "get_room c' s' m = Some a' \<Longrightarrow> get_room c' s' m' = Some a'"
  using assms
  by (auto simp: get_or_create_def get_room_def rooms_wf_def peers_at_def room_at_def Let_def nth_append
      less_Suc_eq split: option.splits if_splits)

lemma rooms_wf_frame: "mg_rooms m' = mg_rooms m \<Longrightarrow> length (mg_store m') = length (mg_store m) \<Longrightarrow> rooms_wf m' = rooms_wf m"
  by (simp add: rooms_wf_def get_room_def)

lemma send_control_frame:
  "send_control t msg cl = (x, cl') \<Longrightarrow> cl_rooms cl' = cl_rooms cl \<and> cl_registered cl' = cl_registered cl \<and>
     cl_community cl' = cl_community cl \<and> cl_roster_rx cl' = cl_roster_rx cl \<and> (tn_send t = None \<longrightarrow> x = Inr ())"
  by (auto simp: send_control_def split: option.splits)

lemma register_peers:
  assumes "register_remote_peer js a pk v t cl = (reply, cl')" "a < length (mg_store (cl_rooms cl))"
  shows "peers_at b (cl_rooms cl') \<subseteq> (if b = a then insert (tn_peer_id t) (peers_at b (cl_rooms cl)) else peers_at b (cl_rooms cl))"
    "mg_rooms (cl_rooms cl') = mg_rooms (cl_rooms cl)" "length (mg_store (cl_rooms cl')) = length (mg_store (cl_rooms cl))"
    "cl_community cl' = cl_community cl"
proof -
  note keys = peer_ids_add_peer [of "tn_peer_id t" pk v "room_at a (cl_rooms cl)"]
  obtain x r where x: "add_peer (tn_peer_id t) pk v (room_at a (cl_rooms cl)) = (x, r)" by fastforce
  show "peers_at b (cl_rooms cl') \<subseteq> (if b = a then insert (tn_peer_id t) (peers_at b (cl_rooms cl)) else peers_at b (cl_rooms cl))"
    using assms x keys
    by (cases x) (auto simp: register_remote_peer_def Let_def peers_in_room, auto simp: peers_at_def)
  show "mg_rooms (cl_rooms cl') = mg_rooms (cl_rooms cl)" "length (mg_store (cl_rooms cl')) = length (mg_store (cl_rooms cl))"
    "cl_community cl' = cl_community cl"
    using assms x by (cases x; auto simp: register_remote_peer_def Let_def)+
qed

lemma peers_at_beyond [simp]: "\<not> a < length (mg_store m) \<Longrightarrow> peers_at a m = {}"
  by (simp add: peers_at_def)

lemma peers_at_room: "a < length (mg_store m) \<Longrightarrow> peers_at a m = peer_ids (room_at a m)"
  by (simp add: peers_at_def)

text \<open>Frames that are not registrations only take peers away.\<close>

definition is_register :: "fenced_header \<Rightarrow> control_event \<Rightarrow> uuid \<Rightarrow> string \<Rightarrow> nat \<Rightarrow> turn \<Rightarrow> bool" where
  "is_register f ev c pk v t \<longleftrightarrow> ev = FrameEvent (ControlData f (Inr (RegisterPeer c pk v))) t"

lemma control_turn_register:
  "is_register f ev c pk v t \<Longrightarrow> control_turn js me f ev cl = on_register js (fh_session f) c pk v t cl"
  by (simp add: is_register_def control_turn_def on_control_msg_def)

lemma unregister_peers: "peers_at b (cl_rooms (loop_of (on_unregister js s pk cl))) \<subseteq> peers_at b (cl_rooms cl)"
  by (auto simp: on_unregister_def Let_def loop_room_def peers_in_room peers_at_room split: option.splits)

lemma roster_event_loop: "cl_rooms (loop_of (on_roster_event s rv t cl)) = cl_rooms cl"
  by (auto simp: on_roster_event_def Let_def dest: send_control_frame
      split: roster_event.splits prod.splits sum.splits option.splits)

lemma other_turn_peers:
  assumes "\<nexists>c pk v t. is_register f ev c pk v t"
  shows "peers_at b (cl_rooms (loop_of (control_turn js me f ev cl))) \<subseteq> peers_at b (cl_rooms cl)"
proof (cases ev)
  case (RosterEvent rv t)
  then show ?thesis using roster_event_loop [of "fh_session f" rv t cl]
    by (auto simp: control_turn_def)
next
  case (FrameEvent frame t)
  show ?thesis
  proof (cases "\<exists>msg. frame = ControlData f (Inr msg)")
    case True
    then obtain msg where msg: "frame = ControlData f (Inr msg)" by blast
    then have turn: "control_turn js me f ev cl = on_control_msg js (fh_session f) msg t cl"
      using FrameEvent by (simp add: control_turn_def)
    show ?thesis
      unfolding turn
      using assms msg FrameEvent unregister_peers [of b js "fh_session f" _ cl]
      by (cases msg) (auto simp: on_control_msg_def is_register_def dest: send_control_frame
          split: option.splits prod.splits sum.splits)
  next
    case False
    then show ?thesis using FrameEvent
      by (auto simp: control_turn_def split: control_frame.splits sum.splits)
  qed
qed (simp_all add: control_turn_def)

lemma register_turn_peers:
  assumes wf: "rooms_wf (cl_rooms cl)"
    and new: "k \<in> peers_at b (cl_rooms (loop_of (on_register js s c pk v t cl)))" "k \<notin> peers_at b (cl_rooms cl)"
  shows "tn_verdict t = Inr () \<and> \<not> tn_draining t \<and> k = tn_peer_id t \<and>
    (cl_community cl = None \<or> cl_community cl = Some c) \<and>
    get_room c s (cl_rooms (loop_of (on_register js s c pk v t cl))) = Some b"
proof -
  let ?cl = "cl\<lparr>cl_community := Some c\<rparr>"
  have c: "cl_community cl = None \<or> cl_community cl = Some c" and d: "\<not> tn_draining t"
    using new by (auto simp: on_register_def Let_def split: if_splits option.splits)
  obtain a rooms where gc: "get_or_create c s (cl_rooms cl) = (a, rooms)" by fastforce
  note facts = get_or_create_facts [OF gc wf]
  let ?cl1 = "?cl\<lparr>cl_rooms := rooms\<rparr>"
  have same: "k \<notin> peers_at b rooms" using new(2) facts(4) by simp
  have verdict: "tn_verdict t = Inr ()"
  proof (cases "tn_verdict t")
    case (Inl e)
    then have "cl_rooms (loop_of (on_register js s c pk v t cl)) = rooms"
      using c d gc by (auto simp: on_register_def Let_def dest: send_control_frame
          split: option.splits prod.splits sum.splits)
    then show ?thesis using new(1) same by simp
  qed simp
  obtain reply cl2 where reg: "register_remote_peer js a pk v t ?cl1 = (reply, cl2)" by fastforce
  have loop: "cl_rooms (loop_of (on_register js s c pk v t cl)) = cl_rooms cl2"
    using c d gc verdict reg
    by (auto simp: on_register_def Let_def dest: send_control_frame
        split: option.splits prod.splits sum.splits huddle_control_msg.splits)
  have "k \<in> (if b = a then insert (tn_peer_id t) (peers_at b rooms) else peers_at b rooms)"
    using register_peers(1) [OF reg, of b] facts(1) new(1) loop by auto
  then have "b = a" "k = tn_peer_id t" using same by (auto split: if_splits)
  moreover have "get_room c s (cl_rooms cl2) = Some a"
    using register_peers(2) [OF reg] facts(1,2) by (simp add: get_room_def)
  ultimately show ?thesis using verdict c d loop by simp
qed

text \<open>
  C16: No peer enters a room of the owner except by a registration frame under the stream's own fence, for
  the community the stream is latched to, that the directory has just validated while no shutdown
  was under way.
\<close>

theorem admission_needs_fence:
  assumes "rooms_wf (cl_rooms cl)" "k \<in> peers_at b (cl_rooms (loop_of (control_turn js me f ev cl)))"
    "k \<notin> peers_at b (cl_rooms cl)"
  shows "\<exists>c pk v t. ev = FrameEvent (ControlData f (Inr (RegisterPeer c pk v))) t \<and> tn_verdict t = Inr () \<and>
    \<not> tn_draining t \<and> k = tn_peer_id t \<and> (cl_community cl = None \<or> cl_community cl = Some c) \<and>
    get_room c (fh_session f) (cl_rooms (loop_of (control_turn js me f ev cl))) = Some b"
proof (cases "\<exists>c pk v t. is_register f ev c pk v t")
  case True
  then obtain c pk v t where r: "is_register f ev c pk v t" by blast
  with register_turn_peers [OF assms(1)] assms(2,3) show ?thesis
    by (auto simp: control_turn_register is_register_def)
next
  case False
  then show ?thesis using other_turn_peers [OF False] assms(2,3) by blast
qed

section \<open>A stream leaves no peer behind\<close>

definition same_loop :: "control_loop \<Rightarrow> control_loop \<Rightarrow> bool" where
  "same_loop cl cl' \<longleftrightarrow> cl_rooms cl' = cl_rooms cl \<and> cl_registered cl' = cl_registered cl \<and> cl_community cl' = cl_community cl"

lemma on_register_cases:
  obtains
    (unchanged) "same_loop cl (loop_of (on_register js s c pk v t cl))"
  | (draining) "cl_community cl = None \<or> cl_community cl = Some c"
      "same_loop (cl\<lparr>cl_community := Some c\<rparr>) (loop_of (on_register js s c pk v t cl))"
  | (fenced) a rooms where "cl_community cl = None \<or> cl_community cl = Some c"
      "get_or_create c s (cl_rooms cl) = (a, rooms)"
      "same_loop (cl\<lparr>cl_community := Some c, cl_rooms := rooms\<rparr>) (loop_of (on_register js s c pk v t cl))"
  | (admitted) a rooms reply cl2 where "cl_community cl = None \<or> cl_community cl = Some c"
      "get_or_create c s (cl_rooms cl) = (a, rooms)"
      "register_remote_peer js a pk v t (cl\<lparr>cl_community := Some c, cl_rooms := rooms\<rparr>) = (reply, cl2)"
      "same_loop cl2 (loop_of (on_register js s c pk v t cl))"
proof -
  obtain a rooms where gc: "get_or_create c s (cl_rooms cl) = (a, rooms)" by fastforce
  obtain reply cl2 where reg: "register_remote_peer js a pk v t (cl\<lparr>cl_community := Some c, cl_rooms := rooms\<rparr>) = (reply, cl2)"
    by fastforce
  consider (1) "\<not> (cl_community cl = None \<or> cl_community cl = Some c)"
    | (2) "cl_community cl = None \<or> cl_community cl = Some c" "tn_draining t"
    | (3) e where "cl_community cl = None \<or> cl_community cl = Some c" "\<not> tn_draining t" "tn_verdict t = Inl e"
    | (4) "cl_community cl = None \<or> cl_community cl = Some c" "\<not> tn_draining t" "tn_verdict t = Inr ()"
  proof -
    have "tn_verdict t = Inr () \<or> (\<exists>e. tn_verdict t = Inl e)" by (cases "tn_verdict t") auto
    then show ?thesis using that by blast
  qed
  then show ?thesis
  proof cases
    case 1
    then show ?thesis by (intro unchanged) (auto simp: on_register_def same_loop_def)
  next
    case 2
    then show ?thesis by (intro draining) (auto simp: on_register_def same_loop_def Let_def)
  next
    case 3
    then show ?thesis using gc
      by (intro fenced [of a rooms])
        (auto simp: on_register_def same_loop_def Let_def dest: send_control_frame split: option.splits prod.splits sum.splits)
  next
    case 4
    then show ?thesis using gc reg
      by (intro admitted [of a rooms reply cl2])
        (auto simp: on_register_def same_loop_def Let_def dest: send_control_frame
          split: prod.splits sum.splits huddle_control_msg.splits)
  qed
qed

definition tracked :: "uuid \<Rightarrow> room_manager \<Rightarrow> control_loop \<Rightarrow> bool" where
  "tracked s m0 cl \<longleftrightarrow> rooms_wf (cl_rooms cl) \<and>
     (\<forall>b k. k \<in> peers_at b (cl_rooms cl) \<and> k \<notin> peers_at b m0 \<longrightarrow>
        loop_room s cl = Some b \<and> (\<exists>pk. hget (cl_registered cl) pk = Some k))"

lemma tracked_same: "same_loop cl cl' \<Longrightarrow> tracked s m0 cl' = tracked s m0 cl"
  by (simp add: tracked_def same_loop_def loop_room_def cong: option.case_cong)

lemma loop_room_simps: "loop_room s cl = Some b \<longleftrightarrow> (\<exists>c. cl_community cl = Some c \<and> get_room c s (cl_rooms cl) = Some b)"
  by (auto simp: loop_room_def split: option.splits)

lemma tracked_latch:
  assumes "tracked s m0 cl" "cl_community cl = None \<or> cl_community cl = Some c" "get_or_create c s (cl_rooms cl) = (a, rooms)"
  shows "tracked s m0 (cl\<lparr>cl_community := Some c, cl_rooms := rooms\<rparr>)"
    "tracked s m0 (cl\<lparr>cl_community := Some c\<rparr>)"
proof -
  have wf: "rooms_wf (cl_rooms cl)" using assms(1) by (simp add: tracked_def)
  note facts = get_or_create_facts [OF assms(3) wf]
  show "tracked s m0 (cl\<lparr>cl_community := Some c, cl_rooms := rooms\<rparr>)"
    using assms(1,2) facts unfolding tracked_def loop_room_simps by fastforce
  show "tracked s m0 (cl\<lparr>cl_community := Some c\<rparr>)"
    using assms(1,2) unfolding tracked_def loop_room_simps by fastforce
qed

lemma register_registers:
  assumes "register_remote_peer js a pk v t cl = (reply, cl')"
  shows "(\<exists>x. add_peer (tn_peer_id t) pk v (room_at a (cl_rooms cl)) = (Inr x, snd (add_peer (tn_peer_id t) pk v (room_at a (cl_rooms cl)))) \<and>
      cl_registered cl' = hinsert pk (tn_peer_id t) (cl_registered cl)) \<or>
    cl_registered cl' = cl_registered cl \<and> peers_at b (cl_rooms cl') = peers_at b (cl_rooms cl)"
proof -
  obtain x r where x: "add_peer (tn_peer_id t) pk v (room_at a (cl_rooms cl)) = (x, r)" by fastforce
  show ?thesis
  proof (cases x)
    case (Inl e)
    then have "r = room_at a (cl_rooms cl)"
      using x by (auto simp: add_peer_def split: option.splits prod.splits if_splits)
    then show ?thesis using assms x Inl
      by (auto simp: register_remote_peer_def peers_in_room peers_at_room split: if_splits)
  next
    case (Inr idx)
    then show ?thesis using assms x by (auto simp: register_remote_peer_def Let_def)
  qed
qed

lemma tracked_register:
  assumes tr: "tracked s m0 cl" and a: "loop_room s cl = Some a" and new: "hget (cl_registered cl) pk = None"
    and reg: "register_remote_peer js a pk v t cl = (reply, cl')"
  shows "tracked s m0 cl'"
proof -
  have wf: "rooms_wf (cl_rooms cl)" using tr by (simp add: tracked_def)
  have "a < length (mg_store (cl_rooms cl))" using a wf by (auto simp: loop_room_simps rooms_wf_def)
  note r = register_peers [OF reg this]
  have room: "loop_room s cl' = Some a" using a r(2,4) by (simp add: loop_room_simps get_room_def)
  have "loop_room s cl' = Some b \<and> (\<exists>pk. hget (cl_registered cl') pk = Some k)"
    if k: "k \<in> peers_at b (cl_rooms cl')" "k \<notin> peers_at b m0" for b k
  proof (cases "k \<in> peers_at b (cl_rooms cl)")
    case True
    then obtain pk' where pk': "loop_room s cl = Some b" "hget (cl_registered cl) pk' = Some k"
      using tr k(2) by (auto simp: tracked_def)
    moreover have "hget (cl_registered cl') pk' = Some k"
      using register_registers [OF reg, of b] pk'(2) new by (cases "pk' = pk") auto
    ultimately show ?thesis using a room by auto
  next
    case False
    then have "b = a" "k = tn_peer_id t" using k(1) r(1) [of b] by (auto split: if_splits)
    moreover have "cl_registered cl' = hinsert pk (tn_peer_id t) (cl_registered cl)"
      using register_registers [OF reg, of b] False k(1) by auto
    ultimately show ?thesis using room by (auto intro: exI [of _ pk])
  qed
  moreover have "rooms_wf (cl_rooms cl')" using wf rooms_wf_frame [OF r(2,3)] by simp
  ultimately show ?thesis unfolding tracked_def by blast
qed

lemma tracked_on_register:
  assumes tr: "tracked s m0 cl" and new: "hget (cl_registered cl) pk = None"
  shows "tracked s m0 (loop_of (on_register js s c pk v t cl))"
proof (cases rule: on_register_cases [of cl js s c pk v t])
  case unchanged
  then show ?thesis using tr tracked_same by blast
next
  case draining
  obtain a rooms where "get_or_create c s (cl_rooms cl) = (a, rooms)" by fastforce
  with draining show ?thesis using tracked_latch(2) [OF tr] tracked_same by blast
next
  case (fenced a rooms)
  then show ?thesis using tracked_latch(1) [OF tr] tracked_same by blast
next
  case (admitted a rooms reply cl2)
  have wf: "rooms_wf (cl_rooms cl)" using tr by (simp add: tracked_def)
  have "loop_room s (cl\<lparr>cl_community := Some c, cl_rooms := rooms\<rparr>) = Some a"
    using get_or_create_facts(2) [OF admitted(2) wf] by (simp add: loop_room_def)
  then have "tracked s m0 cl2"
    using tracked_register [OF tracked_latch(1) [OF tr admitted(1,2)] _ _ admitted(3)] new by simp
  then show ?thesis using tracked_same [OF admitted(4)] by simp
qed

lemma tracked_unregister:
  assumes tr: "tracked s m0 cl"
  shows "tracked s m0 (loop_of (on_unregister js s pk cl))"
proof (cases "hget (cl_registered cl) pk")
  case None
  then show ?thesis using tr by (simp add: on_unregister_def)
next
  case (Some i)
  let ?cl = "cl\<lparr>cl_registered := hremove pk (cl_registered cl)\<rparr>"
  have loop: "loop_room s ?cl = loop_room s cl" by (simp add: loop_room_def cong: option.case_cong)
  show ?thesis
  proof (cases "loop_room s cl")
    case None
    then have "\<forall>b k. \<not> (k \<in> peers_at b (cl_rooms cl) \<and> k \<notin> peers_at b m0)" using tr by (auto simp: tracked_def)
    then show ?thesis using tr Some None loop by (auto simp: on_unregister_def Let_def tracked_def)
  next
    case a: (Some a)
    let ?cl' = "in_room a (drop_remote_peer js pk i) ?cl"
    have "loop_room s ?cl' = Some b \<and> (\<exists>pk. hget (cl_registered ?cl') pk = Some k)"
      if k: "k \<in> peers_at b (cl_rooms ?cl')" "k \<notin> peers_at b m0" for b k
    proof -
      have old: "k \<in> peers_at b (cl_rooms cl)" "b = a \<Longrightarrow> k \<noteq> i"
        using k(1) by (auto simp: peers_in_room peers_at_room split: if_splits)
      then obtain pk' where pk': "loop_room s cl = Some b" "hget (cl_registered cl) pk' = Some k"
        using tr k(2) by (auto simp: tracked_def)
      then have "b = a" "pk' \<noteq> pk" using a Some old(2) by auto
      with pk' show ?thesis by (auto simp: loop_room_simps get_room_def)
    qed
    moreover have "rooms_wf (cl_rooms ?cl')"
      using tr rooms_wf_frame [of "cl_rooms ?cl'" "cl_rooms cl"] by (simp add: tracked_def)
    ultimately have "tracked s m0 ?cl'" unfolding tracked_def by blast
    then show ?thesis using Some a loop by (simp add: on_unregister_def Let_def)
  qed
qed

fun registers :: "control_event list \<Rightarrow> string list" where
  "registers [] = []"
| "registers (FrameEvent (ControlData f (Inr (RegisterPeer c pk v))) t # evs) = pk # registers evs"
| "registers (ev # evs) = registers evs"

text \<open>The replies that are sent with the operator \<open>?\<close> go out.\<close>

definition replies_sent :: "control_event \<Rightarrow> bool" where
  "replies_sent ev = (case ev of
      RosterEvent _ t \<Rightarrow> tn_send t = None
    | FrameEvent (ControlData _ (Inr RosterResync)) t \<Rightarrow> tn_send t = None
    | _ \<Rightarrow> True)"

lemma registers_Cons_register: "is_register f ev c pk v t \<Longrightarrow> registers (ev # evs) = pk # registers evs"
  by (simp add: is_register_def)

lemma registers_subset: "set (registers evs) \<subseteq> set (registers (ev # evs))"
  by (cases "(ev # evs, evs)" rule: prod.exhaust; cases "ev # evs" rule: registers.cases) auto

lemma on_unregister_keys:
  "hget (cl_registered cl) pk' = None \<Longrightarrow> hget (cl_registered (loop_of (on_unregister js s pk cl))) pk' = None"
  by (auto simp: on_unregister_def Let_def split: option.splits)

lemma roster_event_same: "same_loop cl (loop_of (on_roster_event s rv t cl))"
  by (auto simp: on_roster_event_def Let_def same_loop_def dest: send_control_frame
      split: roster_event.splits prod.splits sum.splits option.splits)

lemma other_turn_cases:
  assumes "\<nexists>c pk v t. is_register f ev c pk v t"
  shows "same_loop cl (loop_of (control_turn js me f ev cl)) \<or>
    (\<exists>pk. control_turn js me f ev cl = on_unregister js (fh_session f) pk cl)"
proof (cases ev)
  case (RosterEvent rv t)
  then show ?thesis using roster_event_same [of cl "fh_session f" rv t]
    by (auto simp: control_turn_def same_loop_def)
next
  case (FrameEvent frame t)
  show ?thesis
  proof (cases "\<exists>msg. frame = ControlData f (Inr msg)")
    case True
    then obtain msg where msg: "frame = ControlData f (Inr msg)" by blast
    then have turn: "control_turn js me f ev cl = on_control_msg js (fh_session f) msg t cl"
      using FrameEvent by (simp add: control_turn_def)
    show ?thesis
      unfolding turn
      using assms msg FrameEvent
      by (cases msg) (auto simp: on_control_msg_def is_register_def same_loop_def dest: send_control_frame
          split: option.splits prod.splits sum.splits)
  next
    case False
    then show ?thesis using FrameEvent
      by (auto simp: control_turn_def same_loop_def split: control_frame.splits sum.splits)
  qed
qed (simp_all add: control_turn_def same_loop_def)

lemma turn_tracked:
  assumes tr: "tracked (fh_session f) m0 cl"
    and new: "\<And>c pk v t. is_register f ev c pk v t \<Longrightarrow> hget (cl_registered cl) pk = None"
  shows "tracked (fh_session f) m0 (loop_of (control_turn js me f ev cl))"
proof (cases "\<exists>c pk v t. is_register f ev c pk v t")
  case True
  then obtain c pk v t where r: "is_register f ev c pk v t" by blast
  then show ?thesis using tracked_on_register [OF tr new [OF r]] by (simp add: control_turn_register)
next
  case False
  from other_turn_cases [OF this, of cl js me] show ?thesis
    using tr tracked_same tracked_unregister [OF tr] by fastforce
qed

text \<open>Only the pubkey of a registration can become registered.\<close>

lemma on_register_keys:
  assumes "pk' \<noteq> pk" "hget (cl_registered cl) pk' = None"
  shows "hget (cl_registered (loop_of (on_register js s c pk v t cl))) pk' = None"
proof (cases rule: on_register_cases [of cl js s c pk v t])
  case (admitted a rooms reply cl2)
  then show ?thesis using register_registers [OF admitted(3), of 0] assms by (auto simp: same_loop_def)
qed (use assms in \<open>auto simp: same_loop_def\<close>)

lemma turn_keys:
  assumes "hget (cl_registered cl) pk' = None" "\<And>c v t. \<not> is_register f ev c pk' v t"
  shows "hget (cl_registered (loop_of (control_turn js me f ev cl))) pk' = None"
proof (cases "\<exists>c pk v t. is_register f ev c pk v t")
  case True
  then obtain c pk v t where r: "is_register f ev c pk v t" by blast
  moreover have "pk' \<noteq> pk" using r assms(2) by blast
  ultimately show ?thesis using on_register_keys [OF _ assms(1)] by (simp add: control_turn_register)
next
  case False
  from other_turn_cases [OF this, of cl js me] show ?thesis
    using assms(1) on_unregister_keys by (auto simp: same_loop_def)
qed

lemma turn_never_leaves:
  assumes "replies_sent ev"
  shows "control_turn js me f ev cl \<noteq> Leave e cl'"
  using assms
  by (auto simp: replies_sent_def control_turn_def on_roster_event_def on_control_msg_def on_register_def
      on_unregister_def Let_def send_control_def
      split: control_event.splits roster_event.splits control_frame.splits sum.splits huddle_control_msg.splits
        option.splits prod.splits if_splits)

lemma teardown_peers:
  assumes tr: "tracked s m0 cl"
  shows "peers_at b (cl_rooms (teardown js s cl)) \<subseteq> peers_at b m0"
proof
  fix k assume k: "k \<in> peers_at b (cl_rooms (teardown js s cl))"
  show "k \<in> peers_at b m0"
  proof (rule ccontr)
    assume n: "k \<notin> peers_at b m0"
    have "k \<in> peers_at b (cl_rooms cl)"
      using k by (auto simp: teardown_def peers_in_room peers_at_room split: option.splits if_splits)
    then obtain pk where pk: "loop_room s cl = Some b" "hget (cl_registered cl) pk = Some k"
      using tr n by (auto simp: tracked_def)
    moreover have "b < length (mg_store (cl_rooms cl))"
      using \<open>k \<in> peers_at b (cl_rooms cl)\<close> by (auto simp: peers_at_def split: if_splits)
    moreover have "k \<in> snd ` set (cl_registered cl)"
      using map_of_SomeD [OF pk(2)] by force
    ultimately show False using k by (auto simp: teardown_def peers_in_room)
  qed
qed

lemma serve_tracked:
  assumes "tracked (fh_session f) m0 cl" "distinct (registers evs)"
    "\<forall>pk \<in> set (registers evs). hget (cl_registered cl) pk = None" "\<forall>ev \<in> set evs. replies_sent ev"
    "serve_control_loop js me f evs cl = Some sv"
  shows "peers_at b (cl_rooms (sv_loop sv)) \<subseteq> peers_at b m0"
  using assms
proof (induction evs arbitrary: cl)
  case (Cons ev evs)
  have new: "hget (cl_registered cl) pk = None" if "is_register f ev c pk v t" for c pk v t
    using Cons.prems(3) registers_Cons_register [OF that, of evs] by simp
  have tr: "tracked (fh_session f) m0 (loop_of (control_turn js me f ev cl))"
    by (rule turn_tracked [OF Cons.prems(1)]) (rule new)
  show ?case
  proof (cases "control_turn js me f ev cl")
    case (GoOn cl')
    have "distinct (registers evs)"
      using Cons.prems(2) by (cases "ev # evs" rule: registers.cases) auto
    moreover have "\<forall>pk \<in> set (registers evs). hget (cl_registered cl') pk = None"
    proof
      fix pk assume pk: "pk \<in> set (registers evs)"
      then have "hget (cl_registered cl) pk = None" using Cons.prems(3) registers_subset by blast
      moreover have "\<not> is_register f ev c pk v t" for c v t
        using Cons.prems(2) pk registers_Cons_register [of f ev c pk v t evs] by auto
      ultimately show "hget (cl_registered cl') pk = None"
        using turn_keys [of cl pk f ev js me] GoOn by simp
    qed
    ultimately show ?thesis using Cons.IH [of cl'] Cons.prems(4,5) GoOn tr by simp
  next
    case (Break res reason cl')
    then show ?thesis using Cons.prems(5) tr teardown_peers [of "fh_session f" m0 cl' b js] by auto
  next
    case (Leave e cl')
    then show ?thesis using turn_never_leaves Cons.prems(4) by auto
  qed
qed simp

text \<open>
  C22: When the owner's loop has ended, every peer that the stream brought in is gone from every room, as
  long as the stream registered no public key twice and the roster replies went out.
\<close>

theorem stream_leaves_no_peer:
  assumes "rooms_wf m" "distinct (registers evs)" "\<forall>ev \<in> set evs. replies_sent ev"
    "serve_control_loop js me f evs (control_loop_new m) = Some sv"
  shows "peers_at b (cl_rooms (sv_loop sv)) \<subseteq> peers_at b m"
  using assms(1) by (intro serve_tracked [OF _ assms(2) _ assms(3,4)])
    (auto simp: tracked_def control_loop_new_def)

definition demo_js :: broadcast_text where
  "demo_js = \<lparr>js_joined = (\<lambda>pk i. ''joined''), js_left = (\<lambda>pk i. ''left'')\<rparr>"

definition demo_header :: fenced_header where
  "demo_header = \<lparr>fh_session = ''s'', fh_generation = 1, fh_owner = ''o''\<rparr>"

definition demo_turn :: "uuid \<Rightarrow> turn" where
  "demo_turn i = \<lparr>tn_draining = False, tn_verdict = Inr (), tn_peer_id = i, tn_send = None\<rparr>"

definition demo_register :: "string \<Rightarrow> turn \<Rightarrow> control_event" where
  "demo_register pk t = FrameEvent (ControlData demo_header (Inr (RegisterPeer ''c'' pk 2))) t"

definition demo_stream_end :: control_event where
  "demo_stream_end = FrameEvent ControlEnd (demo_turn [])"

text \<open>The ids of the peers in the first room when the loop has ended.\<close>

definition peers_left :: "control_event list \<Rightarrow> uuid list option" where
  "peers_left evs =
     map_option (\<lambda>sv. keys (rm_peers (room_at 0 (cl_rooms (sv_loop sv)))))
       (serve_control_loop demo_js ''o'' demo_header evs (control_loop_new manager_new))"

definition demo_visit :: "control_event list" where
  "demo_visit = [demo_register ''p'' (demo_turn ''i''), demo_register ''q'' (demo_turn ''j''), demo_stream_end]"

definition demo_leaver :: "served" where
  "demo_leaver = the (serve_control_loop demo_js ''o'' demo_header demo_visit (control_loop_new manager_new))"

theorem admission_needs_fence_witness:
  "peers_at 0 (cl_rooms (loop_of (control_turn demo_js ''o'' demo_header (demo_register ''p'' (demo_turn ''i''))
     (control_loop_new manager_new)))) = {''i''} \<and>
   (\<exists>t. demo_register ''p'' (demo_turn ''i'') = FrameEvent (ControlData demo_header (Inr (RegisterPeer ''c'' ''p'' 2))) t \<and>
      tn_verdict t = Inr ())"
proof -
  let ?ev = "demo_register ''p'' (demo_turn ''i'')" and ?cl = "control_loop_new manager_new"
  have wf: "rooms_wf (cl_rooms ?cl)" by (simp add: control_loop_new_def manager_new_def rooms_wf_def get_room_def)
  have old: "''i'' \<notin> peers_at 0 (cl_rooms ?cl)" by (simp add: control_loop_new_def manager_new_def)
  have "mg_store (cl_rooms (loop_of (control_turn demo_js ''o'' demo_header ?ev ?cl))) \<noteq> [] \<and>
      keys (rm_peers (mg_store (cl_rooms (loop_of (control_turn demo_js ''o'' demo_header ?ev ?cl))) ! 0)) = [''i'']"
    by code_simp
  then have got: "peers_at 0 (cl_rooms (loop_of (control_turn demo_js ''o'' demo_header ?ev ?cl))) = {''i''}"
    by (simp add: peers_at_def peer_ids_def room_at_def del: set_map)
  then show ?thesis
    using admission_needs_fence [OF wf, of "''i''" 0 demo_js "''o''" demo_header ?ev] old
    by (auto simp: demo_register_def)
qed

theorem stream_leaves_no_peer_witness:
  "peers_left demo_visit = Some [] \<and> peers_at 0 (cl_rooms (sv_loop demo_leaver)) \<subseteq> peers_at 0 manager_new"
proof -
  have left: "peers_left demo_visit = Some []" by code_simp
  then have run: "serve_control_loop demo_js ''o'' demo_header demo_visit (control_loop_new manager_new) = Some demo_leaver"
    by (auto simp: peers_left_def demo_leaver_def)
  have "rooms_wf manager_new" by (simp add: manager_new_def rooms_wf_def get_room_def)
  moreover have "distinct (registers demo_visit)" by (simp add: demo_visit_def demo_register_def demo_stream_end_def)
  moreover have "\<forall>ev \<in> set demo_visit. replies_sent ev"
    by (simp add: demo_visit_def demo_register_def demo_stream_end_def replies_sent_def demo_turn_def)
  ultimately have "peers_at 0 (cl_rooms (sv_loop demo_leaver)) \<subseteq> peers_at 0 manager_new"
    by (rule stream_leaves_no_peer [OF _ _ _ run])
  with left show ?thesis by simp
qed

text \<open>
  The two conditions are needed. A public key that registers twice on one stream loses its first
  peer from the table, so the teardown misses it; and when a roster message cannot be sent the
  function returns before its teardown. Both leave a peer in the owner's room that nobody removes.
\<close>

theorem repeated_registration_leaks_peer:
  "peers_left [demo_register ''p'' (demo_turn ''i''), demo_register ''p'' (demo_turn ''j''), demo_stream_end]
     = Some [''i'']"
  by code_simp

theorem failed_roster_send_leaks_peer:
  "peers_left [demo_register ''p'' (demo_turn ''i''),
      RosterEvent (RosterPublished \<lparr>rd_revision = 1, rd_joined = None, rd_left = None\<rparr>)
        ((demo_turn [])\<lparr>tn_send := Some (MeshTransport ''reset'')\<rparr>)] = Some [''i'']"
  by code_simp

text \<open>
  A registration that the fence rejects has already created the room it names: the rejected
  community now shares the channel, and media for it is dropped as ambiguous.
\<close>

definition demo_rooms :: room_manager where
  "demo_rooms = snd (get_or_create ''c'' ''s'' manager_new)"

definition demo_foreign :: control_event where
  "demo_foreign = FrameEvent (ControlData demo_header (Inr (RegisterPeer ''d'' ''p'' 2)))
     ((demo_turn ''i'')\<lparr>tn_verdict := Inl (NoActiveLease ''s'' 1 0 ''o'')\<rparr>)"

theorem rejected_registration_hides_room:
  "get_unambiguous_by_channel ''s'' demo_rooms = Some 0 \<and>
   get_unambiguous_by_channel ''s''
     (cl_rooms (loop_of (control_turn demo_js ''o'' demo_header demo_foreign (control_loop_new demo_rooms)))) = None"
  by code_simp

section \<open>Registration and the roster\<close>

text \<open>The client that is told its index finds itself at that index in the roster it gets with it.\<close>

theorem registered_client_is_in_roster:
  assumes "register_remote_peer js a pk v t cl = (PeerRegistered pk' idx snap, cl')" "a < length (mg_store (cl_rooms cl))"
  shows "pk' = pk \<and> \<lparr>rp_pubkey = pk, rp_peer_index = idx\<rparr> \<in> set (rs_peers snap) \<and>
    hget (cl_registered cl') pk = Some (tn_peer_id t) \<and>
    map_option ap_peer_index (hget (rm_peers (room_at a (cl_rooms cl'))) (tn_peer_id t)) = Some idx"
proof -
  obtain r where r: "add_peer (tn_peer_id t) pk v (room_at a (cl_rooms cl)) = (Inr idx, r)"
    and eq: "pk' = pk" "snap = roster_snapshot (broadcast_control (js_joined js pk idx) r)"
      "cl' = in_room a (\<lambda>_. broadcast_control (js_joined js pk idx) r) (cl\<lparr>cl_registered := hinsert pk (tn_peer_id t) (cl_registered cl)\<rparr>)"
    using assms(1) by (auto simp: register_remote_peer_def Let_def split: prod.splits sum.splits)
  obtain q where q: "hget (rm_peers r) (tn_peer_id t) = Some q" "ap_pubkey q = pk" "ap_peer_index q = idx"
    using r by (auto simp: add_peer_def insert_peer_def publish_def Let_def split: option.splits prod.splits if_splits)
  let ?r = "broadcast_control (js_joined js pk idx) r"
  have "\<lparr>rp_pubkey = pk, rp_peer_index = idx\<rparr> \<in> set (roster_of r)"
    using q map_of_SomeD [OF q(1)] by (force simp: roster_of_def)
  moreover have "map_option ap_peer_index (hget (rm_peers ?r) i) = map_option ap_peer_index (hget (rm_peers r) i)" for i
    by (cases "hget (rm_peers r) i")
      (simp_all add: broadcast_control_def split_beta map_of_map [of "\<lambda>p. p\<lparr>ap_ctrl := _ p\<rparr>"] comp_def)
  ultimately show ?thesis using eq q assms(2)
    by (simp add: roster_snapshot_def room_at_in_room)
qed

section \<open>The remote roster follows the owner's\<close>

text \<open>A room publishes one join or one leave at a time.\<close>

definition one_sided :: "roster_delta \<Rightarrow> bool" where
  "one_sided d \<longleftrightarrow> rd_joined d = None \<or> rd_left d = None"

definition log_ok :: "room \<Rightarrow> bool" where
  "log_ok r \<longleftrightarrow> list_all one_sided (rm_roster_log r)"

lemma log_ok_publish:
  "j = None \<or> l = None \<Longrightarrow> log_ok (publish j l r) = log_ok r"
  by (simp add: log_ok_def publish_def Let_def one_sided_def)

lemma log_ok_insert [simp]: "log_ok (insert_peer i pk idx r) = log_ok r"
  by (simp add: insert_peer_def log_ok_publish) (simp add: log_ok_def)

lemma log_ok_take [simp]: "log_ok (take_peer i p r) = log_ok r"
  by (simp add: take_peer_def log_ok_publish) (simp add: log_ok_def)

lemma log_ok_guard [simp]: "log_ok (r\<lparr>rm_guard := g\<rparr>) = log_ok r"
  by (simp add: log_ok_def)

lemma log_ok_frames [simp]:
  "log_ok (send_audio to fr r) = log_ok r" "log_ok (broadcast_control j r) = log_ok r" "log_ok (receive i r) = log_ok r"
  "log_ok (clear_ended r) = log_ok r" "log_ok (snd (mark_ended r)) = log_ok r"
  by (simp_all add: log_ok_def clear_ended_def mark_ended_def)

interpretation logs: machine room_step log_ok
proof
  fix r a assume ok: "log_ok r"
  have add: "log_ok (snd (add_peer i pk v r))" for i pk v
    using ok by (auto simp: add_peer_def split: option.splits prod.splits)
  have add_at: "log_ok (snd (add_peer_at_index i pk v idx r))" for i pk v idx
    using ok by (auto simp: add_peer_at_index_def split: option.splits)
  have rem: "log_ok (remove_peer i r)" for i
    using ok by (auto simp: remove_peer_def split: option.splits)
  have rem2: "log_ok (snd (remove_peer_and_check_ended i r))" for i
    using ok by (auto simp: remove_peer_and_check_ended_def Let_def split: option.splits)
  show "log_ok (room_step r a)"
    using ok add add_at rem rem2
    by (cases a) (auto simp: broadcast_frame_def deliver_prefixed_def split: option.splits)
qed

text \<open>What a client knows from the texts it was sent, starting from the roster of its registration.\<close>

fun client_view :: "roster_peer multiset \<Rightarrow> client_text list \<Rightarrow> roster_peer multiset" where
  "client_view R [] = R"
| "client_view R (TextRoster _ peers # ts) = client_view (mset peers) ts"
| "client_view R (TextJoined _ p # ts) = client_view (R + {#p#}) ts"
| "client_view R (TextLeft _ p # ts) = client_view (R - {#p#}) ts"

lemma client_view_append: "client_view R (ts @ us) = client_view (client_view R ts) us"
  by (induction R ts rule: client_view.induct) auto

definition roster_after :: "roster_delta list \<Rightarrow> nat \<Rightarrow> roster_peer multiset" where
  "roster_after ds k = fold apply_delta (take k ds) {#}"

lemma roster_after_Suc: "k < length ds \<Longrightarrow> roster_after ds (Suc k) = apply_delta (ds ! k) (roster_after ds k)"
  by (simp add: roster_after_def take_Suc_conv_app_nth)

text \<open>
  A frame is genuine when it is something the owner sent: a snapshot of one of its states or one of
  its deltas; \<open>owner_sends_genuine\<close> shows that what \<open>roster_snapshot_msg\<close> and \<open>roster_delta_msg\<close> build from
  a room is. Frames may be lost, repeated and reordered in any way.
\<close>

definition genuine :: "roster_delta list \<Rightarrow> owner_frame \<Rightarrow> bool" where
  "genuine ds fr = (case fr of
      OwnerData (Inr (RosterSnapshotMsg snap)) _ _ \<Rightarrow>
        list_ex (\<lambda>k. rs_revision snap = of_nat k \<and> mset (rs_peers snap) = roster_after ds k) [0..<Suc (length ds)]
    | OwnerData (Inr (RosterDeltaMsg n j l)) _ _ \<Rightarrow>
        list_ex (\<lambda>d. n = rd_revision d \<and> j = rd_joined d \<and> l = rd_left d) ds
    | _ \<Rightarrow> True)"

definition numbered :: "roster_delta list \<Rightarrow> bool" where
  "numbered ds \<longleftrightarrow> length ds < 2 ^ 64 \<and> list_all one_sided ds \<and>
     (\<forall>k < length ds. rd_revision (ds ! k) = of_nat (Suc k))"

definition follows :: "roster_delta list \<Rightarrow> roster_peer multiset \<Rightarrow> reader \<Rightarrow> bool" where
  "follows ds R rr \<longleftrightarrow> (\<exists>k\<le>length ds. rr_revision rr = of_nat k \<and> client_view R (rr_texts rr) = roster_after ds k)"

lemma word_of_nat_eq:
  "m < 2 ^ 64 \<Longrightarrow> n < 2 ^ 64 \<Longrightarrow> (of_nat m :: 64 word) = of_nat n \<Longrightarrow> m = n"
  by (simp add: word_of_nat_eq_iff take_bit_nat_eq_self)

lemma read_msg_follows:
  assumes ds: "numbered ds" and fr: "genuine ds (OwnerData (Inr msg) told asked)" and f: "follows ds R rr"
    and run: "read_owner_msg msg told asked rr = (None, rr')"
  shows "follows ds R rr'"
proof (cases "\<exists>snap. msg = RosterSnapshotMsg snap")
  case True
  then obtain snap where msg: "msg = RosterSnapshotMsg snap" by blast
  then obtain k where "k \<le> length ds" "rs_revision snap = of_nat k" "mset (rs_peers snap) = roster_after ds k"
    using fr by (auto simp: genuine_def list_ex_iff less_Suc_eq_le simp del: upt_Suc)
  then show ?thesis using run msg
    by (auto simp: read_owner_msg_def tell_def follows_def client_view_append split: if_splits intro!: exI [of _ k])
next
  case False
  show ?thesis
  proof (cases "\<exists>n j l. msg = RosterDeltaMsg n j l \<and> n = rr_revision rr + 1")
    case True
    then obtain n j l where msg: "msg = RosterDeltaMsg n j l" and n: "n = rr_revision rr + 1" by blast
    obtain d where "d \<in> set ds" and dd: "n = rd_revision d" "j = rd_joined d" "l = rd_left d"
      using fr msg by (auto simp: genuine_def list_ex_iff)
    then obtain i where i: "i < length ds" "ds ! i = d" by (metis in_set_conv_nth)
    obtain k where k: "k \<le> length ds" "rr_revision rr = of_nat k" "client_view R (rr_texts rr) = roster_after ds k"
      using f by (auto simp: follows_def)
    have "(of_nat (Suc i) :: 64 word) = of_nat (Suc k)"
      using ds i dd(1) n k(2) by (auto simp: numbered_def add.commute)
    then have "i = k" if "Suc k < 2 ^ 64"
      using word_of_nat_eq [of "Suc i" "Suc k"] ds i(1) that by (auto simp: numbered_def)
    moreover have "Suc k < 2 ^ 64 \<or> Suc k = 2 ^ 64" using k(1) ds by (auto simp: numbered_def)
    moreover have "Suc k \<noteq> 2 ^ 64"
    proof
      assume "Suc k = 2 ^ 64"
      then have "(of_nat (Suc i) :: 64 word) = 0"
        unfolding \<open>(of_nat (Suc i) :: 64 word) = of_nat (Suc k)\<close> \<open>Suc k = 2 ^ 64\<close>
        by (simp add: word_of_nat_eq_0_iff)
      then have "2 ^ 64 dvd Suc i" by (simp add: word_of_nat_eq_0_iff del: of_nat_Suc)
      then have "2 ^ 64 \<le> Suc i" by (rule dvd_imp_le) simp
      then show False using ds i(1) by (simp add: numbered_def)
    qed
    ultimately have ik: "i = k" by blast
    have "one_sided d" using ds \<open>d \<in> set ds\<close> by (auto simp: numbered_def list_all_iff)
    then have "client_view R (rr_texts rr') = roster_after ds (Suc k) \<and> rr_revision rr' = of_nat (Suc k)"
      using run msg n k i ik dd
      by (auto simp: read_owner_msg_def tell_def client_view_append roster_after_Suc apply_delta_def one_sided_def
          Let_def add.commute split: option.splits if_splits)
    then show ?thesis using i(1) ik by (auto simp: follows_def intro!: exI [of _ "Suc k"])
  next
    case other: False
    have "rr_revision rr' = rr_revision rr \<and> rr_texts rr' = rr_texts rr"
      using run False other
      by (cases msg) (auto simp: read_owner_msg_def split: if_splits)
    then show ?thesis using f by (simp add: follows_def)
  qed
qed

lemma reader_follows:
  "numbered ds \<Longrightarrow> list_all (genuine ds) frs \<Longrightarrow> follows ds R rr \<Longrightarrow> read_owner_control frs rr = (None, rr') \<Longrightarrow>
   follows ds R rr'"
proof (induction frs arbitrary: rr)
  case (Cons fr frs)
  show ?case
  proof (cases "\<exists>msg told asked. fr = OwnerData (Inr msg) told asked")
    case True
    then obtain msg told asked where fr: "fr = OwnerData (Inr msg) told asked" by blast
    obtain rr1 where r1: "read_owner_msg msg told asked rr = (None, rr1)" "read_owner_control frs rr1 = (None, rr')"
      using Cons.prems(4) fr by (auto split: prod.splits option.splits)
    have "follows ds R rr1"
      using read_msg_follows [OF Cons.prems(1) _ Cons.prems(3) r1(1)] Cons.prems(2) fr by simp
    then show ?thesis using Cons.IH r1(2) Cons.prems(1,2) by simp
  next
    case False
    then have "read_owner_control frs rr = (None, rr')"
      using Cons.prems(4) by (auto split: owner_frame.splits sum.splits)
    then show ?thesis using Cons.IH Cons.prems(1-3) by simp
  qed
qed simp

lemma room_log_numbered:
  assumes "fresh_run (room_new c ch) ops" "r = foldl room_step (room_new c ch) ops" "length (rm_roster_log r) < 2 ^ 64"
  shows "numbered (rm_roster_log r) \<and> mset (roster_of r) = roster_after (rm_roster_log r) (length (rm_roster_log r)) \<and>
    ag_roster_revision (rm_guard r) = of_nat (length (rm_roster_log r))"
proof -
  obtain ds where ds: "explains (room_new c ch) ds r"
    using explains_run [OF room_new_inv assms(1)] assms(2) by blast
  then have log: "rm_roster_log r = ds" by (simp add: explains_def room_new_def)
  have "log_ok r" unfolding assms(2) by (rule logs.run_inv) (simp add: log_ok_def room_new_def)
  then show ?thesis
    using ds assms(3)
    by (auto simp: log numbered_def log_ok_def explains_def room_new_def guard_new_def roster_of_def roster_after_def)
qed

lemma fresh_run_append: "fresh_run r (xs @ ys) \<longleftrightarrow> fresh_run r xs \<and> fresh_run (foldl room_step r xs) ys"
  by (induction xs arbitrary: r) auto

text \<open>What the owner sends of a room, now or later in its life, is genuine.\<close>

lemma owner_sends_genuine:
  assumes fresh: "fresh_run (room_new c ch) (past @ later)" and r0: "r0 = foldl room_step (room_new c ch) past"
    and r: "r = foldl room_step r0 later"
  shows "genuine (rm_roster_log r) (OwnerData (Inr (roster_snapshot_msg r0)) told asked)"
    "d \<in> set (rm_roster_log r) \<Longrightarrow> genuine (rm_roster_log r) (OwnerData (Inr (roster_delta_msg d)) told asked)"
proof -
  have f: "fresh_run (room_new c ch) past" "fresh_run r0 later" using fresh by (simp_all add: fresh_run_append r0)
  obtain ds where ds: "explains (room_new c ch) ds r0" using explains_run [OF room_new_inv f(1)] r0 by blast
  have "room_inv r0" unfolding r0 by (rule rooms.run_inv) (rule room_new_inv)
  then obtain ds' where ds': "explains r0 ds' r" using explains_run f(2) r by blast
  have log: "rm_roster_log r = ds @ ds'" using ds ds' by (simp add: explains_def room_new_def)
  have rev: "rs_revision (roster_snapshot r0) = of_nat (length ds)"
    and peers: "mset (rs_peers (roster_snapshot r0)) = roster_after (ds @ ds') (length ds)"
    using ds by (simp_all add: explains_def room_new_def guard_new_def roster_of_def roster_snapshot_def roster_after_def)
  then show "genuine (rm_roster_log r) (OwnerData (Inr (roster_snapshot_msg r0)) told asked)"
    unfolding genuine_def roster_snapshot_msg_def log
    by (auto simp: list_ex_iff intro!: bexI [of _ "length ds"] simp del: upt_Suc)
  show "genuine (rm_roster_log r) (OwnerData (Inr (roster_delta_msg d)) told asked)" if "d \<in> set (rm_roster_log r)"
    using that by (auto simp: genuine_def roster_delta_msg_def list_ex_iff)
qed

text \<open>
  C32: The client of a remote relay sees one of the owner's rosters. It starts from the snapshot of its
  registration; of what the owner then sends, any part may be lost, repeated or late. The texts the
  reader has forwarded always add up to the roster of the owner at the revision the reader holds,
  so to the current one when it has caught up.
\<close>

theorem remote_roster_follows_owner:
  assumes "fresh_run (room_new c ch) ops" "r = foldl room_step (room_new c ch) ops"
    "length (rm_roster_log r) < 2 ^ 64" "k0 \<le> length (rm_roster_log r)"
    "list_all (genuine (rm_roster_log r)) frs"
    "read_owner_control frs \<lparr>rr_revision = of_nat k0, rr_texts = [], rr_requests = 0\<rparr> = (None, rr)"
  shows "\<exists>k\<le>length (rm_roster_log r). rr_revision rr = of_nat k \<and>
    client_view (roster_after (rm_roster_log r) k0) (rr_texts rr) = roster_after (rm_roster_log r) k \<and>
    (rr_revision rr = ag_roster_revision (rm_guard r) \<longrightarrow>
       client_view (roster_after (rm_roster_log r) k0) (rr_texts rr) = mset (roster_of r))"
proof -
  note log = room_log_numbered [OF assms(1-3)]
  have "follows (rm_roster_log r) (roster_after (rm_roster_log r) k0) \<lparr>rr_revision = of_nat k0, rr_texts = [], rr_requests = 0\<rparr>"
    using assms(4) by (auto simp: follows_def)
  then obtain k where k: "k \<le> length (rm_roster_log r)" "rr_revision rr = of_nat k"
    "client_view (roster_after (rm_roster_log r) k0) (rr_texts rr) = roster_after (rm_roster_log r) k"
    using reader_follows [OF _ assms(5) _ assms(6)] log by (auto simp: follows_def)
  then show ?thesis
    using log word_of_nat_eq [of k "length (rm_roster_log r)"] assms(3) by (intro exI [of _ k]) auto
qed

text \<open>One peer joins and leaves; the leave arrives, then an old delta again.\<close>

definition follow_ops :: "room_op list" where
  "follow_ops = [AddPeer ''a'' ''pka'' 2, AddPeer ''b'' ''pkb'' 2, RemovePeer ''a'']"

definition follow_room :: room where
  "follow_room = foldl room_step (room_new ''c'' ''ch'') follow_ops"

definition follow_frames :: "owner_frame list" where
  "follow_frames = map (\<lambda>d. OwnerData (Inr (roster_delta_msg d)) True True)
     [rm_roster_log follow_room ! 1, rm_roster_log follow_room ! 2, rm_roster_log follow_room ! 0]"

definition follow_end :: reader where
  "follow_end = snd (read_owner_control follow_frames \<lparr>rr_revision = of_nat 1, rr_texts = [], rr_requests = 0\<rparr>)"

theorem remote_roster_follows_owner_witness:
  "rr_revision follow_end = 3 \<and>
   client_view (roster_after (rm_roster_log follow_room) 1) (rr_texts follow_end) = mset (roster_of follow_room)"
proof -
  have fresh: "fresh_run (room_new ''c'' ''ch'') follow_ops" by code_simp
  have len: "length (rm_roster_log follow_room) = 3" by code_simp
  have rev: "rr_revision follow_end = 3" "ag_roster_revision (rm_guard follow_room) = 3" by code_simp+
  have "fst (read_owner_control follow_frames \<lparr>rr_revision = of_nat 1, rr_texts = [], rr_requests = 0\<rparr>) = None"
    by code_simp
  then have run: "read_owner_control follow_frames \<lparr>rr_revision = of_nat 1, rr_texts = [], rr_requests = 0\<rparr> = (None, follow_end)"
    by (simp add: follow_end_def prod_eq_iff)
  have "list_all (genuine (rm_roster_log follow_room)) follow_frames"
    using len by (auto simp: follow_frames_def genuine_def roster_delta_msg_def list_ex_iff intro!: nth_mem bexI)
  then show ?thesis
    using remote_roster_follows_owner [OF fresh follow_room_def _ _ _ run] len rev by auto
qed

section \<open>The generation floor\<close>

definition verdict_accepts :: "fence_verdict \<Rightarrow> bool" where
  "verdict_accepts v = (case v of FenceAccept _ \<Rightarrow> True | FenceRejectStale _ \<Rightarrow> False)"

fun floor_run :: "(uuid \<times> nat) list \<Rightarrow> generation_floor \<Rightarrow> bool list \<times> generation_floor" where
  "floor_run [] fl = ([], fl)"
| "floor_run ((s, g) # frames) fl =
     (case floor_check s g fl of (v, fl') \<Rightarrow>
        case floor_run frames fl' of (vs, fl'') \<Rightarrow> (verdict_accepts v # vs, fl''))"

text \<open>The reference: a frame passes when no earlier frame of its session had a later generation.\<close>

definition passes :: "(uuid \<times> nat) list \<Rightarrow> uuid \<Rightarrow> nat \<Rightarrow> bool" where
  "passes earlier s g \<longleftrightarrow> (\<forall>(s', g') \<in> set earlier. s' = s \<longrightarrow> g' \<le> g)"

definition floor_is :: "(uuid \<times> nat) list \<Rightarrow> generation_floor \<Rightarrow> bool" where
  "floor_is earlier fl \<longleftrightarrow> (\<forall>s. case hget fl s of
      None \<Rightarrow> \<forall>(s', g') \<in> set earlier. s' \<noteq> s
    | Some k \<Rightarrow> (s, k) \<in> set earlier \<and> (\<forall>(s', g') \<in> set earlier. s' = s \<longrightarrow> g' \<le> k))"

lemma floor_is_snoc:
  assumes fl: "floor_is earlier fl" and same: "\<And>t. t \<noteq> s \<Longrightarrow> hget fl' t = hget fl t"
    and m: "hget fl' s = Some m" "(s, m) \<in> set (earlier @ [(s, g)])" "g \<le> m"
    and top: "\<And>g'. (s, g') \<in> set earlier \<Longrightarrow> g' \<le> m"
  shows "floor_is (earlier @ [(s, g)]) fl'"
  unfolding floor_is_def
proof
  fix t
  show "case hget fl' t of
      None \<Rightarrow> \<forall>(s', g') \<in> set (earlier @ [(s, g)]). s' \<noteq> t
    | Some k \<Rightarrow> (t, k) \<in> set (earlier @ [(s, g)]) \<and> (\<forall>(s', g') \<in> set (earlier @ [(s, g)]). s' = t \<longrightarrow> g' \<le> k)"
  proof (cases "t = s")
    case True
    then show ?thesis using m top by auto
  next
    case False
    then show ?thesis using spec [OF fl [unfolded floor_is_def], of t] same [OF False]
      by (auto split: option.splits)
  qed
qed

lemma floor_check_is:
  assumes fl: "floor_is earlier fl" and c: "floor_check s g fl = (v, fl')"
  shows "verdict_accepts v = passes earlier s g \<and> floor_is (earlier @ [(s, g)]) fl'"
proof (cases "hget fl s")
  case None
  then have none: "\<And>g'. (s, g') \<notin> set earlier" using spec [OF fl [unfolded floor_is_def], of s] by auto
  then have v: "v = FenceAccept False" "fl' = hinsert s g fl" "passes earlier s g"
    using c None by (auto simp: floor_check_def passes_def)
  then have "floor_is (earlier @ [(s, g)]) fl'" using none by (intro floor_is_snoc [OF fl, where m = g]) auto
  then show ?thesis using v by (simp add: verdict_accepts_def)
next
  case (Some k)
  then have k: "(s, k) \<in> set earlier" "\<And>g'. (s, g') \<in> set earlier \<Longrightarrow> g' \<le> k"
    using spec [OF fl [unfolded floor_is_def], of s] by auto
  have p: "passes earlier s g \<longleftrightarrow> k \<le> g" using k by (fastforce simp: passes_def)
  show ?thesis
  proof (cases "g < k")
    case True
    then have v: "v = FenceRejectStale k" "fl' = fl" using c Some by (auto simp: floor_check_def)
    have "floor_is (earlier @ [(s, g)]) fl'"
      using v k True Some by (intro floor_is_snoc [OF fl, where m = k]) auto
    then show ?thesis using True p v by (simp add: verdict_accepts_def)
  next
    case False
    then have v: "v = FenceAccept (k < g)" "fl' = (if k < g then hinsert s g fl else fl)"
      using c Some by (auto simp: floor_check_def)
    have "floor_is (earlier @ [(s, g)]) fl'"
      using v k False Some by (intro floor_is_snoc [OF fl, where m = g]) (auto dest: k(2))
    then show ?thesis using v p False by (simp add: verdict_accepts_def)
  qed
qed

text \<open>
  The media fence equals its specification: frame \<open>i\<close> is let through exactly when no earlier frame of
  the session, let through or not, was of a later generation.
\<close>

lemma floor_run_passes:
  "floor_is earlier fl \<Longrightarrow> i < length frames \<Longrightarrow> floor_run frames fl = (vs, fl') \<Longrightarrow>
   vs ! i \<longleftrightarrow> passes (earlier @ take i frames) (fst (frames ! i)) (snd (frames ! i))"
proof (induction frames arbitrary: earlier fl i vs)
  case (Cons fr frames)
  obtain s g where fr: "fr = (s, g)" by fastforce
  obtain v fl1 where c: "floor_check s g fl = (v, fl1)" by fastforce
  obtain vs1 where r: "floor_run frames fl1 = (vs1, fl')" "vs = verdict_accepts v # vs1"
    using Cons.prems(3) c fr by (auto split: prod.splits)
  note is1 = floor_check_is [OF Cons.prems(1) c]
  show ?case
  proof (cases i)
    case 0
    then show ?thesis using is1 r fr by simp
  next
    case (Suc j)
    then show ?thesis using Cons.IH [of "earlier @ [(s, g)]" fl1 j vs1] is1 r fr Cons.prems(2) by simp
  qed
qed simp

text \<open>
  The media fence. A datagram passes exactly when no earlier datagram of its session carried a later
  generation.
\<close>

theorem media_fence_is_exact:
  assumes "i < length frames"
  shows "fst (floor_run frames []) ! i \<longleftrightarrow> passes (take i frames) (fst (frames ! i)) (snd (frames ! i))"
  using floor_run_passes [of "[]" "[]" i frames] assms by (simp add: floor_is_def prod_eq_iff)

theorem media_fence_is_exact_witness:
  "fst (floor_run [(''s'', 3), (''t'', 1), (''s'', 2)] []) ! 2 \<longleftrightarrow> passes [(''s'', 3), (''t'', 1)] ''s'' 2"
  using media_fence_is_exact [of 2 "[(''s'', 3), (''t'', 1), (''s'', 2)]"] by (simp add: numeral_2_eq_2)

text \<open>A stale datagram touches no room, and no datagram comes back to the peer that sent it.\<close>

theorem stale_media_is_dropped:
  "fst (on_media_datagram d fl m) = FenceRejectStale known \<Longrightarrow> snd (snd (on_media_datagram d fl m)) = m"
  by (auto simp: on_media_datagram_def Let_def split: prod.splits fence_verdict.splits)

end
