(* ===== verification/EventStore.thy ===== *)
theory EventStore
  imports Filters IngestRules "HOL-Library.Product_Lexorder" "HOL-Library.List_Lexorder" "HOL-Library.Char_ord"
begin

text \<open>
  Event storage and retrieval, from \<open>crates/buzz-db/src/event.rs\<close> and \<open>insert_mentions\<close> of
  \<open>crates/buzz-db/src/lib.rs\<close>.

  \<^item> The tables \<open>events\<close> and \<open>event_mentions\<close> are one list of \<open>event_row\<close>s: a row carries the
    stored event, the columns the queries read (\<open>community_id\<close>, \<open>created_at\<close>, \<open>d_tag\<close>,
    \<open>deleted_at\<close>) and the pubkeys that \<open>event_mentions\<close> has for it. A row holds an event that
    \<open>row_to_stored_event\<close> can rebuild.
  \<^item> \<open>query_where\<close> and \<open>count_where\<close> are the \<open>WHERE\<close> clauses that \<open>query_events_on\<close> and
    \<open>count_events_on\<close> build, clause by clause; \<open>query_events\<close> and \<open>count_events\<close> are the whole
    functions: the checks, the clause, \<open>ORDER BY\<close>, \<open>LIMIT\<close> and \<open>OFFSET\<close>.
  \<^item> \<open>replace_addressable_event\<close> and \<open>replace_parameterized_event\<close> are the transactions that keep
    one live event per slot and per address; the advisory locks make each of them one step.
  \<^item> \<open>chrono\<close>'s \<open>DateTime::from_timestamp\<close> is a parameter. Database triggers are not modelled.
\<close>

section \<open>Rows\<close>

definition DEFAULT_MAX_PAGE_LIMIT :: int where "DEFAULT_MAX_PAGE_LIMIT = 1000"

record event_row =
  er_community :: uuid
  er_stored :: stored_event
  er_created_at :: int
  er_d_tag :: "string option"
  er_mentions :: "string list"
  er_deleted :: bool

abbreviation er_event :: "event_row \<Rightarrow> nostr_event" where
  "er_event r \<equiv> se_event (er_stored r)"

datatype store_error = AuthEventRejected | EphemeralEventRejected nat | InvalidTimestamp int | InvalidData string | SqlError

text \<open>\<open>u64 as i64\<close>.\<close>

definition as_i64 :: "nat \<Rightarrow> int" where
  "as_i64 n = (let m = int n mod 2 ^ 64 in if m < 2 ^ 63 then m else m - 2 ^ 64)"

definition mention_value :: "tag \<Rightarrow> string option" where
  "mention_value parts = (if length parts \<ge> 2 \<and> parts ! 0 = ''p'' then Some (parts ! 1) else None)"

definition insert_mentions :: "nostr_event \<Rightarrow> string list" where
  "insert_mentions ev =
     remdups (map ascii_lower
       (filter (\<lambda>pk. length pk = 64 \<and> list_all is_ascii_hexdigit pk)
         (List.map_filter mention_value (ev_tags ev))))"

record event_db =
  db_rows :: "event_row list"
  db_watermarks :: "(uuid \<times> nat \<times> string \<times> string, int \<times> string) hmap"

definition new_row ::
  "bool \<Rightarrow> instant \<Rightarrow> uuid \<Rightarrow> nostr_event \<Rightarrow> uuid option \<Rightarrow> int \<Rightarrow> string option \<Rightarrow> event_row" where
  "new_row mentioned now c ev ch t d =
     \<lparr>er_community = c, er_stored = with_received_at ev now ch True, er_created_at = t, er_d_tag = d,
      er_mentions = (if mentioned then insert_mentions ev else []), er_deleted = False\<rparr>"

text \<open>
  \<open>INSERT ... ON CONFLICT DO NOTHING\<close> under the primary key; \<open>None\<close> when the row is there. The
  mentions are inserted afterwards and a failure (\<open>mentioned\<close> false) is only logged.
\<close>

definition insert_event_row ::
  "bool \<Rightarrow> instant \<Rightarrow> uuid \<Rightarrow> nostr_event \<Rightarrow> uuid option \<Rightarrow> int \<Rightarrow> string option \<Rightarrow> event_row list
   \<Rightarrow> event_row list option" where
  "insert_event_row mentioned now c ev ch t d rows =
     (if list_ex (\<lambda>r. er_community r = c \<and> er_created_at r = t \<and> ev_id (er_event r) = ev_id ev) rows
      then None else Some (rows @ [new_row mentioned now c ev ch t d]))"

definition insert_event ::
  "(int \<Rightarrow> int option) \<Rightarrow> bool \<Rightarrow> instant \<Rightarrow> uuid \<Rightarrow> nostr_event \<Rightarrow> uuid option \<Rightarrow> event_db
   \<Rightarrow> (store_error + stored_event \<times> bool) \<times> event_db" where
  "insert_event from_ts mentioned now c ev ch db =
     (let kind = ev_kind ev; secs = as_i64 (ev_created_at ev); se = with_received_at ev now ch True in
      if kind = KIND_AUTH then (Inl AuthEventRejected, db)
      else if is_ephemeral kind then (Inl (EphemeralEventRejected kind), db)
      else case from_ts secs of
        None \<Rightarrow> (Inl (InvalidTimestamp secs), db)
      | Some t \<Rightarrow>
          (case insert_event_row mentioned now c ev ch t (extract_d_tag ev) (db_rows db) of
             None \<Rightarrow> (Inr (se, False), db)
           | Some rows \<Rightarrow> (Inr (se, True), db\<lparr>db_rows := rows\<rparr>)))"

section \<open>Queries\<close>

record event_query =
  eq_community :: uuid
  eq_channel_id :: "uuid option"
  eq_kinds :: "nat list option"
  eq_pubkey :: "string option"
  eq_since :: "int option"
  eq_until :: "int option"
  eq_limit :: "int option"
  eq_offset :: "int option"
  eq_p_tag_hex :: "string option"
  eq_d_tag :: "string option"
  eq_d_tags :: "string list option"
  eq_before_id :: "string option"
  eq_global_only :: bool
  eq_authors :: "string list option"
  eq_ids :: "string list option"
  eq_e_tags :: "string list option"
  eq_channel_ids :: "uuid list option"
  eq_max_limit :: "int option"
  eq_shared_gated_reader :: "string option"

definition for_community :: "uuid \<Rightarrow> event_query" where
  "for_community c =
     \<lparr>eq_community = c, eq_channel_id = None, eq_kinds = None, eq_pubkey = None, eq_since = None,
      eq_until = None, eq_limit = None, eq_offset = None, eq_p_tag_hex = None, eq_d_tag = None,
      eq_d_tags = None, eq_before_id = None, eq_global_only = False, eq_authors = None, eq_ids = None,
      eq_e_tags = None, eq_channel_ids = None, eq_max_limit = None, eq_shared_gated_reader = None\<rparr>"

text \<open>A clause that is left out, and a list that means \<open>match nothing\<close> when it is empty.\<close>

definition clause :: "'a option \<Rightarrow> ('a \<Rightarrow> bool) \<Rightarrow> bool" where
  "clause c P = (case c of None \<Rightarrow> True | Some x \<Rightarrow> P x)"

definition in_clause :: "'a list option \<Rightarrow> 'a \<Rightarrow> bool" where
  "in_clause c x = (case c of None \<Rightarrow> True | Some [] \<Rightarrow> True | Some xs \<Rightarrow> List.member xs x)"

definition is_empty_list :: "'a list option \<Rightarrow> bool" where
  "is_empty_list c = (c = Some [])"

text \<open>\<open>tags @> '[[a, b]]'\<close>: some tag contains both strings, wherever they stand.\<close>

definition jsonb_contains :: "tag list \<Rightarrow> string \<Rightarrow> string \<Rightarrow> bool" where
  "jsonb_contains tags a b = list_ex (\<lambda>t. List.member t a \<and> List.member t b) tags"

text \<open>The clauses that both functions build.\<close>

definition base_where :: "event_query \<Rightarrow> event_row \<Rightarrow> bool" where
  "base_where q r =
     (let ev = er_event r; ch = se_channel_id (er_stored r) in
      er_community r = eq_community q \<and>
      clause (eq_p_tag_hex q) (\<lambda>p. List.member (er_mentions r) (ascii_lower p)) \<and>
      \<not> er_deleted r \<and>
      (case eq_channel_id q of
         Some c \<Rightarrow> ch = Some c
       | None \<Rightarrow> eq_global_only q \<longrightarrow> ch = None) \<and>
      clause (eq_channel_ids q) (\<lambda>ids.
        if ids = [] then ch = None
        else (case ch of None \<Rightarrow> True | Some c \<Rightarrow> List.member ids c)) \<and>
      in_clause (eq_kinds q) (ev_kind ev) \<and>
      clause (eq_pubkey q) (\<lambda>pk. ev_pubkey ev = pk) \<and>
      in_clause (eq_authors q) (ev_pubkey ev) \<and>
      in_clause (eq_ids q) (ev_id ev) \<and>
      clause (eq_e_tags q) (\<lambda>es. es = [] \<or> list_ex (jsonb_contains (ev_tags ev) ''e'') es) \<and>
      clause (eq_since q) (\<lambda>s. s \<le> er_created_at r) \<and>
      (case eq_d_tag q of
         Some d \<Rightarrow> er_d_tag r = Some d
       | None \<Rightarrow> clause (eq_d_tags q) (\<lambda>ds.
           ds = [] \<or> (case er_d_tag r of None \<Rightarrow> False | Some d \<Rightarrow> List.member ds d))))"

definition query_where :: "event_query \<Rightarrow> event_row \<Rightarrow> bool" where
  "query_where q r =
     (base_where q r \<and>
      clause (eq_until q) (\<lambda>u.
        case eq_before_id q of
          Some bid \<Rightarrow> er_created_at r < u \<or> (er_created_at r = u \<and> ev_id (er_event r) > bid)
        | None \<Rightarrow> er_created_at r \<le> u) \<and>
      clause (eq_shared_gated_reader q) (\<lambda>reader.
        \<not> List.member SHARED_GATED_KINDS (ev_kind (er_event r)) \<or>
        ev_pubkey (er_event r) = reader \<or>
        jsonb_contains (ev_tags (er_event r)) ''shared'' ''true''))"

definition count_where :: "event_query \<Rightarrow> event_row \<Rightarrow> bool" where
  "count_where q r = (base_where q r \<and> clause (eq_until q) (\<lambda>u. er_created_at r \<le> u))"

definition matches_nothing :: "event_query \<Rightarrow> bool" where
  "matches_nothing q =
     (is_empty_list (eq_kinds q) \<or> is_empty_list (eq_authors q) \<or> is_empty_list (eq_ids q) \<or>
      is_empty_list (eq_e_tags q))"

text \<open>\<open>ORDER BY created_at DESC, id ASC\<close>.\<close>

definition order_rows :: "event_row list \<Rightarrow> event_row list" where
  "order_rows rows = sort_key (\<lambda>r. (- er_created_at r, ev_id (er_event r))) rows"

definition page_limit :: "event_query \<Rightarrow> int" where
  "page_limit q =
     min (case eq_limit q of None \<Rightarrow> 100 | Some l \<Rightarrow> l)
       (case eq_max_limit q of None \<Rightarrow> DEFAULT_MAX_PAGE_LIMIT | Some l \<Rightarrow> l)"

definition page_offset :: "event_query \<Rightarrow> int" where
  "page_offset q = (case eq_offset q of None \<Rightarrow> 0 | Some k \<Rightarrow> k)"

text \<open>Postgres rejects a negative \<open>LIMIT\<close> or \<open>OFFSET\<close>.\<close>

definition query_events :: "event_query \<Rightarrow> event_row list \<Rightarrow> store_error + stored_event list" where
  "query_events q rows =
     (if eq_before_id q \<noteq> None \<and> eq_until q = None
      then Inl (InvalidData ''before_id requires until to be set'')
      else if eq_global_only q \<and> eq_channel_id q \<noteq> None
      then Inl (InvalidData ''global_only and channel_id are mutually exclusive'')
      else if matches_nothing q then Inr []
      else if page_limit q < 0 \<or> page_offset q < 0 then Inl SqlError
      else Inr (map er_stored (take (nat (page_limit q)) (drop (nat (page_offset q))
             (order_rows (filter (query_where q) rows))))))"

definition count_events :: "event_query \<Rightarrow> event_row list \<Rightarrow> nat" where
  "count_events q rows =
     (if matches_nothing q then 0 else length (filter (count_where q) rows))"

section \<open>Deletion and replacement\<close>

definition soft_delete :: "(event_row \<Rightarrow> bool) \<Rightarrow> event_row list \<Rightarrow> event_row list" where
  "soft_delete P rows = map (\<lambda>r. if P r \<and> \<not> er_deleted r then r\<lparr>er_deleted := True\<rparr> else r) rows"

definition any_live :: "(event_row \<Rightarrow> bool) \<Rightarrow> event_row list \<Rightarrow> bool" where
  "any_live P rows = list_ex (\<lambda>r. P r \<and> \<not> er_deleted r) rows"

definition soft_delete_event :: "uuid \<Rightarrow> string \<Rightarrow> event_db \<Rightarrow> bool \<times> event_db" where
  "soft_delete_event c i db =
     (let P = (\<lambda>r. er_community r = c \<and> ev_id (er_event r) = i)
      in (any_live P (db_rows db), db\<lparr>db_rows := soft_delete P (db_rows db)\<rparr>))"

definition at_address :: "uuid \<Rightarrow> nat \<Rightarrow> string \<Rightarrow> string \<Rightarrow> event_row \<Rightarrow> bool" where
  "at_address c kind pk d r \<longleftrightarrow>
     er_community r = c \<and> ev_kind (er_event r) = kind \<and> ev_pubkey (er_event r) = pk \<and> er_d_tag r = Some d"

definition soft_delete_by_coordinate ::
  "(int \<Rightarrow> int option) \<Rightarrow> uuid \<Rightarrow> nat \<Rightarrow> string \<Rightarrow> string \<Rightarrow> int \<Rightarrow> event_db
   \<Rightarrow> (store_error + bool) \<times> event_db" where
  "soft_delete_by_coordinate from_ts c kind pk d secs db =
     (case from_ts secs of
        None \<Rightarrow> (Inl (InvalidTimestamp secs), db)
      | Some t \<Rightarrow>
          (let P = (\<lambda>r. at_address c kind pk d r \<and> er_created_at r \<le> t)
           in (Inr (any_live P (db_rows db)), db\<lparr>db_rows := soft_delete P (db_rows db)\<rparr>)))"

definition row_version :: "event_row \<Rightarrow> int \<times> string" where
  "row_version r = (er_created_at r, ev_id (er_event r))"

text \<open>\<open>ORDER BY created_at DESC, id ASC LIMIT 1\<close> over the live rows.\<close>

definition latest :: "(event_row \<Rightarrow> bool) \<Rightarrow> event_row list \<Rightarrow> (int \<times> string) option" where
  "latest P rows =
     (case order_rows (filter (\<lambda>r. P r \<and> \<not> er_deleted r) rows) of
        [] \<Rightarrow> None | r # _ \<Rightarrow> Some (row_version r))"

definition dominated :: "int \<times> string \<Rightarrow> (int \<times> string) option \<Rightarrow> bool" where
  "dominated v known =
     (case known of None \<Rightarrow> False
      | Some (t, i) \<Rightarrow> fst v < t \<or> (fst v = t \<and> snd v \<ge> i))"

definition at_slot :: "uuid \<Rightarrow> nat \<Rightarrow> string \<Rightarrow> uuid option \<Rightarrow> event_row \<Rightarrow> bool" where
  "at_slot c kind pk ch r \<longleftrightarrow>
     er_community r = c \<and> ev_kind (er_event r) = kind \<and> ev_pubkey (er_event r) = pk \<and>
     se_channel_id (er_stored r) = ch"

definition replace_addressable_event ::
  "(int \<Rightarrow> int option) \<Rightarrow> bool \<Rightarrow> instant \<Rightarrow> uuid \<Rightarrow> nostr_event \<Rightarrow> uuid option \<Rightarrow> event_db
   \<Rightarrow> (store_error + stored_event \<times> bool) \<times> event_db" where
  "replace_addressable_event from_ts mentioned now c ev ch db =
     (let secs = as_i64 (ev_created_at ev); slot = at_slot c (ev_kind ev) (ev_pubkey ev) ch;
          refused = (Inr (with_received_at ev now ch False, False), db) in
      case from_ts secs of
        None \<Rightarrow> (Inl (InvalidTimestamp secs), db)
      | Some t \<Rightarrow>
          if dominated (t, ev_id ev) (latest slot (db_rows db)) then refused
          else (case insert_event_row mentioned now c ev ch t (extract_d_tag ev) (soft_delete slot (db_rows db)) of
             None \<Rightarrow> refused
           | Some rows \<Rightarrow> (Inr (with_received_at ev now ch True, True), db\<lparr>db_rows := rows\<rparr>)))"

text \<open>The two shapes whose superseded payload is deleted for good.\<close>

definition is_nip_rs :: "nostr_event \<Rightarrow> string \<Rightarrow> bool" where
  "is_nip_rs ev d \<longleftrightarrow>
     ev_kind ev = KIND_READ_STATE \<and>
     length (filter (\<lambda>t. t \<noteq> [] \<and> hd t = ''d'') (ev_tags ev)) = 1 \<and>
     list_ex (\<lambda>t. length t \<ge> 2 \<and> t ! 0 = ''d'' \<and> t ! 1 = d) (ev_tags ev) \<and>
     (case strip_prefix ''read-state:'' d of
        None \<Rightarrow> False
      | Some slot \<Rightarrow> length slot = 32 \<and> list_all (\<lambda>c. is_ascii_hexdigit c \<and> \<not> is_ascii_uppercase c) slot) \<and>
     length (filter (\<lambda>t. t = [''t'', ''read-state'']) (ev_tags ev)) = 1"

definition is_buzz_mesh_status :: "nostr_event \<Rightarrow> string \<Rightarrow> bool" where
  "is_buzz_mesh_status ev d \<longleftrightarrow>
     ev_kind ev = KIND_BOOKMARK_SET \<and> starts_with ''buzz-mesh-member-status:'' d \<and>
     list_ex (\<lambda>t. t = [''k'', ''buzz-mesh-status'']) (ev_tags ev)"

definition retire :: "bool \<Rightarrow> (event_row \<Rightarrow> bool) \<Rightarrow> event_row list \<Rightarrow> event_row list" where
  "retire hard P rows = (if hard then filter (\<lambda>r. \<not> (P r \<and> \<not> er_deleted r)) rows else soft_delete P rows)"

definition replace_parameterized_event ::
  "(int \<Rightarrow> int option) \<Rightarrow> bool \<Rightarrow> instant \<Rightarrow> uuid \<Rightarrow> nostr_event \<Rightarrow> string \<Rightarrow> uuid option \<Rightarrow> event_db
   \<Rightarrow> (store_error + stored_event \<times> bool) \<times> event_db" where
  "replace_parameterized_event from_ts mentioned now c ev d ch db =
     (let secs = as_i64 (ev_created_at ev); kind = ev_kind ev; pk = ev_pubkey ev;
          nip_rs = is_nip_rs ev d; hard = nip_rs \<or> is_buzz_mesh_status ev d;
          address = at_address c kind pk d; existing = latest address (db_rows db);
          watermark = (if nip_rs then hget (db_watermarks db) (c, kind, pk, d) else None);
          refused = (Inr (with_received_at ev now ch False, False), db) in
      case from_ts secs of
        None \<Rightarrow> (Inl (InvalidTimestamp secs), db)
      | Some t \<Rightarrow>
          if dominated (t, ev_id ev) existing \<or> dominated (t, ev_id ev) watermark then refused
          else (case insert_event_row mentioned now c ev ch t (Some d)
                       (if existing \<noteq> None then retire hard address (db_rows db) else db_rows db) of
             None \<Rightarrow> refused
           | Some rows \<Rightarrow>
               (Inr (with_received_at ev now ch True, True),
                db\<lparr>db_rows := rows,
                   db_watermarks := (if nip_rs then hinsert (c, kind, pk, d) (t, ev_id ev) (db_watermarks db)
                                     else db_watermarks db)\<rparr>)))"

section \<open>Versions and live rows\<close>

text \<open>The replacement order: later second first, and of the same second the smaller id.\<close>

definition newer :: "int \<times> string \<Rightarrow> int \<times> string \<Rightarrow> bool" where
  "newer v w \<longleftrightarrow> fst w < fst v \<or> (fst v = fst w \<and> snd v < snd w)"

lemma newer_trans: "newer u v \<Longrightarrow> newer v w \<Longrightarrow> newer u w"
  by (auto simp: newer_def)

lemma newer_irrefl [simp]: "\<not> newer v v"
  by (simp add: newer_def)

lemma newer_asym: "newer v w \<Longrightarrow> \<not> newer w v"
  by (auto simp: newer_def)

lemma newer_total: "\<not> newer v w \<Longrightarrow> v = w \<or> newer w v"
  by (cases v; cases w) (auto simp: newer_def)

lemma not_newer_trans: "\<not> newer u v \<Longrightarrow> \<not> newer v w \<Longrightarrow> \<not> newer u w"
  using newer_total newer_trans by metis

lemma dominated_iff: "dominated v k \<longleftrightarrow> (\<exists>w. k = Some w \<and> \<not> newer v w)"
  by (cases v) (auto simp: dominated_def newer_def split: option.splits)

lemma newer_key: "newer (row_version r) (row_version s) \<longleftrightarrow>
    (- er_created_at r, ev_id (er_event r)) < (- er_created_at s, ev_id (er_event s))"
  by (auto simp: newer_def row_version_def less_prod_def)

lemma mset_order_rows [simp]: "mset (order_rows rows) = mset rows"
  by (simp add: order_rows_def)

lemma set_order_rows [simp]: "set (order_rows rows) = set rows"
  by (simp add: order_rows_def)

lemma length_order_rows [simp]: "length (order_rows rows) = length rows"
  by (simp add: order_rows_def)

definition live :: "(event_row \<Rightarrow> bool) \<Rightarrow> event_row list \<Rightarrow> event_row list" where
  "live P rows = filter (\<lambda>r. P r \<and> \<not> er_deleted r) rows"

lemma latest_live: "latest P rows = (case order_rows (live P rows) of [] \<Rightarrow> None | r # _ \<Rightarrow> Some (row_version r))"
  by (simp add: latest_def live_def)

lemma latest_empty: "latest P rows = None \<longleftrightarrow> live P rows = []"
  by (auto simp: latest_live split: list.splits dest: arg_cong [where f = set])

lemma latest_single: "live P rows = [r] \<Longrightarrow> latest P rows = Some (row_version r)"
  by (simp add: latest_live order_rows_def)

text \<open>The head of the ordered rows is the newest one.\<close>

lemma latest_newest:
  assumes "latest P rows = Some v"
  shows "(\<exists>r \<in> set (live P rows). row_version r = v) \<and> (\<forall>r \<in> set (live P rows). \<not> newer (row_version r) v)"
proof -
  obtain s rest where s: "order_rows (live P rows) = s # rest" "v = row_version s"
    using assms by (auto simp: latest_live split: list.splits)
  have "sorted (map (\<lambda>r. (- er_created_at r, ev_id (er_event r))) (s # rest))"
    using s(1) sorted_sort_key by (metis order_rows_def)
  then have "\<forall>r \<in> set (s # rest). \<not> newer (row_version r) (row_version s)"
    by (auto simp: newer_key not_less)
  moreover have "set (s # rest) = set (live P rows)" using s(1) set_order_rows by metis
  ultimately show ?thesis using s by (metis list.set_intros(1))
qed

lemma live_append [simp]: "live P (rows @ rows') = live P rows @ live P rows'"
  by (simp add: live_def)

lemma live_soft_delete: "live Q (soft_delete P rows) = filter (\<lambda>r. \<not> P r) (live Q rows)"
  by (induction rows) (auto simp: live_def soft_delete_def)

lemma live_retire: "live Q (retire hard P rows) = filter (\<lambda>r. \<not> P r) (live Q rows)"
  by (auto simp: retire_def live_soft_delete) (induction rows; auto simp: live_def)

lemma live_retired: "live P (retire hard P rows) = []"
  by (subst live_retire) (auto simp: live_def filter_empty_conv)

lemma live_retire_other:
  assumes "\<And>r. Q r \<Longrightarrow> \<not> P r"
  shows "live Q (retire hard P rows) = live Q rows"
  unfolding live_retire by (rule filter_True) (use assms in \<open>auto simp: live_def\<close>)

text \<open>Every row that is left is an old row, up to its deletion mark.\<close>

lemma retired_row:
  assumes "r \<in> set (retire hard P rows)"
  shows "\<exists>s \<in> set rows. r = s \<or> r = s\<lparr>er_deleted := True\<rparr>"
  using assms by (auto simp: retire_def soft_delete_def split: if_splits)

lemma at_address_deleted [simp]: "at_address c k p d (r\<lparr>er_deleted := x\<rparr>) = at_address c k p d r"
  by (simp add: at_address_def)

lemma row_version_deleted [simp]: "row_version (r\<lparr>er_deleted := x\<rparr>) = row_version r"
  by (simp add: row_version_def)

lemma at_address_unique: "at_address c k p d r \<Longrightarrow> at_address c' k' p' d' r \<longleftrightarrow> (c', k', p', d') = (c, k, p, d)"
  by (auto simp: at_address_def)

lemma new_row_facts [simp]:
  "row_version (new_row m now c ev ch t d) = (t, ev_id ev)"
  "at_address c' k p d' (new_row m now c ev ch t d) \<longleftrightarrow> c' = c \<and> k = ev_kind ev \<and> p = ev_pubkey ev \<and> d = Some d'"
  "er_deleted (new_row m now c ev ch t d) = False"
  "er_created_at (new_row m now c ev ch t d) = t"
  "er_community (new_row m now c ev ch t d) = c"
  "er_d_tag (new_row m now c ev ch t d) = d"
  "er_event (new_row m now c ev ch t d) = ev"
  by (auto simp: new_row_def row_version_def at_address_def with_received_at_def)

section \<open>One live event per address\<close>

type_synonym address = "uuid \<times> nat \<times> string \<times> string"

abbreviation at :: "address \<Rightarrow> event_row \<Rightarrow> bool" where
  "at a \<equiv> at_address (fst a) (fst (snd a)) (fst (snd (snd a))) (snd (snd (snd a)))"

definition head_at :: "address \<Rightarrow> event_db \<Rightarrow> (int \<times> string) option" where
  "head_at a db = latest (at a) (db_rows db)"

text \<open>What the replacement makes of a head: the newer of the two.\<close>

definition pick :: "int \<times> string \<Rightarrow> (int \<times> string) option \<Rightarrow> (int \<times> string) option" where
  "pick v h = (if dominated v h then h else Some v)"

text \<open>
  Event ids are hashes: \<open>body\<close> gives back what an id commits to, for the events that are written
  and for the rows of the database.
\<close>

definition genuine_row :: "(string \<Rightarrow> nat \<times> string \<times> int \<times> string) \<Rightarrow> event_row \<Rightarrow> bool" where
  "genuine_row body r \<longleftrightarrow>
     (\<forall>d. er_d_tag r = Some d \<longrightarrow>
        body (ev_id (er_event r)) = (ev_kind (er_event r), ev_pubkey (er_event r), er_created_at r, d)) \<and>
     er_d_tag r \<noteq> None"

definition store_inv :: "(string \<Rightarrow> nat \<times> string \<times> int \<times> string) \<Rightarrow> event_db \<Rightarrow> bool" where
  "store_inv body db \<longleftrightarrow>
     (\<forall>r \<in> set (db_rows db). genuine_row body r) \<and>
     (\<forall>a. length (live (at a) (db_rows db)) \<le> 1) \<and>
     (\<forall>a. \<forall>r \<in> set (db_rows db). at a r \<longrightarrow> dominated (row_version r) (head_at a db)) \<and>
     (\<forall>a w. hget (db_watermarks db) a = Some w \<longrightarrow> dominated w (head_at a db))"

datatype param_write = ParamWrite uuid nostr_event string "uuid option" bool instant

fun write_address :: "param_write \<Rightarrow> address" where
  "write_address (ParamWrite c ev d ch m now) = (c, ev_kind ev, ev_pubkey ev, d)"

fun write_version :: "param_write \<Rightarrow> int \<times> string" where
  "write_version (ParamWrite c ev d ch m now) = (as_i64 (ev_created_at ev), ev_id ev)"

fun genuine_write :: "(int \<Rightarrow> int option) \<Rightarrow> (string \<Rightarrow> nat \<times> string \<times> int \<times> string) \<Rightarrow> param_write \<Rightarrow> bool" where
  "genuine_write from_ts body (ParamWrite c ev d ch m now) \<longleftrightarrow>
     from_ts (as_i64 (ev_created_at ev)) = Some (as_i64 (ev_created_at ev)) \<and>
     body (ev_id ev) = (ev_kind ev, ev_pubkey ev, as_i64 (ev_created_at ev), d)"

fun write_step :: "(int \<Rightarrow> int option) \<Rightarrow> event_db \<Rightarrow> param_write \<Rightarrow> event_db" where
  "write_step from_ts db (ParamWrite c ev d ch m now) = snd (replace_parameterized_event from_ts m now c ev d ch db)"

lemma dominated_trans: "dominated v (Some w) \<Longrightarrow> dominated w h \<Longrightarrow> dominated v h"
  by (metis dominated_iff not_newer_trans option.inject)

text \<open>A transaction either leaves the database as it was or retires the address and adds the row.\<close>

lemma replace_cases:
  assumes "from_ts (as_i64 (ev_created_at ev)) = Some t"
  obtains (Refused) "replace_parameterized_event from_ts m now c ev d ch db = (Inr (with_received_at ev now ch False, False), db)"
      "dominated (t, ev_id ev) (head_at (c, ev_kind ev, ev_pubkey ev, d) db) \<or>
       is_nip_rs ev d \<and> dominated (t, ev_id ev) (hget (db_watermarks db) (c, ev_kind ev, ev_pubkey ev, d)) \<or>
       (\<exists>r \<in> set (db_rows db). er_community r = c \<and> er_created_at r = t \<and> ev_id (er_event r) = ev_id ev)"
  | (Stored) rows where "snd (replace_parameterized_event from_ts m now c ev d ch db) =
        db\<lparr>db_rows := rows @ [new_row m now c ev ch t (Some d)],
           db_watermarks := (if is_nip_rs ev d then hinsert (c, ev_kind ev, ev_pubkey ev, d) (t, ev_id ev) (db_watermarks db)
                             else db_watermarks db)\<rparr>"
      "fst (replace_parameterized_event from_ts m now c ev d ch db) = Inr (with_received_at ev now ch True, True)"
      "\<not> dominated (t, ev_id ev) (head_at (c, ev_kind ev, ev_pubkey ev, d) db)"
      "is_nip_rs ev d \<longrightarrow> \<not> dominated (t, ev_id ev) (hget (db_watermarks db) (c, ev_kind ev, ev_pubkey ev, d))"
      "live (at (c, ev_kind ev, ev_pubkey ev, d)) rows = []"
      "\<And>a. a \<noteq> (c, ev_kind ev, ev_pubkey ev, d) \<Longrightarrow> live (at a) rows = live (at a) (db_rows db)"
      "\<And>r. r \<in> set rows \<Longrightarrow> \<exists>s \<in> set (db_rows db). r = s \<or> r = s\<lparr>er_deleted := True\<rparr>"
proof -
  let ?a = "(c, ev_kind ev, ev_pubkey ev, d)"
  let ?P = "at_address c (ev_kind ev) (ev_pubkey ev) d"
  let ?hard = "is_nip_rs ev d \<or> is_buzz_mesh_status ev d"
  let ?rows = "if latest ?P (db_rows db) \<noteq> None then retire ?hard ?P (db_rows db) else db_rows db"
  have sub: "\<And>r. r \<in> set ?rows \<Longrightarrow> \<exists>s \<in> set (db_rows db). r = s \<or> r = s\<lparr>er_deleted := True\<rparr>"
    using retired_row by (auto split: if_splits)
  have gone: "live (at ?a) ?rows = []"
    using live_retired [of ?P ?hard "db_rows db"] by (auto simp: latest_empty)
  have frame: "a \<noteq> ?a \<Longrightarrow> live (at a) ?rows = live (at a) (db_rows db)" for a
    by (cases a) (auto simp: at_address_def intro!: live_retire_other)
  show thesis
  proof (cases "dominated (t, ev_id ev) (head_at ?a db) \<or>
      is_nip_rs ev d \<and> dominated (t, ev_id ev) (hget (db_watermarks db) ?a) \<or>
      insert_event_row m now c ev ch t (Some d) ?rows = None")
    case True
    then have "replace_parameterized_event from_ts m now c ev d ch db = (Inr (with_received_at ev now ch False, False), db)"
      using assms by (auto simp: replace_parameterized_event_def Let_def head_at_def dominated_def)
    moreover have "insert_event_row m now c ev ch t (Some d) ?rows = None \<longrightarrow>
        (\<exists>r \<in> set (db_rows db). er_community r = c \<and> er_created_at r = t \<and> ev_id (er_event r) = ev_id ev)"
      using sub by (fastforce simp: insert_event_row_def list_ex_iff split: if_splits)
    ultimately show ?thesis using True by (elim disjE) (rule Refused, assumption, simp)+
  next
    case False
    then have "insert_event_row m now c ev ch t (Some d) ?rows = Some (?rows @ [new_row m now c ev ch t (Some d)])"
      by (auto simp: insert_event_row_def split: if_splits)
    then have "replace_parameterized_event from_ts m now c ev d ch db =
        (Inr (with_received_at ev now ch True, True),
         db\<lparr>db_rows := ?rows @ [new_row m now c ev ch t (Some d)],
           db_watermarks := (if is_nip_rs ev d then hinsert ?a (t, ev_id ev) (db_watermarks db) else db_watermarks db)\<rparr>)"
      using False assms by (auto simp: replace_parameterized_event_def Let_def head_at_def dominated_def)
    then show ?thesis using False gone frame sub by (intro Stored [of ?rows]) auto
  qed
qed

lemma write_keeps_inv:
  assumes "store_inv body db" "genuine_write from_ts body w"
  shows "store_inv body (write_step from_ts db w) \<and>
    head_at a (write_step from_ts db w) =
      (if a = write_address w then pick (write_version w) (head_at a db) else head_at a db)"
proof -
  obtain c ev d ch m now where w: "w = ParamWrite c ev d ch m now" by (cases w)
  let ?t = "as_i64 (ev_created_at ev)" and ?a = "(c, ev_kind ev, ev_pubkey ev, d)"
  let ?v = "(?t, ev_id ev)"
  have ts: "from_ts ?t = Some ?t" and body: "body (ev_id ev) = (ev_kind ev, ev_pubkey ev, ?t, d)"
    using assms(2) w by simp_all
  note J = assms(1) [unfolded store_inv_def]
  show ?thesis
  proof (rule replace_cases [where from_ts = from_ts and ev = ev and t = ?t and m = m and now = now and c = c and d = d
        and ch = ch and db = db, OF ts])
    assume Refused: "replace_parameterized_event from_ts m now c ev d ch db = (Inr (with_received_at ev now ch False, False), db)"
      "dominated ?v (head_at ?a db) \<or> is_nip_rs ev d \<and> dominated ?v (hget (db_watermarks db) ?a) \<or>
       (\<exists>r \<in> set (db_rows db). er_community r = c \<and> er_created_at r = ?t \<and> ev_id (er_event r) = ev_id ev)"
    have "dominated ?v (head_at ?a db)"
      using Refused(2)
    proof (elim disjE conjE bexE)
      assume "dominated ?v (hget (db_watermarks db) ?a)"
      then obtain u where "hget (db_watermarks db) ?a = Some u" "dominated ?v (Some u)"
        by (auto simp: dominated_iff)
      then show ?thesis using J dominated_trans by blast
    next
      fix r assume r: "r \<in> set (db_rows db)" "er_community r = c" "er_created_at r = ?t" "ev_id (er_event r) = ev_id ev"
      then obtain d' where "er_d_tag r = Some d'" "body (ev_id ev) = (ev_kind (er_event r), ev_pubkey (er_event r), ?t, d')"
        using J by (fastforce simp: genuine_row_def)
      then have "at ?a r" "row_version r = ?v" using body r by (auto simp: at_address_def row_version_def)
      then show ?thesis using J r(1) by metis
    qed
    then show ?thesis using Refused(1) assms(1) w by (simp add: pick_def)
  next
    fix rows
    assume Stored: "snd (replace_parameterized_event from_ts m now c ev d ch db) =
        db\<lparr>db_rows := rows @ [new_row m now c ev ch ?t (Some d)],
           db_watermarks := (if is_nip_rs ev d then hinsert ?a ?v (db_watermarks db) else db_watermarks db)\<rparr>"
      "fst (replace_parameterized_event from_ts m now c ev d ch db) = Inr (with_received_at ev now ch True, True)"
      "\<not> dominated ?v (head_at ?a db)" "is_nip_rs ev d \<longrightarrow> \<not> dominated ?v (hget (db_watermarks db) ?a)"
      "live (at ?a) rows = []" "\<And>b. b \<noteq> ?a \<Longrightarrow> live (at b) rows = live (at b) (db_rows db)"
      "\<And>r. r \<in> set rows \<Longrightarrow> \<exists>s \<in> set (db_rows db). r = s \<or> r = s\<lparr>er_deleted := True\<rparr>"
    let ?db = "write_step from_ts db w" and ?n = "new_row m now c ev ch ?t (Some d)"
    have db: "db_rows ?db = rows @ [?n]"
      "db_watermarks ?db = (if is_nip_rs ev d then hinsert ?a ?v (db_watermarks db) else db_watermarks db)"
      using Stored(1) w by simp_all
    have live: "live (at b) (db_rows ?db) = (if b = ?a then [?n] else live (at b) (db_rows db))" for b
      using Stored(5) Stored(6) [of b] db(1) by (cases b) (auto simp: live_def)
    have head: "head_at b ?db = (if b = ?a then Some ?v else head_at b db)" for b
      using live [of b] by (auto simp: head_at_def latest_single) (simp add: latest_live)
    have old: "dominated u (head_at b ?db)" if prior: "dominated u (head_at b db)" for u b
    proof (cases "b = ?a")
      case True
      then obtain h where "head_at ?a db = Some h" "\<not> newer u h" using True prior by (auto simp: dominated_iff)
      moreover have "newer ?v h" using Stored(3) calculation by (simp add: dominated_iff)
      ultimately have "\<not> newer u ?v" using newer_trans by blast
      then show ?thesis using True head by (simp add: dominated_iff)
    qed (use prior head in simp)
    have rows: "genuine_row body r \<and> (at b r \<longrightarrow> dominated (row_version r) (head_at b ?db))"
      if row: "r \<in> set (db_rows ?db)" for r b
    proof (cases "r = ?n")
      case True
      then show ?thesis using body head by (cases b) (auto simp: genuine_row_def dominated_iff)
    next
      case False
      then obtain s where s: "s \<in> set (db_rows db)" "r = s \<or> r = s\<lparr>er_deleted := True\<rparr>"
        using row False db(1) Stored(7) by auto
      have "at b s \<longrightarrow> dominated (row_version s) (head_at b ?db)" "genuine_row body s"
        using J s(1) old by blast+
      then show ?thesis using s(2) by (auto simp: genuine_row_def)
    qed
    have marks: "dominated u (head_at b ?db)" if mark: "hget (db_watermarks ?db) b = Some u" for b u
    proof (cases "b = ?a \<and> is_nip_rs ev d")
      case True
      then show ?thesis using mark head [of ?a] db(2) by (simp add: dominated_iff)
    next
      case False
      then have "hget (db_watermarks db) b = Some u" using mark db(2) by (auto split: if_splits)
      then show ?thesis using J old by blast
    qed
    have "length (live (at b) (db_rows ?db)) \<le> 1" for b
      using live [of b] J by simp
    then have "store_inv body ?db" using rows marks by (auto simp: store_inv_def)
    then show ?thesis using head [of a] Stored(3) w by (simp add: pick_def)
  qed
qed

interpretation stored_params: machine "\<lambda>db w. if genuine_write from_ts body w then write_step from_ts db w else db" "store_inv body"
  for from_ts body
  by unfold_locales (simp add: write_keeps_inv)

definition empty_db :: event_db where
  "empty_db = \<lparr>db_rows = [], db_watermarks = []\<rparr>"

definition versions_at :: "address \<Rightarrow> param_write list \<Rightarrow> (int \<times> string) list" where
  "versions_at a ws = map write_version (filter (\<lambda>w. write_address w = a) ws)"

lemma empty_db_inv: "store_inv body empty_db" "head_at a empty_db = None"
  by (simp_all add: store_inv_def empty_db_def live_def head_at_def latest_live order_rows_def)

lemma writes_pick:
  assumes "\<forall>w \<in> set ws. genuine_write from_ts body w" "store_inv body db"
  shows "store_inv body (foldl (write_step from_ts) db ws) \<and>
    head_at a (foldl (write_step from_ts) db ws) = fold pick (versions_at a ws) (head_at a db)"
  using assms
proof (induction ws arbitrary: db)
  case (Cons w ws)
  then show ?case using write_keeps_inv [of body db from_ts w] by (simp add: versions_at_def)
qed (simp add: versions_at_def)

lemma fold_pick:
  "case fold pick vs h of
     None \<Rightarrow> vs = [] \<and> h = None
   | Some u \<Rightarrow> (u \<in> set vs \<or> h = Some u) \<and> (\<forall>v \<in> set vs. \<not> newer v u) \<and> (\<forall>w. h = Some w \<longrightarrow> \<not> newer w u)"
proof (induction vs arbitrary: h)
  case (Cons v vs)
  let ?h = "pick v h"
  have "?h \<noteq> None" by (cases h) (simp_all add: pick_def dominated_def)
  then obtain k where k: "?h = Some k" by blast
  have above: "\<not> newer v k \<and> (\<forall>w. h = Some w \<longrightarrow> \<not> newer w k)" "k = v \<or> h = Some k"
    using k by (auto simp: pick_def dominated_iff dest: newer_asym split: if_splits)
  obtain u where u: "fold pick (v # vs) h = Some u" "u \<in> set vs \<or> u = k" "\<forall>v \<in> set vs. \<not> newer v u" "\<not> newer k u"
    using Cons.IH [of ?h] k by (auto split: option.splits)
  then show ?case using above not_newer_trans [OF _ u(4)] by auto
qed (auto split: option.splits)

text \<open>
  C4: Replaceable events converge. After any sequence of writes, to any addresses and in any order, an
  address has at most one live row, and it is the newest of the versions that were written there:
  the latest second, and of the same second the smallest id.
\<close>

theorem newest_write_wins:
  assumes "\<forall>w \<in> set ws. genuine_write from_ts body w"
  shows "length (live (at a) (db_rows (foldl (write_step from_ts) empty_db ws))) \<le> 1 \<and>
    (case head_at a (foldl (write_step from_ts) empty_db ws) of
       None \<Rightarrow> versions_at a ws = []
     | Some h \<Rightarrow> h \<in> set (versions_at a ws) \<and> (\<forall>v \<in> set (versions_at a ws). v = h \<or> newer h v))"
proof -
  let ?db = "foldl (write_step from_ts) empty_db ws"
  have J: "store_inv body ?db" and head: "head_at a ?db = fold pick (versions_at a ws) None"
    using writes_pick [OF assms empty_db_inv(1)] empty_db_inv(2) by simp_all
  have "length (live (at a) (db_rows ?db)) \<le> 1" using J unfolding store_inv_def by blast
  then show ?thesis using fold_pick [of "versions_at a ws" None] newer_total unfolding head
    by (auto split: option.splits) metis+
qed

corollary write_order_does_not_matter:
  assumes "\<forall>w \<in> set ws. genuine_write from_ts body w" "mset ws' = mset ws"
  shows "head_at a (foldl (write_step from_ts) empty_db ws') = head_at a (foldl (write_step from_ts) empty_db ws)"
proof -
  have gen: "\<forall>w \<in> set ws'. genuine_write from_ts body w" using assms mset_eq_setD by metis
  have "set (versions_at a ws') = set (versions_at a ws)"
    using assms(2) by (auto simp: versions_at_def dest: mset_eq_setD)
  then show ?thesis
    using fold_pick [of "versions_at a ws" None] fold_pick [of "versions_at a ws'" None] newer_total
      writes_pick [OF assms(1) empty_db_inv(1), of a] writes_pick [OF gen empty_db_inv(1), of a] empty_db_inv(2)
    by (auto split: option.splits) (metis set_empty)+
qed

section \<open>Read state\<close>

text \<open>
  The writes of the store: the three ways to store an event, and the deletion by coordinate and by id
  (\<open>soft_delete_event_and_update_thread\<close> deletes by id as well).
\<close>

datatype store_op =
    Put param_write
  | PutPlain bool instant uuid nostr_event "uuid option"
  | PutSlot bool instant uuid nostr_event "uuid option"
  | RemoveAt uuid nat string string int
  | RemoveEvent uuid string

fun store_step :: "(int \<Rightarrow> int option) \<Rightarrow> event_db \<Rightarrow> store_op \<Rightarrow> event_db" where
  "store_step from_ts db (Put w) = write_step from_ts db w"
| "store_step from_ts db (PutPlain m now c ev ch) = snd (insert_event from_ts m now c ev ch db)"
| "store_step from_ts db (PutSlot m now c ev ch) = snd (replace_addressable_event from_ts m now c ev ch db)"
| "store_step from_ts db (RemoveAt c k p d secs) = snd (soft_delete_by_coordinate from_ts c k p d secs db)"
| "store_step from_ts db (RemoveEvent c i) = snd (soft_delete_event c i db)"

definition inserted :: "store_error + stored_event \<times> bool \<Rightarrow> bool" where
  "inserted res = (case res of Inr (_, True) \<Rightarrow> True | _ \<Rightarrow> False)"

fun write_result :: "(int \<Rightarrow> int option) \<Rightarrow> event_db \<Rightarrow> param_write \<Rightarrow> store_error + stored_event \<times> bool" where
  "write_result from_ts db (ParamWrite c ev d ch m now) = fst (replace_parameterized_event from_ts m now c ev d ch db)"

fun read_state_write :: "param_write \<Rightarrow> bool" where
  "read_state_write (ParamWrite c ev d ch m now) = is_nip_rs ev d"

definition ts_ok :: "(int \<Rightarrow> int option) \<Rightarrow> bool" where
  "ts_ok from_ts \<longleftrightarrow> (\<forall>s t. from_ts s = Some t \<longrightarrow> t = s)"

lemma write_mark:
  assumes "ts_ok from_ts" "read_state_write w"
  shows "if inserted (write_result from_ts db w)
    then hget (db_watermarks (write_step from_ts db w)) (write_address w) = Some (write_version w) \<and>
         \<not> dominated (write_version w) (hget (db_watermarks db) (write_address w))
    else db_watermarks (write_step from_ts db w) = db_watermarks db"
proof -
  obtain c ev d ch m now where w: "w = ParamWrite c ev d ch m now" by (cases w)
  show ?thesis using assms
    by (auto simp: w replace_parameterized_event_def Let_def inserted_def ts_ok_def split: option.splits if_splits)
qed

lemma mark_grows:
  assumes "ts_ok from_ts" "dominated v (hget (db_watermarks db) a)"
  shows "dominated v (hget (db_watermarks (store_step from_ts db op)) a)"
proof (cases op)
  case (Put w)
  obtain c ev d ch m now where w: "w = ParamWrite c ev d ch m now" by (cases w)
  obtain u where u: "hget (db_watermarks db) a = Some u" "\<not> newer v u" using assms(2) by (auto simp: dominated_iff)
  show ?thesis
  proof (cases "read_state_write w \<and> inserted (write_result from_ts db w) \<and> a = write_address w")
    case True
    then have "\<not> dominated (write_version w) (Some u)"
      "hget (db_watermarks (write_step from_ts db w)) a = Some (write_version w)"
      using write_mark [OF assms(1), of w db] u(1) by auto
    then have "newer (write_version w) u" by (simp add: dominated_iff)
    then have "\<not> newer v (write_version w)" using u(2) newer_trans by blast
    then show ?thesis using Put \<open>hget _ a = Some (write_version w)\<close> by (simp add: dominated_iff)
  next
    case False
    then have "hget (db_watermarks (write_step from_ts db w)) a = hget (db_watermarks db) a"
      using w by (auto simp: replace_parameterized_event_def Let_def inserted_def split: option.splits if_splits)
    then show ?thesis using Put assms(2) by simp
  qed
qed (use assms(2) in \<open>auto simp: soft_delete_by_coordinate_def soft_delete_event_def insert_event_def
    replace_addressable_event_def Let_def split: option.splits\<close>)

lemma marks_grow:
  "ts_ok from_ts \<Longrightarrow> dominated v (hget (db_watermarks db) a) \<Longrightarrow>
   dominated v (hget (db_watermarks (foldl (store_step from_ts) db ops)) a)"
  by (induction ops arbitrary: db) (simp_all add: mark_grows)

text \<open>
  C19: Read state never rolls back. Once a read-state event was stored, another one at the same address is
  stored only when it is newer, whatever the store did in between: other events written, the address or the
  event itself deleted, its payload gone. A replay of the same event is not newer, so it is refused. The
  watermark binds events of the read-state shape; an event of the kind without that shape is ordered
  against the live row alone.
\<close>

theorem read_state_never_rolls_back:
  assumes "ts_ok from_ts" "read_state_write w" "read_state_write w'" "write_address w' = write_address w"
    "inserted (write_result from_ts db w)"
    "inserted (write_result from_ts (foldl (store_step from_ts) (write_step from_ts db w) ops) w')"
  shows "newer (write_version w') (write_version w)"
proof -
  have "dominated (write_version w) (hget (db_watermarks (write_step from_ts db w)) (write_address w))"
    using write_mark [OF assms(1,2), of db] assms(5) by (simp add: dominated_iff)
  then obtain u where u: "hget (db_watermarks (foldl (store_step from_ts) (write_step from_ts db w) ops)) (write_address w) = Some u"
    "\<not> newer (write_version w) u"
    using marks_grow [OF assms(1)] by (fastforce simp: dominated_iff)
  moreover have "newer (write_version w') u"
    using write_mark [OF assms(1,3), of "foldl (store_step from_ts) (write_step from_ts db w) ops"] assms(4,6) u(1)
    by (simp add: dominated_iff)
  ultimately show ?thesis using newer_total newer_trans by metis
qed

section \<open>What a stored row carries\<close>

text \<open>The columns of a row repeat its event.\<close>

definition row_columns :: "event_row \<Rightarrow> bool" where
  "row_columns r \<longleftrightarrow>
     (let ev = er_event r in
      er_created_at r = int (ev_created_at ev) \<and> ev_created_at ev < 2 ^ 63 \<and> er_d_tag r = extract_d_tag ev \<and>
      length (ev_id ev) = 64)"

text \<open>The writes of the ingest pipeline: genuine ids, times the database can hold, the \<open>d\<close> tag of the event.\<close>

fun plain_write :: "store_op \<Rightarrow> bool" where
  "plain_write (Put (ParamWrite c ev d ch m now)) \<longleftrightarrow>
     ev_created_at ev < 2 ^ 63 \<and> length (ev_id ev) = 64 \<and> extract_d_tag ev = Some d"
| "plain_write (PutPlain m now c ev ch) \<longleftrightarrow> ev_created_at ev < 2 ^ 63 \<and> length (ev_id ev) = 64"
| "plain_write (PutSlot m now c ev ch) \<longleftrightarrow> ev_created_at ev < 2 ^ 63 \<and> length (ev_id ev) = 64"
| "plain_write _ \<longleftrightarrow> True"

lemma row_columns_deleted [simp]: "row_columns (r\<lparr>er_deleted := b\<rparr>) = row_columns r"
  by (simp add: row_columns_def)

lemma insert_columns:
  assumes "insert_event_row m now c ev ch t d rows = Some rows'" "\<forall>r \<in> set rows. row_columns r"
    "t = as_i64 (ev_created_at ev)" "ev_created_at ev < 2 ^ 63" "length (ev_id ev) = 64" "extract_d_tag ev = d"
    "r \<in> set rows'"
  shows "row_columns r"
  using assms by (auto simp: insert_event_row_def new_row_def row_columns_def with_received_at_def as_i64_def split: if_splits)

text \<open>After a write a row is an old one, possibly deleted, or stands in a table the event was inserted in.\<close>

lemma store_step_rows:
  assumes "ts_ok from_ts" "r \<in> set (db_rows (store_step from_ts db op))" "plain_write op"
  shows "(\<exists>r' \<in> set (db_rows db). row_columns r' \<longrightarrow> row_columns r) \<or>
    (\<exists>m now c ev ch d rows rows'. insert_event_row m now c ev ch (as_i64 (ev_created_at ev)) d rows = Some rows' \<and>
       r \<in> set rows' \<and> ev_created_at ev < 2 ^ 63 \<and> length (ev_id ev) = 64 \<and> extract_d_tag ev = d \<and>
       (\<forall>x \<in> set rows. \<exists>r' \<in> set (db_rows db). row_columns r' \<longrightarrow> row_columns x))"
proof -
  have kept: "\<exists>r' \<in> set rows. row_columns r' \<longrightarrow> row_columns x" if "x \<in> set (soft_delete P rows)" for x P rows
    using that by (auto simp: soft_delete_def)
  have retired: "\<exists>r' \<in> set rows. row_columns r' \<longrightarrow> row_columns x" if "x \<in> set (retire hard P rows)" for x P rows hard
    using that kept by (auto simp: retire_def split: if_splits)
  have ts: "from_ts a = Some t \<Longrightarrow> t = a" for a t using assms(1) by (simp add: ts_ok_def)
  show ?thesis
  proof (cases op)
    case (Put w)
    obtain c ev d ch m now where w: "w = ParamWrite c ev d ch m now" by (cases w)
    let ?old = "if latest (at_address c (ev_kind ev) (ev_pubkey ev) d) (db_rows db) \<noteq> None
      then retire (is_nip_rs ev d \<or> is_buzz_mesh_status ev d) (at_address c (ev_kind ev) (ev_pubkey ev) d) (db_rows db)
      else db_rows db"
    have "r \<in> set (db_rows db) \<or> (\<exists>rows'. insert_event_row m now c ev ch (as_i64 (ev_created_at ev)) (Some d) ?old = Some rows' \<and> r \<in> set rows')"
      using assms(2) unfolding Put w
      by (auto simp: replace_parameterized_event_def Let_def split: option.splits if_splits dest: ts)
    moreover have "\<forall>x \<in> set ?old. \<exists>r' \<in> set (db_rows db). row_columns r' \<longrightarrow> row_columns x" using retired by auto
    ultimately show ?thesis using assms(3) unfolding Put w by (metis plain_write.simps(1))
  next
    case (PutPlain m now c ev ch)
    have "r \<in> set (db_rows db) \<or>
      (\<exists>rows'. insert_event_row m now c ev ch (as_i64 (ev_created_at ev)) (extract_d_tag ev) (db_rows db) = Some rows' \<and> r \<in> set rows')"
      using assms(2) unfolding PutPlain by (auto simp: insert_event_def Let_def split: option.splits if_splits dest: ts)
    then show ?thesis using assms(3) unfolding PutPlain by (metis plain_write.simps(2))
  next
    case (PutSlot m now c ev ch)
    let ?old = "soft_delete (at_slot c (ev_kind ev) (ev_pubkey ev) ch) (db_rows db)"
    have "r \<in> set (db_rows db) \<or>
      (\<exists>rows'. insert_event_row m now c ev ch (as_i64 (ev_created_at ev)) (extract_d_tag ev) ?old = Some rows' \<and> r \<in> set rows')"
      using assms(2) unfolding PutSlot
      by (auto simp: replace_addressable_event_def Let_def split: option.splits if_splits dest: ts)
    moreover have "\<forall>x \<in> set ?old. \<exists>r' \<in> set (db_rows db). row_columns r' \<longrightarrow> row_columns x" using kept by blast
    ultimately show ?thesis using assms(3) unfolding PutSlot by (metis plain_write.simps(3))
  next
    case (RemoveAt c k p d secs)
    then show ?thesis using assms(2) kept
      by (auto simp: soft_delete_by_coordinate_def Let_def split: option.splits)
  next
    case (RemoveEvent c i)
    then show ?thesis using assms(2) kept by (auto simp: soft_delete_event_def Let_def)
  qed
qed

lemma store_step_columns:
  assumes "ts_ok from_ts" "plain_write op" "\<forall>r \<in> set (db_rows db). row_columns r" "r \<in> set (db_rows (store_step from_ts db op))"
  shows "row_columns r"
  using store_step_rows [OF assms(1,4,2)]
proof
  assume new: "\<exists>m now c ev ch d rows rows'. insert_event_row m now c ev ch (as_i64 (ev_created_at ev)) d rows = Some rows' \<and>
       r \<in> set rows' \<and> ev_created_at ev < 2 ^ 63 \<and> length (ev_id ev) = 64 \<and> extract_d_tag ev = d \<and>
       (\<forall>x \<in> set rows. \<exists>r' \<in> set (db_rows db). row_columns r' \<longrightarrow> row_columns x)"
  show ?thesis
    using new
  proof (elim exE conjE)
    fix m now c ev ch d rows rows'
    assume ins: "insert_event_row m now c ev ch (as_i64 (ev_created_at ev)) d rows = Some rows'"
      and r: "r \<in> set rows'" "ev_created_at ev < 2 ^ 63" "length (ev_id ev) = 64" "extract_d_tag ev = d"
      and old: "\<forall>x \<in> set rows. \<exists>r' \<in> set (db_rows db). row_columns r' \<longrightarrow> row_columns x"
    have "\<forall>x \<in> set rows. row_columns x" using old assms(3) by blast
    then show "row_columns r" using insert_columns [OF ins _ refl r(2-4,1)] by blast
  qed
qed (use assms(3) in blast)

lemma stored_columns:
  "ts_ok from_ts \<Longrightarrow> \<forall>op \<in> set ops. plain_write op \<Longrightarrow> \<forall>r \<in> set (db_rows db). row_columns r \<Longrightarrow>
   \<forall>r \<in> set (db_rows (foldl (store_step from_ts) db ops)). row_columns r"
proof (induction ops arbitrary: db)
  case (Cons op ops)
  have "\<forall>r \<in> set (db_rows (store_step from_ts db op)). row_columns r"
    using store_step_columns [OF Cons.prems(1) _ Cons.prems(3), of op] Cons.prems(2) by simp
  from Cons.IH [OF Cons.prems(1) _ this] Cons.prems(2) show ?case unfolding foldl_Cons by simp
qed simp

section \<open>The theorems on two read-state writes\<close>

definition demo_slot :: string where
  "demo_slot = ''read-state:'' @ replicate 32 (CHR ''0'')"

definition demo_state :: "char \<Rightarrow> nat \<Rightarrow> nostr_event" where
  "demo_state i t =
     \<lparr>ev_id = [i], ev_pubkey = ''aa'', ev_created_at = t, ev_kind = KIND_READ_STATE,
      ev_tags = [[''d'', demo_slot], [''t'', ''read-state'']], ev_content = []\<rparr>"

definition demo_write :: "char \<Rightarrow> nat \<Rightarrow> param_write" where
  "demo_write i t = ParamWrite ''com'' (demo_state i t) demo_slot None True 0"

definition demo_body :: "string \<Rightarrow> nat \<times> string \<times> int \<times> string" where
  "demo_body i = (KIND_READ_STATE, ''aa'', (if i = ''a'' then 5 else 6), demo_slot)"

lemma newest_write_wins_witness:
  "length (live (at (write_address (demo_write (CHR ''a'') 5)))
     (db_rows (foldl (write_step Some) empty_db [demo_write (CHR ''b'') 6, demo_write (CHR ''a'') 5]))) \<le> 1"
proof -
  have "\<forall>w \<in> set [demo_write (CHR ''b'') 6, demo_write (CHR ''a'') 5]. genuine_write Some demo_body w"
    by (simp add: demo_write_def demo_state_def demo_body_def as_i64_def)
  then show ?thesis by (rule newest_write_wins [THEN conjunct1])
qed

lemma demo_slot_parts: "strip_prefix ''read-state:'' demo_slot = Some (replicate 32 (CHR ''0''))"
  by (simp add: demo_slot_def strip_prefix_def starts_with_def)

lemma demo_state_is_read_state: "is_nip_rs (demo_state i t) demo_slot"
  by (simp add: demo_state_def is_nip_rs_def demo_slot_parts list_all_iff ascii_defs)

lemma demo_state_fields [simp]:
  "ev_id (demo_state i t) = [i]" "ev_pubkey (demo_state i t) = ''aa''" "ev_created_at (demo_state i t) = t"
  "ev_kind (demo_state i t) = KIND_READ_STATE"
  by (simp_all add: demo_state_def)

lemma first_read_state:
  "replace_parameterized_event Some True 0 ''com'' (demo_state i t) demo_slot None empty_db =
     (Inr (with_received_at (demo_state i t) 0 None True, True),
      \<lparr>db_rows = [new_row True 0 ''com'' (demo_state i t) None (as_i64 t) (Some demo_slot)],
       db_watermarks = [((''com'', KIND_READ_STATE, ''aa'', demo_slot), (as_i64 t, [i]))]\<rparr>)"
  by (simp add: replace_parameterized_event_def demo_state_is_read_state empty_db_def Let_def latest_def order_rows_def
      dominated_def insert_event_row_def)

lemma read_state_never_rolls_back_witness:
  "newer (write_version (demo_write (CHR ''b'') 6)) (write_version (demo_write (CHR ''a'') 5))"
proof (rule read_state_never_rolls_back [where from_ts = Some and db = empty_db and ops = "[RemoveEvent ''com'' ''a'']"])
  show "inserted (write_result Some empty_db (demo_write (CHR ''a'') 5))"
    by (simp add: demo_write_def first_read_state inserted_def)
  show "inserted (write_result Some (foldl (store_step Some) (write_step Some empty_db (demo_write (CHR ''a'') 5)) [RemoveEvent ''com'' ''a''])
      (demo_write (CHR ''b'') 6))"
    by (simp add: demo_write_def first_read_state inserted_def) 
       (simp add: replace_parameterized_event_def demo_state_is_read_state Let_def latest_def order_rows_def dominated_def
        insert_event_row_def inserted_def as_i64_def at_address_def row_version_def retire_def
        soft_delete_event_def soft_delete_def)
qed (simp_all add: demo_write_def demo_state_is_read_state ts_ok_def)

end
