(* ===== verification/Connections.thy ===== *)
theory Connections
  imports Subscriptions "HOL-Library.Word"
begin

text \<open>
  Live connections, from \<open>crates/buzz-relay/src/state.rs\<close> and \<open>ConnectionState::send\<close> of
  \<open>connection.rs\<close>.

  \<^item> \<open>outbox\<close> is the bounded channel to one client with the consecutive-full counter and the
    cancellation token that \<open>ConnectionState\<close> and \<open>ConnEntry\<close> share. What \<open>tokio\<close>'s \<open>try_send\<close> answers to
    the \<open>n\<close>-th message is the function \<open>ob_takes\<close>.
  \<^item> \<open>conn_manager\<close> is \<open>ConnectionManager\<close>; \<open>drain_step\<close> interleaves its \<open>register\<close> and \<open>drain_connections\<close>.
  \<^item> \<open>lifecycles\<close> is \<open>CommunityConnectionRegistry\<close>; \<open>admit_step\<close> interleaves
    \<open>run_registered_community_connection\<close> of many sockets with the archival of communities.
\<close>

section \<open>Sending to a client\<close>

datatype send_outcome = SendOk | SendFull | SendClosed

record 'm outbox =
  ob_sent :: "'m list"
  ob_tries :: nat
  ob_takes :: "nat \<Rightarrow> send_outcome"
  ob_count :: "8 word"
  ob_grace :: "8 word"
  ob_cancelled :: bool

definition client_send :: "'m \<Rightarrow> 'm outbox \<Rightarrow> bool \<times> 'm outbox" where
  "client_send m ob =
     (let ob' = ob\<lparr>ob_tries := ob_tries ob + 1\<rparr> in
      case ob_takes ob (ob_tries ob) of
        SendOk \<Rightarrow> (True, ob'\<lparr>ob_sent := ob_sent ob @ [m], ob_count := 0\<rparr>)
      | SendFull \<Rightarrow>
          (let count = ob_count ob + 1
           in (False, ob'\<lparr>ob_count := count, ob_cancelled := (ob_cancelled ob \<or> count \<ge> ob_grace ob)\<rparr>))
      | SendClosed \<Rightarrow> (False, ob'))"

text \<open>A control frame: the same channel operation, without the counter.\<close>

definition offer :: "'m \<Rightarrow> 'm outbox \<Rightarrow> 'm outbox" where
  "offer m ob =
     (let ob' = ob\<lparr>ob_tries := ob_tries ob + 1\<rparr>
      in if ob_takes ob (ob_tries ob) = SendOk then ob'\<lparr>ob_sent := ob_sent ob @ [m]\<rparr> else ob')"

definition send_each :: "'m list \<Rightarrow> 'm outbox \<Rightarrow> 'm outbox" where
  "send_each ms ob = fold (\<lambda>m b. snd (client_send m b)) ms ob"

section \<open>The connection manager\<close>

datatype ctrl_frame = OkFrame string bool string | RestartClose

record 'm conn_entry =
  ce_out :: "'m outbox"
  ce_ctrl :: "ctrl_frame outbox"
  ce_community :: uuid
  ce_pubkey :: "string option"

record 'm conn_manager =
  cm_connections :: "(conn_id, 'm conn_entry) hmap"
  cm_draining :: bool

definition conn_manager_new :: "'m conn_manager" where
  "conn_manager_new = \<lparr>cm_connections = [], cm_draining = False\<rparr>"

abbreviation hmodify :: "('v \<Rightarrow> 'v) \<Rightarrow> 'k \<Rightarrow> ('k, 'v) hmap \<Rightarrow> ('k, 'v) hmap" where
  "hmodify g k m \<equiv> (case hget m k of None \<Rightarrow> m | Some v \<Rightarrow> hinsert k (g v) m)"

definition cancel_entry :: "'m conn_entry \<Rightarrow> 'm conn_entry" where
  "cancel_entry e = e\<lparr>ce_out := (ce_out e)\<lparr>ob_cancelled := True\<rparr>\<rparr>"

text \<open>Queue a control frame, then cancel.\<close>

definition signal_close :: "ctrl_frame \<Rightarrow> 'm conn_entry \<Rightarrow> 'm conn_entry" where
  "signal_close frame e = cancel_entry (e\<lparr>ce_ctrl := offer frame (ce_ctrl e)\<rparr>)"

definition insert_conn :: "conn_id \<Rightarrow> 'm outbox \<Rightarrow> ctrl_frame outbox \<Rightarrow> uuid \<Rightarrow> 'm conn_manager \<Rightarrow> 'm conn_manager" where
  "insert_conn k out ctrl community mgr =
     mgr\<lparr>cm_connections := hinsert k \<lparr>ce_out = out, ce_ctrl = ctrl, ce_community = community, ce_pubkey = None\<rparr>
        (cm_connections mgr)\<rparr>"

definition signal_conn :: "ctrl_frame \<Rightarrow> conn_id \<Rightarrow> 'm conn_manager \<Rightarrow> 'm conn_manager" where
  "signal_conn frame k mgr = mgr\<lparr>cm_connections := hmodify (signal_close frame) k (cm_connections mgr)\<rparr>"

definition check_drain :: "conn_id \<Rightarrow> 'm conn_manager \<Rightarrow> 'm conn_manager" where
  "check_drain k mgr = (if cm_draining mgr then signal_conn RestartClose k mgr else mgr)"

definition register_conn :: "conn_id \<Rightarrow> 'm outbox \<Rightarrow> ctrl_frame outbox \<Rightarrow> uuid \<Rightarrow> 'm conn_manager \<Rightarrow> 'm conn_manager" where
  "register_conn k out ctrl community mgr = check_drain k (insert_conn k out ctrl community mgr)"

definition deregister :: "conn_id \<Rightarrow> 'm conn_manager \<Rightarrow> 'm conn_manager" where
  "deregister k mgr = mgr\<lparr>cm_connections := hremove k (cm_connections mgr)\<rparr>"

definition set_authenticated_pubkey :: "conn_id \<Rightarrow> string \<Rightarrow> 'm conn_manager \<Rightarrow> 'm conn_manager" where
  "set_authenticated_pubkey k pk mgr =
     mgr\<lparr>cm_connections := hmodify (\<lambda>e. e\<lparr>ce_pubkey := Some pk\<rparr>) k (cm_connections mgr)\<rparr>"

definition connection_ids_for_pubkey_in_community :: "uuid \<Rightarrow> string \<Rightarrow> 'm conn_manager \<Rightarrow> conn_id list" where
  "connection_ids_for_pubkey_in_community c pk mgr =
     map fst (filter (\<lambda>(k, e). ce_community e = c \<and> ce_pubkey e = Some pk) (cm_connections mgr))"

definition pubkey_for_conn :: "conn_id \<Rightarrow> 'm conn_manager \<Rightarrow> string option" where
  "pubkey_for_conn k mgr = Option.bind (hget (cm_connections mgr) k) ce_pubkey"

definition community_for_conn :: "conn_id \<Rightarrow> 'm conn_manager \<Rightarrow> uuid option" where
  "community_for_conn k mgr = map_option ce_community (hget (cm_connections mgr) k)"

fun disconnect_ids :: "uuid \<Rightarrow> ctrl_frame \<Rightarrow> conn_id list \<Rightarrow> 'm conn_manager \<Rightarrow> nat \<times> 'm conn_manager" where
  "disconnect_ids c frame [] mgr = (0, mgr)"
| "disconnect_ids c frame (k # ks) mgr =
     (case hget (cm_connections mgr) k of
        None \<Rightarrow> disconnect_ids c frame ks mgr
      | Some e \<Rightarrow>
          if ce_community e \<noteq> c then disconnect_ids c frame ks mgr
          else (case disconnect_ids c frame ks (signal_conn frame k mgr) of (n, mgr') \<Rightarrow> (n + 1, mgr')))"

definition disconnect_pubkey :: "uuid \<Rightarrow> string \<Rightarrow> string \<Rightarrow> string \<Rightarrow> 'm conn_manager \<Rightarrow> nat \<times> 'm conn_manager" where
  "disconnect_pubkey c pk event_id reason mgr =
     disconnect_ids c (OkFrame event_id False reason) (connection_ids_for_pubkey_in_community c pk mgr) mgr"

definition drain_connections :: "'m conn_manager \<Rightarrow> nat \<times> 'm conn_manager" where
  "drain_connections mgr =
     (length (cm_connections mgr),
      fold (signal_conn RestartClose) (keys (cm_connections mgr)) (mgr\<lparr>cm_draining := True\<rparr>))"

definition per_community_ws_connections :: "'m conn_manager \<Rightarrow> (uuid, nat) hmap" where
  "per_community_ws_connections mgr =
     fold (\<lambda>(k, e) counts. hinsert (ce_community e)
         (case hget counts (ce_community e) of None \<Rightarrow> 1 | Some n \<Rightarrow> n + 1) counts) (cm_connections mgr) []"

definition per_community_users_online :: "'m conn_manager \<Rightarrow> (uuid, nat) hmap" where
  "per_community_users_online mgr =
     map (\<lambda>(c, pks). (c, length pks))
       (fold (\<lambda>(k, e) seen. case ce_pubkey e of
            None \<Rightarrow> seen
          | Some pk \<Rightarrow> hinsert (ce_community e) (List.insert pk (or_empty (hget seen (ce_community e)))) seen)
         (cm_connections mgr) [])"

definition send_to :: "conn_id \<Rightarrow> 'm \<Rightarrow> 'm conn_manager \<Rightarrow> bool \<times> 'm conn_manager" where
  "send_to k m mgr =
     (case hget (cm_connections mgr) k of
        None \<Rightarrow> (False, mgr)
      | Some e \<Rightarrow>
          (case client_send m (ce_out e) of
             (ok, out) \<Rightarrow> (ok, mgr\<lparr>cm_connections := hinsert k (e\<lparr>ce_out := out\<rparr>) (cm_connections mgr)\<rparr>)))"

section \<open>Community lifecycles\<close>

type_synonym lifecycles = "(conn_id, uuid \<times> bool) hmap"

definition lc_register :: "conn_id \<Rightarrow> uuid \<Rightarrow> lifecycles \<Rightarrow> lifecycles" where
  "lc_register k c reg = hinsert k (c, False) reg"

definition lc_drop :: "conn_id \<Rightarrow> lifecycles \<Rightarrow> lifecycles" where
  "lc_drop k reg = hremove k reg"

definition disconnect_community :: "uuid \<Rightarrow> lifecycles \<Rightarrow> nat \<times> lifecycles" where
  "disconnect_community c reg =
     (length (filter (\<lambda>(k, c', x). c' = c) reg), map (\<lambda>(k, c', x). (k, c', x \<or> c' = c)) reg)"

definition bound_communities :: "lifecycles \<Rightarrow> uuid list" where
  "bound_communities reg = remdups (map (\<lambda>(k, c, x). c) reg)"

fun revalidate_loop ::
  "(uuid \<Rightarrow> 'e + bool) \<Rightarrow> uuid list \<Rightarrow> nat \<Rightarrow> (uuid \<times> 'e) list \<Rightarrow> lifecycles \<Rightarrow> nat \<times> (uuid \<times> 'e) list \<times> lifecycles" where
  "revalidate_loop check [] closed failures reg = (closed, failures, reg)"
| "revalidate_loop check (c # cs) closed failures reg =
     (case check c of
        Inr False \<Rightarrow> (case disconnect_community c reg of (n, reg') \<Rightarrow> revalidate_loop check cs (closed + n) failures reg')
      | Inr True \<Rightarrow> revalidate_loop check cs closed failures reg
      | Inl e \<Rightarrow> revalidate_loop check cs closed (failures @ [(c, e)]) reg)"

definition revalidate_registered_communities ::
  "(uuid \<Rightarrow> 'e + bool) \<Rightarrow> lifecycles \<Rightarrow> nat \<times> (uuid \<times> 'e) list \<times> lifecycles" where
  "revalidate_registered_communities check reg = revalidate_loop check (bound_communities reg) 0 [] reg"

section \<open>Slow clients\<close>

lemma send_each_full:
  assumes "\<forall>i < length ms. ob_takes ob (ob_tries ob + i) = SendFull" "length ms < 256 - unat (ob_count ob)"
  shows "unat (ob_count (send_each ms ob)) = unat (ob_count ob) + length ms \<and>
    ob_sent (send_each ms ob) = ob_sent ob \<and>
    (ob_cancelled (send_each ms ob) \<longleftrightarrow>
       ob_cancelled ob \<or> (ms \<noteq> [] \<and> unat (ob_grace ob) \<le> unat (ob_count ob) + length ms))"
  using assms
proof (induction ms arbitrary: ob)
  case (Cons m ms)
  define b where "b = snd (client_send m ob)"
  have full: "ob_takes ob (ob_tries ob) = SendFull" using Cons.prems(1) by auto
  have one: "unat (ob_count ob + 1) = unat (ob_count ob) + 1"
    using Cons.prems(2) by (simp add: unat_word_ariths)
  have b: "ob_takes b = ob_takes ob" "ob_tries b = ob_tries ob + 1" "ob_count b = ob_count ob + 1" "ob_grace b = ob_grace ob"
    "ob_sent b = ob_sent ob" "ob_cancelled b \<longleftrightarrow> ob_cancelled ob \<or> unat (ob_grace ob) \<le> unat (ob_count ob) + 1"
    using full one by (auto simp: b_def client_send_def Let_def word_le_nat_alt)
  have "\<forall>i < length ms. ob_takes b (ob_tries b + i) = SendFull" using Cons.prems(1) b(1,2) by auto
  then have "unat (ob_count (send_each ms b)) = unat (ob_count b) + length ms \<and> ob_sent (send_each ms b) = ob_sent b \<and>
      (ob_cancelled (send_each ms b) \<longleftrightarrow>
       ob_cancelled b \<or> (ms \<noteq> [] \<and> unat (ob_grace b) \<le> unat (ob_count b) + length ms))"
    using Cons.IH [of b] Cons.prems(2) b(3) one by simp
  moreover have "send_each (m # ms) ob = send_each ms b" by (simp add: send_each_def b_def)
  ultimately show ?case using b one by auto
qed (simp add: send_each_def)

text \<open>
  C33: Back-pressure cuts off exactly the slow clients: when the buffer stays full, a connection whose last
  message got through is cancelled by the \<open>grace\<close>-th message in a row and by none before it. That is one
  message earlier than the comments of \<open>state.rs\<close> (``>grace_limit consecutive full buffers'') and of
  \<open>connection.rs\<close> (the first \<open>grace_limit\<close> occurrences only warn) say; the test of \<open>state.rs\<close> agrees with
  the code.
\<close>

theorem slow_client_is_cut_off:
  assumes "ob_count ob = 0" "\<not> ob_cancelled ob" "ms \<noteq> []" "length ms < 256"
    "\<forall>i < length ms. ob_takes ob (ob_tries ob + i) = SendFull"
  shows "ob_cancelled (send_each ms ob) \<longleftrightarrow> unat (ob_grace ob) \<le> length ms"
  using send_each_full [of ms ob] assms by simp

lemma slow_client_is_cut_off_witness:
  "ob_cancelled (send_each [1, 2, 3] \<lparr>ob_sent = [], ob_tries = 0, ob_takes = \<lambda>_. SendFull, ob_count = 0, ob_grace = 3, ob_cancelled = False\<rparr>)
   \<and> \<not> ob_cancelled (send_each [1::nat, 2] \<lparr>ob_sent = [], ob_tries = 0, ob_takes = \<lambda>_. SendFull, ob_count = 0, ob_grace = 3, ob_cancelled = False\<rparr>)"
  by (subst (1 2) slow_client_is_cut_off) simp_all

section \<open>Draining\<close>

lemma hget_hmodify: "hget (hmodify g k m) k' = (if k' = k then map_option g (hget m k) else hget m k')"
  by (cases "hget m k") (auto simp: hget_insert)

definition closed_conn :: "'m conn_manager \<Rightarrow> conn_id \<Rightarrow> bool" where
  "closed_conn mgr k \<longleftrightarrow> (\<forall>e. hget (cm_connections mgr) k = Some e \<longrightarrow> ob_cancelled (ce_out e))"

record 'm drain_state =
  dr_mgr :: "'m conn_manager"
  dr_checks :: "conn_id set"
  dr_visits :: "conn_id set"

text \<open>
  \<open>register\<close> inserts and then reads the flag, \<open>drain_connections\<close> stores the flag and then visits the entries:
  every entry present when the iteration starts is visited, unless it is removed. Each step is atomic.
\<close>

inductive drain_step :: "'m drain_state \<Rightarrow> 'm drain_state \<Rightarrow> bool" where
  Insert: "k \<notin> fst ` set (cm_connections (dr_mgr s)) \<Longrightarrow>
    drain_step s (s\<lparr>dr_mgr := insert_conn k out ctrl c (dr_mgr s), dr_checks := insert k (dr_checks s)\<rparr>)"
| Check: "k \<in> dr_checks s \<Longrightarrow>
    drain_step s (s\<lparr>dr_mgr := check_drain k (dr_mgr s), dr_checks := dr_checks s - {k}\<rparr>)"
| StoreFlag: "\<not> cm_draining (dr_mgr s) \<Longrightarrow>
    drain_step s (s\<lparr>dr_mgr := (dr_mgr s)\<lparr>cm_draining := True\<rparr>, dr_visits := fst ` set (cm_connections (dr_mgr s))\<rparr>)"
| Visit: "k \<in> dr_visits s \<Longrightarrow>
    drain_step s (s\<lparr>dr_mgr := signal_conn RestartClose k (dr_mgr s), dr_visits := dr_visits s - {k}\<rparr>)"
| Leave: "drain_step s (s\<lparr>dr_mgr := deregister k (dr_mgr s)\<rparr>)"
| Authenticate: "drain_step s (s\<lparr>dr_mgr := set_authenticated_pubkey k pk (dr_mgr s)\<rparr>)"
| Send: "drain_step s (s\<lparr>dr_mgr := snd (send_to k m (dr_mgr s))\<rparr>)"

definition drain_start :: "'m drain_state \<Rightarrow> bool" where
  "drain_start s \<longleftrightarrow> dr_mgr s = conn_manager_new \<and> dr_checks s = {} \<and> dr_visits s = {}"

definition drain_inv :: "'m drain_state \<Rightarrow> bool" where
  "drain_inv s \<longleftrightarrow>
     (cm_draining (dr_mgr s) \<longrightarrow> (\<forall>k. closed_conn (dr_mgr s) k \<or> k \<in> dr_checks s \<or> k \<in> dr_visits s))"

lemma mgr_fields [simp]:
  "cm_draining (insert_conn k out ctrl c mgr) = cm_draining mgr"
  "cm_draining (signal_conn frame k mgr) = cm_draining mgr"
  "cm_draining (check_drain k mgr) = cm_draining mgr"
  "cm_draining (deregister k mgr) = cm_draining mgr"
  "cm_draining (set_authenticated_pubkey k pk mgr) = cm_draining mgr"
  "cm_draining (snd (send_to k m mgr)) = cm_draining mgr"
  by (simp_all add: insert_conn_def signal_conn_def check_drain_def deregister_def set_authenticated_pubkey_def send_to_def
      split: option.splits prod.splits)

lemma client_send_cancelled: "client_send m ob = (ok, ob') \<Longrightarrow> ob_cancelled ob \<Longrightarrow> ob_cancelled ob'"
  by (auto simp: client_send_def Let_def split: send_outcome.splits)

lemma closed_conn_ops:
  "closed_conn (signal_conn frame k mgr) k"
  "closed_conn mgr k' \<Longrightarrow> closed_conn (signal_conn frame k mgr) k'"
  "closed_conn mgr k' \<Longrightarrow> closed_conn (deregister k mgr) k'"
  "closed_conn mgr k' \<Longrightarrow> closed_conn (set_authenticated_pubkey k pk mgr) k'"
  "closed_conn mgr k' \<Longrightarrow> closed_conn (snd (send_to k m mgr)) k'"
  "k' \<noteq> k \<Longrightarrow> closed_conn mgr k' \<Longrightarrow> closed_conn (insert_conn k out ctrl c mgr) k'"
  using client_send_cancelled
  by (auto simp: closed_conn_def signal_conn_def signal_close_def cancel_entry_def deregister_def set_authenticated_pubkey_def
      send_to_def insert_conn_def hget_hmodify split: option.splits prod.splits)

interpretation drains: transition_system drain_start drain_step drain_inv
proof
  fix s t :: "'m drain_state"
  assume "drain_step s t" "drain_inv s"
  then show "drain_inv t"
  proof cases
    case (Insert k out ctrl c)
    then show ?thesis using \<open>drain_inv s\<close> closed_conn_ops(6) by (fastforce simp: drain_inv_def)
  next
    case (Check k)
    have "closed_conn (check_drain k (dr_mgr s)) k'" if "cm_draining (dr_mgr s)" "k' = k \<or> closed_conn (dr_mgr s) k'" for k'
      using that closed_conn_ops(1,2) by (auto simp: check_drain_def)
    then show ?thesis using \<open>drain_inv s\<close> Check by (auto simp: drain_inv_def)
  next
    case StoreFlag
    then show ?thesis by (auto simp: drain_inv_def closed_conn_def) (metis domI dom_map_of_conv_image_fst)
  next
    case (Visit k)
    then show ?thesis using \<open>drain_inv s\<close> closed_conn_ops(1,2) by (fastforce simp: drain_inv_def)
  next
    case (Leave k)
    then show ?thesis using \<open>drain_inv s\<close> by (simp add: drain_inv_def) (metis closed_conn_ops(3))
  next
    case (Authenticate k pk)
    then show ?thesis using \<open>drain_inv s\<close> by (simp add: drain_inv_def) (metis closed_conn_ops(4))
  next
    case (Send k m)
    then show ?thesis using \<open>drain_inv s\<close> by (simp add: drain_inv_def) (metis closed_conn_ops(5))
  qed
qed (simp add: drain_start_def drain_inv_def conn_manager_new_def)

text \<open>
  C11: No connection survives a drain. However registrations, removals, authentications and sends interleave
  with the drain, once the drain has visited its entries and no registration is between its insert and its
  check, every connection that is still there has been cancelled.
\<close>

theorem drain_reaches_every_connection:
  assumes "drain_start s" "drain_step\<^sup>*\<^sup>* s t" "cm_draining (dr_mgr t)" "dr_checks t = {}" "dr_visits t = {}"
    "hget (cm_connections (dr_mgr t)) k = Some e"
  shows "ob_cancelled (ce_out e)"
  using drains.reachable_inv [OF assms(1,2)] assms(3-) by (simp add: drain_inv_def closed_conn_def)

definition demo_box :: "nat outbox" where
  "demo_box = \<lparr>ob_sent = [], ob_tries = 0, ob_takes = \<lambda>_. SendOk, ob_count = 0, ob_grace = 3, ob_cancelled = False\<rparr>"

definition demo_ctrl :: "ctrl_frame outbox" where
  "demo_ctrl = \<lparr>ob_sent = [], ob_tries = 0, ob_takes = \<lambda>_. SendOk, ob_count = 0, ob_grace = 3, ob_cancelled = False\<rparr>"

lemma drain_reaches_every_connection_witness:
  "\<exists>e. hget (cm_connections (signal_conn RestartClose ''k''
     ((insert_conn ''k'' demo_box demo_ctrl ''com'' conn_manager_new)\<lparr>cm_draining := True\<rparr>))) ''k'' = Some e \<and> ob_cancelled (ce_out e)"
proof -
  let ?m1 = "insert_conn ''k'' demo_box demo_ctrl ''com'' conn_manager_new"
  let ?m2 = "?m1\<lparr>cm_draining := True\<rparr>" and ?m3 = "signal_conn RestartClose ''k'' (?m1\<lparr>cm_draining := True\<rparr>)"
  let ?s0 = "\<lparr>dr_mgr = conn_manager_new :: nat conn_manager, dr_checks = {}, dr_visits = {}\<rparr>"
  let ?s1 = "\<lparr>dr_mgr = ?m1, dr_checks = {''k''}, dr_visits = {}\<rparr>"
  let ?s2 = "\<lparr>dr_mgr = ?m1, dr_checks = {}, dr_visits = {}\<rparr>"
  let ?s3 = "\<lparr>dr_mgr = ?m2, dr_checks = {}, dr_visits = {''k''}\<rparr>"
  let ?s4 = "\<lparr>dr_mgr = ?m3, dr_checks = {}, dr_visits = {}\<rparr>"
  have 1: "drain_step ?s0 ?s1" using drain_step.Insert [of "''k''" ?s0 demo_box demo_ctrl "''com''"] by (simp add: conn_manager_new_def)
  have 2: "drain_step ?s1 ?s2" using drain_step.Check [of "''k''" ?s1]
    by (simp add: check_drain_def insert_conn_def conn_manager_new_def)
  have 3: "drain_step ?s2 ?s3" using drain_step.StoreFlag [of ?s2] by (simp add: insert_conn_def conn_manager_new_def)
  have 4: "drain_step ?s3 ?s4" using drain_step.Visit [of "''k''" ?s3] by simp
  have run: "drain_step\<^sup>*\<^sup>* ?s0 ?s4" using 1 2 3 4 by (meson rtranclp.rtrancl_into_rtrancl rtranclp.rtrancl_refl)
  obtain e where e: "hget (cm_connections (dr_mgr ?s4)) ''k'' = Some e"
    by (simp add: signal_conn_def insert_conn_def conn_manager_new_def)
  have "ob_cancelled (ce_out e)"
    by (rule drain_reaches_every_connection [OF _ run _ _ _ e]) (simp_all add: drain_start_def)
  then show ?thesis using e by simp
qed

section \<open>Archival\<close>

datatype admission = Registered | Admitted | Running

record admit_state =
  ad_archived :: "uuid set"
  ad_disconnected :: "uuid set"
  ad_registry :: lifecycles
  ad_phase :: "conn_id \<Rightarrow> admission option"

text \<open>
  Sockets run \<open>run_registered_community_connection\<close>: register, ask the database, look at the token, run.
  Archival commits the row and then cancels the registered tokens. Each step is atomic; leaving drops the
  guard.
\<close>

inductive admit_step :: "admit_state \<Rightarrow> admit_state \<Rightarrow> bool" where
  Register: "k \<notin> fst ` set (ad_registry s) \<Longrightarrow>
    admit_step s (s\<lparr>ad_registry := lc_register k c (ad_registry s), ad_phase := (ad_phase s)(k \<mapsto> Registered)\<rparr>)"
| Active: "ad_phase s k = Some Registered \<Longrightarrow> hget (ad_registry s) k = Some (c, x) \<Longrightarrow> c \<notin> ad_archived s \<Longrightarrow>
    admit_step s (s\<lparr>ad_phase := (ad_phase s)(k \<mapsto> Admitted)\<rparr>)"
| Run: "ad_phase s k = Some Admitted \<Longrightarrow> hget (ad_registry s) k = Some (c, False) \<Longrightarrow>
    admit_step s (s\<lparr>ad_phase := (ad_phase s)(k \<mapsto> Running)\<rparr>)"
| Quit: "admit_step s (s\<lparr>ad_registry := lc_drop k (ad_registry s), ad_phase := (ad_phase s)(k := None)\<rparr>)"
| Archive: "admit_step s (s\<lparr>ad_archived := insert c (ad_archived s)\<rparr>)"
| Disconnect: "c \<in> ad_archived s \<Longrightarrow>
    admit_step s (s\<lparr>ad_registry := snd (disconnect_community c (ad_registry s)), ad_disconnected := insert c (ad_disconnected s)\<rparr>)"

definition admit_start :: "admit_state \<Rightarrow> bool" where
  "admit_start s \<longleftrightarrow> ad_archived s = {} \<and> ad_disconnected s = {} \<and> ad_registry s = [] \<and> ad_phase s = Map.empty"

definition admit_inv :: "admit_state \<Rightarrow> bool" where
  "admit_inv s \<longleftrightarrow>
     ad_disconnected s \<subseteq> ad_archived s \<and>
     (\<forall>k p. ad_phase s k = Some p \<longrightarrow> (\<exists>c x. hget (ad_registry s) k = Some (c, x) \<and>
        (c \<in> ad_disconnected s \<and> p \<noteq> Registered \<longrightarrow> x)))"

lemma hget_disconnect:
  "hget (snd (disconnect_community c reg)) k = map_option (\<lambda>(c', x). (c', x \<or> c' = c)) (hget reg k)"
  by (induction reg) (auto simp: disconnect_community_def)

interpretation admissions: transition_system admit_start admit_step admit_inv
proof
  fix s t :: admit_state
  assume "admit_step s t" "admit_inv s"
  then show "admit_inv t"
  proof cases
    case (Disconnect c)
    then show ?thesis using \<open>admit_inv s\<close> unfolding admit_inv_def by (fastforce simp: hget_disconnect)
  next
    case (Active k c x)
    then show ?thesis using \<open>admit_inv s\<close> unfolding admit_inv_def by (auto split: if_splits)
  next
    case (Run k c)
    then show ?thesis using \<open>admit_inv s\<close> unfolding admit_inv_def by (fastforce split: if_splits)
  next
    case (Register k c)
    then show ?thesis using \<open>admit_inv s\<close> unfolding admit_inv_def by (fastforce simp: lc_register_def split: if_splits)
  next
    case (Quit k)
    then show ?thesis using \<open>admit_inv s\<close> unfolding admit_inv_def by (fastforce simp: lc_drop_def split: if_splits)
  qed (auto simp: admit_inv_def)
qed (simp add: admit_start_def admit_inv_def)

text \<open>
  C18: An archived community has no live socket. However sockets register, are admitted, run and quit around
  the archival, once its disconnect has run every socket of the community that is running has been
  cancelled, and no socket of it starts to run any more.
\<close>

theorem archived_community_has_no_live_socket:
  assumes "admit_start s" "admit_step\<^sup>*\<^sup>* s t" "c \<in> ad_disconnected t" "hget (ad_registry t) k = Some (c, x)"
  shows "(ad_phase t k = Some Running \<longrightarrow> x) \<and>
    (\<forall>u. admit_step t u \<longrightarrow> ad_phase t k \<noteq> Some Running \<longrightarrow> ad_phase u k \<noteq> Some Running)"
proof -
  have J: "admit_inv t" by (rule admissions.reachable_inv [OF assms(1,2)])
  have x: "x" if p: "ad_phase t k = Some p" "p \<noteq> Registered" for p
  proof -
    obtain c' x' where "hget (ad_registry t) k = Some (c', x')" "c' \<in> ad_disconnected t \<and> p \<noteq> Registered \<longrightarrow> x'"
      using J p(1) unfolding admit_inv_def by blast
    then show ?thesis using p(2) assms(3,4) by simp
  qed
  have "ad_phase u k \<noteq> Some Running" if u: "admit_step t u" "ad_phase t k \<noteq> Some Running" for u
    using u(1)
  proof cases
    case (Run k' c')
    have "k' \<noteq> k"
    proof
      assume "k' = k"
      then have "x" "\<not> x" using x [of Admitted] Run assms(4) by auto
      then show False by simp
    qed
    then show ?thesis using Run u(2) by simp
  qed (use u(2) in auto)
  then show ?thesis using x by blast
qed

lemma archived_community_has_no_live_socket_witness:
  "snd (the (hget (snd (disconnect_community ''com'' (lc_register ''k'' ''com'' []))) ''k''))"
proof -
  let ?r = "lc_register ''k'' ''com'' []" and ?r' = "snd (disconnect_community ''com'' (lc_register ''k'' ''com'' []))"
  let ?s0 = "\<lparr>ad_archived = {}, ad_disconnected = {}, ad_registry = [], ad_phase = Map.empty\<rparr>"
  let ?s1 = "\<lparr>ad_archived = {}, ad_disconnected = {}, ad_registry = ?r, ad_phase = [''k'' \<mapsto> Registered]\<rparr>"
  let ?s2 = "\<lparr>ad_archived = {}, ad_disconnected = {}, ad_registry = ?r, ad_phase = [''k'' \<mapsto> Admitted]\<rparr>"
  let ?s3 = "\<lparr>ad_archived = {}, ad_disconnected = {}, ad_registry = ?r, ad_phase = [''k'' \<mapsto> Running]\<rparr>"
  let ?s4 = "\<lparr>ad_archived = {''com''}, ad_disconnected = {}, ad_registry = ?r, ad_phase = [''k'' \<mapsto> Running]\<rparr>"
  let ?s5 = "\<lparr>ad_archived = {''com''}, ad_disconnected = {''com''}, ad_registry = ?r', ad_phase = [''k'' \<mapsto> Running]\<rparr>"
  have 1: "admit_step ?s0 ?s1" using admit_step.Register [of "''k''" ?s0 "''com''"] by simp
  have 2: "admit_step ?s1 ?s2" using admit_step.Active [of ?s1 "''k''" "''com''" False] by (simp add: lc_register_def)
  have 3: "admit_step ?s2 ?s3" using admit_step.Run [of ?s2 "''k''" "''com''"] by (simp add: lc_register_def)
  have 4: "admit_step ?s3 ?s4" using admit_step.Archive [of ?s3 "''com''"] by simp
  have 5: "admit_step ?s4 ?s5" using admit_step.Disconnect [of "''com''" ?s4] by simp
  have run: "admit_step\<^sup>*\<^sup>* ?s0 ?s5" using 1 2 3 4 5 by (meson rtranclp.rtrancl_into_rtrancl rtranclp.rtrancl_refl)
  obtain x where x: "hget (ad_registry ?s5) ''k'' = Some (''com'', x)" by (simp add: hget_disconnect lc_register_def)
  have "ad_phase ?s5 ''k'' = Some Running \<longrightarrow> x"
    by (rule archived_community_has_no_live_socket [OF _ run _ x, THEN conjunct1]) (simp_all add: admit_start_def)
  then show ?thesis using x by simp
qed

text \<open>Revalidation cancels every socket of the communities that are no longer active, and no other socket.\<close>

lemma revalidate_loop_hget:
  "hget (snd (snd (revalidate_loop check cs closed failures reg))) k =
     map_option (\<lambda>(c, x). (c, x \<or> (c \<in> set cs \<and> check c = Inr False))) (hget reg k)"
proof (induction cs arbitrary: closed failures reg)
  case (Cons c cs)
  show ?case
  proof (cases "check c")
    case (Inr b)
    then show ?thesis using Cons hget_disconnect [of c reg k]
      by (cases b) (auto simp: option.map_comp comp_def split: prod.splits intro!: option.map_cong0)
  qed (auto simp: Cons intro!: option.map_cong0)
qed (simp add: case_prod_beta option.map_id flip: id_def)

lemma revalidation_closes_inactive:
  assumes "hget reg k = Some (c, x)"
  shows "hget (snd (snd (revalidate_registered_communities check reg))) k = Some (c, x \<or> check c = Inr False)"
proof -
  have "c \<in> set (bound_communities reg)" using map_of_SomeD [OF assms] by (force simp: bound_communities_def)
  then show ?thesis using assms by (simp add: revalidate_registered_communities_def revalidate_loop_hget)
qed

end
