(* ===== verification/ReqHandler.thy ===== *)
theory ReqHandler
  imports EventStore Connections IngestRules
begin

text \<open>
  Reading from the relay: the REQ, COUNT and CLOSE handlers, from
  \<open>crates/buzz-relay/src/handlers/req.rs\<close>, \<open>count.rs\<close> and \<open>close.rs\<close>, with \<open>ConnectionState::send\<close> of
  \<open>connection.rs\<close>.

  \<^item> \<open>req_filter\<close> is \<open>nostr::Filter\<close> with the two fields that matching ignores.
  \<^item> \<open>ws_conn\<close> is the connection: identity, authentication, subscriptions and the outbox.
  \<^item> \<open>read_db\<close> has what the handlers ask of the database: the cached channel set, the uncached
    membership, for the query of filter \<open>i\<close> the rows it sees or that it fails, and the full-text search.
  \<^item> \<open>handle_req\<close>, \<open>handle_search_req\<close> and \<open>handle_count\<close> are the whole handlers with every early
    return. Metrics, logging and the conformance tracer are left out; replica routing only chooses
    which database answers.
\<close>

section \<open>Data\<close>

record req_filter =
  rf_base :: nfilter
  rf_limit :: "nat option"
  rf_search :: "string option"

record req_env =
  re_uuid :: "string \<Rightarrow> uuid option"
  re_ts :: "int \<Rightarrow> int option"

record auth_context =
  ac_pubkey :: string
  ac_scopes :: "scope list"
  ac_channel_ids :: "uuid list option"
  ac_agent_owner :: "string option"

datatype auth_state = AuthPending string | Authenticated auth_context | AuthFailed

datatype relay_message =
    NoticeMsg string
  | ClosedMsg sub_id string
  | EventMsg sub_id nostr_event
  | EoseMsg sub_id
  | CountMsg sub_id nat
  | OkMsg string bool string

record ws_conn =
  wc_conn_id :: conn_id
  wc_tenant :: uuid
  wc_auth :: auth_state
  wc_subscriptions :: "(sub_id, req_filter list) hmap"
  wc_out :: "relay_message outbox"

abbreviation wc_sent :: "ws_conn \<Rightarrow> relay_message list" where
  "wc_sent conn \<equiv> ob_sent (wc_out conn)"

definition send_msg :: "relay_message \<Rightarrow> ws_conn \<Rightarrow> bool \<times> ws_conn" where
  "send_msg m conn =
     (case client_send m (wc_out conn) of (ok, out) \<Rightarrow> (ok, conn\<lparr>wc_out := out\<rparr>))"

definition sends :: "relay_message list \<Rightarrow> ws_conn \<Rightarrow> ws_conn" where
  "sends ms conn = fold (\<lambda>m cn. snd (send_msg m cn)) ms conn"

datatype topic_op = RetainTopic uuid "uuid option" | ReleaseTopic uuid "uuid option"

record req_relay =
  rl_conn :: ws_conn
  rl_registry :: registry
  rl_topics :: "topic_op list"

datatype channel_scope = ChannelLessOnly | Channels "uuid list" | ChannelsOrChannelLess "uuid list"

record search_query =
  sq_community :: uuid
  sq_text :: string
  sq_scope :: channel_scope
  sq_kinds :: "nat list option"
  sq_authors :: "string list option"
  sq_since :: "int option"
  sq_until :: "int option"
  sq_page :: nat
  sq_per_page :: nat

record read_db =
  qd_accessible :: "unit + uuid list"
  qd_is_member :: "uuid \<Rightarrow> unit + bool"
  qd_rows :: "nat \<Rightarrow> event_row list option"
  qd_search :: "search_query \<Rightarrow> unit + string list"
  qd_by_ids :: "search_query \<Rightarrow> event_row list option"

definition MAX_SUBSCRIPTIONS :: nat where "MAX_SUBSCRIPTIONS = 1024"
definition SEARCH_PAGE_SIZE :: nat where "SEARCH_PAGE_SIZE = 100"
definition MAX_SEARCH_PAGES :: nat where "MAX_SEARCH_PAGES = 10"
definition COUNT_FALLBACK_CANDIDATE_LIMIT :: int where "COUNT_FALLBACK_CANDIDATE_LIMIT = 5000"

section \<open>Channels of a filter\<close>

text \<open>The values of the generic tags with key \<open>h\<close>, in the order both loops visit them.\<close>

definition h_values :: "nfilter \<Rightarrow> string list" where
  "h_values f = concat (map snd (filter (\<lambda>e. fst e = ''h'') (f_tags f)))"

definition extract_channel_id_from_filter :: "req_env \<Rightarrow> nfilter \<Rightarrow> uuid option" where
  "extract_channel_id_from_filter env f = first_some (re_uuid env) (h_values f)"

text \<open>One filter's channels; the outer \<open>None\<close> is the early return on a second channel.\<close>

fun latch_channels :: "uuid list \<Rightarrow> uuid option \<Rightarrow> uuid option option" where
  "latch_channels [] found = Some found"
| "latch_channels (i # ids) found =
     (case found of
        Some existing \<Rightarrow> if existing \<noteq> i then None else latch_channels ids (Some i)
      | None \<Rightarrow> latch_channels ids (Some i))"

fun extract_channels_loop :: "req_env \<Rightarrow> nfilter list \<Rightarrow> uuid option \<Rightarrow> uuid option" where
  "extract_channels_loop env [] found = found"
| "extract_channels_loop env (f # fs) found =
     (let ids = List.map_filter (re_uuid env) (h_values f)
      in case latch_channels ids found of
           None \<Rightarrow> None
         | Some found' \<Rightarrow> if ids = [] then None else extract_channels_loop env fs found')"

definition extract_channel_id_from_filters :: "req_env \<Rightarrow> nfilter list \<Rightarrow> uuid option" where
  "extract_channel_id_from_filters env fs = extract_channels_loop env fs None"

text \<open>The single \<open>#h\<close> value of a filter, when it has exactly one and it is a UUID.\<close>

definition extract_channel_from_filter :: "req_env \<Rightarrow> nfilter \<Rightarrow> uuid option" where
  "extract_channel_from_filter env f =
     (case hget (f_tags f) ''h'' of Some [v] \<Rightarrow> re_uuid env v | _ \<Rightarrow> None)"

definition per_filter_channel :: "req_env \<Rightarrow> uuid option \<Rightarrow> nfilter \<Rightarrow> uuid option" where
  "per_filter_channel env channel f =
     (case extract_channel_from_filter env f of Some c \<Rightarrow> Some c | None \<Rightarrow> channel)"

section \<open>Access\<close>

definition resolve_request_local_access ::
  "uuid list \<Rightarrow> uuid \<Rightarrow> bool \<Rightarrow> bool option \<Rightarrow> bool \<times> uuid list" where
  "resolve_request_local_access accessible ch token_allows db_is_member =
     (if \<not> token_allows then (False, accessible)
      else if List.member accessible ch then (True, accessible)
      else if db_is_member = Some True then (True, accessible @ [ch])
      else (False, accessible))"

definition build_search_channel_scope_filter :: "uuid list \<Rightarrow> bool \<Rightarrow> channel_scope option" where
  "build_search_channel_scope_filter accessible include_global =
     (if accessible = [] then (if include_global then Some ChannelLessOnly else None)
      else Some (if include_global then ChannelsOrChannelLess accessible else Channels accessible))"

definition can_match :: "nat list \<Rightarrow> nfilter \<Rightarrow> bool" where
  "can_match kinds f = (case f_kinds f of None \<Rightarrow> True | Some ks \<Rightarrow> list_ex (List.member kinds) ks)"

text \<open>\<open>#p\<close>, and \<open>authors\<close>, name nobody but the reader.\<close>

definition p_is_self :: "string \<Rightarrow> nfilter \<Rightarrow> bool" where
  "p_is_self reader f =
     (case hget (f_tags f) ''p'' of None \<Rightarrow> False
      | Some vs \<Rightarrow> vs \<noteq> [] \<and> list_all (\<lambda>v. v = reader) vs)"

definition authors_are_self :: "string \<Rightarrow> nfilter \<Rightarrow> bool" where
  "authors_are_self reader f =
     (case f_authors f of None \<Rightarrow> False
      | Some as \<Rightarrow> as \<noteq> [] \<and> list_all (\<lambda>a. ascii_lower a = ascii_lower reader) as)"

definition has_ids :: "nfilter \<Rightarrow> bool" where
  "has_ids f = (case f_ids f of None \<Rightarrow> False | Some ids \<Rightarrow> ids \<noteq> [])"

definition p_gated_filters_authorized :: "nfilter list \<Rightarrow> string \<Rightarrow> bool" where
  "p_gated_filters_authorized fs reader =
     list_all (\<lambda>f.
       if \<not> can_match P_GATED_KINDS f then True
       else
         let no_exemption = (case f_kinds f of None \<Rightarrow> False
               | Some ks \<Rightarrow> list_ex (\<lambda>k. k = KIND_DM_VISIBILITY \<or> k = KIND_AGENT_TURN_METRIC) ks)
         in if \<not> no_exemption \<and> has_ids f then True else p_is_self reader f) fs"

definition engram_filters_authorized :: "nfilter list \<Rightarrow> string \<Rightarrow> bool" where
  "engram_filters_authorized fs reader =
     list_all (\<lambda>f.
       if has_ids f then True
       else if \<not> can_match [KIND_AGENT_ENGRAM] f then True
       else if authors_are_self reader f then True
       else p_is_self reader f) fs"

definition author_only_filters_authorized :: "nfilter list \<Rightarrow> string \<Rightarrow> bool" where
  "author_only_filters_authorized fs reader =
     list_all (\<lambda>f.
       let only = (case f_kinds f of None \<Rightarrow> False
             | Some ks \<Rightarrow> ks \<noteq> [] \<and> list_all (List.member AUTHOR_ONLY_KINDS) ks)
       in if \<not> only then True else authors_are_self reader f) fs"

definition filter_can_match_author_only_kinds :: "nfilter \<Rightarrow> bool" where
  "filter_can_match_author_only_kinds f = can_match AUTHOR_ONLY_KINDS f"

definition filter_can_match_shared_gated_kinds :: "nfilter \<Rightarrow> bool" where
  "filter_can_match_shared_gated_kinds f = can_match SHARED_GATED_KINDS f"

definition filter_can_match_result_gated_kinds :: "nfilter \<Rightarrow> bool" where
  "filter_can_match_result_gated_kinds f = can_match RESULT_GATED_KINDS f"

definition result_gated_count_safe_for_pushdown :: "nfilter \<Rightarrow> string \<Rightarrow> bool" where
  "result_gated_count_safe_for_pushdown f reader = p_is_self reader f"

definition is_author_only_event :: "nostr_event \<Rightarrow> string \<Rightarrow> bool" where
  "is_author_only_event ev reader = (List.member AUTHOR_ONLY_KINDS (ev_kind ev) \<and> ev_pubkey ev \<noteq> reader)"

definition event_visible_to_reader :: "nostr_event \<Rightarrow> string \<Rightarrow> bool" where
  "event_visible_to_reader ev reader =
     (if is_author_only_event ev reader then False
      else if is_unshared_gated_event ev reader then False
      else if \<not> reader_authorized_for_event ev reader then False
      else True)"

section \<open>Queries of a filter\<close>

definition filters_are_nip43_membership_only :: "nfilter list \<Rightarrow> bool" where
  "filters_are_nip43_membership_only fs =
     (fs \<noteq> [] \<and> list_all (\<lambda>f. case f_kinds f of None \<Rightarrow> False
        | Some ks \<Rightarrow> ks \<noteq> [] \<and> list_all (\<lambda>k. k = KIND_NIP43_MEMBERSHIP_LIST) ks) fs)"

definition nip33_only :: "nfilter \<Rightarrow> bool" where
  "nip33_only f = (case f_kinds f of None \<Rightarrow> False
     | Some ks \<Rightarrow> ks \<noteq> [] \<and> list_all is_parameterized_replaceable ks)"

definition filter_fully_pushable :: "req_filter \<Rightarrow> bool" where
  "filter_fully_pushable f =
     (list_all (\<lambda>(key, vals).
        if key = ''h'' \<or> key = ''p'' then length vals \<le> 1
        else if key = ''d'' then vals = [] \<or> nip33_only (rf_base f)
        else if key = ''e'' then True
        else vals = []) (f_tags (rf_base f)) \<and>
      rf_search f = None)"

definition filter_to_query_params :: "req_env \<Rightarrow> req_filter \<Rightarrow> uuid option \<Rightarrow> uuid \<Rightarrow> event_query" where
  "filter_to_query_params env rf channel c =
     (let f = rf_base rf; d_vals = hget (f_tags f) ''d'' in
      (for_community c)\<lparr>
        eq_channel_id := channel,
        eq_kinds := f_kinds f,
        eq_pubkey := (case f_authors f of Some [a] \<Rightarrow> Some a | _ \<Rightarrow> None),
        eq_since := Option.bind (f_since f) (\<lambda>t. re_ts env (as_i64 t)),
        eq_until := Option.bind (f_until f) (\<lambda>t. re_ts env (as_i64 t)),
        eq_limit := Some (case rf_limit rf of None \<Rightarrow> DEFAULT_MAX_PAGE_LIMIT
                          | Some l \<Rightarrow> min (as_i64 l) DEFAULT_MAX_PAGE_LIMIT),
        eq_p_tag_hex := (case hget (f_tags f) ''p'' of Some [v] \<Rightarrow> Some v | _ \<Rightarrow> None),
        eq_d_tag := (if nip33_only f then (case d_vals of Some [v] \<Rightarrow> Some v | _ \<Rightarrow> None) else None),
        eq_d_tags := (if nip33_only f then (case d_vals of Some (v # v' # vs) \<Rightarrow> Some (v # v' # vs) | _ \<Rightarrow> None) else None),
        eq_authors := (case f_authors f of Some (a # a' # as) \<Rightarrow> Some (a # a' # as) | _ \<Rightarrow> None),
        eq_ids := (case f_ids f of Some (i # is) \<Rightarrow> Some (i # is) | _ \<Rightarrow> None),
        eq_e_tags := (case hget (f_tags f) ''e'' of Some (v # vs) \<Rightarrow> Some (v # vs) | _ \<Rightarrow> None)\<rparr>)"

definition build_event_query_from_filter :: "req_env \<Rightarrow> req_filter \<Rightarrow> uuid \<Rightarrow> event_query" where
  "build_event_query_from_filter env f c =
     filter_to_query_params env f (extract_channel_id_from_filter env (rf_base f)) c"

definition apply_access_scope_to_query :: "uuid option \<Rightarrow> uuid list \<Rightarrow> event_query \<Rightarrow> event_query" where
  "apply_access_scope_to_query channel accessible q =
     (if channel = None then q\<lparr>eq_channel_ids := Some accessible\<rparr> else q)"

definition apply_count_fallback_limit :: "event_query \<Rightarrow> event_query" where
  "apply_count_fallback_limit q =
     q\<lparr>eq_limit := Some (COUNT_FALLBACK_CANDIDATE_LIMIT + 1), eq_max_limit := Some (COUNT_FALLBACK_CANDIDATE_LIMIT + 1)\<rparr>"

definition count_fallback_exceeded :: "nat \<Rightarrow> bool" where
  "count_fallback_exceeded n = (n > nat COUNT_FALLBACK_CANDIDATE_LIMIT)"

text \<open>The query that the historical delivery runs for one filter.\<close>

definition historical_query :: "req_env \<Rightarrow> uuid \<Rightarrow> string \<Rightarrow> uuid option \<Rightarrow> uuid list \<Rightarrow> req_filter \<Rightarrow> event_query" where
  "historical_query env c reader channel accessible f =
     (let ch = per_filter_channel env channel (rf_base f);
          q = apply_access_scope_to_query ch accessible (filter_to_query_params env f ch c)
      in if filter_can_match_shared_gated_kinds (rf_base f) then q\<lparr>eq_shared_gated_reader := Some reader\<rparr> else q)"

section \<open>Delivery\<close>

text \<open>The checks that both lanes make on a stored event before they send it.\<close>

definition event_accepted :: "req_filter \<Rightarrow> uuid list \<Rightarrow> string \<Rightarrow> stored_event \<Rightarrow> bool" where
  "event_accepted f accessible reader se =
     (filters_match [rf_base f] se \<and>
      (case se_channel_id se of None \<Rightarrow> True | Some ch \<Rightarrow> List.member accessible ch) \<and>
      event_visible_to_reader (se_event se) reader)"

text \<open>The inner loop; \<open>False\<close> is the return when the connection no longer takes messages.\<close>

fun deliver_events ::
  "sub_id \<Rightarrow> req_filter \<Rightarrow> uuid list \<Rightarrow> string \<Rightarrow> stored_event list \<Rightarrow> string list \<Rightarrow> ws_conn
   \<Rightarrow> bool \<times> string list \<times> ws_conn" where
  "deliver_events sub f accessible reader [] seen conn = (True, seen, conn)"
| "deliver_events sub f accessible reader (se # ses) seen conn =
     (let i = ev_id (se_event se) in
      if \<not> event_accepted f accessible reader se \<or> List.member seen i
      then deliver_events sub f accessible reader ses seen conn
      else (case send_msg (EventMsg sub (se_event se)) conn of
              (False, conn') \<Rightarrow> (False, i # seen, conn')
            | (True, conn') \<Rightarrow> deliver_events sub f accessible reader ses (i # seen) conn'))"

fun deliver_historical ::
  "sub_id \<Rightarrow> uuid list \<Rightarrow> string \<Rightarrow> (req_filter \<times> (store_error + stored_event list)) list \<Rightarrow> string list \<Rightarrow> ws_conn \<Rightarrow> ws_conn" where
  "deliver_historical sub accessible reader [] seen conn = snd (send_msg (EoseMsg sub) conn)"
| "deliver_historical sub accessible reader ((f, res) # rest) seen conn =
     (case res of
        Inl _ \<Rightarrow> snd (send_msg (EoseMsg sub) conn)
      | Inr events \<Rightarrow>
          (case deliver_events sub f accessible reader events seen conn of
             (False, _, conn') \<Rightarrow> conn'
           | (True, seen', conn') \<Rightarrow> deliver_historical sub accessible reader rest seen' conn'))"

definition run_query :: "event_row list option \<Rightarrow> event_query \<Rightarrow> store_error + stored_event list" where
  "run_query snapshot q = (case snapshot of None \<Rightarrow> Inl SqlError | Some rows \<Rightarrow> query_events q rows)"

section \<open>Search\<close>

definition scope_for :: "req_env \<Rightarrow> nfilter \<Rightarrow> uuid list \<Rightarrow> channel_scope \<Rightarrow> channel_scope option" where
  "scope_for env f accessible all_channels =
     (case hget (f_tags f) ''h'' of
        Some (v # vs) \<Rightarrow>
          (let valid = filter (List.member accessible) (List.map_filter (re_uuid env) (v # vs))
           in if valid = [] then None else Some (Channels valid))
      | _ \<Rightarrow> Some all_channels)"

definition search_limit :: "req_filter \<Rightarrow> nat" where
  "search_limit f = (case rf_limit f of None \<Rightarrow> nat DEFAULT_MAX_PAGE_LIMIT
     | Some l \<Rightarrow> min (l mod 2 ^ 32) (nat DEFAULT_MAX_PAGE_LIMIT))"

definition search_query_of :: "uuid \<Rightarrow> string \<Rightarrow> channel_scope \<Rightarrow> nfilter \<Rightarrow> nat \<Rightarrow> search_query" where
  "search_query_of c txt scope f page =
     \<lparr>sq_community = c, sq_text = txt, sq_scope = scope,
      sq_kinds = (case f_kinds f of Some (k # ks) \<Rightarrow> Some (k # ks) | _ \<Rightarrow> None),
      sq_authors = (case f_authors f of Some (a # as) \<Rightarrow> Some (a # as) | _ \<Rightarrow> None),
      sq_since = map_option as_i64 (f_since f), sq_until = map_option as_i64 (f_until f),
      sq_page = page, sq_per_page = SEARCH_PAGE_SIZE\<rparr>"

definition get_events_by_ids :: "uuid \<Rightarrow> string list \<Rightarrow> event_row list \<Rightarrow> stored_event list" where
  "get_events_by_ids c ids rows =
     (if ids = [] then []
      else map er_stored (filter (\<lambda>r. er_community r = c \<and> \<not> er_deleted r \<and> List.member ids (ev_id (er_event r))) rows))"

text \<open>The hits of one page; \<open>False\<close> when the connection no longer takes messages.\<close>

fun deliver_hits ::
  "sub_id \<Rightarrow> req_filter \<Rightarrow> uuid list \<Rightarrow> string \<Rightarrow> nat \<Rightarrow> stored_event list \<Rightarrow> string list \<Rightarrow> nat \<Rightarrow> string list \<Rightarrow> ws_conn
   \<Rightarrow> bool \<times> nat \<times> string list \<times> ws_conn" where
  "deliver_hits sub f accessible reader limit events [] emitted seen conn = (True, emitted, seen, conn)"
| "deliver_hits sub f accessible reader limit events (i # ids) emitted seen conn =
     (if emitted \<ge> limit then (True, emitted, seen, conn)
      else case List.find (\<lambda>se. ev_id (se_event se) = i) (rev events) of
        None \<Rightarrow> deliver_hits sub f accessible reader limit events ids emitted seen conn
      | Some se \<Rightarrow>
          if \<not> event_accepted f accessible reader se \<or> List.member seen i
          then deliver_hits sub f accessible reader limit events ids emitted seen conn
          else (case send_msg (EventMsg sub (se_event se)) conn of
                  (False, conn') \<Rightarrow> (False, emitted, i # seen, conn')
                | (True, conn') \<Rightarrow>
                    deliver_hits sub f accessible reader limit events ids (emitted + 1) (i # seen) conn'))"

text \<open>The pages of one filter, from \<open>page\<close> on; the countdown starts at \<open>MAX_SEARCH_PAGES\<close>.\<close>

fun search_pages ::
  "read_db \<Rightarrow> uuid \<Rightarrow> string \<Rightarrow> channel_scope \<Rightarrow> sub_id \<Rightarrow> req_filter \<Rightarrow> uuid list \<Rightarrow> string \<Rightarrow> nat \<Rightarrow> nat \<Rightarrow> nat \<Rightarrow>
   string list \<Rightarrow> ws_conn \<Rightarrow> bool \<times> string list \<times> ws_conn" where
  "search_pages db c txt scope sub f accessible reader 0 page emitted seen conn = (True, seen, conn)"
| "search_pages db c txt scope sub f accessible reader (Suc k) page emitted seen conn =
     (if emitted \<ge> search_limit f then (True, seen, conn)
      else let q = search_query_of c txt scope (rf_base f) page in
        case qd_search db q of
          Inl _ \<Rightarrow> (True, seen, conn)
        | Inr ids \<Rightarrow>
            (case (if ids = [] then Some [] else map_option (get_events_by_ids c ids) (qd_by_ids db q)) of
               None \<Rightarrow> (True, seen, conn)
             | Some events \<Rightarrow>
                 (case deliver_hits sub f accessible reader (search_limit f) events ids emitted seen conn of
                    (False, _, seen', conn') \<Rightarrow> (False, seen', conn')
                  | (True, emitted', seen', conn') \<Rightarrow>
                      if length ids < SEARCH_PAGE_SIZE then (True, seen', conn')
                      else search_pages db c txt scope sub f accessible reader k (page + 1) emitted' seen' conn')))"

fun search_filters ::
  "req_env \<Rightarrow> read_db \<Rightarrow> uuid \<Rightarrow> channel_scope \<Rightarrow> sub_id \<Rightarrow> uuid list \<Rightarrow> string \<Rightarrow> req_filter list \<Rightarrow> string list \<Rightarrow> ws_conn
   \<Rightarrow> ws_conn" where
  "search_filters env db c all_channels sub accessible reader [] seen conn = snd (send_msg (EoseMsg sub) conn)"
| "search_filters env db c all_channels sub accessible reader (f # fs) seen conn =
     (case rf_search f of
        None \<Rightarrow> search_filters env db c all_channels sub accessible reader fs seen conn
      | Some txt \<Rightarrow>
          if txt = [] \<or> search_limit f = 0
          then search_filters env db c all_channels sub accessible reader fs seen conn
          else case scope_for env (rf_base f) accessible all_channels of
            None \<Rightarrow> search_filters env db c all_channels sub accessible reader fs seen conn
          | Some scope \<Rightarrow>
              (case search_pages db c txt scope sub f accessible reader MAX_SEARCH_PAGES 1 0 seen conn of
                 (False, _, conn') \<Rightarrow> conn'
               | (True, seen', conn') \<Rightarrow>
                   search_filters env db c all_channels sub accessible reader fs seen' conn'))"

definition handle_search_req ::
  "req_env \<Rightarrow> read_db \<Rightarrow> sub_id \<Rightarrow> req_filter list \<Rightarrow> uuid list \<Rightarrow> bool \<Rightarrow> string \<Rightarrow> ws_conn \<Rightarrow> ws_conn" where
  "handle_search_req env db sub fs accessible include_global reader conn =
     (case build_search_channel_scope_filter accessible include_global of
        None \<Rightarrow> snd (send_msg (EoseMsg sub) conn)
      | Some scope \<Rightarrow> search_filters env db (wc_tenant conn) scope sub accessible reader fs [] conn)"

section \<open>REQ\<close>

definition closing :: "sub_id \<Rightarrow> string \<Rightarrow> req_relay \<Rightarrow> req_relay" where
  "closing sub msg st = st\<lparr>rl_conn := snd (send_msg (ClosedMsg sub msg) (rl_conn st))\<rparr>"

text \<open>The first gate: an authenticated reader with the scope to read, below the subscription limit.\<close>

definition req_reader :: "sub_id \<Rightarrow> ws_conn \<Rightarrow> relay_message list + auth_context" where
  "req_reader sub conn =
     (case wc_auth conn of
        Authenticated ctx \<Rightarrow>
          if ac_scopes ctx \<noteq> [] \<and> \<not> List.member (ac_scopes ctx) MessagesRead
          then Inl [NoticeMsg ''restricted: insufficient scope'', ClosedMsg sub ''restricted: insufficient scope'']
          else if \<not> hcontains (wc_subscriptions conn) sub \<and> length (wc_subscriptions conn) \<ge> MAX_SUBSCRIPTIONS
          then Inl [ClosedMsg sub ''error: too many subscriptions'']
          else Inr ctx
      | _ \<Rightarrow> Inl [NoticeMsg ''auth-required: authenticate before subscribing'',
                  ClosedMsg sub ''auth-required: not authenticated''])"

definition token_allows :: "uuid list option \<Rightarrow> uuid \<Rightarrow> bool" where
  "token_allows ids ch = (case ids of None \<Rightarrow> True | Some permitted \<Rightarrow> List.member permitted ch)"

text \<open>The channels the reader may read, confirmed for the channel of the request.\<close>

definition cached_channels :: "read_db \<Rightarrow> uuid list option \<Rightarrow> unit + uuid list" where
  "cached_channels db ids = (case qd_accessible db of Inl e \<Rightarrow> Inl e | Inr acc \<Rightarrow> Inr (filter (token_allows ids) acc))"

definition confirm_channel :: "read_db \<Rightarrow> uuid list option \<Rightarrow> uuid \<Rightarrow> uuid list \<Rightarrow> unit + bool \<times> uuid list" where
  "confirm_channel db ids ch accessible =
     (let token_ok = token_allows ids ch in
      if \<not> token_ok \<or> List.member accessible ch
      then Inr (resolve_request_local_access accessible ch token_ok None)
      else (case qd_is_member db ch of
              Inl e \<Rightarrow> Inl e
            | Inr member \<Rightarrow> Inr (resolve_request_local_access accessible ch token_ok (Some member))))"

definition req_channels ::
  "read_db \<Rightarrow> uuid list option \<Rightarrow> uuid option \<Rightarrow> nfilter list \<Rightarrow> string + uuid list" where
  "req_channels db ids channel fs =
     (case (if filters_are_nip43_membership_only fs then Inr (filter (token_allows ids) []) else cached_channels db ids) of
        Inl _ \<Rightarrow> Inl ''error: database error''
      | Inr accessible \<Rightarrow>
          (case channel of
             None \<Rightarrow> Inr accessible
           | Some ch \<Rightarrow>
               (case confirm_channel db ids ch accessible of
                  Inl _ \<Rightarrow> Inl ''error: database error''
                | Inr (False, _) \<Rightarrow> Inl ''restricted: not a channel member''
                | Inr (True, acc) \<Rightarrow> Inr acc)))"

definition req_gates :: "nfilter list \<Rightarrow> string \<Rightarrow> string option" where
  "req_gates fs reader =
     (if \<not> p_gated_filters_authorized fs reader
      then Some ''restricted: p-gated events require #p matching your pubkey''
      else if \<not> engram_filters_authorized fs reader
      then Some ''restricted: agent-engram reads require authors=[self] or #p=[self]''
      else if \<not> author_only_filters_authorized fs reader
      then Some ''restricted: author-only kinds require authors=[self]''
      else None)"

definition register_sub :: "sub_id \<Rightarrow> req_filter list \<Rightarrow> uuid option \<Rightarrow> req_relay \<Rightarrow> req_relay" where
  "register_sub sub fs channel st =
     (let conn = rl_conn st; c = wc_tenant conn in
      case register_scoped c (wc_conn_id conn) sub (map rf_base fs) channel (rl_registry st) of
        (replaced, registry) \<Rightarrow>
          st\<lparr>rl_conn := conn\<lparr>wc_subscriptions := hinsert sub fs (wc_subscriptions conn)\<rparr>,
             rl_registry := registry,
             rl_topics := rl_topics st
               @ (case replaced of None \<Rightarrow> [] | Some r \<Rightarrow> [ReleaseTopic c (rs_channel_id r)])
               @ [RetainTopic c channel]\<rparr>)"

text \<open>The queries of the filters, each on the rows it sees, and their delivery in filter order.\<close>

definition historical_results ::
  "req_env \<Rightarrow> read_db \<Rightarrow> uuid \<Rightarrow> string \<Rightarrow> uuid option \<Rightarrow> uuid list \<Rightarrow> req_filter list
   \<Rightarrow> (req_filter \<times> (store_error + stored_event list)) list" where
  "historical_results env db c reader channel accessible fs =
     map (\<lambda>(i, f). (f, run_query (qd_rows db i) (historical_query env c reader channel accessible f)))
       (enumerate 0 fs)"

definition handle_req :: "req_env \<Rightarrow> read_db \<Rightarrow> sub_id \<Rightarrow> req_filter list \<Rightarrow> req_relay \<Rightarrow> req_relay" where
  "handle_req env db sub fs st =
     (let conn = rl_conn st; base = map rf_base fs; channel = extract_channel_id_from_filters env base in
      case req_reader sub conn of
        Inl msgs \<Rightarrow> st\<lparr>rl_conn := sends msgs conn\<rparr>
      | Inr ctx \<Rightarrow>
          (case req_channels db (ac_channel_ids ctx) channel base of
             Inl msg \<Rightarrow> closing sub msg st
           | Inr accessible \<Rightarrow>
               (case (if channel = None then req_gates base (ac_pubkey ctx) else None) of
                  Some msg \<Rightarrow> closing sub msg st
                | None \<Rightarrow>
                    if list_ex (\<lambda>f. rf_search f \<noteq> None) fs
                    then if list_ex (\<lambda>f. rf_search f = None) fs
                         then closing sub ''error: mixed search and non-search filters not supported'' st
                         else st\<lparr>rl_conn := handle_search_req env db sub fs accessible (ac_channel_ids ctx = None)
                                (ac_pubkey ctx) conn\<rparr>
                    else (let st' = register_sub sub fs channel st
                          in st'\<lparr>rl_conn := deliver_historical sub accessible (ac_pubkey ctx)
                               (historical_results env db (wc_tenant conn) (ac_pubkey ctx) channel accessible fs)
                               [] (rl_conn st')\<rparr>))))"

definition handle_close :: "sub_id \<Rightarrow> req_relay \<Rightarrow> req_relay" where
  "handle_close sub st =
     (let conn = (rl_conn st)\<lparr>wc_subscriptions := hremove sub (wc_subscriptions (rl_conn st))\<rparr> in
      case remove_subscription (wc_conn_id conn) sub (rl_registry st) of
        (removed, registry) \<Rightarrow>
          st\<lparr>rl_conn := snd (send_msg (ClosedMsg sub '''') conn), rl_registry := registry,
             rl_topics := rl_topics st
               @ (case removed of None \<Rightarrow> [] | Some r \<Rightarrow> [ReleaseTopic (wc_tenant conn) (rs_channel_id r)])\<rparr>)"

section \<open>COUNT\<close>

definition count_needs_rows :: "nfilter \<Rightarrow> string \<Rightarrow> bool" where
  "count_needs_rows f reader =
     ((filter_can_match_author_only_kinds f \<and> \<not> authors_are_self reader f) \<or>
      (filter_can_match_result_gated_kinds f \<and> \<not> result_gated_count_safe_for_pushdown f reader) \<or>
      filter_can_match_shared_gated_kinds f)"

text \<open>The count of one filter by its query: in SQL, or over a bounded set of candidate rows.\<close>

definition count_filter ::
  "event_row list option \<Rightarrow> req_filter \<Rightarrow> string \<Rightarrow> event_query \<Rightarrow> string + nat" where
  "count_filter snapshot f reader q0 =
     (let q = (if filter_can_match_shared_gated_kinds (rf_base f) then q0\<lparr>eq_shared_gated_reader := Some reader\<rparr> else q0) in
      if filter_fully_pushable f \<and> \<not> count_needs_rows (rf_base f) reader
      then (case snapshot of None \<Rightarrow> Inl ''error: '' | Some rows \<Rightarrow> Inr (count_events q rows))
      else (case run_query snapshot (apply_count_fallback_limit q) of
              Inl _ \<Rightarrow> Inl ''error: ''
            | Inr events \<Rightarrow>
                if count_fallback_exceeded (length events)
                then Inl ''restricted: count filter requires narrower constraints''
                else Inr (length (filter (\<lambda>se. filters_match [rf_base f] se \<and>
                       event_visible_to_reader (se_event se) reader) events))))"

fun count_filters ::
  "req_env \<Rightarrow> read_db \<Rightarrow> uuid \<Rightarrow> auth_context \<Rightarrow> (nat \<times> req_filter) list \<Rightarrow> uuid list \<Rightarrow> nat \<Rightarrow> string + nat" where
  "count_filters env db c ctx [] accessible tot = Inr tot"
| "count_filters env db c ctx ((i, f) # rest) accessible tot =
     (let q = build_event_query_from_filter env f c in
      case extract_channel_from_filter env (rf_base f) of
        Some ch \<Rightarrow>
          (case (if List.member accessible ch then Inr None else map_sum id Some (qd_is_member db ch)) of
             Inl _ \<Rightarrow> Inl ''error: database error''
           | Inr confirmed \<Rightarrow>
               (case resolve_request_local_access accessible ch (token_allows (ac_channel_ids ctx) ch) confirmed of
                  (False, acc) \<Rightarrow> count_filters env db c ctx rest acc tot
                | (True, acc) \<Rightarrow>
                    (case count_filter (qd_rows db i) f (ac_pubkey ctx) q of
                       Inl msg \<Rightarrow> Inl msg
                     | Inr n \<Rightarrow> count_filters env db c ctx rest acc (tot + n))))
      | None \<Rightarrow>
          (case count_filter (qd_rows db i) f (ac_pubkey ctx) (q\<lparr>eq_channel_ids := Some accessible\<rparr>) of
             Inl msg \<Rightarrow> Inl msg
           | Inr n \<Rightarrow> count_filters env db c ctx rest accessible (tot + n)))"

definition count_gates :: "nfilter list \<Rightarrow> string \<Rightarrow> string option" where
  "count_gates fs reader =
     (if \<not> p_gated_filters_authorized fs reader
      then Some ''restricted: p-gated kinds require #p tag matching your pubkey''
      else if \<not> engram_filters_authorized fs reader
      then Some ''restricted: agent-engram reads require authors=[self] or #p=[self]''
      else if \<not> author_only_filters_authorized fs reader
      then Some ''restricted: author-only kinds require authors=[self]''
      else None)"

definition handle_count :: "req_env \<Rightarrow> read_db \<Rightarrow> sub_id \<Rightarrow> req_filter list \<Rightarrow> ws_conn \<Rightarrow> ws_conn" where
  "handle_count env db sub fs conn =
     (case wc_auth conn of
        Authenticated ctx \<Rightarrow>
          (case count_gates (map rf_base fs) (ac_pubkey ctx) of
             Some msg \<Rightarrow> snd (send_msg (ClosedMsg sub msg) conn)
           | None \<Rightarrow>
               (case cached_channels db (ac_channel_ids ctx) of
                  Inl _ \<Rightarrow> snd (send_msg (ClosedMsg sub ''error: database error'') conn)
                | Inr accessible \<Rightarrow>
                    (case count_filters env db (wc_tenant conn) ctx (enumerate 0 fs) accessible 0 of
                       Inl msg \<Rightarrow> snd (send_msg (ClosedMsg sub msg) conn)
                     | Inr tot \<Rightarrow> snd (send_msg (CountMsg sub tot) conn))))
      | _ \<Rightarrow> snd (send_msg (ClosedMsg sub ''auth-required: not authenticated'') conn))"

end
