(* ===== verification/ReadPaths.thy ===== *)
theory ReadPaths
  imports ReqHandler
begin

text \<open>
  What the read handlers of \<open>ReqHandler\<close> promise: who gets which stored event, that the queries miss
  nothing the filters accept, and what COUNT counts.
\<close>

section \<open>What the loops send\<close>

abbreviation wc_takes :: "ws_conn \<Rightarrow> nat \<Rightarrow> send_outcome" where
  "wc_takes conn \<equiv> ob_takes (wc_out conn)"

lemma send_msg_facts:
  "fst (send_msg m conn) \<longleftrightarrow> wc_takes conn (ob_tries (wc_out conn)) = SendOk"
  "wc_sent (snd (send_msg m conn)) = wc_sent conn @ (if wc_takes conn (ob_tries (wc_out conn)) = SendOk then [m] else [])"
  "wc_takes (snd (send_msg m conn)) = wc_takes conn"
  by (auto simp: send_msg_def client_send_def Let_def split: send_outcome.splits)

definition sent_ids :: "relay_message list \<Rightarrow> string list" where
  "sent_ids ms = List.map_filter (\<lambda>m. case m of EventMsg _ ev \<Rightarrow> Some (ev_id ev) | _ \<Rightarrow> None) ms"

text \<open>
  From \<open>conn\<close> to \<open>conn'\<close> the connection got the messages \<open>ms\<close>: events of \<open>sub\<close> that satisfy \<open>P\<close>, none
  of them seen before and all of them seen afterwards.
\<close>

definition sends_events ::
  "sub_id \<Rightarrow> (stored_event \<Rightarrow> bool) \<Rightarrow> relay_message list \<Rightarrow> string list \<Rightarrow> ws_conn \<Rightarrow> string list \<Rightarrow> ws_conn \<Rightarrow> bool" where
  "sends_events sub P ms seen conn seen' conn' \<longleftrightarrow>
     wc_sent conn' = wc_sent conn @ ms \<and> distinct (sent_ids ms) \<and> set (sent_ids ms) \<inter> set seen = {} \<and>
     set seen \<union> set (sent_ids ms) \<subseteq> set seen' \<and>
     (\<forall>s ev. EventMsg s ev \<in> set ms \<longrightarrow> s = sub \<and> (\<exists>se. se_event se = ev \<and> P se))"

lemma sent_ids_simps [simp]:
  "sent_ids [] = []"
  "sent_ids (m # ms) = (case m of EventMsg _ ev \<Rightarrow> ev_id ev # sent_ids ms | _ \<Rightarrow> sent_ids ms)"
  "sent_ids (ms @ ms') = sent_ids ms @ sent_ids ms'"
  by (auto simp: sent_ids_def List.map_filter_def split: relay_message.splits)

lemma sends_refl [simp]: "sends_events sub P [] seen conn seen conn"
  by (simp add: sends_events_def)

lemma sends_trans:
  "sends_events sub P ms seen conn seen' conn' \<Longrightarrow> sends_events sub P ms' seen' conn' seen'' conn'' \<Longrightarrow>
   sends_events sub P (ms @ ms') seen conn seen'' conn''"
  by (auto simp: sends_events_def)

lemma sends_mono:
  "sends_events sub P ms seen conn seen' conn' \<Longrightarrow> (\<And>se. P se \<Longrightarrow> Q se) \<Longrightarrow> sends_events sub Q ms seen conn seen' conn'"
  unfolding sends_events_def by blast

lemma sends_one:
  "P se \<Longrightarrow> ev_id (se_event se) \<notin> set seen \<Longrightarrow>
   \<exists>ms. sends_events sub P ms seen conn (ev_id (se_event se) # seen) (snd (send_msg (EventMsg sub (se_event se)) conn))"
  by (rule exI [of _ "if fst (send_msg (EventMsg sub (se_event se)) conn) then [EventMsg sub (se_event se)] else []"])
    (auto simp: sends_events_def send_msg_facts)

lemma sends_other:
  "(\<forall>s ev. m \<noteq> EventMsg s ev) \<Longrightarrow> \<exists>ms. sends_events sub P ms seen conn seen (snd (send_msg m conn))"
  by (rule exI [of _ "if fst (send_msg m conn) then [m] else []"], cases m)
    (auto simp: sends_events_def send_msg_facts)

lemma deliver_events_sends:
  "deliver_events sub f accessible reader ses seen conn = (ok, seen', conn') \<Longrightarrow>
   \<exists>ms. sends_events sub (\<lambda>se. se \<in> set ses \<and> event_accepted f accessible reader se) ms seen conn seen' conn'"
proof (induction ses arbitrary: seen conn)
  case Nil
  then show ?case by (auto intro: exI [of _ "[]"])
next
  case (Cons se ses)
  let ?P = "\<lambda>s. s \<in> set (se # ses) \<and> event_accepted f accessible reader s"
  have weaken: "sends_events sub (\<lambda>s. s \<in> set ses \<and> event_accepted f accessible reader s) ms a b c d \<Longrightarrow>
      sends_events sub ?P ms a b c d" for ms a b c d
    by (erule sends_mono) simp
  show ?case
  proof (cases "\<not> event_accepted f accessible reader se \<or> List.member seen (ev_id (se_event se))")
    case True
    then show ?thesis using Cons weaken by (fastforce simp: Let_def)
  next
    case False
    let ?i = "ev_id (se_event se)"
    obtain ms where ms: "sends_events sub ?P ms seen conn (?i # seen) (snd (send_msg (EventMsg sub (se_event se)) conn))"
      using False sends_one [of ?P se seen sub conn] by auto
    obtain sent_ok cn where cn: "send_msg (EventMsg sub (se_event se)) conn = (sent_ok, cn)" by fastforce
    show ?thesis
    proof (cases sent_ok)
      case True
      then have "deliver_events sub f accessible reader ses (?i # seen) cn = (ok, seen', conn')"
        using Cons.prems False cn by (simp add: Let_def)
      then obtain ms' where "sends_events sub ?P ms' (?i # seen) cn seen' conn'" using Cons.IH weaken by blast
      then show ?thesis using ms sends_trans cn by fastforce
    next
      case sf: False
      then show ?thesis using Cons.prems False cn ms by (auto simp: Let_def)
    qed
  qed
qed

lemma deliver_historical_sends:
  "\<exists>ms seen'. sends_events sub (\<lambda>se. \<exists>f events. (f, Inr events) \<in> set results \<and> se \<in> set events \<and>
       event_accepted f accessible reader se) ms seen conn seen' (deliver_historical sub accessible reader results seen conn)"
proof (induction results arbitrary: seen conn)
  case Nil
  then show ?case using sends_other by simp blast
next
  case (Cons entry rest)
  obtain f res where e: "entry = (f, res)" by fastforce
  let ?P = "\<lambda>se. \<exists>f events. (f, Inr events) \<in> set (entry # rest) \<and> se \<in> set events \<and> event_accepted f accessible reader se"
  show ?case
  proof (cases res)
    case (Inl err)
    then show ?thesis using e sends_other by simp blast
  next
    case (Inr events)
    obtain ok seen1 cn where d: "deliver_events sub f accessible reader events seen conn = (ok, seen1, cn)"
      by (cases "deliver_events sub f accessible reader events seen conn") auto
    obtain ms where "sends_events sub (\<lambda>se. se \<in> set events \<and> event_accepted f accessible reader se) ms seen conn seen1 cn"
      using deliver_events_sends [OF d] by blast
    then have ms: "sends_events sub ?P ms seen conn seen1 cn"
      by (rule sends_mono) (use e Inr in auto)
    show ?thesis
    proof (cases ok)
      case True
      obtain ms' seen' where "sends_events sub (\<lambda>se. \<exists>f events. (f, Inr events) \<in> set rest \<and> se \<in> set events \<and>
          event_accepted f accessible reader se) ms' seen1 cn seen' (deliver_historical sub accessible reader rest seen1 cn)"
        using Cons.IH by blast
      then have "sends_events sub ?P ms' seen1 cn seen' (deliver_historical sub accessible reader rest seen1 cn)"
        by (rule sends_mono) auto
      then have "sends_events sub ?P (ms @ ms') seen conn seen' (deliver_historical sub accessible reader (entry # rest) seen conn)"
        using sends_trans [OF ms] e Inr d True by simp
      then show ?thesis by blast
    next
      case False
      then have "deliver_historical sub accessible reader (entry # rest) seen conn = cn" using e Inr d by simp
      then show ?thesis using ms by (simp only:) blast
    qed
  qed
qed

text \<open>A hit is sent when it is one of the rows that were fetched for it.\<close>

lemma deliver_hits_sends:
  "deliver_hits sub f accessible reader limit events ids emitted seen conn = (ok, emitted', seen', conn') \<Longrightarrow>
   \<exists>ms. sends_events sub (\<lambda>se. se \<in> set events \<and> event_accepted f accessible reader se) ms seen conn seen' conn'"
proof (induction ids arbitrary: emitted seen conn)
  case Nil
  then show ?case by (auto intro: exI [of _ "[]"])
next
  case (Cons i ids)
  let ?P = "\<lambda>s. s \<in> set events \<and> event_accepted f accessible reader s"
  show ?case
  proof (cases "emitted \<ge> limit")
    case True
    then show ?thesis using Cons.prems sends_refl by (auto intro!: exI [of _ "[]"])
  next
    case below: False
    show ?thesis
    proof (cases "List.find (\<lambda>se. ev_id (se_event se) = i) (rev events)")
      case None
      then show ?thesis using Cons below by simp
    next
      case (Some se)
      then have se: "se \<in> set events" "ev_id (se_event se) = i" by (auto simp: find_Some_iff) (metis length_rev nth_mem set_rev)
      show ?thesis
      proof (cases "\<not> event_accepted f accessible reader se \<or> List.member seen i")
        case True
        then show ?thesis using Cons below Some by simp
      next
        case False
        obtain ms where ms: "sends_events sub ?P ms seen conn (i # seen) (snd (send_msg (EventMsg sub (se_event se)) conn))"
          using False se sends_one [of ?P se seen sub conn] by auto
        obtain sent_ok cn where cn: "send_msg (EventMsg sub (se_event se)) conn = (sent_ok, cn)" by fastforce
        show ?thesis
        proof (cases sent_ok)
          case True
          then have "deliver_hits sub f accessible reader limit events ids (emitted + 1) (i # seen) cn = (ok, emitted', seen', conn')"
            using Cons.prems False below Some cn by simp
          then obtain ms' where "sends_events sub ?P ms' (i # seen) cn seen' conn'" using Cons.IH by blast
          then show ?thesis using ms sends_trans cn by fastforce
        next
          case sf: False
          then show ?thesis using Cons.prems False below Some cn ms by auto
        qed
      qed
    qed
  qed
qed

text \<open>A live row of the community in the rows that some query of the request saw.\<close>

definition fetched :: "read_db \<Rightarrow> uuid \<Rightarrow> stored_event \<Rightarrow> bool" where
  "fetched db c se \<longleftrightarrow>
     (\<exists>rows. ((\<exists>i. qd_rows db i = Some rows) \<or> (\<exists>q. qd_by_ids db q = Some rows)) \<and>
        (\<exists>r \<in> set rows. er_community r = c \<and> \<not> er_deleted r \<and> er_stored r = se))"

lemma fetched_by_ids:
  "qd_by_ids db q = Some rows \<Longrightarrow> se \<in> set (get_events_by_ids c ids rows) \<Longrightarrow> fetched db c se"
  by (fastforce simp: fetched_def get_events_by_ids_def split: if_splits)

lemma query_rows_fetched:
  assumes "qd_rows db i = Some rows" "query_events q rows = Inr events" "eq_community q = c" "se \<in> set events"
  shows "fetched db c se"
proof -
  have "se \<in> er_stored ` {r \<in> set rows. query_where q r}"
    using assms(2,4) by (auto simp: query_events_def split: if_splits dest!: in_set_takeD in_set_dropD)
  then show ?thesis using assms(1,3) by (auto simp: fetched_def query_where_def base_where_def Let_def)
qed

lemma search_pages_sends:
  "search_pages db c text0 scope sub f accessible reader k page emitted seen conn = (ok, seen', conn') \<Longrightarrow>
   \<exists>ms. sends_events sub (\<lambda>se. fetched db c se \<and> event_accepted f accessible reader se) ms seen conn seen' conn'"
proof (induction k arbitrary: page emitted seen conn)
  case 0
  then show ?case by (auto intro: exI [of _ "[]"])
next
  case (Suc k)
  let ?P = "\<lambda>se. fetched db c se \<and> event_accepted f accessible reader se"
  let ?q = "search_query_of c text0 scope (rf_base f) page"
  have stop: ?case if "(seen', conn') = (seen, conn)"
    using that by (auto intro: exI [of _ "[]"])
  show ?case
  proof (cases "emitted \<ge> search_limit f")
    case True
    then show ?thesis using Suc.prems stop by simp
  next
    case below: False
    show ?thesis
    proof (cases "qd_search db ?q")
      case (Inl e)
      then show ?thesis using Suc.prems below stop by (simp add: Let_def)
    next
      case (Inr ids)
      show ?thesis
      proof (cases "if ids = [] then Some [] else map_option (get_events_by_ids c ids) (qd_by_ids db ?q)")
        case None
        then show ?thesis using Suc.prems below stop Inr by (simp add: Let_def)
      next
        case (Some events)
        then have ev: "fetched db c se" if "se \<in> set events" for se
          using that fetched_by_ids by (auto split: if_splits)
        obtain ok1 emitted1 seen1 cn where d:
          "deliver_hits sub f accessible reader (search_limit f) events ids emitted seen conn = (ok1, emitted1, seen1, cn)"
          by (cases "deliver_hits sub f accessible reader (search_limit f) events ids emitted seen conn") auto
        obtain ms where "sends_events sub (\<lambda>se. se \<in> set events \<and> event_accepted f accessible reader se) ms seen conn seen1 cn"
          using deliver_hits_sends [OF d] by blast
        then have ms: "sends_events sub ?P ms seen conn seen1 cn"
          by (rule sends_mono) (simp add: ev)
        show ?thesis
        proof (cases "ok1 \<and> \<not> length ids < SEARCH_PAGE_SIZE")
          case True
          then have "search_pages db c text0 scope sub f accessible reader k (page + 1) emitted1 seen1 cn = (ok, seen', conn')"
            using Suc.prems below Inr Some d by (simp add: Let_def)
          then obtain ms' where "sends_events sub ?P ms' seen1 cn seen' conn'" using Suc.IH by blast
          then show ?thesis using sends_trans [OF ms] by blast
        next
          case False
          then have "(seen', conn') = (seen1, cn)" using Suc.prems below Inr Some d by (auto simp: Let_def split: bool.splits if_splits)
          then show ?thesis using ms by blast
        qed
      qed
    qed
  qed
qed

lemma search_filters_sends:
  "\<exists>ms seen'. sends_events sub (\<lambda>se. fetched db c se \<and> (\<exists>f \<in> set fs. event_accepted f accessible reader se))
     ms seen conn seen' (search_filters env db c all_channels sub accessible reader fs seen conn)"
proof (induction fs arbitrary: seen conn)
  case Nil
  then show ?case using sends_other by simp blast
next
  case (Cons f fs)
  let ?P = "\<lambda>se. fetched db c se \<and> (\<exists>g \<in> set (f # fs). event_accepted g accessible reader se)"
  let ?go = "\<lambda>fs seen conn. search_filters env db c all_channels sub accessible reader fs seen conn"
  have rest: "\<exists>ms seen'. sends_events sub ?P ms a cn seen' (?go fs a cn)" for a cn
  proof -
    obtain ms seen' where "sends_events sub (\<lambda>se. fetched db c se \<and> (\<exists>f \<in> set fs. event_accepted f accessible reader se))
        ms a cn seen' (?go fs a cn)" using Cons.IH by blast
    then have "sends_events sub ?P ms a cn seen' (?go fs a cn)" by (rule sends_mono) auto
    then show ?thesis by blast
  qed
  show ?case
  proof (cases "\<exists>text0 scope. rf_search f = Some text0 \<and> text0 \<noteq> [] \<and> search_limit f \<noteq> 0 \<and>
      scope_for env (rf_base f) accessible all_channels = Some scope")
    case False
    then have "?go (f # fs) seen conn = ?go fs seen conn" by (auto split: option.splits)
    then show ?thesis using rest by simp
  next
    case True
    then obtain text0 scope where t: "rf_search f = Some text0" "text0 \<noteq> []" "search_limit f \<noteq> 0"
      "scope_for env (rf_base f) accessible all_channels = Some scope" by blast
    obtain ok seen1 cn where d:
      "search_pages db c text0 scope sub f accessible reader MAX_SEARCH_PAGES 1 0 seen conn = (ok, seen1, cn)"
      by (cases "search_pages db c text0 scope sub f accessible reader MAX_SEARCH_PAGES 1 0 seen conn") auto
    obtain ms where "sends_events sub (\<lambda>se. fetched db c se \<and> event_accepted f accessible reader se) ms seen conn seen1 cn"
      using search_pages_sends [OF d] by blast
    then have ms: "sends_events sub ?P ms seen conn seen1 cn"
      by (rule sends_mono) auto
    show ?thesis
    proof (cases ok)
      case True
      obtain ms' seen' where "sends_events sub ?P ms' seen1 cn seen' (?go fs seen1 cn)" using rest by blast
      then have "sends_events sub ?P (ms @ ms') seen conn seen' (?go (f # fs) seen conn)"
        using sends_trans [OF ms] t d True by simp
      then show ?thesis by blast
    next
      case False
      then have "?go (f # fs) seen conn = cn" using t d by simp
      then show ?thesis using ms by (simp only:) blast
    qed
  qed
qed

section \<open>Who gets a stored event\<close>

text \<open>The reader may read the channel: the token covers it, and the cache or the database says member.\<close>

definition channel_readable :: "read_db \<Rightarrow> uuid list option \<Rightarrow> uuid \<Rightarrow> bool" where
  "channel_readable db ids ch \<longleftrightarrow>
     token_allows ids ch \<and> ((\<exists>acc. qd_accessible db = Inr acc \<and> ch \<in> set acc) \<or> qd_is_member db ch = Inr True)"

definition may_read :: "read_db \<Rightarrow> auth_context \<Rightarrow> stored_event \<Rightarrow> bool" where
  "may_read db ctx se \<longleftrightarrow>
     (ac_scopes ctx = [] \<or> MessagesRead \<in> set (ac_scopes ctx)) \<and>
     event_visible_to_reader (se_event se) (ac_pubkey ctx) \<and>
     (\<forall>ch. se_channel_id se = Some ch \<longrightarrow> channel_readable db (ac_channel_ids ctx) ch)"

lemma req_channels_readable:
  "req_channels db ids channel fs = Inr accessible \<Longrightarrow> ch \<in> set accessible \<Longrightarrow> channel_readable db ids ch"
  by (fastforce simp: req_channels_def cached_channels_def confirm_channel_def resolve_request_local_access_def
      channel_readable_def Let_def split: sum.splits option.splits if_splits bool.splits)

lemma historical_query_community [simp]:
  "eq_community (historical_query env c reader channel accessible f) = c"
  "eq_max_limit (historical_query env c reader channel accessible f) = None"
  by (simp_all add: historical_query_def filter_to_query_params_def apply_access_scope_to_query_def for_community_def Let_def)

lemma historical_results_mem:
  "(f, res) \<in> set (historical_results env db c reader channel accessible fs) \<longleftrightarrow>
   (\<exists>i < length fs. f = fs ! i \<and> res = run_query (qd_rows db i) (historical_query env c reader channel accessible f))"
proof -
  have "set (enumerate 0 fs) = (\<lambda>i. (i, fs ! i)) ` {i. i < length fs}"
    by (auto simp: in_set_enumerate_eq)
  then show ?thesis by (auto simp: historical_results_def)
qed

lemma accepted_may_read:
  assumes "req_reader sub conn = Inr ctx" "req_channels db (ac_channel_ids ctx) channel base = Inr accessible"
    "event_accepted f accessible (ac_pubkey ctx) se"
  shows "wc_auth conn = Authenticated ctx \<and> may_read db ctx se \<and> filters_match [rf_base f] se"
proof -
  have "wc_auth conn = Authenticated ctx \<and> (ac_scopes ctx = [] \<or> MessagesRead \<in> set (ac_scopes ctx))"
    using assms(1) by (auto simp: req_reader_def split: auth_state.splits if_splits)
  then show ?thesis using assms(3) req_channels_readable [OF assms(2)]
    by (auto simp: may_read_def event_accepted_def split: option.splits)
qed

lemma sends_closing: "\<exists>ms seen'. sends_events sub P ms [] (rl_conn st) seen' (rl_conn (closing sub' msg st))"
  using sends_other [of "ClosedMsg sub' msg" sub P "[]" "rl_conn st"] by (auto simp: closing_def)

lemma sends_replies:
  "\<forall>m \<in> set msgs. \<forall>s ev. m \<noteq> EventMsg s ev \<Longrightarrow>
   \<exists>ms. sends_events sub P ms [] conn [] (sends msgs conn)"
proof (induction msgs arbitrary: conn)
  case Nil
  then show ?case by (auto simp: sends_def intro: exI [of _ "[]"])
next
  case (Cons m msgs)
  obtain ms where ms: "sends_events sub P ms [] conn [] (snd (send_msg m conn))"
    using Cons.prems sends_other [of m sub P "[]" conn] by auto
  obtain ms' where "sends_events sub P ms' [] (snd (send_msg m conn)) [] (sends msgs (snd (send_msg m conn)))"
    using Cons.IH Cons.prems by (metis list.set_intros(2))
  then have "sends_events sub P (ms @ ms') [] conn [] (sends (m # msgs) conn)"
    using sends_trans [OF ms] by (simp add: sends_def)
  then show ?case by blast
qed

text \<open>
  C2: A stored event reaches a subscriber only when the subscriber may read it. Every event that REQ
  sends, by its queries or by full-text search, is a live row of the connection's community that one
  of the filters accepts; the reader is authenticated with the scope to read, the event is visible to
  that reader, and its channel is one the token covers and the reader is a member of. No event is
  sent twice.
\<close>

theorem req_delivers_only_readable:
  "\<exists>ms. wc_sent (rl_conn (handle_req env db sub fs st)) = wc_sent (rl_conn st) @ ms \<and> distinct (sent_ids ms) \<and>
     (\<forall>s ev. EventMsg s ev \<in> set ms \<longrightarrow>
        s = sub \<and> (\<exists>ctx se. wc_auth (rl_conn st) = Authenticated ctx \<and> se_event se = ev \<and>
          fetched db (wc_tenant (rl_conn st)) se \<and> may_read db ctx se \<and> (\<exists>f \<in> set fs. filters_match [rf_base f] se)))"
proof -
  let ?conn = "rl_conn st" and ?base = "map rf_base fs"
  let ?channel = "extract_channel_id_from_filters env ?base"
  let ?P = "\<lambda>se. \<exists>ctx. wc_auth ?conn = Authenticated ctx \<and> fetched db (wc_tenant ?conn) se \<and> may_read db ctx se \<and>
     (\<exists>f \<in> set fs. filters_match [rf_base f] se)"
  have "\<exists>ms seen'. sends_events sub ?P ms [] ?conn seen' (rl_conn (handle_req env db sub fs st))"
  proof (cases "req_reader sub ?conn")
    case (Inl msgs)
    then have "\<forall>m \<in> set msgs. \<forall>s ev. m \<noteq> EventMsg s ev"
      by (auto simp: req_reader_def split: auth_state.splits if_splits)
    then show ?thesis using sends_replies [of msgs sub ?P ?conn] Inl by (auto simp: handle_req_def Let_def)
  next
    case (Inr ctx)
    show ?thesis
    proof (cases "req_channels db (ac_channel_ids ctx) ?channel ?base")
      case (Inl msg)
      then show ?thesis using Inr sends_closing by (simp add: handle_req_def Let_def)
    next
      case acc: (Inr accessible)
      note ok = accepted_may_read [OF Inr acc]
      show ?thesis
      proof (cases "if ?channel = None then req_gates ?base (ac_pubkey ctx) else None")
        case (Some msg)
        then show ?thesis using Inr acc sends_closing by (simp add: handle_req_def Let_def split: if_splits)
      next
        case gates: None
        let ?results = "historical_results env db (wc_tenant ?conn) (ac_pubkey ctx) ?channel accessible fs"
        let ?st = "register_sub sub fs ?channel st"
        consider (mixed) "list_ex (\<lambda>f. rf_search f \<noteq> None) fs" "list_ex (\<lambda>f. rf_search f = None) fs"
          | (search) "list_ex (\<lambda>f. rf_search f \<noteq> None) fs" "\<not> list_ex (\<lambda>f. rf_search f = None) fs"
          | (historical) "\<not> list_ex (\<lambda>f. rf_search f \<noteq> None) fs" by blast
        then show ?thesis
        proof cases
          case mixed
          then have "handle_req env db sub fs st = closing sub ''error: mixed search and non-search filters not supported'' st"
            using Inr acc gates by (simp add: handle_req_def Let_def)
          then show ?thesis using sends_closing by simp
        next
          case search
          have run: "rl_conn (handle_req env db sub fs st) =
              handle_search_req env db sub fs accessible (ac_channel_ids ctx = None) (ac_pubkey ctx) ?conn"
            using search Inr acc gates by (simp add: handle_req_def Let_def)
          show ?thesis
          proof (cases "build_search_channel_scope_filter accessible (ac_channel_ids ctx = None)")
            case None
            then show ?thesis using run sends_other [of "EoseMsg sub" sub ?P "[]" ?conn] by (auto simp: handle_search_req_def)
          next
            case (Some scope)
            obtain ms seen' where "sends_events sub (\<lambda>se. fetched db (wc_tenant ?conn) se \<and>
                (\<exists>f \<in> set fs. event_accepted f accessible (ac_pubkey ctx) se)) ms [] ?conn seen'
                (search_filters env db (wc_tenant ?conn) scope sub accessible (ac_pubkey ctx) fs [] ?conn)"
              using search_filters_sends by blast
            then have "sends_events sub ?P ms [] ?conn seen' (rl_conn (handle_req env db sub fs st))"
              unfolding run using Some by (simp add: handle_search_req_def) (erule sends_mono, use ok in blast)
            then show ?thesis by blast
          qed
        next
          case historical
          have run: "rl_conn (handle_req env db sub fs st) =
              deliver_historical sub accessible (ac_pubkey ctx) ?results [] (rl_conn ?st)"
            using historical Inr acc gates by (simp add: handle_req_def Let_def)
          have rows: "fetched db (wc_tenant ?conn) se \<and> f \<in> set fs" if res: "(f, Inr events) \<in> set ?results" "se \<in> set events" for f events se
          proof -
            obtain i where i: "i < length fs" "f = fs ! i"
              "run_query (qd_rows db i) (historical_query env (wc_tenant ?conn) (ac_pubkey ctx) ?channel accessible f) = Inr events"
              using res(1) historical_results_mem by metis
            then obtain rows where "qd_rows db i = Some rows"
              "query_events (historical_query env (wc_tenant ?conn) (ac_pubkey ctx) ?channel accessible f) rows = Inr events"
              by (auto simp: run_query_def split: option.splits)
            then show ?thesis using query_rows_fetched [OF _ _ _ res(2)] i by simp
          qed
          obtain ms seen' where "sends_events sub (\<lambda>se. \<exists>f events. (f, Inr events) \<in> set ?results \<and> se \<in> set events \<and>
              event_accepted f accessible (ac_pubkey ctx) se) ms [] (rl_conn ?st) seen' (rl_conn (handle_req env db sub fs st))"
            unfolding run using deliver_historical_sends by blast
          then have "sends_events sub ?P ms [] (rl_conn ?st) seen' (rl_conn (handle_req env db sub fs st))"
            by (rule sends_mono) (use ok rows in blast)
          moreover have "wc_sent (rl_conn ?st) = wc_sent ?conn" by (simp add: register_sub_def Let_def split: prod.splits)
          ultimately show ?thesis by (auto simp: sends_events_def)
        qed
      qed
    qed
  qed
  then show ?thesis by (simp add: sends_events_def) metis
qed

section \<open>The queries miss nothing\<close>

definition d_value :: "tag \<Rightarrow> string option" where
  "d_value parts = (if length parts \<ge> 2 \<and> parts ! 0 = ''d'' then Some (parts ! 1) else None)"

text \<open>
  A row as the write path stores it: the columns repeat the event (\<open>stored_columns\<close> in \<open>EventStore\<close>), and
  the channel is a UUID in its canonical text.
\<close>

definition well_stored :: "req_env \<Rightarrow> event_row \<Rightarrow> bool" where
  "well_stored env r \<longleftrightarrow>
     row_columns r \<and> (case se_channel_id (er_stored r) of None \<Rightarrow> True | Some v \<Rightarrow> re_uuid env v = Some v)"

text \<open>
  Three columns stand for tags: the channel for \<open>h\<close>, \<open>d_tag\<close> for \<open>d\<close> and the mentions for \<open>p\<close>. They say
  less than the tags when an event has a stray \<open>h\<close> tag or a second \<open>d\<close> tag, or when inserting its mentions
  failed. A row answers a filter that names such a tag when the column says all there is to say.
\<close>

definition h_answered :: "req_env \<Rightarrow> event_row \<Rightarrow> bool" where
  "h_answered env r \<longleftrightarrow>
     (\<forall>t \<in> set (ev_tags (er_event r)). tag_kind t = ''h'' \<longrightarrow>
        (\<forall>v. tag_content t = Some v \<longrightarrow> re_uuid env v = se_channel_id (er_stored r)))"

definition d_answered :: "event_row \<Rightarrow> bool" where
  "d_answered r \<longleftrightarrow> length (List.map_filter d_value (ev_tags (er_event r))) \<le> 1"

definition p_answered :: "event_row \<Rightarrow> bool" where
  "p_answered r \<longleftrightarrow> er_mentions r = insert_mentions (er_event r)"

definition answers_tags :: "req_env \<Rightarrow> nfilter \<Rightarrow> event_row \<Rightarrow> bool" where
  "answers_tags env f r \<longleftrightarrow>
     (hget (f_tags f) ''h'' \<noteq> None \<longrightarrow> h_answered env r) \<and>
     (hget (f_tags f) ''d'' \<noteq> None \<longrightarrow> d_answered r) \<and>
     (hget (f_tags f) ''p'' \<noteq> None \<longrightarrow> p_answered r)"

definition stored_ok :: "req_env \<Rightarrow> event_row \<Rightarrow> bool" where
  "stored_ok env r \<longleftrightarrow> well_stored env r \<and> h_answered env r \<and> d_answered r \<and> p_answered r"

lemma stored_ok_parts: "stored_ok env r \<Longrightarrow> well_stored env r" "stored_ok env r \<Longrightarrow> answers_tags env f r"
  by (simp_all add: stored_ok_def answers_tags_def)

lemma first_some_map_filter: "first_some g xs = (case List.map_filter g xs of [] \<Rightarrow> None | v # _ \<Rightarrow> Some v)"
  by (induction xs) (simp_all add: List.map_filter_simps split: option.splits)

lemma extract_d_tag_single:
  "extract_d_tag ev =
     (if \<not> is_parameterized_replaceable (ev_kind ev) then None
      else (case List.map_filter d_value (ev_tags ev) of [] \<Rightarrow> Some [] | v # _ \<Rightarrow> Some v))"
  unfolding extract_d_tag_def d_value_def [abs_def] first_some_map_filter by (simp split: list.splits)

text \<open>A filter as clients write it: whole ids, UUIDs in \<open>#h\<close>, a public key in \<open>#p\<close>, a time before \<open>2 ^ 63\<close>.\<close>

definition plain_filter :: "req_env \<Rightarrow> nfilter \<Rightarrow> bool" where
  "plain_filter env f \<longleftrightarrow>
     distinct (keys (f_tags f)) \<and>
     (case f_ids f of None \<Rightarrow> True | Some ids \<Rightarrow> list_all (\<lambda>i. length i = 64) ids) \<and>
     (case f_until f of None \<Rightarrow> True | Some u \<Rightarrow> u < 2 ^ 63) \<and>
     list_all (\<lambda>v. re_uuid env v \<noteq> None) (h_values f) \<and>
     (case hget (f_tags f) ''p'' of Some [v] \<Rightarrow> length v = 64 \<and> list_all is_ascii_hexdigit v | _ \<Rightarrow> True)"

lemma as_i64_small: "n < 2 ^ 63 \<Longrightarrow> as_i64 n = int n"
  by (simp add: as_i64_def Let_def)

lemma tag_value_iff: "tag_kind t = k \<and> tag_content t = Some v \<longleftrightarrow> (\<exists>rest. t = k # v # rest)"
  by (cases t; cases "tl t") (auto simp: tag_kind_def tag_content_def split: list.splits)

lemma set_map_filter_iff [simp]: "y \<in> set (List.map_filter g xs) \<longleftrightarrow> (\<exists>x \<in> set xs. g x = Some y)"
  by (induction xs) (auto simp: List.map_filter_simps split: option.splits)

lemma h_values_entry: "hget (f_tags f) ''h'' = Some vs \<Longrightarrow> v \<in> set vs \<Longrightarrow> v \<in> set (h_values f)"
  by (fastforce simp: h_values_def dest!: map_of_SomeD)

lemma accepted_channel:
  assumes row: "well_stored env r" "answers_tags env f r"
    and "nip01_accepts f (er_stored r)" "hget (f_tags f) ''h'' = Some vs"
    "\<forall>v \<in> set vs. re_uuid env v = Some ch"
  shows "se_channel_id (er_stored r) = Some ch"
proof -
  have "tag_accepts (er_stored r) ''h'' vs"
    using assms(3) map_of_SomeD [OF assms(4)] by (auto simp: nip01_accepts_def Let_def)
  then consider (tag) v t where "v \<in> set vs" "t \<in> set (ev_tags (er_event r))" "tag_kind t = ''h''" "tag_content t = Some v"
    | (stored) v where "v \<in> set vs" "se_channel_id (er_stored r) = Some v"
    by (auto simp: tag_accepts_def event_has_tag_def)
  then show ?thesis
  proof cases
    case tag
    then have "re_uuid env v = se_channel_id (er_stored r)" using row(2) assms(4) unfolding answers_tags_def h_answered_def by blast
    then show ?thesis using assms(5) tag by simp
  next
    case stored
    then have "re_uuid env v = Some v" using row(1) unfolding well_stored_def by simp
    then show ?thesis using assms(5) stored by simp
  qed
qed

lemma latch_channels_Some:
  "latch_channels ids found = Some found' \<Longrightarrow>
   (\<forall>i \<in> set ids. found' = Some i) \<and> (found \<noteq> None \<longrightarrow> found' = found)"
proof (induction ids arbitrary: found)
  case (Cons i ids)
  then have "latch_channels ids (Some i) = Some found'" "found \<noteq> None \<longrightarrow> found = Some i"
    by (auto split: option.splits if_splits)
  then show ?case using Cons.IH by fastforce
qed simp

lemma extract_channels_all:
  "extract_channels_loop env fs found = Some ch \<Longrightarrow> fs \<noteq> [] \<longrightarrow>
   (found \<noteq> None \<longrightarrow> found = Some ch) \<and>
   (\<forall>f \<in> set fs. List.map_filter (re_uuid env) (h_values f) \<noteq> [] \<and>
      (\<forall>v \<in> set (h_values f). re_uuid env v = None \<or> re_uuid env v = Some ch))"
proof (induction fs arbitrary: found)
  case (Cons f fs)
  let ?ids = "List.map_filter (re_uuid env) (h_values f)"
  obtain found' where l: "latch_channels ?ids found = Some found'" "?ids \<noteq> []" "extract_channels_loop env fs found' = Some ch"
    using Cons.prems by (auto simp: Let_def split: option.splits if_splits)
  have same: "\<forall>i \<in> set ?ids. found' = Some i" "found \<noteq> None \<longrightarrow> found' = found"
    using latch_channels_Some [OF l(1)] by simp_all
  have "found' = Some (hd ?ids)" using same(1) l(2) by (metis hd_in_set)
  then have "found' = Some ch" using Cons.IH [OF l(3)] l(3) by (cases fs) simp_all
  have first: "\<forall>v \<in> set (h_values f). re_uuid env v = None \<or> re_uuid env v = Some ch"
  proof
    fix v assume v: "v \<in> set (h_values f)"
    show "re_uuid env v = None \<or> re_uuid env v = Some ch"
    proof (cases "re_uuid env v")
      case (Some i)
      then have "i \<in> set ?ids" using v by (simp only: set_map_filter_iff) blast
      then show ?thesis using same(1) \<open>found' = Some ch\<close> Some by auto
    qed simp
  qed
  have "\<forall>g \<in> set fs. List.map_filter (re_uuid env) (h_values g) \<noteq> [] \<and>
      (\<forall>v \<in> set (h_values g). re_uuid env v = None \<or> re_uuid env v = Some ch)"
    using Cons.IH [OF l(3)] by (cases "fs = []") simp_all
  then show ?case using l(2) same(2) \<open>found' = Some ch\<close> first by simp
qed simp

text \<open>The channel that the query of a filter is bound to is the channel of every event the filter accepts.\<close>

lemma query_channel_sound:
  assumes row: "well_stored env r" "answers_tags env (rf_base f) r"
    and "nip01_accepts (rf_base f) (er_stored r)" "plain_filter env (rf_base f)" "f \<in> set fs"
    "per_filter_channel env (extract_channel_id_from_filters env (map rf_base fs)) (rf_base f) = Some ch"
  shows "se_channel_id (er_stored r) = Some ch"
proof (cases "extract_channel_from_filter env (rf_base f)")
  case (Some c)
  then obtain v where "hget (f_tags (rf_base f)) ''h'' = Some [v]" "re_uuid env v = Some c"
    by (auto simp: extract_channel_from_filter_def split: option.splits list.splits)
  then show ?thesis using accepted_channel [OF row assms(3)] assms(6) Some by (auto simp: per_filter_channel_def)
next
  case None
  then have e: "extract_channels_loop env (map rf_base fs) None = Some ch"
    using assms(6) by (simp add: per_filter_channel_def extract_channel_id_from_filters_def)
  have "map rf_base fs \<noteq> []" "rf_base f \<in> set (map rf_base fs)" using assms(5) by auto
  then have all: "h_values (rf_base f) \<noteq> []" "\<forall>v \<in> set (h_values (rf_base f)). re_uuid env v = Some ch"
    using extract_channels_all [OF e] assms(4) by (fastforce simp: plain_filter_def list_all_iff List.map_filter_simps)+
  then obtain vs where vs: "(''h'', vs) \<in> set (f_tags (rf_base f))" by (fastforce simp: h_values_def)
  then have "hget (f_tags (rf_base f)) ''h'' = Some vs" using assms(4) by (simp add: plain_filter_def)
  then show ?thesis using accepted_channel [OF row assms(3)] h_values_entry all(2) by blast
qed

text \<open>The query of a filter, bound to a channel or to a set of channels, and to the reader of shared kinds.\<close>

definition scoped_query ::
  "req_env \<Rightarrow> uuid \<Rightarrow> req_filter \<Rightarrow> uuid option \<Rightarrow> uuid list option \<Rightarrow> string option \<Rightarrow> event_query" where
  "scoped_query env c f channel ids shared =
     (filter_to_query_params env f channel c)\<lparr>eq_channel_ids := ids, eq_shared_gated_reader := shared\<rparr>"

lemmas query_fields = scoped_query_def filter_to_query_params_def for_community_def Let_def

lemma mentions_of_tag:
  assumes "event_has_tag ev ''p'' v" "length v = 64" "list_all is_ascii_hexdigit v"
  shows "ascii_lower v \<in> set (insert_mentions ev)"
proof -
  obtain t where "t \<in> set (ev_tags ev)" "tag_kind t = ''p'' \<and> tag_content t = Some v"
    using assms(1) by (auto simp: event_has_tag_def)
  then obtain rest where "(''p'' # v # rest) \<in> set (ev_tags ev)" by (auto simp: tag_value_iff)
  moreover have "mention_value (''p'' # v # rest) = Some v" by (simp add: mention_value_def)
  ultimately have "v \<in> set (List.map_filter mention_value (ev_tags ev))" by (simp only: set_map_filter_iff) blast
  then show ?thesis using assms(2,3) by (auto simp: insert_mentions_def)
qed

lemma d_tag_of_tag:
  assumes "event_has_tag ev ''d'' v" "length (List.map_filter d_value (ev_tags ev)) \<le> 1" "is_parameterized_replaceable (ev_kind ev)"
  shows "extract_d_tag ev = Some v"
proof -
  obtain t where t: "t \<in> set (ev_tags ev)" "tag_kind t = ''d'' \<and> tag_content t = Some v"
    using assms(1) by (auto simp: event_has_tag_def)
  then have "d_value t = Some v" unfolding tag_value_iff by (auto simp: d_value_def)
  then have mem: "v \<in> set (List.map_filter d_value (ev_tags ev))" using t(1) by (simp only: set_map_filter_iff) blast
  then show ?thesis using assms(2,3)
    by (cases "List.map_filter d_value (ev_tags ev)") (simp_all add: extract_d_tag_single)
qed

lemma contains_e_tag:
  assumes "event_has_tag ev ''e'' v"
  shows "jsonb_contains (ev_tags ev) ''e'' v"
proof -
  obtain t where "t \<in> set (ev_tags ev)" "tag_kind t = ''e'' \<and> tag_content t = Some v"
    using assms by (auto simp: event_has_tag_def)
  then have "t \<in> set (ev_tags ev) \<and> ''e'' \<in> set t \<and> v \<in> set t" unfolding tag_value_iff by auto
  then show ?thesis unfolding jsonb_contains_def list_ex_iff by auto
qed

lemma shared_pushdown:
  assumes "event_visible_to_reader ev reader"
  shows "\<not> List.member SHARED_GATED_KINDS (ev_kind ev) \<or> ev_pubkey ev = reader \<or> jsonb_contains (ev_tags ev) ''shared'' ''true''"
proof -
  have "\<not> is_unshared_gated_event ev reader" using assms by (simp add: event_visible_to_reader_def split: if_splits)
  then consider "\<not> is_shared_gated_kind (ev_kind ev)" | "ev_pubkey ev = reader"
    | "filter (\<lambda>t. tag_kind t = ''shared'') (ev_tags ev) = [[''shared'', ''true'']]"
    by (auto simp: is_unshared_gated_event_def event_is_shared_iff split: if_splits)
  then show ?thesis
  proof cases
    case 3
    then have "[''shared'', ''true''] \<in> set (filter (\<lambda>t. tag_kind t = ''shared'') (ev_tags ev))" by simp
    then have "[''shared'', ''true''] \<in> set (ev_tags ev)" by (simp only: set_filter mem_Collect_eq)
    then have "jsonb_contains (ev_tags ev) ''shared'' ''true''"
      unfolding jsonb_contains_def list_ex_iff by (rule bexI [rotated]) simp
    then show ?thesis by simp
  qed (auto simp: is_shared_gated_kind_def)
qed

text \<open>Every row that the delivery would send is a row of the query: the pushed clauses only narrow to it.\<close>

lemma accepted_in_query:
  assumes ok: "well_stored env r" "answers_tags env (rf_base f) r" and plain: "plain_filter env (rf_base f)" and ts: "ts_ok (re_ts env)"
    and row: "er_community r = c" "\<not> er_deleted r"
    and acc: "nip01_accepts (rf_base f) (er_stored r)" "event_visible_to_reader (er_event r) reader"
    and ch: "\<And>k. channel = Some k \<Longrightarrow> se_channel_id (er_stored r) = Some k"
    and ids: "ids = None \<or> (\<exists>l. ids = Some l \<and> (\<forall>k. se_channel_id (er_stored r) = Some k \<longrightarrow> k \<in> set l))"
    and shared: "shared = None \<or> shared = Some reader"
  shows "query_where (scoped_query env c f channel ids shared) r \<and> \<not> matches_nothing (scoped_query env c f channel ids shared)"
proof -
  let ?f = "rf_base f" and ?ev = "er_event r" and ?q = "scoped_query env c f channel ids shared"
  have tags: "tag_accepts (er_stored r) k vs" if "hget (f_tags ?f) k = Some vs" for k vs
    using acc(1) map_of_SomeD [OF that] by (auto simp: nip01_accepts_def Let_def)
  have tag: "\<exists>v \<in> set vs. event_has_tag ?ev k v" if "hget (f_tags ?f) k = Some vs" "k \<noteq> ''h''" for k vs
    using tags [OF that(1)] that(2) by (auto simp: tag_accepts_def)
  note A = acc(1) [unfolded nip01_accepts_def Let_def]
  have R: "er_created_at r = int (ev_created_at ?ev)" "ev_created_at ?ev < 2 ^ 63" "er_d_tag r = extract_d_tag ?ev"
    "length (ev_id ?ev) = 64"
    using ok(1) by (simp_all add: well_stored_def row_columns_def Let_def)
  have time: "clause (re_ts env (as_i64 t)) P" if "t < 2 ^ 63" "P (int t)" for t and P :: "int \<Rightarrow> bool"
    using that ts by (cases "re_ts env (as_i64 t)") (auto simp: ts_ok_def as_i64_small clause_def)
  have since: "clause (eq_since ?q) (\<lambda>t. t \<le> er_created_at r)"
  proof (cases "f_since ?f")
    case (Some t)
    then have "t \<le> ev_created_at ?ev" using A by blast
    then have "t < 2 ^ 63" using R(2) by simp
    then show ?thesis using \<open>t \<le> ev_created_at ?ev\<close> R(1) time [of t "\<lambda>s. s \<le> er_created_at r"] Some by (simp add: query_fields)
  qed (simp add: query_fields clause_def)
  have until: "clause (eq_until ?q) (\<lambda>u. er_created_at r \<le> u)" "eq_before_id ?q = None"
  proof -
    show "clause (eq_until ?q) (\<lambda>u. er_created_at r \<le> u)"
    proof (cases "f_until ?f")
      case (Some t)
      then have "ev_created_at ?ev \<le> t" "t < 2 ^ 63" using A plain by (simp_all add: plain_filter_def)
      then show ?thesis using R(1) time [of t "\<lambda>u. er_created_at r \<le> u"] Some by (simp add: query_fields)
    qed (simp add: query_fields clause_def)
  qed (simp add: query_fields)
  have kinds: "in_clause (eq_kinds ?q) (ev_kind ?ev)" "\<not> is_empty_list (eq_kinds ?q)"
    using A by (auto simp: query_fields in_clause_def is_empty_list_def split: option.splits list.splits)
  have authors: "clause (eq_pubkey ?q) (\<lambda>pk. ev_pubkey ?ev = pk)" "in_clause (eq_authors ?q) (ev_pubkey ?ev)"
      "\<not> is_empty_list (eq_authors ?q)"
    using A by (auto simp: query_fields clause_def in_clause_def is_empty_list_def split: option.splits list.splits)
  have i: "i = ev_id ?ev" if "f_ids ?f = Some listed" "i \<in> set listed" "prefix i (ev_id ?ev)" for listed i
  proof -
    have "length i = length (ev_id ?ev)" using that(1,2) plain R(4) by (simp add: plain_filter_def list_all_iff)
    then show ?thesis using that(3) by (auto elim!: prefixE)
  qed
  have ev_ids: "in_clause (eq_ids ?q) (ev_id ?ev) \<and> \<not> is_empty_list (eq_ids ?q)"
  proof (cases "f_ids ?f")
    case (Some listed)
    then have "ev_id ?ev \<in> set listed" using A i by metis
    then show ?thesis using Some by (cases listed) (auto simp: query_fields in_clause_def is_empty_list_def)
  qed (simp add: query_fields in_clause_def is_empty_list_def)
  have e_tags: "clause (eq_e_tags ?q) (\<lambda>es. es = [] \<or> list_ex (jsonb_contains (ev_tags ?ev) ''e'') es) \<and>
      \<not> is_empty_list (eq_e_tags ?q)"
  proof (cases "hget (f_tags ?f) ''e''")
    case (Some vs)
    then obtain v where "v \<in> set vs" "jsonb_contains (ev_tags ?ev) ''e'' v" using tag contains_e_tag by blast
    then show ?thesis using Some by (cases vs) (auto simp: query_fields clause_def is_empty_list_def list_ex_iff)
  qed (simp add: query_fields clause_def is_empty_list_def)
  have mentions: "clause (eq_p_tag_hex ?q) (\<lambda>p. List.member (er_mentions r) (ascii_lower p))"
  proof (cases "\<exists>v. hget (f_tags ?f) ''p'' = Some [v]")
    case True
    then obtain v where v: "hget (f_tags ?f) ''p'' = Some [v]" by blast
    then have "event_has_tag ?ev ''p'' v" "length v = 64 \<and> list_all is_ascii_hexdigit v"
      using tag [OF v] plain by (simp_all add: plain_filter_def)
    moreover have "er_mentions r = insert_mentions ?ev" using ok(2) v by (simp add: answers_tags_def p_answered_def)
    ultimately show ?thesis using mentions_of_tag v by (simp add: query_fields clause_def)
  next
    case False
    then show ?thesis by (auto simp: query_fields clause_def split: option.splits list.splits)
  qed
  have d_tags: "case eq_d_tag ?q of Some d \<Rightarrow> er_d_tag r = Some d
       | None \<Rightarrow> clause (eq_d_tags ?q) (\<lambda>ds. ds = [] \<or> (case er_d_tag r of None \<Rightarrow> False | Some d \<Rightarrow> List.member ds d))"
  proof (cases "nip33_only ?f \<and> hget (f_tags ?f) ''d'' \<noteq> None")
    case True
    then obtain vs where vs: "hget (f_tags ?f) ''d'' = Some vs" by blast
    have "is_parameterized_replaceable (ev_kind ?ev)"
      using True A by (auto simp: nip33_only_def list_all_iff split: option.splits)
    moreover obtain v where "v \<in> set vs" "event_has_tag ?ev ''d'' v" using tag [OF vs] by auto
    moreover have "length (List.map_filter d_value (ev_tags ?ev)) \<le> 1" using ok(2) vs by (simp add: answers_tags_def d_answered_def)
    ultimately have "er_d_tag r = Some v" "v \<in> set vs" using d_tag_of_tag R(3) by auto
    then show ?thesis using True vs by (auto simp: query_fields clause_def split: list.splits)
  next
    case False
    then show ?thesis by (auto simp: query_fields clause_def)
  qed
  have channels: "case eq_channel_id ?q of Some k \<Rightarrow> se_channel_id (er_stored r) = Some k
       | None \<Rightarrow> eq_global_only ?q \<longrightarrow> se_channel_id (er_stored r) = None"
    using ch by (auto simp: query_fields split: option.splits)
  have scope: "clause (eq_channel_ids ?q) (\<lambda>l. if l = [] then se_channel_id (er_stored r) = None
        else (case se_channel_id (er_stored r) of None \<Rightarrow> True | Some k \<Rightarrow> List.member l k))"
    using ids by (cases "se_channel_id (er_stored r)") (auto simp: query_fields clause_def)
  have reader: "clause (eq_shared_gated_reader ?q) (\<lambda>rd. \<not> List.member SHARED_GATED_KINDS (ev_kind ?ev) \<or>
      ev_pubkey ?ev = rd \<or> jsonb_contains (ev_tags ?ev) ''shared'' ''true'')"
    using shared shared_pushdown [OF acc(2)] by (auto simp: query_fields clause_def)
  have "er_community r = eq_community ?q" using row by (simp add: query_fields)
  then have "base_where ?q r"
    unfolding base_where_def Let_def using row mentions channels scope kinds(1) authors(1,2) ev_ids e_tags since d_tags by simp
  then show ?thesis
    using until reader kinds(2) authors(3) ev_ids e_tags unfolding query_where_def matches_nothing_def by simp
qed

lemma historical_scoped:
  "historical_query env c reader channel accessible f =
     scoped_query env c f (per_filter_channel env channel (rf_base f))
       (if per_filter_channel env channel (rf_base f) = None then Some accessible else None)
       (if filter_can_match_shared_gated_kinds (rf_base f) then Some reader else None)"
  by (simp add: historical_query_def scoped_query_def apply_access_scope_to_query_def filter_to_query_params_def
      for_community_def Let_def)

section \<open>A complete page\<close>

text \<open>The events \<open>evs\<close>, new to \<open>seen\<close>, went out one after the other and are all of the ids that were to be sent.\<close>

definition sends_all ::
  "sub_id \<Rightarrow> (stored_event \<Rightarrow> bool) \<Rightarrow> nostr_event list \<Rightarrow> string list \<Rightarrow> ws_conn \<Rightarrow> string list \<Rightarrow> ws_conn \<Rightarrow> bool" where
  "sends_all sub P evs seen conn seen' conn' \<longleftrightarrow>
     wc_sent conn' = wc_sent conn @ map (EventMsg sub) evs \<and> wc_takes conn' = wc_takes conn \<and>
     distinct (map ev_id evs) \<and> ev_id ` set evs \<inter> set seen = {} \<and> set seen' = set seen \<union> ev_id ` set evs \<and>
     (\<forall>ev \<in> set evs. \<exists>se. se_event se = ev \<and> P se) \<and> (\<forall>se. P se \<longrightarrow> ev_id (se_event se) \<in> set seen')"

lemma sends_all_trans:
  assumes "sends_all sub P evs seen conn seen' conn'" "sends_all sub Q evs' seen' conn' seen'' conn''"
    "\<And>se. R se \<longleftrightarrow> P se \<or> Q se"
  shows "sends_all sub R (evs @ evs') seen conn seen'' conn''"
  using assms unfolding sends_all_def by (auto simp: assms(3))

lemma deliver_events_all:
  assumes "\<forall>n. wc_takes conn n = SendOk"
  shows "\<exists>evs seen' conn'. deliver_events sub f accessible reader ses seen conn = (True, seen', conn') \<and>
    sends_all sub (\<lambda>se. se \<in> set ses \<and> event_accepted f accessible reader se) evs seen conn seen' conn'"
  using assms
proof (induction ses arbitrary: seen conn)
  case Nil
  then show ?case by (auto simp: sends_all_def intro: exI [of _ "[]"])
next
  case (Cons se ses)
  let ?P = "\<lambda>s. s \<in> set ses \<and> event_accepted f accessible reader s" and ?i = "ev_id (se_event se)"
  let ?R = "\<lambda>s. s \<in> set (se # ses) \<and> event_accepted f accessible reader s"
  let ?Q = "\<lambda>s. s = se \<and> event_accepted f accessible reader s"
  show ?case
  proof (cases "\<not> event_accepted f accessible reader se \<or> List.member seen ?i")
    case True
    obtain evs seen' conn' where d: "deliver_events sub f accessible reader ses seen conn = (True, seen', conn')"
      "sends_all sub ?P evs seen conn seen' conn'" using Cons by blast
    have "sends_all sub ?Q [] seen conn seen conn" using True by (auto simp: sends_all_def)
    then have "sends_all sub ?R ([] @ evs) seen conn seen' conn'" using d(2) by (rule sends_all_trans) auto
    then show ?thesis using d(1) True by (auto simp: Let_def)
  next
    case False
    obtain cn where sent: "send_msg (EventMsg sub (se_event se)) conn = (True, cn)" "wc_takes cn = wc_takes conn"
      "wc_sent cn = wc_sent conn @ [EventMsg sub (se_event se)]"
      using Cons.prems send_msg_facts [of "EventMsg sub (se_event se)" conn] by (cases "send_msg (EventMsg sub (se_event se)) conn") simp
    then have "\<forall>n. wc_takes cn n = SendOk" using Cons.prems by simp
    then obtain evs seen' conn' where d: "deliver_events sub f accessible reader ses (?i # seen) cn = (True, seen', conn')"
      "sends_all sub ?P evs (?i # seen) cn seen' conn'" using Cons.IH by blast
    have "sends_all sub ?Q [se_event se] seen conn (?i # seen) cn" using False sent by (auto simp: sends_all_def)
    then have "sends_all sub ?R ([se_event se] @ evs) seen conn seen' conn'" using d(2) by (rule sends_all_trans) auto
    moreover have "deliver_events sub f accessible reader (se # ses) seen conn = (True, seen', conn')"
      using d(1) False sent(1) by (simp add: Let_def)
    ultimately show ?thesis by blast
  qed
qed

lemma deliver_historical_all:
  assumes "\<forall>n. wc_takes conn n = SendOk" "\<forall>(f, res) \<in> set results. \<exists>events. res = Inr events"
  shows "\<exists>evs seen' conn'. deliver_historical sub accessible reader results seen conn = snd (send_msg (EoseMsg sub) conn') \<and>
    sends_all sub (\<lambda>se. \<exists>f events. (f, Inr events) \<in> set results \<and> se \<in> set events \<and> event_accepted f accessible reader se)
      evs seen conn seen' conn'"
  using assms
proof (induction results arbitrary: seen conn)
  case Nil
  have "sends_all sub (\<lambda>se. \<exists>f events. (f, Inr events) \<in> set [] \<and> se \<in> set events \<and> event_accepted f accessible reader se)
      [] seen conn seen conn" by (simp add: sends_all_def)
  then show ?case unfolding deliver_historical.simps by blast
next
  case (Cons entry rest)
  obtain f events where e: "entry = (f, Inr events)" using Cons.prems(2) by (cases entry) auto
  let ?P = "\<lambda>se. se \<in> set events \<and> event_accepted f accessible reader se"
  let ?Q = "\<lambda>se. \<exists>f events. (f, Inr events) \<in> set rest \<and> se \<in> set events \<and> event_accepted f accessible reader se"
  let ?R = "\<lambda>se. \<exists>f events. (f, Inr events) \<in> set (entry # rest) \<and> se \<in> set events \<and> event_accepted f accessible reader se"
  obtain evs1 seen1 cn where d: "deliver_events sub f accessible reader events seen conn = (True, seen1, cn)"
    "sends_all sub ?P evs1 seen conn seen1 cn"
    using deliver_events_all [OF Cons.prems(1)] by blast
  then have "\<forall>n. wc_takes cn n = SendOk" using Cons.prems(1) by (simp add: sends_all_def)
  then obtain evs2 seen' conn' where r: "deliver_historical sub accessible reader rest seen1 cn = snd (send_msg (EoseMsg sub) conn')"
    "sends_all sub ?Q evs2 seen1 cn seen' conn'"
    using Cons.IH [of cn seen1] Cons.prems(2) by auto
  have "sends_all sub ?R (evs1 @ evs2) seen conn seen' conn'" using d(2) r(2) by (rule sends_all_trans) (use e in auto)
  moreover have "deliver_historical sub accessible reader (entry # rest) seen conn = snd (send_msg (EoseMsg sub) conn')"
    using e d(1) r(1) by simp
  ultimately show ?case by blast
qed

text \<open>The events that a reader with these channels is to get from the rows for the filters.\<close>

definition wanted ::
  "uuid \<Rightarrow> string \<Rightarrow> uuid list \<Rightarrow> req_filter list \<Rightarrow> event_row list \<Rightarrow> event_row set" where
  "wanted c reader accessible fs rows =
     {r \<in> set rows. er_community r = c \<and> \<not> er_deleted r \<and>
        (\<exists>f \<in> set fs. nip01_accepts (rf_base f) (er_stored r)) \<and>
        (\<forall>k. se_channel_id (er_stored r) = Some k \<longrightarrow> k \<in> set accessible) \<and>
        event_visible_to_reader (er_event r) reader}"

lemma event_accepted_iff:
  "event_accepted f accessible reader se \<longleftrightarrow>
     nip01_accepts (rf_base f) se \<and> (\<forall>k. se_channel_id se = Some k \<longrightarrow> k \<in> set accessible) \<and>
     event_visible_to_reader (se_event se) reader"
  by (simp add: event_accepted_def filters_match_def filter_match_one_iff split: option.splits)

text \<open>A query whose page is not full returns all of its rows.\<close>

lemma whole_page:
  assumes "int (length (filter (query_where q) rows)) \<le> page_limit q" "eq_offset q = None" "eq_before_id q = None"
    "eq_global_only q = False" "\<not> matches_nothing q"
  shows "\<exists>events. query_events q rows = Inr events \<and> set events = er_stored ` {r \<in> set rows. query_where q r}"
proof -
  have "take (nat (page_limit q)) (order_rows (filter (query_where q) rows)) = order_rows (filter (query_where q) rows)"
    using assms(1) by simp
  then show ?thesis using assms by (auto simp: query_events_def page_offset_def)
qed

lemma filter_page:
  assumes rows: "\<forall>r \<in> set rows. well_stored env r" and plain: "plain_filter env (rf_base f)" and ts: "ts_ok (re_ts env)"
    and f: "f \<in> set fs"
    and q: "q = historical_query env c reader (extract_channel_id_from_filters env (map rf_base fs)) accessible f"
    and page: "int (length (filter (query_where q) rows)) \<le> page_limit q"
  shows "\<exists>events. run_query (Some rows) q = Inr events \<and>
    {se \<in> set events. event_accepted f accessible reader se} \<subseteq> er_stored ` wanted c reader accessible [f] rows \<and>
    er_stored ` {r \<in> wanted c reader accessible [f] rows. answers_tags env (rf_base f) r} \<subseteq>
      {se \<in> set events. event_accepted f accessible reader se}"
proof -
  let ?channel = "per_filter_channel env (extract_channel_id_from_filters env (map rf_base fs)) (rf_base f)"
  let ?ids = "if ?channel = None then Some accessible else None"
  let ?shared = "if filter_can_match_shared_gated_kinds (rf_base f) then Some reader else None"
  let ?W = "{r \<in> wanted c reader accessible [f] rows. answers_tags env (rf_base f) r}"
  have q': "q = scoped_query env c f ?channel ?ids ?shared" unfolding q historical_scoped ..
  have found: "query_where q r \<and> \<not> matches_nothing q" if r: "r \<in> ?W" for r
    unfolding q'
  proof (rule accepted_in_query [where reader = reader])
    show "well_stored env r" using rows r by (simp add: wanted_def)
    then show "se_channel_id (er_stored r) = Some k" if "?channel = Some k" for k
      using query_channel_sound [OF _ _ _ plain f that] r by (auto simp: wanted_def)
  qed (use r plain ts in \<open>auto simp: wanted_def\<close>)
  have sound: "r \<in> wanted c reader accessible [f] rows"
    if "r \<in> set rows" "query_where q r" "event_accepted f accessible reader (er_stored r)" for r
    using that by (simp add: wanted_def event_accepted_iff query_where_def base_where_def q' query_fields)
  show ?thesis
  proof (cases "matches_nothing q")
    case True
    then have "?W = {}" using found by blast
    then show ?thesis using True by (auto simp: run_query_def query_events_def q' query_fields)
  next
    case False
    then obtain events where e: "query_events q rows = Inr events" "set events = er_stored ` {r \<in> set rows. query_where q r}"
      using whole_page [OF page] by (auto simp: q' query_fields)
    have "{se \<in> set events. event_accepted f accessible reader se} \<subseteq> er_stored ` wanted c reader accessible [f] rows"
      using e(2) sound by auto
    moreover have "er_stored ` ?W \<subseteq> {se \<in> set events. event_accepted f accessible reader se}"
      using e(2) found by (auto simp: wanted_def event_accepted_iff)
    ultimately show ?thesis using e(1) by (simp add: run_query_def)
  qed
qed

text \<open>The wanted events that some filter wants whose tags the row answers.\<close>

definition answered ::
  "req_env \<Rightarrow> uuid \<Rightarrow> string \<Rightarrow> uuid list \<Rightarrow> req_filter list \<Rightarrow> event_row list \<Rightarrow> event_row set" where
  "answered env c reader accessible fs rows =
     {r. \<exists>f \<in> set fs. r \<in> wanted c reader accessible [f] rows \<and> answers_tags env (rf_base f) r}"

text \<open>
  C12: The stored page is complete. When the queries succeed and no filter has more candidates than its page
  holds, an admitted REQ sends nothing but live events of the community that a filter accepts and the reader
  may see, in any channel it may read or in none, each of them once, and then EOSE; and it sends every such
  event that a filter without \<open>#h\<close>, \<open>#d\<close> and \<open>#p\<close> accepts. For a filter with one of these tags it sends
  every event whose column says what its tags say (\<open>answers_tags\<close>): what is lost otherwise, an event with a
  stray \<open>h\<close> tag, a second \<open>d\<close> tag or mentions that were not stored, is all that the pushed clauses lose. The
  rows carry the columns that the write path gives them (\<open>stored_columns\<close>).
\<close>

theorem req_page_is_complete:
  fixes st :: req_relay and fs :: "req_filter list" and rows :: "event_row list" and env :: req_env
  defines "conn \<equiv> rl_conn st" and "channel \<equiv> extract_channel_id_from_filters env (map rf_base fs)"
  assumes admitted: "req_reader sub conn = Inr ctx"
      "req_channels db (ac_channel_ids ctx) channel (map rf_base fs) = Inr accessible"
      "channel = None \<longrightarrow> req_gates (map rf_base fs) (ac_pubkey ctx) = None"
      "\<forall>f \<in> set fs. rf_search f = None"
    and runs: "\<forall>n. wc_takes conn n = SendOk" "\<forall>i < length fs. qd_rows db i = Some rows" "ts_ok (re_ts env)"
    and shape: "\<forall>r \<in> set rows. well_stored env r" "\<forall>f \<in> set fs. plain_filter env (rf_base f)"
      "\<forall>r \<in> set rows. \<forall>r' \<in> set rows. ev_id (er_event r) = ev_id (er_event r') \<longrightarrow> er_event r = er_event r'"
    and page: "\<forall>f \<in> set fs. let q = historical_query env (wc_tenant conn) (ac_pubkey ctx) channel accessible f
      in int (length (filter (query_where q) rows)) \<le> page_limit q"
  shows "\<exists>evs. wc_sent (rl_conn (handle_req env db sub fs st)) = wc_sent conn @ map (EventMsg sub) evs @ [EoseMsg sub] \<and>
    distinct (map ev_id evs) \<and>
    set evs \<subseteq> er_event ` wanted (wc_tenant conn) (ac_pubkey ctx) accessible fs rows \<and>
    er_event ` answered env (wc_tenant conn) (ac_pubkey ctx) accessible fs rows \<subseteq> set evs"
proof -
  let ?c = "wc_tenant conn" and ?reader = "ac_pubkey ctx" and ?st = "register_sub sub fs channel st"
  let ?q = "historical_query env ?c ?reader channel accessible"
  let ?results = "historical_results env db ?c ?reader channel accessible fs"
  let ?P = "\<lambda>se. \<exists>f events. (f, Inr events) \<in> set ?results \<and> se \<in> set events \<and> event_accepted f accessible ?reader se"
  have run: "rl_conn (handle_req env db sub fs st) = deliver_historical sub accessible ?reader ?results [] (rl_conn ?st)"
    using admitted by (simp add: handle_req_def Let_def conn_def channel_def list_ex_iff)
  have frame: "wc_sent (rl_conn ?st) = wc_sent conn" "wc_takes (rl_conn ?st) = wc_takes conn"
    by (simp_all add: register_sub_def Let_def conn_def split: prod.splits)
  have one: "\<exists>events. run_query (Some rows) (?q f) = Inr events \<and>
      {se \<in> set events. event_accepted f accessible ?reader se} \<subseteq> er_stored ` wanted ?c ?reader accessible [f] rows \<and>
      er_stored ` {r \<in> wanted ?c ?reader accessible [f] rows. answers_tags env (rf_base f) r} \<subseteq>
        {se \<in> set events. event_accepted f accessible ?reader se}"
    if "f \<in> set fs" for f
    using filter_page [OF shape(1) _ runs(3) that] page shape(2) that unfolding channel_def Let_def by blast
  have mem: "(f, res) \<in> set ?results \<longleftrightarrow> f \<in> set fs \<and> run_query (Some rows) (?q f) = res" for f res
    unfolding historical_results_mem in_set_conv_nth [of f] using runs(2) by auto
  have inr: "\<forall>(f, res) \<in> set ?results. \<exists>events. res = Inr events" using one mem by fastforce
  have "\<forall>n. wc_takes (rl_conn ?st) n = SendOk" using frame(2) runs(1) by simp
  then obtain evs seen' conn' where d: "deliver_historical sub accessible ?reader ?results [] (rl_conn ?st) =
        snd (send_msg (EoseMsg sub) conn')"
      "sends_all sub ?P evs [] (rl_conn ?st) seen' conn'"
    using deliver_historical_all [OF _ inr] by blast
  have P_wanted: "\<exists>r \<in> wanted ?c ?reader accessible fs rows. se = er_stored r" if "?P se" for se
  proof -
    obtain f events where f: "f \<in> set fs" "run_query (Some rows) (?q f) = Inr events" "se \<in> set events"
      "event_accepted f accessible ?reader se" using \<open>?P se\<close> mem by blast
    then have "se \<in> er_stored ` wanted ?c ?reader accessible [f] rows" using one [OF f(1)] by auto
    then show ?thesis using f(1) by (auto simp: wanted_def)
  qed
  have answered_P: "?P (er_stored r)" if r: "r \<in> answered env ?c ?reader accessible fs rows" for r
  proof -
    obtain f where f: "f \<in> set fs" "r \<in> {r \<in> wanted ?c ?reader accessible [f] rows. answers_tags env (rf_base f) r}"
      using r by (auto simp: answered_def)
    then obtain events where "run_query (Some rows) (?q f) = Inr events"
      "er_stored r \<in> {se \<in> set events. event_accepted f accessible ?reader se}" using one [OF f(1)] by blast
    then show ?thesis using mem f(1) by blast
  qed
  have from_row: "\<exists>r \<in> wanted ?c ?reader accessible fs rows. ev = er_event r" if "ev \<in> set evs" for ev
  proof -
    have "\<forall>ev \<in> set evs. \<exists>se. se_event se = ev \<and> ?P se" using d(2) unfolding sends_all_def by (elim conjE)
    from bspec [OF this that] obtain se where se: "se_event se = ev \<and> ?P se" by (rule exE)
    obtain r where "r \<in> wanted ?c ?reader accessible fs rows" "se = er_stored r"
      using P_wanted [OF se [THEN conjunct2]] by (elim bexE)
    then show ?thesis using se [THEN conjunct1] by (intro bexI [of _ r]) simp_all
  qed
  have "ev \<in> set evs" if r: "r \<in> answered env ?c ?reader accessible fs rows" "ev = er_event r" for ev r
  proof -
    have all: "\<forall>se. ?P se \<longrightarrow> ev_id (se_event se) \<in> set seen'"
      using d(2) unfolding sends_all_def by (elim conjE)
    have seen: "set seen' = ev_id ` set evs" using d(2) unfolding sends_all_def by simp
    have "ev_id (se_event (er_stored r)) \<in> set seen'" by (rule all [THEN spec, THEN mp, OF answered_P [OF r(1)]])
    then have "ev_id ev \<in> ev_id ` set evs" unfolding seen r(2) .
    then obtain ev' where e: "ev' \<in> set evs" "ev_id ev' = ev_id ev" by auto
    then obtain r' where "r' \<in> wanted ?c ?reader accessible fs rows" "ev' = er_event r'" using from_row by blast
    moreover have "r \<in> set rows" using r(1) by (auto simp: answered_def wanted_def)
    ultimately have "ev' = ev" using shape(3) r(2) e(2) by (simp add: wanted_def)
    then show ?thesis using e(1) by simp
  qed
  then have sent: "set evs \<subseteq> er_event ` wanted ?c ?reader accessible fs rows"
      "er_event ` answered env ?c ?reader accessible fs rows \<subseteq> set evs" using from_row by blast+
  have ends: "wc_sent conn' = wc_sent conn @ map (EventMsg sub) evs" "wc_takes conn' = wc_takes conn" "distinct (map ev_id evs)"
    using d(2) frame unfolding sends_all_def by simp_all
  have "wc_sent (snd (send_msg (EoseMsg sub) conn')) = wc_sent conn @ map (EventMsg sub) evs @ [EoseMsg sub]"
    using ends runs(1) by (simp add: send_msg_facts)
  then show ?thesis using sent ends(3) unfolding run d(1) by blast
qed

section \<open>COUNT\<close>

lemma length_filter_le:
  "(\<And>x. x \<in> set xs \<Longrightarrow> P x \<Longrightarrow> Q x) \<Longrightarrow> length (filter P xs) \<le> length (filter Q xs)"
  by (induction xs) (auto intro: le_SucI)

lemma length_filter_order_rows:
  "length (filter P (map er_stored (order_rows rows))) = length (filter (\<lambda>r. P (er_stored r)) rows)"
proof -
  have "mset (filter P (map er_stored (order_rows rows))) = image_mset er_stored (filter_mset (\<lambda>r. P (er_stored r)) (mset rows))"
    by (simp add: filter_map comp_def)
  then show ?thesis by (metis mset_filter size_image_mset size_mset)
qed

definition counts_in_sql :: "req_filter \<Rightarrow> string \<Rightarrow> bool" where
  "counts_in_sql f reader \<longleftrightarrow> filter_fully_pushable f \<and> \<not> count_needs_rows (rf_base f) reader"

definition wanted_count :: "uuid \<Rightarrow> string \<Rightarrow> uuid list \<Rightarrow> req_filter \<Rightarrow> event_row list \<Rightarrow> nat" where
  "wanted_count c reader accessible f rows = length (filter (\<lambda>r. r \<in> wanted c reader accessible [f] rows) rows)"

text \<open>A tag-free filter whose lists are not empty and whose times the database can take.\<close>

definition tag_free :: "req_env \<Rightarrow> nfilter \<Rightarrow> bool" where
  "tag_free env f \<longleftrightarrow>
     f_tags f = [] \<and> f_authors f \<noteq> Some [] \<and> f_ids f \<noteq> Some [] \<and>
     (case f_authors f of None \<Rightarrow> True | Some as \<Rightarrow> list_all (\<lambda>a. ascii_lower a = a) as) \<and>
     (case f_since f of None \<Rightarrow> True | Some t \<Rightarrow> t < 2 ^ 63 \<and> re_ts env (int t) = Some (int t)) \<and>
     (case f_until f of None \<Rightarrow> True | Some t \<Rightarrow> t < 2 ^ 63 \<and> re_ts env (int t) = Some (int t))"

lemma count_where_query_where: "query_where q r \<Longrightarrow> eq_before_id q = None \<Longrightarrow> count_where q r"
  by (simp add: query_where_def count_where_def)

lemma tag_free_visible:
  assumes "\<not> count_needs_rows f reader" "f_tags f = []" "ascii_lower reader = reader"
    "case f_authors f of None \<Rightarrow> True | Some as \<Rightarrow> list_all (\<lambda>a. ascii_lower a = a) as"
    "\<forall>ks. f_kinds f = Some ks \<longrightarrow> ev_kind ev \<in> set ks" "\<forall>as. f_authors f = Some as \<longrightarrow> ev_pubkey ev \<in> set as"
  shows "event_visible_to_reader ev reader"
proof -
  have none: "\<not> List.member ks (ev_kind ev)" if "\<not> can_match ks f" for ks
    using that assms(5) by (auto simp: can_match_def list_ex_iff split: option.splits)
  have self: "ev_pubkey ev = reader" if "authors_are_self reader f"
    using that assms(3,4,6) by (auto simp: authors_are_self_def list_all_iff split: option.splits)
  have "\<not> p_is_self reader f" using assms(2) by (simp add: p_is_self_def)
  then have "\<not> can_match RESULT_GATED_KINDS f" "\<not> can_match SHARED_GATED_KINDS f"
      "can_match AUTHOR_ONLY_KINDS f \<longrightarrow> authors_are_self reader f"
    using assms(1) by (auto simp: count_needs_rows_def filter_can_match_author_only_kinds_def
        filter_can_match_result_gated_kinds_def filter_can_match_shared_gated_kinds_def
        result_gated_count_safe_for_pushdown_def)
  then have "\<not> List.member RESULT_GATED_KINDS (ev_kind ev)" "\<not> List.member SHARED_GATED_KINDS (ev_kind ev)"
      "List.member AUTHOR_ONLY_KINDS (ev_kind ev) \<longrightarrow> ev_pubkey ev = reader"
    using none self by blast+
  then show ?thesis
    by (simp add: event_visible_to_reader_def is_author_only_event_def is_unshared_gated_event_def
        is_shared_gated_kind_def reader_authorized_for_event_def RESULT_GATED_KINDS_def Let_def)
qed

lemma tag_free_count_sound:
  assumes "tag_free env (rf_base f)" "counts_in_sql f reader" "ascii_lower reader = reader" "stored_ok env r"
    "count_where (scoped_query env c f None (Some accessible) shared) r"
    "\<not> matches_nothing (scoped_query env c f None (Some accessible) shared)"
  shows "r \<in> wanted c reader accessible [f] [r]"
proof -
  let ?f = "rf_base f" and ?ev = "er_event r"
  note q = assms(5) [unfolded count_where_def base_where_def Let_def]
  have row: "er_community r = c" "\<not> er_deleted r" using q by (simp_all add: query_fields)
  have in_some: "x \<in> set xs" if "in_clause (Some xs) x" "xs \<noteq> []" for x and xs :: "'a list"
    using that by (cases xs) (simp_all add: in_clause_def)
  have kinds: "ev_kind ?ev \<in> set ks" if "f_kinds ?f = Some ks" for ks
    using q assms(6) that by (cases ks) (auto simp: query_fields in_clause_def matches_nothing_def is_empty_list_def)
  have authors: "ev_pubkey ?ev \<in> set as" if "f_authors ?f = Some as" for as
    using q assms(1) that by (cases as; cases "tl as") (auto simp: query_fields in_clause_def clause_def tag_free_def)
  have ids: "ev_id ?ev \<in> set is" if "f_ids ?f = Some is" for "is"
    using q assms(1) that by (cases "is") (auto simp: query_fields in_clause_def tag_free_def)
  have created: "er_created_at r = int (ev_created_at ?ev)" using assms(4) by (simp add: stored_ok_def well_stored_def row_columns_def Let_def)
  have since: "t \<le> ev_created_at ?ev" if "f_since ?f = Some t" for t
    using q assms(1) that created by (simp add: query_fields clause_def tag_free_def as_i64_small)
  have until: "ev_created_at ?ev \<le> t" if "f_until ?f = Some t" for t
    using q assms(1) that created by (simp add: query_fields clause_def tag_free_def as_i64_small)
  have "event_visible_to_reader ?ev reader"
    using assms(1-3) kinds authors by (intro tag_free_visible [of ?f]) (auto simp: counts_in_sql_def tag_free_def)
  moreover have "nip01_accepts ?f (er_stored r)"
    using kinds authors ids since until assms(1) by (fastforce simp: nip01_accepts_def Let_def tag_free_def)
  moreover have "\<forall>k. se_channel_id (er_stored r) = Some k \<longrightarrow> k \<in> set accessible"
    using q by (auto simp: query_fields clause_def split: if_splits)
  ultimately show ?thesis using row by (simp add: wanted_def)
qed

lemma fallback_same_rows [simp]: "query_where (apply_count_fallback_limit q) = query_where q"
  by (simp add: fun_eq_iff apply_count_fallback_limit_def query_where_def base_where_def cong: option.case_cong)

text \<open>A fallback that does not give up has looked at every candidate.\<close>

lemma fallback_complete:
  assumes "query_events (apply_count_fallback_limit q) rows = Inr events" "\<not> count_fallback_exceeded (length events)"
    "\<not> matches_nothing q" "eq_offset q = None"
  shows "events = map er_stored (order_rows (filter (query_where q) rows))"
proof -
  have m: "\<not> matches_nothing (apply_count_fallback_limit q)"
    using assms(3) by (simp add: matches_nothing_def apply_count_fallback_limit_def)
  have l: "page_limit (apply_count_fallback_limit q) = 5001" "page_offset (apply_count_fallback_limit q) = 0"
    using assms(4) by (simp_all add: page_limit_def page_offset_def apply_count_fallback_limit_def COUNT_FALLBACK_CANDIDATE_LIMIT_def)
  have "events = map er_stored (take 5001 (order_rows (filter (query_where q) rows)))"
    using assms(1) m l by (simp add: query_events_def split: if_splits)
  moreover from this have "length (order_rows (filter (query_where q) rows)) \<le> 5001"
    using assms(2) by (simp add: count_fallback_exceeded_def COUNT_FALLBACK_CANDIDATE_LIMIT_def)
  ultimately show ?thesis by simp
qed

lemma fallback_nothing:
  "matches_nothing q \<Longrightarrow> query_events (apply_count_fallback_limit q) rows = Inr events \<Longrightarrow> events = []"
  by (auto simp: query_events_def matches_nothing_def apply_count_fallback_limit_def split: if_splits)

lemma count_filter_wanted:
  assumes rows: "\<forall>r \<in> set rows. stored_ok env r" and plain: "plain_filter env (rf_base f)" and ts: "ts_ok (re_ts env)"
    and chan: "\<And>r k. r \<in> wanted c reader accessible [f] rows \<Longrightarrow> channel = Some k \<Longrightarrow> se_channel_id (er_stored r) = Some k"
    and scope: "ids = Some accessible \<or> ids = None \<and> (\<exists>k. channel = Some k \<and> k \<in> set accessible)"
    and res: "count_filter (Some rows) f reader (scoped_query env c f channel ids None) = Inr n"
  shows "wanted_count c reader accessible f rows \<le> n"
    and "\<not> counts_in_sql f reader \<or> tag_free env (rf_base f) \<and> ascii_lower reader = reader \<and> channel = None \<Longrightarrow>
      n = wanted_count c reader accessible f rows"
proof -
  let ?q = "scoped_query env c f channel ids (if filter_can_match_shared_gated_kinds (rf_base f) then Some reader else None)"
  let ?W = "wanted c reader accessible [f] rows"
  have q: "(if filter_can_match_shared_gated_kinds (rf_base f)
      then scoped_query env c f channel ids None\<lparr>eq_shared_gated_reader := Some reader\<rparr> else scoped_query env c f channel ids None) = ?q"
    by (simp add: scoped_query_def)
  have found: "query_where ?q r \<and> \<not> matches_nothing ?q" if r: "r \<in> ?W" for r
  proof (rule accepted_in_query [where reader = reader])
    show "se_channel_id (er_stored r) = Some k" if "channel = Some k" for k using chan r that by blast
  qed (use rows plain ts scope r in \<open>auto simp: wanted_def stored_ok_parts\<close>)
  have fields: "eq_offset ?q = None" "eq_before_id ?q = None" by (simp_all add: query_fields)
  have sql: "n = count_events ?q rows" if "counts_in_sql f reader"
    using res that unfolding count_filter_def Let_def q counts_in_sql_def by simp
  have none_wanted: "wanted_count c reader accessible f rows = 0" if "matches_nothing ?q"
    using found that by (auto simp: wanted_count_def filter_empty_conv)
  have fallback: "n = wanted_count c reader accessible f rows" if slow: "\<not> counts_in_sql f reader"
  proof -
    obtain events where e: "query_events (apply_count_fallback_limit ?q) rows = Inr events"
      "\<not> count_fallback_exceeded (length events)"
      "n = length (filter (\<lambda>se. filters_match [rf_base f] se \<and> event_visible_to_reader (se_event se) reader) events)"
      using res slow unfolding count_filter_def Let_def q counts_in_sql_def by (auto simp: run_query_def split: sum.splits if_splits)
    show ?thesis
    proof (cases "matches_nothing ?q")
      case True
      have "n = 0" using fallback_nothing [OF True e(1)] e(3) by simp
      moreover have "wanted_count c reader accessible f rows = 0" by (rule none_wanted) (rule True)
      ultimately show ?thesis by (rule trans [OF _ sym])
    next
      case False
      have same: "query_where ?q r \<and> filters_match [rf_base f] (er_stored r) \<and> event_visible_to_reader (er_event r) reader \<longleftrightarrow> r \<in> ?W"
        if r: "r \<in> set rows" for r
      proof
        assume l: "query_where ?q r \<and> filters_match [rf_base f] (er_stored r) \<and> event_visible_to_reader (er_event r) reader"
        then have b: "base_where ?q r" by (simp add: query_where_def)
        have "er_community r = c" "\<not> er_deleted r" using b by (simp_all add: base_where_def query_fields)
        moreover have "\<forall>k. se_channel_id (er_stored r) = Some k \<longrightarrow> k \<in> set accessible"
          using scope
        proof (elim disjE conjE exE)
          assume "ids = Some accessible"
          then show ?thesis using b by (auto simp: base_where_def query_fields clause_def split: if_splits)
        next
          fix k assume "channel = Some k" "k \<in> set accessible"
          then show ?thesis using b by (simp add: base_where_def query_fields)
        qed
        ultimately show "r \<in> ?W" using l r by (simp add: wanted_def filters_match_def filter_match_one_iff)
      next
        assume "r \<in> ?W"
        then show "query_where ?q r \<and> filters_match [rf_base f] (er_stored r) \<and> event_visible_to_reader (er_event r) reader"
          using found [of r] by (simp add: wanted_def filters_match_def filter_match_one_iff)
      qed
      have "n = length (filter (\<lambda>r. filters_match [rf_base f] (er_stored r) \<and> event_visible_to_reader (er_event r) reader)
          (filter (query_where ?q) rows))"
        using e(3) unfolding fallback_complete [OF e(1,2) False fields(1)] length_filter_order_rows .
      also have "\<dots> = wanted_count c reader accessible f rows"
        unfolding wanted_count_def filter_filter by (intro arg_cong [where f = length] filter_cong refl) (use same in blast)
      finally show ?thesis .
    qed
  qed
  show "wanted_count c reader accessible f rows \<le> n"
  proof (cases "counts_in_sql f reader")
    case True
    show ?thesis
    proof (cases "matches_nothing ?q")
      case False
      then show ?thesis using found count_where_query_where [OF _ fields(2)] unfolding sql [OF True]
        by (auto simp: count_events_def wanted_count_def intro!: length_filter_le)
    next
      case True
      then show ?thesis using none_wanted [OF True] by linarith
    qed
  qed (simp add: fallback)
  assume exact: "\<not> counts_in_sql f reader \<or> tag_free env (rf_base f) \<and> ascii_lower reader = reader \<and> channel = None"
  show "n = wanted_count c reader accessible f rows"
  proof (cases "counts_in_sql f reader")
    case True
    then have tf: "tag_free env (rf_base f)" "ascii_lower reader = reader" "channel = None" using exact by simp_all
    then have ids: "ids = Some accessible" using scope by simp
    show ?thesis
    proof (cases "matches_nothing ?q")
      case m: False
      have "count_where ?q r \<longleftrightarrow> r \<in> ?W" if r: "r \<in> set rows" for r
      proof
        assume "count_where ?q r"
        then have "r \<in> wanted c reader accessible [f] [r]"
          using tag_free_count_sound [OF tf(1) True tf(2)] rows r m unfolding tf(3) ids by blast
        then show "r \<in> ?W" using r by (simp add: wanted_def)
      qed (use found count_where_query_where [OF _ fields(2)] in blast)
      then show ?thesis unfolding sql [OF True] using m
        by (auto simp: count_events_def wanted_count_def intro!: arg_cong [where f = length] filter_cong)
    next
      case none: True
      then have "count_events ?q rows = 0" by (simp only: count_events_def if_True)
      then show ?thesis using sql [OF True] none_wanted [OF none] by simp
    qed
  qed (simp add: fallback)
qed

lemma values_of_key:
  "distinct (keys m) \<Longrightarrow> concat (map snd (filter (\<lambda>e. fst e = k) m)) = or_empty (hget m k)"
proof (induction m)
  case (Cons e m)
  have "filter (\<lambda>e. fst e = k) m = []" if "k \<notin> fst ` set m"
    using that by (auto simp: filter_empty_conv)
  then show ?case using Cons by (cases e) (auto simp: map_of_eq_None_iff)
qed simp

lemma h_values_hget: "plain_filter env f \<Longrightarrow> h_values f = or_empty (hget (f_tags f) ''h'')"
  by (simp add: h_values_def plain_filter_def values_of_key)

lemma count_query_scoped:
  "build_event_query_from_filter env f c = scoped_query env c f (extract_channel_id_from_filter env (rf_base f)) None None"
  "(build_event_query_from_filter env f c)\<lparr>eq_channel_ids := Some accessible\<rparr> =
     scoped_query env c f (extract_channel_id_from_filter env (rf_base f)) (Some accessible) None"
  by (simp_all add: build_event_query_from_filter_def query_fields)

text \<open>With at most one \<open>#h\<close> value the channel that is checked is the channel that is counted.\<close>

lemma count_channel:
  assumes "plain_filter env f" "length (h_values f) \<le> 1"
  shows "extract_channel_id_from_filter env f = extract_channel_from_filter env f"
proof (cases "h_values f")
  case Nil
  then show ?thesis using h_values_hget [OF assms(1)]
    by (auto simp: extract_channel_id_from_filter_def extract_channel_from_filter_def split: option.splits)
next
  case (Cons v vs)
  then have h: "h_values f = [v]" using assms(2) by simp
  then have "hget (f_tags f) ''h'' = Some [v]" using h_values_hget [OF assms(1)] by (cases "hget (f_tags f) ''h''") auto
  then show ?thesis using h
    by (simp add: extract_channel_id_from_filter_def extract_channel_from_filter_def split: option.splits)
qed

lemma count_filters_wanted:
  assumes rows: "\<forall>r \<in> set rows. stored_ok env r" and ts: "ts_ok (re_ts env)"
    and fresh: "\<forall>ch. ch \<in> set accessible \<longleftrightarrow> channel_readable db (ac_channel_ids ctx) ch"
    and fs: "\<forall>(i, f) \<in> set ifs. qd_rows db i = Some rows \<and> plain_filter env (rf_base f) \<and> length (h_values (rf_base f)) \<le> 1"
    and res: "count_filters env db c ctx ifs accessible tot = Inr n"
  shows "tot + (\<Sum>(i, f) \<leftarrow> ifs. wanted_count c (ac_pubkey ctx) accessible f rows) \<le> n \<and>
    (ascii_lower (ac_pubkey ctx) = ac_pubkey ctx \<and>
     (\<forall>(i, f) \<in> set ifs. \<not> counts_in_sql f (ac_pubkey ctx) \<or> tag_free env (rf_base f)) \<longrightarrow>
     n = tot + (\<Sum>(i, f) \<leftarrow> ifs. wanted_count c (ac_pubkey ctx) accessible f rows))"
  using fs res
proof (induction ifs arbitrary: tot)
  case (Cons entry ifs)
  obtain i f where e: "entry = (i, f)" by fastforce
  let ?f = "rf_base f" and ?reader = "ac_pubkey ctx"
  let ?w = "wanted_count c ?reader accessible f rows"
  have f: "qd_rows db i = Some rows" "plain_filter env ?f" "length (h_values ?f) \<le> 1" using Cons.prems(1) e by auto
  note chan = count_channel [OF f(2,3)]
  have accepted: "se_channel_id (er_stored r) = Some k"
    if r: "r \<in> wanted c ?reader accessible [f] rows" and k: "extract_channel_id_from_filter env ?f = Some k" for r k
  proof -
    obtain v where "hget (f_tags ?f) ''h'' = Some [v]" "re_uuid env v = Some k"
      using k unfolding chan by (auto simp: extract_channel_from_filter_def split: option.splits list.splits)
    then show ?thesis using r rows by (auto simp: wanted_def stored_ok_parts intro!: accepted_channel)
  qed
  have step: "\<exists>m. count_filters env db c ctx ifs accessible (tot + m) = Inr n \<and> ?w \<le> m \<and>
      (ascii_lower ?reader = ?reader \<and> (\<not> counts_in_sql f ?reader \<or> tag_free env ?f) \<longrightarrow> m = ?w)"
  proof (cases "extract_channel_from_filter env ?f")
    case None
    then obtain m where m: "count_filter (Some rows) f ?reader (scoped_query env c f None (Some accessible) None) = Inr m"
      "count_filters env db c ctx ifs accessible (tot + m) = Inr n"
      using Cons.prems(2) e f(1) chan None unfolding count_filters.simps e Let_def count_query_scoped(2) by (auto split: sum.splits)
    then show ?thesis
      using count_filter_wanted [OF rows f(2) ts _ _ m(1)] by blast
  next
    case (Some k)
    then have no_tags: "\<not> tag_free env ?f" by (auto simp: tag_free_def extract_channel_from_filter_def)
    show ?thesis
    proof (cases "k \<in> set accessible")
      case True
      then have "token_allows (ac_channel_ids ctx) k" using fresh by (simp add: channel_readable_def)
      then obtain m where m: "count_filter (Some rows) f ?reader (scoped_query env c f (Some k) None None) = Inr m"
        "count_filters env db c ctx ifs accessible (tot + m) = Inr n"
        using Cons.prems(2) e f(1) chan True Some
        by (auto simp: Let_def count_query_scoped resolve_request_local_access_def split: sum.splits)
      have scope: "None = Some accessible \<or> None = None \<and> (\<exists>k'. Some k = Some k' \<and> k' \<in> set accessible)" using True by simp
      show ?thesis
        using count_filter_wanted [OF rows f(2) ts accepted [unfolded chan Some] scope m(1)] m(2) no_tags by blast
    next
      case False
      then have "\<not> (token_allows (ac_channel_ids ctx) k \<and> qd_is_member db k = Inr True)"
        using fresh by (auto simp: channel_readable_def)
      then have "count_filters env db c ctx ifs accessible (tot + 0) = Inr n"
        using Cons.prems(2) e False Some
        by (cases "qd_is_member db k") (auto simp: Let_def resolve_request_local_access_def split: sum.splits if_splits)
      moreover have "?w = 0"
        using accepted [unfolded chan Some] False by (fastforce simp: wanted_count_def filter_empty_conv wanted_def)
      ultimately show ?thesis by (intro exI [of _ 0]) simp
    qed
  qed
  then show ?case using Cons.IH Cons.prems(1) e by fastforce
qed simp

text \<open>
  COUNT counts every event the reader may see. With fresh membership data, filters of at most one
  channel and no failing query, the number that COUNT answers is at least the number of live events that
  each filter accepts for this reader, summed over the filters; and it is exactly that number when no
  filter that is counted in SQL carries tags. A count that looks at rows never stops short of one.
\<close>

theorem count_covers_wanted:
  assumes admitted: "wc_auth conn = Authenticated ctx" "cached_channels db (ac_channel_ids ctx) = Inr accessible"
    and fresh: "\<forall>ch. ch \<in> set accessible \<longleftrightarrow> channel_readable db (ac_channel_ids ctx) ch"
    and runs: "\<forall>i < length fs. qd_rows db i = Some rows" "ts_ok (re_ts env)"
    and shape: "\<forall>r \<in> set rows. stored_ok env r"
      "\<forall>f \<in> set fs. plain_filter env (rf_base f) \<and> length (h_values (rf_base f)) \<le> 1"
    and answer: "wc_sent (handle_count env db sub fs conn) = wc_sent conn @ [CountMsg sub n]"
  shows "(\<Sum>f \<leftarrow> fs. wanted_count (wc_tenant conn) (ac_pubkey ctx) accessible f rows) \<le> n \<and>
    (ascii_lower (ac_pubkey ctx) = ac_pubkey ctx \<and>
     (\<forall>f \<in> set fs. \<not> counts_in_sql f (ac_pubkey ctx) \<or> tag_free env (rf_base f)) \<longrightarrow>
     n = (\<Sum>f \<leftarrow> fs. wanted_count (wc_tenant conn) (ac_pubkey ctx) accessible f rows))"
proof -
  have "count_filters env db (wc_tenant conn) ctx (enumerate 0 fs) accessible 0 = Inr n"
    using admitted answer by (auto simp: handle_count_def send_msg_facts split: option.splits sum.splits if_splits)
  moreover have "\<forall>(i, f) \<in> set (enumerate 0 fs). qd_rows db i = Some rows \<and> plain_filter env (rf_base f) \<and>
      length (h_values (rf_base f)) \<le> 1"
    using runs(1) shape(2) by (auto simp: in_set_enumerate_eq)
  moreover have "(\<Sum>(i, f) \<leftarrow> enumerate k fs. g f) = (\<Sum>f \<leftarrow> fs. g f :: nat)" for k and g :: "req_filter \<Rightarrow> nat"
    by (induction fs arbitrary: k) auto
  moreover have "(\<forall>(i, f) \<in> set (enumerate 0 fs). P f) \<longleftrightarrow> (\<forall>f \<in> set fs. P f)" for P
  proof -
    have "set (enumerate 0 fs) = (\<lambda>i. (i, fs ! i)) ` {i. i < length fs}"
      by (auto simp: in_set_enumerate_eq)
    then show ?thesis by (auto simp: all_set_conv_all_nth)
  qed
  ultimately show ?thesis
    using count_filters_wanted [OF shape(1) runs(2) fresh, of "enumerate 0 fs" "wc_tenant conn" 0 n] by simp
qed

section \<open>A small relay\<close>

definition read_env :: req_env where
  "read_env = \<lparr>re_uuid = (\<lambda>v. if v = ''c1'' \<or> v = ''c2'' then Some v else None), re_ts = Some\<rparr>"

definition demo_event :: "char \<Rightarrow> nat \<Rightarrow> tag list \<Rightarrow> nostr_event" where
  "demo_event i t tags =
     \<lparr>ev_id = replicate 64 i, ev_pubkey = ''aa'', ev_created_at = t, ev_kind = 9, ev_tags = tags, ev_content = ''hi''\<rparr>"

definition read_row :: "char \<Rightarrow> nat \<Rightarrow> uuid \<Rightarrow> tag list \<Rightarrow> event_row" where
  "read_row i t ch tags = new_row True 0 ''com'' (demo_event i t ([''h'', ch] # tags)) (Some ch) (int t) None"

definition demo_rows :: "event_row list" where
  "demo_rows = [read_row (CHR ''a'') 5 ''c1'' [], read_row (CHR ''b'') 7 ''c2'' [[''e'', ''root'', '''', ''reply'', ''aa'']]]"

definition read_fixture :: "event_row list \<Rightarrow> read_db" where
  "read_fixture rows =
     \<lparr>qd_accessible = Inr [''c1'', ''c2''], qd_is_member = (\<lambda>ch. Inr (ch = ''c1'' \<or> ch = ''c2'')), qd_rows = (\<lambda>_. Some rows),
      qd_search = (\<lambda>_. Inr []), qd_by_ids = (\<lambda>_. None)\<rparr>"

definition demo_ctx :: auth_context where
  "demo_ctx = \<lparr>ac_pubkey = ''bb'', ac_scopes = [MessagesRead], ac_channel_ids = None, ac_agent_owner = None\<rparr>"

definition demo_conn :: "auth_context \<Rightarrow> ws_conn" where
  "demo_conn ctx =
     \<lparr>wc_conn_id = ''k'', wc_tenant = ''com'', wc_auth = Authenticated ctx, wc_subscriptions = [], 
      wc_out = \<lparr>ob_sent = [], ob_tries = 0, ob_takes = (\<lambda>_. SendOk), ob_count = 0, ob_grace = 3, ob_cancelled = False\<rparr>\<rparr>"

definition demo_filter :: "(string, string list) hmap \<Rightarrow> req_filter" where
  "demo_filter tags =
     \<lparr>rf_base = empty_filter\<lparr>f_kinds := Some [9], f_tags := tags\<rparr>, rf_limit = None, rf_search = None\<rparr>"

definition demo_count :: "req_filter list \<Rightarrow> relay_message list" where
  "demo_count fs = wc_sent (handle_count read_env (read_fixture demo_rows) ''s'' fs (demo_conn demo_ctx))"

lemmas read_defs = read_env_def demo_event_def read_row_def demo_rows_def read_fixture_def demo_ctx_def demo_conn_def
  demo_filter_def demo_count_def empty_filter_def

lemmas count_eval =
  handle_count_def count_gates_def p_gated_filters_authorized_def engram_filters_authorized_def author_only_filters_authorized_def
  can_match_def cached_channels_def token_allows_def extract_channel_from_filter_def resolve_request_local_access_def
  count_filter_def filter_can_match_shared_gated_kinds_def filter_fully_pushable_def count_needs_rows_def
  filter_can_match_author_only_kinds_def filter_can_match_result_gated_kinds_def count_events_def matches_nothing_def
  is_empty_list_def build_event_query_from_filter_def filter_to_query_params_def for_community_def
  extract_channel_id_from_filter_def h_values_def count_where_def base_where_def clause_def in_clause_def send_msg_def client_send_def
  SHARED_GATED_KINDS_def AUTHOR_ONLY_KINDS_def RESULT_GATED_KINDS_def P_GATED_KINDS_def kind_consts nip33_only_def
  jsonb_contains_def new_row_def with_received_at_def Let_def

lemmas query_eval =
  run_query_def query_events_def apply_count_fallback_limit_def COUNT_FALLBACK_CANDIDATE_LIMIT_def count_fallback_exceeded_def
  query_where_def page_limit_def page_offset_def DEFAULT_MAX_PAGE_LIMIT_def order_rows_def filters_match_def
  filter_match_one_def tag_constraint_ok_def tag_kind_def tag_content_def event_visible_to_reader_def
  is_author_only_event_def is_unshared_gated_event_def is_shared_gated_kind_def reader_authorized_for_event_def

text \<open>
  COUNT where a filter carries tags. An \<open>#h\<close> value that is no UUID is dropped from the query and every
  channel is counted; of two \<open>#h\<close> values only the first is; an \<open>#e\<close> value that stands anywhere in an
  \<open>e\<close> tag, such as the author of a reply marker, counts as a match.
\<close>

lemma count_of_tags:
  "demo_count [demo_filter []] = [CountMsg ''s'' 2]"
  "demo_count [demo_filter [(''h'', [''c1''])]] = [CountMsg ''s'' 1]"
  "demo_count [demo_filter [(''h'', [''zz''])]] = [CountMsg ''s'' 2]"
  "demo_count [demo_filter [(''h'', [''c1'', ''c2''])]] = [CountMsg ''s'' 1]"
  "demo_count [demo_filter [(''e'', [''aa''])]] = [CountMsg ''s'' 1]"
  by (simp_all add: read_defs count_eval query_eval)

definition demo_req :: "auth_context \<Rightarrow> req_filter \<Rightarrow> relay_message list" where
  "demo_req ctx f = wc_sent (rl_conn (handle_req read_env (read_fixture demo_rows) ''s'' [f]
     \<lparr>rl_conn = demo_conn ctx, rl_registry = registry_new, rl_topics = []\<rparr>))"

lemma rl_conn_register_sub:
  "rl_conn (register_sub sub fs channel st) =
     (rl_conn st)\<lparr>wc_subscriptions := hinsert sub fs (wc_subscriptions (rl_conn st))\<rparr>"
  by (simp add: register_sub_def Let_def split: prod.splits)

lemmas req_eval =
  handle_req_def req_reader_def req_channels_def req_gates_def filters_are_nip43_membership_only_def
  extract_channel_id_from_filters_def historical_results_def historical_query_def per_filter_channel_def
  apply_access_scope_to_query_def event_accepted_def rl_conn_register_sub closing_def handle_search_req_def
  MAX_SUBSCRIPTIONS_def as_i64_def sends_def empty_filter_def

lemma req_answers:
  "demo_req demo_ctx (demo_filter []) = [EventMsg ''s'' (demo_event (CHR ''b'') 7 [[''h'', ''c2''], [''e'', ''root'', '''', ''reply'', ''aa'']]),
     EventMsg ''s'' (demo_event (CHR ''a'') 5 [[''h'', ''c1'']]), EoseMsg ''s'']"
  by (simp add: demo_req_def read_defs count_eval query_eval req_eval)

text \<open>
  A \<open>limit\<close> of \<open>2 ^ 63\<close> or more and an \<open>until\<close> near \<open>2 ^ 64\<close> turn negative as \<open>i64\<close>: the query fails, or
  asks for events before 1970, and the request gets nothing but EOSE.
\<close>

lemma req_limits_wrap:
  "demo_req demo_ctx ((demo_filter [])\<lparr>rf_limit := Some (2 ^ 63)\<rparr>) = [EoseMsg ''s'']"
  "demo_req demo_ctx ((demo_filter [])\<lparr>rf_base := (rf_base (demo_filter []))\<lparr>f_until := Some (2 ^ 64 - 1)\<rparr>\<rparr>) = [EoseMsg ''s'']"
  by (simp_all add: demo_req_def read_defs count_eval query_eval req_eval)

text \<open>A token without the scope to read is refused by REQ and answered by COUNT.\<close>

lemma count_ignores_scope:
  "demo_req (demo_ctx\<lparr>ac_scopes := [MessagesWrite]\<rparr>) (demo_filter []) =
     [NoticeMsg ''restricted: insufficient scope'', ClosedMsg ''s'' ''restricted: insufficient scope'']"
  "wc_sent (handle_count read_env (read_fixture demo_rows) ''s'' [demo_filter []] (demo_conn (demo_ctx\<lparr>ac_scopes := [MessagesWrite]\<rparr>))) =
     [CountMsg ''s'' 2]"
  by (simp_all add: demo_req_def read_defs count_eval query_eval req_eval)

section \<open>How much one request sends\<close>

definition events_sent :: "ws_conn \<Rightarrow> nat" where
  "events_sent conn = length (sent_ids (wc_sent conn))"

lemma events_sent_send:
  "events_sent (snd (send_msg m conn)) \<le> events_sent conn + (case m of EventMsg _ _ \<Rightarrow> 1 | _ \<Rightarrow> 0)"
  "\<not> fst (send_msg m conn) \<Longrightarrow> events_sent (snd (send_msg m conn)) = events_sent conn"
  by (auto simp: events_sent_def send_msg_facts split: relay_message.splits)

lemma events_sent_other: "(\<forall>s ev. m \<noteq> EventMsg s ev) \<Longrightarrow> events_sent (snd (send_msg m conn)) \<le> events_sent conn"
  using events_sent_send(1) [of m conn] by (cases m) auto

lemma deliver_events_bound:
  "deliver_events sub f accessible reader ses seen conn = (ok, seen', conn') \<Longrightarrow>
   events_sent conn' \<le> events_sent conn + length ses"
proof (induction ses arbitrary: seen conn)
  case (Cons se ses)
  obtain sent cn where cn: "send_msg (EventMsg sub (se_event se)) conn = (sent, cn)" by fastforce
  have one: "events_sent cn \<le> events_sent conn + 1" using events_sent_send(1) [of "EventMsg sub (se_event se)" conn] cn by simp
  show ?case
  proof (cases "\<not> event_accepted f accessible reader se \<or> List.member seen (ev_id (se_event se))")
    case True
    then show ?thesis using Cons by (fastforce simp: Let_def)
  next
    case False
    then show ?thesis using Cons.prems one cn
      by (cases sent) (auto simp: Let_def dest: Cons.IH)
  qed
qed simp

lemma deliver_historical_bound:
  assumes "\<forall>(f, res) \<in> set results. \<forall>events. res = Inr events \<longrightarrow> length events \<le> k"
  shows "events_sent (deliver_historical sub accessible reader results seen conn) \<le> events_sent conn + k * length results"
  using assms
proof (induction results arbitrary: seen conn)
  case Nil
  then show ?case using events_sent_other [of "EoseMsg sub" conn] by simp
next
  case (Cons entry rest)
  obtain f res where e: "entry = (f, res)" by fastforce
  show ?case
  proof (cases res)
    case (Inl err)
    then show ?thesis using events_sent_other [of "EoseMsg sub" conn] e by simp
  next
    case (Inr events)
    obtain ok seen1 cn where d: "deliver_events sub f accessible reader events seen conn = (ok, seen1, cn)"
      by (cases "deliver_events sub f accessible reader events seen conn") auto
    have "events_sent cn \<le> events_sent conn + k" using deliver_events_bound [OF d] Cons.prems e Inr by fastforce
    moreover have "events_sent (deliver_historical sub accessible reader rest seen1 cn) \<le> events_sent cn + k * length rest"
      using Cons by simp
    ultimately show ?thesis using e Inr d by (cases ok) auto
  qed
qed

lemma deliver_hits_bound:
  "deliver_hits sub f accessible reader limit events ids emitted seen conn = (ok, emitted', seen', conn') \<Longrightarrow>
   emitted \<le> limit \<Longrightarrow> emitted' \<le> limit \<and> events_sent conn' + emitted \<le> events_sent conn + emitted'"
proof (induction ids arbitrary: emitted seen conn)
  case (Cons i ids)
  show ?case
  proof (cases "emitted \<ge> limit")
    case below: False
    show ?thesis
    proof (cases "List.find (\<lambda>se. ev_id (se_event se) = i) (rev events)")
      case None
      then show ?thesis using Cons below by simp
    next
      case (Some se)
      obtain sent cn where cn: "send_msg (EventMsg sub (se_event se)) conn = (sent, cn)" by fastforce
      have one: "events_sent cn \<le> events_sent conn + 1" "\<not> sent \<longrightarrow> events_sent cn = events_sent conn"
        using events_sent_send [where m = "EventMsg sub (se_event se)" and conn = conn] cn by simp_all
      show ?thesis
      proof (cases "\<not> event_accepted f accessible reader se \<or> List.member seen i")
        case True
        then show ?thesis using Cons below Some by simp
      next
        case False
        show ?thesis
        proof (cases sent)
          case True
          then have "deliver_hits sub f accessible reader limit events ids (emitted + 1) (i # seen) cn = (ok, emitted', seen', conn')"
            using Cons.prems below Some False cn by simp
          then show ?thesis using Cons.IH [where emitted = "emitted + 1"] below one(1) by fastforce
        next
          case sf: False
          then show ?thesis using Cons.prems below Some False cn one(2) by auto
        qed
      qed
    qed
  qed (use Cons.prems in auto)
qed simp

lemma search_pages_bound:
  "search_pages db c text0 scope sub f accessible reader k page emitted seen conn = (ok, seen', conn') \<Longrightarrow>
   emitted \<le> search_limit f \<Longrightarrow> events_sent conn' + emitted \<le> events_sent conn + search_limit f"
proof (induction k arbitrary: page emitted seen conn)
  case (Suc k)
  let ?q = "search_query_of c text0 scope (rf_base f) page"
  show ?case
  proof (cases "emitted \<ge> search_limit f \<or> (\<exists>e. qd_search db ?q = Inl e)")
    case False
    then obtain ids where s: "\<not> emitted \<ge> search_limit f" "qd_search db ?q = Inr ids" by (cases "qd_search db ?q") auto
    show ?thesis
    proof (cases "if ids = [] then Some [] else map_option (get_events_by_ids c ids) (qd_by_ids db ?q)")
      case None
      then show ?thesis using Suc.prems s by (simp add: Let_def)
    next
      case (Some events)
      obtain ok1 emitted1 seen1 cn where d:
        "deliver_hits sub f accessible reader (search_limit f) events ids emitted seen conn = (ok1, emitted1, seen1, cn)"
        by (cases "deliver_hits sub f accessible reader (search_limit f) events ids emitted seen conn") auto
      have one: "emitted1 \<le> search_limit f" "events_sent cn + emitted \<le> events_sent conn + emitted1"
        using deliver_hits_bound [OF d Suc.prems(2)] by simp_all
      show ?thesis
      proof (cases "ok1 \<and> \<not> length ids < SEARCH_PAGE_SIZE")
        case True
        then have "search_pages db c text0 scope sub f accessible reader k (page + 1) emitted1 seen1 cn = (ok, seen', conn')"
          using Suc.prems(1) s Some d by (simp add: Let_def)
        then show ?thesis using Suc.IH [OF _ one(1)] one by fastforce
      next
        case stop: False
        then have "conn' = cn" using Suc.prems(1) s Some d by (auto simp: Let_def split: bool.splits if_splits)
        then show ?thesis using one by simp
      qed
    qed
  next
    case True
    then have "conn' = conn" using Suc.prems(1) by (auto simp: Let_def split: if_splits)
    then show ?thesis using Suc.prems(2) by simp
  qed
qed simp

lemma search_filters_bound:
  "events_sent (search_filters env db c all_channels sub accessible reader fs seen conn) \<le> events_sent conn + 1000 * length fs"
proof (induction fs arbitrary: seen conn)
  case Nil
  then show ?case using events_sent_other [of "EoseMsg sub" conn] by simp
next
  case (Cons f fs)
  let ?go = "\<lambda>fs seen conn. search_filters env db c all_channels sub accessible reader fs seen conn"
  show ?case
  proof (cases "\<exists>text0 scope. rf_search f = Some text0 \<and> text0 \<noteq> [] \<and> search_limit f \<noteq> 0 \<and>
      scope_for env (rf_base f) accessible all_channels = Some scope")
    case False
    then have "?go (f # fs) seen conn = ?go fs seen conn" by (auto split: option.splits)
    then show ?thesis using Cons.IH [of seen conn] by simp
  next
    case True
    then obtain text0 scope where t: "rf_search f = Some text0" "text0 \<noteq> []" "search_limit f \<noteq> 0"
      "scope_for env (rf_base f) accessible all_channels = Some scope" by blast
    obtain ok seen1 cn where d:
      "search_pages db c text0 scope sub f accessible reader MAX_SEARCH_PAGES 1 0 seen conn = (ok, seen1, cn)"
      by (cases "search_pages db c text0 scope sub f accessible reader MAX_SEARCH_PAGES 1 0 seen conn") auto
    have "search_limit f \<le> 1000" by (auto simp: search_limit_def DEFAULT_MAX_PAGE_LIMIT_def split: option.splits)
    then have "events_sent cn \<le> events_sent conn + 1000" using search_pages_bound [OF d] by simp
    then show ?thesis using t d Cons.IH [of seen1 cn] by (cases ok) auto
  qed
qed

lemma query_events_bound:
  "query_events q rows = Inr events \<Longrightarrow> eq_max_limit q = None \<Longrightarrow> length events \<le> 1000"
  by (auto simp: query_events_def page_limit_def DEFAULT_MAX_PAGE_LIMIT_def split: if_splits)

text \<open>
  C25: No request floods a connection: whatever limits its filters ask for, a REQ sends at most 1000 stored
  events per filter, in the historical lane and in the search lane alike.
\<close>

theorem req_answer_is_bounded:
  "events_sent (rl_conn (handle_req env db sub fs st)) \<le> events_sent (rl_conn st) + 1000 * length fs"
proof -
  let ?conn = "rl_conn st" and ?base = "map rf_base fs"
  let ?channel = "extract_channel_id_from_filters env ?base"
  have closing: "events_sent (rl_conn (closing sub msg st)) \<le> events_sent ?conn" for msg
    using events_sent_other [of "ClosedMsg sub msg" ?conn] by (simp add: closing_def)
  show ?thesis
  proof (cases "req_reader sub ?conn")
    case (Inl msgs)
    have "events_sent (sends ms conn) \<le> events_sent conn" if "\<forall>m \<in> set ms. \<forall>s ev. m \<noteq> EventMsg s ev" for ms conn
      using that
    proof (induction ms arbitrary: conn)
      case (Cons m ms)
      have "sends (m # ms) conn = sends ms (snd (send_msg m conn))" by (simp add: sends_def)
      then show ?case
        using events_sent_other [of m conn] Cons.IH [of "snd (send_msg m conn)"] Cons.prems by simp
    qed (simp add: sends_def)
    moreover have "\<forall>m \<in> set msgs. \<forall>s ev. m \<noteq> EventMsg s ev"
      using Inl by (auto simp: req_reader_def split: auth_state.splits if_splits)
    ultimately show ?thesis using Inl by (simp add: handle_req_def Let_def trans_le_add1)
  next
    case (Inr ctx)
    show ?thesis
    proof (cases "req_channels db (ac_channel_ids ctx) ?channel ?base")
      case (Inl msg)
      then show ?thesis using Inr closing [of msg] by (simp add: handle_req_def Let_def)
    next
      case acc: (Inr accessible)
      let ?gates = "if ?channel = None then req_gates ?base (ac_pubkey ctx) else None"
      let ?results = "historical_results env db (wc_tenant ?conn) (ac_pubkey ctx) ?channel accessible fs"
      have "length events \<le> 1000" if res: "(f, Inr events) \<in> set ?results" for f events
      proof -
        obtain i where "run_query (qd_rows db i) (historical_query env (wc_tenant ?conn) (ac_pubkey ctx) ?channel accessible f) = Inr events"
          using res unfolding historical_results_mem by auto
        then obtain rows where "query_events (historical_query env (wc_tenant ?conn) (ac_pubkey ctx) ?channel accessible f) rows = Inr events"
          by (auto simp: run_query_def split: option.splits)
        then show ?thesis by (rule query_events_bound) simp
      qed
      then have "\<forall>(f, res) \<in> set ?results. \<forall>events. res = Inr events \<longrightarrow> length events \<le> 1000" by blast
      then have historical: "events_sent (deliver_historical sub accessible (ac_pubkey ctx) ?results [] (rl_conn (register_sub sub fs ?channel st)))
          \<le> events_sent (rl_conn (register_sub sub fs ?channel st)) + 1000 * length ?results"
        by (rule deliver_historical_bound)
      have len: "length ?results = length fs" by (simp add: historical_results_def)
      have registered: "events_sent (rl_conn (register_sub sub fs ?channel st)) = events_sent ?conn"
        by (simp add: rl_conn_register_sub events_sent_def)
      have search: "events_sent (handle_search_req env db sub fs accessible g (ac_pubkey ctx) ?conn) \<le> events_sent ?conn + 1000 * length fs" for g
        using search_filters_bound events_sent_other [of "EoseMsg sub" ?conn]
        by (auto simp: handle_search_req_def trans_le_add1 split: option.splits)
      show ?thesis
      proof (cases ?gates)
        case None
        then show ?thesis using Inr acc historical registered search closing
          unfolding len by (simp add: handle_req_def Let_def trans_le_add1)
      next
        case (Some msg)
        then show ?thesis using Inr acc closing [of msg] by (simp add: handle_req_def Let_def split: if_splits)
      qed
    qed
  qed
qed

section \<open>The theorems on the small relay\<close>

lemma req_delivers_only_readable_witness:
  "\<exists>ctx se. se_event se = demo_event (CHR ''a'') 5 [[''h'', ''c1'']] \<and> ctx = demo_ctx \<and>
     fetched (read_fixture demo_rows) ''com'' se \<and> may_read (read_fixture demo_rows) ctx se"
proof -
  let ?st = "\<lparr>rl_conn = demo_conn demo_ctx, rl_registry = registry_new, rl_topics = []\<rparr>"
  let ?e = "demo_event (CHR ''a'') 5 [[''h'', ''c1'']]"
  have st: "wc_sent (rl_conn ?st) = []" "wc_auth (rl_conn ?st) = Authenticated demo_ctx" "wc_tenant (rl_conn ?st) = ''com''"
    by (simp_all add: demo_conn_def)
  obtain ms where "wc_sent (rl_conn (handle_req read_env (read_fixture demo_rows) ''s'' [demo_filter []] ?st)) = wc_sent (rl_conn ?st) @ ms"
    "\<forall>s ev. EventMsg s ev \<in> set ms \<longrightarrow> s = ''s'' \<and> (\<exists>ctx se. wc_auth (rl_conn ?st) = Authenticated ctx \<and> se_event se = ev \<and>
       fetched (read_fixture demo_rows) (wc_tenant (rl_conn ?st)) se \<and> may_read (read_fixture demo_rows) ctx se \<and>
       (\<exists>f \<in> set [demo_filter []]. filters_match [rf_base f] se))"
    using req_delivers_only_readable [where env = read_env and db = "read_fixture demo_rows" and sub = "''s''" and
      fs = "[demo_filter []]" and st = ?st] by blast
  note ms = this
  have "ms = demo_req demo_ctx (demo_filter [])" using ms(1) unfolding demo_req_def st(1) append_Nil by (rule sym)
  then have "EventMsg ''s'' ?e \<in> set ms" unfolding req_answers by simp
  then obtain ctx se where "wc_auth (rl_conn ?st) = Authenticated ctx" "se_event se = ?e"
    "fetched (read_fixture demo_rows) (wc_tenant (rl_conn ?st)) se" "may_read (read_fixture demo_rows) ctx se"
    using ms(2) by blast
  then show ?thesis unfolding st by (metis auth_state.inject(2))
qed

lemma demo_rows_stored: "\<forall>r \<in> set demo_rows. stored_ok read_env r"
  by (simp add: read_defs stored_ok_def well_stored_def row_columns_def h_answered_def d_answered_def p_answered_def new_row_def with_received_at_def tag_kind_def tag_content_def extract_d_tag_def
      is_parameterized_replaceable_def kind_consts d_value_def List.map_filter_simps)

lemma demo_filter_plain: "plain_filter read_env (rf_base (demo_filter []))"
  by (simp add: read_defs plain_filter_def h_values_def)

lemma demo_ts_ok: "ts_ok (re_ts read_env)"
  by (simp add: ts_ok_def read_env_def)

lemma req_page_is_complete_witness:
  "\<exists>evs. demo_req demo_ctx (demo_filter []) = map (EventMsg ''s'') evs @ [EoseMsg ''s''] \<and>
     set evs = er_event ` wanted ''com'' ''bb'' [''c1'', ''c2''] [demo_filter []] demo_rows"
proof -
  let ?st = "\<lparr>rl_conn = demo_conn demo_ctx, rl_registry = registry_new, rl_topics = []\<rparr>"
  have none: "extract_channel_id_from_filters read_env (map rf_base [demo_filter []]) = None"
    by (simp add: extract_channel_id_from_filters_def h_values_def demo_filter_def empty_filter_def)
  have "\<exists>evs. wc_sent (rl_conn (handle_req read_env (read_fixture demo_rows) ''s'' [demo_filter []] ?st)) =
        wc_sent (rl_conn ?st) @ map (EventMsg ''s'') evs @ [EoseMsg ''s''] \<and> distinct (map ev_id evs) \<and>
        set evs \<subseteq> er_event ` wanted (wc_tenant (rl_conn ?st)) (ac_pubkey demo_ctx) [''c1'', ''c2''] [demo_filter []] demo_rows \<and>
        er_event ` answered read_env (wc_tenant (rl_conn ?st)) (ac_pubkey demo_ctx) [''c1'', ''c2''] [demo_filter []] demo_rows \<subseteq> set evs"
  proof (rule req_page_is_complete [where db = "read_fixture demo_rows" and env = read_env and ctx = demo_ctx])
    show "req_reader ''s'' (rl_conn ?st) = Inr demo_ctx"
      by (simp add: req_reader_def demo_conn_def demo_ctx_def MAX_SUBSCRIPTIONS_def)
    show "req_channels (read_fixture demo_rows) (ac_channel_ids demo_ctx)
        (extract_channel_id_from_filters read_env (map rf_base [demo_filter []])) (map rf_base [demo_filter []]) = Inr [''c1'', ''c2'']"
      unfolding none by (simp add: req_channels_def read_defs filters_are_nip43_membership_only_def kind_consts cached_channels_def token_allows_def)
    show "extract_channel_id_from_filters read_env (map rf_base [demo_filter []]) = None \<longrightarrow>
        req_gates (map rf_base [demo_filter []]) (ac_pubkey demo_ctx) = None"
      by (simp add: read_defs req_gates_def count_eval)
    show "\<forall>f \<in> set [demo_filter []]. let q = historical_query read_env (wc_tenant (rl_conn ?st)) (ac_pubkey demo_ctx)
          (extract_channel_id_from_filters read_env (map rf_base [demo_filter []])) [''c1'', ''c2''] f
        in int (length (filter (query_where q) demo_rows)) \<le> page_limit q"
      unfolding none by (simp add: read_defs count_eval query_eval req_eval)
  qed (use demo_rows_stored [THEN bspec, THEN stored_ok_parts(1)] demo_filter_plain demo_ts_ok in
      \<open>simp_all add: demo_filter_def demo_conn_def read_fixture_def demo_rows_def read_row_def demo_event_def new_row_def with_received_at_def\<close>)
  moreover have "answered read_env c pk chs [demo_filter []] demo_rows = wanted c pk chs [demo_filter []] demo_rows" for c pk chs
    by (simp add: answered_def answers_tags_def demo_filter_def empty_filter_def)
  ultimately show ?thesis by (auto simp: demo_req_def demo_conn_def demo_ctx_def)
qed

text \<open>
  A note with a stray \<open>h\<close> tag is stored without a channel and an article with two \<open>d\<close> tags under the first
  one: a filter for the channel or for the second \<open>d\<close> tag accepts the event, and the request does not send it.
\<close>

definition stray_row :: event_row where
  "stray_row = new_row True 0 ''com'' ((demo_event (CHR ''a'') 5 [[''h'', ''c1'']])\<lparr>ev_kind := 1\<rparr>) None 5 None"

definition two_d_row :: event_row where
  "two_d_row = new_row True 0 ''com'' ((demo_event (CHR ''a'') 5 [[''d'', ''x''], [''d'', ''y'']])\<lparr>ev_kind := 30023\<rparr>) None 5 (Some ''x'')"

definition tag_filter :: "nat \<Rightarrow> string \<Rightarrow> string \<Rightarrow> req_filter" where
  "tag_filter k t v = (let f = demo_filter [(t, [v])] in f\<lparr>rf_base := (rf_base f)\<lparr>f_kinds := Some [k]\<rparr>\<rparr>)"

definition demo_page :: "req_filter \<Rightarrow> event_row list \<Rightarrow> relay_message list" where
  "demo_page f rows = wc_sent (rl_conn (handle_req read_env (read_fixture rows) ''s'' [f]
     \<lparr>rl_conn = demo_conn demo_ctx, rl_registry = registry_new, rl_topics = []\<rparr>))"

lemma pushed_tags_lose_rows:
  "well_stored read_env stray_row" "well_stored read_env two_d_row"
  "stray_row \<in> wanted ''com'' ''bb'' [''c1'', ''c2''] [tag_filter 1 ''h'' ''c1''] [stray_row]"
  "two_d_row \<in> wanted ''com'' ''bb'' [''c1'', ''c2''] [tag_filter 30023 ''d'' ''y''] [two_d_row]"
  "demo_page (tag_filter 1 ''h'' ''c1'') [stray_row] = [EoseMsg ''s'']"
  "demo_page (tag_filter 30023 ''d'' ''y'') [two_d_row] = [EoseMsg ''s'']"
  by (simp_all add: stray_row_def two_d_row_def tag_filter_def demo_page_def wanted_def filter_match_one_iff [symmetric]
      well_stored_def row_columns_def extract_d_tag_def is_parameterized_replaceable_def new_row_def with_received_at_def
      read_defs count_eval query_eval req_eval kind_consts confirm_channel_def d_value_def List.map_filter_simps)

lemma count_covers_wanted_witness:
  "(\<Sum>f \<leftarrow> [demo_filter []]. wanted_count ''com'' ''bb'' [''c1'', ''c2''] f demo_rows) = 2"
proof -
  have lower: "ascii_lower (ac_pubkey demo_ctx) = ac_pubkey demo_ctx"
    by (simp add: demo_ctx_def ascii_lower_def to_ascii_lower_def ascii_defs)
  have free: "tag_free read_env (rf_base (demo_filter []))" by (simp add: tag_free_def demo_filter_def empty_filter_def)
  have auth: "wc_auth (demo_conn demo_ctx) = Authenticated demo_ctx" by (simp add: demo_conn_def)
  have acc: "cached_channels (read_fixture demo_rows) (ac_channel_ids demo_ctx) = Inr [''c1'', ''c2'']"
    by (simp add: cached_channels_def read_fixture_def demo_ctx_def token_allows_def)
  have fresh: "\<forall>ch. ch \<in> set [''c1'', ''c2''] \<longleftrightarrow> channel_readable (read_fixture demo_rows) (ac_channel_ids demo_ctx) ch"
    by (auto simp: channel_readable_def read_fixture_def demo_ctx_def token_allows_def)
  have rows: "\<forall>i < length [demo_filter []]. qd_rows (read_fixture demo_rows) i = Some demo_rows" by (simp add: read_fixture_def)
  have shape: "\<forall>f \<in> set [demo_filter []]. plain_filter read_env (rf_base f) \<and> length (h_values (rf_base f)) \<le> 1"
    using demo_filter_plain by (simp add: h_values_def demo_filter_def empty_filter_def)
  have answer: "wc_sent (handle_count read_env (read_fixture demo_rows) ''s'' [demo_filter []] (demo_conn demo_ctx)) =
      wc_sent (demo_conn demo_ctx) @ [CountMsg ''s'' 2]"
    using count_of_tags(1) by (simp add: demo_count_def) (simp add: demo_conn_def)
  show ?thesis
    using count_covers_wanted [OF auth acc fresh rows demo_ts_ok demo_rows_stored shape answer] lower free
    by (simp add: demo_conn_def demo_ctx_def)
qed

end
