(* ===== verification/Delivery.thy ===== *)
theory Delivery
  imports ReqHandler IngestPipeline SdkMessages
begin

text \<open>
  Live delivery: the fan-out of an event to the subscribers of this node and the handlers of ephemeral
  events, from \<open>crates/buzz-relay/src/handlers/event.rs\<close>, with the caches of \<open>state.rs\<close>.

  \<^item> \<open>delivery_node\<close> is the part of \<open>AppState\<close> that delivery reads and writes; entries of the
    time-limited caches vanish by the \<open>Evict\<close> steps of \<open>LivePaths\<close>.
  \<^item> \<open>delivery_world\<close> has what is outside: the answers of the database and of Redis, signature
    verification, JSON and key parsing, and the clocks.
  \<^item> A frame on the wire is the \<open>EventMsg\<close> it carries; serialising an event does not fail.
  \<^item> \<open>dispatch_persistent_event\<close> spawns its second half; \<open>dispatch_persistent_event_inner\<close> is that half.
\<close>

section \<open>The node\<close>

record audit_note =
  an_community :: uuid
  an_actor :: "string option"
  an_object :: string
  an_kind :: nat
  an_channel :: "uuid option"

record delivery_world =
  dw_visibility :: "uuid \<Rightarrow> uuid \<Rightarrow> unit + string"
  dw_member :: "uuid \<Rightarrow> uuid \<Rightarrow> string \<Rightarrow> string + bool"
  dw_agent_owner :: "uuid \<Rightarrow> string \<Rightarrow> string \<Rightarrow> unit + bool"
  dw_publish :: "nat \<Rightarrow> bool"
  dw_audit :: "nat \<Rightarrow> bool"
  dw_verify :: "nostr_event \<Rightarrow> verify_outcome"
  dw_json_status :: "string \<Rightarrow> string option"
  dw_pubkey :: "string \<Rightarrow> string option"
  dw_uuid :: "string \<Rightarrow> uuid option"
  dw_relay_pubkey :: string
  dw_instant :: instant
  dw_unix :: int

record delivery_node =
  dn_manager :: "relay_message conn_manager"
  dn_registry :: registry
  dn_local_ids :: "(uuid \<times> string) list"
  dn_members :: "(uuid \<times> uuid \<times> string, bool) hmap"
  dn_visibility :: "(uuid \<times> uuid, string) hmap"
  dn_owners :: "(uuid \<times> string \<times> string, bool) hmap"
  dn_rates :: "(uuid \<times> string, nat \<times> instant) hmap"
  dn_publishes :: "(uuid \<times> uuid option \<times> nostr_event) list"
  dn_presence :: "(uuid \<times> string \<times> string option) list"
  dn_audit :: "audit_note list option"
  dn_workflows :: "(uuid \<times> stored_event) list"

record threaded_channel_visibility =
  tv_community :: uuid
  tv_channel :: uuid
  tv_visibility :: string

definition mark_local_event :: "uuid \<Rightarrow> string \<Rightarrow> delivery_node \<Rightarrow> delivery_node" where
  "mark_local_event c i node = node\<lparr>dn_local_ids := List.insert (c, i) (dn_local_ids node)\<rparr>"

definition unmark_local_event :: "uuid \<Rightarrow> string \<Rightarrow> delivery_node \<Rightarrow> delivery_node" where
  "unmark_local_event c i node = node\<lparr>dn_local_ids := filter (\<lambda>x. x \<noteq> (c, i)) (dn_local_ids node)\<rparr>"

text \<open>The lookups with a cache in front.\<close>

definition is_member_cached ::
  "delivery_world \<Rightarrow> uuid \<Rightarrow> uuid \<Rightarrow> string \<Rightarrow> delivery_node \<Rightarrow> (string + bool) \<times> delivery_node" where
  "is_member_cached w c ch pk node =
     (case hget (dn_members node) (c, ch, pk) of
        Some cached \<Rightarrow> (Inr cached, node)
      | None \<Rightarrow>
          (case dw_member w c ch pk of
             Inl e \<Rightarrow> (Inl e, node)
           | Inr b \<Rightarrow> (Inr b, node\<lparr>dn_members := hinsert (c, ch, pk) b (dn_members node)\<rparr>)))"

definition channel_visibility_cached ::
  "delivery_world \<Rightarrow> uuid \<Rightarrow> uuid \<Rightarrow> string option \<Rightarrow> delivery_node \<Rightarrow> (unit + string) \<times> delivery_node" where
  "channel_visibility_cached w c ch prefetched node =
     (case hget (dn_visibility node) (c, ch) of
        Some cached \<Rightarrow> (Inr cached, node)
      | None \<Rightarrow>
          (case (case prefetched of Some v \<Rightarrow> Inr v | None \<Rightarrow> dw_visibility w c ch) of
             Inl e \<Rightarrow> (Inl e, node)
           | Inr v \<Rightarrow>
               (Inr v, if v = ''private'' then node\<lparr>dn_visibility := hinsert (c, ch) v (dn_visibility node)\<rparr> else node)))"

definition invalidate_membership_local :: "uuid \<Rightarrow> uuid \<Rightarrow> string \<Rightarrow> delivery_node \<Rightarrow> delivery_node" where
  "invalidate_membership_local c ch pk node = node\<lparr>dn_members := hremove (c, ch, pk) (dn_members node)\<rparr>"

definition invalidate_channel_visibility_local :: "uuid \<Rightarrow> uuid \<Rightarrow> delivery_node \<Rightarrow> delivery_node" where
  "invalidate_channel_visibility_local c ch node = node\<lparr>dn_visibility := hremove (c, ch) (dn_visibility node)\<rparr>"

definition invalidate_channel_deleted_local :: "uuid \<Rightarrow> delivery_node \<Rightarrow> delivery_node" where
  "invalidate_channel_deleted_local c node =
     node\<lparr>dn_members := hretain (\<lambda>k v. fst k \<noteq> c) (dn_members node),
          dn_visibility := hretain (\<lambda>k v. fst k \<noteq> c) (dn_visibility node)\<rparr>"

section \<open>The access gate\<close>

definition author_gate :: "stored_event \<Rightarrow> delivery_node \<Rightarrow> sub_ref \<Rightarrow> bool" where
  "author_gate se node x =
     (if List.member AUTHOR_ONLY_KINDS (ev_kind (se_event se))
      then pubkey_for_conn (fst x) (dn_manager node) = Some (ev_pubkey (se_event se)) else True)"

definition shared_gate :: "stored_event \<Rightarrow> delivery_node \<Rightarrow> sub_ref \<Rightarrow> bool" where
  "shared_gate se node x =
     (if is_shared_gated_kind (ev_kind (se_event se))
      then (case pubkey_for_conn (fst x) (dn_manager node) of
              None \<Rightarrow> False
            | Some pk \<Rightarrow> if pk = ev_pubkey (se_event se) then True else \<not> is_unshared_gated_event (se_event se) pk)
      else True)"

fun members_only ::
  "delivery_world \<Rightarrow> uuid \<Rightarrow> uuid \<Rightarrow> sub_ref list \<Rightarrow> delivery_node \<Rightarrow> sub_ref list \<times> delivery_node" where
  "members_only w c ch [] node = ([], node)"
| "members_only w c ch (x # xs) node =
     (case pubkey_for_conn (fst x) (dn_manager node) of
        None \<Rightarrow> members_only w c ch xs node
      | Some pk \<Rightarrow>
          (case is_member_cached w c ch pk node of
             (res, node') \<Rightarrow>
               (case members_only w c ch xs node' of
                  (rest, node'') \<Rightarrow> (if res = Inr True then x # rest else rest, node''))))"

definition filter_fanout_by_access ::
  "delivery_world \<Rightarrow> uuid \<Rightarrow> stored_event \<Rightarrow> sub_ref list \<Rightarrow> threaded_channel_visibility option \<Rightarrow> delivery_node
   \<Rightarrow> sub_ref list \<times> delivery_node" where
  "filter_fanout_by_access w c se matched threaded node =
     (let matched = filter (\<lambda>x. community_for_conn (fst x) (dn_manager node) = Some c) matched;
          matched = filter (author_gate se node) matched;
          matched = filter (shared_gate se node) matched in
      case se_channel_id se of
        None \<Rightarrow> (matched, node)
      | Some ch \<Rightarrow>
          (let fresh = channel_visibility_cached w c ch None node in
           case (case threaded of
                   None \<Rightarrow> fresh
                 | Some t \<Rightarrow> if tv_community t = c \<and> tv_channel t = ch then (Inr (tv_visibility t), node) else fresh) of
             (Inl _, node') \<Rightarrow> ([], node')
           | (Inr v, node') \<Rightarrow> if v \<noteq> ''private'' then (matched, node') else members_only w c ch matched node'))"

section \<open>Fan-out\<close>

fun send_fanout_frames :: "nostr_event \<Rightarrow> sub_ref list \<Rightarrow> delivery_node \<Rightarrow> nat \<times> delivery_node" where
  "send_fanout_frames ev [] node = (0, node)"
| "send_fanout_frames ev ((k, sub) # xs) node =
     (case send_to k (EventMsg sub ev) (dn_manager node) of
        (ok, mgr) \<Rightarrow>
          (case send_fanout_frames ev xs (node\<lparr>dn_manager := mgr\<rparr>) of
             (drops, node') \<Rightarrow> (if ok then drops else drops + 1, node')))"

definition fan_out_event_to_local_subscribers :: "delivery_world \<Rightarrow> uuid \<Rightarrow> stored_event \<Rightarrow> delivery_node \<Rightarrow> delivery_node" where
  "fan_out_event_to_local_subscribers w c se node =
     (case filter_fanout_by_access w c se (fan_out_scoped (dn_registry node) c se) None node of
        (matched, node') \<Rightarrow> if matched = [] then node' else snd (send_fanout_frames (se_event se) matched node'))"

definition fan_out_pubsub_event ::
  "delivery_world \<Rightarrow> uuid \<Rightarrow> uuid option \<Rightarrow> nostr_event \<Rightarrow> delivery_node \<Rightarrow> delivery_node" where
  "fan_out_pubsub_event w c ch ev node =
     (if List.member (dn_local_ids node) (c, ev_id ev) then unmark_local_event c (ev_id ev) node
      else fan_out_event_to_local_subscribers w c (stored_event_new (dw_instant w) ev ch) node)"

definition publish_event :: "delivery_world \<Rightarrow> uuid \<Rightarrow> uuid option \<Rightarrow> nostr_event \<Rightarrow> delivery_node \<Rightarrow> delivery_node" where
  "publish_event w c ch ev node =
     (let node = mark_local_event c (ev_id ev) node;
          sent = node\<lparr>dn_publishes := dn_publishes node @ [(c, ch, ev)]\<rparr> in
      if dw_publish w (length (dn_publishes node)) then sent else unmark_local_event c (ev_id ev) sent)"

definition decode_hex :: "string \<Rightarrow> string option" where
  "decode_hex s = (if even (length s) \<and> list_all is_ascii_hexdigit s then Some (ascii_lower s) else None)"

definition enqueue_event_created_audit ::
  "delivery_world \<Rightarrow> uuid \<Rightarrow> stored_event \<Rightarrow> nat \<Rightarrow> string \<Rightarrow> delivery_node \<Rightarrow> delivery_node" where
  "enqueue_event_created_audit w c se kind actor node =
     (case dn_audit node of
        None \<Rightarrow> node
      | Some entries \<Rightarrow>
          (let note = \<lparr>an_community = c, an_actor = decode_hex actor, an_object = ev_id (se_event se), an_kind = kind,
             an_channel = se_channel_id se\<rparr>
           in if dw_audit w (length entries) then node\<lparr>dn_audit := Some (entries @ [note])\<rparr> else node))"

definition private_event_owner :: "nat \<Rightarrow> nostr_event \<Rightarrow> string option" where
  "private_event_owner kind ev =
     (if kind = KIND_DM_VISIBILITY \<or> kind = KIND_AGENT_TURN_METRIC
      then first_some tag_content (filter (\<lambda>t. tag_kind t = ''p'') (ev_tags ev)) else None)"

definition triggers_workflows :: "delivery_world \<Rightarrow> nat \<Rightarrow> nostr_event \<Rightarrow> bool" where
  "triggers_workflows w kind ev =
     (let is_relay_workflow_msg = ev_pubkey ev = dw_relay_pubkey w \<and>
            list_ex (\<lambda>t. t \<noteq> [] \<and> hd t = ''buzz:workflow'') (ev_tags ev)
      in \<not> is_workflow_execution_kind kind \<and> \<not> is_command_kind kind \<and> \<not> is_relay_workflow_msg \<and> kind \<noteq> KIND_GIFT_WRAP)"

definition dispatch_persistent_event_inner ::
  "delivery_world \<Rightarrow> uuid \<Rightarrow> stored_event \<Rightarrow> nat \<Rightarrow> string \<Rightarrow> bool \<Rightarrow> threaded_channel_visibility option \<Rightarrow> delivery_node
   \<Rightarrow> nat \<times> delivery_node" where
  "dispatch_persistent_event_inner w c se kind actor enqueue_audit threaded node =
     (let ev = se_event se;
          node = publish_event w c (se_channel_id se) ev node in
      case filter_fanout_by_access w c se (fan_out_scoped (dn_registry node) c se) threaded node of
        (matched, node) \<Rightarrow>
          (let recipients = filter (\<lambda>x. case private_event_owner kind ev of
                 None \<Rightarrow> True
               | Some owner \<Rightarrow> pubkey_for_conn (fst x) (dn_manager node) = Some owner) matched;
               node = snd (send_fanout_frames ev recipients node);
               node = (if enqueue_audit then enqueue_event_created_audit w c se kind actor node else node);
               node = (if triggers_workflows w kind ev then node\<lparr>dn_workflows := dn_workflows node @ [(c, se)]\<rparr> else node)
           in (length matched, node)))"

text \<open>The whole dispatch: the audit entry first, then the spawned half.\<close>

definition dispatch_persistent_event ::
  "delivery_world \<Rightarrow> uuid \<Rightarrow> stored_event \<Rightarrow> nat \<Rightarrow> string \<Rightarrow> threaded_channel_visibility option \<Rightarrow> delivery_node \<Rightarrow> delivery_node" where
  "dispatch_persistent_event w c se kind actor threaded node =
     snd (dispatch_persistent_event_inner w c se kind actor False threaded
       (enqueue_event_created_audit w c se kind actor node))"

section \<open>Observer frames\<close>

definition OBSERVER_AGENT_TAG :: string where "OBSERVER_AGENT_TAG = ''agent''"
definition OBSERVER_FRAME_TAG :: string where "OBSERVER_FRAME_TAG = ''frame''"
definition OBSERVER_FRAME_TELEMETRY :: string where "OBSERVER_FRAME_TELEMETRY = ''telemetry''"
definition OBSERVER_FRAME_CONTROL :: string where "OBSERVER_FRAME_CONTROL = ''control''"

datatype observer_direction = Telemetry | Control

record observer_route =
  or_agent :: string
  or_owner :: string
  or_direction :: observer_direction

definition single_tag_content :: "nostr_event \<Rightarrow> string \<Rightarrow> string + string" where
  "single_tag_content ev name =
     (case List.map_filter tag_content (filter (\<lambda>t. tag_kind t = name) (ev_tags ev)) of
        [] \<Rightarrow> Inl (''invalid: observer frame missing '' @ name @ '' tag'')
      | [v] \<Rightarrow> Inr v
      | _ \<Rightarrow> Inl (''invalid: observer frame has multiple '' @ name @ '' tags''))"

definition parse_single_pubkey_tag :: "delivery_world \<Rightarrow> nostr_event \<Rightarrow> string \<Rightarrow> string + string" where
  "parse_single_pubkey_tag w ev name =
     (case single_tag_content ev name of
        Inl e \<Rightarrow> Inl e
      | Inr v \<Rightarrow>
          (case dw_pubkey w v of
             None \<Rightarrow> Inl (''invalid: observer '' @ name @ '' tag must be a hex pubkey'')
           | Some pk \<Rightarrow> Inr pk))"

definition agent_observer_route :: "delivery_world \<Rightarrow> nostr_event \<Rightarrow> string + observer_route option" where
  "agent_observer_route w ev =
     (if \<not> content_looks_like_nip44 (ev_content ev) then Inl ''invalid: observer content must be NIP-44 encrypted''
      else case parse_single_pubkey_tag w ev ''p'' of
        Inl e \<Rightarrow> Inl e
      | Inr recipient \<Rightarrow>
          (case parse_single_pubkey_tag w ev OBSERVER_AGENT_TAG of
             Inl e \<Rightarrow> Inl e
           | Inr agent \<Rightarrow>
               (case single_tag_content ev OBSERVER_FRAME_TAG of
                  Inl e \<Rightarrow> Inl e
                | Inr frame \<Rightarrow>
                    (case (if ev_pubkey ev = agent \<and> recipient \<noteq> agent
                           then Some (recipient, Telemetry, OBSERVER_FRAME_TELEMETRY)
                           else if recipient = agent \<and> ev_pubkey ev \<noteq> agent
                           then Some (ev_pubkey ev, Control, OBSERVER_FRAME_CONTROL)
                           else None) of
                       None \<Rightarrow> Inl ''invalid: observer frame must be agent-to-owner telemetry or owner-to-agent control''
                     | Some (owner, direction, expected) \<Rightarrow>
                         if frame \<noteq> expected then Inr None
                         else Inr (Some \<lparr>or_agent = agent, or_owner = owner, or_direction = direction\<rparr>)))))"

text \<open>The counter is a \<open>u32\<close>, the window one second.\<close>

definition observer_frame_rate_limited :: "instant \<Rightarrow> uuid \<Rightarrow> string \<Rightarrow> delivery_node \<Rightarrow> bool \<times> delivery_node" where
  "observer_frame_rate_limited now c agent node =
     (let (count, window_start) = (case hget (dn_rates node) (c, agent) of None \<Rightarrow> (0, now) | Some e \<Rightarrow> e) in
      if (now - window_start) div 10 ^ 9 \<ge> 1
      then (False, node\<lparr>dn_rates := hinsert (c, agent) (1, now) (dn_rates node)\<rparr>)
      else (let count' = (count + 1) mod 2 ^ 32
            in (count' > 100, node\<lparr>dn_rates := hinsert (c, agent) (count', window_start) (dn_rates node)\<rparr>)))"

section \<open>Events of a client\<close>

text \<open>The client's connection: its id, its tenant and what it authenticated as. Replies go to its own outbox.\<close>

record client =
  cl_conn_id :: conn_id
  cl_tenant :: uuid
  cl_auth :: auth_state

definition reply_ok :: "client \<Rightarrow> string \<Rightarrow> bool \<Rightarrow> string \<Rightarrow> delivery_node \<Rightarrow> delivery_node" where
  "reply_ok cl i ok msg node =
     node\<lparr>dn_manager := snd (send_to (cl_conn_id cl) (OkMsg i ok msg) (dn_manager node))\<rparr>"

text \<open>\<open>i64\<close> subtraction of the release build.\<close>

definition wrap_i64 :: "int \<Rightarrow> int" where
  "wrap_i64 x = (let m = x mod 2 ^ 64 in if m < 2 ^ 63 then m else m - 2 ^ 64)"

text \<open>The owner of the agent: by the session, the cache or the database.\<close>

definition observer_owner_check ::
  "delivery_world \<Rightarrow> client \<Rightarrow> observer_route \<Rightarrow> delivery_node \<Rightarrow> (unit + bool) \<times> delivery_node" where
  "observer_owner_check w cl route node =
     (let key = (cl_tenant cl, or_agent route, or_owner route) in
      if (case cl_auth cl of Authenticated ctx \<Rightarrow> ac_agent_owner ctx = Some (or_owner route) | _ \<Rightarrow> False)
      then (Inr True, node)
      else case hget (dn_owners node) key of
        Some cached \<Rightarrow> (Inr cached, node)
      | None \<Rightarrow>
          (case dw_agent_owner w (cl_tenant cl) (or_agent route) (or_owner route) of
             Inl e \<Rightarrow> (Inl e, node)
           | Inr v \<Rightarrow> (Inr v, node\<lparr>dn_owners := hinsert key v (dn_owners node)\<rparr>)))"

definition handle_agent_observer_event :: "delivery_world \<Rightarrow> nostr_event \<Rightarrow> client \<Rightarrow> delivery_node \<Rightarrow> delivery_node" where
  "handle_agent_observer_event w ev cl node =
     (let i = ev_id ev; c = cl_tenant cl in
      case dw_verify w ev of
        VerifyErr e \<Rightarrow> reply_ok cl i False (''invalid: '' @ e) node
      | VerifyPanicked \<Rightarrow> reply_ok cl i False ''error: internal error'' node
      | VerifyOk \<Rightarrow>
          if \<bar>wrap_i64 (as_i64 (ev_created_at ev) - dw_unix w)\<bar> > 300
          then reply_ok cl i False (''invalid: observer frame timestamp outside '' @ [CHR 0xC2, CHR 0xB1] @ ''5 minute freshness window'') node
          else case agent_observer_route w ev of
            Inl msg \<Rightarrow> reply_ok cl i False msg node
          | Inr None \<Rightarrow> reply_ok cl i True [] node
          | Inr (Some route) \<Rightarrow>
              (case observer_owner_check w cl route node of
                 (Inl _, node) \<Rightarrow> reply_ok cl i False ''error: internal server error'' node
               | (Inr False, node) \<Rightarrow>
                   reply_ok cl i False ''restricted: observer frame is not authorized for this agent owner'' node
               | (Inr True, node) \<Rightarrow>
                   (case (if or_direction route = Telemetry
                          then observer_frame_rate_limited (dw_instant w) c (or_agent route) node else (False, node)) of
                      (True, node) \<Rightarrow> reply_ok cl i False ''rate-limited: observer frame rate exceeded (100/sec per agent)'' node
                    | (False, node) \<Rightarrow>
                        reply_ok cl i True []
                          (fan_out_event_to_local_subscribers w c (stored_event_new (dw_instant w) ev None)
                            (publish_event w c None ev node)))))"

section \<open>Ephemeral events\<close>

definition is_char_start :: "char \<Rightarrow> bool" where
  "is_char_start ch \<longleftrightarrow> \<not> (128 \<le> code_of ch \<and> code_of ch < 192)"

text \<open>The first 128 bytes, back to the start of the character that byte 128 belongs to.\<close>

definition clip_status :: "string \<Rightarrow> string" where
  "clip_status raw =
     (if length raw \<le> 128 then raw
      else take (case List.find (\<lambda>i. is_char_start (raw ! i)) (rev [0..<129]) of None \<Rightarrow> 0 | Some i \<Rightarrow> i) raw)"

definition presence_status :: "delivery_world \<Rightarrow> string \<Rightarrow> string" where
  "presence_status w raw =
     (if starts_with ''{'' raw then (case dw_json_status w raw of None \<Rightarrow> raw | Some st \<Rightarrow> st) else clip_status raw)"

definition record_presence :: "delivery_world \<Rightarrow> nostr_event \<Rightarrow> client \<Rightarrow> string \<Rightarrow> delivery_node \<Rightarrow> delivery_node" where
  "record_presence w ev cl pk node =
     (if ev_kind ev \<noteq> KIND_PRESENCE_UPDATE then node
      else let status = presence_status w (ev_content ev)
           in node\<lparr>dn_presence := dn_presence node @ [(cl_tenant cl, pk, if status = ''offline'' then None else Some status)]\<rparr>)"

text \<open>\<open>check_channel_membership\<close> with the cached membership.\<close>

definition membership_env :: "delivery_world \<Rightarrow> uuid \<Rightarrow> (string + bool) \<Rightarrow> ingest_env" where
  "membership_env w c verdict =
     \<lparr>env_uuid = dw_uuid w, env_hex32 = (\<lambda>_. None), env_datetime = (\<lambda>_. None), env_now = dw_instant w,
      env_event_by_id = (\<lambda>_. Inr None), env_thread_meta = (\<lambda>_. Inr None),
      env_is_member = (\<lambda>_ _. verdict),
      env_channel = (\<lambda>ch. case dw_visibility w c ch of Inl _ \<Rightarrow> Inl [] | Inr v \<Rightarrow> Inr \<lparr>cr_visibility = v, cr_archived = False\<rparr>),
      env_agent_owner = (\<lambda>_ _. Inr False), env_relay_pubkey = dw_relay_pubkey w\<rparr>"

definition ephemeral_membership ::
  "delivery_world \<Rightarrow> uuid \<Rightarrow> uuid \<Rightarrow> string \<Rightarrow> delivery_node \<Rightarrow> (string + unit) \<times> delivery_node" where
  "ephemeral_membership w c ch pk node =
     (case is_member_cached w c ch pk node of
        (verdict, node') \<Rightarrow> (check_channel_membership (membership_env w c verdict) ch pk None, node'))"

definition handle_ephemeral_event :: "delivery_world \<Rightarrow> nostr_event \<Rightarrow> string \<Rightarrow> client \<Rightarrow> delivery_node \<Rightarrow> delivery_node" where
  "handle_ephemeral_event w ev pk cl node =
     (let i = ev_id ev; c = cl_tenant cl;
          deliver = (\<lambda>ch node. reply_ok cl i True []
            (fan_out_event_to_local_subscribers w c (stored_event_new (dw_instant w) ev ch) (publish_event w c ch ev node))) in
      case dw_verify w ev of
        VerifyErr e \<Rightarrow> reply_ok cl i False (''invalid: '' @ e) node
      | VerifyPanicked \<Rightarrow> reply_ok cl i False ''error: internal error'' node
      | VerifyOk \<Rightarrow>
          (let node = record_presence w ev cl pk node in
           case extract_channel_id (membership_env w c (Inr False)) ev of
             Some ch \<Rightarrow>
               (case ephemeral_membership w c ch pk node of
                  (Inl msg, node) \<Rightarrow> reply_ok cl i False msg node
                | (Inr _, node) \<Rightarrow> deliver (Some ch) node)
           | None \<Rightarrow> deliver None node))"

text \<open>
  \<open>handle_event\<close>, with the ingest pipeline of stored events as the argument \<open>ingest\<close>: what it answers and
  what it does to the node.
\<close>

definition handle_event ::
  "delivery_world \<Rightarrow> (nostr_event \<Rightarrow> ingest_auth \<Rightarrow> delivery_node \<Rightarrow> (ingest_error + ingest_result) \<times> delivery_node)
   \<Rightarrow> nostr_event \<Rightarrow> client \<Rightarrow> delivery_node \<Rightarrow> delivery_node" where
  "handle_event w ingest ev cl node =
     (let i = ev_id ev; kind = ev_kind ev in
      case cl_auth cl of
        Authenticated ctx \<Rightarrow>
          (let no_write = ac_scopes ctx \<noteq> [] \<and> \<not> List.member (ac_scopes ctx) MessagesWrite in
           if ev_pubkey ev \<noteq> ac_pubkey ctx \<and> kind \<noteq> KIND_GIFT_WRAP
           then reply_ok cl i False ''invalid: event pubkey does not match authenticated identity'' node
           else if kind = KIND_AUTH then reply_ok cl i False ''invalid: AUTH events cannot be submitted via EVENT'' node
           else if kind = KIND_AGENT_OBSERVER_FRAME
           then (if no_write then reply_ok cl i False ''restricted: insufficient scope for agent observer frames'' node
                 else handle_agent_observer_event w ev cl node)
           else if is_ephemeral kind
           then (if no_write then reply_ok cl i False ''restricted: insufficient scope for ephemeral events'' node
                 else handle_ephemeral_event w ev (ac_pubkey ctx) cl node)
           else (case ingest ev (Nip42 (ac_pubkey ctx) (ac_scopes ctx) (ac_channel_ids ctx) (cl_conn_id cl)) node of
                   (Inr res, node) \<Rightarrow> reply_ok cl (ir_event_id res) (ir_accepted res) (ir_message res) node
                 | (Inl (Rejected m), node) \<Rightarrow> reply_ok cl i False m node
                 | (Inl (AuthFailed m), node) \<Rightarrow> reply_ok cl i False m node
                 | (Inl (Internal _), node) \<Rightarrow> reply_ok cl i False ''error: internal server error'' node
                 | (Inl (Panicked _), node) \<Rightarrow> node))
      | _ \<Rightarrow> reply_ok cl i False ''auth-required: not authenticated'' node)"

end
