(* ===== verification/LivePaths.thy ===== *)
theory LivePaths
  imports Delivery
begin

text \<open>
  What live delivery promises: who gets an event that is fanned out, that a cached visibility never
  opens a channel, that a node's own events are not delivered twice, and what ephemeral events and
  observer frames need before anything is sent.
\<close>

section \<open>What a fan-out sends\<close>

text \<open>The message arrived in the outbox of the connection between the two states.\<close>

definition got :: "delivery_node \<Rightarrow> delivery_node \<Rightarrow> conn_id \<Rightarrow> relay_message \<Rightarrow> bool" where
  "got node node' k m \<longleftrightarrow>
     (\<exists>e e' ms. hget (cm_connections (dn_manager node)) k = Some e \<and> hget (cm_connections (dn_manager node')) k = Some e' \<and>
        ob_sent (ce_out e') = ob_sent (ce_out e) @ ms \<and> m \<in> set ms)"

text \<open>Sending changes outboxes only: the same connections with the same tenants and keys, and longer queues.\<close>

definition grown :: "relay_message conn_entry option \<Rightarrow> relay_message conn_entry option \<Rightarrow> bool" where
  "grown old new \<longleftrightarrow>
     (case old of None \<Rightarrow> new = None
      | Some e \<Rightarrow> \<exists>e' ms. new = Some e' \<and> ce_community e' = ce_community e \<and> ce_pubkey e' = ce_pubkey e \<and>
          ob_sent (ce_out e') = ob_sent (ce_out e) @ ms)"

definition same_conns :: "delivery_node \<Rightarrow> delivery_node \<Rightarrow> bool" where
  "same_conns node node' \<longleftrightarrow>
     (\<forall>k. grown (hget (cm_connections (dn_manager node)) k) (hget (cm_connections (dn_manager node')) k))"

lemma grown_refl [simp]: "grown e e"
  by (simp add: grown_def split: option.splits)

lemma grown_trans: "grown a b \<Longrightarrow> grown b c \<Longrightarrow> grown a c"
  by (auto simp: grown_def split: option.splits)

definition sends_only :: "(conn_id \<Rightarrow> relay_message \<Rightarrow> bool) \<Rightarrow> delivery_node \<Rightarrow> delivery_node \<Rightarrow> bool" where
  "sends_only P node node' \<longleftrightarrow> same_conns node node' \<and> (\<forall>k m. got node node' k m \<longrightarrow> P k m)"

lemma sends_only_frame:
  "dn_manager node' = dn_manager node \<Longrightarrow> sends_only P node node'"
  by (auto simp: sends_only_def same_conns_def got_def)

lemma sends_only_mono: "sends_only P a b \<Longrightarrow> (\<And>k m. P k m \<Longrightarrow> Q k m) \<Longrightarrow> sends_only Q a b"
  by (auto simp: sends_only_def)

lemma same_conns_trans: "same_conns a b \<Longrightarrow> same_conns b c \<Longrightarrow> same_conns a c"
  unfolding same_conns_def using grown_trans by blast

lemma got_trans:
  assumes "same_conns a b" "same_conns b c" "got a c k m"
  shows "got a b k m \<or> got b c k m"
proof -
  obtain e e2 ms where e: "hget (cm_connections (dn_manager a)) k = Some e" "hget (cm_connections (dn_manager c)) k = Some e2"
    "ob_sent (ce_out e2) = ob_sent (ce_out e) @ ms" "m \<in> set ms"
    using assms(3) by (auto simp: got_def)
  have g: "grown (Some e) (hget (cm_connections (dn_manager b)) k)" "grown (hget (cm_connections (dn_manager b)) k) (Some e2)"
    using assms(1,2) e(1,2) unfolding same_conns_def by metis+
  obtain e1 ms1 where 1: "hget (cm_connections (dn_manager b)) k = Some e1" "ob_sent (ce_out e1) = ob_sent (ce_out e) @ ms1"
    using g(1) by (auto simp: grown_def)
  obtain ms2 where 2: "ob_sent (ce_out e2) = ob_sent (ce_out e1) @ ms2"
    using g(2) 1(1) by (auto simp: grown_def)
  have "ms = ms1 @ ms2" using e(3) 1(2) 2 by simp
  then show ?thesis using e 1 2 by (auto simp: got_def)
qed

lemma sends_only_trans: "sends_only P a b \<Longrightarrow> sends_only P b c \<Longrightarrow> sends_only P a c"
  unfolding sends_only_def using same_conns_trans got_trans by blast

lemma send_to_sends: "sends_only (\<lambda>k' m'. k' = k \<and> m' = m) node (node\<lparr>dn_manager := snd (send_to k m (dn_manager node))\<rparr>)"
proof (cases "hget (cm_connections (dn_manager node)) k")
  case None
  then show ?thesis by (intro sends_only_frame) (simp add: send_to_def)
next
  case (Some e)
  obtain ok out where t: "client_send m (ce_out e) = (ok, out)" by fastforce
  have "ob_sent out = ob_sent (ce_out e) @ (if ok then [m] else [])"
    using t by (auto simp: client_send_def Let_def split: send_outcome.splits)
  then show ?thesis using Some t
    by (auto simp: sends_only_def same_conns_def grown_def got_def send_to_def split: option.splits if_splits)
qed

lemma same_conns_lookup:
  "same_conns node node' \<Longrightarrow> pubkey_for_conn k (dn_manager node') = pubkey_for_conn k (dn_manager node)"
  "same_conns node node' \<Longrightarrow> community_for_conn k (dn_manager node') = community_for_conn k (dn_manager node)"
proof -
  assume "same_conns node node'"
  then have "grown (hget (cm_connections (dn_manager node)) k) (hget (cm_connections (dn_manager node')) k)"
    by (simp add: same_conns_def)
  then show "pubkey_for_conn k (dn_manager node') = pubkey_for_conn k (dn_manager node)"
    "community_for_conn k (dn_manager node') = community_for_conn k (dn_manager node)"
    by (auto simp: grown_def pubkey_for_conn_def community_for_conn_def split: option.splits)
qed

lemma send_fanout_sends:
  "sends_only (\<lambda>k m. \<exists>sub. (k, sub) \<in> set xs \<and> m = EventMsg sub ev) node (snd (send_fanout_frames ev xs node))"
proof (induction xs arbitrary: node)
  case Nil
  then show ?case by (simp add: sends_only_frame)
next
  case (Cons x xs)
  obtain k sub where x: "x = (k, sub)" by fastforce
  let ?n = "node\<lparr>dn_manager := snd (send_to k (EventMsg sub ev) (dn_manager node))\<rparr>"
  have "sends_only (\<lambda>k m. \<exists>sub. (k, sub) \<in> set (x # xs) \<and> m = EventMsg sub ev) node ?n"
    by (rule sends_only_mono [OF send_to_sends]) (use x in auto)
  moreover have "sends_only (\<lambda>k m. \<exists>sub. (k, sub) \<in> set (x # xs) \<and> m = EventMsg sub ev) ?n (snd (send_fanout_frames ev xs ?n))"
    by (rule sends_only_mono [OF Cons.IH]) auto
  moreover have "snd (send_fanout_frames ev (x # xs) node) = snd (send_fanout_frames ev xs ?n)"
    using x by (simp split: prod.splits)
  ultimately show ?case using sends_only_trans by simp
qed

section \<open>The access gate\<close>

text \<open>What the lookups say, by the cache or else by the database.\<close>

definition member_says :: "delivery_world \<Rightarrow> delivery_node \<Rightarrow> uuid \<Rightarrow> uuid \<Rightarrow> string \<Rightarrow> bool" where
  "member_says w node c ch pk =
     (case hget (dn_members node) (c, ch, pk) of Some b \<Rightarrow> b | None \<Rightarrow> dw_member w c ch pk = Inr True)"

definition visibility_says ::
  "delivery_world \<Rightarrow> delivery_node \<Rightarrow> uuid \<Rightarrow> uuid \<Rightarrow> threaded_channel_visibility option \<Rightarrow> string option" where
  "visibility_says w node c ch threaded =
     (case threaded of
        Some t \<Rightarrow> if tv_community t = c \<and> tv_channel t = ch then Some (tv_visibility t)
                  else (case fst (channel_visibility_cached w c ch None node) of Inr v \<Rightarrow> Some v | Inl _ \<Rightarrow> None)
      | None \<Rightarrow> (case fst (channel_visibility_cached w c ch None node) of Inr v \<Rightarrow> Some v | Inl _ \<Rightarrow> None))"

text \<open>What the access gate of the fan-out lets through.\<close>

definition passes_gate ::
  "delivery_world \<Rightarrow> delivery_node \<Rightarrow> uuid \<Rightarrow> stored_event \<Rightarrow> threaded_channel_visibility option \<Rightarrow> conn_id \<Rightarrow> bool" where
  "passes_gate w node c se threaded k \<longleftrightarrow>
     (let reader = pubkey_for_conn k (dn_manager node); ev = se_event se in
      community_for_conn k (dn_manager node) = Some c \<and>
      (ev_kind ev \<in> set AUTHOR_ONLY_KINDS \<longrightarrow> reader = Some (ev_pubkey ev)) \<and>
      (ev_kind ev \<in> set SHARED_GATED_KINDS \<longrightarrow> (\<exists>pk. reader = Some pk \<and> \<not> is_unshared_gated_event ev pk)) \<and>
      (\<forall>ch. se_channel_id se = Some ch \<longrightarrow>
         (\<exists>v. visibility_says w node c ch threaded = Some v \<and>
            (v = ''private'' \<longrightarrow> (\<exists>pk. reader = Some pk \<and> member_says w node c ch pk)))))"

lemma is_member_cached_says:
  "is_member_cached w c ch pk node = (res, node') \<Longrightarrow>
   (res = Inr True \<longleftrightarrow> member_says w node c ch pk) \<and> member_says w node' = member_says w node \<and>
   dn_manager node' = dn_manager node \<and> dn_registry node' = dn_registry node"
proof (cases "hget (dn_members node) (c, ch, pk)")
  case None
  assume "is_member_cached w c ch pk node = (res, node')"
  show ?thesis
  proof (cases "dw_member w c ch pk")
    case (Inr b)
    then have n: "res = Inr b" "node' = node\<lparr>dn_members := hinsert (c, ch, pk) b (dn_members node)\<rparr>"
      using \<open>is_member_cached w c ch pk node = (res, node')\<close> None by (simp_all add: is_member_cached_def)
    have "member_says w node' c' ch' pk' = member_says w node c' ch' pk'" for c' ch' pk'
      using None Inr n(2) by (cases "(c', ch', pk') = (c, ch, pk)") (auto simp: member_says_def)
    then show ?thesis using None Inr n by (simp add: fun_eq_iff) (simp add: member_says_def)
  qed (use \<open>is_member_cached w c ch pk node = (res, node')\<close> None in \<open>auto simp: is_member_cached_def member_says_def\<close>)
qed (auto simp: is_member_cached_def member_says_def)

lemma members_only_iff:
  "members_only w c ch xs node = (rs, node') \<Longrightarrow>
   set rs = {x \<in> set xs. \<exists>pk. pubkey_for_conn (fst x) (dn_manager node) = Some pk \<and> member_says w node c ch pk} \<and>
   dn_manager node' = dn_manager node \<and> dn_registry node' = dn_registry node"
proof (induction xs arbitrary: node rs node')
  case (Cons x xs)
  show ?case
  proof (cases "pubkey_for_conn (fst x) (dn_manager node)")
    case None
    then show ?thesis using Cons by auto
  next
    case (Some pk)
    obtain res n where m: "is_member_cached w c ch pk node = (res, n)" by fastforce
    note says = is_member_cached_says [OF m]
    obtain rest n' where r: "members_only w c ch xs n = (rest, n')" by fastforce
    show ?thesis using Cons.prems Cons.IH [OF r] Some m r says by auto
  qed
qed simp

lemma shared_gate_iff:
  "shared_gate se node x \<longleftrightarrow>
     (ev_kind (se_event se) \<in> set SHARED_GATED_KINDS \<longrightarrow>
        (\<exists>pk. pubkey_for_conn (fst x) (dn_manager node) = Some pk \<and> \<not> is_unshared_gated_event (se_event se) pk))"
  by (auto simp: shared_gate_def is_shared_gated_kind_def is_unshared_gated_event_def split: option.splits)

lemma visibility_frame:
  "channel_visibility_cached w c ch p node = (res, node') \<Longrightarrow>
   dn_manager node' = dn_manager node \<and> dn_registry node' = dn_registry node \<and> dn_members node' = dn_members node"
  by (auto simp: channel_visibility_cached_def split: option.splits sum.splits if_splits)

text \<open>The gate keeps exactly the recipients that pass it.\<close>

lemma filter_fanout_iff:
  assumes "filter_fanout_by_access w c se ms threaded node = (rs, node')"
  shows "set rs = {x \<in> set ms. passes_gate w node c se threaded (fst x)} \<and>
    dn_manager node' = dn_manager node \<and> dn_registry node' = dn_registry node"
proof -
  let ?ms = "filter (shared_gate se node) (filter (author_gate se node)
    (filter (\<lambda>x. community_for_conn (fst x) (dn_manager node) = Some c) ms))"
  define G where "G k \<longleftrightarrow> community_for_conn k (dn_manager node) = Some c \<and>
      (ev_kind (se_event se) \<in> set AUTHOR_ONLY_KINDS \<longrightarrow>
         pubkey_for_conn k (dn_manager node) = Some (ev_pubkey (se_event se))) \<and>
      (ev_kind (se_event se) \<in> set SHARED_GATED_KINDS \<longrightarrow>
         (\<exists>pk. pubkey_for_conn k (dn_manager node) = Some pk \<and> \<not> is_unshared_gated_event (se_event se) pk))" for k
  have gates: "set ?ms = {x \<in> set ms. G (fst x)}"
    by (auto simp: author_gate_def shared_gate_iff G_def)
  have ent: "passes_gate w node c se threaded k \<longleftrightarrow> G k \<and> (\<forall>ch. se_channel_id se = Some ch \<longrightarrow>
      (\<exists>v. visibility_says w node c ch threaded = Some v \<and>
         (v = ''private'' \<longrightarrow> (\<exists>pk. pubkey_for_conn k (dn_manager node) = Some pk \<and> member_says w node c ch pk))))" for k
    by (simp add: passes_gate_def G_def Let_def)
  show ?thesis
  proof (cases "se_channel_id se")
    case None
    then have "(?ms, node) = (rs, node')" using assms unfolding filter_fanout_by_access_def Let_def by (simp only: option.case)
    then have "?ms = rs \<and> node = node'" unfolding prod.inject .
    then have "rs = ?ms" "node' = node" by blast+
    then show ?thesis using gates None unfolding ent by simp
  next
    case (Some ch)
    let ?fresh = "channel_visibility_cached w c ch None node"
    let ?vis = "case threaded of None \<Rightarrow> ?fresh
      | Some t \<Rightarrow> if tv_community t = c \<and> tv_channel t = ch then (Inr (tv_visibility t), node) else ?fresh"
    obtain res n where v: "?vis = (res, n)" by fastforce
    have says: "visibility_says w node c ch threaded = (case res of Inr v \<Rightarrow> Some v | Inl _ \<Rightarrow> None)"
      using v by (auto simp: visibility_says_def split: option.splits if_splits)
    have frame: "dn_manager n = dn_manager node" "dn_registry n = dn_registry node" "dn_members n = dn_members node"
      using v visibility_frame [of w c ch None node] by (auto split: option.splits if_splits)
    have members: "member_says w n = member_says w node" using frame(3) by (simp add: member_says_def fun_eq_iff)
    have run: "filter_fanout_by_access w c se ms threaded node =
        (case res of Inl _ \<Rightarrow> ([], n) | Inr v \<Rightarrow> if v \<noteq> ''private'' then (?ms, n) else members_only w c ch ?ms n)"
      using Some v by (simp add: filter_fanout_by_access_def Let_def split: sum.splits)
    show ?thesis
    proof (cases res)
      case (Inl e)
      then show ?thesis using assms run says Some frame unfolding ent by simp
    next
      case (Inr vis)
      show ?thesis
      proof (cases "vis = ''private''")
        case True
        then have "members_only w c ch ?ms n = (rs, node')" using assms run Inr by simp
        from members_only_iff [OF this] show ?thesis
          unfolding gates ent using Inr True says Some frame members by auto
      next
        case False
        then have "(?ms, n) = (rs, node')" using assms unfolding run Inr by (simp only: sum.case if_True not_False_eq_True)
        then have "?ms = rs \<and> n = node'" unfolding prod.inject .
        then have "rs = ?ms" "node' = n" by blast+
        then show ?thesis using gates Inr False says Some frame unfolding ent by simp
      qed
    qed
  qed
qed

section \<open>Who gets a live event\<close>

definition to_admitted ::
  "delivery_world \<Rightarrow> delivery_node \<Rightarrow> uuid \<Rightarrow> stored_event \<Rightarrow> threaded_channel_visibility option \<Rightarrow> conn_id \<Rightarrow> relay_message \<Rightarrow> bool" where
  "to_admitted w node c se threaded k m \<longleftrightarrow>
     (\<exists>sub. m = EventMsg sub (se_event se) \<and> (k, sub) \<in> set (fan_out_scoped (dn_registry node) c se) \<and>
        passes_gate w node c se threaded k)"

lemma local_fanout_sends:
  "sends_only (to_admitted w node c se None) node (fan_out_event_to_local_subscribers w c se node)"
proof -
  obtain rs n where f: "filter_fanout_by_access w c se (fan_out_scoped (dn_registry node) c se) None node = (rs, n)" by fastforce
  note F = filter_fanout_iff [OF f]
  have "sends_only (to_admitted w node c se None) node n" using F by (simp add: sends_only_frame)
  moreover have "sends_only (to_admitted w node c se None) n (snd (send_fanout_frames (se_event se) rs n))"
    by (rule sends_only_mono [OF send_fanout_sends]) (use F in \<open>auto simp: to_admitted_def\<close>)
  ultimately have sent: "sends_only (to_admitted w node c se None) node (snd (send_fanout_frames (se_event se) rs n))"
    by (rule sends_only_trans)
  show ?thesis
  proof (cases "rs = []")
    case True
    then show ?thesis using sent f by (simp add: fan_out_event_to_local_subscribers_def)
  next
    case False
    then show ?thesis using sent f by (simp add: fan_out_event_to_local_subscribers_def)
  qed
qed

lemma passes_gate_frame:
  assumes "dn_manager n = dn_manager node" "dn_members n = dn_members node" "dn_visibility n = dn_visibility node"
  shows "passes_gate w n c se threaded k = passes_gate w node c se threaded k"
proof -
  have vis: "fst (channel_visibility_cached w c ch None n) = fst (channel_visibility_cached w c ch None node)" for ch
    using assms(3) by (simp add: channel_visibility_cached_def split: option.splits sum.splits)
  show ?thesis unfolding passes_gate_def visibility_says_def member_says_def Let_def vis assms(1,2) ..
qed

lemma publish_frame:
  "dn_manager (publish_event w c ch ev node) = dn_manager node"
  "dn_registry (publish_event w c ch ev node) = dn_registry node"
  "dn_members (publish_event w c ch ev node) = dn_members node"
  "dn_visibility (publish_event w c ch ev node) = dn_visibility node"
  by (simp_all add: publish_event_def mark_local_event_def unmark_local_event_def Let_def)

lemma audit_frame:
  "dn_manager (enqueue_event_created_audit w c se kind actor node) = dn_manager node"
  "dn_registry (enqueue_event_created_audit w c se kind actor node) = dn_registry node"
  "dn_members (enqueue_event_created_audit w c se kind actor node) = dn_members node"
  "dn_visibility (enqueue_event_created_audit w c se kind actor node) = dn_visibility node"
  "dn_local_ids (enqueue_event_created_audit w c se kind actor node) = dn_local_ids node"
  by (simp_all add: enqueue_event_created_audit_def Let_def split: option.splits)

text \<open>The recipients of the dispatch: through the gate, and the owner when the event is private and names one.\<close>

definition to_dispatched ::
  "delivery_world \<Rightarrow> delivery_node \<Rightarrow> uuid \<Rightarrow> stored_event \<Rightarrow> nat \<Rightarrow> threaded_channel_visibility option \<Rightarrow> conn_id \<Rightarrow> relay_message \<Rightarrow> bool" where
  "to_dispatched w node c se kind threaded k m \<longleftrightarrow>
     to_admitted w node c se threaded k m \<and>
     (\<forall>owner. private_event_owner kind (se_event se) = Some owner \<longrightarrow> pubkey_for_conn k (dn_manager node) = Some owner)"

lemma inner_sends:
  "sends_only (to_dispatched w node c se kind threaded) node
     (snd (dispatch_persistent_event_inner w c se kind actor au threaded node))"
proof -
  let ?p = "publish_event w c (se_channel_id se) (se_event se) node"
  obtain rs n where f: "filter_fanout_by_access w c se (fan_out_scoped (dn_registry ?p) c se) threaded ?p = (rs, n)" by fastforce
  note F = filter_fanout_iff [OF f]
  let ?owned = "filter (\<lambda>x. case private_event_owner kind (se_event se) of None \<Rightarrow> True
      | Some owner \<Rightarrow> pubkey_for_conn (fst x) (dn_manager n) = Some owner) rs"
  let ?s = "snd (send_fanout_frames (se_event se) ?owned n)"
  have "sends_only (to_dispatched w node c se kind threaded) node n" using F by (simp add: sends_only_frame publish_frame)
  moreover have "sends_only (to_dispatched w node c se kind threaded) n ?s"
    by (rule sends_only_mono [OF send_fanout_sends])
      (use F passes_gate_frame [of ?p node w c se threaded] in
        \<open>auto simp: to_dispatched_def to_admitted_def publish_frame split: option.splits\<close>)
  ultimately have sent: "sends_only (to_dispatched w node c se kind threaded) node ?s"
    by (rule sends_only_trans)
  have "dn_manager (snd (dispatch_persistent_event_inner w c se kind actor au threaded node)) = dn_manager ?s"
    using f by (simp add: dispatch_persistent_event_inner_def Let_def audit_frame)
  from sends_only_trans [OF sent sends_only_frame [OF this]] show ?thesis .
qed

lemma dispatch_sends:
  "sends_only (to_dispatched w node c se kind threaded) node (dispatch_persistent_event w c se kind actor threaded node)"
proof -
  let ?a = "enqueue_event_created_audit w c se kind actor node"
  have "sends_only (to_dispatched w ?a c se kind threaded) ?a (dispatch_persistent_event w c se kind actor threaded node)"
    unfolding dispatch_persistent_event_def by (rule inner_sends)
  then have "sends_only (to_dispatched w node c se kind threaded) ?a (dispatch_persistent_event w c se kind actor threaded node)"
    by (rule sends_only_mono)
      (simp add: to_dispatched_def to_admitted_def audit_frame passes_gate_frame [of ?a node, OF audit_frame(1,3,4)])
  from sends_only_trans [OF sends_only_frame [OF audit_frame(1)] this] show ?thesis .
qed

text \<open>
  The whole policy (\<open>reader_authorized_for_event\<close> and the comments on the fan-out): the gate, and an event
  of a viewer-private kind goes only to a key that its \<open>p\<close> tags name.
\<close>

definition viewer_private :: "nostr_event \<Rightarrow> bool" where
  "viewer_private ev \<longleftrightarrow> ev_kind ev = KIND_DM_VISIBILITY \<or> ev_kind ev = KIND_AGENT_TURN_METRIC"

definition entitled ::
  "delivery_world \<Rightarrow> delivery_node \<Rightarrow> uuid \<Rightarrow> stored_event \<Rightarrow> threaded_channel_visibility option \<Rightarrow> conn_id \<Rightarrow> bool" where
  "entitled w node c se threaded k \<longleftrightarrow>
     passes_gate w node c se threaded k \<and>
     (viewer_private (se_event se) \<longrightarrow>
        (\<exists>pk. pubkey_for_conn k (dn_manager node) = Some pk \<and> reader_authorized_for_event (se_event se) pk))"

definition to_entitled ::
  "delivery_world \<Rightarrow> delivery_node \<Rightarrow> uuid \<Rightarrow> stored_event \<Rightarrow> threaded_channel_visibility option \<Rightarrow> conn_id \<Rightarrow> relay_message \<Rightarrow> bool" where
  "to_entitled w node c se threaded k m \<longleftrightarrow>
     (\<exists>sub. m = EventMsg sub (se_event se) \<and> (k, sub) \<in> set (fan_out_scoped (dn_registry node) c se) \<and>
        entitled w node c se threaded k)"

text \<open>The hole that the code leaves: the owner of a viewer-private event was not asked for.\<close>

definition to_unfenced ::
  "delivery_world \<Rightarrow> delivery_node \<Rightarrow> uuid \<Rightarrow> stored_event \<Rightarrow> threaded_channel_visibility option \<Rightarrow> conn_id \<Rightarrow> relay_message \<Rightarrow> bool" where
  "to_unfenced w node c se threaded k m \<longleftrightarrow> viewer_private (se_event se) \<and> to_admitted w node c se threaded k m"

lemma admitted_cases: "to_admitted w node c se threaded k m \<Longrightarrow> to_entitled w node c se threaded k m \<or> to_unfenced w node c se threaded k m"
  by (auto simp: to_admitted_def to_entitled_def to_unfenced_def entitled_def)

lemma first_some_member: "first_some f xs = Some y \<Longrightarrow> \<exists>x \<in> set xs. f x = Some y"
  by (induction xs) (auto split: option.splits)

lemma owner_is_authorized: "private_event_owner (ev_kind ev) ev = Some owner \<Longrightarrow> reader_authorized_for_event ev owner"
  by (auto simp: private_event_owner_def reader_authorized_for_event_def Let_def list_ex_iff dest!: first_some_member
      split: if_splits)

lemma dispatched_entitled:
  assumes "to_dispatched w node c se (ev_kind (se_event se)) threaded k m"
    "viewer_private (se_event se) \<longrightarrow> private_event_owner (ev_kind (se_event se)) (se_event se) \<noteq> None"
  shows "to_entitled w node c se threaded k m"
  using assms owner_is_authorized
  by (auto simp: to_dispatched_def to_admitted_def to_entitled_def entitled_def)

text \<open>
  C3: A subscription is never enough. On every path of live delivery, the dispatch of a stored event, the
  local fan-out and an event that another node published, a connection gets a frame only for a
  subscription of its own that matches, and only when it is entitled to it: it is bound to the event's
  community, it is the author's for an author-only kind, a kind that is withheld unless shared is shared
  or the author's, for a channel that is not known to be open its key is a member's, and for the two
  viewer-private kinds its key is named by the event. The exceptions are the two holes of the code in the
  last of these, each with all the others in force: a dispatched private event that names nobody, and a
  private event that comes from another node (\<open>private_events_leak_across_nodes\<close>).
\<close>

theorem live_events_reach_only_the_entitled:
  "(got node (dispatch_persistent_event w c se (ev_kind (se_event se)) actor threaded node) k m \<longrightarrow>
      to_entitled w node c se threaded k m \<or>
      private_event_owner (ev_kind (se_event se)) (se_event se) = None \<and> to_unfenced w node c se threaded k m) \<and>
   (got node (fan_out_event_to_local_subscribers w c se node) k m \<longrightarrow>
      to_entitled w node c se None k m \<or> to_unfenced w node c se None k m) \<and>
   (got node (fan_out_pubsub_event w c ch ev node) k m \<longrightarrow>
      to_entitled w node c (stored_event_new (dw_instant w) ev ch) None k m \<or>
      to_unfenced w node c (stored_event_new (dw_instant w) ev ch) None k m)"
proof -
  have dispatched: "to_entitled w node c se threaded k m \<or>
      private_event_owner (ev_kind (se_event se)) (se_event se) = None \<and> to_unfenced w node c se threaded k m"
    if "got node (dispatch_persistent_event w c se (ev_kind (se_event se)) actor threaded node) k m"
  proof -
    have to: "to_dispatched w node c se (ev_kind (se_event se)) threaded k m"
      using dispatch_sends [of w node c se "ev_kind (se_event se)" threaded actor] that unfolding sends_only_def by blast
    then show ?thesis
      using dispatched_entitled [OF to] admitted_cases [of w node c se threaded k m] unfolding to_dispatched_def by blast
  qed
  have unsent: "\<not> got node (unmark_local_event c (ev_id ev) node) k m"
    by (auto simp: got_def unmark_local_event_def)
  have local: "to_admitted w node c x None k m" if "got node (fan_out_event_to_local_subscribers w c x node) k m" for x
    using local_fanout_sends [of w node c x] that unfolding sends_only_def by blast
  show ?thesis
    using dispatched local unsent admitted_cases [of w node c _ None k m]
    unfolding fan_out_pubsub_event_def by (auto split: if_splits)
qed

section \<open>Echoes\<close>

lemma fanout_frame:
  "dn_local_ids (snd (send_fanout_frames ev xs node)) = dn_local_ids node"
  "dn_visibility (snd (send_fanout_frames ev xs node)) = dn_visibility node"
  by (induction xs arbitrary: node) (auto simp: case_prod_unfold)

lemma members_only_frame:
  "dn_local_ids (snd (members_only w c ch xs node)) = dn_local_ids node"
  "dn_visibility (snd (members_only w c ch xs node)) = dn_visibility node"
  by (induction xs arbitrary: node)
    (auto simp: is_member_cached_def case_prod_unfold split: option.splits sum.splits)

lemma filter_local_ids: "dn_local_ids (snd (filter_fanout_by_access w c se ms threaded node)) = dn_local_ids node"
  using members_only_frame(1)
  by (auto simp: filter_fanout_by_access_def channel_visibility_cached_def Let_def split: option.splits sum.splits if_splits)

lemma inner_local_ids:
  "dn_local_ids (snd (dispatch_persistent_event_inner w c se kind actor au threaded node)) =
   dn_local_ids (publish_event w c (se_channel_id se) (se_event se) node)"
  using filter_local_ids [of w c se _ threaded "publish_event w c (se_channel_id se) (se_event se) node"]
  by (auto simp: dispatch_persistent_event_inner_def Let_def audit_frame fanout_frame split: prod.splits) (metis snd_conv)

text \<open>
  A node does not deliver its own events twice. When the event that a node dispatched and published comes
  back over Redis, nobody gets it again and only the mark is used up; an event that is not marked, among
  them the same event of another community, is fanned out.
\<close>

theorem own_echo_is_dropped:
  fixes w w' :: delivery_world and c c' :: uuid and se :: stored_event and kind :: nat and actor :: string
    and audited :: bool and threaded :: "threaded_channel_visibility option" and node :: delivery_node and ch :: "uuid option" and ev :: nostr_event
  assumes "dw_publish w (length (dn_publishes node))"
  defines "node' \<equiv> snd (dispatch_persistent_event_inner w c se kind actor audited threaded node)"
  shows "fan_out_pubsub_event w' c ch (se_event se) node' = unmark_local_event c (ev_id (se_event se)) node' \<and>
    (\<forall>k m. \<not> got node' (fan_out_pubsub_event w' c ch (se_event se) node') k m) \<and>
    ((c', ev_id ev) \<notin> set (dn_local_ids node) \<and> (c', ev_id ev) \<noteq> (c, ev_id (se_event se)) \<longrightarrow>
      fan_out_pubsub_event w' c' ch ev node' =
        fan_out_event_to_local_subscribers w' c' (stored_event_new (dw_instant w') ev ch) node')"
proof -
  have ids: "set (dn_local_ids node') = insert (c, ev_id (se_event se)) (set (dn_local_ids node))"
    using assms(1) unfolding node'_def inner_local_ids by (simp add: publish_event_def mark_local_event_def Let_def)
  then have echo: "fan_out_pubsub_event w' c ch (se_event se) node' = unmark_local_event c (ev_id (se_event se)) node'"
    by (simp add: fan_out_pubsub_event_def)
  have quiet: "\<not> got node' (fan_out_pubsub_event w' c ch (se_event se) node') k m" for k m
    unfolding echo by (auto simp: got_def unmark_local_event_def)
  have "fan_out_pubsub_event w' c' ch ev node' = fan_out_event_to_local_subscribers w' c' (stored_event_new (dw_instant w') ev ch) node'"
    if "(c', ev_id ev) \<notin> set (dn_local_ids node)" "(c', ev_id ev) \<noteq> (c, ev_id (se_event se))"
    using that ids by (auto simp: fan_out_pubsub_event_def)
  then show ?thesis using echo quiet by blast
qed

section \<open>The visibility cache\<close>

text \<open>What touches the cache between two lookups: lookups, invalidations, evictions and deliveries.\<close>

datatype cache_op =
    LookupVisibility delivery_world uuid uuid "string option"
  | ForgetVisibility uuid uuid
  | ForgetCommunity uuid
  | ForgetMember uuid uuid string
  | Evict "uuid \<times> uuid"
  | DeliverLocal delivery_world uuid stored_event
  | DeliverRemote delivery_world uuid "uuid option" nostr_event
  | DispatchStored delivery_world uuid stored_event nat string "threaded_channel_visibility option"

fun cache_step :: "delivery_node \<Rightarrow> cache_op \<Rightarrow> delivery_node" where
  "cache_step node (LookupVisibility w c ch prefetched) = snd (channel_visibility_cached w c ch prefetched node)"
| "cache_step node (ForgetVisibility c ch) = invalidate_channel_visibility_local c ch node"
| "cache_step node (ForgetCommunity c) = invalidate_channel_deleted_local c node"
| "cache_step node (ForgetMember c ch pk) = invalidate_membership_local c ch pk node"
| "cache_step node (Evict k) = node\<lparr>dn_visibility := hremove k (dn_visibility node)\<rparr>"
| "cache_step node (DeliverLocal w c se) = fan_out_event_to_local_subscribers w c se node"
| "cache_step node (DeliverRemote w c ch ev) = fan_out_pubsub_event w c ch ev node"
| "cache_step node (DispatchStored w c se kind actor threaded) = dispatch_persistent_event w c se kind actor threaded node"

definition only_private :: "delivery_node \<Rightarrow> bool" where
  "only_private node \<longleftrightarrow> (\<forall>x \<in> set (dn_visibility node). snd x = ''private'')"

lemma set_hinsert_subset: "set (hinsert k v m) \<subseteq> insert (k, v) (set m)"
  by (induction m) auto

lemma only_private_lookup:
  "only_private node \<Longrightarrow> only_private (snd (channel_visibility_cached w c ch p node))"
  using set_hinsert_subset [of "(c, ch)" "''private''" "dn_visibility node"]
  by (auto simp: only_private_def channel_visibility_cached_def split: option.splits sum.splits)

lemma only_private_frame: "dn_visibility n = dn_visibility node \<Longrightarrow> only_private n = only_private node"
  by (simp add: only_private_def)

lemma only_private_filter:
  assumes "only_private node"
  shows "only_private (snd (filter_fanout_by_access w c se ms threaded node))"
proof (cases "se_channel_id se")
  case None
  then show ?thesis using assms by (simp add: filter_fanout_by_access_def Let_def)
next
  case (Some ch)
  let ?fresh = "channel_visibility_cached w c ch None node"
  obtain res n where v: "(case threaded of None \<Rightarrow> ?fresh
      | Some t \<Rightarrow> if tv_community t = c \<and> tv_channel t = ch then (Inr (tv_visibility t), node) else ?fresh) = (res, n)"
    by fastforce
  have "only_private n"
    using v assms only_private_lookup [OF assms, of w c ch None] by (auto split: option.splits if_splits)
  then have "only_private (snd (members_only w c ch xs n))" for xs
    using only_private_frame [OF members_only_frame(2)] by simp
  then show ?thesis
    using \<open>only_private n\<close> Some v unfolding filter_fanout_by_access_def Let_def by (simp split: sum.splits)
qed

lemma only_private_local:
  assumes "only_private node"
  shows "only_private (fan_out_event_to_local_subscribers w c se node)"
proof -
  obtain rs n where f: "filter_fanout_by_access w c se (fan_out_scoped (dn_registry node) c se) None node = (rs, n)" by fastforce
  have "only_private n" using only_private_filter [OF assms, of w c se "fan_out_scoped (dn_registry node) c se" None] f by simp
  then show ?thesis using f only_private_frame [OF fanout_frame(2)] by (auto simp: fan_out_event_to_local_subscribers_def)
qed

lemma inner_visibility:
  "dn_visibility (snd (dispatch_persistent_event_inner w c se kind actor au threaded node)) =
   (let p = publish_event w c (se_channel_id se) (se_event se) node
    in dn_visibility (snd (filter_fanout_by_access w c se (fan_out_scoped (dn_registry p) c se) threaded p)))"
proof -
  obtain p where p: "publish_event w c (se_channel_id se) (se_event se) node = p" by simp
  obtain rs n where f: "filter_fanout_by_access w c se (fan_out_scoped (dn_registry p) c se) threaded p = (rs, n)" by fastforce
  show ?thesis unfolding dispatch_persistent_event_inner_def Let_def p f prod.case snd_conv by (simp add: audit_frame fanout_frame)
qed

lemma only_private_dispatch:
  assumes "only_private node"
  shows "only_private (dispatch_persistent_event w c se kind actor threaded node)"
proof -
  have "only_private (publish_event w c (se_channel_id se) (se_event se) (enqueue_event_created_audit w c se kind actor node))"
    using assms by (simp add: only_private_def publish_frame audit_frame)
  from only_private_filter [OF this] show ?thesis
    unfolding dispatch_persistent_event_def only_private_def inner_visibility Let_def .
qed

lemma only_private_step: "only_private node \<Longrightarrow> only_private (cache_step node op)"
proof (cases op)
  case (LookupVisibility w c ch p)
  then show "only_private node \<Longrightarrow> ?thesis" by (simp add: only_private_lookup)
next
  case (DeliverRemote w c ch ev)
  then show "only_private node \<Longrightarrow> ?thesis"
    using only_private_local by (simp add: fan_out_pubsub_event_def) (simp add: unmark_local_event_def only_private_def)
next
  case (DeliverLocal w c se)
  then show "only_private node \<Longrightarrow> ?thesis" by (simp add: only_private_local)
next
  case (DispatchStored w c se kind actor threaded)
  then show "only_private node \<Longrightarrow> ?thesis" by (simp add: only_private_dispatch)
next
  case (ForgetCommunity c)
  then show "only_private node \<Longrightarrow> ?thesis" by (auto simp: only_private_def invalidate_channel_deleted_local_def hretain_def)
qed (auto simp: only_private_def invalidate_channel_visibility_local_def
    invalidate_membership_local_def set_remove_entries)

interpretation visibility: machine cache_step only_private
  by unfold_locales (rule only_private_step)

text \<open>
  C15: The cache of channel visibilities only ever closes a channel. Whatever lookups, deliveries,
  invalidations and evictions came before, and whatever values callers prefetched, a lookup that does not
  answer \<open>private\<close> is what the database says now; so a channel that was made private is open to nobody
  from then on, on no node, while a channel that was opened may stay private until its entry is gone.
\<close>

theorem cached_visibility_never_opens:
  assumes "dn_visibility node = []"
    and "channel_visibility_cached w c ch None (foldl cache_step node ops) = (Inr v, node')"
    and "v \<noteq> ''private''"
  shows "dw_visibility w c ch = Inr v \<and> node' = foldl cache_step node ops"
proof -
  have "only_private (foldl cache_step node ops)"
    by (rule visibility.run_inv) (simp add: only_private_def assms(1))
  then have "hget (dn_visibility (foldl cache_step node ops)) (c, ch) \<noteq> Some v"
    using assms(3) map_of_SomeD by (fastforce simp: only_private_def)
  then show ?thesis
    using assms(2,3)
    by (auto simp: channel_visibility_cached_def split: option.splits sum.splits)
qed

section \<open>The rate of observer frames\<close>

text \<open>The verdicts on a run of frames of one agent, \<open>True\<close> for a refused frame.\<close>

fun rate_run :: "uuid \<Rightarrow> string \<Rightarrow> instant list \<Rightarrow> delivery_node \<Rightarrow> bool list" where
  "rate_run c agent [] node = []"
| "rate_run c agent (t # ts) node =
     (case observer_frame_rate_limited t c agent node of (limited, node') \<Rightarrow> limited # rate_run c agent ts node')"

definition passed :: "bool list \<Rightarrow> nat" where
  "passed verdicts = length (filter Not verdicts)"

lemma passed_simps [simp]: "passed [] = 0" "passed (b # bs) = (if b then passed bs else Suc (passed bs))"
  by (simp_all add: passed_def)

lemma rate_entry:
  "hget (dn_rates node) (c, agent) = Some (cnt, ws) \<Longrightarrow> observer_frame_rate_limited t c agent node =
     (if 10 ^ 9 \<le> t - ws then (False, node\<lparr>dn_rates := hinsert (c, agent) (1, t) (dn_rates node)\<rparr>)
      else ((cnt + 1) mod 2 ^ 32 > 100, node\<lparr>dn_rates := hinsert (c, agent) ((cnt + 1) mod 2 ^ 32, ws) (dn_rates node)\<rparr>))"
  by (simp add: observer_frame_rate_limited_def Let_def less_eq_div_iff_mult_less_eq)

text \<open>Inside a window that stands at \<open>cnt\<close> frames.\<close>

lemma rate_run_window:
  assumes "hget (dn_rates node) (c, agent) = Some (cnt, ws)" "\<forall>t \<in> set ts. t - ws < 10 ^ 9" "cnt + length ts < 2 ^ 32"
  shows "passed (rate_run c agent ts node) = min (length ts) (100 - cnt)"
  using assms
proof (induction ts arbitrary: node cnt)
  case (Cons t ts)
  let ?n = "node\<lparr>dn_rates := hinsert (c, agent) (cnt + 1, ws) (dn_rates node)\<rparr>"
  have "(cnt + 1) mod 2 ^ 32 = cnt + 1" using Cons.prems(3) by simp
  then have "observer_frame_rate_limited t c agent node = (cnt + 1 > 100, ?n)"
    using Cons.prems(1,2) by (simp add: rate_entry)
  moreover have "passed (rate_run c agent ts ?n) = min (length ts) (100 - (cnt + 1))"
    using Cons.prems by (intro Cons.IH) auto
  ultimately show ?case by (auto simp: min_def)
qed simp

text \<open>The first frame of an agent, and any frame after the window, opens a window at one.\<close>

lemma rate_run_fresh:
  assumes "case hget (dn_rates node) (c, agent) of None \<Rightarrow> True | Some (cnt, ws) \<Rightarrow> 10 ^ 9 \<le> t - ws"
    and "\<forall>u \<in> set ts. u - t < 10 ^ 9" "Suc (length ts) < 2 ^ 32"
  shows "passed (rate_run c agent (t # ts) node) = min (Suc (length ts)) 100"
proof -
  let ?n = "node\<lparr>dn_rates := hinsert (c, agent) (1, t) (dn_rates node)\<rparr>"
  have "observer_frame_rate_limited t c agent node = (False, ?n)"
    using assms(1) by (cases "hget (dn_rates node) (c, agent)")
      (auto simp: rate_entry observer_frame_rate_limited_def Let_def)
  moreover have "passed (rate_run c agent ts ?n) = min (length ts) (100 - 1)"
    using assms(2,3) by (intro rate_run_window) auto
  ultimately show ?thesis by (auto simp: min_def)
qed

lemma rate_run_append_window:
  assumes "hget (dn_rates node) (c, agent) = Some (cnt, ws)" "\<forall>t \<in> set ts. t - ws < 10 ^ 9" "10 ^ 9 \<le> t - ws"
    and "\<forall>u \<in> set us. u - t < 10 ^ 9" "cnt + length (ts @ t # us) < 2 ^ 32"
  shows "passed (rate_run c agent (ts @ t # us) node) = min (length ts) (100 - cnt) + min (Suc (length us)) 100"
  using assms
proof (induction ts arbitrary: node cnt)
  case Nil
  then show ?case using rate_run_fresh [where node = node and c = c and agent = agent and t = t and ts = us] by simp
next
  case (Cons v ts)
  let ?n = "node\<lparr>dn_rates := hinsert (c, agent) (cnt + 1, ws) (dn_rates node)\<rparr>"
  have "(cnt + 1) mod 2 ^ 32 = cnt + 1" using Cons.prems(5) by simp
  then have "observer_frame_rate_limited v c agent node = (cnt + 1 > 100, ?n)"
    using Cons.prems(1,2) by (simp add: rate_entry)
  moreover have "passed (rate_run c agent (ts @ t # us) ?n) = min (length ts) (100 - (cnt + 1)) + min (Suc (length us)) 100"
    using Cons.prems by (intro Cons.IH) auto
  ultimately show ?case by (auto simp: min_def)
qed

text \<open>
  C29: How many telemetry frames of an agent the relay passes on: exactly one hundred of those in the second
  that an agent's first frame opens, and never more than two hundred in any second, whatever
  frames came before, as long as the counter of the window is below its width.
\<close>

theorem observer_frame_rate_is_bounded:
  assumes "sorted (t # ts)" "\<forall>u \<in> set ts. u - t < 10 ^ 9"
    and "(case hget (dn_rates node) (c, agent) of None \<Rightarrow> 0 | Some e \<Rightarrow> fst e) + length (t # ts) < 2 ^ 32"
  shows "passed (rate_run c agent (t # ts) node) \<le> 200 \<and>
    (hget (dn_rates node) (c, agent) = None \<longrightarrow> passed (rate_run c agent (t # ts) node) = min (length (t # ts)) 100)"
proof (cases "hget (dn_rates node) (c, agent)")
  case None
  have "passed (rate_run c agent (t # ts) node) = min (Suc (length ts)) 100"
    using assms(2,3) None by (intro rate_run_fresh) auto
  then show ?thesis by simp
next
  case (Some e)
  obtain cnt ws where e: "e = (cnt, ws)" by fastforce
  let ?in = "\<lambda>u. u - ws < (10 ^ 9 :: nat)"
  show ?thesis
  proof (cases "dropWhile ?in (t # ts)")
    case Nil
    then have "\<forall>u \<in> set (t # ts). ?in u" by (simp only: dropWhile_eq_Nil_conv)
    then have "passed (rate_run c agent (t # ts) node) = min (length (t # ts)) (100 - cnt)"
      using assms(3) Some e by (intro rate_run_window) auto
    then show ?thesis using Some by simp
  next
    case (Cons v us)
    have split: "t # ts = takeWhile ?in (t # ts) @ v # us" using takeWhile_dropWhile_id [of ?in "t # ts"] Cons by simp
    have out: "10 ^ 9 \<le> v - ws" using Cons hd_dropWhile [of ?in "t # ts"] by (simp del: dropWhile.simps)
    have members: "set (t # ts) = set (takeWhile ?in (t # ts)) \<union> set (v # us)" by (subst split) simp
    then have "v \<in> set (t # ts)" "set us \<subseteq> set (t # ts)" by (auto simp del: takeWhile.simps)
    then have near: "\<forall>u \<in> set us. u - v < 10 ^ 9" using assms(1,2) by fastforce
    have len: "cnt + length (takeWhile ?in (t # ts) @ v # us) < 2 ^ 32"
      using assms(3) Some e unfolding split [symmetric] by simp
    have "passed (rate_run c agent (takeWhile ?in (t # ts) @ v # us) node) =
        min (length (takeWhile ?in (t # ts))) (100 - cnt) + min (Suc (length us)) 100"
      using Some e out near len by (intro rate_run_append_window) (auto dest: set_takeWhileD simp del: takeWhile.simps)
    then have "passed (rate_run c agent (t # ts) node) \<le> 200" unfolding split [symmetric] by linarith
    then show ?thesis using Some by simp
  qed
qed

section \<open>What a client needs\<close>

text \<open>Something of the event went out: it was published, or a connection got a frame of it.\<close>

definition went_out :: "delivery_node \<Rightarrow> delivery_node \<Rightarrow> bool" where
  "went_out node node' \<longleftrightarrow> dn_publishes node' \<noteq> dn_publishes node \<or> (\<exists>k sub e. got node node' k (EventMsg sub e))"

lemma reply_sends: "sends_only (\<lambda>k' m. k' = cl_conn_id cl \<and> m = OkMsg i ok msg) node (reply_ok cl i ok msg node)"
  using send_to_sends [of "cl_conn_id cl" "OkMsg i ok msg" node] by (simp add: reply_ok_def)

lemma reply_publishes [simp]: "dn_publishes (reply_ok cl i ok msg node) = dn_publishes node"
  by (simp add: reply_ok_def)

text \<open>A reply is no event, and changes of the node beside its connections and publications do not matter.\<close>

definition silent :: "delivery_node \<Rightarrow> delivery_node \<Rightarrow> bool" where
  "silent node node' \<longleftrightarrow> dn_manager node' = dn_manager node \<and> dn_publishes node' = dn_publishes node"

lemma not_out_reply: "silent node n \<Longrightarrow> \<not> went_out node (reply_ok cl i ok msg n)"
proof -
  assume s: "silent node n"
  have "sends_only (\<lambda>k' m. k' = cl_conn_id cl \<and> m = OkMsg i ok msg) node (reply_ok cl i ok msg n)"
    using sends_only_trans [OF sends_only_frame reply_sends] s by (simp add: silent_def)
  then show ?thesis using s by (auto simp: went_out_def sends_only_def silent_def)
qed

lemma silent_refl [simp]: "silent node node"
  by (simp add: silent_def)

lemma silent_presence [simp]: "silent node (record_presence w ev cl pk node)"
  by (simp add: silent_def record_presence_def Let_def)

lemma silent_member: "is_member_cached w c ch pk node = (res, n) \<Longrightarrow> silent node n"
  by (auto simp: is_member_cached_def silent_def split: option.splits sum.splits)

lemma silent_owner: "observer_owner_check w cl route node = (res, n) \<Longrightarrow> silent node n"
  by (auto simp: observer_owner_check_def silent_def Let_def split: option.splits sum.splits auth_state.splits if_splits)

lemma silent_rate: "observer_frame_rate_limited t c agent node = (res, n) \<Longrightarrow> silent node n"
  by (auto simp: observer_frame_rate_limited_def silent_def Let_def split: option.splits prod.splits if_splits)

lemma silent_trans: "silent a b \<Longrightarrow> silent b c \<Longrightarrow> silent a c"
  by (simp add: silent_def)

text \<open>What an observer frame and an ephemeral event need beside a valid signature.\<close>

definition observer_licence :: "delivery_world \<Rightarrow> nostr_event \<Rightarrow> client \<Rightarrow> delivery_node \<Rightarrow> observer_route \<Rightarrow> bool" where
  "observer_licence w ev cl node route \<longleftrightarrow>
     \<bar>wrap_i64 (as_i64 (ev_created_at ev) - dw_unix w)\<bar> \<le> 300 \<and>
     content_looks_like_nip44 (ev_content ev) \<and>
     or_agent route \<noteq> or_owner route \<and>
     ev_pubkey ev = (if or_direction route = Telemetry then or_agent route else or_owner route) \<and>
     parse_single_pubkey_tag w ev ''p'' = Inr (if or_direction route = Telemetry then or_owner route else or_agent route) \<and>
     fst (observer_owner_check w cl route node) = Inr True"

definition channel_licence :: "delivery_world \<Rightarrow> nostr_event \<Rightarrow> string \<Rightarrow> client \<Rightarrow> delivery_node \<Rightarrow> bool" where
  "channel_licence w ev pk cl node \<longleftrightarrow>
     (\<forall>ch. extract_channel_id (membership_env w (cl_tenant cl) (Inr False)) ev = Some ch \<longrightarrow>
        member_says w node (cl_tenant cl) ch pk \<or> dw_visibility w (cl_tenant cl) ch = Inr ''open'')"

text \<open>What a stored event would need as well: the channels of a restricted token.\<close>

definition ephemeral_licence :: "delivery_world \<Rightarrow> nostr_event \<Rightarrow> auth_context \<Rightarrow> client \<Rightarrow> delivery_node \<Rightarrow> bool" where
  "ephemeral_licence w ev ctx cl node \<longleftrightarrow>
     channel_licence w ev (ac_pubkey ctx) cl node \<and>
     (\<forall>ids. ac_channel_ids ctx = Some ids \<longrightarrow>
        (\<exists>ch \<in> set ids. extract_channel_id (membership_env w (cl_tenant cl) (Inr False)) ev = Some ch))"

lemma agent_observer_route_sound:
  assumes "agent_observer_route w ev = Inr (Some route)"
  shows "content_looks_like_nip44 (ev_content ev) \<and> or_agent route \<noteq> or_owner route \<and>
    ev_pubkey ev = (if or_direction route = Telemetry then or_agent route else or_owner route) \<and>
    parse_single_pubkey_tag w ev ''p'' = Inr (if or_direction route = Telemetry then or_owner route else or_agent route)"
  using assms by (auto simp: agent_observer_route_def split: if_splits sum.splits)

lemma observer_out:
  assumes "went_out node (handle_agent_observer_event w ev cl node)"
  shows "dw_verify w ev = VerifyOk \<and> (\<exists>route. observer_licence w ev cl node route)"
proof (rule ccontr)
  assume no: "\<not> ?thesis"
  have "\<not> went_out node (handle_agent_observer_event w ev cl node)"
  proof (cases "dw_verify w ev = VerifyOk \<and> \<bar>wrap_i64 (as_i64 (ev_created_at ev) - dw_unix w)\<bar> \<le> 300")
    case False
    then show ?thesis
      by (auto simp: handle_agent_observer_event_def Let_def not_out_reply split: verify_outcome.splits)
  next
    case True
    show ?thesis
    proof (cases "agent_observer_route w ev")
      case (Inl msg)
      then show ?thesis using True by (simp add: handle_agent_observer_event_def Let_def not_out_reply)
    next
      case (Inr found)
      show ?thesis
      proof (cases found)
        case None
        then show ?thesis using True Inr by (simp add: handle_agent_observer_event_def Let_def not_out_reply)
      next
        case (Some route)
        obtain res n where o: "observer_owner_check w cl route node = (res, n)" by fastforce
        have "res \<noteq> Inr True"
          using no True agent_observer_route_sound [of w ev route] Inr Some o by (auto simp: observer_licence_def)
        then show ?thesis
          using True Inr Some o silent_owner [OF o]
          by (auto simp: handle_agent_observer_event_def Let_def not_out_reply split: sum.splits bool.splits)
      qed
    qed
  qed
  then show False using assms by simp
qed

lemma ephemeral_out:
  assumes "went_out node (handle_ephemeral_event w ev pk cl node)"
  shows "dw_verify w ev = VerifyOk \<and> channel_licence w ev pk cl node"
proof (rule ccontr)
  assume no: "\<not> ?thesis"
  have "\<not> went_out node (handle_ephemeral_event w ev pk cl node)"
  proof (cases "dw_verify w ev = VerifyOk")
    case False
    then show ?thesis
      by (auto simp: handle_ephemeral_event_def Let_def not_out_reply split: verify_outcome.splits)
  next
    case True
    let ?n = "record_presence w ev cl pk node"
    have says: "member_says w ?n = member_says w node"
      by (simp add: fun_eq_iff member_says_def record_presence_def Let_def)
    obtain ch where ch: "extract_channel_id (membership_env w (cl_tenant cl) (Inr False)) ev = Some ch"
      "\<not> member_says w node (cl_tenant cl) ch pk" "dw_visibility w (cl_tenant cl) ch \<noteq> Inr ''open''"
      using no True by (auto simp: channel_licence_def)
    obtain verdict n where m: "is_member_cached w (cl_tenant cl) ch pk ?n = (verdict, n)" by fastforce
    have "verdict \<noteq> Inr True" using is_member_cached_says [OF m] ch(2) says by simp
    then have "\<exists>msg. check_channel_membership (membership_env w (cl_tenant cl) verdict) ch pk None = Inl msg"
      using ch(3) by (auto simp: check_channel_membership_def membership_env_def Let_def split: sum.splits bool.splits)
    then obtain msg where "ephemeral_membership w (cl_tenant cl) ch pk ?n = (Inl msg, n)"
      using m by (auto simp: ephemeral_membership_def)
    then show ?thesis
      using True ch(1) not_out_reply [OF silent_trans [OF silent_presence silent_member [OF m]]]
      by (simp add: handle_ephemeral_event_def Let_def)
  qed
  then show False using assms by simp
qed

section \<open>The presence record\<close>

lemma fan_out_presence:
  "dn_presence (snd (send_fanout_frames ev xs node)) = dn_presence node"
  "dn_presence (snd (members_only w c ch xs node)) = dn_presence node"
  by (induction xs arbitrary: node)
    (auto simp: is_member_cached_def case_prod_unfold split: option.splits sum.splits)

lemma gate_presence: "dn_presence (snd (filter_fanout_by_access w c se ms threaded node)) = dn_presence node"
  using fan_out_presence(2)
  by (auto simp: filter_fanout_by_access_def channel_visibility_cached_def Let_def split: option.splits sum.splits if_splits)

lemma presence_frame [simp]:
  "dn_presence (reply_ok cl i ok msg node) = dn_presence node"
  "dn_presence (publish_event w c ch ev node) = dn_presence node"
  "dn_presence (fan_out_event_to_local_subscribers w c se node) = dn_presence node"
  subgoal by (simp add: reply_ok_def)
  subgoal by (simp add: publish_event_def mark_local_event_def unmark_local_event_def Let_def)
  subgoal using fan_out_presence(1) gate_presence [of w c se _ None node]
    by (auto simp: fan_out_event_to_local_subscribers_def split: prod.splits) (metis snd_conv)+
  done

lemma observer_presence: "dn_presence (handle_agent_observer_event w ev cl node) = dn_presence node"
proof -
  have owner: "dn_presence n = dn_presence node" if "observer_owner_check w cl route node = (res, n)" for route res n
    using that by (auto simp: observer_owner_check_def Let_def split: option.splits sum.splits auth_state.splits if_splits)
  have rate: "dn_presence n = dn_presence m" if "observer_frame_rate_limited t c agent m = (res, n)" for t c agent m res n
    using that by (auto simp: observer_frame_rate_limited_def Let_def split: option.splits prod.splits if_splits)
  show ?thesis
    by (auto simp: handle_agent_observer_event_def Let_def split: verify_outcome.splits sum.splits option.splits prod.splits
        bool.splits if_splits dest!: owner rate)
qed

lemma ephemeral_presence:
  "dn_presence (handle_ephemeral_event w ev pk cl node) =
     (if dw_verify w ev = VerifyOk then dn_presence (record_presence w ev cl pk node) else dn_presence node)"
proof -
  have member: "dn_presence n = dn_presence m" if "ephemeral_membership w c ch pk m = (res, n)" for c ch m res n
    using that by (auto simp: ephemeral_membership_def is_member_cached_def split: prod.splits option.splits sum.splits)
  show ?thesis
    by (auto simp: handle_ephemeral_event_def Let_def split: verify_outcome.splits option.splits sum.splits prod.splits
        dest!: member)
qed

text \<open>Something of the event left the relay: it went out, or Redis got a presence record.\<close>

definition left_relay :: "delivery_node \<Rightarrow> delivery_node \<Rightarrow> bool" where
  "left_relay node node' \<longleftrightarrow> went_out node node' \<or> dn_presence node' \<noteq> dn_presence node"

text \<open>The presence record of the author in the client's community was all that left.\<close>

definition only_presence :: "nostr_event \<Rightarrow> client \<Rightarrow> delivery_node \<Rightarrow> delivery_node \<Rightarrow> bool" where
  "only_presence ev cl node node' \<longleftrightarrow>
     ev_kind ev = KIND_PRESENCE_UPDATE \<and> \<not> went_out node node' \<and>
     (\<exists>status. dn_presence node' = dn_presence node @ [(cl_tenant cl, ev_pubkey ev, status)])"

text \<open>
  C7: When anything of an ephemeral event or an observer frame leaves the relay - a frame to a connection, a
  publication, a presence record - the client was authenticated as its author with the scope to write and
  the signature was verified. An observer frame is fresh, encrypted, between an agent and another key, and
  that key is the agent's owner. An ephemeral event of a channel comes from a member or the channel is open,
  and from a token that covers the channel; with two exceptions, which the code leaves: a presence update
  that is refused for its channel has by then recorded its author's own presence, and nothing else leaves;
  and the channels of a restricted token are not consulted (\<open>ephemeral_ignores_token_channels\<close>).
\<close>

theorem live_client_events_are_authorized:
  fixes w :: delivery_world and ev :: nostr_event and cl :: client and node :: delivery_node
    and ingest :: "nostr_event \<Rightarrow> ingest_auth \<Rightarrow> delivery_node \<Rightarrow> (ingest_error + ingest_result) \<times> delivery_node"
  defines "node' \<equiv> handle_event w ingest ev cl node"
  assumes "left_relay node node'"
    and "ev_kind ev = KIND_AGENT_OBSERVER_FRAME \<or> is_ephemeral (ev_kind ev)"
  shows "\<exists>ctx. cl_auth cl = Authenticated ctx \<and> ev_pubkey ev = ac_pubkey ctx \<and>
    (ac_scopes ctx = [] \<or> MessagesWrite \<in> set (ac_scopes ctx)) \<and> dw_verify w ev = VerifyOk \<and>
    (if ev_kind ev = KIND_AGENT_OBSERVER_FRAME then \<exists>route. observer_licence w ev cl node route
     else ephemeral_licence w ev ctx cl node \<or>
       only_presence ev cl node node' \<or>
       ac_channel_ids ctx \<noteq> None \<and> channel_licence w ev (ac_pubkey ctx) cl node)"
proof (cases "cl_auth cl")
  case (Authenticated ctx)
  have kinds: "ev_kind ev \<noteq> KIND_GIFT_WRAP"
    using assms(3) by (auto simp: is_ephemeral_def kind_consts EPHEMERAL_KIND_MIN_def)
  have licence: "channel_licence w ev (ac_pubkey ctx) cl node \<Longrightarrow>
      ephemeral_licence w ev ctx cl node \<or> ac_channel_ids ctx \<noteq> None \<and> channel_licence w ev (ac_pubkey ctx) cl node"
    by (auto simp: ephemeral_licence_def)
  show ?thesis
  proof (cases "went_out node node'")
    case True
    then show ?thesis
      using assms(3) Authenticated kinds licence observer_out [of node w ev cl] ephemeral_out [of node w ev "ac_pubkey ctx" cl]
      unfolding node'_def by (auto simp: handle_event_def Let_def not_out_reply split: if_splits)
  next
    case False
    then have changed: "dn_presence node' \<noteq> dn_presence node" using assms(2) by (simp add: left_relay_def)
    then have shape: "ev_pubkey ev = ac_pubkey ctx" "ac_scopes ctx = [] \<or> MessagesWrite \<in> set (ac_scopes ctx)"
      "node' = handle_ephemeral_event w ev (ac_pubkey ctx) cl node" "ev_kind ev \<noteq> KIND_AGENT_OBSERVER_FRAME"
      using assms(3) Authenticated kinds unfolding node'_def
      by (auto simp: handle_event_def Let_def observer_presence split: if_splits)
    have after: "dn_presence node' = (if dw_verify w ev = VerifyOk
        then dn_presence (record_presence w ev cl (ac_pubkey ctx) node) else dn_presence node)"
      unfolding shape(3) by (rule ephemeral_presence)
    have verified: "dw_verify w ev = VerifyOk" using changed after by (cases "dw_verify w ev = VerifyOk") simp_all
    then have recorded: "dn_presence node' = dn_presence (record_presence w ev cl (ac_pubkey ctx) node)" using after by simp
    then have "ev_kind ev = KIND_PRESENCE_UPDATE"
      using changed by (cases "ev_kind ev = KIND_PRESENCE_UPDATE") (simp_all add: record_presence_def)
    then have "only_presence ev cl node node'"
      using recorded False shape(1) by (simp add: only_presence_def record_presence_def Let_def)
    then show ?thesis using Authenticated shape(1,2,4) verified by (intro exI [of _ ctx]) simp
  qed
qed (use assms(2) in \<open>auto simp: node'_def left_relay_def handle_event_def Let_def not_out_reply\<close>)

section \<open>A small node\<close>

definition live_world :: delivery_world where
  "live_world =
     \<lparr>dw_visibility = (\<lambda>_ ch. Inr (if ch = ''c2'' then ''open'' else ''private'')), dw_member = (\<lambda>_ _ pk. Inr (pk = ''bb'')),
      dw_agent_owner = (\<lambda>_ _ _. Inr True), dw_publish = (\<lambda>_. True), dw_audit = (\<lambda>_. True), dw_verify = (\<lambda>_. VerifyOk),
      dw_json_status = (\<lambda>_. None), dw_pubkey = Some, dw_uuid = Some, dw_relay_pubkey = ''ee'', dw_instant = 0, dw_unix = 5\<rparr>"

definition live_entry :: "string \<Rightarrow> relay_message conn_entry" where
  "live_entry pk =
     \<lparr>ce_out = \<lparr>ob_sent = [], ob_tries = 0, ob_takes = \<lambda>_. SendOk, ob_count = 0, ob_grace = 3, ob_cancelled = False\<rparr>,
      ce_ctrl = demo_ctrl, ce_community = ''com'', ce_pubkey = Some pk\<rparr>"

definition live_node :: "nfilter \<Rightarrow> uuid option \<Rightarrow> delivery_node" where
  "live_node f channel =
     \<lparr>dn_manager = \<lparr>cm_connections = [(''k'', live_entry ''bb''), (''l'', live_entry ''cc'')], cm_draining = False\<rparr>,
      dn_registry = snd (register_scoped ''com'' ''k'' ''s'' [f] channel
        (snd (register_scoped ''com'' ''l'' ''s'' [f] channel registry_new))),
      dn_local_ids = [], dn_members = [], dn_visibility = [], dn_owners = [], dn_rates = [], dn_publishes = [],
      dn_presence = [], dn_audit = None, dn_workflows = []\<rparr>"

definition live_event :: "nat \<Rightarrow> tag list \<Rightarrow> nostr_event" where
  "live_event kind tags =
     \<lparr>ev_id = ''e1'', ev_pubkey = ''bb'', ev_created_at = 5, ev_kind = kind, ev_tags = tags, ev_content = ''hi''\<rparr>"

text \<open>The outboxes after a delivery.\<close>

definition boxes :: "delivery_node \<Rightarrow> (conn_id \<times> relay_message list) list" where
  "boxes node = map (\<lambda>(k, e). (k, ob_sent (ce_out e))) (cm_connections (dn_manager node))"

definition ids_filter :: nfilter where
  "ids_filter = empty_filter\<lparr>f_ids := Some [''e1'']\<rparr>"

lemmas live_defs = live_world_def live_entry_def live_node_def live_event_def ids_filter_def empty_filter_def demo_ctrl_def
  boxes_def registry_new_def

lemmas live_eval = fan_out_pubsub_event_def fan_out_event_to_local_subscribers_def filter_fanout_by_access_def
  author_gate_def shared_gate_def channel_visibility_cached_def send_to_def client_send_def pubkey_for_conn_def community_for_conn_def stored_event_new_def

lemmas routing_eval = register_scoped_def remove_subscription_def add_to_index_def extract_kinds_from_filters_def
  extract_global_p_kind_index_keys_def index_push_def fan_out_scoped_def fan_out_with_def push_candidates_def push_match_def
  event_p_tag_values_def push_p_tag_def filters_match_def filter_match_one_def push_new_def tag_kind_def tag_content_def
  stored_event_new_def ck_key_def tag_constraint_ok_def

lemmas dispatch_eval = dispatch_persistent_event_def dispatch_persistent_event_inner_def enqueue_event_created_audit_def
  publish_event_def mark_local_event_def unmark_local_event_def private_event_owner_def triggers_workflows_def Let_def

lemmas kind_eval = kind_consts AUTHOR_ONLY_KINDS_def SHARED_GATED_KINDS_def is_shared_gated_kind_def

text \<open>
  The gate that leaves a private event to its owner stands in the dispatch on the node that stored the
  event. A node that gets it over Redis sends it to every connection with a subscription by id without
  kinds, which every client may open.
\<close>

lemma private_events_leak_across_nodes:
  "req_gates [ids_filter] ''bb'' = None"
  "reader_authorized_for_event (live_event KIND_AGENT_TURN_METRIC [[''p'', ''cc'']]) ''bb'' = False"
  "boxes (fan_out_pubsub_event live_world ''com'' None (live_event KIND_AGENT_TURN_METRIC [[''p'', ''cc'']]) (live_node ids_filter None)) =
     [(''k'', [EventMsg ''s'' (live_event KIND_AGENT_TURN_METRIC [[''p'', ''cc'']])]),
      (''l'', [EventMsg ''s'' (live_event KIND_AGENT_TURN_METRIC [[''p'', ''cc'']])])]"
  "boxes (dispatch_persistent_event live_world ''com'' (stored_event_new 0 (live_event KIND_AGENT_TURN_METRIC [[''p'', ''cc'']]) None)
      KIND_AGENT_TURN_METRIC ''bb'' None (live_node ids_filter None)) =
     [(''k'', []), (''l'', [EventMsg ''s'' (live_event KIND_AGENT_TURN_METRIC [[''p'', ''cc'']])])]"
  subgoal by (simp add: req_gates_def p_gated_filters_authorized_def engram_filters_authorized_def author_only_filters_authorized_def
      ids_filter_def empty_filter_def has_ids_def)
  subgoal by (simp add: reader_authorized_for_event_def live_event_def tag_kind_def tag_content_def kind_consts)
  subgoal by (simp add: live_eval routing_eval live_defs kind_eval)
  subgoal by (simp add: dispatch_eval live_eval routing_eval live_defs kind_eval)
  done

text \<open>
  An ephemeral event goes to a channel that the client's token does not cover; a stored event to the same
  channel would be refused.
\<close>

definition narrow_client :: client where
  "narrow_client =
     \<lparr>cl_conn_id = ''k'', cl_tenant = ''com'',
      cl_auth = Authenticated \<lparr>ac_pubkey = ''bb'', ac_scopes = [MessagesWrite], ac_channel_ids = Some [''c1''], ac_agent_owner = None\<rparr>\<rparr>"

definition typing_event :: nostr_event where
  "typing_event = live_event 20002 [[''h'', ''c2'']]"

lemma ephemeral_ignores_token_channels:
  "check_token_channel_access (Nip42 ''bb'' [MessagesWrite] (Some [''c1'']) ''k'') ''c2'' \<noteq> Inr ()"
  "dn_publishes (handle_event live_world ingest typing_event narrow_client (live_node ids_filter None)) =
     [(''com'', Some ''c2'', typing_event)]"
  subgoal by (simp add: check_token_channel_access_def auth_channel_ids_def)
  subgoal by (simp add: handle_event_def handle_ephemeral_event_def record_presence_def ephemeral_membership_def
      is_member_cached_def check_channel_membership_def membership_env_def extract_channel_id_def channel_of_tag_def
      narrow_client_def typing_event_def is_ephemeral_def EPHEMERAL_KIND_MIN_def EPHEMERAL_KIND_MAX_def
      live_eval dispatch_eval routing_eval live_defs kind_eval)
  done

section \<open>The properties at work\<close>

lemma live_events_reach_only_the_entitled_witness:
  "\<exists>k m. got (live_node ids_filter None) (fan_out_pubsub_event live_world ''com'' None (live_event 9 []) (live_node ids_filter None)) k m \<and>
     to_entitled live_world (live_node ids_filter None) ''com'' (stored_event_new (dw_instant live_world) (live_event 9 []) None) None k m"
proof -
  let ?node = "live_node ids_filter None" and ?m = "EventMsg ''s'' (live_event 9 [])"
  have got: "got ?node (fan_out_pubsub_event live_world ''com'' None (live_event 9 []) ?node) ''k'' ?m"
    by (simp add: got_def live_eval routing_eval live_defs kind_eval)
  have "\<not> to_unfenced live_world ?node ''com'' (stored_event_new (dw_instant live_world) (live_event 9 []) None) None ''k'' ?m"
    by (simp add: to_unfenced_def viewer_private_def stored_event_new_def live_event_def kind_consts)
  with got live_events_reach_only_the_entitled [where w = live_world and node = ?node and c = "''com''" and ch = None and
      ev = "live_event 9 []" and k = "''k''" and m = ?m] show ?thesis by blast
qed

lemma own_echo_is_dropped_witness:
  "fan_out_pubsub_event live_world ''com'' None (live_event 9 [])
     (snd (dispatch_persistent_event_inner live_world ''com'' (stored_event_new 0 (live_event 9 []) None) 9 ''bb'' False None
       (live_node ids_filter None))) =
   unmark_local_event ''com'' ''e1''
     (snd (dispatch_persistent_event_inner live_world ''com'' (stored_event_new 0 (live_event 9 []) None) 9 ''bb'' False None
       (live_node ids_filter None)))"
  using own_echo_is_dropped [of live_world "live_node ids_filter None" live_world "''com''" None
      "stored_event_new 0 (live_event 9 []) None" 9 "''bb''" False None "''com''" "live_event 9 []"]
  by (simp add: live_world_def stored_event_new_def live_event_def)

lemma cached_visibility_never_opens_witness:
  "dw_visibility live_world ''com'' ''c2'' = Inr ''open''"
proof -
  let ?node = "live_node ids_filter None" and ?ops = "[LookupVisibility live_world ''com'' ''c1'' None]"
  have "channel_visibility_cached live_world ''com'' ''c2'' None (foldl cache_step ?node ?ops) =
      (Inr ''open'', foldl cache_step ?node ?ops)"
    by (simp add: channel_visibility_cached_def live_world_def live_node_def)
  from cached_visibility_never_opens [OF _ this] show ?thesis by (simp add: live_node_def)
qed

lemma observer_frame_rate_is_bounded_witness:
  "passed (rate_run ''com'' ''aa'' [5, 6, 7] (live_node ids_filter None)) = 3"
  using observer_frame_rate_is_bounded [of 5 "[6, 7]" "live_node ids_filter None" "''com''" "''aa''"]
  by (simp add: live_node_def)

lemma live_client_events_are_authorized_witness:
  "member_says live_world (live_node ids_filter None) ''com'' ''c2'' ''bb'' \<or> dw_visibility live_world ''com'' ''c2'' = Inr ''open''"
proof -
  let ?node = "live_node ids_filter None"
  have out: "left_relay ?node (handle_event live_world (\<lambda>_ _ n. (Inl (Internal ''''), n)) typing_event narrow_client ?node)"
    unfolding left_relay_def went_out_def ephemeral_ignores_token_channels(2) by (simp add: live_node_def)
  have kinds: "ev_kind typing_event = KIND_AGENT_OBSERVER_FRAME \<or> is_ephemeral (ev_kind typing_event)"
    "ev_kind typing_event \<noteq> KIND_AGENT_OBSERVER_FRAME" "ev_kind typing_event \<noteq> KIND_PRESENCE_UPDATE"
    by (simp_all add: typing_event_def live_event_def is_ephemeral_def kind_consts EPHEMERAL_KIND_MIN_def EPHEMERAL_KIND_MAX_def)
  with live_client_events_are_authorized [OF out]
  have "channel_licence live_world typing_event ''bb'' narrow_client ?node"
    by (auto simp: narrow_client_def ephemeral_licence_def only_presence_def)
  then show ?thesis
    by (simp add: channel_licence_def extract_channel_id_def channel_of_tag_def typing_event_def live_event_def membership_env_def
        live_world_def narrow_client_def tag_kind_def tag_content_def)
qed

end
