(* ===== verification/Spec2Isabelle.thy ===== *)
theory Spec2Isabelle
  imports Prelude Text Kinds Filters Subscriptions EventQueue GitPerms GitPolicy Pairing PairingQr
    AudioRoom AuditLog Mesh SdkChecks SdkMessages SdkGit SdkCommands SdkProjects
    IngestRules IngestEnvelopes IngestPipeline IngestContracts
    SessionLease HuddleOwner MeshWire ReliableStream HuddleControl
    EventStore Connections ReqHandler ReadPaths Delivery LivePaths
begin

text \<open>
  A verification library of the Buzz relay, its SDK, its pairing protocol and its agent harness
  (\<open>crates/\<close>). Buzz is a Nostr relay with communities as tenants: clients connect over WebSocket,
  authenticate, send events and subscribe to them; relays of one deployment share PostgreSQL and Redis and
  reach each other over a mesh. Each theory models one part, names the files it translates and keeps
  their function and type names; a name that clashes with a library constant or with another part carries
  a prefix or a suffix.

  \<^bold>\<open>The parts and how they interact.\<close>

  \<^item> Foundations. \<open>Prelude\<close>: hash maps as association lists, bounded queues, the contracts of state machines.
    \<open>Text\<close>: Rust strings as UTF-8 bytes, splitting, trimming, printing of numbers. \<open>Kinds\<close>
    (\<open>buzz-core/src/kind.rs\<close>): the registry of event kinds, tags and events. \<open>Filters\<close>
    (\<open>buzz-core/src/filter.rs\<close>): filter matching and who may read a private event.
  \<^item> Writing. \<open>IngestRules\<close>, \<open>IngestEnvelopes\<close> and \<open>IngestPipeline\<close>
    (\<open>buzz-relay/src/handlers/ingest.rs\<close>): scopes and channel rules of every kind, envelope validators, and
    \<open>ingest_event\<close> with its gates in order, its writes as a log of calls and its dispatch.
    \<open>SdkChecks\<close>, \<open>SdkMessages\<close>, \<open>SdkGit\<close>, \<open>SdkCommands\<close> and \<open>SdkProjects\<close>
    (\<open>buzz-sdk/src/builders.rs\<close>): every event builder; \<open>IngestContracts\<close> states what the pipeline makes of
    what the builders produce.
  \<^item> Storing and reading. \<open>EventStore\<close> (\<open>buzz-db/src/event.rs\<close> and the replacement functions of
    \<open>lib.rs\<close>): the tables of events as a list of rows, with the \<open>WHERE\<close> clauses the code assembles.
    \<open>ReqHandler\<close> (\<open>handlers/req.rs\<close>, \<open>count.rs\<close>, \<open>close.rs\<close>): the handlers over those queries, the
    registry and the outbox of the connection; \<open>ReadPaths\<close> has their theorems.
  \<^item> Delivering. \<open>Subscriptions\<close> (\<open>subscription.rs\<close>): the registry and its indexes. \<open>Connections\<close>
    (\<open>state.rs\<close>): connections, backpressure, bans, drain and the admission of sockets. \<open>Delivery\<close>
    (\<open>handlers/event.rs\<close>): the EVENT handler, fan-out with its access gate, ephemeral events and
    observer frames; \<open>LivePaths\<close> has their theorems. \<open>handle_event\<close> takes the ingest pipeline as an argument.
  \<^item> Git. \<open>GitPerms\<close> (\<open>buzz-core/src/git_perms.rs\<close>, \<open>channel.rs\<close>): ref patterns, protection rules and the decision
    on a push. \<open>GitPolicy\<close> (\<open>api/git/policy.rs\<close>): the signed callback of the pre-receive hook around it.
  \<^item> Huddles. \<open>AudioRoom\<close> (\<open>audio/room.rs\<close>): rooms, peer indexes and rosters. \<open>SessionLease\<close>
    (\<open>tunnel/directory.rs\<close>): fenced leases in Redis. \<open>HuddleOwner\<close> and \<open>HuddleControl\<close>
    (\<open>audio/join.rs\<close>, \<open>audio/mesh.rs\<close>): which relay owns a huddle, its control stream and its media path over
    rooms and leases. \<open>ReliableStream\<close> (\<open>tunnel/reliable.rs\<close>): byte streams under the same leases.
  \<^item> Mesh. \<open>Mesh\<close> (\<open>buzz-relay-mesh\<close>): gossip, membership and links. \<open>MeshWire\<close>: frames on a stream.
  \<^item> Pairing. \<open>Pairing\<close> (\<open>buzz-core/src/pairing\<close>): both sessions over a network. \<open>PairingQr\<close>: the URI.
  \<^item> Agents and records. \<open>EventQueue\<close> (\<open>buzz-acp/src/queue.rs\<close>): the queue in front of an agent.
    \<open>AuditLog\<close> (\<open>buzz-audit\<close>): the hash chain of a community.

  \<^bold>\<open>What the lemmas show.\<close>

  \<^item> Writes: nothing is stored that fails a gate; by an ordinary event nothing is stored by a restricted author,
    outside the token's channels or, for the kinds the gate covers, without membership; a proper message of a
    member is stored and published; builders and validators agree.
  \<^item> Storage: a replaceable address holds exactly the newest of all events written there, in any
    order; an event of the read-state shape never replaces a newer one, deletions included.
  \<^item> Reads: REQ delivers only what the reader may read and, below the page limit, all of it that the tag columns
    of the rows say, in a bounded number of EVENT frames; COUNT covers what REQ would deliver. The places where
    COUNT differs, and the rows that a pushed tag loses, are lemmas of their own.
  \<^item> Delivery: fan-out over the indexes is a scan of all subscriptions; live frames reach only entitled
    connections and ephemeral events leave only with a licence, each up to two holes of the code that the
    theorem names; the visibility cache never opens a channel; drain and archival leave no socket behind.
  \<^item> Huddles: only the holder of the newest lease acts; joins reach a live owner; a stream that ends
    takes its peers with it; rosters on other relays follow the owner.
  \<^item> The rest: permission decisions are monotone and exact, the audit chain detects a change of a row that keeps
    its hash, the pairing payload needs both confirmations, one turn runs per channel, seeds of the mesh are attested.

  \<^bold>\<open>Contracts.\<close> \<open>machine\<close> is a deterministic component with an invariant (interpreted for the registry, queue, rooms,
  roster log, mesh, stored events and visibility cache), \<open>transition_system\<close> one with choice (queue,
  shutdown of owners, drain, admission of sockets). \<open>event_matcher\<close> is what the registry needs of a matcher,
  \<open>newest_wins\<close> what gossip needs of a merge, \<open>lease_directory\<close> what huddle joins need of the directory; each
  is interpreted on the code's own functions.

  \<^bold>\<open>Representation.\<close> A \<open>str\<close> is its UTF-8 bytes as a \<open>string\<close>; UUIDs, keys and ids are canonical text. Machine
  integers that can wrap are words or carry the \<open>mod\<close>; others are \<open>nat\<close> or \<open>int\<close>. A \<open>HashMap\<close> is an association list
  with distinct keys, in some order. Errors are values of sum types; of an error text that embeds an error
  of a library only the fixed part is kept. Panics of library calls on values the code can reach are values
  too. Times are numbers; clocks are arguments.

  \<^bold>\<open>Parameters.\<close> Signatures, hashes, key agreement, JSON, base64, UUID and date parsing, PostgreSQL, Redis, full-text
  search and the network are arguments, with what is assumed of them as hypotheses of the theorem that
  uses it. Where an answer may differ from call to call it is a function of the call's number.

  \<^bold>\<open>Bounds and fuel.\<close> The 25 attempts of a join, the 10 pages of a search, the page limit of 1000 events, the 5000
  candidates of COUNT, 1 MiB chunks, 16 MiB frames and 1024 subscriptions are the source's own numbers. The Lua scripts
  count generations in doubles: theorems bound them by \<open>10^14\<close>, below which doubles are exact. Revisions
  are bounded by \<open>2^64\<close>, rate counters by \<open>2^32\<close>.

  \<^bold>\<open>Concurrency.\<close> A function that runs under one lock or transaction is one step. Where the code has no lock around a
  sequence and it matters, the sequence is a step relation (\<open>drain_step\<close>, \<open>admit_step\<close>, \<open>owner_step\<close>) or
  a lemma about one bad interleaving. A turn of the huddle control loop is one step although the code awaits the
  directory inside it, and \<open>serve_control_loop\<close> runs over rooms that only this loop changes: what other streams
  and clients do to the same room between the turns is in \<open>AudioRoom\<close>, not there.

  \<^bold>\<open>Not modelled.\<close> Session tasks, routing, configuration and protocol text of the relay, its REST interface, the git
  transport and object store, media, database tables other than events, SQL triggers and replica routing,
  Redis clients, the conformance tracer: I/O around the modelled decisions. Agent processes, language-model and
  tool servers, the desktop and mobile applications, push gateway, voice and the Kubernetes backend:
  subprocesses, user interfaces and remote services. Metrics and logging are left out throughout.
\<close>

end
